(* ===== verification/Prelude.thy ===== *)
theory Prelude
  imports Complex_Main
begin

text \<open>
  Shared vocabulary of the development: the theorem collections the component proofs add to the
  simplifier, and generic facts on lists, options and insertion-ordered association lists (the
  model of a JavaScript Map, which iterates in insertion order).
\<close>

named_theorems js_simps \<open>evaluation of JavaScript number and string operations\<close>
named_theorems store_simps \<open>unfolding of the room-state-store operations\<close>
named_theorems ctrl_simps \<open>unfolding of the playback controllers\<close>
named_theorems svc_simps \<open>unfolding of the server-side services and gateways\<close>
named_theorems auth_simps \<open>unfolding of the authentication components\<close>

subsection \<open>JavaScript truthiness and nullish coalescing\<close>

definition nullish :: "'a option \<Rightarrow> 'a \<Rightarrow> 'a" where
  "nullish x d = (case x of None \<Rightarrow> d | Some v \<Rightarrow> v)"

lemma nullish_simps [simp]: "nullish None d = d" "nullish (Some v) d = v"
  by (simp_all add: nullish_def)

text \<open>A string option that is \<^emph>\<open>truthy\<close>: present and not empty.\<close>

definition truthy :: "string option \<Rightarrow> bool" where
  "truthy x = (case x of None \<Rightarrow> False | Some s \<Rightarrow> s \<noteq> [])"

lemma truthy_simps [simp]: "\<not> truthy None" "truthy (Some s) = (s \<noteq> [])"
  by (simp_all add: truthy_def)

lemma truthy_iff: "truthy x \<longleftrightarrow> (\<exists>s. x = Some s \<and> s \<noteq> [])"
  by (cases x) simp_all

subsection \<open>Insertion-ordered maps\<close>

text \<open>
  A JavaScript Map keeps its entries in insertion order: setting a present key keeps its place,
  setting an absent key appends, iteration goes from the oldest entry to the newest.
\<close>

type_synonym ('k, 'v) jsmap = "('k \<times> 'v) list"

primrec jm_set :: "('k, 'v) jsmap \<Rightarrow> 'k \<Rightarrow> 'v \<Rightarrow> ('k, 'v) jsmap" where
  "jm_set [] k v = [(k, v)]"
| "jm_set (e # es) k v = (if fst e = k then (k, v) # es else e # jm_set es k v)"

definition jm_get :: "('k, 'v) jsmap \<Rightarrow> 'k \<Rightarrow> 'v option" where
  "jm_get m k = map_of m k"

definition jm_del :: "('k, 'v) jsmap \<Rightarrow> 'k \<Rightarrow> ('k, 'v) jsmap" where
  "jm_del m k = filter (\<lambda>e. fst e \<noteq> k) m"

definition jm_has :: "('k, 'v) jsmap \<Rightarrow> 'k \<Rightarrow> bool" where
  "jm_has m k = (k \<in> set (map fst m))"

abbreviation jm_keys :: "('k, 'v) jsmap \<Rightarrow> 'k list" where
  "jm_keys m \<equiv> map fst m"

definition jm_ok :: "('k, 'v) jsmap \<Rightarrow> bool" where
  "jm_ok m = distinct (jm_keys m)"

lemma jm_get_empty [simp]: "jm_get [] k = None"
  by (simp add: jm_get_def)

lemma jm_get_set [simp]: "jm_get (jm_set m k v) k' = (if k' = k then Some v else jm_get m k')"
  by (induction m) (auto simp: jm_get_def)

lemma jm_get_del [simp]: "jm_get (jm_del m k) k' = (if k' = k then None else jm_get m k')"
  by (induction m) (auto simp: jm_get_def jm_del_def)

lemma jm_has_get: "jm_has m k \<longleftrightarrow> jm_get m k \<noteq> None"
  by (simp add: jm_has_def jm_get_def map_of_eq_None_iff)

lemma jm_keys_set: "jm_keys (jm_set m k v) = (if k \<in> set (jm_keys m) then jm_keys m else jm_keys m @ [k])"
  by (induction m) auto

lemma jm_ok_empty [simp]: "jm_ok []"
  by (simp add: jm_ok_def)

lemma jm_ok_set [simp]: "jm_ok m \<Longrightarrow> jm_ok (jm_set m k v)"
  unfolding jm_ok_def by (subst jm_keys_set) simp

lemma jm_ok_del [simp]: "jm_ok m \<Longrightarrow> jm_ok (jm_del m k)"
  unfolding jm_ok_def jm_del_def by (induction m) auto

lemma jm_ok_filter: "jm_ok m \<Longrightarrow> jm_ok (filter P m)"
  unfolding jm_ok_def by (induction m) auto

lemma jm_get_filter:
  "jm_ok m \<Longrightarrow> jm_get (filter (\<lambda>e. P (snd e)) m) k =
     (case jm_get m k of None \<Rightarrow> None | Some v \<Rightarrow> if P v then Some v else None)"
proof (induction m)
  case Nil
  then show ?case by simp
next
  case (Cons e es)
  obtain a b where e: "e = (a, b)" by fastforce
  have "jm_ok es" and na: "a \<notin> set (map fst es)" using Cons.prems by (auto simp: jm_ok_def e)
  then have IH: "jm_get (filter (\<lambda>e. P (snd e)) es) k =
      (case jm_get es k of None \<Rightarrow> None | Some v \<Rightarrow> if P v then Some v else None)"
    using Cons.IH by simp
  have none: "jm_get es a = None" using na by (simp add: jm_get_def map_of_eq_None_iff)
  show ?case using IH none by (auto simp: jm_get_def e split: option.splits)
qed

lemma jm_get_mem: "jm_ok m \<Longrightarrow> jm_get m k = Some v \<longleftrightarrow> (k, v) \<in> set m"
  unfolding jm_ok_def jm_get_def by simp

lemma map_of_eq_jm_get: "map_of m k = jm_get m k"
  by (simp add: jm_get_def)

subsection \<open>Lists\<close>

text \<open>Keep at most the last \<open>n\<close> entries: what a bounded push-and-shift buffer holds.\<close>

definition take_last :: "nat \<Rightarrow> 'a list \<Rightarrow> 'a list" where
  "take_last n xs = drop (length xs - n) xs"

lemma length_take_last [simp]: "length (take_last n xs) = min n (length xs)"
  by (simp add: take_last_def)

lemma last_take_last: "0 < n \<Longrightarrow> xs \<noteq> [] \<Longrightarrow> last (take_last n xs) = last xs"
  by (simp add: take_last_def last_drop)

lemma set_take_last: "set (take_last n xs) \<subseteq> set xs"
  by (simp add: take_last_def set_drop_subset)

text \<open>Every adjacent pair of a list is related.\<close>

fun chained :: "('a \<Rightarrow> 'a \<Rightarrow> bool) \<Rightarrow> 'a list \<Rightarrow> bool" where
  "chained R [] = True"
| "chained R [x] = True"
| "chained R (x # y # zs) = (R x y \<and> chained R (y # zs))"

lemma chained_tl: "chained R xs \<Longrightarrow> chained R (tl xs)"
  by (cases "(R, xs)" rule: chained.cases) auto

lemma chained_drop: "chained R xs \<Longrightarrow> chained R (drop n xs)"
  by (induction n arbitrary: xs) (auto simp: drop_Suc chained_tl)

lemma chained_snoc: "chained R (xs @ [y]) \<longleftrightarrow> chained R xs \<and> (xs \<noteq> [] \<longrightarrow> R (last xs) y)"
  by (induction R xs rule: chained.induct) auto

lemma chained_nth: "chained R xs \<longleftrightarrow> (\<forall>i. Suc i < length xs \<longrightarrow> R (xs ! i) (xs ! Suc i))"
proof (induction R xs rule: chained.induct)
  case (3 R x y zs)
  show ?case
  proof
    assume "chained R (x # y # zs)"
    then show "\<forall>i. Suc i < length (x # y # zs) \<longrightarrow> R ((x # y # zs) ! i) ((x # y # zs) ! Suc i)"
      using 3 by (auto simp: nth_Cons split: nat.splits)
  next
    assume *: "\<forall>i. Suc i < length (x # y # zs) \<longrightarrow> R ((x # y # zs) ! i) ((x # y # zs) ! Suc i)"
    have "R x y" using *[rule_format, of 0] by simp
    moreover have "\<forall>i. Suc i < length (y # zs) \<longrightarrow> R ((y # zs) ! i) ((y # zs) ! Suc i)"
      using * by fastforce
    ultimately show "chained R (x # y # zs)" using 3 by simp
  qed
qed auto

end
