(* ===== verification/JsNum.thy ===== *)
theory JsNum
  imports Prelude
begin

text \<open>
  JavaScript numbers. A number is NaN, one of the two infinities or a finite value; the special
  values are kept because the program tests for them (Number.isFinite), stores them as sentinels
  (lastSeekAt starts at -Infinity, uncertainty at Infinity, lastRtt at NaN) and relies on every
  comparison with NaN being false. Finite values are exact reals: rounding to 53 bits is not
  modelled, and the two zeros are identified. The operators below follow ECMA-262 (Number::add,
  Number::multiply, Number::divide, Number::lessThan, Math.abs, Math.max, Math.min, Math.sign).
\<close>

datatype jsnum = NaN | PInf | NInf | Fin real

definition is_fin :: "jsnum \<Rightarrow> bool" where
  "is_fin x = (case x of Fin _ \<Rightarrow> True | _ \<Rightarrow> False)"

lemma is_fin_simps [simp]: "is_fin (Fin a)" "\<not> is_fin NaN" "\<not> is_fin PInf" "\<not> is_fin NInf"
  by (simp_all add: is_fin_def)

lemma is_fin_iff: "is_fin x \<longleftrightarrow> (\<exists>a. x = Fin a)"
  by (cases x) auto

lemma is_finE [elim]: "is_fin x \<Longrightarrow> (\<And>a. x = Fin a \<Longrightarrow> P) \<Longrightarrow> P"
  by (auto simp: is_fin_iff)

text \<open>The finite part, used by specifications only.\<close>

definition fin_val :: "jsnum \<Rightarrow> real" where
  "fin_val x = (case x of Fin a \<Rightarrow> a | _ \<Rightarrow> 0)"

lemma fin_val_Fin [simp]: "fin_val (Fin a) = a"
  by (simp add: fin_val_def)

instantiation jsnum :: "{zero, one, plus, uminus, minus, times, inverse, ord, abs, sgn}"
begin

definition zero_jsnum :: jsnum where "zero_jsnum = Fin 0"
definition one_jsnum :: jsnum where "one_jsnum = Fin 1"

fun plus_jsnum :: "jsnum \<Rightarrow> jsnum \<Rightarrow> jsnum" where
  "plus_jsnum (Fin a) (Fin b) = Fin (a + b)"
| "plus_jsnum NaN _ = NaN"
| "plus_jsnum _ NaN = NaN"
| "plus_jsnum PInf NInf = NaN"
| "plus_jsnum NInf PInf = NaN"
| "plus_jsnum PInf _ = PInf"
| "plus_jsnum _ PInf = PInf"
| "plus_jsnum NInf _ = NInf"
| "plus_jsnum _ NInf = NInf"

fun uminus_jsnum :: "jsnum \<Rightarrow> jsnum" where
  "uminus_jsnum (Fin a) = Fin (- a)"
| "uminus_jsnum NaN = NaN"
| "uminus_jsnum PInf = NInf"
| "uminus_jsnum NInf = PInf"

definition minus_jsnum :: "jsnum \<Rightarrow> jsnum \<Rightarrow> jsnum" where
  "minus_jsnum x y = x + (- y)" for x y :: jsnum

fun times_jsnum :: "jsnum \<Rightarrow> jsnum \<Rightarrow> jsnum" where
  "times_jsnum (Fin a) (Fin b) = Fin (a * b)"
| "times_jsnum NaN _ = NaN"
| "times_jsnum _ NaN = NaN"
| "times_jsnum (Fin a) PInf = (if a = 0 then NaN else if 0 < a then PInf else NInf)"
| "times_jsnum (Fin a) NInf = (if a = 0 then NaN else if 0 < a then NInf else PInf)"
| "times_jsnum PInf (Fin b) = (if b = 0 then NaN else if 0 < b then PInf else NInf)"
| "times_jsnum NInf (Fin b) = (if b = 0 then NaN else if 0 < b then NInf else PInf)"
| "times_jsnum PInf PInf = PInf"
| "times_jsnum NInf NInf = PInf"
| "times_jsnum PInf NInf = NInf"
| "times_jsnum NInf PInf = NInf"

fun divide_jsnum :: "jsnum \<Rightarrow> jsnum \<Rightarrow> jsnum" where
  "divide_jsnum (Fin a) (Fin b) =
     (if b = 0 then (if a = 0 then NaN else if 0 < a then PInf else NInf) else Fin (a / b))"
| "divide_jsnum NaN _ = NaN"
| "divide_jsnum _ NaN = NaN"
| "divide_jsnum (Fin a) _ = Fin 0"
| "divide_jsnum PInf (Fin b) = (if 0 \<le> b then PInf else NInf)"
| "divide_jsnum NInf (Fin b) = (if 0 \<le> b then NInf else PInf)"
| "divide_jsnum _ _ = NaN"

definition inverse_jsnum :: "jsnum \<Rightarrow> jsnum" where
  "inverse_jsnum x = Fin 1 div x" for x :: jsnum

fun less_jsnum :: "jsnum \<Rightarrow> jsnum \<Rightarrow> bool" where
  "less_jsnum (Fin a) (Fin b) = (a < b)"
| "less_jsnum NaN _ = False"
| "less_jsnum _ NaN = False"
| "less_jsnum PInf _ = False"
| "less_jsnum NInf NInf = False"
| "less_jsnum _ PInf = True"
| "less_jsnum NInf _ = True"
| "less_jsnum (Fin _) NInf = False"

fun less_eq_jsnum :: "jsnum \<Rightarrow> jsnum \<Rightarrow> bool" where
  "less_eq_jsnum (Fin a) (Fin b) = (a \<le> b)"
| "less_eq_jsnum NaN _ = False"
| "less_eq_jsnum _ NaN = False"
| "less_eq_jsnum _ PInf = True"
| "less_eq_jsnum NInf _ = True"
| "less_eq_jsnum PInf (Fin _) = False"
| "less_eq_jsnum PInf NInf = False"
| "less_eq_jsnum (Fin _) NInf = False"

fun abs_jsnum :: "jsnum \<Rightarrow> jsnum" where
  "abs_jsnum (Fin a) = Fin (abs a)"
| "abs_jsnum NaN = NaN"
| "abs_jsnum PInf = PInf"
| "abs_jsnum NInf = PInf"

fun sgn_jsnum :: "jsnum \<Rightarrow> jsnum" where
  "sgn_jsnum (Fin a) = Fin (sgn a)"
| "sgn_jsnum NaN = NaN"
| "sgn_jsnum PInf = Fin 1"
| "sgn_jsnum NInf = Fin (- 1)"

instance ..

end

instance jsnum :: semigroup_add
proof
  fix x y z :: jsnum
  show "x + y + z = x + (y + z)"
    by (cases x; cases y; cases z) (simp_all add: add.assoc)
qed

instance jsnum :: numeral ..

lemma numeral_jsnum: "(numeral w :: jsnum) = Fin (numeral w)"
proof (induction w)
  case One
  then show ?case by (simp add: one_jsnum_def numeral_One)
next
  case (Bit0 w)
  then show ?case by (simp only: numeral_Bit0 plus_jsnum.simps)
next
  case (Bit1 w)
  then show ?case by (simp only: numeral_Bit1 one_jsnum_def plus_jsnum.simps)
qed

lemmas jsnum_consts [simp, js_simps] = zero_jsnum_def one_jsnum_def numeral_jsnum

lemma Fin_diff [simp, js_simps]: "Fin a - Fin b = Fin (a - b)"
  by (simp add: minus_jsnum_def)

lemma diff_inf_simps [simp, js_simps]:
  "Fin a - NInf = PInf" "Fin a - PInf = NInf" "PInf - Fin a = PInf" "NInf - Fin a = NInf"
  "NaN - x = NaN" "x - NaN = NaN" "PInf - PInf = NaN" "NInf - NInf = NaN"
  "PInf - NInf = PInf" "NInf - PInf = NInf"
  by (simp_all add: minus_jsnum_def) (cases x; simp)+

lemma NaN_compare [simp, js_simps]:
  "\<not> (NaN < x)" "\<not> (x < NaN)" "\<not> (NaN \<le> x)" "\<not> (x \<le> NaN)"
  by (cases x; simp)+

lemma inf_compare [simp, js_simps]:
  "(Fin a < PInf)" "(NInf < Fin a)" "\<not> (PInf < Fin a)" "\<not> (Fin a < NInf)"
  "(Fin a \<le> PInf)" "(NInf \<le> Fin a)" "\<not> (PInf \<le> Fin a)" "\<not> (Fin a \<le> NInf)"
  by simp_all

lemma jsnum_less_irrefl [simp]: "\<not> x < (x :: jsnum)"
  by (cases x) simp_all

lemma jsnum_less_trans: "x < y \<Longrightarrow> y < z \<Longrightarrow> x < (z :: jsnum)"
  by (cases x; cases y; cases z) simp_all

subsection \<open>Equality, Math and Array helpers\<close>

text \<open>The operator ===: NaN is not equal to itself.\<close>

definition js_eq :: "jsnum \<Rightarrow> jsnum \<Rightarrow> bool" where
  "js_eq x y = (x = y \<and> x \<noteq> NaN)"

lemma js_eq_simps [simp, js_simps]: "js_eq (Fin a) (Fin b) = (a = b)" "\<not> js_eq NaN x" "\<not> js_eq x NaN"
  by (auto simp: js_eq_def)

definition isFinite :: "jsnum \<Rightarrow> bool" where
  "isFinite x = is_fin x"

definition math_max :: "jsnum \<Rightarrow> jsnum \<Rightarrow> jsnum" where
  "math_max x y = (if x = NaN \<or> y = NaN then NaN else if x < y then y else x)"

definition math_min :: "jsnum \<Rightarrow> jsnum \<Rightarrow> jsnum" where
  "math_min x y = (if x = NaN \<or> y = NaN then NaN else if y < x then y else x)"

lemma math_max_Fin [simp, js_simps]: "math_max (Fin a) (Fin b) = Fin (max a b)"
  by (simp add: math_max_def max_def)

lemma math_min_Fin [simp, js_simps]: "math_min (Fin a) (Fin b) = Fin (min a b)"
  by (simp add: math_min_def min_def)

fun math_floor :: "jsnum \<Rightarrow> jsnum" where
  "math_floor (Fin a) = Fin (of_int \<lfloor>a\<rfloor>)"
| "math_floor x = x"

text \<open>
  Array.prototype.sort with a comparator: a stable sort in which an element moves in front of
  another only when the comparator is negative; a NaN verdict counts as equal.
\<close>

primrec js_insert :: "('a \<Rightarrow> 'a \<Rightarrow> jsnum) \<Rightarrow> 'a \<Rightarrow> 'a list \<Rightarrow> 'a list" where
  "js_insert c x [] = [x]"
| "js_insert c x (y # ys) = (if c y x < 0 then y # js_insert c x ys else x # y # ys)"

primrec js_sort :: "('a \<Rightarrow> 'a \<Rightarrow> jsnum) \<Rightarrow> 'a list \<Rightarrow> 'a list" where
  "js_sort c [] = []"
| "js_sort c (x # xs) = js_insert c x (js_sort c xs)"

lemma set_js_insert [simp]: "set (js_insert c x xs) = insert x (set xs)"
  by (induction xs) auto

lemma set_js_sort [simp]: "set (js_sort c xs) = set xs"
  by (induction xs) auto

lemma length_js_insert [simp]: "length (js_insert c x xs) = Suc (length xs)"
  by (induction xs) auto

lemma length_js_sort [simp]: "length (js_sort c xs) = length xs"
  by (induction xs) auto

lemma js_sort_eq_Nil [simp]: "js_sort c xs = [] \<longleftrightarrow> xs = []"
  by (metis length_0_conv length_js_sort)

lemma js_insert_Fin: "js_insert (\<lambda>a b. a - b) (Fin x) (map Fin xs) = map Fin (insort x xs)"
  by (induction xs) auto

lemma js_sort_Fin: "js_sort (\<lambda>a b. a - b) (map Fin xs) = map Fin (sort xs)"
  by (induction xs) (simp_all add: js_insert_Fin)

text \<open>The upper median, \<^verbatim>\<open>sorted[Math.floor(sorted.length / 2)]\<close>, of a non-empty array.\<close>

definition js_median :: "jsnum list \<Rightarrow> jsnum" where
  "js_median xs = (let s = js_sort (\<lambda>a b. a - b) xs in s ! (length s div 2))"

lemma half_less_length: "xs \<noteq> [] \<Longrightarrow> length xs div 2 < length xs"
  by (simp add: div_less_dividend)

lemma js_median_mem:
  assumes "xs \<noteq> []"
  shows "js_median xs \<in> set xs"
  using nth_mem [of "length xs div 2" "js_sort (\<lambda>a b. a - b) xs"] half_less_length [OF assms]
  by (simp add: js_median_def)

lemma js_median_Fin:
  assumes "xs \<noteq> []"
  shows "js_median (map Fin xs) = Fin (sort xs ! (length xs div 2))"
  using half_less_length [OF assms] by (simp add: js_median_def js_sort_Fin)

end
