(* ===== verification/JsString.thy ===== *)
theory JsString
  imports JsNum
begin

text \<open>
  JavaScript strings, as lists of code units below 256 (the model's \<^typ>\<open>char\<close>): the character
  classes and string methods the program uses, and the two conversions between strings and numbers.
  \<open>js_Number\<close> is ECMA-262 StringToNumber; \<open>js_String\<close> is Number::toString, exact on the integers
  below 10 to the 21, which is where the program's millisecond timestamps live.
\<close>

abbreviation code_of :: "char \<Rightarrow> nat" where
  "code_of c \<equiv> of_char c"

definition is_digit :: "char \<Rightarrow> bool" where
  "is_digit c = (48 \<le> code_of c \<and> code_of c \<le> 57)"

definition is_upper :: "char \<Rightarrow> bool" where
  "is_upper c = (65 \<le> code_of c \<and> code_of c \<le> 90)"

definition is_lower :: "char \<Rightarrow> bool" where
  "is_lower c = (97 \<le> code_of c \<and> code_of c \<le> 122)"

definition is_alnum :: "char \<Rightarrow> bool" where
  "is_alnum c = (is_digit c \<or> is_upper c \<or> is_lower c)"

text \<open>The class [A-Za-z0-9\_-].\<close>

definition is_idchar :: "char \<Rightarrow> bool" where
  "is_idchar c = (is_alnum c \<or> c = CHR ''_'' \<or> c = CHR ''-'')"

text \<open>White space and line terminators below 256: what trim strips and \<open>\s\<close> matches.\<close>

definition is_ws :: "char \<Rightarrow> bool" where
  "is_ws c = ((9 \<le> code_of c \<and> code_of c \<le> 13) \<or> code_of c = 32 \<or> code_of c = 160)"

definition trim :: "string \<Rightarrow> string" where
  "trim s = rev (dropWhile is_ws (rev (dropWhile is_ws s)))"

definition to_lower_char :: "char \<Rightarrow> char" where
  "to_lower_char c =
     (if is_upper c \<or> (192 \<le> code_of c \<and> code_of c \<le> 222 \<and> code_of c \<noteq> 215)
      then char_of (code_of c + 32) else c)"

definition toLowerCase :: "string \<Rightarrow> string" where
  "toLowerCase s = map to_lower_char s"

definition startsWith :: "string \<Rightarrow> string \<Rightarrow> bool" where
  "startsWith s p = (take (length p) s = p)"

definition endsWith :: "string \<Rightarrow> string \<Rightarrow> bool" where
  "endsWith s p = (length p \<le> length s \<and> drop (length s - length p) s = p)"

text \<open>String.prototype.split on a one-character separator.\<close>

fun split_on :: "char \<Rightarrow> string \<Rightarrow> string list" where
  "split_on d [] = [[]]"
| "split_on d (c # cs) =
     (if c = d then [] # split_on d cs
      else (case split_on d cs of [] \<Rightarrow> [[c]] | w # ws \<Rightarrow> (c # w) # ws))"

lemma split_on_neq_Nil [simp]: "split_on d s \<noteq> []"
  by (cases s) (auto split: list.splits)

lemma split_on_append:
  "split_on d (s @ d # t) = split_on d s @ split_on d t"
  by (induction s) (auto split: list.splits simp: append_eq_Cons_conv)

lemma split_on_no_sep: "w \<in> set (split_on d s) \<Longrightarrow> d \<notin> set w"
  by (induction s arbitrary: w) (fastforce split: list.splits if_splits)+

subsection \<open>Numbers to strings\<close>

definition digit_char :: "nat \<Rightarrow> char" where
  "digit_char n = char_of (48 + n)"

fun show_nat :: "nat \<Rightarrow> string" where
  "show_nat n = (if n < 10 then [digit_char n] else show_nat (n div 10) @ [digit_char (n mod 10)])"

declare show_nat.simps [simp del]

fun frac_digits :: "nat \<Rightarrow> real \<Rightarrow> string" where
  "frac_digits 0 x = []"
| "frac_digits (Suc k) x =
     (if x = 0 then [] else digit_char (nat \<lfloor>10 * x\<rfloor>) # frac_digits k (10 * x - of_int \<lfloor>10 * x\<rfloor>))"

definition show_nonneg :: "real \<Rightarrow> string" where
  "show_nonneg a = show_nat (nat \<lfloor>a\<rfloor>) @
     (if a = of_int \<lfloor>a\<rfloor> then [] else CHR ''.'' # frac_digits 20 (a - of_int \<lfloor>a\<rfloor>))"

fun js_String :: "jsnum \<Rightarrow> string" where
  "js_String NaN = ''NaN''"
| "js_String PInf = ''Infinity''"
| "js_String NInf = ''-Infinity''"
| "js_String (Fin a) = (if a < 0 then CHR ''-'' # show_nonneg (- a) else show_nonneg a)"

subsection \<open>Strings to numbers\<close>

definition hex_val :: "char \<Rightarrow> nat" where
  "hex_val c = (if is_digit c then code_of c - 48
     else if 97 \<le> code_of c \<and> code_of c \<le> 102 then code_of c - 87
     else if 65 \<le> code_of c \<and> code_of c \<le> 70 then code_of c - 55 else 99)"

definition digits_val :: "nat \<Rightarrow> string \<Rightarrow> nat" where
  "digits_val b s = foldl (\<lambda>acc c. acc * b + hex_val c) 0 s"

text \<open>An integer literal in base \<open>b\<close> after its prefix.\<close>

definition radix_literal :: "nat \<Rightarrow> string \<Rightarrow> jsnum" where
  "radix_literal b s = (if s = [] \<or> list_ex (\<lambda>c. b \<le> hex_val c) s then NaN else Fin (of_nat (digits_val b s)))"

fun exponent_part :: "string \<Rightarrow> int option" where
  "exponent_part [] = Some 0"
| "exponent_part (c # t) =
     (if c = CHR ''e'' \<or> c = CHR ''E'' then
        (let neg = (t \<noteq> [] \<and> hd t = CHR ''-'');
             ds = (if t \<noteq> [] \<and> (hd t = CHR ''-'' \<or> hd t = CHR ''+'') then tl t else t)
         in if ds = [] \<or> \<not> list_all is_digit ds then None
            else Some (if neg then - int (digits_val 10 ds) else int (digits_val 10 ds)))
      else None)"

definition scale10 :: "nat \<Rightarrow> int \<Rightarrow> real" where
  "scale10 m e = (if 0 \<le> e then of_nat m * 10 ^ nat e else of_nat m / 10 ^ nat (- e))"

definition unsigned_decimal :: "string \<Rightarrow> jsnum" where
  "unsigned_decimal s =
     (if s = ''Infinity'' then PInf else
      let ip = takeWhile is_digit s; r1 = dropWhile is_digit s;
          frac = (case r1 of [] \<Rightarrow> False | c # _ \<Rightarrow> c = CHR ''.'');
          fp = (if frac then takeWhile is_digit (tl r1) else []);
          r2 = (if frac then dropWhile is_digit (tl r1) else r1)
      in if ip = [] \<and> fp = [] then NaN
         else (case exponent_part r2 of None \<Rightarrow> NaN
               | Some e \<Rightarrow> Fin (scale10 (digits_val 10 (ip @ fp)) (e - int (length fp)))))"

definition js_Number :: "string \<Rightarrow> jsnum" where
  "js_Number s = (let t = trim s in
     if t = [] then 0
     else if take 2 t = ''0x'' \<or> take 2 t = ''0X'' then radix_literal 16 (drop 2 t)
     else if take 2 t = ''0o'' \<or> take 2 t = ''0O'' then radix_literal 8 (drop 2 t)
     else if take 2 t = ''0b'' \<or> take 2 t = ''0B'' then radix_literal 2 (drop 2 t)
     else if hd t = CHR ''-'' then - unsigned_decimal (tl t)
     else if hd t = CHR ''+'' then unsigned_decimal (tl t)
     else unsigned_decimal t)"

subsection \<open>The conversions are inverse on natural numbers\<close>

lemma is_digit_digit_char [simp]: "n < 10 \<Longrightarrow> is_digit (digit_char n)"
  by (simp add: is_digit_def digit_char_def)

lemma hex_val_digit_char [simp]: "n < 10 \<Longrightarrow> hex_val (digit_char n) = n"
  by (simp add: hex_val_def is_digit_def digit_char_def)

lemma show_nat_neq_Nil [simp]: "show_nat n \<noteq> []"
  by (subst show_nat.simps) simp

lemma show_nat_digits: "list_all is_digit (show_nat n)"
proof (induction n rule: show_nat.induct)
  case (1 n)
  then show ?case by (subst show_nat.simps) simp
qed

lemma digits_val_snoc: "digits_val b (s @ [c]) = digits_val b s * b + hex_val c"
  by (simp add: digits_val_def)

lemma digits_val_show_nat [simp]: "digits_val 10 (show_nat n) = n"
proof (induction n rule: show_nat.induct)
  case (1 n)
  show ?case
  proof (cases "n < 10")
    case True
    then show ?thesis by (subst show_nat.simps) (simp add: digits_val_def)
  next
    case False
    with 1 have "digits_val 10 (show_nat (n div 10)) = n div 10" by simp
    with False show ?thesis by (subst show_nat.simps) (simp add: digits_val_snoc)
  qed
qed

lemma digit_not_ws: "is_digit c \<Longrightarrow> \<not> is_ws c"
  by (auto simp: is_digit_def is_ws_def)

lemma trim_digits: assumes "list_all is_digit s" shows "trim s = s"
proof -
  have id: "dropWhile is_ws t = t" if "list_all is_digit t" for t
    using that digit_not_ws by (cases t) auto
  from assms have "list_all is_digit (rev s)" by (simp add: list_all_iff)
  with assms id show ?thesis by (simp add: trim_def)
qed

lemma takeWhile_digits [simp]: "list_all is_digit s \<Longrightarrow> takeWhile is_digit s = s"
  and dropWhile_digits [simp]: "list_all is_digit s \<Longrightarrow> dropWhile is_digit s = []"
  by (simp_all add: list_all_iff takeWhile_eq_all_conv dropWhile_eq_Nil_conv)

lemma unsigned_decimal_digits:
  assumes "list_all is_digit s" "s \<noteq> []"
  shows "unsigned_decimal s = Fin (of_nat (digits_val 10 s))"
proof -
  have "\<not> is_digit (CHR ''I'')" by (simp add: is_digit_def)
  then have "s \<noteq> ''Infinity''" using assms(1) by auto
  with assms show ?thesis by (simp add: unsigned_decimal_def Let_def scale10_def)
qed

lemma js_Number_digits:
  assumes d: "list_all is_digit s" and ne: "s \<noteq> []"
  shows "js_Number s = Fin (of_nat (digits_val 10 s))"
proof -
  have pre: "take 2 s \<noteq> [CHR ''0'', c]" if "\<not> is_digit c" for c
    using d that by (cases s; cases "tl s") (auto simp: numeral_2_eq_2)
  have hd: "is_digit (hd s)" using d ne by (cases s) auto
  have "hd s \<noteq> CHR ''-''" "hd s \<noteq> CHR ''+''" using hd by (auto simp: is_digit_def)
  moreover have "\<not> is_digit (CHR ''x'')" "\<not> is_digit (CHR ''X'')" "\<not> is_digit (CHR ''o'')"
      "\<not> is_digit (CHR ''O'')" "\<not> is_digit (CHR ''b'')" "\<not> is_digit (CHR ''B'')"
    by (simp_all add: is_digit_def)
  ultimately show ?thesis
    using pre ne by (simp add: js_Number_def Let_def trim_digits [OF d] unsigned_decimal_digits [OF d ne])
qed

lemma js_Number_show_nat [simp]: "js_Number (show_nat n) = Fin (of_nat n)"
  by (simp add: js_Number_digits [OF show_nat_digits])

lemma show_nonneg_nat [simp]:
  "show_nonneg (of_nat n) = show_nat n" "show_nonneg (numeral w) = show_nat (numeral w)"
  "show_nonneg 0 = show_nat 0" "show_nonneg 1 = show_nat 1"
  by (simp_all add: show_nonneg_def)

lemma js_Number_String_nat: "js_Number (js_String (Fin (of_nat n))) = Fin (of_nat n)"
  by simp

lemma show_nat_inject [simp]: "show_nat m = show_nat n \<longleftrightarrow> m = n"
  by (metis digits_val_show_nat)

subsection \<open>Untyped values\<close>

text \<open>
  What arrives over the wire or inside a decoded token: a value whose type the program tests with
  typeof before it uses it. Booleans, objects and arrays all fail those tests alike.
\<close>

datatype jsval = JUndef | JNull | JNum jsnum | JStr string | JOther

definition is_integer :: "jsnum \<Rightarrow> bool" where
  "is_integer x = (case x of Fin a \<Rightarrow> a \<in> \<int> | _ \<Rightarrow> False)"

lemma is_integer_iff: "is_integer x \<longleftrightarrow> (\<exists>i. x = Fin (of_int i))"
  by (cases x) (auto simp: is_integer_def Ints_def)

text \<open>Splitting at runs of white space, \<^verbatim>\<open>split(/\s+/)\<close>.\<close>

function split_ws :: "string \<Rightarrow> string list" where
  "split_ws s =
     (let w = takeWhile (\<lambda>c. \<not> is_ws c) s; r = dropWhile (\<lambda>c. \<not> is_ws c) s in
      if r = [] then [w] else w # split_ws (dropWhile is_ws r))"
  by pat_completeness auto

termination split_ws
proof (relation "measure length")
  fix s w r :: string
  assume *: "w = takeWhile (\<lambda>c. \<not> is_ws c) s" "r = dropWhile (\<lambda>c. \<not> is_ws c) s" "r \<noteq> []"
  from *(3) obtain c cs where "r = c # cs" by (cases r) auto
  moreover have "is_ws c" using *(2) \<open>r = c # cs\<close> by (metis hd_dropWhile list.distinct(1) list.sel(1))
  moreover have "length r \<le> length s" using *(2) by (simp add: length_dropWhile_le)
  ultimately show "(dropWhile is_ws r, s) \<in> measure length"
    using length_dropWhile_le [of is_ws cs] by simp
qed simp

declare split_ws.simps [simp del]

lemma split_ws_word: "list_all (\<lambda>c. \<not> is_ws c) s \<Longrightarrow> split_ws s = [s]"
  by (subst split_ws.simps) (simp add: list_all_iff Let_def dropWhile_eq_Nil_conv [THEN iffD2] takeWhile_eq_all_conv [THEN iffD2])

end
