(* ===== verification/Timeline.thy ===== *)
theory Timeline
  imports JsString
begin

text \<open>
  The wire protocol's Timeline (shared/sync-protocol.ts) and the pure functions on it
  (shared/sync-core/timeline.ts): projecting the media position, the ordering rule clients apply to
  received timelines, restamping a control intent and re-anchoring a snapshot.
\<close>

subsection \<open>Data\<close>

text \<open>
  The reason field is one of the literals 'play', 'pause', 'seek', 'set-video', 'join', 'snapshot',
  'succession'; the program casts strings read from Redis to that union unchecked, so it is a string.
\<close>

type_synonym reason = string

datatype intent = Play | Pause | Seek | SetVideo

record timeline =
  seq :: int
  storeEpoch :: string
  videoId :: "string option"
  isPlaying :: bool
  mediaTime :: jsnum
  stampedAt :: jsnum
  rate :: jsnum
  reason_of :: reason
  by_user :: "string option"

text \<open>
  The type Omit<Timeline, 'seq'> of the two pure transformers: a timeline whose number the store
  still has to assign. \<open>with_seq\<close> is the spread \<^verbatim>\<open>{...next, seq: n}\<close>.
\<close>

record unstamped =
  u_storeEpoch :: string
  u_videoId :: "string option"
  u_isPlaying :: bool
  u_mediaTime :: jsnum
  u_stampedAt :: jsnum
  u_rate :: jsnum
  u_reason :: reason
  u_by :: "string option"

definition with_seq :: "unstamped \<Rightarrow> int \<Rightarrow> timeline" where
  "with_seq u n =
     \<lparr>seq = n, storeEpoch = u_storeEpoch u, videoId = u_videoId u, isPlaying = u_isPlaying u,
      mediaTime = u_mediaTime u, stampedAt = u_stampedAt u, rate = u_rate u, reason_of = u_reason u,
      by_user = u_by u\<rparr>"

lemma with_seq_simps [simp]:
  "seq (with_seq u n) = n" "storeEpoch (with_seq u n) = u_storeEpoch u"
  "videoId (with_seq u n) = u_videoId u" "isPlaying (with_seq u n) = u_isPlaying u"
  "mediaTime (with_seq u n) = u_mediaTime u" "stampedAt (with_seq u n) = u_stampedAt u"
  "rate (with_seq u n) = u_rate u" "reason_of (with_seq u n) = u_reason u"
  "by_user (with_seq u n) = u_by u"
  by (simp_all add: with_seq_def)

subsection \<open>Operations\<close>

definition projectMediaTime :: "timeline \<Rightarrow> jsnum \<Rightarrow> jsnum" where
  "projectMediaTime tml serverNow =
     (if \<not> isPlaying tml then mediaTime tml
      else mediaTime tml + ((serverNow - stampedAt tml) / 1000) * rate tml)"

definition isNewer :: "timeline \<Rightarrow> timeline option \<Rightarrow> bool" where
  "isNewer incoming applied = (case applied of
     None \<Rightarrow> True
   | Some ap \<Rightarrow>
       (let a = js_Number (storeEpoch incoming); b = js_Number (storeEpoch ap) in
        if isFinite a \<and> isFinite b \<and> \<not> js_eq a b then b < a
        else if storeEpoch incoming \<noteq> storeEpoch ap then b < a
        else seq ap < seq incoming))"

definition control_base :: "timeline \<Rightarrow> jsnum \<Rightarrow> string \<Rightarrow> bool \<Rightarrow> jsnum \<Rightarrow> reason \<Rightarrow> unstamped" where
  "control_base prev serverNow usr playing mt rsn =
     \<lparr>u_storeEpoch = storeEpoch prev, u_videoId = videoId prev, u_isPlaying = playing,
      u_mediaTime = mt, u_stampedAt = serverNow, u_rate = 1, u_reason = rsn, u_by = Some usr\<rparr>"

definition applyControl ::
  "timeline \<Rightarrow> intent \<Rightarrow> jsnum \<Rightarrow> jsnum \<Rightarrow> string \<Rightarrow> string option option \<Rightarrow> unstamped" where
  "applyControl prev it mt serverNow usr vid = (case it of
     Play \<Rightarrow> control_base prev serverNow usr True mt ''play''
   | Pause \<Rightarrow> control_base prev serverNow usr False mt ''pause''
   | Seek \<Rightarrow> control_base prev serverNow usr (isPlaying prev) mt ''seek''
   | SetVideo \<Rightarrow> (control_base prev serverNow usr False 0 ''set-video'')\<lparr>u_videoId := nullish vid None\<rparr>)"

definition snapshot :: "timeline \<Rightarrow> jsnum \<Rightarrow> unstamped" where
  "snapshot tml serverNow =
     \<lparr>u_storeEpoch = storeEpoch tml, u_videoId = videoId tml, u_isPlaying = isPlaying tml,
      u_mediaTime = projectMediaTime tml serverNow, u_stampedAt = serverNow, u_rate = 1,
      u_reason = ''snapshot'', u_by = None\<rparr>"

text \<open>The three observers of a controlled state, on every branch.\<close>

lemma applyControl_fields:
  "u_isPlaying (applyControl prev it mt now usr vid) =
     (case it of Play \<Rightarrow> True | Seek \<Rightarrow> isPlaying prev | _ \<Rightarrow> False)"
  "u_mediaTime (applyControl prev it mt now usr vid) = (if it = SetVideo then 0 else mt)"
  "u_videoId (applyControl prev it mt now usr vid) =
     (if it = SetVideo then nullish vid None else videoId prev)"
  "u_stampedAt (applyControl prev it mt now usr vid) = now"
  "u_rate (applyControl prev it mt now usr vid) = 1"
  "u_storeEpoch (applyControl prev it mt now usr vid) = storeEpoch prev"
  "u_by (applyControl prev it mt now usr vid) = Some usr"
  "u_reason (applyControl prev it mt now usr vid) =
     (case it of Play \<Rightarrow> ''play'' | Pause \<Rightarrow> ''pause'' | Seek \<Rightarrow> ''seek'' | SetVideo \<Rightarrow> ''set-video'')"
  by (cases it; simp add: applyControl_def control_base_def)+

lemma snapshot_fields [simp]:
  "u_isPlaying (snapshot tml now) = isPlaying tml" "u_mediaTime (snapshot tml now) = projectMediaTime tml now"
  "u_videoId (snapshot tml now) = videoId tml" "u_stampedAt (snapshot tml now) = now"
  "u_rate (snapshot tml now) = 1" "u_storeEpoch (snapshot tml now) = storeEpoch tml"
  "u_by (snapshot tml now) = None" "u_reason (snapshot tml now) = ''snapshot''"
  by (simp_all add: snapshot_def)

subsection \<open>Well-formed timelines\<close>

text \<open>What every committed timeline satisfies: finite position and stamp, rate 1, a decimal epoch.\<close>

definition tl_fin :: "timeline \<Rightarrow> bool" where
  "tl_fin tml = (is_fin (mediaTime tml) \<and> is_fin (stampedAt tml) \<and> rate tml = 1)"

lemma tl_finE:
  assumes "tl_fin tml"
  obtains m s where "mediaTime tml = Fin m" "stampedAt tml = Fin s" "rate tml = 1"
  using assms by (auto simp: tl_fin_def is_fin_iff)

lemma projectMediaTime_Fin:
  assumes "mediaTime tml = Fin m" "stampedAt tml = Fin s" "rate tml = 1"
  shows "projectMediaTime tml (Fin t) = Fin (if isPlaying tml then m + (t - s) / 1000 else m)"
  using assms by (simp add: projectMediaTime_def)

lemma projectMediaTime_fin: "tl_fin tml \<Longrightarrow> is_fin (projectMediaTime tml (Fin t))"
  by (elim tl_finE) (simp add: projectMediaTime_Fin)

lemma tl_fin_snapshot: "tl_fin tml \<Longrightarrow> tl_fin (with_seq (snapshot tml (Fin t)) n)"
  using projectMediaTime_fin by (auto simp: tl_fin_def)

lemma tl_fin_applyControl: "tl_fin (with_seq (applyControl tml it (Fin m) (Fin t) usr vid) n)"
  by (simp add: tl_fin_def applyControl_fields)

subsection \<open>Projection\<close>

text \<open>
  Re-anchoring is invisible: for every later instant, the snapshot projects to the position the
  timeline it was taken from projects to.
\<close>

lemma snapshot_keeps_projection:
  assumes "tl_fin tml"
  shows "projectMediaTime (with_seq (snapshot tml (Fin t)) n) (Fin t') = projectMediaTime tml (Fin t')"
proof -
  obtain m s where ms: "mediaTime tml = Fin m" "stampedAt tml = Fin s" "rate tml = 1"
    using assms by (rule tl_finE)
  note p = projectMediaTime_Fin [OF ms]
  have "projectMediaTime (with_seq (snapshot tml (Fin t)) n) (Fin t')
      = Fin (if isPlaying tml then (m + (t - s) / 1000) + (t' - t) / 1000 else m)"
    by (subst projectMediaTime_Fin [where m = "if isPlaying tml then m + (t - s) / 1000 else m" and s = t])
      (simp_all add: p)
  then show ?thesis by (simp add: p field_simps)
qed

text \<open>A control is anchored at its commanded position, and only a playing room moves away from it.\<close>

lemma applyControl_projection:
  "projectMediaTime (with_seq (applyControl prev it (Fin m) (Fin t) usr vid) n) (Fin t') =
     Fin ((if it = SetVideo then 0 else m) +
          (if it = Play \<or> (it = Seek \<and> isPlaying prev) then (t' - t) / 1000 else 0))"
  by (cases it) (simp_all add: projectMediaTime_def applyControl_fields)

subsection \<open>The client ordering rule\<close>

text \<open>
  Epochs are decimal millisecond stamps. On those the rule is the lexicographic order of
  (epoch, seq).
\<close>

definition epoch_is :: "timeline \<Rightarrow> nat \<Rightarrow> bool" where
  "epoch_is tml e = (storeEpoch tml = show_nat e)"

definition wf_epoch :: "timeline \<Rightarrow> bool" where
  "wf_epoch tml = (\<exists>e. epoch_is tml e)"

definition version_of :: "timeline \<Rightarrow> nat \<times> int" where
  "version_of tml = (digits_val 10 (storeEpoch tml), seq tml)"

definition newer_version :: "nat \<times> int \<Rightarrow> nat \<times> int \<Rightarrow> bool" where
  "newer_version v w = (fst w < fst v \<or> (fst v = fst w \<and> snd w < snd v))"

lemma isNewer_version:
  assumes "wf_epoch x" "wf_epoch y"
  shows "isNewer x (Some y) = newer_version (version_of x) (version_of y)"
  using assms
  by (auto simp: wf_epoch_def epoch_is_def isNewer_def version_of_def newer_version_def isFinite_def Let_def)

text \<open>A client's receive step (SyncEngine.onTimeline): keep the newer of the two.\<close>

definition receive :: "timeline option \<Rightarrow> timeline \<Rightarrow> timeline option" where
  "receive applied incoming = (if isNewer incoming applied then Some incoming else applied)"

subsection \<open>Deliveries in any order\<close>

text \<open>
  What a client keeps of a stream of deliveries, for any item type whose newer-than test is the
  lexicographic order of a version. The result is an item of the greatest version, whatever the
  order and multiplicity of the deliveries.
\<close>

lemma newer_version_irrefl: "\<not> newer_version v v"
  by (simp add: newer_version_def)

lemma newer_version_trans: "newer_version u v \<Longrightarrow> newer_version v w \<Longrightarrow> newer_version u w"
  by (auto simp: newer_version_def)

lemma newer_version_total: "newer_version v w \<or> v = w \<or> newer_version w v"
  by (cases v; cases w) (auto simp: newer_version_def)

lemma newer_version_asym: "newer_version v w \<Longrightarrow> \<not> newer_version w v"
  by (auto simp: newer_version_def)

lemma not_newer_trans: "\<not> newer_version u v \<Longrightarrow> \<not> newer_version v w \<Longrightarrow> \<not> newer_version u w"
  by (auto simp: newer_version_def)

locale delivery_order =
  fixes ok :: "'a \<Rightarrow> bool"
    and newer :: "'a \<Rightarrow> 'a option \<Rightarrow> bool"
    and ver :: "'a \<Rightarrow> nat \<times> int"
  assumes newer_None: "ok x \<Longrightarrow> newer x None"
    and newer_Some: "ok x \<Longrightarrow> ok y \<Longrightarrow> newer x (Some y) = newer_version (ver x) (ver y)"
begin

definition keep :: "'a option \<Rightarrow> 'a \<Rightarrow> 'a option" where
  "keep a x = (if newer x a then Some x else a)"

lemma keep_list:
  assumes "\<forall>x\<in>set xs. ok x" and "ok m"
  shows "\<exists>r. foldl keep (Some m) xs = Some r \<and> r \<in> insert m (set xs) \<and>
    (\<forall>y\<in>insert m (set xs). \<not> newer_version (ver y) (ver r))"
  using assms
proof (induction xs arbitrary: m)
  case Nil
  then show ?case by (simp add: newer_version_irrefl)
next
  case (Cons x xs)
  define m' where "m' = (if newer_version (ver x) (ver m) then x else m)"
  have k: "keep (Some m) x = Some m'"
    using Cons.prems by (simp add: keep_def m'_def newer_Some)
  have ok': "ok m'" using Cons.prems by (simp add: m'_def)
  obtain r where r: "foldl keep (Some m') xs = Some r" "r \<in> insert m' (set xs)"
      "\<forall>y\<in>insert m' (set xs). \<not> newer_version (ver y) (ver r)"
    using Cons.IH [OF _ ok'] Cons.prems by auto
  have "\<not> newer_version (ver y) (ver r)" if "y \<in> {x, m}" for y
  proof (rule not_newer_trans)
    show "\<not> newer_version (ver y) (ver m')"
      using that by (auto simp: m'_def newer_version_irrefl dest: newer_version_asym)
    show "\<not> newer_version (ver m') (ver r)" using r(3) by simp
  qed
  moreover have "r \<in> insert m (set (x # xs))"
    using r(2) by (auto simp: m'_def split: if_splits)
  ultimately show ?case using r k by auto
qed

lemma keep_None:
  assumes "\<forall>x\<in>set xs. ok x" "xs \<noteq> []"
  shows "\<exists>r. foldl keep None xs = Some r \<and> r \<in> set xs \<and>
    (\<forall>y\<in>set xs. \<not> newer_version (ver y) (ver r))"
proof -
  obtain x ys where xs: "xs = x # ys" using assms(2) by (cases xs) auto
  have "keep None x = Some x" using assms(1) by (simp add: keep_def newer_None xs)
  then show ?thesis using keep_list [of ys x] assms(1) by (auto simp: xs)
qed

lemma keep_order_free:
  assumes "set xs = set ys" "\<forall>x\<in>set xs. ok x" "inj_on ver (set xs)"
  shows "foldl keep None xs = foldl keep None ys"
proof (cases "xs = []")
  case True
  with assms(1) show ?thesis by simp
next
  case False
  then have "ys \<noteq> []" using assms(1) by auto
  obtain r where r: "foldl keep None xs = Some r" "r \<in> set xs"
      "\<forall>y\<in>set xs. \<not> newer_version (ver y) (ver r)"
    using keep_None [OF assms(2) False] by blast
  obtain r' where r': "foldl keep None ys = Some r'" "r' \<in> set ys"
      "\<forall>y\<in>set ys. \<not> newer_version (ver y) (ver r')"
    using keep_None [of ys] \<open>ys \<noteq> []\<close> assms(1,2) by metis
  have "ver r = ver r'" using r r' assms(1) newer_version_total by blast
  then have "r = r'" using assms(1,3) r(2) r'(2) by (auto dest: inj_onD)
  with r r' show ?thesis by simp
qed

end

interpretation client: delivery_order wf_epoch isNewer version_of
  by unfold_locales (simp add: isNewer_def, simp add: isNewer_version)

lemma client_keep: "client.keep = receive"
  by (simp add: fun_eq_iff client.keep_def receive_def)

end
