(* ===== verification/Replay.thy ===== *)
theory Replay
  imports Timeline
begin

text \<open>
  The replay checker (shared/sync-core/replay.ts): the legal-transition contract between two
  consecutive log entries, the chain check over a retained log and the comparison of the newest
  entry with the live timeline. The contract is written independently of the code that commits.
\<close>

record log_entry =
  le_seq :: int
  le_storeEpoch :: string
  le_videoId :: "string option"
  le_isPlaying :: bool
  le_mediaTime :: jsnum
  le_stampedAt :: jsnum
  le_reason :: string
  le_by :: "string option"
  le_cmdId :: "string option"

text \<open>The violation descriptions, one constructor per message, with the values it prints.\<close>

datatype violation =
    SeqNotContiguous int int
  | StampRegressed jsnum jsnum
  | SetVideoPlaying
  | SetVideoPosition jsnum
  | VideoChanged "string option" "string option"
  | PlayNotPlaying
  | PausePlaying
  | SeekFlipped
  | SnapshotFlipped
  | SnapshotMoved jsnum jsnum
  | UnknownReason string

definition CONTROL_REASONS :: "string list" where
  "CONTROL_REASONS = [''play'', ''pause'', ''seek'']"

definition EPS :: jsnum where
  "EPS = Fin (1 / 1000000)"

definition differs :: "jsnum \<Rightarrow> jsnum \<Rightarrow> bool" where
  "differs a b = (\<not> isFinite a \<or> \<not> isFinite b \<or> EPS < \<bar>a - b\<bar>)"

definition toTimeline :: "log_entry \<Rightarrow> timeline" where
  "toTimeline e =
     \<lparr>seq = le_seq e, storeEpoch = le_storeEpoch e, videoId = le_videoId e, isPlaying = le_isPlaying e,
      mediaTime = le_mediaTime e, stampedAt = le_stampedAt e, rate = 1, reason_of = le_reason e,
      by_user = (if truthy (le_by e) then le_by e else None)\<rparr>"

definition checkTransition :: "log_entry \<Rightarrow> log_entry \<Rightarrow> violation option" where
  "checkTransition prev nxt =
     (if le_storeEpoch nxt \<noteq> le_storeEpoch prev then None
      else if le_seq nxt \<noteq> le_seq prev + 1 then Some (SeqNotContiguous (le_seq prev) (le_seq nxt))
      else if le_stampedAt nxt < le_stampedAt prev
        then Some (StampRegressed (le_stampedAt prev) (le_stampedAt nxt))
      else if le_reason nxt = ''set-video'' then
        (if le_isPlaying nxt then Some SetVideoPlaying
         else if differs (le_mediaTime nxt) 0 then Some (SetVideoPosition (le_mediaTime nxt))
         else None)
      else if le_videoId nxt \<noteq> le_videoId prev
        then Some (VideoChanged (le_videoId prev) (le_videoId nxt))
      else if le_reason nxt \<in> set CONTROL_REASONS then
        (if le_reason nxt = ''play'' \<and> \<not> le_isPlaying nxt then Some PlayNotPlaying
         else if le_reason nxt = ''pause'' \<and> le_isPlaying nxt then Some PausePlaying
         else if le_reason nxt = ''seek'' \<and> le_isPlaying nxt \<noteq> le_isPlaying prev then Some SeekFlipped
         else None)
      else if le_reason nxt = ''snapshot'' then
        (if le_isPlaying nxt \<noteq> le_isPlaying prev then Some SnapshotFlipped
         else let projected = projectMediaTime (toTimeline prev) (le_stampedAt nxt) in
           if differs (le_mediaTime nxt) projected then Some (SnapshotMoved projected (le_mediaTime nxt))
           else None)
      else Some (UnknownReason (le_reason nxt)))"

record chain_report =
  checked :: nat
  violations :: "(nat \<times> int \<times> violation) list"

text \<open>The loop over \<open>i = 1 ..< length\<close>: entry \<open>i\<close> against entry \<open>i - 1\<close>.\<close>

fun chain_from :: "nat \<Rightarrow> log_entry list \<Rightarrow> (nat \<times> int \<times> violation) list" where
  "chain_from i (a # b # es) =
     (case checkTransition a b of None \<Rightarrow> [] | Some v \<Rightarrow> [(i, le_seq b, v)]) @ chain_from (Suc i) (b # es)"
| "chain_from i _ = []"

definition checkChain :: "log_entry list \<Rightarrow> chain_report" where
  "checkChain entries = \<lparr>checked = length entries - 1, violations = chain_from 1 entries\<rparr>"

datatype mismatch =
    EpochMismatch string string
  | SeqMismatch int int
  | PlayingMismatch bool bool
  | PositionMismatch jsnum jsnum
  | ReasonMismatch string string
  | StampMismatch jsnum jsnum
  | VideoMismatch "string option" "string option"

definition entryMatchesLive :: "log_entry \<Rightarrow> timeline \<Rightarrow> mismatch option" where
  "entryMatchesLive lst live =
     (if le_storeEpoch lst \<noteq> storeEpoch live then Some (EpochMismatch (le_storeEpoch lst) (storeEpoch live))
      else if le_seq lst \<noteq> seq live then Some (SeqMismatch (le_seq lst) (seq live))
      else if le_isPlaying lst \<noteq> isPlaying live then Some (PlayingMismatch (le_isPlaying lst) (isPlaying live))
      else if differs (le_mediaTime lst) (mediaTime live)
        then Some (PositionMismatch (le_mediaTime lst) (mediaTime live))
      else if le_reason lst \<noteq> reason_of live then Some (ReasonMismatch (le_reason lst) (reason_of live))
      else if \<not> js_eq (le_stampedAt lst) (stampedAt live)
        then Some (StampMismatch (le_stampedAt lst) (stampedAt live))
      else if le_videoId lst \<noteq> videoId live then Some (VideoMismatch (le_videoId lst) (videoId live))
      else None)"

subsection \<open>The chain check is the pairwise contract\<close>

abbreviation legal :: "log_entry \<Rightarrow> log_entry \<Rightarrow> bool" where
  "legal a b \<equiv> checkTransition a b = None"

lemma chain_from_Nil_iff: "chain_from i es = [] \<longleftrightarrow> chained legal es"
  by (induction i es rule: chain_from.induct) (auto split: option.splits)

lemma checkChain_clean_iff: "violations (checkChain es) = [] \<longleftrightarrow> chained legal es"
  by (simp add: checkChain_def chain_from_Nil_iff)

lemma chain_from_complete:
  assumes "Suc k < length es" "checkTransition (es ! k) (es ! Suc k) = Some v"
  shows "(i + k, le_seq (es ! Suc k), v) \<in> set (chain_from i es)"
  using assms
proof (induction i es arbitrary: k rule: chain_from.induct)
  case (1 i a b es)
  show ?case
  proof (cases k)
    case 0
    with 1 show ?thesis by simp
  next
    case (Suc j)
    with 1(1) [of j] 1(2,3) show ?thesis by simp
  qed
qed simp_all

text \<open>Float slack: two equal finite numbers do not differ, and NaN differs from everything.\<close>

lemma differs_refl [simp]: "differs (Fin a) (Fin a) = False"
  by (simp add: differs_def isFinite_def EPS_def)

lemma differs_nonfinite: "\<not> is_fin a \<or> \<not> is_fin b \<Longrightarrow> differs a b"
  by (auto simp: differs_def isFinite_def)

lemma differs_Fin: "differs (Fin a) (Fin b) \<longleftrightarrow> 1 / 1000000 < \<bar>a - b\<bar>"
  by (simp add: differs_def isFinite_def EPS_def)

text \<open>
  What a clean pair says: the seq advanced by one, time did not go back, the video changed only by a
  set-video, and each reason left the state it promises.
\<close>

lemma legal_seq: "legal a b \<Longrightarrow> le_storeEpoch b = le_storeEpoch a \<Longrightarrow> le_seq b = le_seq a + 1"
  by (simp add: checkTransition_def split: if_splits)

lemma legal_video:
  "legal a b \<Longrightarrow> le_storeEpoch b = le_storeEpoch a \<Longrightarrow> le_videoId b \<noteq> le_videoId a \<Longrightarrow>
     le_reason b = ''set-video'' \<and> \<not> le_isPlaying b \<and> \<not> differs (le_mediaTime b) 0"
  by (simp add: checkTransition_def split: if_splits)

lemma legal_playing:
  "legal a b \<Longrightarrow> le_storeEpoch b = le_storeEpoch a \<Longrightarrow> le_isPlaying b \<noteq> le_isPlaying a \<Longrightarrow>
     le_reason b = (if le_isPlaying b then ''play'' else ''pause'') \<or> le_reason b = ''set-video''"
  by (auto simp: checkTransition_def CONTROL_REASONS_def split: if_splits)

lemma legal_snapshot:
  "legal a b \<Longrightarrow> le_storeEpoch b = le_storeEpoch a \<Longrightarrow> le_reason b = ''snapshot'' \<Longrightarrow>
     \<not> differs (le_mediaTime b) (projectMediaTime (toTimeline a) (le_stampedAt b))"
  by (simp add: checkTransition_def CONTROL_REASONS_def Let_def split: if_splits)

text \<open>Along a clean chain of one epoch the seq numbers are consecutive.\<close>

lemma chained_seq:
  assumes "chained legal es" "\<forall>e\<in>set es. le_storeEpoch e = ep" "i < length es"
  shows "le_seq (es ! i) = le_seq (es ! 0) + int i"
  using assms(3)
proof (induction i)
  case 0
  then show ?case by simp
next
  case (Suc i)
  then have "legal (es ! i) (es ! Suc i)" using assms(1) by (auto simp: chained_nth)
  moreover have "le_storeEpoch (es ! Suc i) = le_storeEpoch (es ! i)"
    using assms(2) Suc.prems by (metis Suc_lessD nth_mem)
  ultimately show ?case using Suc legal_seq by fastforce
qed

end
