(* ===== verification/RoomStore.thy ===== *)
theory RoomStore
  imports Replay
begin

text \<open>
  The authority seam for room playback state (sync/room-state.store.ts): the interface every store
  implements, as a record of operations and a locale of laws, and the in-memory implementation.
\<close>

subsection \<open>The interface\<close>

datatype outcome =
    Committed timeline
  | Duplicate timeline
  | Fenced timeline
  | Forwarded
  | Missing

text \<open>
  The optional argument of applyControl. \<open>o_videoId\<close> and \<open>o_forVideoId\<close> distinguish
  undefined (\<^term>\<open>None\<close>) from null (\<^term>\<open>Some None\<close>).
\<close>

record apply_opts =
  o_cmdId :: "string option"
  o_originSocketId :: "string option"
  o_videoId :: "string option option"
  o_forVideoId :: "string option option"

definition no_opts :: apply_opts where
  "no_opts = \<lparr>o_cmdId = None, o_originSocketId = None, o_videoId = None, o_forVideoId = None\<rparr>"

definition SWEEP_INTERVAL_MS :: jsnum where "SWEEP_INTERVAL_MS = 10000"
definition SWEEP_DEDUP_PERIOD_MS :: jsnum where "SWEEP_DEDUP_PERIOD_MS = SWEEP_INTERVAL_MS"
definition CMD_DEDUP_TTL_MS :: jsnum where "CMD_DEDUP_TTL_MS = 15 * 60000"

lemma CMD_DEDUP_TTL_Fin: "CMD_DEDUP_TTL_MS = Fin 900000"
  by (simp add: CMD_DEDUP_TTL_MS_def)

text \<open>The TypeScript interface RoomStateStore: what a service is handed at construction.\<close>

record 's store_ops =
  so_get :: "'s \<Rightarrow> string \<Rightarrow> timeline option"
  so_applyControl ::
    "'s \<Rightarrow> string \<Rightarrow> intent \<Rightarrow> jsnum \<Rightarrow> jsnum \<Rightarrow> string \<Rightarrow> apply_opts \<Rightarrow> 's \<times> outcome"
  so_applySnapshot :: "'s \<Rightarrow> string \<Rightarrow> jsnum \<Rightarrow> 's \<times> timeline option"
  so_init :: "'s \<Rightarrow> string \<Rightarrow> string option \<Rightarrow> jsnum \<Rightarrow> jsnum \<Rightarrow> 's \<times> timeline"
  so_clear :: "'s \<Rightarrow> string \<Rightarrow> 's"

text \<open>
  The fence condition shared by every store: a position command minted against a video the room
  no longer shows.
\<close>

definition fence_hits :: "timeline \<Rightarrow> intent \<Rightarrow> apply_opts \<Rightarrow> bool" where
  "fence_hits prev it opts =
     (o_forVideoId opts \<noteq> None \<and> it \<noteq> SetVideo \<and> Some (videoId prev) \<noteq> o_forVideoId opts)"

text \<open>
  The weakest reading of the fence, which every store honours: some stores encode a null video as
  the empty string and cannot tell the two apart.
\<close>

definition same_video :: "string option \<Rightarrow> string option \<Rightarrow> bool" where
  "same_video x y = (nullish x [] = nullish y [])"

definition fence_passes :: "timeline \<Rightarrow> intent \<Rightarrow> apply_opts \<Rightarrow> bool" where
  "fence_passes prev it opts =
     (it = SetVideo \<or> (case o_forVideoId opts of None \<Rightarrow> True | Some x \<Rightarrow> same_video x (videoId prev)))"

lemma fence_passes_if: "\<not> fence_hits prev it opts \<Longrightarrow> fence_passes prev it opts"
  by (auto simp: fence_hits_def fence_passes_def same_video_def split: option.splits)

subsection \<open>The in-memory store\<close>

record mem_store =
  rooms :: "string \<rightharpoonup> timeline"
  cmdSeen :: "string \<rightharpoonup> (string \<rightharpoonup> jsnum)"
  logs :: "string \<rightharpoonup> log_entry list"

definition mem_empty :: mem_store where
  "mem_empty = \<lparr>rooms = Map.empty, cmdSeen = Map.empty, logs = Map.empty\<rparr>"

definition entry_of :: "timeline \<Rightarrow> string option \<Rightarrow> log_entry" where
  "entry_of tml cmd =
     \<lparr>le_seq = seq tml, le_storeEpoch = storeEpoch tml, le_videoId = videoId tml,
      le_isPlaying = isPlaying tml, le_mediaTime = mediaTime tml, le_stampedAt = stampedAt tml,
      le_reason = reason_of tml, le_by = by_user tml, le_cmdId = cmd\<rparr>"

definition LOG_MAX :: nat where "LOG_MAX = 1024"

definition push_log :: "log_entry list \<Rightarrow> log_entry \<Rightarrow> log_entry list" where
  "push_log es e = (let es' = es @ [e] in if LOG_MAX < length es' then tl es' else es')"

definition appendLog :: "mem_store \<Rightarrow> string \<Rightarrow> timeline \<Rightarrow> string option \<Rightarrow> mem_store" where
  "appendLog st roomCode tml cmd =
     st\<lparr>logs := (logs st)(roomCode \<mapsto> push_log (nullish (logs st roomCode) []) (entry_of tml cmd))\<rparr>"

definition getLog :: "mem_store \<Rightarrow> string \<Rightarrow> log_entry list" where
  "getLog st roomCode = nullish (logs st roomCode) []"

definition mem_get :: "mem_store \<Rightarrow> string \<Rightarrow> timeline option" where
  "mem_get st roomCode = rooms st roomCode"

text \<open>Lazy expiry: an expired record is no record.\<close>

definition prune_seen :: "(string \<rightharpoonup> jsnum) \<Rightarrow> jsnum \<Rightarrow> (string \<rightharpoonup> jsnum)" where
  "prune_seen seen now = (\<lambda>i. case seen i of None \<Rightarrow> None | Some ex \<Rightarrow> if ex \<le> now then None else Some ex)"

text \<open>
  The handler in source order: missing room, dup lookup (expiry first), fence, dedup record, commit.
  The expiry loop deletes inside the stored Map, so a fenced command still leaves it pruned; a Map
  that was only created for the lookup is not stored on that path.
\<close>

definition mem_applyControl ::
  "mem_store \<Rightarrow> string \<Rightarrow> intent \<Rightarrow> jsnum \<Rightarrow> jsnum \<Rightarrow> string \<Rightarrow> apply_opts \<Rightarrow> mem_store \<times> outcome" where
  "mem_applyControl st roomCode it mt serverNow usr opts =
     (case rooms st roomCode of
        None \<Rightarrow> (st, Missing)
      | Some prev \<Rightarrow>
          (let cmdId = o_cmdId opts;
               seen = nullish (cmdSeen st roomCode) Map.empty;
               seen' = (if truthy cmdId then prune_seen seen serverNow else seen);
               st' = (if cmdSeen st roomCode = None then st
                      else st\<lparr>cmdSeen := (cmdSeen st)(roomCode \<mapsto> seen')\<rparr>)
           in if truthy cmdId \<and> seen' (the cmdId) \<noteq> None
              then (st\<lparr>cmdSeen := (cmdSeen st)(roomCode \<mapsto> seen')\<rparr>, Duplicate prev)
              else if fence_hits prev it opts then (st', Fenced prev)
              else
                (let st'' = (if truthy cmdId
                       then st\<lparr>cmdSeen := (cmdSeen st)
                             (roomCode \<mapsto> seen'(the cmdId \<mapsto> serverNow + CMD_DEDUP_TTL_MS))\<rparr>
                       else st');
                     nxt = with_seq (applyControl prev it mt serverNow usr (o_videoId opts)) (seq prev + 1)
                 in (appendLog (st''\<lparr>rooms := (rooms st'')(roomCode \<mapsto> nxt)\<rparr>) roomCode nxt cmdId,
                     Committed nxt))))"

definition mem_applySnapshot :: "mem_store \<Rightarrow> string \<Rightarrow> jsnum \<Rightarrow> mem_store \<times> timeline option" where
  "mem_applySnapshot st roomCode serverNow =
     (case rooms st roomCode of
        None \<Rightarrow> (st, None)
      | Some prev \<Rightarrow>
          (let nxt = with_seq (snapshot prev serverNow) (seq prev + 1)
           in (appendLog (st\<lparr>rooms := (rooms st)(roomCode \<mapsto> nxt)\<rparr>) roomCode nxt None, Some nxt)))"

definition created_timeline :: "string option \<Rightarrow> jsnum \<Rightarrow> jsnum \<Rightarrow> timeline" where
  "created_timeline vid mt serverNow =
     \<lparr>seq = 0, storeEpoch = js_String serverNow, videoId = vid, isPlaying = False, mediaTime = mt,
      stampedAt = serverNow, rate = 1, reason_of = ''join'', by_user = None\<rparr>"

definition mem_init ::
  "mem_store \<Rightarrow> string \<Rightarrow> string option \<Rightarrow> jsnum \<Rightarrow> jsnum \<Rightarrow> mem_store \<times> timeline" where
  "mem_init st roomCode vid mt serverNow =
     (case rooms st roomCode of
        Some existing \<Rightarrow> (st, existing)
      | None \<Rightarrow>
          (let created = created_timeline vid mt serverNow
           in (appendLog (st\<lparr>rooms := (rooms st)(roomCode \<mapsto> created)\<rparr>) roomCode created None, created)))"

definition mem_clear :: "mem_store \<Rightarrow> string \<Rightarrow> mem_store" where
  "mem_clear st roomCode =
     st\<lparr>logs := (logs st)(roomCode := None), cmdSeen := (cmdSeen st)(roomCode := None),
        rooms := (rooms st)(roomCode := None)\<rparr>"

definition mem_ops :: "mem_store store_ops" where
  "mem_ops = \<lparr>so_get = mem_get, so_applyControl = mem_applyControl, so_applySnapshot = mem_applySnapshot,
     so_init = mem_init, so_clear = mem_clear\<rparr>"

lemma appendLog_simps [simp]:
  "rooms (appendLog st r t c) = rooms st" "cmdSeen (appendLog st r t c) = cmdSeen st"
  "logs (appendLog st r t c) = (logs st)(r \<mapsto> push_log (nullish (logs st r) []) (entry_of t c))"
  by (simp_all add: appendLog_def)

lemma entry_of_simps [simp]:
  "le_seq (entry_of t c) = seq t" "le_storeEpoch (entry_of t c) = storeEpoch t"
  "le_videoId (entry_of t c) = videoId t" "le_isPlaying (entry_of t c) = isPlaying t"
  "le_mediaTime (entry_of t c) = mediaTime t" "le_stampedAt (entry_of t c) = stampedAt t"
  "le_reason (entry_of t c) = reason_of t" "le_by (entry_of t c) = by_user t"
  "le_cmdId (entry_of t c) = c"
  by (simp_all add: entry_of_def)

lemma push_log_neq_Nil [simp]: "push_log L e \<noteq> []"
  by (cases L) (simp_all add: push_log_def Let_def LOG_MAX_def)

lemma last_push_log [simp]: "last (push_log L e) = e"
  by (cases L) (simp_all add: push_log_def Let_def LOG_MAX_def)

lemma chained_push_log:
  assumes "chained R L" "L \<noteq> [] \<Longrightarrow> R (last L) e"
  shows "chained R (push_log L e)"
proof -
  have "chained R (L @ [e])" using assms by (simp add: chained_snoc)
  then show ?thesis using chained_tl [of R "L @ [e]"] by (simp add: push_log_def Let_def)
qed

lemma length_push_log: "length L \<le> LOG_MAX \<Longrightarrow> length (push_log L e) \<le> LOG_MAX"
  by (cases L) (simp_all add: push_log_def Let_def LOG_MAX_def)

subsection \<open>The laws of the interface\<close>

text \<open>
  What a client of a store relies on: a commit numbers the timeline one past the one it replaces, in
  the same epoch, and is what a later read returns; a refusal changes no room; a fenced command is
  never committed; operations on one room do not touch another.
\<close>

locale room_state_store =
  fixes ops :: "'s store_ops"
    and inv :: "'s \<Rightarrow> bool"
  assumes apply_inv: "inv s \<Longrightarrow> so_applyControl ops s r it mt now u opts = (s', out) \<Longrightarrow> inv s'"
    and snap_inv: "inv s \<Longrightarrow> so_applySnapshot ops s r now = (s', t) \<Longrightarrow> inv s'"
    and init_inv: "inv s \<Longrightarrow> so_init ops s r vid mt now = (s', t') \<Longrightarrow> inv s'"
    and clear_inv: "inv s \<Longrightarrow> inv (so_clear ops s r)"
    and committed: "inv s \<Longrightarrow> so_applyControl ops s r it mt now u opts = (s', Committed t') \<Longrightarrow>
      so_get ops s' r = Some t' \<and>
      (\<exists>p. so_get ops s r = Some p \<and> seq t' = seq p + 1 \<and> storeEpoch t' = storeEpoch p \<and>
        fence_passes p it opts \<and>
        isPlaying t' = (case it of Play \<Rightarrow> True | Seek \<Rightarrow> isPlaying p | _ \<Rightarrow> False) \<and>
        mediaTime t' = (if it = SetVideo then 0 else mt))"
    and refused: "inv s \<Longrightarrow> so_applyControl ops s r it mt now u opts = (s', out) \<Longrightarrow>
      out = Duplicate t' \<or> out = Fenced t' \<Longrightarrow>
      so_get ops s r = Some t' \<and> so_get ops s' r = Some t'"
    and missing: "inv s \<Longrightarrow> so_applyControl ops s r it mt now u opts = (s', Missing) \<Longrightarrow>
      so_get ops s r = None \<and> so_get ops s' r = None"
    and frame: "inv s \<Longrightarrow> so_applyControl ops s r it mt now u opts = (s', out) \<Longrightarrow> r' \<noteq> r \<Longrightarrow>
      so_get ops s' r' = so_get ops s r'"
    and snap_some: "inv s \<Longrightarrow> so_applySnapshot ops s r now = (s', Some t') \<Longrightarrow> so_get ops s' r = Some t'"
    and snap_none: "inv s \<Longrightarrow> so_applySnapshot ops s r now = (s', None) \<Longrightarrow>
      so_get ops s' r = so_get ops s r"
    and init_get: "inv s \<Longrightarrow> so_init ops s r vid mt now = (s', t') \<Longrightarrow>
      so_get ops s' r = Some t' \<and>
      (case so_get ops s r of None \<Rightarrow> seq t' = 0 \<and> \<not> isPlaying t' \<and> mediaTime t' = mt
       | Some p \<Rightarrow> t' = p)"
    and clear_get: "inv s \<Longrightarrow> so_get ops (so_clear ops s r) r' = (if r' = r then None else so_get ops s r')"
begin

text \<open>A control either leaves the room's timeline as it was or replaces it by its successor.\<close>

lemma apply_advances:
  assumes "inv s" "so_applyControl ops s r it mt now u opts = (s', out)" "so_get ops s r = Some p"
    "out \<noteq> Forwarded"
  shows "so_get ops s' r = Some p \<or>
    (\<exists>t. out = Committed t \<and> so_get ops s' r = Some t \<and> seq t = seq p + 1 \<and> storeEpoch t = storeEpoch p)"
proof (cases out)
  case (Committed t)
  then show ?thesis using committed [of s r it mt now u opts s' t] assms by auto
next
  case (Duplicate t)
  then show ?thesis using refused [OF assms(1,2)] assms(3) by auto
next
  case (Fenced t)
  then show ?thesis using refused [OF assms(1,2)] assms(3) by auto
next
  case Missing
  then show ?thesis using missing assms by fastforce
qed (use assms in simp)

lemma fence_never_commits:
  assumes "inv s" "so_get ops s r = Some p" "\<not> fence_passes p it opts"
  shows "snd (so_applyControl ops s r it mt now u opts) \<noteq> Committed t"
proof
  assume "snd (so_applyControl ops s r it mt now u opts) = Committed t"
  then obtain s' where "so_applyControl ops s r it mt now u opts = (s', Committed t)"
    by (metis prod.collapse)
  then show False using committed [OF assms(1)] assms(2,3) by fastforce
qed

end

text \<open>
  The store's own invariant: every room's log is non-empty, bounded, and ends with the entry of the
  live timeline.
\<close>

definition mem_logged :: "mem_store \<Rightarrow> bool" where
  "mem_logged st = (\<forall>r t. rooms st r = Some t \<longrightarrow>
     (\<exists>L c. logs st r = Some L \<and> L \<noteq> [] \<and> last L = entry_of t c \<and> length L \<le> LOG_MAX))"

definition mem_bounded :: "mem_store \<Rightarrow> bool" where
  "mem_bounded st = (\<forall>r L. logs st r = Some L \<longrightarrow> length L \<le> LOG_MAX)"

definition mem_ok :: "mem_store \<Rightarrow> bool" where
  "mem_ok st = (mem_logged st \<and> mem_bounded st)"

text \<open>One commit: install a timeline and log it. Every writing branch is an instance.\<close>

definition mem_commit :: "mem_store \<Rightarrow> string \<Rightarrow> timeline \<Rightarrow> string option \<Rightarrow> mem_store" where
  "mem_commit st r t c = appendLog (st\<lparr>rooms := (rooms st)(r \<mapsto> t)\<rparr>) r t c"

lemma mem_commit_simps [simp]:
  "rooms (mem_commit st r t c) = (rooms st)(r \<mapsto> t)" "cmdSeen (mem_commit st r t c) = cmdSeen st"
  "logs (mem_commit st r t c) = (logs st)(r \<mapsto> push_log (nullish (logs st r) []) (entry_of t c))"
  by (simp_all add: mem_commit_def)

lemma mem_ok_commit: "mem_ok st \<Longrightarrow> mem_ok (mem_commit st r t c)"
  by (auto simp: mem_ok_def mem_logged_def mem_bounded_def nullish_def intro!: length_push_log
      split: option.splits)

lemma mem_ok_cmdSeen [simp]: "mem_ok (st\<lparr>cmdSeen := m\<rparr>) = mem_ok st"
  by (simp add: mem_ok_def mem_logged_def mem_bounded_def)

lemma mem_ok_empty: "mem_ok mem_empty"
  by (simp add: mem_ok_def mem_logged_def mem_bounded_def mem_empty_def)

lemma mem_ok_clear: "mem_ok st \<Longrightarrow> mem_ok (mem_clear st r)"
  by (auto simp: mem_ok_def mem_logged_def mem_bounded_def mem_clear_def split: if_splits)

text \<open>
  The case analysis every proof about a control uses: what it answered and what it left behind.
\<close>

definition next_timeline ::
  "timeline \<Rightarrow> intent \<Rightarrow> jsnum \<Rightarrow> jsnum \<Rightarrow> string \<Rightarrow> apply_opts \<Rightarrow> timeline" where
  "next_timeline prev it mt now usr opts =
     with_seq (applyControl prev it mt now usr (o_videoId opts)) (seq prev + 1)"

lemma next_timeline_simps [simp]:
  "seq (next_timeline p it mt now u opts) = seq p + 1"
  "storeEpoch (next_timeline p it mt now u opts) = storeEpoch p"
  "stampedAt (next_timeline p it mt now u opts) = now"
  "rate (next_timeline p it mt now u opts) = 1"
  "by_user (next_timeline p it mt now u opts) = Some u"
  "videoId (next_timeline p it mt now u opts) = (if it = SetVideo then nullish (o_videoId opts) None else videoId p)"
  "mediaTime (next_timeline p it mt now u opts) = (if it = SetVideo then 0 else mt)"
  by (simp_all add: next_timeline_def applyControl_fields)

text \<open>The dedup records of a room as the lookup sees them, and what each path stores back.\<close>

definition seen_now :: "mem_store \<Rightarrow> string \<Rightarrow> apply_opts \<Rightarrow> jsnum \<Rightarrow> (string \<rightharpoonup> jsnum)" where
  "seen_now st r opts now = (let seen = nullish (cmdSeen st r) Map.empty in
     if truthy (o_cmdId opts) then prune_seen seen now else seen)"

definition dup_hit :: "mem_store \<Rightarrow> string \<Rightarrow> apply_opts \<Rightarrow> jsnum \<Rightarrow> bool" where
  "dup_hit st r opts now = (truthy (o_cmdId opts) \<and> seen_now st r opts now (the (o_cmdId opts)) \<noteq> None)"

definition fenced_seen :: "mem_store \<Rightarrow> string \<Rightarrow> apply_opts \<Rightarrow> jsnum \<Rightarrow> (string \<rightharpoonup> (string \<rightharpoonup> jsnum))" where
  "fenced_seen st r opts now =
     (if cmdSeen st r = None then cmdSeen st else (cmdSeen st)(r \<mapsto> seen_now st r opts now))"

definition commit_seen :: "mem_store \<Rightarrow> string \<Rightarrow> apply_opts \<Rightarrow> jsnum \<Rightarrow> (string \<rightharpoonup> (string \<rightharpoonup> jsnum))" where
  "commit_seen st r opts now =
     (if truthy (o_cmdId opts)
      then (cmdSeen st)(r \<mapsto> (seen_now st r opts now)(the (o_cmdId opts) \<mapsto> now + CMD_DEDUP_TTL_MS))
      else fenced_seen st r opts now)"

lemma mem_applyControl_eq:
  "mem_applyControl st r it mt now u opts =
     (case rooms st r of None \<Rightarrow> (st, Missing)
      | Some p \<Rightarrow>
          if dup_hit st r opts now
          then (st\<lparr>cmdSeen := (cmdSeen st)(r \<mapsto> seen_now st r opts now)\<rparr>, Duplicate p)
          else if fence_hits p it opts then (st\<lparr>cmdSeen := fenced_seen st r opts now\<rparr>, Fenced p)
          else (mem_commit (st\<lparr>cmdSeen := commit_seen st r opts now\<rparr>) r
                  (next_timeline p it mt now u opts) (o_cmdId opts),
                Committed (next_timeline p it mt now u opts)))"
  unfolding mem_applyControl_def mem_commit_def next_timeline_def dup_hit_def fenced_seen_def
    commit_seen_def seen_now_def Let_def
  by (cases "rooms st r"; cases "cmdSeen st r"; cases "truthy (o_cmdId opts)"; simp)

lemma mem_applySnapshot_eq:
  "mem_applySnapshot st r now =
     (case rooms st r of None \<Rightarrow> (st, None)
      | Some p \<Rightarrow> (mem_commit st r (with_seq (snapshot p now) (seq p + 1)) None,
                   Some (with_seq (snapshot p now) (seq p + 1))))"
  by (simp add: mem_applySnapshot_def mem_commit_def Let_def split: option.splits)

lemma mem_init_eq:
  "mem_init st r vid mt now =
     (case rooms st r of Some p \<Rightarrow> (st, p)
      | None \<Rightarrow> (mem_commit st r (created_timeline vid mt now) None, created_timeline vid mt now))"
  by (simp add: mem_init_def mem_commit_def Let_def split: option.splits)

lemmas mem_eqs = mem_applyControl_eq mem_applySnapshot_eq mem_init_eq mem_clear_def mem_get_def

lemma mem_ok_apply:
  "mem_ok st \<Longrightarrow> mem_applyControl st r it mt now u opts = (st', out) \<Longrightarrow> mem_ok st'"
  by (auto simp: mem_applyControl_eq intro!: mem_ok_commit split: option.splits if_splits)

lemma mem_ok_snap: "mem_ok st \<Longrightarrow> mem_applySnapshot st r now = (st', t) \<Longrightarrow> mem_ok st'"
  by (auto simp: mem_applySnapshot_eq intro!: mem_ok_commit split: option.splits)

lemma mem_ok_init: "mem_ok st \<Longrightarrow> mem_init st r vid mt now = (st', t) \<Longrightarrow> mem_ok st'"
  by (auto simp: mem_init_eq intro!: mem_ok_commit split: option.splits)

interpretation mem: room_state_store mem_ops mem_ok
proof unfold_locales
qed (auto simp: mem_ops_def mem_eqs next_timeline_def applyControl_fields created_timeline_def
      intro!: mem_ok_commit fence_passes_if intro: mem_ok_clear [unfolded mem_clear_def]
      split: option.splits if_splits intent.splits)

subsection \<open>Sequences of operations\<close>

datatype store_op =
    OpControl string intent jsnum jsnum string apply_opts
  | OpSnapshot string jsnum
  | OpInit string "string option" jsnum jsnum
  | OpClear string

fun mem_step :: "mem_store \<Rightarrow> store_op \<Rightarrow> mem_store" where
  "mem_step st (OpControl r it mt now u opts) = fst (mem_applyControl st r it mt now u opts)"
| "mem_step st (OpSnapshot r now) = fst (mem_applySnapshot st r now)"
| "mem_step st (OpInit r vid mt now) = fst (mem_init st r vid mt now)"
| "mem_step st (OpClear r) = mem_clear st r"

definition mem_run :: "mem_store \<Rightarrow> store_op list \<Rightarrow> mem_store" where
  "mem_run st ops = foldl mem_step st ops"

lemma mem_run_simps [simp]: "mem_run st [] = st" "mem_run st (x # xs) = mem_run (mem_step st x) xs"
  by (simp_all add: mem_run_def)

text \<open>Operations whose stamps are finite and never go back, starting at \<open>t\<close>.\<close>

fun op_time :: "store_op \<Rightarrow> jsnum option" where
  "op_time (OpControl r it mt now u opts) = Some now"
| "op_time (OpSnapshot r now) = Some now"
| "op_time (OpInit r vid mt now) = Some now"
| "op_time (OpClear r) = None"

fun op_position :: "store_op \<Rightarrow> jsnum" where
  "op_position (OpControl r it mt now u opts) = mt"
| "op_position (OpInit r vid mt now) = mt"
| "op_position _ = 0"

fun timed :: "real \<Rightarrow> store_op list \<Rightarrow> bool" where
  "timed t [] = True"
| "timed t (x # xs) = (is_fin (op_position x) \<and>
     (case op_time x of None \<Rightarrow> timed t xs
      | Some u \<Rightarrow> is_fin u \<and> t \<le> fin_val u \<and> timed (fin_val u) xs))"

subsection \<open>The log is a legal history of the live state\<close>

definition mem_legal :: "real \<Rightarrow> mem_store \<Rightarrow> bool" where
  "mem_legal t st = (dom (logs st) = dom (rooms st) \<and> mem_ok st \<and>
     (\<forall>r p. rooms st r = Some p \<longrightarrow> tl_fin p \<and> stampedAt p \<le> Fin t) \<and>
     (\<forall>r L. logs st r = Some L \<longrightarrow> chained legal L))"

lemma mem_legal_empty: "mem_legal t mem_empty"
  using mem_ok_empty by (simp add: mem_legal_def) (simp add: mem_empty_def)

lemma mem_legal_mono:
  assumes "mem_legal t st" "t \<le> u"
  shows "mem_legal u st"
proof -
  have "x \<le> Fin t \<Longrightarrow> x \<le> Fin u" for x using assms(2) by (cases x) simp_all
  with assms(1) show ?thesis by (auto simp: mem_legal_def)
qed

lemma mem_legal_cmdSeen [simp]: "mem_legal t (st\<lparr>cmdSeen := m\<rparr>) = mem_legal t st"
  by (simp add: mem_legal_def)

lemma mem_legal_commit:
  assumes inv: "mem_legal t st" and q: "tl_fin q" "stampedAt q \<le> Fin t"
    and step: "\<And>p c. rooms st r = Some p \<Longrightarrow> legal (entry_of p c) (entry_of q d)"
  shows "mem_legal t (mem_commit st r q d)"
proof -
  have "chained legal (push_log (nullish (logs st r) []) (entry_of q d))"
  proof (cases "rooms st r")
    case None
    then have "logs st r = None" using inv by (auto simp: mem_legal_def)
    then show ?thesis by (simp add: push_log_def Let_def LOG_MAX_def)
  next
    case (Some p)
    then obtain L c where L: "logs st r = Some L" "last L = entry_of p c"
      using inv unfolding mem_legal_def mem_ok_def mem_logged_def by blast
    then have "chained legal L" using inv by (auto simp: mem_legal_def)
    then show ?thesis using L step [OF Some] by (simp add: chained_push_log)
  qed
  then show ?thesis using inv q mem_ok_commit by (auto simp: mem_legal_def)
qed

lemma legal_next_timeline:
  assumes "stampedAt p \<le> Fin u"
  shows "legal (entry_of p c) (entry_of (next_timeline p it (Fin m) (Fin u) usr opts) d)"
proof -
  have "\<not> Fin u < stampedAt p" using assms by (cases "stampedAt p") simp_all
  then show ?thesis
    by (cases it) (simp_all add: checkTransition_def next_timeline_def applyControl_fields CONTROL_REASONS_def)
qed

lemma legal_snapshot_timeline:
  assumes "tl_fin p" "stampedAt p \<le> Fin u"
  shows "legal (entry_of p c) (entry_of (with_seq (snapshot p (Fin u)) (seq p + 1)) d)"
proof -
  have "\<not> Fin u < stampedAt p" using assms(2) by (cases "stampedAt p") simp_all
  moreover have pr: "projectMediaTime (toTimeline (entry_of p c)) (Fin u) = projectMediaTime p (Fin u)"
    using assms(1) by (simp add: projectMediaTime_def toTimeline_def tl_fin_def)
  moreover obtain a where "projectMediaTime p (Fin u) = Fin a"
    using projectMediaTime_fin [OF assms(1)] by (auto simp: is_fin_iff)
  ultimately show ?thesis by (simp add: checkTransition_def CONTROL_REASONS_def)
qed

lemma mem_legal_step:
  assumes "mem_legal t st" "timed t [x]"
  shows "mem_legal (case op_time x of None \<Rightarrow> t | Some u \<Rightarrow> fin_val u) (mem_step st x)"
proof (cases x)
  case (OpControl r it mt now u opts)
  with assms(2) obtain m v where mv: "mt = Fin m" "now = Fin v" "t \<le> v" by (auto simp: is_fin_iff)
  note inv = mem_legal_mono [OF assms(1) mv(3)]
  have "tl_fin (next_timeline p it mt now u opts)" for p
    by (simp add: next_timeline_def mv tl_fin_applyControl)
  moreover have "rooms st r = Some p \<Longrightarrow> stampedAt p \<le> Fin v" for p
    using inv by (simp add: mem_legal_def)
  ultimately show ?thesis using inv
    by (auto simp: OpControl mem_applyControl_eq mv intro!: mem_legal_commit legal_next_timeline split: option.splits)
next
  case (OpSnapshot r now)
  with assms(2) obtain v where v: "now = Fin v" "t \<le> v" by (auto simp: is_fin_iff)
  note inv = mem_legal_mono [OF assms(1) v(2)]
  have "rooms st r = Some p \<Longrightarrow> tl_fin p \<and> stampedAt p \<le> Fin v" for p
    using inv by (simp add: mem_legal_def)
  then show ?thesis using inv
    by (auto simp: OpSnapshot mem_applySnapshot_eq v
        intro!: mem_legal_commit legal_snapshot_timeline tl_fin_snapshot split: option.splits)
next
  case (OpInit r vid mt now)
  with assms(2) obtain m v where mv: "mt = Fin m" "now = Fin v" "t \<le> v" by (auto simp: is_fin_iff)
  note inv = mem_legal_mono [OF assms(1) mv(3)]
  then show ?thesis
    by (auto simp: OpInit mem_init_eq mv created_timeline_def tl_fin_def intro!: mem_legal_commit
        split: option.splits)
next
  case (OpClear r)
  have "mem_ok (mem_clear st r)" using assms(1) mem_ok_clear by (simp add: mem_legal_def)
  then show ?thesis using assms(1)
    by (auto simp: OpClear mem_legal_def mem_clear_def split: if_splits)
qed

lemma mem_legal_run: "mem_legal t st \<Longrightarrow> timed t ops \<Longrightarrow> \<exists>u\<ge>t. mem_legal u (mem_run st ops)"
proof (induction ops arbitrary: t st)
  case Nil
  then show ?case by auto
next
  case (Cons x xs)
  let ?u = "case op_time x of None \<Rightarrow> t | Some u \<Rightarrow> fin_val u"
  have "mem_legal ?u (mem_step st x)" using Cons.prems mem_legal_step [of t st x]
    by (auto split: option.splits)
  moreover have "timed ?u xs" "t \<le> ?u" using Cons.prems(2) by (auto split: option.splits)
  ultimately show ?case using Cons.IH [of ?u "mem_step st x"] by (auto intro: order_trans)
qed

lemma entry_matches_live: "tl_fin p \<Longrightarrow> entryMatchesLive (entry_of p c) p = None"
  by (auto simp: entryMatchesLive_def tl_fin_def is_fin_iff)

text \<open>
  C1. Whatever operations arrive, in whatever order and on however many rooms, as long as their
  stamps are finite and do not go back, the log of a live room passes the replay checker with no
  violation, stays within its bound, and its newest entry is the live timeline.
\<close>

theorem log_replays_to_live:
  assumes "timed t ops" and "rooms (mem_run mem_empty ops) r = Some p"
  shows "violations (checkChain (getLog (mem_run mem_empty ops) r)) = [] \<and>
    getLog (mem_run mem_empty ops) r \<noteq> [] \<and> length (getLog (mem_run mem_empty ops) r) \<le> LOG_MAX \<and>
    entryMatchesLive (last (getLog (mem_run mem_empty ops) r)) p = None"
proof -
  obtain u where inv: "mem_legal u (mem_run mem_empty ops)"
    using mem_legal_run [OF mem_legal_empty assms(1)] by blast
  then obtain L c where L: "logs (mem_run mem_empty ops) r = Some L" "L \<noteq> []" "last L = entry_of p c"
      "length L \<le> LOG_MAX"
    using assms(2) unfolding mem_legal_def mem_ok_def mem_logged_def by blast
  have "chained legal L" "tl_fin p" using inv L(1) assms(2) by (simp_all add: mem_legal_def)
  then show ?thesis using L by (simp add: getLog_def checkChain_clean_iff entry_matches_live)
qed

definition demo_opts :: "string \<Rightarrow> apply_opts" where
  "demo_opts c = no_opts\<lparr>o_cmdId := Some c, o_forVideoId := Some (Some ''vid'')\<rparr>"

definition demo_ops :: "store_op list" where
  "demo_ops = [OpInit ''room'' (Some ''vid'') 12 1000, OpControl ''room'' Play 12 2000 ''ann'' (demo_opts ''c1''),
     OpSnapshot ''room'' 5000, OpControl ''room'' Pause 16 6000 ''ann'' (demo_opts ''c2'')]"

lemmas demo_simps = demo_ops_def demo_opts_def no_opts_def mem_empty_def mem_eqs dup_hit_def seen_now_def
  fenced_seen_def commit_seen_def fence_hits_def prune_seen_def created_timeline_def CMD_DEDUP_TTL_Fin

theorem log_replays_to_live_witness:
  "\<exists>p. rooms (mem_run mem_empty demo_ops) ''room'' = Some p \<and> seq p = 3 \<and>
     entryMatchesLive (last (getLog (mem_run mem_empty demo_ops) ''room'')) p = None"
proof -
  have t: "timed 0 demo_ops" by (simp add: demo_ops_def)
  have "\<exists>p. rooms (mem_run mem_empty demo_ops) ''room'' = Some p \<and> seq p = 3"
    by (simp add: demo_simps)
  then obtain p where p: "rooms (mem_run mem_empty demo_ops) ''room'' = Some p" "seq p = 3" by blast
  show ?thesis using log_replays_to_live [OF t p(1)] p by blast
qed

subsection \<open>Exactly-once control commands\<close>

definition remembered :: "mem_store \<Rightarrow> string \<Rightarrow> string \<Rightarrow> real \<Rightarrow> bool" where
  "remembered st r c e = (rooms st r \<noteq> None \<and> (case cmdSeen st r of None \<Rightarrow> False | Some m \<Rightarrow> m c = Some (Fin e)))"

definition op_before :: "real \<Rightarrow> store_op \<Rightarrow> bool" where
  "op_before e x = (case op_time x of None \<Rightarrow> True | Some u \<Rightarrow> u < Fin e)"

lemma not_less_eq_before: "u < Fin e \<Longrightarrow> \<not> Fin e \<le> u"
  by (cases u) simp_all

lemma prune_seen_keeps: "m c = Some (Fin e) \<Longrightarrow> u < Fin e \<Longrightarrow> prune_seen m u c = Some (Fin e)"
  by (simp add: prune_seen_def not_less_eq_before)

lemma seen_now_keeps:
  "cmdSeen st r = Some m \<Longrightarrow> m c = Some (Fin e) \<Longrightarrow> u < Fin e \<Longrightarrow> seen_now st r opts u c = Some (Fin e)"
  by (simp add: seen_now_def prune_seen_keeps)

lemma remembered_hit:
  assumes "remembered st r c e" "u < Fin e" "o_cmdId opts = Some c" "c \<noteq> []"
  shows "dup_hit st r opts u"
  using assms seen_now_keeps [of st r _ c e u opts] by (auto simp: remembered_def dup_hit_def split: option.splits)

lemma remembered_apply:
  assumes rem: "remembered st r c e" and u: "u < Fin e"
  shows "remembered (fst (mem_applyControl st r' it mt u usr opts)) r c e"
proof (cases "r' = r")
  case False
  then show ?thesis using rem
    by (auto simp: remembered_def mem_applyControl_eq fenced_seen_def commit_seen_def split: option.splits)
next
  case True
  obtain m where m: "cmdSeen st r = Some m" "m c = Some (Fin e)"
    using rem by (auto simp: remembered_def split: option.splits)
  note keep = seen_now_keeps [OF m u, of opts]
  have "the (o_cmdId opts) \<noteq> c" if "truthy (o_cmdId opts)" "\<not> dup_hit st r opts u"
    using that keep by (auto simp: dup_hit_def)
  then show ?thesis using rem True m keep
    by (auto simp: remembered_def mem_applyControl_eq fenced_seen_def commit_seen_def split: option.splits)
qed

lemma remembered_step:
  assumes "remembered st r c e" "op_before e x" "x \<noteq> OpClear r"
  shows "remembered (mem_step st x) r c e"
proof (cases x)
  case (OpControl r' it mt u usr opts)
  then show ?thesis using assms remembered_apply [of st r c e u] by (simp add: op_before_def)
qed (use assms in \<open>auto simp: remembered_def mem_eqs split: option.splits\<close>)

lemma remembered_run:
  "remembered st r c e \<Longrightarrow> \<forall>x\<in>set ops. op_before e x \<Longrightarrow> OpClear r \<notin> set ops \<Longrightarrow>
     remembered (mem_run st ops) r c e"
  by (induction ops arbitrary: st) (auto intro!: remembered_step)

lemma committed_remembered:
  assumes "mem_applyControl st r it mt (Fin t) u opts = (st', Committed q)"
    and "o_cmdId opts = Some c" "c \<noteq> []"
  shows "remembered st' r c (t + 900000)"
  using assms
  by (auto simp: mem_applyControl_eq remembered_def commit_seen_def CMD_DEDUP_TTL_Fin split: option.splits if_splits)

text \<open>
  C2. Exactly once: after a command committed at time \<open>t\<close>, every later command with the same id
  that arrives before the dedup record expires (15 minutes) is answered as a duplicate with the
  room's current timeline, whatever operations other than clearing the room ran in between, whatever
  the retry's own intent, position or fence, and even if the video changed meanwhile.
\<close>

theorem command_applied_at_most_once:
  assumes "mem_applyControl st r it mt (Fin t) u opts = (st', Committed q)"
    and "o_cmdId opts = Some c" "c \<noteq> []"
    and "\<forall>x\<in>set ops. op_before (t + 900000) x" "OpClear r \<notin> set ops"
    and "t2 < t + 900000" "o_cmdId opts2 = Some c"
  shows "\<exists>p. rooms (mem_run st' ops) r = Some p \<and>
    snd (mem_applyControl (mem_run st' ops) r it2 mt2 (Fin t2) u2 opts2) = Duplicate p \<and>
    rooms (fst (mem_applyControl (mem_run st' ops) r it2 mt2 (Fin t2) u2 opts2)) = rooms (mem_run st' ops)"
proof -
  have rem: "remembered (mem_run st' ops) r c (t + 900000)"
    using committed_remembered [OF assms(1-3)] remembered_run assms(4,5) by blast
  have "Fin t2 < Fin (t + 900000)" using assms(6) by simp
  then have "dup_hit (mem_run st' ops) r opts2 (Fin t2)"
    using remembered_hit [OF rem _ assms(7,3)] by blast
  moreover obtain p where "rooms (mem_run st' ops) r = Some p" using rem by (auto simp: remembered_def)
  ultimately show ?thesis by (simp add: mem_applyControl_eq)
qed

definition demo_st0 :: mem_store where
  "demo_st0 = mem_run mem_empty [OpInit ''room'' (Some ''vid'') 12 1000]"

theorem command_applied_at_most_once_witness:
  "\<exists>p. snd (mem_applyControl
      (mem_run (fst (mem_applyControl demo_st0 ''room'' Play (Fin 12) (Fin 2000) ''ann'' (demo_opts ''c1'')))
        [OpControl ''room'' SetVideo 0 3000 ''bob'' no_opts])
      ''room'' Play (Fin 12) (Fin 4000) ''ann'' (demo_opts ''c1'')) = Duplicate p"
proof -
  have "\<exists>q. snd (mem_applyControl demo_st0 ''room'' Play (Fin 12) (Fin 2000) ''ann'' (demo_opts ''c1'')) = Committed q"
    by (simp add: demo_st0_def demo_simps)
  then obtain st' q where c:
      "mem_applyControl demo_st0 ''room'' Play (Fin 12) (Fin 2000) ''ann'' (demo_opts ''c1'') = (st', Committed q)"
    by (metis prod.collapse)
  have o: "o_cmdId (demo_opts ''c1'') = Some ''c1''" by (simp add: demo_opts_def)
  show ?thesis
    using command_applied_at_most_once [OF c o, of "[OpControl ''room'' SetVideo 0 3000 ''bob'' no_opts]" 4000 "demo_opts ''c1''"
        Play "Fin 12" "''ann''"]
    by (auto simp: c o op_before_def)
qed

text \<open>
  A fenced command never burns its id: it changes no room, and the same command re-aimed at the
  video the room shows now is committed, at the same instant.
\<close>

theorem fenced_command_can_retry:
  assumes "mem_applyControl st r it mt now u opts = (st', Fenced p)"
  shows "rooms st' = rooms st \<and> logs st' = logs st \<and> rooms st r = Some p \<and>
    snd (mem_applyControl st' r it mt now u (opts\<lparr>o_forVideoId := Some (videoId p)\<rparr>)) =
      Committed (next_timeline p it mt now u opts)"
proof -
  have p: "rooms st r = Some p" and nd: "\<not> dup_hit st r opts now"
    and st': "st' = st\<lparr>cmdSeen := fenced_seen st r opts now\<rparr>"
    using assms by (auto simp: mem_applyControl_eq split: option.splits if_splits)
  have "prune_seen (prune_seen m now) now = prune_seen m now" for m
    by (auto simp: prune_seen_def fun_eq_iff split: option.splits)
  then have "\<not> dup_hit st' r (opts\<lparr>o_forVideoId := Some (videoId p)\<rparr>) now"
    using nd by (cases "cmdSeen st r") (auto simp: st' dup_hit_def seen_now_def fenced_seen_def)
  then show ?thesis using p
    by (simp add: st' mem_applyControl_eq fence_hits_def next_timeline_def)
qed

theorem fenced_command_can_retry_witness:
  "\<exists>st' p. mem_applyControl (mem_run mem_empty [OpInit ''room'' (Some ''new'') 0 1000])
       ''room'' Seek 7 2000 ''ann'' (demo_opts ''c1'') = (st', Fenced p) \<and>
     snd (mem_applyControl st' ''room'' Seek 7 2000 ''ann'' ((demo_opts ''c1'')\<lparr>o_forVideoId := Some (videoId p)\<rparr>)) =
       Committed (next_timeline p Seek 7 2000 ''ann'' (demo_opts ''c1''))"
proof -
  have "\<exists>st' p. mem_applyControl (mem_run mem_empty [OpInit ''room'' (Some ''new'') 0 1000])
       ''room'' Seek 7 2000 ''ann'' (demo_opts ''c1'') = (st', Fenced p)"
    by (simp add: demo_simps)
  then obtain st' p where c: "mem_applyControl (mem_run mem_empty [OpInit ''room'' (Some ''new'') 0 1000])
       ''room'' Seek 7 2000 ''ann'' (demo_opts ''c1'') = (st', Fenced p)"
    by blast
  show ?thesis using fenced_command_can_retry [OF c] c by blast
qed

end
