(* ===== verification/RedisStore.thy ===== *)
theory RedisStore
  imports RoomStore
begin

text \<open>
  The Redis store (sync/redis-room-state.store.ts) and the scripts it runs (sync/lua/common.lua,
  apply_control.lua, apply_snapshot.lua, init.lua). A script is one atomic step on the database; the
  stamp of every commit is the server's TIME, which is part of the database state. The fields of the
  room hash keep the script's encodings: the empty string for a null video or user, '1' and '0' for
  the playing flag. How far XADD trims with MAXLEN ~ 1024 is Redis's choice and a parameter.
  Lemmas: the store laws for every admissible trimming. Properties: the log of every room replays to
  the live hash, one sweep commits per window, and controls refine the in-memory store.
\<close>

subsection \<open>The database\<close>

record tl_hash =
  h_seq :: int
  h_storeEpoch :: string
  h_videoId :: string
  h_isPlaying :: string
  h_mediaTime :: jsnum
  h_stampedAt :: jsnum
  h_reason :: string
  h_by :: string
  h_lastSweepWindow :: "int option"

type_synonym stream = "(tl_hash \<times> string) list"

text \<open>Every key carries the time it expires at.\<close>

record redis_db =
  r_now :: nat
  r_tl :: "string \<rightharpoonup> tl_hash \<times> nat"
  r_cmd :: "string \<rightharpoonup> string \<times> nat"
  r_log :: "string \<rightharpoonup> stream \<times> nat"
  r_lease :: "string \<rightharpoonup> (string \<times> string) \<times> nat"

definition rget :: "nat \<Rightarrow> ('k \<rightharpoonup> 'v \<times> nat) \<Rightarrow> 'k \<Rightarrow> 'v option" where
  "rget now m k = (case m k of None \<Rightarrow> None | Some (v, e) \<Rightarrow> if now < e then Some v else None)"

lemma rget_upd [simp]: "rget now (m(k \<mapsto> (v, e))) k' = (if k' = k then (if now < e then Some v else None) else rget now m k')"
  by (simp add: rget_def)

lemma rget_del [simp]: "rget now (m(k := None)) k' = (if k' = k then None else rget now m k')"
  by (simp add: rget_def)

lemma rget_empty [simp]: "rget now (\<lambda>x. None) k = None"
  by (simp add: rget_def)

lemma rget_SomeE:
  assumes "rget now m k = Some v"
  obtains e where "m k = Some (v, e)" "now < e"
  using assms by (auto simp: rget_def split: option.splits if_splits)

subsection \<open>common.lua\<close>

definition TL_TTL :: nat where "TL_TTL = 86400000"

definition load_tl :: "redis_db \<Rightarrow> string \<Rightarrow> tl_hash option" where
  "load_tl db key = rget (r_now db) (r_tl db) key"

definition save_tl :: "redis_db \<Rightarrow> string \<Rightarrow> tl_hash \<Rightarrow> nat \<Rightarrow> redis_db" where
  "save_tl db key h ttl =
     db\<lparr>r_tl := (r_tl db)(key \<mapsto> (h\<lparr>h_lastSweepWindow := Some (nullish (h_lastSweepWindow h) (- 1))\<rparr>, r_now db + ttl))\<rparr>"

definition log_tl :: "(stream \<Rightarrow> stream) \<Rightarrow> redis_db \<Rightarrow> string \<Rightarrow> tl_hash \<Rightarrow> string \<Rightarrow> redis_db" where
  "log_tl xtrim db logKey h cmdId =
     db\<lparr>r_log := (r_log db)(logKey \<mapsto>
          (xtrim (nullish (rget (r_now db) (r_log db) logKey) [] @ [(h, cmdId)]), r_now db + TL_TTL))\<rparr>"

text \<open>The empty-string encoding of an absent value.\<close>

definition none_if_empty :: "string \<Rightarrow> string option" where
  "none_if_empty s = (if s = [] then None else Some s)"

text \<open>The reply JSON of encode as JSON.parse reads it, without its marker.\<close>

definition encode :: "tl_hash \<Rightarrow> timeline" where
  "encode h =
     \<lparr>seq = h_seq h, storeEpoch = h_storeEpoch h, videoId = none_if_empty (h_videoId h),
      isPlaying = (h_isPlaying h = ''1''), mediaTime = h_mediaTime h, stampedAt = h_stampedAt h, rate = 1,
      reason_of = h_reason h, by_user = none_if_empty (h_by h)\<rparr>"

datatype marker = NoMark | DupMark | FencedMark

subsection \<open>The scripts\<close>

definition intent_str :: "intent \<Rightarrow> string" where
  "intent_str it = (case it of Play \<Rightarrow> ''play'' | Pause \<Rightarrow> ''pause'' | Seek \<Rightarrow> ''seek'' | SetVideo \<Rightarrow> ''set-video'')"

text \<open>The field updates of apply_control.lua after its checks.\<close>

definition control_hash :: "nat \<Rightarrow> tl_hash \<Rightarrow> intent \<Rightarrow> jsnum \<Rightarrow> string \<Rightarrow> string \<Rightarrow> tl_hash" where
  "control_hash now h it mt usr vid =
     (let h1 = h\<lparr>h_seq := h_seq h + 1, h_stampedAt := Fin (real now), h_by := usr, h_reason := intent_str it\<rparr> in
      case it of
        Play \<Rightarrow> h1\<lparr>h_isPlaying := ''1'', h_mediaTime := mt\<rparr>
      | Pause \<Rightarrow> h1\<lparr>h_isPlaying := ''0'', h_mediaTime := mt\<rparr>
      | SetVideo \<Rightarrow> h1\<lparr>h_videoId := vid, h_isPlaying := ''0'', h_mediaTime := 0\<rparr>
      | Seek \<Rightarrow> h1\<lparr>h_mediaTime := mt\<rparr>)"

definition lua_apply_control ::
  "(stream \<Rightarrow> stream) \<Rightarrow> redis_db \<Rightarrow> string \<Rightarrow> string \<Rightarrow> string \<Rightarrow> intent \<Rightarrow> jsnum \<Rightarrow> string \<Rightarrow>
   string \<Rightarrow> nat \<Rightarrow> string \<Rightarrow> bool \<Rightarrow> string \<Rightarrow> redis_db \<times> (timeline \<times> marker) option" where
  "lua_apply_control xtrim db key cmdKey logKey it mt usr cmdId dedupTtl vid fenced forVid =
     (case load_tl db key of
        None \<Rightarrow> (db, None)
      | Some h \<Rightarrow>
          if cmdId \<noteq> [] \<and> rget (r_now db) (r_cmd db) cmdKey \<noteq> None then (db, Some (encode h, DupMark))
          else if fenced \<and> it \<noteq> SetVideo \<and> h_videoId h \<noteq> forVid then (db, Some (encode h, FencedMark))
          else
            (let db1 = (if cmdId \<noteq> []
                   then db\<lparr>r_cmd := (r_cmd db)(cmdKey \<mapsto> (show_nat (nat (h_seq h + 1)), r_now db + dedupTtl))\<rparr>
                   else db);
                 h1 = control_hash (r_now db) h it mt usr vid;
                 db2 = save_tl db1 key h1 TL_TTL;
                 db3 = log_tl xtrim db2 logKey h1 cmdId
             in (db3, Some (encode h1, NoMark))))"

definition lua_apply_snapshot ::
  "(stream \<Rightarrow> stream) \<Rightarrow> redis_db \<Rightarrow> string \<Rightarrow> string \<Rightarrow> nat \<Rightarrow> redis_db \<times> timeline option" where
  "lua_apply_snapshot xtrim db key logKey period =
     (case load_tl db key of
        None \<Rightarrow> (db, None)
      | Some h \<Rightarrow>
          if h_isPlaying h \<noteq> ''1'' then (db, Some (encode h))
          else
            (let window = int (r_now db div period) in
             if h_lastSweepWindow h = Some window then (db, None)
             else
               (let elapsed = (Fin (real (r_now db)) - h_stampedAt h) / 1000;
                    h1 = h\<lparr>h_seq := h_seq h + 1, h_mediaTime := h_mediaTime h + elapsed,
                           h_stampedAt := Fin (real (r_now db)), h_lastSweepWindow := Some window,
                           h_reason := ''snapshot'', h_by := []\<rparr>;
                    db1 = log_tl xtrim (save_tl db key h1 TL_TTL) logKey h1 []
                in (db1, Some (encode h1)))))"

definition lua_init ::
  "(stream \<Rightarrow> stream) \<Rightarrow> redis_db \<Rightarrow> string \<Rightarrow> string \<Rightarrow> string \<Rightarrow> jsnum \<Rightarrow> redis_db \<times> timeline" where
  "lua_init xtrim db key logKey vid mt =
     (case load_tl db key of
        Some h \<Rightarrow> (db, encode h)
      | None \<Rightarrow>
          (let h = \<lparr>h_seq = 0, h_storeEpoch = show_nat (r_now db), h_videoId = vid, h_isPlaying = ''0'',
                    h_mediaTime = mt, h_stampedAt = Fin (real (r_now db)), h_reason = ''join'', h_by = [],
                    h_lastSweepWindow = None\<rparr>
           in (log_tl xtrim (save_tl db key h TL_TTL) logKey h [], encode h)))"

subsection \<open>The store\<close>

definition tl_key :: "string \<Rightarrow> string" where
  "tl_key roomCode = ''room:'' @ roomCode @ '':tl''"

definition log_key :: "string \<Rightarrow> string" where
  "log_key roomCode = ''room:'' @ roomCode @ '':log''"

definition cmd_key :: "string \<Rightarrow> string \<Rightarrow> string" where
  "cmd_key roomCode cmdId = ''room:'' @ roomCode @ '':cmd:'' @ cmdId"

definition redis_get :: "redis_db \<Rightarrow> string \<Rightarrow> timeline option" where
  "redis_get db roomCode = map_option encode (rget (r_now db) (r_tl db) (tl_key roomCode))"

definition redis_applyControl ::
  "(stream \<Rightarrow> stream) \<Rightarrow> redis_db \<Rightarrow> string \<Rightarrow> intent \<Rightarrow> jsnum \<Rightarrow> jsnum \<Rightarrow> string \<Rightarrow> apply_opts \<Rightarrow> redis_db \<times> outcome" where
  "redis_applyControl xtrim db roomCode it mt serverNow usr opts =
     (let cmdId = nullish (o_cmdId opts) [] in
      case lua_apply_control xtrim db (tl_key roomCode) (cmd_key roomCode cmdId) (log_key roomCode) it mt usr
             cmdId (nat \<lfloor>fin_val CMD_DEDUP_TTL_MS\<rfloor>) (nullish (nullish (o_videoId opts) None) [])
             (o_forVideoId opts \<noteq> None) (nullish (nullish (o_forVideoId opts) None) []) of
        (db', None) \<Rightarrow> (db', Missing)
      | (db', Some (t, m)) \<Rightarrow>
          (db', case m of DupMark \<Rightarrow> Duplicate t | FencedMark \<Rightarrow> Fenced t | NoMark \<Rightarrow> Committed t))"

definition redis_applySnapshot :: "(stream \<Rightarrow> stream) \<Rightarrow> redis_db \<Rightarrow> string \<Rightarrow> jsnum \<Rightarrow> redis_db \<times> timeline option" where
  "redis_applySnapshot xtrim db roomCode serverNow =
     lua_apply_snapshot xtrim db (tl_key roomCode) (log_key roomCode) (nat \<lfloor>fin_val SWEEP_DEDUP_PERIOD_MS\<rfloor>)"

definition redis_init ::
  "(stream \<Rightarrow> stream) \<Rightarrow> redis_db \<Rightarrow> string \<Rightarrow> string option \<Rightarrow> jsnum \<Rightarrow> jsnum \<Rightarrow> redis_db \<times> timeline" where
  "redis_init xtrim db roomCode vid mt serverNow =
     lua_init xtrim db (tl_key roomCode) (log_key roomCode) (nullish vid []) mt"

definition redis_clear :: "redis_db \<Rightarrow> string \<Rightarrow> redis_db" where
  "redis_clear db roomCode = db\<lparr>r_tl := (r_tl db)(tl_key roomCode := None)\<rparr>"

definition redis_ops :: "(stream \<Rightarrow> stream) \<Rightarrow> redis_db store_ops" where
  "redis_ops xtrim = \<lparr>so_get = redis_get, so_applyControl = redis_applyControl xtrim,
     so_applySnapshot = redis_applySnapshot xtrim, so_init = redis_init xtrim, so_clear = redis_clear\<rparr>"

subsection \<open>The laws, for every admissible trimming\<close>

text \<open>
  MAXLEN ~ n drops a prefix of the stream and keeps at least n entries when there were that many.
\<close>

definition trim_ok :: "(stream \<Rightarrow> stream) \<Rightarrow> bool" where
  "trim_ok xtrim = (\<forall>xs. \<exists>k. xtrim xs = drop k xs \<and> min LOG_MAX (length xs) \<le> length (xtrim xs))"

lemma trim_ok_exact: "trim_ok (take_last LOG_MAX)"
  unfolding trim_ok_def take_last_def by auto

lemma trim_last:
  assumes "trim_ok xtrim" "xs \<noteq> []"
  shows "xtrim xs \<noteq> [] \<and> last (xtrim xs) = last xs"
proof -
  obtain k where k: "xtrim xs = drop k xs" "min LOG_MAX (length xs) \<le> length (xtrim xs)"
    using assms(1) unfolding trim_ok_def by blast
  have "0 < min LOG_MAX (length xs)" using assms(2) by (simp add: LOG_MAX_def)
  also note k(2)
  finally have "k < length xs" using k(1) by simp
  then show ?thesis using k(1) by simp
qed

text \<open>A live room's log lives exactly as long as its hash and ends with the hash.\<close>

definition sweepless :: "tl_hash \<Rightarrow> tl_hash" where
  "sweepless h = h\<lparr>h_lastSweepWindow := None\<rparr>"

definition redis_ok :: "redis_db \<Rightarrow> bool" where
  "redis_ok db = (\<forall>r h e. r_tl db (tl_key r) = Some (h, e) \<longrightarrow>
     (\<exists>L h' c. r_log db (log_key r) = Some (L, e) \<and> L \<noteq> [] \<and> last L = (h', c) \<and> sweepless h' = sweepless h))"

lemma tl_key_inj [simp]: "tl_key r = tl_key r' \<longleftrightarrow> r = r'"
  by (simp add: tl_key_def)

lemma log_key_inj [simp]: "log_key r = log_key r' \<longleftrightarrow> r = r'"
  by (simp add: log_key_def)

lemma sweepless_idem [simp]: "sweepless (h\<lparr>h_lastSweepWindow := w\<rparr>) = sweepless h"
  by (simp add: sweepless_def)

lemma encode_window [simp]: "encode (h\<lparr>h_lastSweepWindow := w\<rparr>) = encode h"
  by (simp add: encode_def)

text \<open>One commit: write the hash and log it. Every writing script ends with it.\<close>

definition red_commit :: "(stream \<Rightarrow> stream) \<Rightarrow> redis_db \<Rightarrow> string \<Rightarrow> tl_hash \<Rightarrow> string \<Rightarrow> redis_db" where
  "red_commit xtrim db r h c = log_tl xtrim (save_tl db (tl_key r) h TL_TTL) (log_key r) h c"

lemma red_commit_simps [simp]:
  "r_now (red_commit xtrim db r h c) = r_now db" "r_cmd (red_commit xtrim db r h c) = r_cmd db"
  "r_tl (red_commit xtrim db r h c) = (r_tl db)(tl_key r \<mapsto>
     (h\<lparr>h_lastSweepWindow := Some (nullish (h_lastSweepWindow h) (- 1))\<rparr>, r_now db + TL_TTL))"
  "r_log (red_commit xtrim db r h c) = (r_log db)(log_key r \<mapsto>
     (xtrim (nullish (rget (r_now db) (r_log db) (log_key r)) [] @ [(h, c)]), r_now db + TL_TTL))"
  by (simp_all add: red_commit_def log_tl_def save_tl_def)

lemma redis_ok_commit:
  assumes "trim_ok xtrim" "redis_ok db"
  shows "redis_ok (red_commit xtrim db r h c)"
  using assms trim_last [OF assms(1), of "nullish (rget (r_now db) (r_log db) (log_key r)) [] @ [(h, c)]"]
  by (auto simp: redis_ok_def)

lemma redis_ok_cmd [simp]: "redis_ok (db\<lparr>r_cmd := m\<rparr>) = redis_ok db"
  by (simp add: redis_ok_def)

lemma redis_ok_clear: "redis_ok db \<Longrightarrow> redis_ok (redis_clear db r)"
  by (auto simp: redis_ok_def redis_clear_def)

text \<open>The operations in the form the proofs use.\<close>

definition red_hash :: "redis_db \<Rightarrow> string \<Rightarrow> tl_hash option" where
  "red_hash db r = rget (r_now db) (r_tl db) (tl_key r)"

definition red_dup :: "redis_db \<Rightarrow> string \<Rightarrow> apply_opts \<Rightarrow> bool" where
  "red_dup db r opts =
     (truthy (o_cmdId opts) \<and> rget (r_now db) (r_cmd db) (cmd_key r (the (o_cmdId opts))) \<noteq> None)"

definition red_fence :: "tl_hash \<Rightarrow> intent \<Rightarrow> apply_opts \<Rightarrow> bool" where
  "red_fence h it opts =
     (it \<noteq> SetVideo \<and> (case o_forVideoId opts of None \<Rightarrow> False | Some x \<Rightarrow> h_videoId h \<noteq> nullish x []))"

definition red_record :: "redis_db \<Rightarrow> string \<Rightarrow> tl_hash \<Rightarrow> apply_opts \<Rightarrow> redis_db" where
  "red_record db r h opts =
     (if truthy (o_cmdId opts)
      then db\<lparr>r_cmd := (r_cmd db)(cmd_key r (the (o_cmdId opts)) \<mapsto> (show_nat (nat (h_seq h + 1)), r_now db + 900000))\<rparr>
      else db)"

definition red_next :: "redis_db \<Rightarrow> tl_hash \<Rightarrow> intent \<Rightarrow> jsnum \<Rightarrow> string \<Rightarrow> apply_opts \<Rightarrow> tl_hash" where
  "red_next db h it mt usr opts = control_hash (r_now db) h it mt usr (nullish (nullish (o_videoId opts) None) [])"

lemma red_hash_simps [simp]:
  "red_hash (red_commit xtrim db r h c) r' =
     (if r' = r then Some (h\<lparr>h_lastSweepWindow := Some (nullish (h_lastSweepWindow h) (- 1))\<rparr>) else red_hash db r')"
  "red_hash (redis_clear db r) r' = (if r' = r then None else red_hash db r')"
  "red_hash (db\<lparr>r_cmd := m\<rparr>) r' = red_hash db r'"
  by (simp_all add: red_hash_def TL_TTL_def redis_clear_def)

lemma redis_get_eq: "redis_get db r = map_option encode (red_hash db r)"
  by (simp add: redis_get_def red_hash_def)

lemma redis_applyControl_eq:
  "redis_applyControl xtrim db r it mt now u opts =
     (case red_hash db r of None \<Rightarrow> (db, Missing)
      | Some h \<Rightarrow>
          if red_dup db r opts then (db, Duplicate (encode h))
          else if red_fence h it opts then (db, Fenced (encode h))
          else (red_commit xtrim (red_record db r h opts) r (red_next db h it mt u opts) (nullish (o_cmdId opts) []),
                Committed (encode (red_next db h it mt u opts))))"
  by (cases "red_hash db r"; cases "o_cmdId opts"; cases "o_forVideoId opts")
    (auto simp: redis_applyControl_def lua_apply_control_def load_tl_def red_hash_def red_dup_def red_fence_def
      red_record_def red_next_def red_commit_def CMD_DEDUP_TTL_Fin Let_def)

lemma red_record_simps [simp]:
  "r_now (red_record db r h opts) = r_now db" "r_tl (red_record db r h opts) = r_tl db"
  "r_log (red_record db r h opts) = r_log db" "redis_ok (red_record db r h opts) = redis_ok db"
  "red_hash (red_record db r h opts) r' = red_hash db r'"
  by (simp_all add: red_record_def)

definition red_swept :: "redis_db \<Rightarrow> tl_hash \<Rightarrow> tl_hash" where
  "red_swept db h =
     h\<lparr>h_seq := h_seq h + 1, h_mediaTime := h_mediaTime h + (Fin (real (r_now db)) - h_stampedAt h) / 1000,
       h_stampedAt := Fin (real (r_now db)), h_lastSweepWindow := Some (int (r_now db div 10000)),
       h_reason := ''snapshot'', h_by := []\<rparr>"

lemma redis_applySnapshot_eq:
  "redis_applySnapshot xtrim db r now =
     (case red_hash db r of None \<Rightarrow> (db, None)
      | Some h \<Rightarrow>
          if h_isPlaying h \<noteq> ''1'' then (db, Some (encode h))
          else if h_lastSweepWindow h = Some (int (r_now db div 10000)) then (db, None)
          else (red_commit xtrim db r (red_swept db h) [], Some (encode (red_swept db h))))"
  by (simp add: redis_applySnapshot_def lua_apply_snapshot_def load_tl_def red_hash_def red_swept_def red_commit_def
      SWEEP_DEDUP_PERIOD_MS_def SWEEP_INTERVAL_MS_def Let_def split: option.splits)

definition red_born :: "redis_db \<Rightarrow> string option \<Rightarrow> jsnum \<Rightarrow> tl_hash" where
  "red_born db vid mt =
     \<lparr>h_seq = 0, h_storeEpoch = show_nat (r_now db), h_videoId = nullish vid [], h_isPlaying = ''0'',
      h_mediaTime = mt, h_stampedAt = Fin (real (r_now db)), h_reason = ''join'', h_by = [], h_lastSweepWindow = None\<rparr>"

lemma redis_init_eq:
  "redis_init xtrim db r vid mt now =
     (case red_hash db r of Some h \<Rightarrow> (db, encode h)
      | None \<Rightarrow> (red_commit xtrim db r (red_born db vid mt) [], encode (red_born db vid mt)))"
  by (simp add: redis_init_def lua_init_def load_tl_def red_hash_def red_born_def red_commit_def Let_def
      split: option.splits)

lemmas redis_eqs [store_simps] = redis_applyControl_eq redis_applySnapshot_eq redis_init_eq redis_get_eq

lemma red_next_fields:
  "h_seq (red_next db h it mt u opts) = h_seq h + 1"
  "h_storeEpoch (red_next db h it mt u opts) = h_storeEpoch h"
  "h_stampedAt (red_next db h it mt u opts) = Fin (real (r_now db))"
  "h_reason (red_next db h it mt u opts) = intent_str it"
  "h_by (red_next db h it mt u opts) = u"
  "h_isPlaying (red_next db h it mt u opts) =
     (case it of Play \<Rightarrow> ''1'' | Seek \<Rightarrow> h_isPlaying h | _ \<Rightarrow> ''0'')"
  "h_mediaTime (red_next db h it mt u opts) = (if it = SetVideo then 0 else mt)"
  "h_videoId (red_next db h it mt u opts) =
     (if it = SetVideo then nullish (nullish (o_videoId opts) None) [] else h_videoId h)"
  by (cases it; simp add: red_next_def control_hash_def Let_def)+

lemma encode_simps [simp]:
  "seq (encode h) = h_seq h" "storeEpoch (encode h) = h_storeEpoch h" "stampedAt (encode h) = h_stampedAt h"
  "mediaTime (encode h) = h_mediaTime h" "isPlaying (encode h) = (h_isPlaying h = ''1'')"
  "videoId (encode h) = none_if_empty (h_videoId h)" "reason_of (encode h) = h_reason h"
  "rate (encode h) = 1" "by_user (encode h) = none_if_empty (h_by h)"
  by (simp_all add: encode_def)

lemma nullish_none_if_empty [simp]: "nullish (none_if_empty s) [] = s"
  by (simp add: none_if_empty_def)

lemma red_fence_passes: "\<not> red_fence h it opts \<Longrightarrow> fence_passes (encode h) it opts"
  by (auto simp: red_fence_def fence_passes_def same_video_def split: option.splits)

text \<open>The interface of Redis's stream trimming, and what it gives the store.\<close>

locale stream_trimming =
  fixes xtrim :: "stream \<Rightarrow> stream"
  assumes trimming: "trim_ok xtrim"
begin

lemmas commit_ok = redis_ok_commit [OF trimming]

end

sublocale stream_trimming \<subseteq> red: room_state_store "redis_ops xtrim" redis_ok
proof unfold_locales
qed (auto simp: redis_ops_def redis_eqs red_next_fields red_born_def red_fence_passes
      intro!: commit_ok redis_ok_clear split: option.splits if_splits intent.splits)

interpretation redis_exact: stream_trimming "take_last LOG_MAX"
  by unfold_locales (rule trim_ok_exact)

context stream_trimming begin

lemma lawful: "room_state_store (redis_ops xtrim) redis_ok"
  by (rule red.room_state_store_axioms)

end

lemma redis_lawful: "trim_ok xtrim \<Longrightarrow> room_state_store (redis_ops xtrim) redis_ok"
  by (rule stream_trimming.lawful) (simp add: stream_trimming_def)

subsection \<open>The log replays to the live hash\<close>

text \<open>How the replay checker reads a stream entry.\<close>

definition fieldsToEntry :: "tl_hash \<times> string \<Rightarrow> log_entry" where
  "fieldsToEntry e = (case e of (h, c) \<Rightarrow>
     \<lparr>le_seq = h_seq h, le_storeEpoch = h_storeEpoch h, le_videoId = none_if_empty (h_videoId h),
      le_isPlaying = (h_isPlaying h = ''1''), le_mediaTime = h_mediaTime h, le_stampedAt = h_stampedAt h,
      le_reason = h_reason h, le_by = none_if_empty (h_by h), le_cmdId = none_if_empty c\<rparr>)"

lemma fieldsToEntry_encode: "fieldsToEntry (h, c) = entry_of (encode h) (none_if_empty c)"
  by (simp add: fieldsToEntry_def entry_of_def encode_def)

text \<open>A hash written at or before \<open>now\<close>, in an epoch minted at or before \<open>now\<close>.\<close>

definition hash_ok :: "nat \<Rightarrow> tl_hash \<Rightarrow> bool" where
  "hash_ok now h =
     (is_fin (h_mediaTime h) \<and> (\<exists>t\<le>now. h_stampedAt h = Fin (real t)) \<and> (\<exists>t\<le>now. h_storeEpoch h = show_nat t))"

definition red_legal :: "redis_db \<Rightarrow> bool" where
  "red_legal db = (redis_ok db \<and>
     (\<forall>r L e. r_log db (log_key r) = Some (L, e) \<longrightarrow>
        chained legal (map fieldsToEntry L) \<and> (\<forall>x\<in>set L. hash_ok (r_now db) (fst x))))"

lemma hash_ok_mono: "hash_ok n h \<Longrightarrow> n \<le> m \<Longrightarrow> hash_ok m h"
  by (fastforce simp: hash_ok_def)

lemma hash_ok_sweepless: "sweepless h = sweepless h' \<Longrightarrow> hash_ok n h \<Longrightarrow> hash_ok n h'"
  by (cases h; cases h') (simp add: sweepless_def hash_ok_def)

lemma encode_sweepless: "sweepless h = sweepless h' \<Longrightarrow> encode h = encode h'"
  by (metis encode_window sweepless_def)

lemma red_legal_hash:
  assumes "red_legal db" "red_hash db r = Some h"
  shows "\<exists>L h' c. rget (r_now db) (r_log db) (log_key r) = Some (L @ [(h', c)]) \<and> encode h' = encode h \<and> hash_ok (r_now db) h"
proof -
  obtain e where e: "r_tl db (tl_key r) = Some (h, e)" "r_now db < e"
    using assms(2) by (auto simp: red_hash_def elim: rget_SomeE)
  then obtain L h' c where L: "r_log db (log_key r) = Some (L, e)" "L \<noteq> []" "last L = (h', c)" "sweepless h' = sweepless h"
    using assms(1) by (fastforce simp: red_legal_def redis_ok_def)
  then have "hash_ok (r_now db) h'" using assms(1) by (force simp: red_legal_def dest: last_in_set)
  then have "hash_ok (r_now db) h" using hash_ok_sweepless L(4) by blast
  moreover have "L = butlast L @ [(h', c)]" using L(2,3) by (metis append_butlast_last_id)
  moreover have "rget (r_now db) (r_log db) (log_key r) = Some L" using L(1) e(2) by (simp add: rget_def)
  ultimately show ?thesis using encode_sweepless [OF L(4)] by metis
qed

lemma red_legal_commit:
  assumes "trim_ok xtrim" "red_legal db" "hash_ok (r_now db) h"
    and step: "\<And>h' d. rget (r_now db) (r_log db) (log_key r) \<noteq> None \<Longrightarrow>
      (h', d) = last (the (rget (r_now db) (r_log db) (log_key r))) \<Longrightarrow>
      the (rget (r_now db) (r_log db) (log_key r)) \<noteq> [] \<Longrightarrow> legal (fieldsToEntry (h', d)) (fieldsToEntry (h, c))"
  shows "red_legal (red_commit xtrim db r h c)"
proof -
  define L where "L = nullish (rget (r_now db) (r_log db) (log_key r)) []"
  have old: "chained legal (map fieldsToEntry L)" "\<forall>x\<in>set L. hash_ok (r_now db) (fst x)"
    using assms(2) unfolding L_def
    by (cases "rget (r_now db) (r_log db) (log_key r)"; auto simp: red_legal_def elim!: rget_SomeE)+
  have "chained legal (map fieldsToEntry L @ [fieldsToEntry (h, c)])"
    unfolding chained_snoc
  proof (intro conjI impI old(1))
    assume "map fieldsToEntry L \<noteq> []"
    then have "L \<noteq> []" by simp
    then have "legal (fieldsToEntry (last L)) (fieldsToEntry (h, c))"
      using step [of "fst (last L)" "snd (last L)"]
      by (cases "rget (r_now db) (r_log db) (log_key r)") (simp_all add: L_def)
    then show "legal (last (map fieldsToEntry L)) (fieldsToEntry (h, c))" using \<open>L \<noteq> []\<close> by (simp add: last_map)
  qed
  then have ch: "chained legal (map fieldsToEntry (L @ [(h, c)]))" by simp
  obtain k where k: "xtrim (L @ [(h, c)]) = drop k (L @ [(h, c)])" using assms(1) unfolding trim_ok_def by blast
  have "chained legal (map fieldsToEntry (xtrim (L @ [(h, c)])))"
    using chained_drop [OF ch] by (simp only: k drop_map)
  moreover have "\<forall>x\<in>set (xtrim (L @ [(h, c)])). hash_ok (r_now db) (fst x)"
    using old(2) assms(3) unfolding k by (auto dest: in_set_dropD)
  ultimately show ?thesis
    using assms(2) redis_ok_commit [OF assms(1)] by (auto simp: red_legal_def L_def [symmetric])
qed

lemma legal_red_next:
  assumes "hash_ok (r_now db) h" "encode h' = encode h"
  shows "legal (fieldsToEntry (h', d)) (fieldsToEntry (red_next db h it mt u opts, c))"
proof -
  obtain t where t: "h_stampedAt h = Fin (real t)" "t \<le> r_now db" using assms(1) by (auto simp: hash_ok_def)
  show ?thesis
    unfolding fieldsToEntry_encode assms(2)
    by (cases it) (simp_all add: checkTransition_def red_next_fields intent_str_def t leD [OF t(2)] CONTROL_REASONS_def)
qed

lemma legal_red_swept:
  assumes "hash_ok (r_now db) h" "encode h' = encode h" "h_isPlaying h = ''1''"
  shows "legal (fieldsToEntry (h', d)) (fieldsToEntry (red_swept db h, c))"
proof -
  obtain t m where t: "h_stampedAt h = Fin (real t)" "t \<le> r_now db" "h_mediaTime h = Fin m"
    using assms(1) by (auto simp: hash_ok_def is_fin_iff)
  show ?thesis
    unfolding fieldsToEntry_encode assms(2)
    by (simp add: checkTransition_def red_swept_def t leD [OF t(2)] assms(3) CONTROL_REASONS_def projectMediaTime_def toTimeline_def)
qed

text \<open>Runs: each operation is preceded by the milliseconds that pass before it.\<close>

definition advance :: "redis_db \<Rightarrow> nat \<Rightarrow> redis_db" where
  "advance db dt = db\<lparr>r_now := r_now db + dt\<rparr>"

fun redis_do :: "(stream \<Rightarrow> stream) \<Rightarrow> redis_db \<Rightarrow> store_op \<Rightarrow> redis_db" where
  "redis_do xtrim db (OpControl r it mt now u opts) = fst (redis_applyControl xtrim db r it mt now u opts)"
| "redis_do xtrim db (OpSnapshot r now) = fst (redis_applySnapshot xtrim db r now)"
| "redis_do xtrim db (OpInit r vid mt now) = fst (redis_init xtrim db r vid mt now)"
| "redis_do xtrim db (OpClear r) = redis_clear db r"

fun redis_run :: "(stream \<Rightarrow> stream) \<Rightarrow> redis_db \<Rightarrow> (nat \<times> store_op) list \<Rightarrow> redis_db" where
  "redis_run xtrim db [] = db"
| "redis_run xtrim db ((dt, x) # xs) = redis_run xtrim (redis_do xtrim (advance db dt) x) xs"

definition redis_empty :: "nat \<Rightarrow> redis_db" where
  "redis_empty now = \<lparr>r_now = now, r_tl = Map.empty, r_cmd = Map.empty, r_log = Map.empty, r_lease = Map.empty\<rparr>"

text \<open>Finite positions; a room is created in a later millisecond than whatever preceded it.\<close>

definition red_timed :: "nat \<times> store_op \<Rightarrow> bool" where
  "red_timed x = (is_fin (op_position (snd x)) \<and> (case snd x of OpInit _ _ _ _ \<Rightarrow> 0 < fst x | _ \<Rightarrow> True))"

lemma red_legal_empty: "red_legal (redis_empty now)"
  by (simp add: red_legal_def redis_ok_def redis_empty_def)

lemma advance_simps [simp]:
  "r_now (advance db dt) = r_now db + dt" "r_tl (advance db dt) = r_tl db" "r_log (advance db dt) = r_log db"
  "r_cmd (advance db dt) = r_cmd db"
  by (simp_all add: advance_def)

lemma red_legal_entry: "red_legal db \<Longrightarrow> r_log db (log_key r) = Some (L, e) \<Longrightarrow> x \<in> set L \<Longrightarrow> hash_ok (r_now db) (fst x)"
  unfolding red_legal_def by blast

lemma red_legal_advance: "red_legal db \<Longrightarrow> red_legal (advance db dt)"
  using hash_ok_mono [of "r_now db" _ "r_now db + dt"] by (simp add: red_legal_def redis_ok_def)

lemma red_legal_record [simp]: "red_legal (red_record db r h opts) = red_legal db"
  by (simp add: red_legal_def)

lemma red_legal_control:
  assumes "trim_ok xtrim" "red_legal db" "is_fin mt"
  shows "red_legal (fst (redis_applyControl xtrim db r it mt now u opts))"
proof (cases "red_hash db r")
  case (Some h)
  obtain L h' c where L: "rget (r_now db) (r_log db) (log_key r) = Some (L @ [(h', c)])" "encode h' = encode h"
      "hash_ok (r_now db) h" using red_legal_hash [OF assms(2) Some] by blast
  have "hash_ok (r_now db) (red_next db h it mt u opts)"
    using L(3) assms(3) by (auto simp: hash_ok_def red_next_fields)
  then have "red_legal (red_commit xtrim (red_record db r h opts) r (red_next db h it mt u opts) d)" for d
    using assms(2) L legal_red_next [OF L(3,2)] by (intro red_legal_commit [OF assms(1)]) auto
  then show ?thesis using assms(2) by (simp add: redis_applyControl_eq Some)
qed (simp add: redis_applyControl_eq assms)

lemma red_legal_snapshot:
  assumes "trim_ok xtrim" "red_legal db"
  shows "red_legal (fst (redis_applySnapshot xtrim db r now))"
proof (cases "red_hash db r")
  case (Some h)
  obtain L h' c where L: "rget (r_now db) (r_log db) (log_key r) = Some (L @ [(h', c)])" "encode h' = encode h"
      "hash_ok (r_now db) h" using red_legal_hash [OF assms(2) Some] by blast
  have "hash_ok (r_now db) (red_swept db h)" using L(3) by (auto simp: hash_ok_def red_swept_def is_fin_iff)
  then have "h_isPlaying h = ''1'' \<Longrightarrow> red_legal (red_commit xtrim db r (red_swept db h) [])"
    using assms(2) L legal_red_swept [OF L(3,2)] by (intro red_legal_commit [OF assms(1)]) auto
  then show ?thesis using assms(2) by (simp add: redis_applySnapshot_eq Some)
qed (simp add: redis_applySnapshot_eq assms)

lemma red_legal_init:
  assumes "trim_ok xtrim" "red_legal db" "is_fin mt" "0 < dt"
  shows "red_legal (fst (redis_init xtrim (advance db dt) r vid mt now))"
proof (cases "red_hash (advance db dt) r")
  case None
  let ?db = "advance db dt" and ?h = "red_born (advance db dt) vid mt"
  have "red_legal (red_commit xtrim ?db r ?h [])"
  proof (rule red_legal_commit [OF assms(1) red_legal_advance [OF assms(2)]])
    show "hash_ok (r_now ?db) ?h" using assms(3) by (auto simp: hash_ok_def red_born_def)
    fix h' d
    let ?L = "rget (r_now ?db) (r_log ?db) (log_key r)"
    assume L: "?L \<noteq> None" "(h', d) = last (the ?L)" "the ?L \<noteq> []"
    then have mem: "(h', d) \<in> set (the ?L)" by (metis last_in_set)
    obtain M where M: "?L = Some M" using L(1) by blast
    then obtain e where "r_log db (log_key r) = Some (M, e)" by (auto elim!: rget_SomeE)
    from red_legal_entry [OF assms(2) this, of "(h', d)"] have "hash_ok (r_now db) h'" using mem M by simp
    then have "h_storeEpoch h' \<noteq> h_storeEpoch ?h"
      using assms(4) by (auto simp: hash_ok_def red_born_def show_nat_inject)
    then show "legal (fieldsToEntry (h', d)) (fieldsToEntry (?h, []))"
      by (simp add: fieldsToEntry_encode checkTransition_def)
  qed
  then show ?thesis by (simp add: redis_init_eq None)
qed (simp add: redis_init_eq red_legal_advance assms)

lemma red_legal_do:
  assumes "trim_ok xtrim" "red_legal db" "red_timed (dt, x)"
  shows "red_legal (redis_do xtrim (advance db dt) x)"
proof (cases x)
  case (OpClear r)
  then show ?thesis using red_legal_advance [OF assms(2), of dt]
    by (simp add: red_legal_def redis_ok_clear) (simp add: redis_clear_def)
next
  case (OpInit r vid mt now)
  then show ?thesis using red_legal_init [OF assms(1,2)] assms(3) by (simp add: red_timed_def)
qed (use assms(3) red_legal_control [OF assms(1) red_legal_advance [OF assms(2)]]
      red_legal_snapshot [OF assms(1) red_legal_advance [OF assms(2)]] in \<open>simp_all add: red_timed_def\<close>)

lemma red_legal_run:
  assumes "trim_ok xtrim" "red_legal db" "list_all red_timed ops"
  shows "red_legal (redis_run xtrim db ops)"
  using assms(2,3)
proof (induction ops arbitrary: db)
  case (Cons x xs)
  then show ?case using red_legal_do [OF assms(1)] by (cases x) simp
qed simp

text \<open>
  Whatever operations any number of instances run against Redis, and however the stream is
  trimmed, the command log of a live room passes the replay checker with no violation and its newest
  entry is the live hash; clearing and re-creating a room starts a new epoch in the same log.
\<close>

theorem redis_log_replays_to_live:
  assumes "trim_ok xtrim" "list_all red_timed ops"
    "redis_get (redis_run xtrim (redis_empty t) ops) r = Some p"
  shows "\<exists>L. rget (r_now (redis_run xtrim (redis_empty t) ops)) (r_log (redis_run xtrim (redis_empty t) ops)) (log_key r) = Some L \<and>
    violations (checkChain (map fieldsToEntry L)) = [] \<and> L \<noteq> [] \<and>
    entryMatchesLive (fieldsToEntry (last L)) p = None"
proof -
  let ?db = "redis_run xtrim (redis_empty t) ops"
  have leg: "red_legal ?db" by (rule red_legal_run [OF assms(1) red_legal_empty assms(2)])
  obtain h where h: "red_hash ?db r = Some h" "p = encode h" using assms(3) by (auto simp: redis_get_eq)
  obtain L h' c where L: "rget (r_now ?db) (r_log ?db) (log_key r) = Some (L @ [(h', c)])" "encode h' = encode h"
      "hash_ok (r_now ?db) h" using red_legal_hash [OF leg h(1)] by blast
  have "chained legal (map fieldsToEntry (L @ [(h', c)]))"
    using leg L(1) by (auto simp: red_legal_def elim!: rget_SomeE simp del: map_append)
  moreover have "tl_fin (encode h)" using L(3) by (auto simp: hash_ok_def tl_fin_def is_fin_iff)
  then have "entryMatchesLive (fieldsToEntry (h', c)) p = None"
    by (simp add: fieldsToEntry_encode L(2) h(2) entry_matches_live)
  ultimately show ?thesis using L(1) by (intro exI [of _ "L @ [(h', c)]"]) (simp add: checkChain_clean_iff del: map_append)
qed

definition demo_redis :: "(nat \<times> store_op) list" where
  "demo_redis = [(5, OpInit ''r'' None 0 0), (9, OpControl ''r'' Play 3 0 ''ann'' (demo_opts ''c1'')),
     (2, OpControl ''r'' SetVideo 0 0 ''ann'' (no_opts\<lparr>o_videoId := Some (Some ''v'')\<rparr>)), (1, OpClear ''r''),
     (3, OpInit ''r'' None 0 0)]"

theorem redis_log_replays_to_live_witness:
  "\<exists>p L. redis_get (redis_run (take_last LOG_MAX) (redis_empty 100) demo_redis) ''r'' = Some p \<and>
     violations (checkChain (map fieldsToEntry L)) = [] \<and> L \<noteq> [] \<and> entryMatchesLive (fieldsToEntry (last L)) p = None"
proof -
  have t: "list_all red_timed demo_redis" by (simp add: demo_redis_def red_timed_def)
  have "\<exists>p. redis_get (redis_run (take_last LOG_MAX) (redis_empty 100) demo_redis) ''r'' = Some p"
    by (simp add: demo_redis_def redis_get_eq redis_init_eq red_hash_def [of "advance _ _"] split: option.splits)
  then obtain p where p: "redis_get (redis_run (take_last LOG_MAX) (redis_empty 100) demo_redis) ''r'' = Some p" by blast
  show ?thesis using redis_log_replays_to_live [OF trim_ok_exact t p] p by blast
qed

subsection \<open>One sweep per window\<close>

text \<open>The room was swept in window \<open>w\<close>, and its hash outlives the window.\<close>

definition swept_in :: "int \<Rightarrow> string \<Rightarrow> redis_db \<Rightarrow> bool" where
  "swept_in w r db = (int (r_now db div 10000) = w \<and>
     (\<exists>h e. r_tl db (tl_key r) = Some (h, e) \<and> h_lastSweepWindow h = Some w \<and> (w + 1) * 10000 \<le> int e))"

lemma window_end: "(int (n div 10000) + 1) * 10000 \<le> int (n + TL_TTL)" "int n < (int (n div 10000) + 1) * 10000"
  by (simp_all add: TL_TTL_def zdiv_int)

lemma swept_in_hash: "swept_in w r db \<Longrightarrow> \<exists>h. red_hash db r = Some h \<and> h_lastSweepWindow h = Some w"
  using window_end(2) [of "r_now db"] by (auto simp: swept_in_def red_hash_def rget_def)

lemma swept_in_commit:
  assumes "int (r_now db div 10000) = w" "h_lastSweepWindow h = Some w"
  shows "swept_in w r (red_commit xtrim db r h c)"
  using assms window_end(1) [of "r_now db"] by (auto simp: swept_in_def)

lemma swept_in_commit_other: "swept_in w r db \<Longrightarrow> r' \<noteq> r \<Longrightarrow> swept_in w r (red_commit xtrim db r' h c)"
  by (auto simp: swept_in_def)

lemma swept_in_record [simp]: "swept_in w r (red_record db r' h opts) = swept_in w r db"
  by (simp add: swept_in_def)

lemma red_next_window [simp]: "h_lastSweepWindow (red_next db h it mt u opts) = h_lastSweepWindow h"
  by (cases it) (simp_all add: red_next_def control_hash_def Let_def)

lemma swept_in_do:
  assumes "swept_in w r db" "x \<noteq> OpClear r"
  shows "swept_in w r (redis_do xtrim db x)"
proof -
  obtain h where h: "red_hash db r = Some h" "h_lastSweepWindow h = Some w"
    using swept_in_hash [OF assms(1)] by blast
  have w: "int (r_now db div 10000) = w" using assms(1) by (simp add: swept_in_def)
  note step = swept_in_commit_other [OF assms(1)]
  show ?thesis
  proof (cases x)
    case (OpControl r' it mt now u opts)
    have "swept_in w r (red_commit xtrim (red_record db r' g opts) r' (red_next db g it mt u opts) d)"
      if "red_hash db r' = Some g" for g d
    proof (cases "r' = r")
      case True
      then show ?thesis using that h w by (simp add: swept_in_commit)
    next
      case False
      then show ?thesis using assms(1) by (simp add: swept_in_commit_other)
    qed
    then show ?thesis using assms(1) by (auto simp: OpControl redis_applyControl_eq split: option.splits)
  next
    case (OpSnapshot r' now)
    then show ?thesis using assms(1) h w step
      by (cases "r' = r") (auto simp: redis_applySnapshot_eq split: option.splits)
  next
    case (OpInit r' vid mt now)
    then show ?thesis using assms(1) h step by (cases "r' = r") (auto simp: redis_init_eq split: option.splits)
  next
    case (OpClear r')
    then show ?thesis using assms by (auto simp: swept_in_def redis_clear_def)
  qed
qed

fun same_window :: "int \<Rightarrow> nat \<Rightarrow> (nat \<times> store_op) list \<Rightarrow> bool" where
  "same_window w n [] = True"
| "same_window w n ((dt, x) # xs) = (int ((n + dt) div 10000) = w \<and> same_window w (n + dt) xs)"

lemma r_now_do [simp]: "r_now (redis_do xtrim db x) = r_now db"
  by (cases x) (auto simp: redis_eqs redis_clear_def split: option.splits)

lemma swept_in_run:
  "swept_in w r db \<Longrightarrow> same_window w (r_now db) ops \<Longrightarrow> OpClear r \<notin> snd ` set ops \<Longrightarrow>
     swept_in w r (redis_run xtrim db ops)"
proof (induction ops arbitrary: db)
  case (Cons x xs)
  obtain dt op where x: "x = (dt, op)" by fastforce
  have "swept_in w r (advance db dt)" using Cons.prems(1,2) by (simp add: swept_in_def x)
  then have "swept_in w r (redis_do xtrim (advance db dt) op)" using swept_in_do Cons.prems(3) by (auto simp: x)
  then show ?case using Cons by (simp add: x)
qed simp

text \<open>
  One repair sweep per window: after some instance's sweep committed in a 10 s window, no
  sweep of that room by any instance commits again in the same window, whatever controls arrive in
  between; a repeated sweep leaves the database as it is, and answers null while the room plays, so
  its caller broadcasts nothing.
\<close>

theorem one_sweep_per_window:
  assumes "redis_applySnapshot xtrim db r now = (db1, Some t)" "seq t = h_seq h + 1" "red_hash db r = Some h"
    "same_window (int (r_now db div 10000)) (r_now db) ops" "OpClear r \<notin> snd ` set ops"
  shows "\<exists>res. redis_applySnapshot xtrim (redis_run xtrim db1 ops) r now2 = (redis_run xtrim db1 ops, res) \<and>
    (\<forall>t2. res = Some t2 \<longrightarrow> \<not> isPlaying t2)"
proof -
  define w where "w = int (r_now db div 10000)"
  have db1: "db1 = red_commit xtrim db r (red_swept db h) []" "h_isPlaying h = ''1''"
    using assms(1,2,3) by (auto simp: redis_applySnapshot_eq split: if_splits)
  have "swept_in w r db1" unfolding db1 w_def by (rule swept_in_commit) (simp_all add: red_swept_def)
  then have "swept_in w r (redis_run xtrim db1 ops)"
    using assms(4,5) by (intro swept_in_run) (simp_all add: db1 w_def)
  from swept_in_hash [OF this] this show ?thesis
    by (auto simp: redis_applySnapshot_eq swept_in_def)
qed

theorem one_sweep_per_window_witness:
  "\<exists>db1 t res. redis_applySnapshot (take_last LOG_MAX)
       (redis_run (take_last LOG_MAX) (redis_empty 20000) [(1, OpInit ''r'' None 0 0), (1, OpControl ''r'' Play 0 0 ''ann'' no_opts)]) ''r'' 0 =
       (db1, Some t) \<and>
     redis_applySnapshot (take_last LOG_MAX)
       (redis_run (take_last LOG_MAX) db1 [(700, OpControl ''r'' Seek 9 0 ''bob'' no_opts)]) ''r'' 0 =
       (redis_run (take_last LOG_MAX) db1 [(700, OpControl ''r'' Seek 9 0 ''bob'' no_opts)], res)"
proof -
  define db where "db = redis_run (take_last LOG_MAX) (redis_empty 20000) [(1, OpInit ''r'' None 0 0), (1, OpControl ''r'' Play 0 0 ''ann'' no_opts)]"
  have n: "r_now db = 20002" by (simp add: db_def del: redis_do.simps) (simp add: redis_empty_def)
  have "\<exists>h. red_hash db ''r'' = Some h \<and> h_isPlaying h = ''1'' \<and> h_lastSweepWindow h = Some (- 1)"
    by (simp add: db_def redis_eqs red_dup_def red_fence_def no_opts_def red_born_def red_next_fields
        red_hash_def redis_empty_def TL_TTL_def)
  then obtain h where h: "red_hash db ''r'' = Some h" "h_isPlaying h = ''1''" "h_lastSweepWindow h = Some (- 1)" by blast
  then have s: "redis_applySnapshot (take_last LOG_MAX) db ''r'' 0 =
      (red_commit (take_last LOG_MAX) db ''r'' (red_swept db h) [], Some (encode (red_swept db h)))"
    by (simp add: redis_applySnapshot_eq n)
  have "seq (encode (red_swept db h)) = h_seq h + 1" by (simp add: red_swept_def)
  from one_sweep_per_window [OF s this h(1), of "[(700, OpControl ''r'' Seek 9 0 ''bob'' no_opts)]" 0]
  show ?thesis unfolding db_def [symmetric] using s by (auto simp: n simp del: redis_run.simps)
qed

subsection \<open>Controls refine the in-memory store\<close>

text \<open>Room codes contain no colon, so the dedup keys of different rooms cannot collide.\<close>

definition colon_free :: "string \<Rightarrow> bool" where
  "colon_free r = (CHR '':'' \<notin> set r)"

lemma cmd_key_inj:
  assumes "colon_free r" "colon_free r'"
  shows "cmd_key r c = cmd_key r' c' \<longleftrightarrow> r = r' \<and> c = c'"
proof
  assume "cmd_key r c = cmd_key r' c'"
  then have eq: "r @ CHR '':'' # ''cmd:'' @ c = r' @ CHR '':'' # ''cmd:'' @ c'" by (simp add: cmd_key_def)
  have tw: "takeWhile (\<lambda>x. x \<noteq> CHR '':'') (s @ CHR '':'' # z) = s" if "colon_free s" for s z
    using that by (auto simp: colon_free_def takeWhile_append takeWhile_eq_all_conv)
  from tw [OF assms(1)] tw [OF assms(2)] have "r = r'" using eq by metis
  with eq show "r = r' \<and> c = c'" by simp
qed simp

definition mem_seen :: "mem_store \<Rightarrow> string \<Rightarrow> string \<Rightarrow> nat \<Rightarrow> bool" where
  "mem_seen st r c t = (case nullish (cmdSeen st r) Map.empty c of None \<Rightarrow> False | Some ex \<Rightarrow> \<not> ex \<le> Fin (real t))"

text \<open>
  The two stores agree: every room shows the same timeline, and from now on every command id is
  remembered by one exactly while it is remembered by the other.
\<close>

definition store_sim :: "redis_db \<Rightarrow> mem_store \<Rightarrow> bool" where
  "store_sim db st =
     ((\<forall>r. rooms st r = redis_get db r) \<and>
      (\<forall>r c t. colon_free r \<longrightarrow> c \<noteq> [] \<longrightarrow> r_now db \<le> t \<longrightarrow>
         mem_seen st r c t = (rget t (r_cmd db) (cmd_key r c) \<noteq> None)))"

definition encodable :: "string \<Rightarrow> apply_opts \<Rightarrow> bool" where
  "encodable u opts = (u \<noteq> [] \<and> o_videoId opts \<noteq> Some (Some []) \<and> o_forVideoId opts \<noteq> Some (Some []))"

lemma encode_red_next:
  assumes "encodable u opts"
  shows "encode (red_next db h it mt u opts) = next_timeline (encode h) it mt (Fin (real (r_now db))) u opts"
  using assms
  by (cases it) (auto simp: encodable_def encode_def red_next_def control_hash_def next_timeline_def with_seq_def
      applyControl_def control_base_def intent_str_def none_if_empty_def nullish_def Let_def split: option.splits)

lemma red_fence_eq: "encodable u opts \<Longrightarrow> red_fence h it opts = fence_hits (encode h) it opts"
  by (auto simp: red_fence_def fence_hits_def encodable_def none_if_empty_def nullish_def split: option.splits)

lemma mem_seen_now:
  assumes "r_now db \<le> t"
  shows "mem_seen (st\<lparr>cmdSeen := (cmdSeen st)(r \<mapsto> seen_now st r opts (Fin (real (r_now db))))\<rparr>) r' c t = mem_seen st r' c t"
proof (cases "r' = r")
  case True
  have "ex \<le> Fin (real (r_now db)) \<Longrightarrow> ex \<le> Fin (real t)" for ex
    using assms by (cases ex) auto
  then show ?thesis using True by (auto simp: mem_seen_def seen_now_def prune_seen_def Let_def split: option.splits)
qed (simp add: mem_seen_def)

lemma mem_seen_fenced:
  "r_now db \<le> t \<Longrightarrow>
     mem_seen (st\<lparr>cmdSeen := fenced_seen st r opts (Fin (real (r_now db)))\<rparr>) r' c t = mem_seen st r' c t"
  using mem_seen_now [of db t st r opts r' c] by (simp add: fenced_seen_def)

lemma dup_hit_seen:
  "dup_hit st r opts (Fin (real n)) = (truthy (o_cmdId opts) \<and> mem_seen st r (the (o_cmdId opts)) n)"
  by (auto simp: dup_hit_def seen_now_def prune_seen_def mem_seen_def Let_def split: option.splits)

lemma mem_seen_commit:
  assumes "r_now db \<le> t"
  shows "mem_seen (st\<lparr>cmdSeen := commit_seen st r opts (Fin (real (r_now db)))\<rparr>) r' c t =
    (if truthy (o_cmdId opts) \<and> r' = r \<and> c = the (o_cmdId opts) then t < r_now db + 900000 else mem_seen st r' c t)"
proof (cases "truthy (o_cmdId opts)")
  case False
  then show ?thesis using mem_seen_fenced [OF assms] by (simp add: commit_seen_def)
next
  case True
  have "\<not> Fin (real (r_now db) + 900000) \<le> Fin (real t) \<longleftrightarrow> t < r_now db + 900000" by auto
  then show ?thesis
    using True mem_seen_now [OF assms, of st r opts r' c]
    by (auto simp: commit_seen_def mem_seen_def CMD_DEDUP_TTL_Fin)
qed

text \<open>
  C3. The Redis store implements the in-memory one on controls: started from agreeing states, both
  answer every control with the same outcome carrying the same timeline, when the in-memory store
  stamps with Redis's clock, and they agree again afterwards. So the contract proved of the
  in-memory store, exactly-once included, carries over.
\<close>

theorem redis_control_refines_memory:
  assumes "store_sim db st" "colon_free r" "encodable u opts"
    "redis_applyControl xtrim db r it mt now u opts = (db', out)"
  shows "\<exists>st'. mem_applyControl st r it mt (Fin (real (r_now db))) u opts = (st', out) \<and> store_sim db' st'"
proof (cases "red_hash db r")
  case None
  then show ?thesis using assms(1,4) by (auto simp: store_sim_def redis_eqs mem_applyControl_eq)
next
  case (Some h)
  have room: "rooms st r = Some (encode h)" using assms(1) Some by (simp add: store_sim_def redis_get_eq)
  have dup: "dup_hit st r opts (Fin (real (r_now db))) = red_dup db r opts"
    using assms(1,2) by (auto simp: dup_hit_seen red_dup_def store_sim_def truthy_iff)
  note fence = red_fence_eq [OF assms(3)] and nxt = encode_red_next [OF assms(3)]
  have sim: "store_sim db (st\<lparr>cmdSeen := m\<rparr>)" if "\<And>r' c t. r_now db \<le> t \<Longrightarrow> mem_seen (st\<lparr>cmdSeen := m\<rparr>) r' c t = mem_seen st r' c t" for m
    using assms(1) that by (simp add: store_sim_def)
  let ?st = "mem_commit (st\<lparr>cmdSeen := commit_seen st r opts (Fin (real (r_now db)))\<rparr>) r (encode (red_next db h it mt u opts)) (o_cmdId opts)"
  let ?db = "red_commit xtrim (red_record db r h opts) r (red_next db h it mt u opts) (nullish (o_cmdId opts) [])"
  have "store_sim ?db ?st"
    unfolding store_sim_def
  proof (intro conjI allI impI)
    show "rooms ?st r' = redis_get ?db r'" for r'
      using assms(1) by (auto simp: store_sim_def redis_get_eq)
    fix r' c :: string and t :: nat
    assume *: "colon_free r'" "c \<noteq> []" "r_now ?db \<le> t"
    have "mem_seen ?st r' c t = mem_seen (st\<lparr>cmdSeen := commit_seen st r opts (Fin (real (r_now db)))\<rparr>) r' c t"
      by (simp add: mem_seen_def)
    then show "mem_seen ?st r' c t = (rget t (r_cmd ?db) (cmd_key r' c) \<noteq> None)"
      using * assms(1,2) cmd_key_inj [OF *(1) assms(2)]
      by (auto simp: mem_seen_commit red_record_def store_sim_def split: if_splits)
  qed
  then show ?thesis
    using assms(4) sim [OF mem_seen_now] sim [OF mem_seen_fenced]
    by (auto simp: redis_applyControl_eq mem_applyControl_eq Some room dup fence nxt split: if_splits)
qed

theorem redis_control_refines_memory_witness:
  "\<exists>st' db' out. redis_applyControl (take_last LOG_MAX) (fst (redis_init (take_last LOG_MAX) (redis_empty 7) ''r'' (Some ''vid'') (Fin 3) (Fin 0))) ''r'' Play (Fin 4) (Fin 0) ''ann'' (demo_opts ''c1'') = (db', out) \<and>
     mem_applyControl (fst (mem_init mem_empty ''r'' (Some ''vid'') (Fin 3) (Fin 7))) ''r'' Play (Fin 4) (Fin 7) ''ann'' (demo_opts ''c1'') = (st', out) \<and>
     store_sim db' st'"
proof -
  let ?db = "fst (redis_init (take_last LOG_MAX) (redis_empty 7) ''r'' (Some ''vid'') (Fin 3) (Fin 0))"
  let ?st = "fst (mem_init mem_empty ''r'' (Some ''vid'') (Fin 3) (Fin 7))"
  have n: "r_now ?db = 7" by (simp add: redis_init_eq red_hash_def redis_empty_def)
  have born: "encode (red_born (redis_empty 7) (Some ''vid'') (Fin 3)) = created_timeline (Some ''vid'') (Fin 3) (Fin 7)"
    by (simp add: encode_def red_born_def redis_empty_def created_timeline_def none_if_empty_def)
  have "store_sim ?db ?st"
    using born by (auto simp: store_sim_def redis_eqs red_hash_def mem_init_eq mem_empty_def mem_seen_def redis_empty_def TL_TTL_def)
  moreover obtain db' out where c: "redis_applyControl (take_last LOG_MAX) ?db ''r'' Play (Fin 4) (Fin 0) ''ann'' (demo_opts ''c1'') = (db', out)"
    by fastforce
  ultimately show ?thesis
    using redis_control_refines_memory [of ?db ?st "''r''" "''ann''" "demo_opts ''c1''" "take_last LOG_MAX" Play "Fin 4" "Fin 0" db' out]
    by (simp add: n colon_free_def encodable_def demo_opts_def no_opts_def)
qed

end
