(* ===== verification/ActorStore.thy ===== *)
theory ActorStore
  imports RedisStore
begin

text \<open>
  The actor store (sync/actor-room-state.store.ts) and its scripts (sync/lua/actor_claim.lua,
  actor_reclaim.lua, actor_init.lua, actor_commit.lua): one instance at a time owns a room under a
  lease, commits under the lease's epoch as a fence, and forwards the commands of rooms it does not
  own. The scripts are the atomic steps; the properties quantify over every interleaving of scripts,
  called with any arguments by any instance, and so over every schedule of the awaits in the class.
  The class itself is modelled call by call; the subscribers a publish reaches are a parameter.
\<close>

subsection \<open>The scripts\<close>

definition LEASE_TTL_MS :: nat where "LEASE_TTL_MS = 10000"
definition KEY_TTL_MS :: nat where "KEY_TTL_MS = 24 * 60 * 60 * 1000"

record lease =
  ls_owner :: string
  ls_epoch :: string
  ls_mine :: bool

definition lua_claim :: "redis_db \<Rightarrow> string \<Rightarrow> string \<Rightarrow> nat \<Rightarrow> redis_db \<times> lease" where
  "lua_claim db key inst ttl = (case rget (r_now db) (r_lease db) key of
     None \<Rightarrow>
       (db\<lparr>r_lease := (r_lease db)(key \<mapsto> ((inst, show_nat (r_now db)), r_now db + ttl))\<rparr>,
        \<lparr>ls_owner = inst, ls_epoch = show_nat (r_now db), ls_mine = True\<rparr>)
   | Some (ow, ep) \<Rightarrow>
       if ow = inst
       then (db\<lparr>r_lease := (r_lease db)(key \<mapsto> ((ow, ep), r_now db + ttl))\<rparr>,
             \<lparr>ls_owner = ow, ls_epoch = ep, ls_mine = True\<rparr>)
       else (db, \<lparr>ls_owner = ow, ls_epoch = ep, ls_mine = False\<rparr>))"

definition lua_reclaim :: "redis_db \<Rightarrow> string \<Rightarrow> string \<Rightarrow> string \<Rightarrow> redis_db \<times> nat" where
  "lua_reclaim db key ow ep = (case rget (r_now db) (r_lease db) key of
     None \<Rightarrow> (db, 1)
   | Some l \<Rightarrow> if l = (ow, ep) then (db\<lparr>r_lease := (r_lease db)(key := None)\<rparr>, 1) else (db, 0))"

text \<open>The guard shared by the two fenced scripts.\<close>

definition holds_lease :: "redis_db \<Rightarrow> string \<Rightarrow> string \<Rightarrow> string \<Rightarrow> bool" where
  "holds_lease db key inst fence = (rget (r_now db) (r_lease db) key = Some (inst, fence))"

text \<open>
  HSET and XADD of the actor scripts: the hash keeps a sweep window written by the other plane.
  The second argument is the hash before the write, if any.
\<close>

definition actor_write ::
  "(stream \<Rightarrow> stream) \<Rightarrow> redis_db \<Rightarrow> tl_hash option \<Rightarrow> string \<Rightarrow> string \<Rightarrow> tl_hash \<Rightarrow> string \<Rightarrow> nat \<Rightarrow> redis_db" where
  "actor_write xtrim db cur key logKey h cmdId ttl =
     db\<lparr>r_tl := (r_tl db)(key \<mapsto>
          (h\<lparr>h_lastSweepWindow := (case cur of None \<Rightarrow> None | Some c \<Rightarrow> h_lastSweepWindow c)\<rparr>, r_now db + ttl)),
        r_log := (r_log db)(logKey \<mapsto>
          (xtrim (nullish (rget (r_now db) (r_log db) logKey) [] @ [(h, cmdId)]), r_now db + ttl))\<rparr>"

definition actor_hash :: "nat \<Rightarrow> int \<Rightarrow> string \<Rightarrow> string \<Rightarrow> string \<Rightarrow> jsnum \<Rightarrow> string \<Rightarrow> string \<Rightarrow> tl_hash" where
  "actor_hash now sq fence vid playing mt rsn usr =
     \<lparr>h_seq = sq, h_storeEpoch = fence, h_videoId = vid, h_isPlaying = playing, h_mediaTime = mt,
      h_stampedAt = Fin (real now), h_reason = rsn, h_by = usr, h_lastSweepWindow = None\<rparr>"

definition lua_actor_init ::
  "(stream \<Rightarrow> stream) \<Rightarrow> redis_db \<Rightarrow> string \<Rightarrow> string \<Rightarrow> string \<Rightarrow> string \<Rightarrow> string \<Rightarrow> jsnum \<Rightarrow> string \<Rightarrow> nat \<Rightarrow>
   redis_db \<times> timeline option" where
  "lua_actor_init xtrim db leaseKey key logKey inst fence mt vid ttl =
     (if \<not> holds_lease db leaseKey inst fence then (db, None)
      else (case load_tl db key of
          Some h \<Rightarrow> (db, Some ((encode h)\<lparr>by_user := None\<rparr>))
        | None \<Rightarrow>
            (let h = actor_hash (r_now db) 0 fence vid ''0'' mt ''join'' [] in
             (actor_write xtrim db None key logKey h [] ttl, Some (encode h)))))"

record commit_args =
  ca_isPlaying :: bool
  ca_mediaTime :: jsnum
  ca_reason :: string
  ca_by :: string
  ca_videoId :: string
  ca_cmdId :: string
  ca_videoFenced :: bool
  ca_forVideoId :: string

definition commit_seq :: "tl_hash option \<Rightarrow> string \<Rightarrow> int" where
  "commit_seq cur fence = (case cur of
     Some c \<Rightarrow> if h_storeEpoch c = fence then h_seq c + 1 else 1
   | None \<Rightarrow> 1)"

definition lua_actor_commit ::
  "(stream \<Rightarrow> stream) \<Rightarrow> redis_db \<Rightarrow> string \<Rightarrow> string \<Rightarrow> string \<Rightarrow> string \<Rightarrow> string \<Rightarrow> string \<Rightarrow> commit_args \<Rightarrow>
   nat \<Rightarrow> nat \<Rightarrow> redis_db \<times> (timeline \<times> marker) option" where
  "lua_actor_commit xtrim db leaseKey key cmdKey logKey inst fence a ttl dedupTtl =
     (if \<not> holds_lease db leaseKey inst fence then (db, None)
      else
        (let cur = load_tl db key; sq = commit_seq cur fence in
         if ca_cmdId a \<noteq> [] \<and> cur \<noteq> None \<and> rget (r_now db) (r_cmd db) cmdKey \<noteq> None
         then (db, Some (encode (the cur), DupMark))
         else if ca_videoFenced a \<and> cur \<noteq> None \<and> h_videoId (the cur) \<noteq> ca_forVideoId a
         then (db, Some (encode (the cur), FencedMark))
         else
           (let db1 = (if ca_cmdId a \<noteq> [] \<and> cur \<noteq> None
                  then db\<lparr>r_cmd := (r_cmd db)(cmdKey \<mapsto> (show_nat (nat sq), r_now db + dedupTtl))\<rparr>
                  else db);
                h = actor_hash (r_now db) sq fence (ca_videoId a) (if ca_isPlaying a then ''1'' else ''0'')
                      (ca_mediaTime a) (ca_reason a) (ca_by a)
            in (actor_write xtrim db1 cur key logKey h (ca_cmdId a) ttl, Some (encode h, NoMark)))))"

subsection \<open>The class\<close>

record forwarded =
  fw_roomCode :: string
  fw_intent :: intent
  fw_mediaTime :: jsnum
  fw_by :: string
  fw_opts :: apply_opts

record owned_room =
  or_fence :: string
  or_timeline :: timeline

record actor =
  ac_id :: string
  ac_owned :: "string \<rightharpoonup> owned_room"

definition lease_key :: "string \<Rightarrow> string" where
  "lease_key roomCode = ''room:'' @ roomCode @ '':lease''"

definition claim :: "actor \<Rightarrow> redis_db \<Rightarrow> string \<Rightarrow> redis_db \<times> lease" where
  "claim ac db roomCode = lua_claim db (lease_key roomCode) (ac_id ac) LEASE_TTL_MS"

text \<open>One iteration of renewAll; a claim that throws is logged and leaves the room owned.\<close>

definition renew :: "actor \<Rightarrow> redis_db \<Rightarrow> string \<Rightarrow> actor \<times> redis_db" where
  "renew ac db roomCode =
     (let (db1, l) = claim ac db roomCode in
      (if ls_mine l then ac else ac\<lparr>ac_owned := (ac_owned ac)(roomCode := None)\<rparr>, db1))"

fun renewAll :: "actor \<Rightarrow> redis_db \<Rightarrow> string list \<Rightarrow> actor \<times> redis_db" where
  "renewAll ac db [] = (ac, db)"
| "renewAll ac db (r # rs) = (let (ac1, db1) = renew ac db r in renewAll ac1 db1 rs)"

definition actor_get :: "actor \<Rightarrow> redis_db \<Rightarrow> string \<Rightarrow> timeline option" where
  "actor_get ac db roomCode = (case ac_owned ac roomCode of
     Some e \<Rightarrow> Some (or_timeline e)
   | None \<Rightarrow> map_option encode (rget (r_now db) (r_tl db) (tl_key roomCode)))"

text \<open>The reply of commit: the timeline and its marker, or null when fenced out by the lease.\<close>

definition commit ::
  "(stream \<Rightarrow> stream) \<Rightarrow> actor \<Rightarrow> redis_db \<Rightarrow> string \<Rightarrow> string \<Rightarrow> unstamped \<Rightarrow> string option \<Rightarrow>
   string option option \<Rightarrow> actor \<times> redis_db \<times> (timeline \<times> marker) option" where
  "commit xtrim ac db roomCode fence nxt cmdId forVideoId =
     (let a = \<lparr>ca_isPlaying = u_isPlaying nxt, ca_mediaTime = u_mediaTime nxt, ca_reason = u_reason nxt,
               ca_by = nullish (u_by nxt) [], ca_videoId = nullish (u_videoId nxt) [],
               ca_cmdId = nullish cmdId [], ca_videoFenced = (forVideoId \<noteq> None),
               ca_forVideoId = nullish (nullish forVideoId None) []\<rparr>;
          (db1, raw) = lua_actor_commit xtrim db (lease_key roomCode) (tl_key roomCode)
             (cmd_key roomCode (nullish cmdId [])) (log_key roomCode) (ac_id ac) fence a KEY_TTL_MS
             (nat \<lfloor>fin_val CMD_DEDUP_TTL_MS\<rfloor>)
      in case raw of
           None \<Rightarrow> (ac\<lparr>ac_owned := (ac_owned ac)(roomCode := None)\<rparr>, db1, None)
         | Some (t, m) \<Rightarrow>
             (case ac_owned ac roomCode of
                None \<Rightarrow> ac
              | Some e \<Rightarrow> ac\<lparr>ac_owned := (ac_owned ac)(roomCode \<mapsto> e\<lparr>or_timeline := t\<rparr>)\<rparr>,
              db1, Some (t, m)))"

definition outcome_of :: "timeline \<times> marker \<Rightarrow> outcome" where
  "outcome_of p = (case p of (t, DupMark) \<Rightarrow> Duplicate t | (t, FencedMark) \<Rightarrow> Fenced t | (t, NoMark) \<Rightarrow> Committed t)"

text \<open>
  What the class does once it has an entry: commit under its fence; when fenced out, claim again
  and either retry under the new fence or forward to the owner. \<open>pub k\<close> is the number of subscribers
  the \<open>k\<close>-th publish of this call reaches on the channel of an instance.
\<close>

definition apply_owned ::
  "(stream \<Rightarrow> stream) \<Rightarrow> (nat \<Rightarrow> string \<Rightarrow> nat) \<Rightarrow> actor \<Rightarrow> redis_db \<Rightarrow> owned_room \<Rightarrow> string \<Rightarrow> intent \<Rightarrow> jsnum \<Rightarrow>
   jsnum \<Rightarrow> string \<Rightarrow> apply_opts \<Rightarrow> actor \<times> redis_db \<times> outcome \<times> (string \<times> forwarded) list" where
  "apply_owned xtrim pub ac db e roomCode it mt serverNow usr opts =
     (let fw = \<lparr>fw_roomCode = roomCode, fw_intent = it, fw_mediaTime = mt, fw_by = usr, fw_opts = opts\<rparr>;
          (ac1, db1, res) = commit xtrim ac db roomCode (or_fence e)
             (applyControl (or_timeline e) it mt serverNow usr (o_videoId opts)) (o_cmdId opts) (o_forVideoId opts)
      in case res of
           Some p \<Rightarrow> (ac1, db1, outcome_of p, [])
         | None \<Rightarrow>
             (let (db2, nowLease) = claim ac1 db1 roomCode in
              if ls_mine nowLease then
                (case actor_get ac1 db2 roomCode of
                   None \<Rightarrow> (ac1, db2, Missing, [])
                 | Some fresh \<Rightarrow>
                     (let ac2 = ac1\<lparr>ac_owned := (ac_owned ac1)(roomCode \<mapsto> \<lparr>or_fence = ls_epoch nowLease, or_timeline = fresh\<rparr>)\<rparr>;
                          (ac3, db3, retry) = commit xtrim ac2 db2 roomCode (ls_epoch nowLease)
                             (applyControl fresh it mt serverNow usr (o_videoId opts)) (o_cmdId opts) (o_forVideoId opts)
                      in (ac3, db3, case retry of None \<Rightarrow> Missing | Some p \<Rightarrow> outcome_of p, [])))
              else (ac1, db2, if 0 < pub 0 (ls_owner nowLease) then Forwarded else Missing, [(ls_owner nowLease, fw)])))"

definition applyControlSerial ::
  "(stream \<Rightarrow> stream) \<Rightarrow> (nat \<Rightarrow> string \<Rightarrow> nat) \<Rightarrow> actor \<Rightarrow> redis_db \<Rightarrow> string \<Rightarrow> intent \<Rightarrow> jsnum \<Rightarrow>
   jsnum \<Rightarrow> string \<Rightarrow> apply_opts \<Rightarrow> actor \<times> redis_db \<times> outcome \<times> (string \<times> forwarded) list" where
  "applyControlSerial xtrim pub ac db roomCode it mt serverNow usr opts =
     (let fw = \<lparr>fw_roomCode = roomCode, fw_intent = it, fw_mediaTime = mt, fw_by = usr, fw_opts = opts\<rparr> in
      case ac_owned ac roomCode of
        Some e \<Rightarrow> apply_owned xtrim pub ac db e roomCode it mt serverNow usr opts
      | None \<Rightarrow>
          (let (db1, l) = claim ac db roomCode;
               adopt = (\<lambda>db fence. case actor_get ac db roomCode of
                  None \<Rightarrow> (ac, db, Missing, [])
                | Some current \<Rightarrow>
                    (let e = \<lparr>or_fence = fence, or_timeline = current\<rparr> in
                     apply_owned xtrim (\<lambda>k. pub (k + 2)) (ac\<lparr>ac_owned := (ac_owned ac)(roomCode \<mapsto> e)\<rparr>) db e
                       roomCode it mt serverNow usr opts))
           in if ls_mine l then adopt db1 (ls_epoch l)
              else if 0 < pub 0 (ls_owner l) then (ac, db1, Forwarded, [(ls_owner l, fw)])
              else
                (let (db2, _) = lua_reclaim db1 (lease_key roomCode) (ls_owner l) (ls_epoch l);
                     (db3, retaken) = claim ac db2 roomCode
                 in if \<not> ls_mine retaken
                    then (ac, db3, if 0 < pub 1 (ls_owner retaken) then Forwarded else Missing,
                          [(ls_owner l, fw), (ls_owner retaken, fw)])
                    else (case adopt db3 (ls_epoch retaken) of
                        (ac', db', out, fws) \<Rightarrow> (ac', db', out, (ls_owner l, fw) # fws)))))"

definition actor_applySnapshot ::
  "(stream \<Rightarrow> stream) \<Rightarrow> actor \<Rightarrow> redis_db \<Rightarrow> string \<Rightarrow> jsnum \<Rightarrow> actor \<times> redis_db \<times> timeline option" where
  "actor_applySnapshot xtrim ac db roomCode serverNow = (case ac_owned ac roomCode of
     None \<Rightarrow> (ac, db, None)
   | Some e \<Rightarrow>
       if \<not> isPlaying (or_timeline e) then (ac, db, None)
       else (case commit xtrim ac db roomCode (or_fence e) (snapshot (or_timeline e) serverNow) None None of
           (ac1, db1, res) \<Rightarrow> (ac1, db1, map_option fst res)))"

definition actor_init ::
  "(stream \<Rightarrow> stream) \<Rightarrow> actor \<Rightarrow> redis_db \<Rightarrow> string \<Rightarrow> string option \<Rightarrow> jsnum \<Rightarrow> jsnum \<Rightarrow> actor \<times> redis_db \<times> timeline" where
  "actor_init xtrim ac db roomCode vid mt serverNow = (case actor_get ac db roomCode of
     Some existing \<Rightarrow> (ac, db, existing)
   | None \<Rightarrow>
       (let (db1, l) = claim ac db roomCode;
            fallback = (\<lambda>db. case actor_get ac db roomCode of
               Some t \<Rightarrow> (ac, db, t)
             | None \<Rightarrow> (ac, db, \<lparr>seq = 0, storeEpoch = ls_epoch l, videoId = vid, isPlaying = False, mediaTime = mt,
                               stampedAt = serverNow, rate = 1, reason_of = ''join'', by_user = None\<rparr>))
        in if \<not> ls_mine l then fallback db1
           else (case lua_actor_init xtrim db1 (lease_key roomCode) (tl_key roomCode) (log_key roomCode) (ac_id ac)
                        (ls_epoch l) mt (nullish vid []) KEY_TTL_MS of
               (db2, Some created) \<Rightarrow>
                 (ac\<lparr>ac_owned := (ac_owned ac)(roomCode \<mapsto> \<lparr>or_fence = ls_epoch l, or_timeline = created\<rparr>)\<rparr>, db2, created)
             | (db2, None) \<Rightarrow> fallback db2)))"

definition actor_clear :: "actor \<Rightarrow> redis_db \<Rightarrow> string \<Rightarrow> actor \<times> redis_db" where
  "actor_clear ac db roomCode =
     (ac\<lparr>ac_owned := (ac_owned ac)(roomCode := None)\<rparr>,
      db\<lparr>r_tl := (r_tl db)(tl_key roomCode := None), r_lease := (r_lease db)(lease_key roomCode := None)\<rparr>)"

subsection \<open>Interleavings of scripts\<close>

datatype script =
    SClaim string string
  | SReclaim string string string
  | SInit string string string jsnum string
  | SCommit string string string commit_args
  | SAdvance nat

fun script_step :: "(stream \<Rightarrow> stream) \<Rightarrow> redis_db \<Rightarrow> script \<Rightarrow> redis_db" where
  "script_step xtrim db (SClaim inst r) = fst (lua_claim db (lease_key r) inst LEASE_TTL_MS)"
| "script_step xtrim db (SReclaim r ow ep) = fst (lua_reclaim db (lease_key r) ow ep)"
| "script_step xtrim db (SInit inst f r mt vid) =
     fst (lua_actor_init xtrim db (lease_key r) (tl_key r) (log_key r) inst f mt vid KEY_TTL_MS)"
| "script_step xtrim db (SCommit inst f r a) =
     fst (lua_actor_commit xtrim db (lease_key r) (tl_key r) (cmd_key r (ca_cmdId a)) (log_key r) inst f a KEY_TTL_MS 900000)"
| "script_step xtrim db (SAdvance dt) = advance db dt"

definition script_run :: "(stream \<Rightarrow> stream) \<Rightarrow> redis_db \<Rightarrow> script list \<Rightarrow> redis_db" where
  "script_run xtrim = foldl (script_step xtrim)"

lemma script_run_simps [simp]:
  "script_run xtrim db [] = db" "script_run xtrim db (x # xs) = script_run xtrim (script_step xtrim db x) xs"
  by (simp_all add: script_run_def)

lemma advance_lease [simp]: "r_lease (advance db dt) = r_lease db"
  by (simp add: advance_def)

lemma lease_key_inj [simp]: "lease_key r = lease_key r' \<longleftrightarrow> r = r'"
  by (simp add: lease_key_def)

lemma actor_write_simps [simp]:
  "r_now (actor_write xtrim db cur k l h c ttl) = r_now db" "r_cmd (actor_write xtrim db cur k l h c ttl) = r_cmd db"
  "r_lease (actor_write xtrim db cur k l h c ttl) = r_lease db"
  "r_tl (actor_write xtrim db cur k l h c ttl) = (r_tl db)(k \<mapsto>
     (h\<lparr>h_lastSweepWindow := (case cur of None \<Rightarrow> None | Some c \<Rightarrow> h_lastSweepWindow c)\<rparr>, r_now db + ttl))"
  by (simp_all add: actor_write_def)

lemma actor_hash_simps [simp]:
  "h_seq (actor_hash now sq f vid pl mt rsn u) = sq" "h_storeEpoch (actor_hash now sq f vid pl mt rsn u) = f"
  "h_videoId (actor_hash now sq f vid pl mt rsn u) = vid"
  by (simp_all add: actor_hash_def)

text \<open>The effect of a commit on each part of the database.\<close>

lemma lua_actor_commit_cases:
  assumes "lua_actor_commit xtrim db lk k ck gk inst f a ttl dttl = (db', res)"
  obtains (refused) "db' = db" "res = None \<or> (\<exists>h. load_tl db k = Some h \<and> res \<in> {Some (encode h, DupMark), Some (encode h, FencedMark)})"
  | (written) h db1 where "holds_lease db lk inst f" "res = Some (encode h, NoMark)"
      "db' = actor_write xtrim db1 (load_tl db k) k gk h (ca_cmdId a) ttl"
      "h_seq h = commit_seq (load_tl db k) f" "h_storeEpoch h = f"
      "db1 = (if ca_cmdId a \<noteq> [] \<and> load_tl db k \<noteq> None
         then db\<lparr>r_cmd := (r_cmd db)(ck \<mapsto> (show_nat (nat (commit_seq (load_tl db k) f)), r_now db + dttl))\<rparr> else db)"
      "ca_cmdId a \<noteq> [] \<Longrightarrow> load_tl db k \<noteq> None \<Longrightarrow> rget (r_now db) (r_cmd db) ck = None"
proof (cases "holds_lease db lk inst f")
  case False
  then show ?thesis using assms by (intro refused) (simp_all add: lua_actor_commit_def)
next
  case lease: True
  let ?cur = "load_tl db k"
  consider "ca_cmdId a \<noteq> [] \<and> ?cur \<noteq> None \<and> rget (r_now db) (r_cmd db) ck \<noteq> None"
    | "\<not> (ca_cmdId a \<noteq> [] \<and> ?cur \<noteq> None \<and> rget (r_now db) (r_cmd db) ck \<noteq> None)"
      "ca_videoFenced a \<and> ?cur \<noteq> None \<and> h_videoId (the ?cur) \<noteq> ca_forVideoId a"
    | "\<not> (ca_cmdId a \<noteq> [] \<and> ?cur \<noteq> None \<and> rget (r_now db) (r_cmd db) ck \<noteq> None)"
      "\<not> (ca_videoFenced a \<and> ?cur \<noteq> None \<and> h_videoId (the ?cur) \<noteq> ca_forVideoId a)" by blast
  then show ?thesis
  proof cases
    case 1
    then show ?thesis using assms lease by (intro refused) (auto simp: lua_actor_commit_def Let_def)
  next
    case 2
    then show ?thesis using assms lease by (intro refused) (auto simp only: lua_actor_commit_def Let_def not_True_eq_False if_False if_True, auto)
  next
    case 3
    show ?thesis
      by (rule written [OF lease]) (use assms lease 3 in \<open>auto simp only: lua_actor_commit_def Let_def not_True_eq_False if_False if_True fst_conv snd_conv prod.inject actor_hash_simps\<close>)
  qed
qed

text \<open>
  Epochs are minted by claims from the store clock: the epoch of a room's timeline is never past
  the epoch of its lease.
\<close>

definition epochs_ok :: "string \<Rightarrow> redis_db \<Rightarrow> bool" where
  "epochs_ok r db =
     ((\<forall>ow ep x. r_lease db (lease_key r) = Some ((ow, ep), x) \<longrightarrow> (\<exists>j\<le>r_now db. ep = show_nat j)) \<and>
      (\<forall>h e. r_tl db (tl_key r) = Some (h, e) \<longrightarrow> (\<exists>k\<le>r_now db. h_storeEpoch h = show_nat k \<and>
         (\<forall>ow j x. r_lease db (lease_key r) = Some ((ow, show_nat j), x) \<longrightarrow> k \<le> j))))"

lemma epochs_ok_empty: "epochs_ok r (redis_empty now)"
  by (simp add: epochs_ok_def redis_empty_def)

lemma epochs_ok_write:
  assumes "epochs_ok r db" "r' = r \<Longrightarrow> holds_lease db (lease_key r) inst (h_storeEpoch h)"
    "r_now db1 = r_now db" "r_tl db1 = r_tl db" "r_lease db1 = r_lease db"
  shows "epochs_ok r (actor_write xtrim db1 cur (tl_key r') gk h c ttl)"
proof (cases "r' = r")
  case True
  obtain x where x: "r_lease db (lease_key r) = Some ((inst, h_storeEpoch h), x)"
    using assms(2) [OF True] by (auto simp: holds_lease_def elim: rget_SomeE)
  then obtain j where "j \<le> r_now db" "h_storeEpoch h = show_nat j" using assms(1) by (auto simp: epochs_ok_def)
  then show ?thesis using assms(1,3-5) True x by (auto simp: epochs_ok_def)
qed (use assms in \<open>auto simp: epochs_ok_def\<close>)

lemma epochs_ok_step: "epochs_ok r db \<Longrightarrow> epochs_ok r (script_step xtrim db s)"
proof (cases s)
  case (SClaim inst r')
  assume "epochs_ok r db"
  then show ?thesis
    by (cases "r' = r"; cases "rget (r_now db) (r_lease db) (lease_key r')")
      (auto simp: SClaim epochs_ok_def lua_claim_def elim!: rget_SomeE split: if_splits)
next
  case (SReclaim r' ow ep)
  assume "epochs_ok r db"
  then show ?thesis
    by (auto simp: SReclaim epochs_ok_def lua_reclaim_def split: option.splits)
next
  case (SInit inst f r' mt vid)
  assume "epochs_ok r db"
  then show ?thesis
    by (auto simp: SInit lua_actor_init_def Let_def split: option.splits intro!: epochs_ok_write [where inst = inst])
next
  case (SCommit inst f r' a)
  assume ok: "epochs_ok r db"
  obtain db' res where e: "lua_actor_commit xtrim db (lease_key r') (tl_key r') (cmd_key r' (ca_cmdId a)) (log_key r')
      inst f a KEY_TTL_MS 900000 = (db', res)" by fastforce
  then show ?thesis
  proof (cases rule: lua_actor_commit_cases)
    case refused
    then show ?thesis using ok e by (simp add: SCommit)
  next
    case (written h db1)
    then show ?thesis using ok e by (auto simp: SCommit intro!: epochs_ok_write [where inst = inst and db = db])
  qed
next
  case (SAdvance dt)
  assume ok: "epochs_ok r db"
  have "j \<le> r_now db \<Longrightarrow> j \<le> r_now db + dt" for j by simp
  with ok show ?thesis unfolding SAdvance script_step.simps epochs_ok_def advance_simps advance_lease by blast
qed

lemma epochs_ok_run: "epochs_ok r db \<Longrightarrow> epochs_ok r (script_run xtrim db ss)"
  by (induction ss arbitrary: db) (simp_all add: epochs_ok_step)

subsection \<open>The fence\<close>

text \<open>What clients hold: the live timeline of a room.\<close>

definition live_tl :: "redis_db \<Rightarrow> string \<Rightarrow> timeline option" where
  "live_tl db r = map_option encode (load_tl db (tl_key r))"

lemma version_of_encode: "version_of (encode h) = (digits_val 10 (h_storeEpoch h), h_seq h)"
  by (simp add: version_of_def)

lemma commit_newer:
  assumes "epochs_ok r db" "holds_lease db (lease_key r) inst (h_storeEpoch h)" "load_tl db (tl_key r) = Some c"
    "h_seq h = commit_seq (Some c) (h_storeEpoch h)"
  shows "newer_version (version_of (encode h)) (version_of (encode c))"
proof -
  obtain x where x: "r_lease db (lease_key r) = Some ((inst, h_storeEpoch h), x)"
    using assms(2) by (auto simp: holds_lease_def elim: rget_SomeE)
  obtain j where j: "h_storeEpoch h = show_nat j" using assms(1) x by (auto simp: epochs_ok_def)
  obtain e where "r_tl db (tl_key r) = Some (c, e)" using assms(3) by (auto simp: load_tl_def elim: rget_SomeE)
  then obtain k where k: "h_storeEpoch c = show_nat k" "k \<le> j" using assms(1) x j by (fastforce simp: epochs_ok_def)
  show ?thesis
    using assms(4) k j by (auto simp: version_of_encode newer_version_def commit_seq_def split: if_splits)
qed

lemma live_tl_write:
  "ttl > 0 \<Longrightarrow> r_now db1 = r_now db \<Longrightarrow> r_tl db1 = r_tl db \<Longrightarrow>
     live_tl (actor_write xtrim db1 cur (tl_key r') gk h c ttl) r = (if r' = r then Some (encode h) else live_tl db r)"
  by (auto simp: live_tl_def load_tl_def)

lemma live_tl_other [simp]:
  "live_tl (db\<lparr>r_lease := l\<rparr>) r = live_tl db r" "live_tl (db\<lparr>r_cmd := m\<rparr>) r = live_tl db r"
  by (simp_all add: live_tl_def load_tl_def)

lemma live_wf_epoch: "epochs_ok r db \<Longrightarrow> live_tl db r = Some t \<Longrightarrow> wf_epoch t"
  by (auto simp: live_tl_def load_tl_def epochs_ok_def wf_epoch_def epoch_is_def elim!: rget_SomeE)

lemma claim_live [simp]: "live_tl (fst (lua_claim db k inst ttl)) r = live_tl db r"
  by (auto simp: lua_claim_def split: option.splits)

lemma reclaim_live [simp]: "live_tl (fst (lua_reclaim db k ow ep)) r = live_tl db r"
  by (auto simp: lua_reclaim_def split: option.splits)

lemma actor_write_log:
  "r_log (actor_write xtrim db cur k l h c ttl) = (r_log db)(l \<mapsto>
     (xtrim (nullish (rget (r_now db) (r_log db) l) [] @ [(h, c)]), r_now db + ttl))"
  by (simp add: actor_write_def)

lemma claim_fields:
  "r_now (fst (lua_claim db k inst ttl)) = r_now db" "r_tl (fst (lua_claim db k inst ttl)) = r_tl db"
  "r_log (fst (lua_claim db k inst ttl)) = r_log db" "r_cmd (fst (lua_claim db k inst ttl)) = r_cmd db"
  "r_now (fst (lua_reclaim db k ow ep)) = r_now db" "r_tl (fst (lua_reclaim db k ow ep)) = r_tl db"
  "r_log (fst (lua_reclaim db k ow ep)) = r_log db" "r_cmd (fst (lua_reclaim db k ow ep)) = r_cmd db"
  by (auto simp: lua_claim_def lua_reclaim_def split: option.splits)

text \<open>Once a lease of a later epoch was granted, no lease of an earlier one is live again.\<close>

definition epoch_from :: "nat \<Rightarrow> string \<Rightarrow> redis_db \<Rightarrow> bool" where
  "epoch_from j r db = (j \<le> r_now db \<and> (\<forall>ow ep x. r_lease db (lease_key r) = Some ((ow, ep), x) \<longrightarrow> (\<exists>i\<ge>j. ep = show_nat i)))"

lemma epoch_from_step: "epoch_from j r db \<Longrightarrow> epoch_from j r (script_step xtrim db s)"
proof (cases s)
  case (SClaim inst r')
  assume "epoch_from j r db"
  then show ?thesis
    by (cases "r' = r"; cases "rget (r_now db) (r_lease db) (lease_key r')")
      (auto simp: SClaim epoch_from_def lua_claim_def elim!: rget_SomeE split: if_splits)
next
  case (SCommit inst f r' a)
  assume ok: "epoch_from j r db"
  obtain db' res where e: "lua_actor_commit xtrim db (lease_key r') (tl_key r') (cmd_key r' (ca_cmdId a)) (log_key r')
      inst f a KEY_TTL_MS 900000 = (db', res)" by fastforce
  then show ?thesis
    by (cases rule: lua_actor_commit_cases) (use ok e in \<open>auto simp: SCommit epoch_from_def\<close>)
qed (auto simp: epoch_from_def lua_reclaim_def lua_actor_init_def Let_def split: option.splits)

lemma epoch_from_run: "epoch_from j r db \<Longrightarrow> epoch_from j r (script_run xtrim db ss)"
  by (induction ss arbitrary: db) (simp_all add: epoch_from_step)

lemma superseded_for_good:
  assumes "epochs_ok r db" "r_lease db (lease_key r) = Some ((ow, show_nat j), x)" "k < j"
  shows "rget (r_now (script_run xtrim db ss)) (r_lease (script_run xtrim db ss)) (lease_key r) \<noteq> Some (inst, show_nat k)"
proof -
  have "epoch_from j r db" using assms(1,2) by (auto simp: epochs_ok_def epoch_from_def)
  from epoch_from_run [OF this, of xtrim ss] show ?thesis using assms(3) by (auto simp: epoch_from_def elim!: rget_SomeE)
qed

lemma stale_script_refused:
  assumes "rget (r_now db) (r_lease db) lk \<noteq> Some (inst, f)"
  shows "lua_actor_commit xtrim db lk k ck gk inst f a ttl dttl = (db, None)"
    and "lua_actor_init xtrim db lk k gk inst f mt vid ttl = (db, None)"
  using assms by (simp_all add: lua_actor_commit_def lua_actor_init_def holds_lease_def)

lemma cmd_change:
  assumes "r_cmd (script_step xtrim db s) k \<noteq> r_cmd db k"
  shows "\<exists>inst f r' a. s = SCommit inst f r' a \<and> k = cmd_key r' (ca_cmdId a) \<and>
    rget (r_now db) (r_lease db) (lease_key r') = Some (inst, f)"
proof (cases s)
  case (SCommit inst f r' a)
  obtain db' res where e: "lua_actor_commit xtrim db (lease_key r') (tl_key r') (cmd_key r' (ca_cmdId a)) (log_key r')
      inst f a KEY_TTL_MS 900000 = (db', res)" by fastforce
  then show ?thesis
    by (cases rule: lua_actor_commit_cases) (use assms e in \<open>auto simp: SCommit holds_lease_def split: if_splits\<close>)
qed (use assms in \<open>auto simp: lua_claim_def lua_reclaim_def lua_actor_init_def Let_def split: option.splits if_splits\<close>)

lemma live_change:
  assumes "db = script_run xtrim (redis_empty now) ss" "\<forall>dt. s \<noteq> SAdvance dt"
    "live_tl (script_step xtrim db s) r \<noteq> live_tl db r \<or> r_log (script_step xtrim db s) (log_key r) \<noteq> r_log db (log_key r)"
  shows "\<exists>inst f t. ((\<exists>a. s = SCommit inst f r a) \<or> (\<exists>mt vid. s = SInit inst f r mt vid)) \<and>
    rget (r_now db) (r_lease db) (lease_key r) = Some (inst, f) \<and>
    live_tl (script_step xtrim db s) r = Some t \<and> storeEpoch t = f \<and>
    (\<forall>t0. live_tl db r = Some t0 \<longrightarrow> isNewer t (Some t0))"
proof -
  have ok: "epochs_ok r db" unfolding assms(1) by (rule epochs_ok_run [OF epochs_ok_empty])
  note ok' = epochs_ok_step [OF ok, of xtrim s]
  show ?thesis
  proof (cases s)
    case (SInit inst f r' mt vid)
    then have "r' = r" "holds_lease db (lease_key r) inst f" "load_tl db (tl_key r) = None"
      using assms(3) by (auto simp: lua_actor_init_def KEY_TTL_MS_def live_tl_write [OF _ refl refl] Let_def actor_write_log
          split: option.splits if_splits)
    then show ?thesis
      by (auto simp: SInit lua_actor_init_def KEY_TTL_MS_def live_tl_write [OF _ refl refl] Let_def holds_lease_def)
        (simp_all add: live_tl_def)
  next
    case (SCommit inst f r' a)
    obtain db' res where e: "lua_actor_commit xtrim db (lease_key r') (tl_key r') (cmd_key r' (ca_cmdId a)) (log_key r')
        inst f a KEY_TTL_MS 900000 = (db', res)" by fastforce
    then show ?thesis
    proof (cases rule: lua_actor_commit_cases)
      case refused
      then show ?thesis using assms(3) e by (simp add: SCommit)
    next
      case (written h db1)
      have same: "r_now db1 = r_now db" "r_tl db1 = r_tl db" using written(6) by simp_all
      have live: "live_tl (script_step xtrim db s) r = (if r' = r then Some (encode h) else live_tl db r)"
        unfolding SCommit script_step.simps e fst_conv written(3)
        by (rule live_tl_write) (simp_all add: KEY_TTL_MS_def same)
      have "r_log (script_step xtrim db s) (log_key r) = r_log db (log_key r)" if "r' \<noteq> r"
        using that written(6) by (simp add: SCommit e written(3) actor_write_log)
      then have r: "r' = r" using assms(3) live by auto
      have "isNewer (encode h) (Some t0)" if t0: "live_tl db r = Some t0" for t0
      proof -
        obtain c where c: "load_tl db (tl_key r) = Some c" "t0 = encode c" using t0 by (auto simp: live_tl_def)
        have "newer_version (version_of (encode h)) (version_of t0)"
          unfolding c(2) using written(1,4,5) c(1) r by (intro commit_newer [OF ok]) simp_all
        moreover have "wf_epoch (encode h)" "wf_epoch t0"
          using live_wf_epoch [OF ok'] live r live_wf_epoch [OF ok t0] by simp_all
        ultimately show ?thesis by (simp add: isNewer_version)
      qed
      then show ?thesis using written(1,5) live r by (auto simp: SCommit holds_lease_def)
    qed
  next
    case (SClaim inst r')
    then show ?thesis using assms(3) by (auto simp: claim_fields)
  next
    case (SReclaim r' ow ep)
    then show ?thesis using assms(3) by (auto simp: claim_fields)
  qed (use assms(2) in simp)
qed

text \<open>
  C4. No stale write. In every state reachable by any interleaving of scripts from any instances: a commit or an
  init whose caller does not hold the room's lease under exactly the fence it passes leaves the whole database as
  it is, timeline, log and deduplication records, and answers nothing. A fence with a lease of a later epoch after
  it is in that position for good, whatever scripts run in between. Conversely a script that changes the live
  timeline or the log of a room is a commit or init of the holder of its lease, and then the timeline it leaves
  carries the fence as its epoch and is newer than the one before; a deduplication record is written by such a
  commit only.
\<close>

theorem no_stale_fence_write:
  assumes "db = script_run xtrim (redis_empty now) ss"
  shows "(\<forall>inst f. rget (r_now db) (r_lease db) (lease_key r) \<noteq> Some (inst, f) \<longrightarrow>
      (\<forall>k ck gk a ttl dttl mt vid. lua_actor_commit xtrim db (lease_key r) k ck gk inst f a ttl dttl = (db, None) \<and>
        lua_actor_init xtrim db (lease_key r) k gk inst f mt vid ttl = (db, None))) \<and>
    (\<forall>ow j x k inst ss'. r_lease db (lease_key r) = Some ((ow, show_nat j), x) \<and> k < j \<longrightarrow>
      rget (r_now (script_run xtrim db ss')) (r_lease (script_run xtrim db ss')) (lease_key r) \<noteq> Some (inst, show_nat k)) \<and>
    (\<forall>s. (\<forall>dt. s \<noteq> SAdvance dt) \<and>
        (live_tl (script_step xtrim db s) r \<noteq> live_tl db r \<or> r_log (script_step xtrim db s) (log_key r) \<noteq> r_log db (log_key r)) \<longrightarrow>
      (\<exists>inst f t. ((\<exists>a. s = SCommit inst f r a) \<or> (\<exists>mt vid. s = SInit inst f r mt vid)) \<and>
        rget (r_now db) (r_lease db) (lease_key r) = Some (inst, f) \<and>
        live_tl (script_step xtrim db s) r = Some t \<and> storeEpoch t = f \<and>
        (\<forall>t0. live_tl db r = Some t0 \<longrightarrow> isNewer t (Some t0)))) \<and>
    (\<forall>s k. r_cmd (script_step xtrim db s) k \<noteq> r_cmd db k \<longrightarrow>
      (\<exists>inst f r' a. s = SCommit inst f r' a \<and> k = cmd_key r' (ca_cmdId a) \<and>
        rget (r_now db) (r_lease db) (lease_key r') = Some (inst, f)))"
proof -
  have ok: "epochs_ok r db" unfolding assms by (rule epochs_ok_run [OF epochs_ok_empty])
  show ?thesis
    by (intro conjI allI impI stale_script_refused; (elim conjE)?;
      (assumption | (rule superseded_for_good [OF ok]; assumption) | (rule live_change [OF assms]; assumption) | (rule cmd_change; assumption)))
qed

subsection \<open>Exactly once across a handoff\<close>

text \<open>The dedup record of \<open>k\<close> is live until \<open>T\<close>.\<close>

definition kept_until :: "nat \<Rightarrow> string \<Rightarrow> redis_db \<Rightarrow> bool" where
  "kept_until T k db = (\<exists>v e. r_cmd db k = Some (v, e) \<and> T \<le> e)"

lemma kept_until_step:
  assumes "kept_until T k db" "T \<le> r_now db + 900000"
  shows "kept_until T k (script_step xtrim db s)"
proof (cases s)
  case (SCommit inst f r' a)
  obtain db' res where e: "lua_actor_commit xtrim db (lease_key r') (tl_key r') (cmd_key r' (ca_cmdId a)) (log_key r')
      inst f a KEY_TTL_MS 900000 = (db', res)" by fastforce
  from e show ?thesis
    by (cases rule: lua_actor_commit_cases) (use e assms in \<open>auto simp: SCommit kept_until_def\<close>)
qed (use assms in \<open>auto simp: kept_until_def lua_claim_def lua_reclaim_def lua_actor_init_def Let_def split: option.splits\<close>)

lemma r_now_script: "r_now db \<le> r_now (script_step xtrim db s)"
proof (cases s)
  case (SCommit inst f r' a)
  obtain db' res where e: "lua_actor_commit xtrim db (lease_key r') (tl_key r') (cmd_key r' (ca_cmdId a)) (log_key r')
      inst f a KEY_TTL_MS 900000 = (db', res)" by fastforce
  from e show ?thesis by (cases rule: lua_actor_commit_cases) (use e in \<open>auto simp: SCommit\<close>)
qed (auto simp: lua_claim_def lua_reclaim_def lua_actor_init_def Let_def split: option.splits)

lemma kept_until_run:
  "kept_until T k db \<Longrightarrow> T \<le> r_now db + 900000 \<Longrightarrow> kept_until T k (script_run xtrim db ss)"
proof (induction ss arbitrary: db)
  case (Cons x xs)
  have "T \<le> r_now (script_step xtrim db x) + 900000" using Cons.prems(2) r_now_script [of db xtrim x] by simp
  with Cons show ?case by (simp add: kept_until_step)
qed simp

subsection \<open>The class on top of the scripts\<close>

lemma commit_committed:
  assumes "commit xtrim ac db r f nxt cmd fv = (ac', db', Some (t, NoMark))"
  shows "holds_lease db' (lease_key r) (ac_id ac) f \<and> live_tl db' r = Some t \<and> storeEpoch t = f \<and> ac_id ac' = ac_id ac \<and>
    (ac_owned ac r \<noteq> None \<longrightarrow> map_option or_timeline (ac_owned ac' r) = Some t \<and>
       map_option or_fence (ac_owned ac' r) = map_option or_fence (ac_owned ac r))"
proof -
  define a where "a = \<lparr>ca_isPlaying = u_isPlaying nxt, ca_mediaTime = u_mediaTime nxt, ca_reason = u_reason nxt,
               ca_by = nullish (u_by nxt) [], ca_videoId = nullish (u_videoId nxt) [],
               ca_cmdId = nullish cmd [], ca_videoFenced = (fv \<noteq> None), ca_forVideoId = nullish (nullish fv None) []\<rparr>"
  obtain db1 raw where e: "lua_actor_commit xtrim db (lease_key r) (tl_key r) (cmd_key r (nullish cmd [])) (log_key r)
      (ac_id ac) f a KEY_TTL_MS (nat \<lfloor>fin_val CMD_DEDUP_TTL_MS\<rfloor>) = (db1, raw)" by fastforce
  have raw: "raw = Some (t, NoMark)" "db' = db1" "ac' = (case ac_owned ac r of None \<Rightarrow> ac
      | Some e \<Rightarrow> ac\<lparr>ac_owned := (ac_owned ac)(r \<mapsto> e\<lparr>or_timeline := t\<rparr>)\<rparr>)"
    using assms unfolding commit_def Let_def a_def [symmetric] e by (auto split: option.splits)
  have "holds_lease db' (lease_key r) (ac_id ac) f \<and> live_tl db' r = Some t \<and> storeEpoch t = f"
    using e
  proof (cases rule: lua_actor_commit_cases)
    case (written h db2)
    have "live_tl db1 r = Some (encode h)"
      unfolding written(3) by (subst live_tl_write [where db = db]) (simp_all add: KEY_TTL_MS_def written(6))
    moreover have "holds_lease db1 (lease_key r) (ac_id ac) f"
      using written(1,3,6) by (simp add: holds_lease_def)
    ultimately show ?thesis using written(2,5) raw by simp
  qed (use raw in auto)
  then show ?thesis using raw(3) by (auto split: option.splits)
qed

lemma outcome_of_Committed [simp]: "outcome_of p = Committed t \<longleftrightarrow> p = (t, NoMark)"
  by (cases p; cases "snd p") (auto simp: outcome_of_def)

lemma apply_owned_committed:
  assumes "apply_owned xtrim pub ac db e r it mt now u opts = (ac', db', Committed t, fws)"
    "ac_owned ac r = Some e"
  shows "holds_lease db' (lease_key r) (ac_id ac) (storeEpoch t) \<and> live_tl db' r = Some t \<and>
    ac_owned ac' r = Some \<lparr>or_fence = storeEpoch t, or_timeline = t\<rparr>"
proof -
  have fin: "holds_lease d' (lease_key r) (ac_id c) (storeEpoch t) \<and> live_tl d' r = Some t \<and>
      ac_owned c' r = Some \<lparr>or_fence = storeEpoch t, or_timeline = t\<rparr>"
    if "commit xtrim c d r f nxt cmd fv = (c', d', Some (t, NoMark))" "map_option or_fence (ac_owned c r) = Some f" for c d f nxt cmd fv c' d'
    using commit_committed [OF that(1)] that(2) by auto
  have id: "ac_id c' = ac_id c" if "commit xtrim c d r f nxt cmd fv = (c', d', None)" for c d f nxt cmd fv c' d'
    using that by (auto simp: commit_def Let_def split: prod.splits option.splits)
  show ?thesis
    using assms
    by (auto simp: apply_owned_def Let_def split: prod.splits option.splits if_splits dest!: fin id)
qed

text \<open>
  C6. When an instance reports a control as committed, it holds the room's lease under the epoch of
  the timeline it reports, that timeline is the room's live state in Redis, and its own in-memory
  copy equals both. In particular a reported commit is never a stale owner's.
\<close>

theorem reported_commit_is_authoritative:
  assumes "applyControlSerial xtrim pub ac db r it mt now u opts = (ac', db', Committed t, fws)"
  shows "rget (r_now db') (r_lease db') (lease_key r) = Some (ac_id ac, storeEpoch t) \<and>
    live_tl db' r = Some t \<and> ac_owned ac' r = Some \<lparr>or_fence = storeEpoch t, or_timeline = t\<rparr>"
proof (cases "ac_owned ac r")
  case (Some e)
  then show ?thesis using apply_owned_committed [of xtrim pub ac db e] assms
    by (simp add: applyControlSerial_def Let_def holds_lease_def)
next
  case None
  have own: "rget (r_now db') (r_lease db') (lease_key r) = Some (ac_id ac, storeEpoch t) \<and>
      live_tl db' r = Some t \<and> ac_owned ac' r = Some \<lparr>or_fence = storeEpoch t, or_timeline = t\<rparr>"
    if "apply_owned xtrim p (ac\<lparr>ac_owned := (ac_owned ac)(r \<mapsto> e)\<rparr>) d e r it mt now u opts = (ac', db', Committed t, g)" for p d e g
    using apply_owned_committed [OF that] by (simp add: holds_lease_def)
  show ?thesis
    using assms None
    by (auto simp: applyControlSerial_def Let_def split: prod.splits option.splits if_splits dest!: own)
qed

subsection \<open>A command that comes back\<close>

text \<open>The command \<open>c\<close> of a live room was committed and its record is still there.\<close>

definition done_in :: "redis_db \<Rightarrow> string \<Rightarrow> string \<Rightarrow> tl_hash \<Rightarrow> bool" where
  "done_in db r c h \<longleftrightarrow> load_tl db (tl_key r) = Some h \<and> rget (r_now db) (r_cmd db) (cmd_key r c) \<noteq> None"

definition same_data :: "redis_db \<Rightarrow> redis_db \<Rightarrow> bool" where
  "same_data db db' \<longleftrightarrow> r_now db' = r_now db \<and> r_tl db' = r_tl db \<and> r_log db' = r_log db \<and> r_cmd db' = r_cmd db"

lemma same_data_refl [simp]: "same_data db db"
  by (simp add: same_data_def)

lemma same_data_trans: "same_data a b \<Longrightarrow> same_data b c \<Longrightarrow> same_data a c"
  by (simp add: same_data_def)

lemma done_in_same: "done_in db r c h \<Longrightarrow> same_data db db' \<Longrightarrow> done_in db' r c h"
  by (simp add: done_in_def same_data_def load_tl_def)

lemma committed_is_done:
  assumes "lua_actor_commit xtrim db (lease_key r) (tl_key r) (cmd_key r c) (log_key r) inst f a KEY_TTL_MS 900000 =
      (db1, Some (t, NoMark))" "ca_cmdId a = c" "c \<noteq> []" "load_tl db (tl_key r) \<noteq> None"
    "r_now (script_run xtrim db1 ss) < r_now db + 900000" "load_tl (script_run xtrim db1 ss) (tl_key r) = Some h"
  shows "done_in (script_run xtrim db1 ss) r c h"
proof -
  have "kept_until (r_now db + 900000) (cmd_key r c) db1 \<and> r_now db1 = r_now db"
    using assms(1)
  proof (cases rule: lua_actor_commit_cases)
    case (written h db2)
    then show ?thesis using assms(2-4) by (auto simp: kept_until_def)
  qed simp
  then have "kept_until (r_now db + 900000) (cmd_key r c) (script_run xtrim db1 ss)"
    using kept_until_run by simp
  then show ?thesis using assms(5,6) by (auto simp: done_in_def kept_until_def rget_def)
qed

lemma done_commit_script:
  assumes "done_in db r c h" "ca_cmdId a = c" "c \<noteq> []"
  shows "lua_actor_commit xtrim db (lease_key r) (tl_key r) (cmd_key r c) gk inst f a ttl dttl =
    (db, if holds_lease db (lease_key r) inst f then Some (encode h, DupMark) else None)"
  using assms by (auto simp: done_in_def lua_actor_commit_def Let_def)

lemma done_commit:
  assumes "done_in db r c h" "c \<noteq> []"
  shows "\<exists>ac'. commit xtrim ac db r f nxt (Some c) fv =
      (ac', db, if holds_lease db (lease_key r) (ac_id ac) f then Some (encode h, DupMark) else None) \<and> ac_id ac' = ac_id ac \<and>
      (\<not> holds_lease db (lease_key r) (ac_id ac) f \<longrightarrow> ac_owned ac' r = None)"
  using assms by (auto simp: commit_def Let_def done_commit_script [OF assms(1) _ assms(2)] split: option.splits)

text \<open>A claim holds the lease afterwards, or finds another owner and changes nothing.\<close>

lemma claim_cases:
  assumes "claim ac db r = (db', l)"
  shows "same_data db db' \<and> rget (r_now db') (r_lease db') (lease_key r) = Some (ls_owner l, ls_epoch l) \<and>
    (if ls_mine l then ls_owner l = ac_id ac else ls_owner l \<noteq> ac_id ac)"
  using assms by (auto simp: claim_def lua_claim_def same_data_def LEASE_TTL_MS_def rget_def split: option.splits if_splits)

definition owner_of :: "redis_db \<Rightarrow> string \<Rightarrow> string option" where
  "owner_of db r = map_option fst (rget (r_now db) (r_lease db) (lease_key r))"

lemma actor_get_done: "done_in db r c h \<Longrightarrow> ac_owned ac r = None \<Longrightarrow> actor_get ac db r = Some (encode h)"
  by (simp add: actor_get_def done_in_def load_tl_def)

definition repeat_answer :: "string \<Rightarrow> redis_db \<Rightarrow> redis_db \<Rightarrow> string \<Rightarrow> tl_hash \<Rightarrow> outcome \<Rightarrow> bool" where
  "repeat_answer inst db db' r h out \<longleftrightarrow> same_data db db' \<and>
     (if owner_of db' r = Some inst then out = Duplicate (encode h) else out \<in> {Forwarded, Missing})"

lemma done_apply_owned:
  assumes d: "done_in db r c h" and c: "c \<noteq> []" "o_cmdId opts = Some c"
    and e: "apply_owned xtrim pub ac db e r it mt now u opts = (ac', db', out, fws)"
  shows "repeat_answer (ac_id ac) db db' r h out"
proof -
  let ?nxt = "applyControl (or_timeline e) it mt now u (o_videoId opts)"
  obtain ac1 where one: "commit xtrim ac db r (or_fence e) ?nxt (Some c) (o_forVideoId opts) =
      (ac1, db, if holds_lease db (lease_key r) (ac_id ac) (or_fence e) then Some (encode h, DupMark) else None)"
    and ac1: "ac_id ac1 = ac_id ac" "\<not> holds_lease db (lease_key r) (ac_id ac) (or_fence e) \<longrightarrow> ac_owned ac1 r = None"
    using done_commit [OF d c(1)] by blast
  show ?thesis
  proof (cases "holds_lease db (lease_key r) (ac_id ac) (or_fence e)")
    case True
    then have "out = Duplicate (encode h)" "db' = db" using e one c(2) by (simp_all add: apply_owned_def Let_def outcome_of_def)
    then show ?thesis using True by (simp add: repeat_answer_def owner_of_def holds_lease_def)
  next
    case False
    obtain db2 l where cl: "claim ac1 db r = (db2, l)" by fastforce
    note cc = claim_cases [OF cl]
    show ?thesis
    proof (cases "ls_mine l")
      case True
      have d2: "done_in db2 r c h" using done_in_same [OF d] cc by blast
      have held: "holds_lease db2 (lease_key r) (ac_id ac1) (ls_epoch l)" using cc True by (simp add: holds_lease_def)
      let ?ac2 = "ac1\<lparr>ac_owned := (ac_owned ac1)(r \<mapsto> \<lparr>or_fence = ls_epoch l, or_timeline = encode h\<rparr>)\<rparr>"
      obtain ac3 where "commit xtrim ?ac2 db2 r (ls_epoch l) (applyControl (encode h) it mt now u (o_videoId opts)) (Some c) (o_forVideoId opts) =
          (ac3, db2, Some (encode h, DupMark))"
        using done_commit [OF d2 c(1), of xtrim ?ac2 "ls_epoch l" "applyControl (encode h) it mt now u (o_videoId opts)" "o_forVideoId opts"] held by auto
      then have "out = Duplicate (encode h)" "db' = db2"
        using e one c(2) False True cl actor_get_done [OF d2, of ac1] ac1(2) by (simp_all add: apply_owned_def Let_def outcome_of_def)
      then show ?thesis using cc True ac1(1) by (simp add: repeat_answer_def owner_of_def)
    next
      case other: False
      then have "out \<in> {Forwarded, Missing}" "db' = db2" using e one c(2) False cl by (auto simp: apply_owned_def Let_def split: if_splits)
      then show ?thesis using cc other ac1(1) by (simp add: repeat_answer_def owner_of_def)
    qed
  qed
qed

lemma repeat_answer_after: "same_data db db1 \<Longrightarrow> repeat_answer inst db1 db' r h out \<Longrightarrow> repeat_answer inst db db' r h out"
  by (auto simp: repeat_answer_def intro: same_data_trans)

lemma done_adopt:
  assumes d: "done_in db r c h" and c: "c \<noteq> []" "o_cmdId opts = Some c" and "ac_owned ac r = None"
    and e: "(case actor_get ac db r of
        None \<Rightarrow> (ac, db, Missing, [])
      | Some current \<Rightarrow>
          (let e = \<lparr>or_fence = fence, or_timeline = current\<rparr> in
           apply_owned xtrim p (ac\<lparr>ac_owned := (ac_owned ac)(r \<mapsto> e)\<rparr>) db e r it mt now u opts)) = (ac', db', out, fws)"
  shows "repeat_answer (ac_id ac) db db' r h out"
  using e done_apply_owned [OF d c] actor_get_done [OF d assms(4)] by (fastforce simp: Let_def)

lemma done_applyControlSerial:
  assumes d: "done_in db r c h" and c: "c \<noteq> []" "o_cmdId opts = Some c"
    and e: "applyControlSerial xtrim pub ac db r it mt now u opts = (ac', db', out, fws)"
  shows "repeat_answer (ac_id ac) db db' r h out"
proof (cases "ac_owned ac r")
  case (Some o)
  then show ?thesis using e done_apply_owned [OF d c] by (fastforce simp: applyControlSerial_def Let_def)
next
  case None
  obtain db1 l where cl: "claim ac db r = (db1, l)" by fastforce
  note c1 = claim_cases [OF cl]
  have d1: "done_in db1 r c h" using done_in_same [OF d] c1 by blast
  consider "ls_mine l" | "\<not> ls_mine l" "0 < pub 0 (ls_owner l)" | "\<not> ls_mine l" "\<not> 0 < pub 0 (ls_owner l)" by blast
  then show ?thesis
  proof cases
    case 1
    then show ?thesis using e cl None repeat_answer_after [OF _ done_adopt [OF d1 c None]] c1
      by (fastforce simp: applyControlSerial_def Let_def)
  next
    case 2
    then have "out = Forwarded" "db' = db1" using e cl None by (simp_all add: applyControlSerial_def Let_def)
    then show ?thesis using c1 2 by (simp add: repeat_answer_def owner_of_def)
  next
    case 3
    obtain db2 n where rc: "lua_reclaim db1 (lease_key r) (ls_owner l) (ls_epoch l) = (db2, n)" by fastforce
    have s2: "same_data db1 db2" using claim_fields(5-8) [of db1 "lease_key r" "ls_owner l" "ls_epoch l"] rc by (simp add: same_data_def)
    obtain db3 l3 where cl3: "claim ac db2 r = (db3, l3)" by fastforce
    note c3 = claim_cases [OF cl3]
    have s3: "same_data db db3" using c1 s2 c3 same_data_trans by blast
    have d3: "done_in db3 r c h" using done_in_same [OF d s3] .
    show ?thesis
    proof (cases "ls_mine l3")
      case False
      then have "out \<in> {Forwarded, Missing}" "db' = db3" using e cl None 3 rc cl3 by (auto simp: applyControlSerial_def Let_def split: if_splits)
      then show ?thesis using c3 False s3 by (simp add: repeat_answer_def owner_of_def)
    next
      case True
      obtain ac4 db4 o4 f4 where a: "(case actor_get ac db3 r of
          None \<Rightarrow> (ac, db3, Missing, [])
        | Some current \<Rightarrow>
            (let e = \<lparr>or_fence = ls_epoch l3, or_timeline = current\<rparr> in
             apply_owned xtrim (\<lambda>k. pub (k + 2)) (ac\<lparr>ac_owned := (ac_owned ac)(r \<mapsto> e)\<rparr>) db3 e r it mt now u opts)) = (ac4, db4, o4, f4)"
        using prod_cases4 by blast
      have "db' = db4" "out = o4"
        using e by (simp_all add: applyControlSerial_def Let_def [of "\<lparr>fw_roomCode = _, fw_intent = _, fw_mediaTime = _, fw_by = _, fw_opts = _\<rparr>"]
            Let_def [of "\<lambda>db fence. case actor_get _ db _ of None \<Rightarrow> _ db fence | Some c \<Rightarrow> _ db fence c"] None cl 3 rc cl3 True a)
      then show ?thesis using repeat_answer_after [OF s3 done_adopt [OF d3 c None a]] by simp
    qed
  qed
qed

text \<open>
  C5. Exactly once across owner handoffs. After a command was committed by one instance in a live room, and while
  the room lives and fewer than 15 minutes have passed, whatever claims, reclaims, commits and re-creations ran in
  between: the commit script with that command's id writes nothing; it answers the live timeline as a duplicate to
  a caller that holds the lease under the fence it passes, and nothing to any other caller. So an instance that is
  asked to apply the command again and owns the room when it is done answers a duplicate with the live timeline; one
  that does not own it has forwarded the command or found nobody; neither has written a timeline, a log or a record.
\<close>

theorem command_once_across_handoff:
  assumes "lua_actor_commit xtrim db (lease_key r) (tl_key r) (cmd_key r c) (log_key r) inst f a KEY_TTL_MS 900000 =
      (db1, Some (t, NoMark))" "ca_cmdId a = c" "c \<noteq> []" "load_tl db (tl_key r) \<noteq> None"
    "db2 = script_run xtrim db1 ss" "r_now db2 < r_now db + 900000" "load_tl db2 (tl_key r) = Some h"
  shows "(\<forall>inst2 f2 a2. ca_cmdId a2 = c \<longrightarrow>
      lua_actor_commit xtrim db2 (lease_key r) (tl_key r) (cmd_key r c) (log_key r) inst2 f2 a2 KEY_TTL_MS 900000 =
        (db2, if rget (r_now db2) (r_lease db2) (lease_key r) = Some (inst2, f2) then Some (encode h, DupMark) else None)) \<and>
    (\<forall>pub ac it mt now u opts ac' db' out fws.
      o_cmdId opts = Some c \<and> applyControlSerial xtrim pub ac db2 r it mt now u opts = (ac', db', out, fws) \<longrightarrow>
      r_tl db' = r_tl db2 \<and> r_log db' = r_log db2 \<and> r_cmd db' = r_cmd db2 \<and>
      (if map_option fst (rget (r_now db') (r_lease db') (lease_key r)) = Some (ac_id ac)
       then out = Duplicate (encode h) else out \<in> {Forwarded, Missing}))"
proof -
  have d: "done_in db2 r c h"
    using committed_is_done [OF assms(1-4)] assms(5-7) by simp
  have script: "lua_actor_commit xtrim db2 (lease_key r) (tl_key r) (cmd_key r c) (log_key r) inst2 f2 a2 KEY_TTL_MS 900000 =
      (db2, if rget (r_now db2) (r_lease db2) (lease_key r) = Some (inst2, f2) then Some (encode h, DupMark) else None)"
    if "ca_cmdId a2 = c" for inst2 f2 a2
    using done_commit_script [OF d that assms(3)] by (simp add: holds_lease_def)
  have serial: "r_tl db' = r_tl db2 \<and> r_log db' = r_log db2 \<and> r_cmd db' = r_cmd db2 \<and>
      (if map_option fst (rget (r_now db') (r_lease db') (lease_key r)) = Some (ac_id ac)
       then out = Duplicate (encode h) else out \<in> {Forwarded, Missing})"
    if "o_cmdId opts = Some c \<and> applyControlSerial xtrim pub ac db2 r it mt now u opts = (ac', db', out, fws)"
    for pub ac it mt now u opts ac' db' out fws
    using done_applyControlSerial [OF d assms(3)] that unfolding repeat_answer_def owner_of_def same_data_def by blast
  show ?thesis using script serial by blast
qed

subsection \<open>Witnesses\<close>

definition demo_args :: "string \<Rightarrow> commit_args" where
  "demo_args c = \<lparr>ca_isPlaying = True, ca_mediaTime = Fin 3, ca_reason = ''play'', ca_by = ''ann'', ca_videoId = [],
     ca_cmdId = c, ca_videoFenced = False, ca_forVideoId = []\<rparr>"

definition demo_actor :: "nat \<Rightarrow> redis_db" where
  "demo_actor now = script_run id (redis_empty now) [SClaim ''a'' ''r'', SInit ''a'' (show_nat now) ''r'' 0 []]"

lemma demo_actor_eq:
  "demo_actor now = (redis_empty now)\<lparr>r_lease := [lease_key ''r'' \<mapsto> ((''a'', show_nat now), now + 10000)],
     r_tl := [tl_key ''r'' \<mapsto> (actor_hash now 0 (show_nat now) [] ''0'' 0 ''join'' [], now + 86400000)],
     r_log := [log_key ''r'' \<mapsto> ([(actor_hash now 0 (show_nat now) [] ''0'' 0 ''join'' [], [])], now + 86400000)]\<rparr>"
  by (simp add: demo_actor_def redis_empty_def lua_claim_def lua_actor_init_def holds_lease_def load_tl_def
      LEASE_TTL_MS_def KEY_TTL_MS_def actor_write_def actor_hash_def Let_def)

lemma demo_commit:
  "lua_actor_commit id (demo_actor now) (lease_key ''r'') (tl_key ''r'') (cmd_key ''r'' ''c1'') (log_key ''r'') ''a'' (show_nat now)
     (demo_args ''c1'') KEY_TTL_MS 900000 =
   (script_step id (demo_actor now) (SCommit ''a'' (show_nat now) ''r'' (demo_args ''c1'')),
    Some (encode (actor_hash now 1 (show_nat now) [] ''1'' (Fin 3) ''play'' ''ann''), NoMark))"
  by (simp add: demo_args_def) (simp add: demo_actor_eq redis_empty_def lua_actor_commit_def holds_lease_def load_tl_def
      commit_seq_def Let_def)

text \<open>A second instance takes the lease over, and the commit of the first under its old fence changes nothing.\<close>

theorem no_stale_fence_write_witness:
  "lua_actor_commit id (script_run id (demo_actor 5) [SAdvance 20000, SClaim ''b'' ''r'', SAdvance 3]) (lease_key ''r'') (tl_key ''r'')
      (cmd_key ''r'' ''c1'') (log_key ''r'') ''a'' (show_nat 5) (demo_args ''c1'') KEY_TTL_MS 900000 =
    (script_run id (demo_actor 5) [SAdvance 20000, SClaim ''b'' ''r'', SAdvance 3], None)"
proof -
  let ?ss = "[SClaim ''a'' ''r'', SInit ''a'' (show_nat 5) ''r'' 0 [], SAdvance 20000, SClaim ''b'' ''r'', SAdvance 3]"
  have run: "script_run id (demo_actor 5) [SAdvance 20000, SClaim ''b'' ''r'', SAdvance 3] = script_run id (redis_empty 5) ?ss"
    by (simp add: demo_actor_def)
  have "rget (r_now (script_run id (redis_empty 5) ?ss)) (r_lease (script_run id (redis_empty 5) ?ss)) (lease_key ''r'') \<noteq> Some (''a'', show_nat 5)"
    unfolding run [symmetric] by (simp add: demo_actor_eq redis_empty_def lua_claim_def rget_def LEASE_TTL_MS_def)
  then show ?thesis using no_stale_fence_write [where xtrim = id and now = 5 and ss = ?ss and r = "''r''", OF refl] unfolding run by blast
qed

theorem command_once_across_handoff_witness:
  "\<exists>db1 h t. lua_actor_commit id (demo_actor 5) (lease_key ''r'') (tl_key ''r'') (cmd_key ''r'' ''c1'') (log_key ''r'') ''a'' (show_nat 5)
       (demo_args ''c1'') KEY_TTL_MS 900000 = (db1, Some (t, NoMark)) \<and>
     lua_actor_commit id (script_run id db1 [SAdvance 20000, SClaim ''b'' ''r'']) (lease_key ''r'') (tl_key ''r'')
       (cmd_key ''r'' ''c1'') (log_key ''r'') ''b'' (show_nat 20005) (demo_args ''c1'') KEY_TTL_MS 900000 =
     (script_run id db1 [SAdvance 20000, SClaim ''b'' ''r''], Some (encode h, DupMark))"
proof -
  define db1 where "db1 = script_step id (demo_actor 5) (SCommit ''a'' (show_nat 5) ''r'' (demo_args ''c1''))"
  define db2 where "db2 = script_run id db1 [SAdvance 20000, SClaim ''b'' ''r'']"
  have now: "r_now db2 = 20005" "r_now (demo_actor 5) = 5" "load_tl (demo_actor 5) (tl_key ''r'') \<noteq> None"
    "\<exists>h. load_tl db2 (tl_key ''r'') = Some h" "rget (r_now db2) (r_lease db2) (lease_key ''r'') = Some (''b'', show_nat 20005)"
    by (simp_all add: db1_def db2_def demo_actor_eq redis_empty_def lua_actor_commit_def holds_lease_def load_tl_def commit_seq_def
        demo_args_def KEY_TTL_MS_def lua_claim_def LEASE_TTL_MS_def Let_def rget_def)
  then obtain h where h: "load_tl db2 (tl_key ''r'') = Some h" by blast
  note c = demo_commit [of 5, folded db1_def]
  have "ca_cmdId (demo_args ''c1'') = ''c1''" by (simp add: demo_args_def)
  from command_once_across_handoff [OF c this _ now(3) db2_def _ h] this now(1,2,5)
  have "lua_actor_commit id db2 (lease_key ''r'') (tl_key ''r'') (cmd_key ''r'' ''c1'') (log_key ''r'') ''b'' (show_nat 20005)
      (demo_args ''c1'') KEY_TTL_MS 900000 = (db2, Some (encode h, DupMark))" by simp
  then show ?thesis using c unfolding db2_def by blast
qed

theorem reported_commit_is_authoritative_witness:
  "\<exists>ac' db' t fws. applyControlSerial id (\<lambda>_ _. 0) \<lparr>ac_id = ''a'', ac_owned = Map.empty\<rparr> (demo_actor 5) ''r'' Play (Fin 3) (Fin 0) ''ann'' no_opts
       = (ac', db', Committed t, fws) \<and> live_tl db' ''r'' = Some t"
proof -
  have "\<exists>ac' db' t fws. applyControlSerial id (\<lambda>_ _. 0) \<lparr>ac_id = ''a'', ac_owned = Map.empty\<rparr> (demo_actor 5) ''r'' Play (Fin 3) (Fin 0) ''ann'' no_opts
       = (ac', db', Committed t, fws)"
    by (simp add: demo_actor_eq redis_empty_def applyControlSerial_def apply_owned_def claim_def lua_claim_def actor_get_def
        commit_def lua_actor_commit_def holds_lease_def load_tl_def commit_seq_def KEY_TTL_MS_def no_opts_def outcome_of_def
        LEASE_TTL_MS_def Let_def)
  then show ?thesis using reported_commit_is_authoritative by blast
qed

subsection \<open>Where the two planes and the clients disagree\<close>

text \<open>
  A set-video that carries the observed video is exempt from the fence in the control script of the
  other plane, and refused by the commit script of this one: in a room that shows video x, a
  set-video minted against video y commits there and is fenced here.
\<close>

definition set_video_args :: commit_args where
  "set_video_args = \<lparr>ca_isPlaying = False, ca_mediaTime = Fin 0, ca_reason = ''set-video'', ca_by = ''ann'', ca_videoId = ''z'',
     ca_cmdId = [], ca_videoFenced = True, ca_forVideoId = ''y''\<rparr>"

theorem set_video_fence_differs:
  assumes "load_tl db (tl_key r) = Some h" "h_videoId h = ''x''" "holds_lease db (lease_key r) inst f"
  shows "snd (lua_actor_commit xtrim db (lease_key r) (tl_key r) (cmd_key r []) (log_key r) inst f set_video_args KEY_TTL_MS 900000) =
      Some (encode h, FencedMark) \<and>
    (\<exists>t. snd (redis_applyControl xtrim db r SetVideo (Fin 0) now ''ann''
        (no_opts\<lparr>o_videoId := Some (Some ''z''), o_forVideoId := Some (Some ''y'')\<rparr>)) = Committed t)"
  using assms
  by (simp add: lua_actor_commit_def set_video_args_def redis_applyControl_eq red_hash_def load_tl_def red_dup_def
      red_fence_def no_opts_def Let_def)

text \<open>
  When the timeline key expires under a lease its owner keeps renewing (a room paused for a day), the
  next commit starts over at seq 1 in the same epoch, and a client that still holds the last
  broadcast refuses it as old.
\<close>

lemma renewals:
  assumes "r_lease db (lease_key r) = Some ((inst, f), x)" "r_now db + 9000 < x" "x \<le> r_now db + 10000"
  shows "\<exists>x'. r_lease (script_run xtrim db (concat (replicate n [SAdvance 9000, SClaim inst r]))) (lease_key r) = Some ((inst, f), x') \<and>
    r_now (script_run xtrim db (concat (replicate n [SAdvance 9000, SClaim inst r]))) = r_now db + 9000 * n \<and>
    r_tl (script_run xtrim db (concat (replicate n [SAdvance 9000, SClaim inst r]))) = r_tl db \<and>
    r_now db + 9000 * n + 9000 < x'"
  using assms
proof (induction n arbitrary: db x)
  case (Suc n)
  let ?db = "script_step xtrim (script_step xtrim db (SAdvance 9000)) (SClaim inst r)"
  have "?db = (advance db 9000)\<lparr>r_lease := (r_lease db)(lease_key r \<mapsto> ((inst, f), r_now db + 19000))\<rparr>"
    using Suc.prems by (simp add: lua_claim_def rget_def LEASE_TTL_MS_def add.commute)
  then have "r_lease ?db (lease_key r) = Some ((inst, f), r_now db + 19000)" "r_now ?db = r_now db + 9000" "r_tl ?db = r_tl db"
    by simp_all
  with Suc.IH [of ?db "r_now db + 19000"] show ?case by (simp add: add.assoc)
qed auto

theorem expired_timeline_restarts_seq:
  "\<exists>ss t0 t1. live_tl (script_step id (demo_actor 5) (SCommit ''a'' (show_nat 5) ''r'' (demo_args []))) ''r'' = Some t0 \<and>
     live_tl (script_step id (script_run id (script_step id (demo_actor 5) (SCommit ''a'' (show_nat 5) ''r'' (demo_args []))) ss)
       (SCommit ''a'' (show_nat 5) ''r'' (demo_args []))) ''r'' = Some t1 \<and>
     storeEpoch t1 = storeEpoch t0 \<and> \<not> isNewer t1 (Some t0)"
proof -
  define c where "c = SCommit ''a'' (show_nat 5) ''r'' (demo_args [])"
  define db where "db = script_step id (demo_actor 5) c"
  define ss where "ss = concat (replicate 9601 [SAdvance 9000, SClaim ''a'' ''r''])"
  define h where "h = actor_hash 5 1 (show_nat 5) [] ''1'' (Fin 3) ''play'' ''ann''"
  have db: "r_lease db (lease_key ''r'') = Some ((''a'', show_nat 5), 10005)" "r_now db = 5"
      "r_tl db (tl_key ''r'') = Some (h, 86400005)"
    by (simp_all add: db_def c_def demo_actor_eq redis_empty_def lua_actor_commit_def holds_lease_def load_tl_def commit_seq_def
        demo_args_def KEY_TTL_MS_def h_def actor_hash_def Let_def)
  then obtain x' where x': "r_lease (script_run id db ss) (lease_key ''r'') = Some ((''a'', show_nat 5), x')"
      "r_now (script_run id db ss) = 86409005" "r_tl (script_run id db ss) = r_tl db" "86409005 < x'"
    using renewals [OF db(1), of id 9601] by (auto simp: ss_def)
  let ?db = "script_run id db ss"
  have "holds_lease ?db (lease_key ''r'') ''a'' (show_nat 5)" "load_tl ?db (tl_key ''r'') = None"
    using x' db by (simp_all add: holds_lease_def load_tl_def rget_def)
  then have "live_tl (script_step id ?db c) ''r'' = Some (encode (actor_hash 86409005 1 (show_nat 5) [] ''1'' (Fin 3) ''play'' ''ann''))"
    using x' by (simp add: c_def lua_actor_commit_def commit_seq_def demo_args_def live_tl_def [of "actor_write _ _ _ _ _ _ _ _"]
        load_tl_def [of "actor_write _ _ _ _ _ _ _ _"] KEY_TTL_MS_def Let_def)
  moreover have "live_tl db ''r'' = Some (encode h)" using db by (simp add: live_tl_def load_tl_def rget_def)
  ultimately show ?thesis
    unfolding c_def [symmetric] db_def [symmetric] by (intro exI [of _ ss]) (simp add: isNewer_def h_def isFinite_def)
qed

end
