(* ===== verification/TimelineService.thy ===== *)
theory TimelineService
  imports RedisStore
begin

text \<open>
  The service that admits, rate-limits and applies control commands (sync/timeline.service.ts). It is
  written against the store interface, so every definition takes the record of store operations; the
  properties hold for any store that satisfies the interface laws and are stated for the in-memory
  and the Redis store. ensureRoom and releaseRoom run one at a time per room (the promise chain of
  \<^verbatim>\<open>gated\<close>), so each is one step. Rows of the room table are arguments and results.
\<close>

subsection \<open>Data\<close>

datatype deny_reason = NotController | RateLimited | RoomNotFound

datatype control_result =
    ControlOk timeline
  | ControlDuplicate timeline
  | ControlFenced timeline
  | ControlForwarded
  | ControlDenied deny_reason

record room_meta =
  m_creatorId :: string
  m_allowGuestControl :: bool
  m_videoId :: "string option"
  m_activeController :: "string option"

record token_bucket =
  tb_tokens :: jsnum
  tb_lastRefill :: jsnum

definition BUCKET_CAPACITY :: jsnum where "BUCKET_CAPACITY = 10"
definition BUCKET_REFILL_PER_S :: jsnum where "BUCKET_REFILL_PER_S = 5"
definition PERSIST_DEBOUNCE_MS :: nat where "PERSIST_DEBOUNCE_MS = 10000"

record 's timeline_service =
  ts_meta :: "string \<rightharpoonup> room_meta"
  ts_buckets :: "string \<rightharpoonup> token_bucket"
  ts_persistTimers :: "string set"
  ts_store :: 's

record room_row =
  rr_creatorId :: string
  rr_allowGuestControl :: bool
  rr_videoUrl :: "string option"
  rr_currentTime :: jsnum

text \<open>The columns a persist writes: currentTime, isPlaying, videoUrl, lastSyncAt.\<close>

record row_update =
  ru_currentTime :: jsnum
  ru_isPlaying :: bool
  ru_videoUrl :: "string option"
  ru_lastSyncAt :: jsnum

definition new_service :: "'s \<Rightarrow> 's timeline_service" where
  "new_service st = \<lparr>ts_meta = Map.empty, ts_buckets = Map.empty, ts_persistTimers = {}, ts_store = st\<rparr>"

subsection \<open>Operations\<close>

definition ensureRoom ::
  "'s store_ops \<Rightarrow> 's timeline_service \<Rightarrow> string \<Rightarrow> room_row \<Rightarrow> jsnum \<Rightarrow> 's timeline_service \<times> timeline" where
  "ensureRoom ops sv roomCode room now =
     (let sv1 = (if ts_meta sv roomCode = None
            then sv\<lparr>ts_meta := (ts_meta sv)(roomCode \<mapsto>
                   \<lparr>m_creatorId = rr_creatorId room, m_allowGuestControl = rr_allowGuestControl room,
                    m_videoId = rr_videoUrl room, m_activeController = None\<rparr>)\<rparr>
            else sv);
          (st, t) = so_init ops (ts_store sv1) roomCode (rr_videoUrl room) (rr_currentTime room) now
      in (sv1\<lparr>ts_store := st\<rparr>, t))"

definition currentTimeline :: "'s store_ops \<Rightarrow> 's timeline_service \<Rightarrow> string \<Rightarrow> timeline option" where
  "currentTimeline ops sv roomCode = so_get ops (ts_store sv) roomCode"

definition allowedToControl :: "room_meta \<Rightarrow> string \<Rightarrow> bool" where
  "allowedToControl m userId =
     (m_allowGuestControl m \<or> userId = m_creatorId m \<or> Some userId = m_activeController m)"

definition take_bucket :: "token_bucket option \<Rightarrow> jsnum \<Rightarrow> token_bucket \<times> bool" where
  "take_bucket b now =
     (let bucket = nullish b \<lparr>tb_tokens = BUCKET_CAPACITY, tb_lastRefill = now\<rparr>;
          tokens = math_min BUCKET_CAPACITY
            (tb_tokens bucket + ((now - tb_lastRefill bucket) / 1000) * BUCKET_REFILL_PER_S) in
      if tokens < 1 then (\<lparr>tb_tokens = tokens, tb_lastRefill = now\<rparr>, False)
      else (\<lparr>tb_tokens = tokens - 1, tb_lastRefill = now\<rparr>, True))"

definition takeToken :: "'s timeline_service \<Rightarrow> string \<Rightarrow> jsnum \<Rightarrow> 's timeline_service \<times> bool" where
  "takeToken sv socketId now =
     (let (b, ok) = take_bucket (ts_buckets sv socketId) now in
      (sv\<lparr>ts_buckets := (ts_buckets sv)(socketId \<mapsto> b)\<rparr>, ok))"

definition schedulePersist :: "'s timeline_service \<Rightarrow> string \<Rightarrow> 's timeline_service" where
  "schedulePersist sv roomCode = sv\<lparr>ts_persistTimers := insert roomCode (ts_persistTimers sv)\<rparr>"

definition handleControl ::
  "'s store_ops \<Rightarrow> 's timeline_service \<Rightarrow> string \<Rightarrow> string \<Rightarrow> string \<Rightarrow> intent \<Rightarrow> jsnum \<Rightarrow> jsnum \<Rightarrow> apply_opts \<Rightarrow>
   's timeline_service \<times> control_result" where
  "handleControl ops sv roomCode socketId userId it mt now opts =
     (case ts_meta sv roomCode of
        None \<Rightarrow> (sv, ControlDenied RoomNotFound)
      | Some m \<Rightarrow>
          if \<not> allowedToControl m userId then (sv, ControlDenied NotController)
          else
            (let (sv1, ok) = takeToken sv socketId now in
             if \<not> ok then (sv1, ControlDenied RateLimited)
             else
               (let (st, out) = so_applyControl ops (ts_store sv1) roomCode it mt now userId opts;
                    sv2 = sv1\<lparr>ts_store := st\<rparr>
                in case out of
                     Missing \<Rightarrow> (sv2, ControlDenied RoomNotFound)
                   | Forwarded \<Rightarrow> (sv2, ControlForwarded)
                   | Duplicate t \<Rightarrow> (sv2, ControlDuplicate t)
                   | Fenced t \<Rightarrow> (sv2, ControlFenced t)
                   | Committed t \<Rightarrow> (schedulePersist sv2 roomCode, ControlOk t))))"

datatype sweep_result = SweepIdle | SweepCommitted timeline | SweepDeferred timeline

definition sweepSnapshot ::
  "'s store_ops \<Rightarrow> 's timeline_service \<Rightarrow> string \<Rightarrow> jsnum \<Rightarrow> 's timeline_service \<times> sweep_result" where
  "sweepSnapshot ops sv roomCode now = (case so_get ops (ts_store sv) roomCode of
     None \<Rightarrow> (sv, SweepIdle)
   | Some current \<Rightarrow>
       if \<not> isPlaying current then (sv, SweepIdle)
       else
         (let (st, committed) = so_applySnapshot ops (ts_store sv) roomCode now; sv1 = sv\<lparr>ts_store := st\<rparr> in
          case committed of
            Some t \<Rightarrow> (sv1, SweepCommitted t)
          | None \<Rightarrow> (sv1, SweepDeferred (nullish (so_get ops st roomCode) current))))"

definition succession ::
  "'s timeline_service \<Rightarrow> string \<Rightarrow> string \<Rightarrow> string option \<Rightarrow> 's timeline_service \<times> string option" where
  "succession sv roomCode departed candidate = (case ts_meta sv roomCode of
     None \<Rightarrow> (sv, None)
   | Some m \<Rightarrow>
       if m_allowGuestControl m then (sv, None)
       else if \<not> (departed = m_creatorId m \<or> Some departed = m_activeController m) then (sv, None)
       else if \<not> truthy candidate \<or> candidate = Some departed then (sv, None)
       else (sv\<lparr>ts_meta := (ts_meta sv)(roomCode \<mapsto> m\<lparr>m_activeController := candidate\<rparr>)\<rparr>, candidate))"

definition reclaim :: "'s timeline_service \<Rightarrow> string \<Rightarrow> string \<Rightarrow> 's timeline_service \<times> string option" where
  "reclaim sv roomCode userId = (case ts_meta sv roomCode of
     None \<Rightarrow> (sv, None)
   | Some m \<Rightarrow>
       if userId = m_creatorId m \<and> m_activeController m \<noteq> None
       then (sv\<lparr>ts_meta := (ts_meta sv)(roomCode \<mapsto> m\<lparr>m_activeController := None\<rparr>)\<rparr>, Some userId)
       else (sv, None))"

definition persistTimeline :: "jsnum \<Rightarrow> timeline \<Rightarrow> row_update" where
  "persistTimeline now tml =
     \<lparr>ru_currentTime = projectMediaTime tml now, ru_isPlaying = isPlaying tml, ru_videoUrl = videoId tml,
      ru_lastSyncAt = now\<rparr>"

definition releaseRoom ::
  "'s store_ops \<Rightarrow> 's timeline_service \<Rightarrow> string \<Rightarrow> jsnum \<Rightarrow> 's timeline_service \<times> row_update option" where
  "releaseRoom ops sv roomCode now =
     (let tml = so_get ops (ts_store sv) roomCode in
      (sv\<lparr>ts_meta := (ts_meta sv)(roomCode := None), ts_store := so_clear ops (ts_store sv) roomCode\<rparr>,
       map_option (persistTimeline now) tml))"

definition dropSocket :: "'s timeline_service \<Rightarrow> string \<Rightarrow> 's timeline_service" where
  "dropSocket sv socketId = sv\<lparr>ts_buckets := (ts_buckets sv)(socketId := None)\<rparr>"

text \<open>The debounce timer's callback.\<close>

definition flushPersist ::
  "'s store_ops \<Rightarrow> 's timeline_service \<Rightarrow> string \<Rightarrow> jsnum \<Rightarrow> 's timeline_service \<times> row_update option" where
  "flushPersist ops sv roomCode now =
     (sv\<lparr>ts_persistTimers := ts_persistTimers sv - {roomCode}\<rparr>,
      map_option (persistTimeline now) (so_get ops (ts_store sv) roomCode))"

subsection \<open>Admission\<close>

text \<open>Every branch of the handler, by what was answered.\<close>

lemma handleControl_cases:
  assumes "handleControl ops sv r sock u it mt now opts = (sv', res)"
  obtains (denied) d where "res = ControlDenied d" "ts_store sv' = ts_store sv" "ts_meta sv' = ts_meta sv"
      "ts_persistTimers sv' = ts_persistTimers sv" "d \<noteq> RoomNotFound \<or> ts_meta sv r = None"
  | (applied) m out where "ts_meta sv r = Some m" "allowedToControl m u"
      "snd (take_bucket (ts_buckets sv sock) now)" "ts_meta sv' = ts_meta sv"
      "so_applyControl ops (ts_store sv) r it mt now u opts = (ts_store sv', out)"
      "res = (case out of Missing \<Rightarrow> ControlDenied RoomNotFound | Forwarded \<Rightarrow> ControlForwarded | Duplicate t \<Rightarrow> ControlDuplicate t
         | Fenced t \<Rightarrow> ControlFenced t | Committed t \<Rightarrow> ControlOk t)"
      "ts_persistTimers sv' = (case out of Committed t \<Rightarrow> insert r (ts_persistTimers sv) | _ \<Rightarrow> ts_persistTimers sv)"
proof (cases "ts_meta sv r")
  case None
  then show ?thesis using assms by (intro denied [of RoomNotFound]) (auto simp: handleControl_def)
next
  case (Some m)
  obtain b ok where tb: "take_bucket (ts_buckets sv sock) now = (b, ok)" by fastforce
  let ?sv1 = "sv\<lparr>ts_buckets := (ts_buckets sv)(sock \<mapsto> b)\<rparr>"
  obtain st out where ap: "so_applyControl ops (ts_store sv) r it mt now u opts = (st, out)" by fastforce
  consider "\<not> allowedToControl m u" | "allowedToControl m u" "\<not> ok" | "allowedToControl m u" ok by blast
  then show ?thesis
  proof cases
    case 1
    then show ?thesis using assms Some by (intro denied [of NotController]) (auto simp: handleControl_def)
  next
    case 2
    then show ?thesis using assms Some tb
      by (intro denied [of RateLimited]) (auto simp: handleControl_def takeToken_def)
  next
    case 3
    then show ?thesis using assms Some tb ap
      by (intro applied [of m out]) (auto simp: handleControl_def takeToken_def schedulePersist_def Let_def split: outcome.splits)
  qed
qed

text \<open>What a client of the service may conclude, for any lawful store.\<close>

context room_state_store begin

lemma control_committed:
  assumes "inv (ts_store sv)" "handleControl ops sv r sock u it mt now opts = (sv', ControlOk t)"
  shows "currentTimeline ops sv' r = Some t \<and> r \<in> ts_persistTimers sv' \<and>
    (\<exists>m. ts_meta sv r = Some m \<and> allowedToControl m u) \<and>
    (\<exists>p. currentTimeline ops sv r = Some p \<and> seq t = seq p + 1 \<and> storeEpoch t = storeEpoch p \<and> fence_passes p it opts)"
  using assms(2)
proof (cases rule: handleControl_cases)
  case (applied m out)
  then have "out = Committed t" by (simp split: outcome.splits)
  then show ?thesis using committed [OF assms(1), of r it mt now u opts "ts_store sv'" t] applied
    by (auto simp: currentTimeline_def)
qed simp

lemma control_refused:
  assumes "inv (ts_store sv)" "handleControl ops sv r sock u it mt now opts = (sv', res)"
    "\<forall>t. res \<noteq> ControlOk t" "res \<noteq> ControlForwarded"
  shows "currentTimeline ops sv' r' = currentTimeline ops sv r' \<and> ts_persistTimers sv' = ts_persistTimers sv \<and>
    (\<forall>t. res = ControlDuplicate t \<or> res = ControlFenced t \<longrightarrow> currentTimeline ops sv' r = Some t)"
  using assms(2)
proof (cases rule: handleControl_cases)
  case (denied d)
  then show ?thesis by (simp add: currentTimeline_def)
next
  case (applied m out)
  show ?thesis
  proof (cases "r' = r")
    case False
    then have "currentTimeline ops sv' r' = currentTimeline ops sv r'"
      using frame [OF assms(1) applied(5)] by (simp add: currentTimeline_def)
    then show ?thesis
      using applied assms(3,4) refused [OF assms(1) applied(5)] by (auto simp: currentTimeline_def split: outcome.splits)
  next
    case True
    then show ?thesis
      using applied assms(3,4) refused [OF assms(1) applied(5)] missing [OF assms(1)]
      by (auto simp: currentTimeline_def split: outcome.splits)
  qed
qed

lemma control_answered:
  assumes "inv (ts_store sv)" "handleControl ops sv r sock u it mt now opts = (sv', res)" "ts_meta sv r = Some m" "allowedToControl m u"
    "\<And>d. res = ControlDenied d \<Longrightarrow> d = RoomNotFound \<and> snd (so_applyControl ops (ts_store sv) r it mt now u opts) = Missing"
  shows "case res of
             ControlOk tml \<Rightarrow>
               currentTimeline ops sv' r = Some tml \<and> ts_persistTimers sv' = insert r (ts_persistTimers sv) \<and>
               (\<forall>r'. r' \<noteq> r \<longrightarrow> currentTimeline ops sv' r' = currentTimeline ops sv r') \<and>
               (\<exists>p. currentTimeline ops sv r = Some p \<and> seq tml = seq p + 1 \<and> storeEpoch tml = storeEpoch p \<and> fence_passes p it opts \<and>
                 isPlaying tml = (case it of Play \<Rightarrow> True | Seek \<Rightarrow> isPlaying p | _ \<Rightarrow> False) \<and>
                 mediaTime tml = (if it = SetVideo then 0 else mt))
           | ControlForwarded \<Rightarrow> ts_persistTimers sv' = ts_persistTimers sv \<and>
               (\<forall>r'. r' \<noteq> r \<longrightarrow> currentTimeline ops sv' r' = currentTimeline ops sv r')
           | ControlDenied d \<Rightarrow> d = RoomNotFound \<and> currentTimeline ops sv r = None \<and> ts_persistTimers sv' = ts_persistTimers sv \<and>
               (\<forall>r'. currentTimeline ops sv' r' = currentTimeline ops sv r')
           | ControlDuplicate tml \<Rightarrow> currentTimeline ops sv r = Some tml \<and> ts_persistTimers sv' = ts_persistTimers sv \<and>
               (\<forall>r'. currentTimeline ops sv' r' = currentTimeline ops sv r')
           | ControlFenced tml \<Rightarrow> currentTimeline ops sv r = Some tml \<and> ts_persistTimers sv' = ts_persistTimers sv \<and>
               (\<forall>r'. currentTimeline ops sv' r' = currentTimeline ops sv r')"
  using assms(2)
proof (cases rule: handleControl_cases)
  case (denied d)
  then have "so_applyControl ops (ts_store sv) r it mt now u opts = (fst (so_applyControl ops (ts_store sv) r it mt now u opts), Missing)"
    using assms(5) by (metis prod.collapse)
  then have "so_get ops (ts_store sv) r = None" using missing [OF assms(1)] by blast
  then show ?thesis using denied assms(5) by (simp add: currentTimeline_def)
next
  case (applied m' out)
  note ap = applied(5)
  have other: "currentTimeline ops sv' r' = currentTimeline ops sv r'" if "r' \<noteq> r" for r'
    using frame [OF assms(1) ap that] by (simp add: currentTimeline_def)
  show ?thesis
  proof (cases out)
    case (Committed tml)
    then show ?thesis using committed [OF assms(1) ap [unfolded Committed]] applied other by (auto simp: currentTimeline_def)
  next
    case (Duplicate tml)
    then have "currentTimeline ops sv r = Some tml \<and> currentTimeline ops sv' r = Some tml"
      using refused [OF assms(1) ap] by (simp add: currentTimeline_def)
    then show ?thesis using applied other Duplicate by (simp; metis)
  next
    case (Fenced tml)
    then have "currentTimeline ops sv r = Some tml \<and> currentTimeline ops sv' r = Some tml"
      using refused [OF assms(1) ap] by (simp add: currentTimeline_def)
    then show ?thesis using applied other Fenced by (simp; metis)
  next
    case Missing
    then have "currentTimeline ops sv r = None \<and> currentTimeline ops sv' r = None"
      using missing [OF assms(1) ap [unfolded Missing]] by (simp add: currentTimeline_def)
    then show ?thesis using applied other Missing by (simp; metis)
  next
    case Forwarded
    then show ?thesis using applied other by simp
  qed
qed

lemma release_then_ensure:
  assumes "inv (ts_store sv)" "releaseRoom ops sv r now = (sv1, upd)" "ensureRoom ops sv1 r row now2 = (sv2, t)"
  shows "currentTimeline ops sv1 r = None \<and> currentTimeline ops sv2 r = Some t \<and> seq t = 0 \<and> \<not> isPlaying t \<and>
    mediaTime t = rr_currentTime row \<and>
    (\<exists>m. ts_meta sv2 r = Some m \<and> m_creatorId m = rr_creatorId row \<and> m_activeController m = None)"
proof -
  have sv1: "ts_store sv1 = so_clear ops (ts_store sv) r" "ts_meta sv1 r = None"
    using assms(2) by (auto simp: releaseRoom_def Let_def)
  have inv1: "inv (ts_store sv1)" using clear_inv [OF assms(1)] by (simp add: sv1)
  have gone: "so_get ops (ts_store sv1) r = None" using clear_get [OF assms(1)] by (simp add: sv1)
  obtain st where st: "so_init ops (ts_store sv1) r (rr_videoUrl row) (rr_currentTime row) now2 = (st, t)" "ts_store sv2 = st"
      "\<exists>m. ts_meta sv2 r = Some m \<and> m_creatorId m = rr_creatorId row \<and> m_activeController m = None"
    using assms(3) sv1(2) by (auto simp: ensureRoom_def Let_def split: prod.splits)
  then show ?thesis using init_get [OF inv1 st(1)] gone by (simp add: currentTimeline_def)
qed

end

text \<open>What a socket's bucket holds when a request arrives: ten at most, five a second since the last request.\<close>

definition allowance :: "token_bucket option \<Rightarrow> real \<Rightarrow> real" where
  "allowance b t = (case b of None \<Rightarrow> 10 | Some b \<Rightarrow> min 10 (fin_val (tb_tokens b) + 5 * (t - fin_val (tb_lastRefill b)) / 1000))"

definition bucket_fin :: "token_bucket option \<Rightarrow> bool" where
  "bucket_fin b \<longleftrightarrow> (\<forall>b'. b = Some b' \<longrightarrow> is_fin (tb_tokens b') \<and> is_fin (tb_lastRefill b'))"

definition spent :: "real \<Rightarrow> real \<Rightarrow> token_bucket" where
  "spent a t = \<lparr>tb_tokens = Fin (if a < 1 then a else a - 1), tb_lastRefill = Fin t\<rparr>"

lemma take_bucket_allowance:
  assumes "bucket_fin b"
  shows "take_bucket b (Fin t) = (spent (allowance b t) t, 1 \<le> allowance b t)"
proof (cases b)
  case None
  then show ?thesis by (simp add: take_bucket_def allowance_def spent_def BUCKET_CAPACITY_def BUCKET_REFILL_PER_S_def Let_def)
next
  case (Some b')
  obtain k l where b': "b' = \<lparr>tb_tokens = Fin k, tb_lastRefill = Fin l\<rparr>"
    using assms Some by (cases b') (auto simp: bucket_fin_def is_fin_def split: jsnum.splits)
  have a: "allowance b t = min 10 (k + 5 * (t - l) / 1000)" by (simp add: Some b' allowance_def)
  have tok: "math_min BUCKET_CAPACITY (Fin k + (Fin t - Fin l) / 1000 * BUCKET_REFILL_PER_S) = Fin (allowance b t)"
    by (simp add: BUCKET_CAPACITY_def BUCKET_REFILL_PER_S_def a mult.commute)
  show ?thesis
    unfolding take_bucket_def nullish_simps Let_def Some b' token_bucket.simps tok [unfolded Some b'] by (simp add: spent_def not_less)
qed

text \<open>The three guards and what they leave of the service.\<close>

lemma handleControl_guards:
  assumes "bucket_fin (ts_buckets sv sock)"
  shows "ts_meta sv r = None \<Longrightarrow> handleControl ops sv r sock u it mt (Fin t) opts = (sv, ControlDenied RoomNotFound)"
    and "ts_meta sv r = Some m \<Longrightarrow> \<not> allowedToControl m u \<Longrightarrow>
      handleControl ops sv r sock u it mt (Fin t) opts = (sv, ControlDenied NotController)"
    and "ts_meta sv r = Some m \<Longrightarrow> allowedToControl m u \<Longrightarrow> allowance (ts_buckets sv sock) t < 1 \<Longrightarrow>
      handleControl ops sv r sock u it mt (Fin t) opts =
        (sv\<lparr>ts_buckets := (ts_buckets sv)(sock \<mapsto> spent (allowance (ts_buckets sv sock) t) t)\<rparr>, ControlDenied RateLimited)"
    and "ts_meta sv r = Some m \<Longrightarrow> allowedToControl m u \<Longrightarrow> 1 \<le> allowance (ts_buckets sv sock) t \<Longrightarrow>
      handleControl ops sv r sock u it mt (Fin t) opts = (sv', res) \<Longrightarrow>
      ts_buckets sv' = (ts_buckets sv)(sock \<mapsto> spent (allowance (ts_buckets sv sock) t) t) \<and> ts_meta sv' = ts_meta sv \<and>
      (\<forall>d. res = ControlDenied d \<longrightarrow> d = RoomNotFound \<and> snd (so_applyControl ops (ts_store sv) r it mt (Fin t) u opts) = Missing)"
  using take_bucket_allowance [OF assms, of t]
  by (auto simp: handleControl_def takeToken_def schedulePersist_def Let_def split: prod.splits outcome.splits)

text \<open>
  C10. Admission, over any store that keeps the laws of the store interface. A request for a room that is not open,
  or from a user who is neither its creator, nor its active controller, nor a guest of a room that lets guests
  control, is denied and costs nothing. A request from an allowed user is weighed against its socket's bucket, which
  holds at most ten and regains five a second: below one it is denied as rate-limited, otherwise one is taken. Only
  then is it applied: committed, the timeline answered is the room's current one, numbered one past the one it
  replaces in the same epoch, with the play state and position that were asked for, and a persist is scheduled. Every
  other answer of the store leaves every room as it was and schedules nothing, and a duplicate or fenced answer
  carries the room's current timeline; an answer that was forwarded to another owner changes no other room.
\<close>

theorem control_admission:
  assumes "room_state_store ops ok" "ok (ts_store sv)" "bucket_fin (ts_buckets sv sock)"
    and "handleControl ops sv r sock u it mt (Fin t) opts = (sv', res)"
  shows "case ts_meta sv r of
      None \<Rightarrow> sv' = sv \<and> res = ControlDenied RoomNotFound
    | Some m \<Rightarrow>
        if \<not> (m_allowGuestControl m \<or> u = m_creatorId m \<or> m_activeController m = Some u)
        then sv' = sv \<and> res = ControlDenied NotController
        else if allowance (ts_buckets sv sock) t < 1
        then res = ControlDenied RateLimited \<and>
          sv' = sv\<lparr>ts_buckets := (ts_buckets sv)(sock \<mapsto> \<lparr>tb_tokens = Fin (allowance (ts_buckets sv sock) t), tb_lastRefill = Fin t\<rparr>)\<rparr>
        else
          ts_buckets sv' = (ts_buckets sv)(sock \<mapsto> \<lparr>tb_tokens = Fin (allowance (ts_buckets sv sock) t - 1), tb_lastRefill = Fin t\<rparr>) \<and>
          ts_meta sv' = ts_meta sv \<and>
          (case res of
             ControlOk tml \<Rightarrow>
               currentTimeline ops sv' r = Some tml \<and> ts_persistTimers sv' = insert r (ts_persistTimers sv) \<and>
               (\<forall>r'. r' \<noteq> r \<longrightarrow> currentTimeline ops sv' r' = currentTimeline ops sv r') \<and>
               (\<exists>p. currentTimeline ops sv r = Some p \<and> seq tml = seq p + 1 \<and> storeEpoch tml = storeEpoch p \<and> fence_passes p it opts \<and>
                 isPlaying tml = (case it of Play \<Rightarrow> True | Seek \<Rightarrow> isPlaying p | _ \<Rightarrow> False) \<and>
                 mediaTime tml = (if it = SetVideo then 0 else mt))
           | ControlForwarded \<Rightarrow> ts_persistTimers sv' = ts_persistTimers sv \<and>
               (\<forall>r'. r' \<noteq> r \<longrightarrow> currentTimeline ops sv' r' = currentTimeline ops sv r')
           | ControlDenied d \<Rightarrow> d = RoomNotFound \<and> currentTimeline ops sv r = None \<and> ts_persistTimers sv' = ts_persistTimers sv \<and>
               (\<forall>r'. currentTimeline ops sv' r' = currentTimeline ops sv r')
           | ControlDuplicate tml \<Rightarrow> currentTimeline ops sv r = Some tml \<and> ts_persistTimers sv' = ts_persistTimers sv \<and>
               (\<forall>r'. currentTimeline ops sv' r' = currentTimeline ops sv r')
           | ControlFenced tml \<Rightarrow> currentTimeline ops sv r = Some tml \<and> ts_persistTimers sv' = ts_persistTimers sv \<and>
               (\<forall>r'. currentTimeline ops sv' r' = currentTimeline ops sv r'))"
proof (cases "ts_meta sv r")
  case None
  then show ?thesis using handleControl_guards(1) [OF assms(3)] assms(4) by simp
next
  case (Some m)
  note law = assms(1)
  have allowed: "(m_allowGuestControl m \<or> u = m_creatorId m \<or> m_activeController m = Some u) = allowedToControl m u"
    by (auto simp: allowedToControl_def)
  consider "\<not> allowedToControl m u" | "allowedToControl m u" "allowance (ts_buckets sv sock) t < 1"
    | "allowedToControl m u" "1 \<le> allowance (ts_buckets sv sock) t" by linarith
  then show ?thesis
  proof cases
    case 1
    then show ?thesis using handleControl_guards(2) [OF assms(3) Some 1] assms(4) Some allowed by simp
  next
    case 2
    then show ?thesis using handleControl_guards(3) [OF assms(3) Some 2] assms(4) Some allowed by (simp add: spent_def)
  next
    case 3
    note g = handleControl_guards(4) [OF assms(3) Some 3 assms(4)]
    have answered: "case res of
             ControlOk tml \<Rightarrow>
               currentTimeline ops sv' r = Some tml \<and> ts_persistTimers sv' = insert r (ts_persistTimers sv) \<and>
               (\<forall>r'. r' \<noteq> r \<longrightarrow> currentTimeline ops sv' r' = currentTimeline ops sv r') \<and>
               (\<exists>p. currentTimeline ops sv r = Some p \<and> seq tml = seq p + 1 \<and> storeEpoch tml = storeEpoch p \<and> fence_passes p it opts \<and>
                 isPlaying tml = (case it of Play \<Rightarrow> True | Seek \<Rightarrow> isPlaying p | _ \<Rightarrow> False) \<and>
                 mediaTime tml = (if it = SetVideo then 0 else mt))
           | ControlForwarded \<Rightarrow> ts_persistTimers sv' = ts_persistTimers sv \<and>
               (\<forall>r'. r' \<noteq> r \<longrightarrow> currentTimeline ops sv' r' = currentTimeline ops sv r')
           | ControlDenied d \<Rightarrow> d = RoomNotFound \<and> currentTimeline ops sv r = None \<and> ts_persistTimers sv' = ts_persistTimers sv \<and>
               (\<forall>r'. currentTimeline ops sv' r' = currentTimeline ops sv r')
           | ControlDuplicate tml \<Rightarrow> currentTimeline ops sv r = Some tml \<and> ts_persistTimers sv' = ts_persistTimers sv \<and>
               (\<forall>r'. currentTimeline ops sv' r' = currentTimeline ops sv r')
           | ControlFenced tml \<Rightarrow> currentTimeline ops sv r = Some tml \<and> ts_persistTimers sv' = ts_persistTimers sv \<and>
               (\<forall>r'. currentTimeline ops sv' r' = currentTimeline ops sv r')"
      by (rule room_state_store.control_answered [OF law assms(2,4) Some 3(1)]) (use g in auto)
    show ?thesis using g answered 3 Some allowed by (simp add: spent_def)
  qed
qed

definition demo_service :: "redis_db timeline_service" where
  "demo_service = fst (ensureRoom (redis_ops (take_last LOG_MAX)) (new_service (redis_empty 7)) ''r''
     \<lparr>rr_creatorId = ''ann'', rr_allowGuestControl = False, rr_videoUrl = None, rr_currentTime = 3\<rparr> 7)"

lemma demo_service_ok: "redis_ok (ts_store demo_service)"
proof -
  have "redis_ok (redis_empty 7)" using red_legal_empty by (simp add: red_legal_def)
  then show ?thesis
    using room_state_store.init_inv [OF redis_lawful [OF trim_ok_exact]]
    by (auto simp: demo_service_def ensureRoom_def new_service_def Let_def split: prod.splits)
qed

text \<open>The creator's first command is committed, and leaves nine in the bucket.\<close>

theorem control_admission_witness:
  "\<exists>sv' tml. handleControl (redis_ops (take_last LOG_MAX)) demo_service ''r'' ''s1'' ''ann'' Play 4 (Fin 9) no_opts = (sv', ControlOk tml) \<and>
     currentTimeline (redis_ops (take_last LOG_MAX)) sv' ''r'' = Some tml \<and> isPlaying tml \<and>
     ts_buckets sv' ''s1'' = Some \<lparr>tb_tokens = 9, tb_lastRefill = 9\<rparr>"
proof -
  have m: "\<exists>m. ts_meta demo_service ''r'' = Some m \<and> m_creatorId m = ''ann''" "ts_buckets demo_service = Map.empty"
    by (simp_all add: demo_service_def ensureRoom_def new_service_def redis_ops_def redis_init_eq redis_empty_def Let_def red_hash_def)
  have "\<exists>sv' tml. handleControl (redis_ops (take_last LOG_MAX)) demo_service ''r'' ''s1'' ''ann'' Play 4 (Fin 9) no_opts = (sv', ControlOk tml)"
    by (simp add: demo_service_def ensureRoom_def new_service_def redis_ops_def redis_init_eq redis_empty_def red_hash_def
        handleControl_def allowedToControl_def takeToken_def take_bucket_def BUCKET_CAPACITY_def BUCKET_REFILL_PER_S_def
        redis_applyControl_eq red_dup_def red_fence_def no_opts_def TL_TTL_def Let_def)
  then obtain sv' tml where c: "handleControl (redis_ops (take_last LOG_MAX)) demo_service ''r'' ''s1'' ''ann'' Play 4 (Fin 9) no_opts = (sv', ControlOk tml)"
    by blast
  have "bucket_fin (ts_buckets demo_service ''s1'')" "allowance (ts_buckets demo_service ''s1'') 9 = 10" using m by (simp_all add: bucket_fin_def allowance_def)
  with control_admission [OF redis_lawful [OF trim_ok_exact] demo_service_ok _ c] m c show ?thesis by auto
qed

subsection \<open>The rate limit\<close>

text \<open>How many of a socket's requests are admitted, among requests of any sockets.\<close>

fun admitted :: "'s timeline_service \<Rightarrow> string \<Rightarrow> (string \<times> jsnum) list \<Rightarrow> nat" where
  "admitted sv s [] = 0"
| "admitted sv s ((s', t) # xs) =
     (let (sv', ok) = takeToken sv s' t in (if s' = s \<and> ok then 1 else 0) + admitted sv' s xs)"

fun nondecreasing_times :: "real \<Rightarrow> (string \<times> real) list \<Rightarrow> bool" where
  "nondecreasing_times l [] = True"
| "nondecreasing_times l ((s, t) # xs) = (l \<le> t \<and> nondecreasing_times t xs)"

lemma take_bucket_Some:
  assumes "b = \<lparr>tb_tokens = Fin k, tb_lastRefill = Fin l\<rparr>" "l \<le> t" "0 \<le> k"
  shows "\<exists>k' ok. take_bucket (Some b) (Fin t) = (\<lparr>tb_tokens = Fin k', tb_lastRefill = Fin t\<rparr>, ok) \<and> 0 \<le> k' \<and>
    k' + (if ok then 1 else 0) \<le> k + 5 * (t - l) / 1000"
proof -
  define m where "m = min 10 (k + 5 * (t - l) / 1000)"
  have "0 \<le> m" "m \<le> k + 5 * (t - l) / 1000" using assms(2,3) by (simp_all add: m_def)
  moreover have tok: "math_min BUCKET_CAPACITY (Fin k + (Fin t - Fin l) / 1000 * BUCKET_REFILL_PER_S) = Fin m"
    by (simp add: BUCKET_CAPACITY_def BUCKET_REFILL_PER_S_def m_def mult.commute)
  have "take_bucket (Some b) (Fin t) = (if m < 1 then (\<lparr>tb_tokens = Fin m, tb_lastRefill = Fin t\<rparr>, False)
      else (\<lparr>tb_tokens = Fin (m - 1), tb_lastRefill = Fin t\<rparr>, True))"
    unfolding take_bucket_def nullish_simps Let_def assms(1) token_bucket.simps tok by simp
  ultimately show ?thesis by auto
qed

lemma admitted_bound:
  assumes "ts_buckets sv s = Some \<lparr>tb_tokens = Fin k, tb_lastRefill = Fin l\<rparr>" "0 \<le> k" "l \<le> l'"
    "nondecreasing_times l' xs"
  shows "real (admitted sv s (map (apsnd Fin) xs)) \<le> k + 5 * (snd (last (([], l') # xs)) - l) / 1000"
  using assms
proof (induction xs arbitrary: sv k l l')
  case Nil
  then show ?case by simp
next
  case (Cons x xs)
  obtain s' t where x: "x = (s', t)" by fastforce
  have t: "l' \<le> t" "nondecreasing_times t xs" using Cons.prems(4) by (simp_all add: x)
  have lst: "snd (last (([], l') # x # xs)) = snd (last (([], t) # xs))" by (simp add: x)
  show ?case
  proof (cases "s' = s")
    case False
    obtain b ok where tb: "take_bucket (ts_buckets sv s') (Fin t) = (b, ok)" by fastforce
    let ?sv = "sv\<lparr>ts_buckets := (ts_buckets sv)(s' \<mapsto> b)\<rparr>"
    have "ts_buckets ?sv s = Some \<lparr>tb_tokens = Fin k, tb_lastRefill = Fin l\<rparr>" using Cons.prems(1) False by simp
    from Cons.IH [OF this Cons.prems(2) _ t(2)] show ?thesis
      using Cons.prems(3) t(1) False lst by (simp add: x takeToken_def tb)
  next
    case True
    obtain k' ok where k': "take_bucket (ts_buckets sv s) (Fin t) = (\<lparr>tb_tokens = Fin k', tb_lastRefill = Fin t\<rparr>, ok)"
        "0 \<le> k'" "k' + (if ok then 1 else 0) \<le> k + 5 * (t - l) / 1000"
      using take_bucket_Some [OF refl, of l t k] Cons.prems(1-3) t(1) by auto
    let ?sv = "sv\<lparr>ts_buckets := (ts_buckets sv)(s \<mapsto> \<lparr>tb_tokens = Fin k', tb_lastRefill = Fin t\<rparr>)\<rparr>"
    have "real (admitted ?sv s (map (apsnd Fin) xs)) \<le> k' + 5 * (snd (last (([], t) # xs)) - t) / 1000"
      using Cons.IH [of ?sv k' t t] k'(2) t(2) by simp
    then show ?thesis unfolding lst using k'(3) True by (simp add: x takeToken_def k'(1) field_simps split: if_splits)
  qed
qed

text \<open>
  The rate limit holds: over any stretch of requests at non-decreasing times, from any sockets,
  the number admitted from one socket is at most 10 plus 5 per second of the stretch.
\<close>

theorem control_rate_bound:
  assumes "ts_buckets sv s = None" "nondecreasing_times t ((s, t) # xs)"
  shows "real (admitted sv s (map (apsnd Fin) ((s, t) # xs))) \<le> 10 + 5 * (snd (last ((s, t) # xs)) - t) / 1000"
proof -
  let ?sv = "sv\<lparr>ts_buckets := (ts_buckets sv)(s \<mapsto> \<lparr>tb_tokens = Fin 9, tb_lastRefill = Fin t\<rparr>)\<rparr>"
  have tb: "take_bucket None (Fin t) = (\<lparr>tb_tokens = Fin 9, tb_lastRefill = Fin t\<rparr>, True)"
    by (simp add: take_bucket_def BUCKET_CAPACITY_def BUCKET_REFILL_PER_S_def Let_def)
  have "real (admitted ?sv s (map (apsnd Fin) xs)) \<le> 9 + 5 * (snd (last (([], t) # xs)) - t) / 1000"
    using admitted_bound [of ?sv s 9 t t xs] assms(2) by simp
  moreover have "snd (last ((s, t) # xs)) = snd (last (([], t) # xs))" by simp
  ultimately show ?thesis using assms(1) by (simp add: takeToken_def tb)
qed

theorem control_rate_bound_witness:
  "real (admitted demo_service ''s1'' (map (apsnd Fin) ((''s1'', 0) # replicate 30 (''s1'', 500)))) \<le> 12.5"
proof -
  have "ts_buckets demo_service ''s1'' = None"
    by (simp add: demo_service_def ensureRoom_def new_service_def redis_ops_def redis_init_eq redis_empty_def red_hash_def Let_def)
  moreover have "nondecreasing_times l (replicate n (s, 500)) = (n = 0 \<or> l \<le> 500)" for l n s
    by (induction n arbitrary: l) auto
  ultimately show ?thesis
    using control_rate_bound [of demo_service "''s1''" 0 "replicate 30 (''s1'', 500)"] by (simp del: admitted.simps replicate.simps map_replicate)
qed

subsection \<open>Who controls\<close>

text \<open>The events that change who may control a room.\<close>

datatype control_event = Departs string "string option" | Returns string

fun control_event_step :: "string \<Rightarrow> 's timeline_service \<Rightarrow> control_event \<Rightarrow> 's timeline_service" where
  "control_event_step r sv (Departs u cand) = fst (succession sv r u cand)"
| "control_event_step r sv (Returns u) = fst (reclaim sv r u)"

lemma control_event_meta:
  assumes "ts_meta sv r = Some m"
  shows "\<exists>m'. ts_meta (control_event_step r sv e) r = Some m' \<and> m_creatorId m' = m_creatorId m \<and>
    m_allowGuestControl m' = m_allowGuestControl m"
  using assms by (cases e) (auto simp: succession_def reclaim_def)

text \<open>
  Succession: without guest control the creator can always control, whoever departs and
  returns; at most one other user can; a controller's departure hands control to the candidate given
  and to nobody else; and the creator's return takes it back.
\<close>

theorem control_succession:
  assumes "ts_meta sv r = Some m" "\<not> m_allowGuestControl m" "sv' = foldl (control_event_step r) sv es"
  shows "\<exists>m'. ts_meta sv' r = Some m' \<and> m_creatorId m' = m_creatorId m \<and>
    (\<forall>u. allowedToControl m' u \<longleftrightarrow> u = m_creatorId m \<or> Some u = m_activeController m') \<and>
    (\<forall>u cand sv1 c. succession sv' r u cand = (sv1, Some c) \<longrightarrow>
       allowedToControl m' u \<and> cand = Some c \<and> (\<exists>m1. ts_meta sv1 r = Some m1 \<and> (\<forall>v. allowedToControl m1 v \<longleftrightarrow> v = m_creatorId m \<or> v = c))) \<and>
    (\<exists>m2. ts_meta (fst (reclaim sv' r (m_creatorId m))) r = Some m2 \<and> (\<forall>v. allowedToControl m2 v \<longleftrightarrow> v = m_creatorId m))"
proof -
  have "\<exists>m'. ts_meta (foldl (control_event_step r) sv es) r = Some m' \<and> m_creatorId m' = m_creatorId m \<and> \<not> m_allowGuestControl m'"
    using assms(1,2)
  proof (induction es arbitrary: sv m)
    case (Cons e es)
    from control_event_meta [OF Cons.prems(1), of e] obtain m1 where m1: "ts_meta (control_event_step r sv e) r = Some m1"
        "m_creatorId m1 = m_creatorId m" "m_allowGuestControl m1 = m_allowGuestControl m" by blast
    then show ?case using Cons.IH [OF m1(1)] Cons.prems(2) by simp
  qed auto
  then obtain m' where m': "ts_meta sv' r = Some m'" "m_creatorId m' = m_creatorId m" "\<not> m_allowGuestControl m'"
    using assms(3) by blast
  show ?thesis
  proof (rule exI [of _ m'], intro conjI)
    show "\<forall>u cand sv1 c. succession sv' r u cand = (sv1, Some c) \<longrightarrow>
       allowedToControl m' u \<and> cand = Some c \<and> (\<exists>m1. ts_meta sv1 r = Some m1 \<and> (\<forall>v. allowedToControl m1 v \<longleftrightarrow> v = m_creatorId m \<or> v = c))"
      using m' by (auto simp: succession_def allowedToControl_def split: if_splits)
    show "\<exists>m2. ts_meta (fst (reclaim sv' r (m_creatorId m))) r = Some m2 \<and> (\<forall>v. allowedToControl m2 v \<longleftrightarrow> v = m_creatorId m)"
      using m' by (cases "m_activeController m'") (auto simp: reclaim_def allowedToControl_def)
  qed (use m' in \<open>auto simp: allowedToControl_def\<close>)
qed

theorem control_succession_witness:
  "\<exists>m'. ts_meta (foldl (control_event_step ''r'') demo_service [Departs ''ann'' (Some ''bob''), Departs ''bob'' (Some ''cat'')]) ''r'' = Some m' \<and>
     m_creatorId m' = ''ann''"
proof -
  have "ts_meta demo_service ''r'' = Some \<lparr>m_creatorId = ''ann'', m_allowGuestControl = False, m_videoId = None, m_activeController = None\<rparr>"
    by (simp add: demo_service_def ensureRoom_def new_service_def redis_ops_def redis_init_eq redis_empty_def red_hash_def Let_def)
  from control_succession [OF this _ refl, of "[Departs ''ann'' (Some ''bob''), Departs ''bob'' (Some ''cat'')]"]
  show ?thesis by auto
qed

subsection \<open>Releasing and reopening a room\<close>

text \<open>
  An empty room that is released and joined again comes back paused at the position it had
  reached: releasing persists the projected position and the video, and re-creating the room from
  the persisted row starts a new timeline at that position, not playing, with control back at the
  creator.
\<close>

theorem released_room_reopens_paused:
  assumes "trim_ok xtrim" "redis_ok (ts_store sv)" "currentTimeline (redis_ops xtrim) sv r = Some p"
    "releaseRoom (redis_ops xtrim) sv r now = (sv1, upd)"
    "rr_videoUrl row = ru_videoUrl (the upd)" "rr_currentTime row = ru_currentTime (the upd)"
    "ensureRoom (redis_ops xtrim) sv1 r row now2 = (sv2, t)"
  shows "currentTimeline (redis_ops xtrim) sv1 r = None \<and> currentTimeline (redis_ops xtrim) sv2 r = Some t \<and> seq t = 0 \<and>
    \<not> isPlaying t \<and> mediaTime t = projectMediaTime p now \<and> same_video (videoId t) (videoId p) \<and>
    (\<exists>m. ts_meta sv2 r = Some m \<and> m_creatorId m = rr_creatorId row \<and> m_activeController m = None)"
proof -
  note rel = room_state_store.release_then_ensure [OF redis_lawful [OF assms(1)] assms(2,4,7)]
  have upd: "upd = Some (persistTimeline now p)"
    using assms(3,4) by (auto simp: releaseRoom_def currentTimeline_def Let_def)
  have "redis_get (ts_store sv1) r = None" using rel by (simp add: currentTimeline_def redis_ops_def)
  then have "red_hash (ts_store sv1) r = None" by (simp add: redis_get_eq)
  then have "videoId t = none_if_empty (nullish (rr_videoUrl row) [])"
    using assms(7) by (auto simp: ensureRoom_def redis_ops_def redis_init_eq Let_def red_born_def split: if_splits)
  then have "same_video (videoId t) (videoId p)"
    using assms(5) upd by (simp add: same_video_def persistTimeline_def)
  then show ?thesis using rel assms(6) upd by (simp add: persistTimeline_def)
qed

theorem released_room_reopens_paused_witness:
  "\<exists>sv1 upd sv2 t. releaseRoom (redis_ops (take_last LOG_MAX)) demo_service ''r'' 9 = (sv1, upd) \<and>
     ensureRoom (redis_ops (take_last LOG_MAX)) sv1 ''r''
       \<lparr>rr_creatorId = ''ann'', rr_allowGuestControl = False, rr_videoUrl = ru_videoUrl (the upd), rr_currentTime = ru_currentTime (the upd)\<rparr> 9
       = (sv2, t) \<and> seq t = 0 \<and> \<not> isPlaying t"
proof -
  let ?ops = "redis_ops (take_last LOG_MAX)"
  have "\<exists>p. currentTimeline ?ops demo_service ''r'' = Some p"
    by (simp add: currentTimeline_def demo_service_def ensureRoom_def new_service_def redis_ops_def redis_eqs redis_empty_def
        red_hash_def TL_TTL_def Let_def)
  then obtain p where p: "currentTimeline ?ops demo_service ''r'' = Some p" by blast
  obtain sv1 upd where rel: "releaseRoom ?ops demo_service ''r'' 9 = (sv1, upd)" by fastforce
  define row where "row = \<lparr>rr_creatorId = ''ann'', rr_allowGuestControl = False, rr_videoUrl = ru_videoUrl (the upd), rr_currentTime = ru_currentTime (the upd)\<rparr>"
  obtain sv2 t where en: "ensureRoom ?ops sv1 ''r'' row 9 = (sv2, t)" by fastforce
  have "rr_videoUrl row = ru_videoUrl (the upd)" "rr_currentTime row = ru_currentTime (the upd)" by (simp_all add: row_def)
  from released_room_reopens_paused [OF trim_ok_exact demo_service_ok p rel this en] show ?thesis
    using rel en unfolding row_def by blast
qed

end
