(* ===== verification/ClockEstimator.thy ===== *)
theory ClockEstimator
  imports JsNum
begin

text \<open>
  The NTP-style clock-offset estimator (shared/sync-core/clock-estimator.ts): a ring of samples, the
  median of the lowest-delay ones as target, small corrections slewed and large ones stepped.
\<close>

subsection \<open>Data\<close>

record clock_sample =
  cs_t0 :: jsnum
  cs_t1 :: jsnum
  cs_t2 :: jsnum
  cs_t3 :: jsnum

record clock_estimate =
  offsetMs :: jsnum
  targetOffsetMs :: jsnum
  uncertaintyMs :: jsnum
  lastRttMs :: jsnum
  sampleCount :: nat

record clock_tuning =
  ringSize :: nat
  windowMs :: jsnum
  bestK :: nat
  slewThresholdMs :: jsnum
  slewRatePerS :: jsnum

definition DEFAULT_CLOCK_TUNING :: clock_tuning where
  "DEFAULT_CLOCK_TUNING =
     \<lparr>ringSize = 64, windowMs = 60000, bestK = 5, slewThresholdMs = 20, slewRatePerS = 5\<rparr>"

record stored_sample =
  ss_theta :: jsnum
  ss_delta :: jsnum
  ss_t3 :: jsnum

record clock_estimator =
  ce_samples :: "stored_sample list"
  ce_applied :: "jsnum option"
  ce_target :: jsnum
  ce_uncertainty :: jsnum
  ce_lastRtt :: jsnum
  ce_lastTick :: "jsnum option"
  ce_tuning :: clock_tuning

definition new_estimator :: "clock_tuning \<Rightarrow> clock_estimator" where
  "new_estimator tun =
     \<lparr>ce_samples = [], ce_applied = None, ce_target = 0, ce_uncertainty = PInf, ce_lastRtt = NaN,
      ce_lastTick = None, ce_tuning = tun\<rparr>"

text \<open>Reading a property of a missing array element raises.\<close>

datatype js_error = TypeError

subsection \<open>Operations\<close>

text \<open>The operator || on numbers: the right operand when the left is 0 or NaN.\<close>

definition num_or :: "jsnum \<Rightarrow> jsnum \<Rightarrow> jsnum" where
  "num_or x y = (if x = 0 \<or> x = NaN then y else x)"

definition best_order :: "stored_sample \<Rightarrow> stored_sample \<Rightarrow> jsnum" where
  "best_order a b = num_or (ss_delta a - ss_delta b) (ss_t3 b - ss_t3 a)"

definition best_samples :: "clock_estimator \<Rightarrow> jsnum \<Rightarrow> stored_sample list" where
  "best_samples e nowLocal =
     (let recent = filter (\<lambda>x. nowLocal - ss_t3 x \<le> windowMs (ce_tuning e)) (ce_samples e)
      in take (bestK (ce_tuning e)) (js_sort best_order recent))"

definition recompute :: "clock_estimator \<Rightarrow> jsnum \<Rightarrow> js_error + clock_estimator" where
  "recompute e nowLocal =
     (let recent = filter (\<lambda>x. nowLocal - ss_t3 x \<le> windowMs (ce_tuning e)) (ce_samples e) in
      if recent = [] then Inr e
      else (case best_samples e nowLocal of
          [] \<Rightarrow> Inl TypeError
        | b # bs \<Rightarrow>
            (let median = js_median (map ss_theta (b # bs));
                 e1 = e\<lparr>ce_target := median, ce_uncertainty := ss_delta b / 2\<rparr>
             in Inr (case ce_applied e of
                  None \<Rightarrow> e1\<lparr>ce_applied := Some median\<rparr>
                | Some a \<Rightarrow> if slewThresholdMs (ce_tuning e) \<le> \<bar>median - a\<bar>
                            then e1\<lparr>ce_applied := Some median\<rparr> else e1))))"

definition addSample :: "clock_estimator \<Rightarrow> clock_sample \<Rightarrow> js_error + clock_estimator \<times> bool" where
  "addSample e s =
     (let delta = cs_t3 s - cs_t0 s - (cs_t2 s - cs_t1 s) in
      if delta < 0 then Inr (e, False)
      else
        (let theta = (cs_t1 s - cs_t0 s + (cs_t2 s - cs_t3 s)) / 2;
             samples = take_last (ringSize (ce_tuning e))
               (ce_samples e @ [\<lparr>ss_theta = theta, ss_delta = delta, ss_t3 = cs_t3 s\<rparr>])
         in case recompute (e\<lparr>ce_samples := samples, ce_lastRtt := delta\<rparr>) (cs_t3 s) of
              Inl err \<Rightarrow> Inl err
            | Inr e' \<Rightarrow> Inr (e', True)))"

definition tick :: "clock_estimator \<Rightarrow> jsnum \<Rightarrow> clock_estimator" where
  "tick e nowLocal =
     (case ce_applied e of None \<Rightarrow> e
      | Some a \<Rightarrow>
          (let e1 = (case ce_lastTick e of None \<Rightarrow> e
              | Some lt \<Rightarrow>
                  (let dtS = (nowLocal - lt) / 1000;
                       maxStep = slewRatePerS (ce_tuning e) * dtS;
                       diff = ce_target e - a
                   in if \<bar>diff\<bar> \<le> maxStep then e\<lparr>ce_applied := Some (ce_target e)\<rparr>
                      else e\<lparr>ce_applied := Some (a + sgn diff * maxStep)\<rparr>))
           in e1\<lparr>ce_lastTick := Some nowLocal\<rparr>))"

definition serverNow_of :: "clock_estimator \<Rightarrow> jsnum \<Rightarrow> jsnum" where
  "serverNow_of e nowLocal = nowLocal + nullish (ce_applied e) 0"

definition hasEstimate :: "clock_estimator \<Rightarrow> bool" where
  "hasEstimate e = (ce_applied e \<noteq> None)"

definition getEstimate :: "clock_estimator \<Rightarrow> clock_estimate" where
  "getEstimate e =
     \<lparr>offsetMs = nullish (ce_applied e) 0, targetOffsetMs = ce_target e, uncertaintyMs = ce_uncertainty e,
      lastRttMs = ce_lastRtt e, sampleCount = length (ce_samples e)\<rparr>"

definition reset_estimator :: "clock_estimator \<Rightarrow> clock_estimator" where
  "reset_estimator e =
     e\<lparr>ce_samples := [], ce_applied := None, ce_target := 0, ce_uncertainty := PInf, ce_lastRtt := NaN,
       ce_lastTick := None\<rparr>"

subsection \<open>One exchange\<close>

text \<open>
  The four stamps of an exchange when the server clock is ahead by \<open>off\<close>: sent at \<open>a\<close>, \<open>d1\<close> on the way
  out, \<open>p\<close> in the server, \<open>d2\<close> on the way back (server stamps in its own clock).
\<close>

definition exchange :: "real \<Rightarrow> real \<Rightarrow> real \<Rightarrow> real \<Rightarrow> real \<Rightarrow> clock_sample" where
  "exchange off a d1 p d2 =
     \<lparr>cs_t0 = Fin a, cs_t1 = Fin (a + d1 + off), cs_t2 = Fin (a + d1 + p + off), cs_t3 = Fin (a + d1 + p + d2)\<rparr>"

definition theta_of :: "clock_sample \<Rightarrow> jsnum" where
  "theta_of s = (cs_t1 s - cs_t0 s + (cs_t2 s - cs_t3 s)) / 2"

definition delta_of :: "clock_sample \<Rightarrow> jsnum" where
  "delta_of s = cs_t3 s - cs_t0 s - (cs_t2 s - cs_t1 s)"

lemma exchange_theta: "theta_of (exchange off a d1 p d2) = Fin (off + (d1 - d2) / 2)"
  by (simp add: theta_of_def exchange_def field_simps)

lemma exchange_delta: "delta_of (exchange off a d1 p d2) = Fin (d1 + d2)"
  by (simp add: delta_of_def exchange_def)

text \<open>A sample within the error bound of its own round trip, itself at most \<open>D\<close>.\<close>

definition good_sample :: "real \<Rightarrow> real \<Rightarrow> stored_sample \<Rightarrow> bool" where
  "good_sample off D x = (is_fin (ss_theta x) \<and> is_fin (ss_delta x) \<and> is_fin (ss_t3 x) \<and>
     \<bar>fin_val (ss_theta x) - off\<bar> \<le> fin_val (ss_delta x) / 2 \<and> fin_val (ss_delta x) \<le> D)"

subsection \<open>Selection and median\<close>

lemma set_best_samples: "set (best_samples e t) \<subseteq> set (ce_samples e)"
  by (auto simp: best_samples_def Let_def dest: in_set_takeD)

lemma best_samples_nonempty:
  assumes "x \<in> set (ce_samples e)" "t - ss_t3 x \<le> windowMs (ce_tuning e)" "0 < bestK (ce_tuning e)"
  shows "best_samples e t \<noteq> []"
proof -
  have "filter (\<lambda>x. t - ss_t3 x \<le> windowMs (ce_tuning e)) (ce_samples e) \<noteq> []"
    using assms(1,2) by (auto simp: filter_empty_conv)
  then show ?thesis using assms(3) by (simp add: best_samples_def Let_def)
qed

subsection \<open>The estimator invariant\<close>

definition wf_tuning :: "clock_tuning \<Rightarrow> real \<Rightarrow> real \<Rightarrow> bool" where
  "wf_tuning tun thr slew = (0 < ringSize tun \<and> 0 < bestK tun \<and> (0 \<le> windowMs tun) \<and>
     slewThresholdMs tun = Fin thr \<and> 0 \<le> thr \<and> slewRatePerS tun = Fin slew \<and> 0 \<le> slew)"

lemma wf_default_tuning: "wf_tuning DEFAULT_CLOCK_TUNING 20 5"
  by (simp add: wf_tuning_def DEFAULT_CLOCK_TUNING_def)

text \<open>
  Every stored sample is good, the ring is bounded, and once there is an estimate the target is
  within half the worst delay of the truth and the applied offset within the slew threshold of the
  target. \<open>u\<close> bounds the last tick.
\<close>

definition est_inv :: "clock_tuning \<Rightarrow> real \<Rightarrow> real \<Rightarrow> real \<Rightarrow> clock_estimator \<Rightarrow> bool" where
  "est_inv tun off D thr e = (ce_tuning e = tun \<and> (\<forall>x\<in>set (ce_samples e). good_sample off D x) \<and>
     length (ce_samples e) \<le> ringSize tun \<and>
     (case ce_applied e of None \<Rightarrow> True
      | Some a \<Rightarrow> is_fin a \<and> is_fin (ce_target e) \<and> \<bar>fin_val (ce_target e) - off\<bar> \<le> D / 2 \<and>
          \<bar>fin_val (ce_target e) - fin_val a\<bar> \<le> thr) \<and>
     (case ce_lastTick e of None \<Rightarrow> True | Some t \<Rightarrow> is_fin t))"

lemma est_inv_new: "est_inv tun off D thr (new_estimator tun)"
  by (simp add: est_inv_def new_estimator_def)

lemma recompute_ok:
  assumes tun: "wf_tuning tun thr slew"
    and inv: "est_inv tun off D thr e"
    and x: "x \<in> set (ce_samples e)" "t - ss_t3 x \<le> windowMs tun"
  shows "\<exists>e'. recompute e t = Inr e' \<and> est_inv tun off D thr e' \<and> ce_applied e' \<noteq> None \<and>
    ce_samples e' = ce_samples e \<and> ce_lastTick e' = ce_lastTick e"
proof -
  have te: "ce_tuning e = tun" using inv by (simp add: est_inv_def)
  let ?best = "best_samples e t"
  have "?best \<noteq> []" using best_samples_nonempty [OF x(1)] x(2) tun te by (simp add: wf_tuning_def)
  then obtain b bs where best: "?best = b # bs" by (cases ?best) auto
  have ne: "filter (\<lambda>y. t - ss_t3 y \<le> windowMs tun) (ce_samples e) \<noteq> []"
    using x by (auto simp: filter_empty_conv)
  have "js_median (map ss_theta (b # bs)) \<in> set (map ss_theta (b # bs))"
    by (rule js_median_mem) simp
  then obtain y where y: "y \<in> set ?best" "js_median (map ss_theta (b # bs)) = ss_theta y"
    using best by (metis (no_types, lifting) imageE list.set_map)
  have "good_sample off D y" using y(1) set_best_samples inv by (auto simp: est_inv_def)
  then obtain m where m: "ss_theta y = Fin m" "\<bar>m - off\<bar> \<le> D / 2"
    by (auto simp: good_sample_def is_fin_iff)
  have thr: "slewThresholdMs tun = Fin thr" "0 \<le> thr" using tun by (auto simp: wf_tuning_def)
  have r: "recompute e t = Inr (let e1 = e\<lparr>ce_target := Fin m, ce_uncertainty := ss_delta b / 2\<rparr> in
      case ce_applied e of None \<Rightarrow> e1\<lparr>ce_applied := Some (Fin m)\<rparr>
      | Some a \<Rightarrow> if Fin thr \<le> \<bar>Fin m - a\<bar> then e1\<lparr>ce_applied := Some (Fin m)\<rparr> else e1)"
    unfolding recompute_def te best using ne y(2) by (simp only: Let_def thr m(1) list.case if_False)
  show ?thesis
    using inv thr(2) m(2) unfolding r by (auto simp: est_inv_def Let_def is_fin_iff split: option.splits)
qed

lemma recompute_tuning [simp]: "recompute e t = Inr e' \<Longrightarrow> ce_tuning e' = ce_tuning e"
  by (auto simp: recompute_def Let_def split: list.splits option.splits if_splits)

lemma addSample_ok:
  assumes tun: "wf_tuning tun thr slew" and inv: "est_inv tun off D thr e"
    and d: "0 \<le> d1" "0 \<le> d2" "d1 + d2 \<le> D"
  shows "\<exists>e'. addSample e (exchange off a d1 p d2) = Inr (e', True) \<and> est_inv tun off D thr e' \<and>
    ce_applied e' \<noteq> None \<and> ce_lastTick e' = ce_lastTick e"
proof -
  let ?s = "exchange off a d1 p d2"
  let ?x = "\<lparr>ss_theta = theta_of ?s, ss_delta = delta_of ?s, ss_t3 = cs_t3 ?s\<rparr>"
  let ?e = "e\<lparr>ce_samples := take_last (ringSize tun) (ce_samples e @ [?x]), ce_lastRtt := delta_of ?s\<rparr>"
  have te: "ce_tuning e = tun" using inv by (simp add: est_inv_def)
  have rs: "0 < ringSize tun" using tun by (simp add: wf_tuning_def)
  have "\<bar>(d1 - d2) / 2\<bar> \<le> (d1 + d2) / 2" using d by (simp add: abs_le_iff field_simps)
  then have gx: "good_sample off D ?x"
    using d by (simp add: good_sample_def exchange_theta exchange_delta) (simp add: exchange_def)
  have inv': "est_inv tun off D thr ?e"
    using inv gx set_take_last [of "ringSize tun" "ce_samples e @ [?x]"]
    by (auto simp: est_inv_def te split: option.splits)
  have mem: "?x \<in> set (ce_samples ?e)"
  proof -
    have "take_last (ringSize tun) (ce_samples e @ [?x]) \<noteq> []"
      using rs by (metis length_0_conv length_append_singleton length_take_last min_def nat.distinct(1) not_less0)
    then show ?thesis using last_take_last [OF rs, of "ce_samples e @ [?x]"] last_in_set by fastforce
  qed
  have win: "cs_t3 ?s - ss_t3 ?x \<le> windowMs tun"
    using tun by (simp add: wf_tuning_def exchange_def)
  obtain e' where e': "recompute ?e (cs_t3 ?s) = Inr e'" "est_inv tun off D thr e'" "ce_applied e' \<noteq> None"
      "ce_lastTick e' = ce_lastTick ?e"
    using recompute_ok [OF tun inv' mem win] by blast
  have nn: "\<not> delta_of ?s < 0" using d by (simp add: exchange_delta)
  have "addSample e ?s = (case recompute ?e (cs_t3 ?s) of Inl err \<Rightarrow> Inl err | Inr e' \<Rightarrow> Inr (e', True))"
    using nn unfolding addSample_def theta_of_def delta_of_def Let_def te by (simp only: if_False)
  with e' show ?thesis by simp
qed

lemma tick_ok:
  assumes tun: "wf_tuning tun thr slew" and inv: "est_inv tun off D thr e"
    and mono: "\<And>lt. ce_lastTick e = Some lt \<Longrightarrow> lt \<le> Fin t"
  shows "est_inv tun off D thr (tick e (Fin t))"
    and "ce_lastTick (tick e (Fin t)) = (if ce_applied e = None then ce_lastTick e else Some (Fin t))"
    and "(ce_applied (tick e (Fin t)) = None) = (ce_applied e = None)"
proof -
  have te: "ce_tuning e = tun" using inv by (simp add: est_inv_def)
  have slew: "slewRatePerS tun = Fin slew" "0 \<le> slew" using tun by (auto simp: wf_tuning_def)
  show "ce_lastTick (tick e (Fin t)) = (if ce_applied e = None then ce_lastTick e else Some (Fin t))"
    by (simp add: tick_def Let_def split: option.splits)
  show "(ce_applied (tick e (Fin t)) = None) = (ce_applied e = None)"
    by (simp add: tick_def Let_def split: option.splits)
  show "est_inv tun off D thr (tick e (Fin t))"
  proof (cases "ce_applied e")
    case None
    then show ?thesis using inv by (simp add: tick_def)
  next
    case (Some a)
    obtain r m where rm: "a = Fin r" "ce_target e = Fin m" "\<bar>m - off\<bar> \<le> D / 2" "\<bar>m - r\<bar> \<le> thr"
      using inv Some by (auto simp: est_inv_def is_fin_iff)
    show ?thesis
    proof (cases "ce_lastTick e")
      case None
      then show ?thesis using inv Some by (simp add: tick_def Let_def est_inv_def)
    next
      case (Some lt)
      then obtain l where l: "lt = Fin l" "l \<le> t" using inv mono by (auto simp: est_inv_def is_fin_iff)
      let ?st = "slew * ((t - l) / 1000)"
      have "0 \<le> ?st" using slew l by simp
      then have "\<bar>m - (r + sgn (m - r) * ?st)\<bar> \<le> thr" if "?st < \<bar>m - r\<bar>"
        using that rm(4) by (simp add: sgn_if abs_if split: if_splits)
      moreover have "0 \<le> thr" using rm(4) by linarith
      ultimately show ?thesis using inv \<open>ce_applied e = Some a\<close> Some rm l slew
        by (auto simp: tick_def Let_def est_inv_def te not_le)
    qed
  qed
qed

text \<open>One tick never overshoots, never moves away, and closes the gap once its step covers it.\<close>

lemma tick_slews:
  assumes "ce_applied e = Some (Fin a)" "ce_target e = Fin m" "ce_lastTick e = Some (Fin l)" "l \<le> t"
    "slewRatePerS (ce_tuning e) = Fin slew" "0 \<le> slew"
  shows "\<exists>a'. ce_applied (tick e (Fin t)) = Some (Fin a') \<and>
    \<bar>m - a'\<bar> = max 0 (\<bar>m - a\<bar> - slew * ((t - l) / 1000)) \<and>
    \<bar>a' - a\<bar> \<le> slew * ((t - l) / 1000)"
proof -
  have "0 \<le> slew * ((t - l) / 1000)" using assms by simp
  then show ?thesis using assms
    by (cases "\<bar>m - a\<bar> \<le> slew * ((t - l) / 1000)")
      (auto simp: tick_def Let_def sgn_if abs_if max_def split: if_splits)
qed

subsection \<open>Runs of the estimator\<close>

datatype est_event = SampleEv clock_sample | TickEv jsnum | ResetEv

fun est_step :: "clock_estimator \<Rightarrow> est_event \<Rightarrow> js_error + clock_estimator" where
  "est_step e (SampleEv s) = (case addSample e s of Inl err \<Rightarrow> Inl err | Inr (e', _) \<Rightarrow> Inr e')"
| "est_step e (TickEv t) = Inr (tick e t)"
| "est_step e ResetEv = Inr (reset_estimator e)"

fun est_run :: "clock_estimator \<Rightarrow> est_event list \<Rightarrow> js_error + clock_estimator" where
  "est_run e [] = Inr e"
| "est_run e (ev # evs) = (case est_step e ev of Inl err \<Rightarrow> Inl err | Inr e' \<Rightarrow> est_run e' evs)"

text \<open>
  Samples are real exchanges with a server ahead by \<open>off\<close> and round-trip delay at most \<open>D\<close>, and the
  local clock that stamps the ticks does not go back.
\<close>

fun ok_events :: "real \<Rightarrow> real \<Rightarrow> real \<Rightarrow> est_event list \<Rightarrow> bool" where
  "ok_events off D u [] = True"
| "ok_events off D u (SampleEv s # evs) =
     ((\<exists>a d1 p d2. s = exchange off a d1 p d2 \<and> 0 \<le> d1 \<and> 0 \<le> d2 \<and> d1 + d2 \<le> D) \<and> ok_events off D u evs)"
| "ok_events off D u (TickEv t # evs) = (is_fin t \<and> u \<le> fin_val t \<and> ok_events off D (fin_val t) evs)"
| "ok_events off D u (ResetEv # evs) = ok_events off D u evs"

definition est_ok :: "clock_tuning \<Rightarrow> real \<Rightarrow> real \<Rightarrow> real \<Rightarrow> real \<Rightarrow> clock_estimator \<Rightarrow> bool" where
  "est_ok tun off D thr u e = (est_inv tun off D thr e \<and>
     (case ce_lastTick e of None \<Rightarrow> True | Some t \<Rightarrow> t \<le> Fin u))"

lemma reset_ok: "est_ok tun off D thr u e \<Longrightarrow> est_ok tun off D thr u (reset_estimator e)"
  by (simp add: est_ok_def est_inv_def reset_estimator_def)

lemma est_run_ok:
  assumes tun: "wf_tuning tun thr slew" and "est_ok tun off D thr u e" and "ok_events off D u evs"
  shows "\<exists>e' u'. est_run e evs = Inr e' \<and> est_ok tun off D thr u' e' \<and>
    (evs \<noteq> [] \<longrightarrow> (\<exists>s. last evs = SampleEv s) \<longrightarrow> hasEstimate e')"
  using assms(2,3)
proof (induction evs arbitrary: e u)
  case Nil
  then show ?case by auto
next
  case (Cons ev evs)
  have step: "\<exists>e1 u1. est_step e ev = Inr e1 \<and> est_ok tun off D thr u1 e1 \<and> ok_events off D u1 evs \<and>
      ((\<exists>s. ev = SampleEv s) \<longrightarrow> hasEstimate e1)"
  proof (cases ev)
    case (SampleEv s)
    then obtain a d1 p d2 where s: "s = exchange off a d1 p d2" "0 \<le> d1" "0 \<le> d2" "d1 + d2 \<le> D"
      using Cons.prems(2) by auto
    have inv: "est_inv tun off D thr e" using Cons.prems(1) by (simp add: est_ok_def)
    obtain e1 where "addSample e s = Inr (e1, True)" "est_inv tun off D thr e1" "ce_applied e1 \<noteq> None"
        "ce_lastTick e1 = ce_lastTick e"
      using addSample_ok [OF tun inv s(2-4), of a p] s(1) by auto
    then show ?thesis using Cons.prems by (auto simp: SampleEv est_ok_def hasEstimate_def)
  next
    case (TickEv t)
    then obtain v where v: "t = Fin v" "u \<le> v" "ok_events off D v evs"
      using Cons.prems(2) by (auto simp: is_fin_iff)
    have mono: "lt \<le> Fin v" if "ce_lastTick e = Some lt" for lt
      using that Cons.prems(1) v(2) by (cases lt) (auto simp: est_ok_def)
    have inv: "est_inv tun off D thr e" using Cons.prems(1) by (simp add: est_ok_def)
    note tk = tick_ok [OF tun inv mono]
    have "est_ok tun off D thr v (tick e t)"
      using tk(1,2) mono v(1) by (auto simp: est_ok_def split: option.splits)
    then show ?thesis using v(3) by (auto simp: TickEv)
  next
    case ResetEv
    then have "est_ok tun off D thr u (reset_estimator e) \<and> ok_events off D u evs"
      using Cons.prems reset_ok by simp
    then show ?thesis using ResetEv by auto
  qed
  then obtain e1 u1 where e1: "est_step e ev = Inr e1" "est_ok tun off D thr u1 e1" "ok_events off D u1 evs"
      "(\<exists>s. ev = SampleEv s) \<longrightarrow> hasEstimate e1" by blast
  show ?case using Cons.IH [OF e1(2,3)] e1(1,4) by (cases "evs = []") auto
qed

text \<open>
  C12. Clock accuracy: for a server whose clock is ahead by \<open>off\<close>, whatever exchanges complete (each with
  a round-trip delay of at most \<open>D\<close>, split between the two directions in any way) and however they
  interleave with ticks and resets, the estimator never raises, keeps at most 64 samples, and every
  server time it reports while it has an estimate is within 20 ms + D/2 of the true server time. It
  has an estimate whenever the last event was an exchange.
\<close>

theorem server_time_error_bound:
  assumes "ok_events off D u evs"
  shows "\<exists>e. est_run (new_estimator DEFAULT_CLOCK_TUNING) evs = Inr e \<and>
    sampleCount (getEstimate e) \<le> 64 \<and>
    (evs \<noteq> [] \<and> (\<exists>s. last evs = SampleEv s) \<longrightarrow> hasEstimate e) \<and>
    (hasEstimate e \<longrightarrow> (\<forall>t. \<exists>s. serverNow_of e (Fin t) = Fin s \<and> \<bar>s - (t + off)\<bar> \<le> 20 + D / 2))"
proof -
  have "est_ok DEFAULT_CLOCK_TUNING off D 20 u (new_estimator DEFAULT_CLOCK_TUNING)"
    by (simp add: est_ok_def est_inv_new) (simp add: new_estimator_def)
  from est_run_ok [OF wf_default_tuning this assms] obtain e u' where e:
      "est_run (new_estimator DEFAULT_CLOCK_TUNING) evs = Inr e" "est_ok DEFAULT_CLOCK_TUNING off D 20 u' e"
      "evs \<noteq> [] \<longrightarrow> (\<exists>s. last evs = SampleEv s) \<longrightarrow> hasEstimate e" by blast
  have inv: "est_inv DEFAULT_CLOCK_TUNING off D 20 e" using e(2) by (simp add: est_ok_def)
  have "sampleCount (getEstimate e) \<le> 64"
    using inv by (simp add: est_inv_def getEstimate_def DEFAULT_CLOCK_TUNING_def)
  moreover have "\<exists>s. serverNow_of e (Fin t) = Fin s \<and> \<bar>s - (t + off)\<bar> \<le> 20 + D / 2" if h: "hasEstimate e" for t
  proof -
    obtain r m where "ce_applied e = Some (Fin r)" "\<bar>m - off\<bar> \<le> D / 2" "\<bar>m - r\<bar> \<le> 20"
      using inv h
      by (fastforce simp: est_inv_def hasEstimate_def is_fin_iff fin_val_def split: option.splits jsnum.splits)
    moreover from this have "serverNow_of e (Fin t) = Fin (t + r)" by (simp add: serverNow_of_def)
    moreover have "\<bar>t + r - (t + off)\<bar> \<le> \<bar>m - off\<bar> + \<bar>m - r\<bar>" by arith
    ultimately show ?thesis by fastforce
  qed
  ultimately show ?thesis using e by blast
qed

definition demo_events :: "est_event list" where
  "demo_events = [SampleEv (exchange 500 1000 30 1 10), TickEv (Fin 1100), ResetEv,
     SampleEv (exchange 500 2000 25 1 15), TickEv (Fin 2300), SampleEv (exchange 500 3000 5 1 35)]"

theorem server_time_error_bound_witness:
  "\<exists>e. est_run (new_estimator DEFAULT_CLOCK_TUNING) demo_events = Inr e \<and> hasEstimate e \<and>
     (\<exists>s. serverNow_of e (Fin 4000) = Fin s \<and> \<bar>s - 4500\<bar> \<le> 40)"
proof -
  have ok: "ok_events 500 40 0 demo_events"
    unfolding demo_events_def by (fastforce simp: exchange_def)
  obtain e where e: "est_run (new_estimator DEFAULT_CLOCK_TUNING) demo_events = Inr e"
      "demo_events \<noteq> [] \<and> (\<exists>s. last demo_events = SampleEv s) \<longrightarrow> hasEstimate e"
      "hasEstimate e \<longrightarrow> (\<forall>t. \<exists>s. serverNow_of e (Fin t) = Fin s \<and> \<bar>s - (t + 500)\<bar> \<le> 20 + 40 / 2)"
    using server_time_error_bound [OF ok] by blast
  have h: "hasEstimate e" using e(2) by (simp add: demo_events_def)
  then obtain s where "serverNow_of e (Fin 4000) = Fin s" "\<bar>s - (4000 + 500)\<bar> \<le> 20 + 40 / 2"
    using e(3) by blast
  then show ?thesis using e(1) h by auto
qed

fun nondecreasing :: "real \<Rightarrow> real list \<Rightarrow> bool" where
  "nondecreasing l [] = True"
| "nondecreasing l (t # ts) = (l \<le> t \<and> nondecreasing t ts)"

text \<open>
  The slew converges: with the target unchanged, ticking at any non-decreasing local times brings
  the applied offset towards the target at exactly the slew rate, never past it, and onto it once
  gap / rate seconds have passed.
\<close>

theorem slew_reaches_target:
  assumes "ce_applied e = Some (Fin a)" "ce_target e = Fin m" "ce_lastTick e = Some (Fin l)"
    "slewRatePerS (ce_tuning e) = Fin slew" "0 \<le> slew" "nondecreasing l ts"
  shows "\<exists>a'. ce_applied (foldl tick e (map Fin ts)) = Some (Fin a') \<and>
    \<bar>m - a'\<bar> = max 0 (\<bar>m - a\<bar> - slew * ((last (l # ts) - l) / 1000))"
  using assms
proof (induction ts arbitrary: e a l)
  case Nil
  then show ?case by simp
next
  case (Cons t ts)
  obtain a1 where a1: "ce_applied (tick e (Fin t)) = Some (Fin a1)"
      "\<bar>m - a1\<bar> = max 0 (\<bar>m - a\<bar> - slew * ((t - l) / 1000))"
    using tick_slews [OF Cons.prems(1-3) _ Cons.prems(4,5)] Cons.prems(6) by auto
  have rest: "ce_target (tick e (Fin t)) = Fin m" "ce_lastTick (tick e (Fin t)) = Some (Fin t)"
      "slewRatePerS (ce_tuning (tick e (Fin t))) = Fin slew"
    using Cons.prems(1-4) by (simp_all add: tick_def Let_def)
  obtain a' where a': "ce_applied (foldl tick (tick e (Fin t)) (map Fin ts)) = Some (Fin a')"
      "\<bar>m - a'\<bar> = max 0 (\<bar>m - a1\<bar> - slew * ((last (t # ts) - t) / 1000))"
    using Cons.IH [OF a1(1) rest Cons.prems(5)] Cons.prems(6) by auto
  have tt: "t \<le> last (t # ts)" using Cons.prems(6) by (induction ts arbitrary: t l) (auto intro: order_trans)
  then have "0 \<le> slew * ((last (t # ts) - t) / 1000)" using Cons.prems(5) by simp
  then have "\<bar>m - a'\<bar> = max 0 (\<bar>m - a\<bar> - slew * ((last (t # ts) - l) / 1000))"
    using a'(2) a1(2) by (auto simp: max_def field_simps split: if_splits)
  then show ?case using a'(1) by (auto split: if_splits)
qed

theorem slew_reaches_target_witness:
  "ce_applied (foldl tick ((new_estimator DEFAULT_CLOCK_TUNING)
       \<lparr>ce_applied := Some 0, ce_target := 10, ce_lastTick := Some 0\<rparr>) (map Fin [1000, 2000])) = Some 10"
proof -
  let ?e = "(new_estimator DEFAULT_CLOCK_TUNING)\<lparr>ce_applied := Some 0, ce_target := 10, ce_lastTick := Some 0\<rparr>"
  have "\<exists>a'. ce_applied (foldl tick ?e (map Fin [1000, 2000])) = Some (Fin a') \<and>
      \<bar>10 - a'\<bar> = max 0 (\<bar>10 - 0\<bar> - 5 * ((last [0, 1000, 2000] - 0) / 1000))"
    by (rule slew_reaches_target) (simp_all add: new_estimator_def DEFAULT_CLOCK_TUNING_def)
  then show ?thesis by auto
qed

end
