(* ===== verification/DriftController.thy ===== *)
theory DriftController
  imports Timeline
begin

text \<open>
  The reactive drift controller (shared/sync-core/drift-controller.ts): a state machine that is fed
  one observation of the player and of the room per tick and answers with one action. The controller
  is a record, \<open>drift_evaluate\<close> returns the updated record with the action. Lemmas: the invariant of the
  record under every operation, what a seek leaves behind, and how long the controller then stays
  quiet. Properties: the bound on the learned seek lead and on seek targets, the quiet period after
  a seek, the correction of a sustained error, and the closed loop of seeks and lead learning.
\<close>

subsection \<open>Data\<close>

datatype lifecycle = Unstarted | Playing | Paused | Buffering | Ended | Cued

record controller_input =
  ci_tLocal :: jsnum
  ci_serverNow :: jsnum
  ci_playerTime :: jsnum
  ci_playerState :: lifecycle
  ci_timeline :: "timeline option"
  ci_fractionalRateOK :: bool

datatype ctrl_action = ActNone | ActSeek jsnum | ActSetRate jsnum | ActClearRate | ActPlay | ActPause

datatype ctrl_state = LOCKED | NUDGING | SEEKING | BUFFERING | PAUSED_SYNC | SUSPENDED

record ctrl_tuning =
  deadbandS :: jsnum
  seekThresholdS :: jsnum
  sustainEvals :: nat
  instantSeekS :: jsnum
  seekSpacingMs :: jsnum
  seekCooldownMs :: jsnum
  postSeekStableEvals :: nat
  seekLeadS :: jsnum
  seekLeadMaxS :: jsnum
  rateZoneMaxS :: jsnum
  nudgeRate :: jsnum
  nudgeExitS :: jsnum
  nudgeStuckMs :: jsnum
  pausedReconcileS :: jsnum

definition DEFAULT_CONTROLLER_TUNING :: ctrl_tuning where
  "DEFAULT_CONTROLLER_TUNING =
     \<lparr>deadbandS = Fin (12 / 100), seekThresholdS = Fin (15 / 100), sustainEvals = 2,
      instantSeekS = Fin (25 / 10), seekSpacingMs = 3000, seekCooldownMs = 1500,
      postSeekStableEvals = 2, seekLeadS = Fin (3 / 10), seekLeadMaxS = Fin (12 / 10),
      rateZoneMaxS = Fin (6 / 10), nudgeRate = Fin (5 / 100), nudgeExitS = Fin (6 / 100),
      nudgeStuckMs = 15000, pausedReconcileS = Fin (25 / 100)\<rparr>"

record ctrl_status =
  st_state :: ctrl_state
  st_lastDriftS :: jsnum
  st_seekLeadS :: jsnum
  st_seeksIssued :: nat
  st_nudgesIssued :: nat

text \<open>The type 1 | -1 | 0 of nudgeSign.\<close>

datatype nudge_sign = SignPos | SignNeg | SignZero

record drift_controller =
  dc_tuning :: ctrl_tuning
  dc_state :: ctrl_state
  driftWindow :: "jsnum list"
  outOfBandCount :: nat
  lastSeekAt :: jsnum
  seekTargetS :: "jsnum option"
  stableEvals :: nat
  nudgeSince :: "jsnum option"
  rateApplied :: bool
  nudgeSign :: nudge_sign
  seekLead :: jsnum
  seeksIssued :: nat
  nudgesIssued :: nat
  dc_lastDrift :: jsnum

definition new_drift :: "ctrl_tuning \<Rightarrow> drift_controller" where
  "new_drift tu =
     \<lparr>dc_tuning = tu, dc_state = LOCKED, driftWindow = [], outOfBandCount = 0, lastSeekAt = NInf,
      seekTargetS = None, stableEvals = 0, nudgeSince = None, rateApplied = False,
      nudgeSign = SignZero, seekLead = seekLeadS tu, seeksIssued = 0, nudgesIssued = 0,
      dc_lastDrift = 0\<rparr>"

subsection \<open>Operations\<close>

definition drift_suspend :: "drift_controller \<Rightarrow> drift_controller" where
  "drift_suspend c =
     c\<lparr>dc_state := SUSPENDED, driftWindow := [], outOfBandCount := 0, rateApplied := False,
       nudgeSign := SignZero, nudgeSince := None, seekTargetS := None, stableEvals := 0\<rparr>"

definition drift_resume :: "drift_controller \<Rightarrow> drift_controller" where
  "drift_resume c =
     c\<lparr>dc_state := LOCKED, driftWindow := [], outOfBandCount := sustainEvals (dc_tuning c)\<rparr>"

definition drift_getStatus :: "drift_controller \<Rightarrow> ctrl_status" where
  "drift_getStatus c =
     \<lparr>st_state = dc_state c, st_lastDriftS = dc_lastDrift c, st_seekLeadS = seekLead c,
      st_seeksIssued = seeksIssued c, st_nudgesIssued = nudgesIssued c\<rparr>"

definition issueSeek :: "drift_controller \<Rightarrow> controller_input \<Rightarrow> timeline \<Rightarrow> drift_controller \<times> ctrl_action" where
  "issueSeek c inp tml =
     (let lead = (if isPlaying tml then seekLead c else 0);
          target = projectMediaTime tml (ci_serverNow inp) + lead in
      (c\<lparr>dc_state := SEEKING, lastSeekAt := ci_tLocal inp, stableEvals := 0, outOfBandCount := 0,
         driftWindow := [], seeksIssued := seeksIssued c + 1, rateApplied := False,
         nudgeSign := SignZero, seekTargetS := Some target\<rparr>,
       ActSeek (math_max 0 target)))"

text \<open>\<^verbatim>\<open>if (this.seekTargetS !== null) { this.seekLead = ...; this.seekTargetS = null; }\<close>\<close>

definition learn_lead :: "drift_controller \<Rightarrow> jsnum \<Rightarrow> drift_controller" where
  "learn_lead c residual = (case seekTargetS c of
     None \<Rightarrow> c
   | Some _ \<Rightarrow> c\<lparr>seekLead := math_min (seekLeadMaxS (dc_tuning c)) (math_max 0 (seekLead c - residual * Fin (5 / 10))),
                 seekTargetS := None\<rparr>)"

text \<open>The branch for buffering: a seek in progress is kept, an applied nudge is cleared.\<close>

definition eval_buffering :: "drift_controller \<Rightarrow> drift_controller \<times> ctrl_action" where
  "eval_buffering c =
     (let c1 = (if dc_state c \<noteq> SEEKING then c\<lparr>dc_state := BUFFERING\<rparr> else c) in
      if rateApplied c1
      then (c1\<lparr>rateApplied := False, nudgeSign := SignZero, nudgeSince := None\<rparr>, ActClearRate)
      else (c1, ActNone))"

text \<open>The branch for a paused room.\<close>

definition eval_paused_room :: "drift_controller \<Rightarrow> controller_input \<Rightarrow> timeline \<Rightarrow> drift_controller \<times> ctrl_action" where
  "eval_paused_room c inp tml =
     (if ci_playerState inp = Playing then (c, ActPause)
      else (let c1 = c\<lparr>dc_state := PAUSED_SYNC\<rparr>;
                err = abs (ci_playerTime inp - mediaTime tml) in
            if pausedReconcileS (dc_tuning c1) < err \<and>
               seekSpacingMs (dc_tuning c1) < ci_tLocal inp - lastSeekAt c1
            then (c1\<lparr>lastSeekAt := ci_tLocal inp, seeksIssued := seeksIssued c1 + 1\<rparr>, ActSeek (mediaTime tml))
            else (c1, ActNone)))"

text \<open>The branch for a playing room whose player is paused or cued: a commanded start.\<close>

definition eval_start :: "drift_controller \<Rightarrow> controller_input \<Rightarrow> drift_controller \<times> ctrl_action" where
  "eval_start c inp =
     (c\<lparr>dc_state := SEEKING, lastSeekAt := ci_tLocal inp, seekTargetS := None, stableEvals := 0,
        driftWindow := []\<rparr>, ActPlay)"

text \<open>The post-seek branch, with the filtered drift.\<close>

definition eval_seeking ::
  "drift_controller \<Rightarrow> controller_input \<Rightarrow> timeline \<Rightarrow> jsnum \<Rightarrow> drift_controller \<times> ctrl_action" where
  "eval_seeking c inp tml drift =
     (let sinceSeek = ci_tLocal inp - lastSeekAt c; tu = dc_tuning c in
      if sinceSeek < seekCooldownMs tu then (c, ActNone)
      else if abs drift \<le> deadbandS tu then
        (let c1 = c\<lparr>stableEvals := stableEvals c + 1\<rparr> in
         if postSeekStableEvals tu \<le> stableEvals c1
         then ((learn_lead c1 drift)\<lparr>dc_state := LOCKED, stableEvals := 0\<rparr>, ActNone)
         else (c1, ActNone))
      else
        (let c1 = c\<lparr>stableEvals := 0\<rparr> in
         if sinceSeek < seekSpacingMs tu then (c1, ActNone)
         else issueSeek (learn_lead c1 drift) inp tml))"

definition nudge_rate :: "ctrl_tuning \<Rightarrow> nudge_sign \<Rightarrow> jsnum" where
  "nudge_rate tu s = (if s = SignPos then 1 - nudgeRate tu else 1 + nudgeRate tu)"

text \<open>The rate branch: enter nudging, re-aim it, escalate a stuck one, or keep it.\<close>

definition eval_rate ::
  "drift_controller \<Rightarrow> controller_input \<Rightarrow> timeline \<Rightarrow> jsnum \<Rightarrow> drift_controller \<times> ctrl_action" where
  "eval_rate c inp tml drift =
     (let tu = dc_tuning c; wantSign = (if 0 < drift then SignPos else SignNeg) in
      if dc_state c \<noteq> NUDGING then
        (c\<lparr>dc_state := NUDGING, nudgeSince := Some (ci_tLocal inp), rateApplied := True,
           nudgeSign := wantSign, nudgesIssued := nudgesIssued c + 1\<rparr>,
         ActSetRate (nudge_rate tu wantSign))
      else if wantSign \<noteq> nudgeSign c then
        (c\<lparr>nudgeSign := wantSign, nudgeSince := Some (ci_tLocal inp), nudgesIssued := nudgesIssued c + 1\<rparr>,
         ActSetRate (nudge_rate tu wantSign))
      else (case nudgeSince c of
          Some since \<Rightarrow>
            if nudgeStuckMs tu < ci_tLocal inp - since
            then issueSeek (c\<lparr>nudgeSince := None, rateApplied := False, nudgeSign := SignZero\<rparr>) inp tml
            else (c, ActNone)
        | None \<Rightarrow> (c, ActNone)))"

text \<open>The branch inside the deadband.\<close>

definition eval_in_band :: "drift_controller \<Rightarrow> jsnum \<Rightarrow> drift_controller \<times> ctrl_action" where
  "eval_in_band c absDrift =
     (let c1 = c\<lparr>outOfBandCount := 0\<rparr> in
      if dc_state c1 = NUDGING \<and> absDrift \<le> nudgeExitS (dc_tuning c1)
      then (c1\<lparr>dc_state := LOCKED, nudgeSince := None, rateApplied := False, nudgeSign := SignZero\<rparr>, ActClearRate)
      else (if dc_state c1 \<noteq> NUDGING then c1\<lparr>dc_state := LOCKED\<rparr> else c1, ActNone))"

text \<open>The branch outside the deadband; \<open>waived\<close> is the source's wasBuffering.\<close>

definition eval_out_of_band ::
  "drift_controller \<Rightarrow> controller_input \<Rightarrow> timeline \<Rightarrow> jsnum \<Rightarrow> bool \<Rightarrow> drift_controller \<times> ctrl_action" where
  "eval_out_of_band c inp tml drift waived =
     (let c1 = c\<lparr>outOfBandCount := outOfBandCount c + 1\<rparr>; tu = dc_tuning c; absDrift = abs drift in
      if outOfBandCount c1 < sustainEvals tu \<and> \<not> waived then (c1, ActNone)
      else if ci_fractionalRateOK inp \<and> absDrift \<le> rateZoneMaxS tu then eval_rate c1 inp tml drift
      else if seekThresholdS tu \<le> absDrift \<or> waived then
        (if ci_tLocal inp - lastSeekAt c1 < seekSpacingMs tu then (c1, ActNone)
         else issueSeek c1 inp tml)
      else (if dc_state c1 \<noteq> NUDGING then c1\<lparr>dc_state := LOCKED\<rparr> else c1, ActNone))"

text \<open>\<^verbatim>\<open>this.driftWindow.push(rawDrift); if (this.driftWindow.length > 3) this.driftWindow.shift();\<close>\<close>

definition push_window :: "jsnum list \<Rightarrow> jsnum \<Rightarrow> jsnum list" where
  "push_window w x = (let w1 = w @ [x] in if 3 < length w1 then tl w1 else w1)"

text \<open>A playing room on a playing player: measure the drift and dispatch.\<close>

definition eval_playing :: "drift_controller \<Rightarrow> controller_input \<Rightarrow> timeline \<Rightarrow> drift_controller \<times> ctrl_action" where
  "eval_playing c inp tml =
     (let wasBuffering = (dc_state c = BUFFERING);
          c1 = (if wasBuffering then c\<lparr>dc_state := LOCKED\<rparr> else c);
          rawDrift = ci_playerTime inp - projectMediaTime tml (ci_serverNow inp);
          window = push_window (driftWindow c1) rawDrift;
          drift = js_median window;
          c2 = c1\<lparr>driftWindow := window, dc_lastDrift := drift\<rparr> in
      if dc_state c2 = SEEKING then eval_seeking c2 inp tml drift
      else if instantSeekS (dc_tuning c2) < abs rawDrift then issueSeek c2 inp tml
      else if abs drift \<le> deadbandS (dc_tuning c2) then eval_in_band c2 (abs drift)
      else eval_out_of_band c2 inp tml drift wasBuffering)"

definition drift_evaluate :: "drift_controller \<Rightarrow> controller_input \<Rightarrow> drift_controller \<times> ctrl_action" where
  "drift_evaluate c inp = (case ci_timeline inp of
     None \<Rightarrow> (c, ActNone)
   | Some tml \<Rightarrow>
       if dc_state c = SUSPENDED then (c, ActNone)
       else if ci_playerState inp = Buffering then eval_buffering c
       else if \<not> isPlaying tml then eval_paused_room c inp tml
       else if ci_playerState inp \<in> {Paused, Cued} then eval_start c inp
       else if ci_playerState inp \<noteq> Playing then (c, ActNone)
       else eval_playing c inp tml)"

lemmas eval_branches [ctrl_simps] =
  eval_buffering_def eval_paused_room_def eval_start_def eval_seeking_def eval_rate_def
  eval_in_band_def eval_out_of_band_def Let_def

subsection \<open>The invariant\<close>

text \<open>Observations with finite numbers and a finite timeline at a non-negative position.\<close>

definition input_ok :: "controller_input \<Rightarrow> bool" where
  "input_ok inp =
     (is_fin (ci_tLocal inp) \<and> is_fin (ci_serverNow inp) \<and> is_fin (ci_playerTime inp) \<and>
      (case ci_timeline inp of None \<Rightarrow> True | Some tml \<Rightarrow> tl_fin tml \<and> 0 \<le> mediaTime tml))"

definition tuning_ok :: "ctrl_tuning \<Rightarrow> bool" where
  "tuning_ok tu =
     (is_fin (seekLeadS tu) \<and> is_fin (seekLeadMaxS tu) \<and> is_fin (nudgeRate tu) \<and>
      0 \<le> seekLeadS tu \<and> seekLeadS tu \<le> seekLeadMaxS tu)"

definition ctrl_inv :: "ctrl_tuning \<Rightarrow> drift_controller \<Rightarrow> bool" where
  "ctrl_inv tu c =
     (dc_tuning c = tu \<and> is_fin (seekLead c) \<and> 0 \<le> seekLead c \<and> seekLead c \<le> seekLeadMaxS tu \<and>
      length (driftWindow c) \<le> 3 \<and> list_all is_fin (driftWindow c) \<and> is_fin (dc_lastDrift c))"

text \<open>The actions the executor can be handed: seeks to non-negative positions, nudges of nudgeRate.\<close>

definition act_ok :: "ctrl_tuning \<Rightarrow> ctrl_action \<Rightarrow> bool" where
  "act_ok tu a = (case a of
     ActSeek x \<Rightarrow> is_fin x \<and> 0 \<le> x
   | ActSetRate r \<Rightarrow> r \<in> {1 - nudgeRate tu, 1 + nudgeRate tu}
   | _ \<Rightarrow> True)"

definition step_ok :: "ctrl_tuning \<Rightarrow> drift_controller \<times> ctrl_action \<Rightarrow> bool" where
  "step_ok tu p = (ctrl_inv tu (fst p) \<and> act_ok tu (snd p))"

lemma act_ok_simps [simp]:
  "act_ok tu ActNone" "act_ok tu ActClearRate" "act_ok tu ActPlay" "act_ok tu ActPause"
  "act_ok tu (ActSetRate (nudge_rate tu s))" "act_ok tu (ActSeek x) = (is_fin x \<and> 0 \<le> x)"
  by (simp_all add: act_ok_def nudge_rate_def)

lemma step_ok_pair [simp]: "step_ok tu (c, a) = (ctrl_inv tu c \<and> act_ok tu a)"
  by (simp add: step_ok_def)

lemma tuning_ok_default: "tuning_ok DEFAULT_CONTROLLER_TUNING"
  by (simp add: tuning_ok_def DEFAULT_CONTROLLER_TUNING_def)

lemma ctrl_inv_new: "tuning_ok tu \<Longrightarrow> ctrl_inv tu (new_drift tu)"
  by (simp add: tuning_ok_def ctrl_inv_def new_drift_def)

lemma ctrl_inv_suspend: "ctrl_inv tu c \<Longrightarrow> ctrl_inv tu (drift_suspend c)"
  by (simp add: ctrl_inv_def drift_suspend_def)

lemma ctrl_inv_resume: "ctrl_inv tu c \<Longrightarrow> ctrl_inv tu (drift_resume c)"
  by (simp add: ctrl_inv_def drift_resume_def)

text \<open>The fields the invariant does not read.\<close>

lemma ctrl_inv_updates [simp]:
  "ctrl_inv tu (c\<lparr>dc_state := s\<rparr>) = ctrl_inv tu c" "ctrl_inv tu (c\<lparr>outOfBandCount := n\<rparr>) = ctrl_inv tu c"
  "ctrl_inv tu (c\<lparr>lastSeekAt := t\<rparr>) = ctrl_inv tu c" "ctrl_inv tu (c\<lparr>stableEvals := n\<rparr>) = ctrl_inv tu c"
  "ctrl_inv tu (c\<lparr>nudgeSince := x\<rparr>) = ctrl_inv tu c" "ctrl_inv tu (c\<lparr>rateApplied := b\<rparr>) = ctrl_inv tu c"
  "ctrl_inv tu (c\<lparr>nudgeSign := g\<rparr>) = ctrl_inv tu c" "ctrl_inv tu (c\<lparr>seeksIssued := n\<rparr>) = ctrl_inv tu c"
  "ctrl_inv tu (c\<lparr>nudgesIssued := n\<rparr>) = ctrl_inv tu c" "ctrl_inv tu (c\<lparr>seekTargetS := x\<rparr>) = ctrl_inv tu c"
  by (simp_all add: ctrl_inv_def)

lemma ctrl_inv_clear_window: "ctrl_inv tu c \<Longrightarrow> ctrl_inv tu (c\<lparr>driftWindow := []\<rparr>)"
  by (simp add: ctrl_inv_def)

lemma ctrl_inv_tuning: "ctrl_inv tu c \<Longrightarrow> dc_tuning c = tu"
  by (simp add: ctrl_inv_def)

lemma input_okE:
  assumes "input_ok inp" "ci_timeline inp = Some tml"
  obtains t n p m where "ci_tLocal inp = Fin t" "ci_serverNow inp = Fin n" "ci_playerTime inp = Fin p"
    "projectMediaTime tml (Fin n) = Fin m" "tl_fin tml" "0 \<le> mediaTime tml"
  using assms projectMediaTime_fin by (fastforce simp: input_ok_def is_fin_iff)

lemma issueSeek_ok:
  assumes "ctrl_inv tu c" "input_ok inp" "ci_timeline inp = Some tml"
  shows "step_ok tu (issueSeek c inp tml)"
  using assms(1)
  by (rule_tac input_okE [OF assms(2,3)]) (auto simp: issueSeek_def Let_def ctrl_inv_def is_fin_iff)

lemma learn_lead_ok:
  assumes "tuning_ok tu" "ctrl_inv tu c" "is_fin d"
  shows "ctrl_inv tu (learn_lead c d)"
  using assms by (auto simp: learn_lead_def ctrl_inv_def tuning_ok_def is_fin_iff split: option.splits)

lemma eval_seeking_ok:
  assumes "tuning_ok tu" "ctrl_inv tu c" "input_ok inp" "ci_timeline inp = Some tml" "is_fin d"
  shows "step_ok tu (eval_seeking c inp tml d)"
  using assms learn_lead_ok issueSeek_ok by (auto simp: eval_seeking_def Let_def)

lemma eval_rate_ok:
  assumes "ctrl_inv tu c" "input_ok inp" "ci_timeline inp = Some tml"
  shows "step_ok tu (eval_rate c inp tml d)"
  using assms issueSeek_ok ctrl_inv_tuning [OF assms(1)]
  by (auto simp: eval_rate_def Let_def split: option.splits)

lemma eval_out_of_band_ok:
  assumes "ctrl_inv tu c" "input_ok inp" "ci_timeline inp = Some tml"
  shows "step_ok tu (eval_out_of_band c inp tml d w)"
  using assms issueSeek_ok eval_rate_ok by (auto simp: eval_out_of_band_def Let_def)

lemma eval_in_band_ok: "ctrl_inv tu c \<Longrightarrow> step_ok tu (eval_in_band c a)"
  by (auto simp: eval_in_band_def Let_def)

lemma push_window_ok:
  assumes "length w \<le> 3" "list_all is_fin w" "is_fin x"
  shows "length (push_window w x) \<le> 3" "list_all is_fin (push_window w x)" "push_window w x \<noteq> []"
  using assms by (auto simp: push_window_def Let_def list_all_iff tl_append split: list.splits)

lemma eval_playing_ok:
  assumes "tuning_ok tu" "ctrl_inv tu c" "input_ok inp" "ci_timeline inp = Some tml"
  shows "step_ok tu (eval_playing c inp tml)"
proof -
  define raw where "raw = ci_playerTime inp - projectMediaTime tml (ci_serverNow inp)"
  define w where "w = push_window (driftWindow c) raw"
  define c1 where "c1 = (if dc_state c = BUFFERING then c\<lparr>dc_state := LOCKED\<rparr> else c)"
  define c2 where "c2 = c1\<lparr>driftWindow := w, dc_lastDrift := js_median w\<rparr>"
  have "is_fin raw" by (rule input_okE [OF assms(3,4)]) (simp add: raw_def)
  then have w: "length w \<le> 3" "list_all is_fin w" "w \<noteq> []"
    using assms(2) push_window_ok by (simp_all add: w_def ctrl_inv_def)
  then have fin: "is_fin (js_median w)" using js_median_mem by (auto simp: list_all_iff)
  have "ctrl_inv tu c2" using assms(2) w fin by (simp add: c2_def c1_def ctrl_inv_def)
  moreover have "eval_playing c inp tml =
      (if dc_state c2 = SEEKING then eval_seeking c2 inp tml (js_median w)
       else if instantSeekS (dc_tuning c2) < abs raw then issueSeek c2 inp tml
       else if abs (js_median w) \<le> deadbandS (dc_tuning c2) then eval_in_band c2 (abs (js_median w))
       else eval_out_of_band c2 inp tml (js_median w) (dc_state c = BUFFERING))"
    by (simp add: eval_playing_def Let_def raw_def w_def c1_def c2_def)
  ultimately show ?thesis
    using assms fin eval_seeking_ok issueSeek_ok eval_in_band_ok eval_out_of_band_ok by simp
qed

lemma drift_evaluate_ok:
  assumes "tuning_ok tu" "ctrl_inv tu c" "input_ok inp"
  shows "step_ok tu (drift_evaluate c inp)"
proof (cases "ci_timeline inp")
  case None
  then show ?thesis using assms by (simp add: drift_evaluate_def)
next
  case (Some tml)
  note playing = eval_playing_ok [OF assms Some]
  have "step_ok tu (eval_buffering c)" "step_ok tu (eval_start c inp)"
    using assms(2) by (auto simp: eval_buffering_def eval_start_def Let_def ctrl_inv_clear_window)
  moreover have "step_ok tu (eval_paused_room c inp tml)"
    using assms(2)
    by (rule_tac input_okE [OF assms(3) Some]) (auto simp: eval_paused_room_def Let_def tl_fin_def)
  ultimately show ?thesis using assms(2) playing by (simp add: drift_evaluate_def Some)
qed

text \<open>Runs: any sequence of the three operations that change the controller.\<close>

datatype drift_op = Evaluate controller_input | SuspendOp | ResumeOp

fun drift_run :: "drift_controller \<Rightarrow> drift_op list \<Rightarrow> drift_controller \<times> ctrl_action list" where
  "drift_run c [] = (c, [])"
| "drift_run c (Evaluate inp # ops) =
     (let (c1, a) = drift_evaluate c inp; (c2, as) = drift_run c1 ops in (c2, a # as))"
| "drift_run c (SuspendOp # ops) = drift_run (drift_suspend c) ops"
| "drift_run c (ResumeOp # ops) = drift_run (drift_resume c) ops"

definition op_ok :: "drift_op \<Rightarrow> bool" where
  "op_ok op = (case op of Evaluate inp \<Rightarrow> input_ok inp | _ \<Rightarrow> True)"

lemma drift_run_ok:
  assumes "tuning_ok tu" "ctrl_inv tu c" "list_all op_ok ops"
  shows "ctrl_inv tu (fst (drift_run c ops)) \<and> list_all (act_ok tu) (snd (drift_run c ops))"
  using assms(2,3)
proof (induction c ops rule: drift_run.induct)
  case (2 c inp ops)
  obtain c1 a where e: "drift_evaluate c inp = (c1, a)" by fastforce
  have "ctrl_inv tu c1" "act_ok tu a"
    using drift_evaluate_ok [OF assms(1) 2(2), of inp] 2(3) e by (simp_all add: op_ok_def)
  with 2 e show ?case by (auto split: prod.splits)
qed (simp_all add: ctrl_inv_suspend ctrl_inv_resume)

subsection \<open>Seek targets and the learned lead\<close>

text \<open>
  Whatever the player and the room report, and however evaluations interleave with suspend and
  resume, the learned seek lead stays between 0 and 1.2 s, the median window holds at most three
  readings, every seek goes to a finite non-negative position, and every commanded rate is 0.95 or
  1.05.
\<close>

theorem drift_run_bounds:
  assumes "list_all op_ok ops" and "drift_run (new_drift DEFAULT_CONTROLLER_TUNING) ops = (c, as)"
  shows "(\<exists>l. seekLead c = Fin l \<and> 0 \<le> l \<and> l \<le> 12 / 10) \<and> length (driftWindow c) \<le> 3 \<and>
    (\<forall>x. ActSeek x \<in> set as \<longrightarrow> (\<exists>m. x = Fin m \<and> 0 \<le> m)) \<and>
    (\<forall>r. ActSetRate r \<in> set as \<longrightarrow> r \<in> {Fin (95 / 100), Fin (105 / 100)})"
proof (intro conjI allI impI)
  note ok = drift_run_ok [OF tuning_ok_default ctrl_inv_new [OF tuning_ok_default] assms(1)]
  then have inv: "ctrl_inv DEFAULT_CONTROLLER_TUNING c" and acts: "list_all (act_ok DEFAULT_CONTROLLER_TUNING) as"
    using assms(2) by simp_all
  from inv show "\<exists>l. seekLead c = Fin l \<and> 0 \<le> l \<and> l \<le> 12 / 10" "length (driftWindow c) \<le> 3"
    by (auto simp: ctrl_inv_def is_fin_iff DEFAULT_CONTROLLER_TUNING_def)
  show "\<exists>m. x = Fin m \<and> 0 \<le> m" if "ActSeek x \<in> set as" for x
    using acts that by (auto simp: list_all_iff is_fin_iff dest!: bspec)
  show "r \<in> {Fin (95 / 100), Fin (105 / 100)}" if "ActSetRate r \<in> set as" for r
    using acts that by (auto simp: list_all_iff act_ok_def DEFAULT_CONTROLLER_TUNING_def dest!: bspec)
qed

definition demo_room :: timeline where
  "demo_room = \<lparr>seq = 1, storeEpoch = ''1'', videoId = Some ''v'', isPlaying = True, mediaTime = Fin 0,
     stampedAt = Fin 0, rate = 1, reason_of = ''play'', by_user = None\<rparr>"

text \<open>A tick of a playing player \<open>d\<close> seconds ahead of the demonstration room.\<close>

definition demo_tick :: "real \<Rightarrow> real \<Rightarrow> bool \<Rightarrow> controller_input" where
  "demo_tick t d fr = \<lparr>ci_tLocal = Fin t, ci_serverNow = Fin t, ci_playerTime = Fin (t / 1000 + d),
     ci_playerState = Playing, ci_timeline = Some demo_room, ci_fractionalRateOK = fr\<rparr>"

lemmas demo_ctrl_simps = demo_room_def demo_tick_def drift_evaluate_def eval_playing_def eval_branches
  issueSeek_def learn_lead_def projectMediaTime_def push_window_def js_median_def new_drift_def
  DEFAULT_CONTROLLER_TUNING_def nudge_rate_def drift_suspend_def drift_resume_def

theorem drift_run_bounds_witness:
  "\<exists>c as. drift_run (new_drift DEFAULT_CONTROLLER_TUNING) [Evaluate (demo_tick 4000 10 False)] = (c, as) \<and>
     ActSeek (Fin (43 / 10)) \<in> set as \<and> length (driftWindow c) \<le> 3"
proof -
  have ok: "list_all op_ok [Evaluate (demo_tick 4000 10 False)]"
    by (simp add: op_ok_def input_ok_def demo_tick_def demo_room_def tl_fin_def)
  obtain c as where r: "drift_run (new_drift DEFAULT_CONTROLLER_TUNING) [Evaluate (demo_tick 4000 10 False)] = (c, as)"
    by fastforce
  have "as = [ActSeek (Fin (43 / 10))]" using r by (simp add: demo_ctrl_simps)
  then show ?thesis using r drift_run_bounds [OF ok r] by simp
qed

subsection \<open>Quiet after a seek\<close>

definition quiet_after :: "real \<Rightarrow> drift_controller \<Rightarrow> bool" where
  "quiet_after t0 c =
     (dc_state c = SEEKING \<and> lastSeekAt c = Fin t0 \<and> \<not> rateApplied c \<and> seekCooldownMs (dc_tuning c) = 1500)"

text \<open>A playing room whose player keeps running: not paused or cued by someone outside the engine.\<close>

definition running :: "controller_input \<Rightarrow> bool" where
  "running inp = (ci_playerState inp \<notin> {Paused, Cued} \<and>
     (\<exists>tml. ci_timeline inp = Some tml \<and> isPlaying tml))"

lemma issueSeek_quiet:
  "ci_tLocal inp = Fin t \<Longrightarrow> seekCooldownMs (dc_tuning c) = 1500 \<Longrightarrow> quiet_after t (fst (issueSeek c inp tml))"
  by (simp add: issueSeek_def quiet_after_def Let_def)

lemma quiet_step:
  assumes "quiet_after t0 c" "running inp" "ci_tLocal inp = Fin t" "t < t0 + 1500"
  shows "\<exists>c'. drift_evaluate c inp = (c', ActNone) \<and> quiet_after t0 c'"
  using assms
  by (auto simp: running_def drift_evaluate_def eval_buffering_def eval_playing_def eval_seeking_def
      quiet_after_def Let_def)

lemma quiet_run:
  assumes "quiet_after t0 c"
    "\<forall>inp\<in>set is. running inp \<and> (\<exists>t. ci_tLocal inp = Fin t \<and> t < t0 + 1500)"
  shows "snd (drift_run c (map Evaluate is)) = replicate (length is) ActNone \<and>
    quiet_after t0 (fst (drift_run c (map Evaluate is)))"
  using assms
proof (induction "is" arbitrary: c)
  case (Cons inp rest)
  then obtain c' where "drift_evaluate c inp = (c', ActNone)" "quiet_after t0 c'"
    using quiet_step by (metis list.set_intros(1))
  moreover from this have "snd (drift_run c' (map Evaluate rest)) = replicate (length rest) ActNone \<and>
      quiet_after t0 (fst (drift_run c' (map Evaluate rest)))"
    using Cons by simp
  ultimately show ?case by (auto split: prod.splits)
qed simp

text \<open>Which branches can seek in a playing room: all of them through \<open>issueSeek\<close>.\<close>

lemma playing_seek_quiet:
  assumes "drift_evaluate c inp = (c1, ActSeek x)" "running inp" "ci_tLocal inp = Fin t"
    "seekCooldownMs (dc_tuning c) = 1500"
  shows "quiet_after t c1"
proof -
  have *: "quiet_after t c1" if "issueSeek c' inp tml = (c1, ActSeek x)" "seekCooldownMs (dc_tuning c') = 1500" for c' tml
    using issueSeek_quiet [OF assms(3) that(2), of tml] that(1) by simp
  have **: "dc_tuning (learn_lead c' d) = dc_tuning c'" for c' d
    by (simp add: learn_lead_def split: option.splits)
  show ?thesis
    using assms
    by (auto simp: drift_evaluate_def running_def eval_playing_def eval_branches ** dest!: *
        split: if_splits option.splits)
qed

text \<open>
  After a corrective seek in a playing room the controller issues no action at all for 1.5 s: as
  long as the room keeps playing and the player keeps running or buffering, every evaluation within
  the cooldown answers none, so the settling of a seek is never mistaken for drift.
\<close>

theorem no_action_during_seek_cooldown:
  assumes "drift_evaluate c inp = (c1, ActSeek x)" "running inp" "ci_tLocal inp = Fin t0"
    "dc_tuning c = DEFAULT_CONTROLLER_TUNING"
    "\<forall>i\<in>set is. running i \<and> (\<exists>t. ci_tLocal i = Fin t \<and> t < t0 + 1500)"
  shows "snd (drift_run c1 (map Evaluate is)) = replicate (length is) ActNone \<and>
    dc_state (fst (drift_run c1 (map Evaluate is))) = SEEKING"
proof -
  have "quiet_after t0 c1"
    by (rule playing_seek_quiet [OF assms(1-3)]) (simp add: assms(4) DEFAULT_CONTROLLER_TUNING_def)
  from quiet_run [OF this assms(5)] show ?thesis by (simp add: quiet_after_def)
qed

theorem no_action_during_seek_cooldown_witness:
  "\<exists>c1. drift_evaluate (new_drift DEFAULT_CONTROLLER_TUNING) (demo_tick 4000 10 False) = (c1, ActSeek (Fin (43 / 10))) \<and>
     snd (drift_run c1 (map Evaluate [demo_tick 4250 (- 1) False, demo_tick 5400 7 False])) = [ActNone, ActNone]"
proof -
  define c1 where "c1 = fst (drift_evaluate (new_drift DEFAULT_CONTROLLER_TUNING) (demo_tick 4000 10 False))"
  have e: "drift_evaluate (new_drift DEFAULT_CONTROLLER_TUNING) (demo_tick 4000 10 False) = (c1, ActSeek (Fin (43 / 10)))"
    by (simp add: c1_def demo_ctrl_simps)
  have run: "running (demo_tick t d b)" for t d b by (simp add: running_def demo_tick_def demo_room_def)
  have "\<forall>i\<in>set [demo_tick 4250 (- 1) False, demo_tick 5400 7 False].
      running i \<and> (\<exists>t. ci_tLocal i = Fin t \<and> t < 4000 + 1500)"
    by (simp add: running_def demo_tick_def demo_room_def)
  from no_action_during_seek_cooldown [OF e run _ _ this] show ?thesis
    using e by (simp add: demo_tick_def new_drift_def numeral_2_eq_2)
qed

subsection \<open>A sustained error is corrected\<close>

definition raw_drift :: "controller_input \<Rightarrow> timeline \<Rightarrow> jsnum" where
  "raw_drift inp tml = ci_playerTime inp - projectMediaTime tml (ci_serverNow inp)"

text \<open>
  One observation of a playing room and player whose unfiltered drift is \<open>d\<close>, at least the minimum
  spacing after the last seek, on a player without fractional rates.
\<close>

definition seekable_reading :: "drift_controller \<Rightarrow> real \<Rightarrow> controller_input \<Rightarrow> bool" where
  "seekable_reading c d inp =
     (\<exists>tml. ci_timeline inp = Some tml \<and> isPlaying tml \<and> ci_playerState inp = Playing \<and>
        \<not> ci_fractionalRateOK inp \<and> raw_drift inp tml = Fin d \<and>
        \<not> ci_tLocal inp - lastSeekAt c < 3000)"

text \<open>The window of finite readings after one more, and its middle element.\<close>

definition slide :: "real list \<Rightarrow> real \<Rightarrow> real list" where
  "slide w d = (if length w \<le> 2 then w @ [d] else tl w @ [d])"

definition mid :: "real list \<Rightarrow> real" where
  "mid w = sort w ! (length w div 2)"

lemma push_window_Fin: "push_window (map Fin w) (Fin d) = map Fin (slide w d)"
  by (cases w) (auto simp: push_window_def slide_def Let_def)

lemma js_median_mid: "js_median (map Fin (slide w d)) = Fin (mid (slide w d))"
  by (simp add: js_median_Fin mid_def slide_def)

text \<open>One evaluation in LOCKED, for readings \<open>w\<close> in the window.\<close>

lemma locked_step:
  assumes "dc_tuning c = DEFAULT_CONTROLLER_TUNING" "dc_state c = LOCKED" "driftWindow c = map Fin w"
    "seekable_reading c d inp" "drift_evaluate c inp = (c', a)"
    "m = mid (slide w d)"
  shows "(\<exists>x. a = ActSeek x) \<or>
    dc_tuning c' = DEFAULT_CONTROLLER_TUNING \<and> dc_state c' = LOCKED \<and> driftWindow c' = map Fin (slide w d) \<and>
    lastSeekAt c' = lastSeekAt c \<and> a = ActNone \<and>
    outOfBandCount c' = (if \<bar>m\<bar> \<le> 12 / 100 then 0 else outOfBandCount c + 1) \<and>
    (15 / 100 \<le> \<bar>m\<bar> \<longrightarrow> outOfBandCount c = 0)"
proof -
  obtain tml where t: "ci_timeline inp = Some tml" "isPlaying tml" "ci_playerState inp = Playing"
      "\<not> ci_fractionalRateOK inp" "ci_playerTime inp - projectMediaTime tml (ci_serverNow inp) = Fin d"
      "\<not> ci_tLocal inp - lastSeekAt c < Fin 3000"
    using assms(4) by (auto simp: seekable_reading_def raw_drift_def)
  show ?thesis
    using assms(1-3,5) t(6)
    by (auto simp: drift_evaluate_def t(1-5) eval_playing_def push_window_Fin js_median_mid assms(6)
        DEFAULT_CONTROLLER_TUNING_def eval_in_band_def eval_out_of_band_def issueSeek_def Let_def split: if_splits)
qed

text \<open>Two far readings of one sign carry the median of three (and of themselves) out with them.\<close>

definition far :: "real list \<Rightarrow> bool" where
  "far ds = (list_all (\<lambda>d. 15 / 100 \<le> d) ds \<or> list_all (\<lambda>d. d \<le> - 15 / 100) ds)"

lemma mid_far: "far [b, c] \<Longrightarrow> 15 / 100 \<le> \<bar>mid [b, c]\<bar>" "far [b, c] \<Longrightarrow> 15 / 100 \<le> \<bar>mid [a, b, c]\<bar>"
  by (auto simp: far_def mid_def numeral_3_eq_3)

lemma far_window:
  assumes "length w \<le> 3" "far [d, e]"
  shows "\<exists>v. slide (slide w d) e = v @ [d, e] \<and> length v \<le> 1"
proof -
  have "length w = 0 \<or> length w = 1 \<or> length w = 2 \<or> length w = 3" using assms(1) by arith
  then show ?thesis
    by (elim disjE; auto simp: length_Suc_conv numeral_2_eq_2 numeral_3_eq_3 slide_def)
qed

lemma length_slide: "length w \<le> 3 \<Longrightarrow> length (slide w d) \<le> 3"
  by (auto simp: slide_def)

lemma mid_far_window:
  assumes "length w \<le> 3" "far [d, e]"
  shows "15 / 100 \<le> \<bar>mid (slide (slide w d) e)\<bar>"
proof -
  obtain v where v: "slide (slide w d) e = v @ [d, e]" "length v \<le> 1" using far_window [OF assms] by blast
  have "v = [] \<or> (\<exists>a. v = [a])" using v(2) by (cases v) auto
  then show ?thesis using mid_far assms(2) v(1) by auto
qed

text \<open>
  A player that is off is corrected: from LOCKED, on a player without fractional rates, three
  consecutive readings that are at least 150 ms ahead (or all at least 150 ms behind), taken at
  least 3 s after the last seek, make the controller seek, whatever the window held before and
  without the median filter delaying it further.
\<close>

theorem sustained_drift_is_corrected:
  assumes "dc_tuning c = DEFAULT_CONTROLLER_TUNING" "dc_state c = LOCKED" "driftWindow c = map Fin w"
    "length w \<le> 3" "far [d1, d2, d3]"
    "seekable_reading c d1 i1" "seekable_reading c d2 i2" "seekable_reading c d3 i3"
  shows "\<exists>x. ActSeek x \<in> set (snd (drift_run c (map Evaluate [i1, i2, i3])))"
proof (rule ccontr)
  assume no: "\<nexists>x. ActSeek x \<in> set (snd (drift_run c (map Evaluate [i1, i2, i3])))"
  have "far [d1, d2]" "far [d2, d3]" using assms(5) by (auto simp: far_def)
  note w2 = mid_far_window [OF assms(4) this(1)] and w3 = mid_far_window [OF length_slide [OF assms(4)] this(2)]
  obtain c1 a1 where e1: "drift_evaluate c i1 = (c1, a1)" by fastforce
  obtain c2 a2 where e2: "drift_evaluate c1 i2 = (c2, a2)" by fastforce
  obtain c3 a3 where e3: "drift_evaluate c2 i3 = (c3, a3)" by fastforce
  have ns: "\<nexists>x. a1 = ActSeek x" "\<nexists>x. a2 = ActSeek x" "\<nexists>x. a3 = ActSeek x"
    using no by (auto simp: e1 e2 e3)
  note s1 = locked_step [OF assms(1-3,6) e1 refl]
  have s2: "dc_tuning c1 = DEFAULT_CONTROLLER_TUNING" "dc_state c1 = LOCKED" "driftWindow c1 = map Fin (slide w d1)"
      "seekable_reading c1 d2 i2" "lastSeekAt c1 = lastSeekAt c"
    using s1 ns(1) assms(7) by (auto simp: seekable_reading_def)
  note t2 = locked_step [OF s2(1-4) e2 refl]
  have s3: "dc_tuning c2 = DEFAULT_CONTROLLER_TUNING" "dc_state c2 = LOCKED"
      "driftWindow c2 = map Fin (slide (slide w d1) d2)" "seekable_reading c2 d3 i3" "outOfBandCount c2 \<noteq> 0"
    using t2 ns(2) assms(8) s2(5) w2 by (auto simp: seekable_reading_def)
  show False using locked_step [OF s3(1-4) e3 refl] ns(3) w3 s3(5) by auto
qed

theorem sustained_drift_is_corrected_witness:
  "\<exists>x. ActSeek x \<in> set (snd (drift_run (new_drift DEFAULT_CONTROLLER_TUNING)
     (map Evaluate [demo_tick 4000 (2 / 10) False, demo_tick 4250 (3 / 10) False, demo_tick 4500 (2 / 10) False])))"
proof -
  have "seekable_reading (new_drift DEFAULT_CONTROLLER_TUNING) d (demo_tick t d False)" for t d
    by (simp add: seekable_reading_def raw_drift_def demo_tick_def demo_room_def new_drift_def projectMediaTime_def)
  then show ?thesis
    by (intro sustained_drift_is_corrected [where w = "[]" and ?d1.0 = "2 / 10" and ?d2.0 = "3 / 10" and ?d3.0 = "2 / 10"])
      (simp_all add: new_drift_def far_def)
qed

subsection \<open>The closed loop of seeks and lead learning\<close>

text \<open>
  A player whose seeks land \<open>L\<close> seconds late: from \<open>L\<close> seconds after a seek to \<open>x\<close> it runs \<open>x - L\<close> ahead of where
  the room was. Until then it reports what it likes: that it is buffering, or any playhead. \<open>seek_loop\<close> feeds the
  controller what its own last seek produced, at given local times, on a clock \<open>off\<close> behind the server's; the state is
  the controller, the time of the last seek and the drift that seek leaves.
\<close>

datatype unsettled = Stalls | Reads real

definition settled_input :: "timeline \<Rightarrow> real \<Rightarrow> real \<Rightarrow> real \<Rightarrow> controller_input" where
  "settled_input tml off d t =
     \<lparr>ci_tLocal = Fin t, ci_serverNow = Fin (t + off),
      ci_playerTime = projectMediaTime tml (Fin (t + off)) + Fin d, ci_playerState = Playing,
      ci_timeline = Some tml, ci_fractionalRateOK = False\<rparr>"

definition loop_input :: "timeline \<Rightarrow> real \<Rightarrow> real \<Rightarrow> real \<Rightarrow> real \<Rightarrow> real \<times> unsettled \<Rightarrow> controller_input" where
  "loop_input tml off L s d tick = (case tick of (t, u) \<Rightarrow>
     if s + 1000 * L \<le> t then settled_input tml off d t
     else (case u of Stalls \<Rightarrow> (settled_input tml off 0 t)\<lparr>ci_playerState := Buffering\<rparr> | Reads x \<Rightarrow> settled_input tml off x t))"

fun seek_loop :: "timeline \<Rightarrow> real \<Rightarrow> real \<Rightarrow> drift_controller \<times> real \<times> real \<Rightarrow> (real \<times> unsettled) list \<Rightarrow> drift_controller \<times> real \<times> real" where
  "seek_loop tml off L (c, s, d) [] = (c, s, d)"
| "seek_loop tml off L (c, s, d) (tick # ticks) =
     (let (c1, a) = drift_evaluate c (loop_input tml off L s d tick) in
      seek_loop tml off L
        (case a of ActSeek x \<Rightarrow> (c1, fst tick, fin_val (x - projectMediaTime tml (Fin (fst tick + off))) - L) | _ \<Rightarrow> (c1, s, d)) ticks)"

text \<open>The engine's schedule: a tick every 250 ms, none more than 50 ms late.\<close>

fun ticks_on_time :: "real \<Rightarrow> (real \<times> unsettled) list \<Rightarrow> bool" where
  "ticks_on_time l [] = True"
| "ticks_on_time l ((t, u) # ticks) = (l < t \<and> t \<le> l + 300 \<and> ticks_on_time t ticks)"

definition playing_from :: "timeline \<Rightarrow> real \<Rightarrow> real \<Rightarrow> bool" where
  "playing_from tml off t0 =
     (isPlaying tml \<and> tl_fin tml \<and> 0 \<le> mediaTime tml \<and> stampedAt tml \<le> Fin (t0 + off))"

lemma playing_from_project:
  assumes "playing_from tml off t0" "t0 \<le> t"
  obtains m where "projectMediaTime tml (Fin (t + off)) = Fin m" "0 \<le> m"
proof -
  obtain m s where ms: "mediaTime tml = Fin m" "stampedAt tml = Fin s" "rate tml = 1"
    using assms(1) by (auto simp: playing_from_def elim: tl_finE)
  then show ?thesis
    using that [of "m + (t + off - s) / 1000"] assms projectMediaTime_Fin [OF ms, of "t + off"]
    by (simp add: playing_from_def)
qed

text \<open>Just after a seek with lead \<open>l\<close>.\<close>

definition after_seek :: "real \<Rightarrow> real \<Rightarrow> drift_controller \<Rightarrow> bool" where
  "after_seek t0 l c =
     (dc_tuning c = DEFAULT_CONTROLLER_TUNING \<and> dc_state c = SEEKING \<and> driftWindow c = [] \<and> \<not> rateApplied c \<and>
      lastSeekAt c = Fin t0 \<and> stableEvals c = 0 \<and> seekLead c = Fin l \<and> (\<exists>x. seekTargetS c = Some x))"

text \<open>The window's last reading, or its last two, are the settled drift.\<close>

definition ends_in :: "nat \<Rightarrow> real \<Rightarrow> drift_controller \<Rightarrow> bool" where
  "ends_in n d c \<longleftrightarrow> (\<exists>w v. driftWindow c = map Fin w \<and> length w \<le> 3 \<and> w = v @ replicate n d)"

lemma ends_in_slide:
  assumes "ends_in n d c" "n < 3"
  shows "\<exists>w v. driftWindow c = map Fin w \<and> slide w d = v @ replicate (Suc n) d \<and> length (slide w d) \<le> 3"
proof -
  obtain w v where w: "driftWindow c = map Fin w" "length w \<le> 3" "w = v @ replicate n d" using assms(1) by (auto simp: ends_in_def)
  have "slide w d = (if length w \<le> 2 then v else tl v) @ replicate (Suc n) d"
    using w(2,3) assms(2) by (cases v) (auto simp: slide_def replicate_append_same)
  then show ?thesis using w length_slide [OF w(2)] by blast
qed

lemma mid_two_alike: "length (v @ [d, d]) \<le> 3 \<Longrightarrow> mid (v @ [d, d]) = d"
  by (cases v) (auto simp: mid_def)

text \<open>One reading of a playing player, by the state of the controller.\<close>

lemma playing_reading:
  assumes "dc_tuning c = DEFAULT_CONTROLLER_TUNING" "playing_from tml off t0" "t0 \<le> t" "driftWindow c = map Fin w"
    and "c2 = c\<lparr>driftWindow := map Fin (slide w x), dc_lastDrift := Fin (mid (slide w x))\<rparr>"
  shows "dc_state c = SEEKING \<Longrightarrow> drift_evaluate c (settled_input tml off x t) =
      eval_seeking c2 (settled_input tml off x t) tml (Fin (mid (slide w x)))"
    and "dc_state c = LOCKED \<Longrightarrow> \<bar>x\<bar> \<le> 12 / 100 \<Longrightarrow> \<bar>mid (slide w x)\<bar> \<le> 12 / 100 \<Longrightarrow>
      drift_evaluate c (settled_input tml off x t) = (c2\<lparr>outOfBandCount := 0\<rparr>, ActNone)"
proof -
  obtain m where m: "projectMediaTime tml (Fin (t + off)) = Fin m" "0 \<le> m"
    using playing_from_project [OF assms(2,3)] by blast
  have p: "isPlaying tml" using assms(2) by (simp add: playing_from_def)
  have r: "Fin m + Fin x - Fin m = Fin x" by simp
  show "drift_evaluate c (settled_input tml off x t) = eval_seeking c2 (settled_input tml off x t) tml (Fin (mid (slide w x)))"
    if "dc_state c = SEEKING"
    using that p unfolding drift_evaluate_def settled_input_def eval_playing_def
    by (simp add: Let_def m(1) r assms(4,5) push_window_Fin js_median_mid del: plus_jsnum.simps minus_jsnum_def)
  show "drift_evaluate c (settled_input tml off x t) = (c2\<lparr>outOfBandCount := 0\<rparr>, ActNone)"
    if "dc_state c = LOCKED" "\<bar>x\<bar> \<le> 12 / 100" "\<bar>mid (slide w x)\<bar> \<le> 12 / 100"
    using that p assms(1) unfolding drift_evaluate_def settled_input_def eval_playing_def
    by (simp add: Let_def m(1) r assms(4,5) push_window_Fin js_median_mid eval_in_band_def DEFAULT_CONTROLLER_TUNING_def)
qed

subsubsection \<open>The three phases\<close>

text \<open>
  Waiting for a seek made at \<open>s\<close> to be judged, the last tick being at \<open>t\<close>; one reading inside the band; locked. The
  seeks a phase may still issue are \<open>k\<close>, the deadline for locking is \<open>T\<close>.
\<close>

definition waiting :: "nat \<Rightarrow> real \<Rightarrow> real \<Rightarrow> real \<Rightarrow> real \<Rightarrow> real \<Rightarrow> drift_controller \<Rightarrow> bool" where
  "waiting k T L t s d c \<longleftrightarrow>
     dc_tuning c = DEFAULT_CONTROLLER_TUNING \<and> dc_state c = SEEKING \<and> \<not> rateApplied c \<and> lastSeekAt c = Fin s \<and>
     stableEvals c = 0 \<and> seekLead c = Fin (d + L) \<and> (\<exists>x. seekTargetS c = Some x) \<and> 0 \<le> d + L \<and> d + L \<le> 12 / 10 \<and>
     ends_in (if s < t \<and> s + 1000 * L \<le> t then 1 else 0) d c \<and>
     \<bar>d\<bar> \<le> 12 / 100 * 2 ^ k \<and> s \<le> t \<and> s + 3300 * k + 2100 \<le> T \<and> (t < s + 1500 \<or> 12 / 100 < \<bar>d\<bar> \<and> t < s + 3000)"

definition judged :: "real \<Rightarrow> real \<Rightarrow> real \<Rightarrow> real \<Rightarrow> real \<Rightarrow> drift_controller \<Rightarrow> bool" where
  "judged T L t s d c \<longleftrightarrow>
     dc_tuning c = DEFAULT_CONTROLLER_TUNING \<and> dc_state c = SEEKING \<and> \<not> rateApplied c \<and> lastSeekAt c = Fin s \<and>
     stableEvals c = 1 \<and> ends_in 2 d c \<and> \<bar>d\<bar> \<le> 12 / 100 \<and> s + 1500 \<le> t \<and> t < s + 1800 \<and> s + 2100 \<le> T"

definition settled :: "real \<Rightarrow> real \<Rightarrow> real \<Rightarrow> real \<Rightarrow> drift_controller \<Rightarrow> bool" where
  "settled L t s d c \<longleftrightarrow>
     dc_tuning c = DEFAULT_CONTROLLER_TUNING \<and> dc_state c = LOCKED \<and> ends_in 2 d c \<and> \<bar>d\<bar> \<le> 12 / 100 \<and> s + 1500 \<le> t"

definition phase :: "nat \<Rightarrow> real \<Rightarrow> real \<Rightarrow> real \<Rightarrow> drift_controller \<times> real \<times> real \<Rightarrow> bool" where
  "phase n T L t x \<longleftrightarrow> (case x of (c, s, d) \<Rightarrow>
     (\<exists>k. waiting k T L t s d c \<and> seeksIssued c + k \<le> n) \<or> judged T L t s d c \<and> seeksIssued c \<le> n \<or> settled L t s d c \<and> seeksIssued c \<le> n)"

lemma ends_in_weaken: "ends_in (Suc n) d c \<Longrightarrow> ends_in n d c"
  unfolding ends_in_def replicate_Suc by (metis append.assoc append_Cons append_Nil replicate_append_same)

lemma ends_in_zero: "ends_in 0 d c = (\<exists>w. driftWindow c = map Fin w \<and> length w \<le> 3)"
  by (simp add: ends_in_def)

lemma slide_ends:
  assumes "length w \<le> 3"
  shows "ends_in 1 x (c\<lparr>driftWindow := map Fin (slide w x)\<rparr>)" "ends_in 0 d (c\<lparr>driftWindow := map Fin (slide w x)\<rparr>)"
proof -
  show "ends_in 1 x (c\<lparr>driftWindow := map Fin (slide w x)\<rparr>)"
    unfolding ends_in_def using length_slide [OF assms, of x]
    by (intro exI [of _ "slide w x"] exI [of _ "if length w \<le> 2 then w else tl w"]) (simp add: slide_def)
  show "ends_in 0 d (c\<lparr>driftWindow := map Fin (slide w x)\<rparr>)"
    using length_slide [OF assms, of x] by (auto simp: ends_in_zero)
qed

lemma settled_step:
  assumes "settled L t s d c" "playing_from tml off t0" "t0 \<le> t'" "t < t'" "L \<le> 12 / 10"
  shows "\<exists>c'. drift_evaluate c (loop_input tml off L s d (t', u)) = (c', ActNone) \<and> settled L t' s d c' \<and> seeksIssued c' = seeksIssued c"
proof -
  have inp: "loop_input tml off L s d (t', u) = settled_input tml off d t'" using assms(1,4,5) by (simp add: loop_input_def settled_def)
  obtain w v where w: "driftWindow c = map Fin w" "slide w d = v @ [d, d, d]" "length (slide w d) \<le> 3"
    using ends_in_slide [of 2 d c] assms(1) by (auto simp: settled_def numeral_2_eq_2 numeral_3_eq_3)
  then have v: "slide w d = [d] @ [d, d]" by (cases v) auto
  have m: "mid (slide w d) = d" unfolding v by (rule mid_two_alike) simp
  have "ends_in 2 d (c\<lparr>driftWindow := map Fin (slide w d), dc_lastDrift := Fin d, outOfBandCount := 0\<rparr>)"
    unfolding ends_in_def by (rule exI [of _ "[d] @ [d, d]"], rule exI [of _ "[d]"]) (simp add: v numeral_2_eq_2)
  then show ?thesis
    using playing_reading(2) [OF _ assms(2,3) w(1) refl, of d] assms(1,4) by (auto simp: inp m settled_def)
qed

lemma judged_step:
  assumes "judged T L t s d c" "playing_from tml off t0" "t0 \<le> t'" "t < t'" "L \<le> 12 / 10"
  shows "\<exists>c'. drift_evaluate c (loop_input tml off L s d (t', u)) = (c', ActNone) \<and> settled L t' s d c' \<and> seeksIssued c' = seeksIssued c"
proof -
  have inp: "loop_input tml off L s d (t', u) = settled_input tml off d t'" using assms(1,4,5) by (simp add: loop_input_def judged_def)
  obtain w v where w: "driftWindow c = map Fin w" "slide w d = v @ [d, d, d]" "length (slide w d) \<le> 3"
    using ends_in_slide [of 2 d c] assms(1) by (auto simp: judged_def numeral_2_eq_2 numeral_3_eq_3)
  then have v: "slide w d = [d] @ [d, d]" by (cases v) auto
  have m: "mid (slide w d) = d" unfolding v by (rule mid_two_alike) simp
  have e: "ends_in 2 d (c\<lparr>driftWindow := map Fin (slide w d)\<rparr>)"
    unfolding ends_in_def by (rule exI [of _ "[d] @ [d, d]"], rule exI [of _ "[d]"]) (simp add: v numeral_2_eq_2)
  show ?thesis
    using playing_reading(1) [OF _ assms(2,3) w(1) refl, of d] assms(1,4) e
    by (auto simp: inp m judged_def settled_def eval_seeking_def settled_input_def DEFAULT_CONTROLLER_TUNING_def learn_lead_def ends_in_def
        Let_def split: option.splits)
qed

text \<open>While the seek is not judged, nothing is answered and only the window changes.\<close>

lemma waiting_keeps:
  assumes "waiting k T L t s d c" "ends_in (if s + 1000 * L \<le> t' then 1 else 0) d (c\<lparr>driftWindow := w\<rparr>)" "s < t'"
    "t' < s + 1500 \<or> 12 / 100 < \<bar>d\<bar> \<and> t' < s + 3000"
  shows "waiting k T L t' s d (c\<lparr>driftWindow := w, dc_lastDrift := x\<rparr>)"
  using assms by (auto simp: waiting_def ends_in_def split: if_splits)

lemma waiting_unstable: "waiting k T L t s d c \<Longrightarrow> waiting k T L t s d (c\<lparr>stableEvals := 0\<rparr>)"
  by (auto simp: waiting_def ends_in_def)

lemma waiting_early:
  assumes "waiting k T L t s d c" "playing_from tml off t0" "t0 \<le> t'" "t < t'" "t' < s + 1500"
  shows "\<exists>c'. drift_evaluate c (loop_input tml off L s d (t', u)) = (c', ActNone) \<and> waiting k T L t' s d c' \<and> seeksIssued c' = seeksIssued c"
proof -
  have c: "dc_tuning c = DEFAULT_CONTROLLER_TUNING" "dc_state c = SEEKING" "\<not> rateApplied c" "lastSeekAt c = Fin s" "s \<le> t"
    and win: "ends_in 0 d c" "s < t \<Longrightarrow> s + 1000 * L \<le> t \<Longrightarrow> ends_in 1 d c"
    using assms(1) ends_in_weaken [of 0 d c] by (auto simp: waiting_def split: if_splits)
  have reading: "\<exists>c'. drift_evaluate c (settled_input tml off x t') = (c', ActNone) \<and> waiting k T L t' s d c' \<and> seeksIssued c' = seeksIssued c"
    if x: "s + 1000 * L \<le> t' \<Longrightarrow> x = d" for x
  proof -
    obtain w where w: "driftWindow c = map Fin w" "length w \<le> 3" using win(1) by (auto simp: ends_in_zero)
    have "ends_in (if s + 1000 * L \<le> t' then 1 else 0) d (c\<lparr>driftWindow := map Fin (slide w x)\<rparr>)"
      using slide_ends(1) [OF w(2), where x = x and c = c] slide_ends(2) [OF w(2), where x = x and c = c] x by (cases "s + 1000 * L \<le> t'") simp_all
    then have "waiting k T L t' s d (c\<lparr>driftWindow := map Fin (slide w x), dc_lastDrift := Fin (mid (slide w x))\<rparr>)"
      using waiting_keeps [OF assms(1)] assms(4,5) c(5) by auto
    then show ?thesis
      using playing_reading(1) [OF c(1) assms(2,3) w(1) refl c(2), of x] c assms(5)
      by (auto simp: eval_seeking_def settled_input_def DEFAULT_CONTROLLER_TUNING_def Let_def)
  qed
  show ?thesis
  proof (cases "s + 1000 * L \<le> t'")
    case True
    then show ?thesis using reading [of d] by (simp add: loop_input_def)
  next
    case False
    show ?thesis
    proof (cases u)
      case Stalls
      have "drift_evaluate c (loop_input tml off L s d (t', u)) = (c, ActNone)"
        using False Stalls c by (simp add: loop_input_def settled_input_def drift_evaluate_def eval_buffering_def Let_def)
      moreover have "waiting k T L t' s d c"
        using assms(1,4,5) False win(1) c(5) by (auto simp: waiting_def)
      ultimately show ?thesis by blast
    next
      case (Reads x)
      then show ?thesis using reading [of x] False by (simp add: loop_input_def)
    qed
  qed
qed

lemma waiting_late:
  assumes "waiting k T L t s d c" "playing_from tml off t0" "t0 \<le> t'" "t < t'" "t' \<le> t + 300" "s + 1500 \<le> t'" "0 \<le> L" "L \<le> 12 / 10"
  obtains w where "driftWindow c = map Fin w" "mid (slide w d) = d" "ends_in 2 d (c\<lparr>driftWindow := map Fin (slide w d)\<rparr>)"
    "drift_evaluate c (loop_input tml off L s d (t', u)) =
      eval_seeking (c\<lparr>driftWindow := map Fin (slide w d), dc_lastDrift := Fin d\<rparr>) (settled_input tml off d t') tml (Fin d)"
proof -
  have inp: "loop_input tml off L s d (t', u) = settled_input tml off d t'" using assms(6,8) by (simp add: loop_input_def)
  have "ends_in 1 d c" using assms(1,5,6,8) by (auto simp: waiting_def split: if_splits)
  then obtain w v where w: "driftWindow c = map Fin w" "slide w d = v @ [d, d]" "length (slide w d) \<le> 3"
    using ends_in_slide [of 1 d c] by (auto simp: numeral_2_eq_2)
  have m: "mid (slide w d) = d" using mid_two_alike [of v d] w(2,3) by simp
  have "ends_in 2 d (c\<lparr>driftWindow := map Fin (slide w d)\<rparr>)"
    unfolding ends_in_def by (rule exI [of _ "slide w d"], rule exI [of _ v]) (use w(2,3) in \<open>simp add: numeral_2_eq_2\<close>)
  moreover have "drift_evaluate c (settled_input tml off d t') =
      eval_seeking (c\<lparr>driftWindow := map Fin (slide w d), dc_lastDrift := Fin d\<rparr>) (settled_input tml off d t') tml (Fin d)"
    using playing_reading(1) [OF _ assms(2,3) w(1) refl, of d] assms(1) m by (simp add: waiting_def)
  ultimately show ?thesis using that w(1) m inp by metis
qed

lemma waiting_judged:
  assumes "waiting k T L t s d c" "playing_from tml off t0" "t0 \<le> t'" "t < t'" "t' \<le> t + 300" "s + 1500 \<le> t'" "0 \<le> L" "L \<le> 12 / 10"
    "\<bar>d\<bar> \<le> 12 / 100"
  shows "\<exists>c'. drift_evaluate c (loop_input tml off L s d (t', u)) = (c', ActNone) \<and> judged T L t' s d c' \<and> seeksIssued c' = seeksIssued c"
proof -
  obtain w where w: "driftWindow c = map Fin w" "mid (slide w d) = d" "ends_in 2 d (c\<lparr>driftWindow := map Fin (slide w d)\<rparr>)"
    "drift_evaluate c (loop_input tml off L s d (t', u)) =
      eval_seeking (c\<lparr>driftWindow := map Fin (slide w d), dc_lastDrift := Fin d\<rparr>) (settled_input tml off d t') tml (Fin d)"
    by (rule waiting_late [OF assms(1-8), where u = u])
  have "t < s + 1500" "s + 2100 \<le> T" using assms(1,9) by (auto simp: waiting_def)
  then show ?thesis using assms(1,5,6,9) w(3)
    by (simp add: w(4)) (simp add: waiting_def judged_def ends_in_def eval_seeking_def settled_input_def DEFAULT_CONTROLLER_TUNING_def Let_def)
qed

lemma waiting_outside:
  assumes "waiting k T L t s d c" "playing_from tml off t0" "t0 \<le> t'" "t < t'" "t' \<le> t + 300" "s + 1500 \<le> t'" "0 \<le> L" "L \<le> 12 / 10"
    "12 / 100 < \<bar>d\<bar>" "t' < s + 3000"
  shows "\<exists>c'. drift_evaluate c (loop_input tml off L s d (t', u)) = (c', ActNone) \<and> waiting k T L t' s d c' \<and> seeksIssued c' = seeksIssued c"
proof -
  obtain w where w: "driftWindow c = map Fin w" "mid (slide w d) = d" "ends_in 2 d (c\<lparr>driftWindow := map Fin (slide w d)\<rparr>)"
    "drift_evaluate c (loop_input tml off L s d (t', u)) =
      eval_seeking (c\<lparr>driftWindow := map Fin (slide w d), dc_lastDrift := Fin d\<rparr>) (settled_input tml off d t') tml (Fin d)"
    by (rule waiting_late [OF assms(1-8), where u = u])
  have one: "ends_in 1 d (c\<lparr>driftWindow := map Fin (slide w d)\<rparr>)" using ends_in_weaken [of 1] w(3) by (simp add: numeral_2_eq_2)
  have "waiting k T L t' s d (c\<lparr>driftWindow := map Fin (slide w d), dc_lastDrift := Fin d\<rparr>)"
    using waiting_keeps [OF assms(1), of t' "map Fin (slide w d)" "Fin d"] one assms(6,8,9,10) by simp
  from waiting_unstable [OF this]
  have "waiting k T L t' s d (c\<lparr>driftWindow := map Fin (slide w d), dc_lastDrift := Fin d, stableEvals := 0\<rparr>)" by simp
  moreover have c: "stableEvals c = 0" "lastSeekAt c = Fin s" "dc_tuning c = DEFAULT_CONTROLLER_TUNING" using assms(1) by (simp_all add: waiting_def)
  ultimately show ?thesis using assms(6,9,10)
    by (simp add: w(4)) (simp add: eval_seeking_def settled_input_def DEFAULT_CONTROLLER_TUNING_def Let_def)
qed

text \<open>A missed seek is made again with half the error.\<close>

lemma waiting_again:
  assumes "waiting k T L t s d c" "playing_from tml off t0" "t0 \<le> t'" "t < t'" "t' \<le> t + 300" "s + 3000 \<le> t'" "0 \<le> L" "L \<le> 12 / 10"
    "12 / 100 < \<bar>d\<bar>"
  shows "\<exists>c' x j. drift_evaluate c (loop_input tml off L s d (t', u)) = (c', ActSeek x) \<and> k = Suc j \<and>
    fin_val (x - projectMediaTime tml (Fin (t' + off))) - L = d / 2 \<and> waiting j T L t' t' (d / 2) c' \<and> seeksIssued c' = seeksIssued c + 1"
proof -
  have late: "s + 1500 \<le> t'" using assms(6) by simp
  obtain w where w: "driftWindow c = map Fin w" "mid (slide w d) = d" "ends_in 2 d (c\<lparr>driftWindow := map Fin (slide w d)\<rparr>)"
    "drift_evaluate c (loop_input tml off L s d (t', u)) =
      eval_seeking (c\<lparr>driftWindow := map Fin (slide w d), dc_lastDrift := Fin d\<rparr>) (settled_input tml off d t') tml (Fin d)"
    by (rule waiting_late [OF assms(1-5) late assms(7,8), where u = u])
  obtain m where m: "projectMediaTime tml (Fin (t' + off)) = Fin m" "0 \<le> m"
    using playing_from_project [OF assms(2,3)] by blast
  have p: "isPlaying tml" using assms(2) by (simp add: playing_from_def)
  have c: "dc_tuning c = DEFAULT_CONTROLLER_TUNING" "lastSeekAt c = Fin s" "stableEvals c = 0" "seekLead c = Fin (d + L)"
      "\<exists>x. seekTargetS c = Some x" "0 \<le> d + L" "d + L \<le> 12 / 10" "\<bar>d\<bar> \<le> 12 / 100 * 2 ^ k" "s + 3300 * k + 2100 \<le> T" "t < s + 3000"
    using assms(1,6) by (auto simp: waiting_def)
  obtain j where j: "k = Suc j" using c(8) assms(9) by (cases k) auto
  have half: "\<bar>d / 2\<bar> \<le> 12 / 100 * 2 ^ j" using c(8) by (simp add: j)
  have lead: "math_min (Fin (12 / 10)) (math_max 0 (Fin (d + L) - Fin d * Fin (5 / 10))) = Fin (d / 2 + L)"
    using c(6,7) assms(7,8) by (simp add: field_simps min_def max_def)
  have range: "0 \<le> d / 2 + L" "d / 2 + L \<le> 12 / 10" using c(6,7) assms(7,8) by (simp_all add: field_simps)
  have deadline: "t' + 3300 * j + 2100 \<le> T" using c(9,10) assms(5) by (simp add: j)
  show ?thesis using c(1-5) assms(6,9) half range deadline m lead p
    by (simp add: w(4) j)
      (auto simp: eval_seeking_def settled_input_def DEFAULT_CONTROLLER_TUNING_def Let_def learn_lead_def issueSeek_def waiting_def ends_in_def)
qed

lemma phase_step:
  assumes "phase n T L t (c, s, d)" "playing_from tml off t0" "t0 \<le> t" "t < t'" "t' \<le> t + 300" "0 \<le> L" "L \<le> 12 / 10"
  shows "\<exists>y. seek_loop tml off L (c, s, d) ((t', u) # ticks) = seek_loop tml off L y ticks \<and> phase n T L t' y"
proof -
  have t': "t0 \<le> t'" using assms(3,4) by simp
  have quiet: ?thesis if q: "\<exists>c'. drift_evaluate c (loop_input tml off L s d (t', u)) = (c', ActNone) \<and> phase n T L t' (c', s, d)"
  proof -
    obtain c' where "drift_evaluate c (loop_input tml off L s d (t', u)) = (c', ActNone)" "phase n T L t' (c', s, d)" using q by blast
    then show ?thesis by (intro exI [of _ "(c', s, d)"]) simp
  qed
  consider (w) k where "waiting k T L t s d c" "seeksIssued c + k \<le> n" | (j) "judged T L t s d c" "seeksIssued c \<le> n"
    | (s) "settled L t s d c" "seeksIssued c \<le> n" using assms(1) by (auto simp: phase_def)
  then show ?thesis
  proof cases
    case w
    consider "t' < s + 1500" | "s + 1500 \<le> t'" "\<bar>d\<bar> \<le> 12 / 100" | "s + 1500 \<le> t'" "12 / 100 < \<bar>d\<bar>" "t' < s + 3000"
      | "s + 3000 \<le> t'" "12 / 100 < \<bar>d\<bar>" by linarith
    then show ?thesis
    proof cases
      case 1
      show ?thesis by (rule quiet) (use waiting_early [OF w(1) assms(2) t' assms(4) 1, of u] w(2) in \<open>force simp: phase_def\<close>)
    next
      case 2
      show ?thesis by (rule quiet) (use waiting_judged [OF w(1) assms(2) t' assms(4,5) 2(1) assms(6,7) 2(2), of u] w(2) in \<open>force simp: phase_def\<close>)
    next
      case 3
      show ?thesis by (rule quiet) (use waiting_outside [OF w(1) assms(2) t' assms(4,5) 3(1) assms(6,7) 3(2,3), of u] w(2) in \<open>force simp: phase_def\<close>)
    next
      case 4
      obtain c' x j where e: "drift_evaluate c (loop_input tml off L s d (t', u)) = (c', ActSeek x)" "k = Suc j"
        "fin_val (x - projectMediaTime tml (Fin (t' + off))) - L = d / 2" "waiting j T L t' t' (d / 2) c'" "seeksIssued c' = seeksIssued c + 1"
        using waiting_again [OF w(1) assms(2) t' assms(4,5) 4(1) assms(6,7) 4(2), of u] by blast
      then have "phase n T L t' (c', t', d / 2)" using w(2) by (auto simp: phase_def)
      then show ?thesis using e(1) by (intro exI [of _ "(c', t', d / 2)"]) (simp add: e(3) del: times_divide_eq_left)
    qed
  next
    case j
    show ?thesis by (rule quiet) (use judged_step [OF j(1) assms(2) t' assms(4,7), of u] j(2) in \<open>force simp: phase_def\<close>)
  next
    case s
    show ?thesis by (rule quiet) (use settled_step [OF s(1) assms(2) t' assms(4,7), of u] s(2) in \<open>force simp: phase_def\<close>)
  qed
qed

lemma phase_run:
  assumes "phase n T L t x" "playing_from tml off t0" "t0 \<le> t" "ticks_on_time t ticks" "0 \<le> L" "L \<le> 12 / 10"
  shows "phase n T L (fst (last ((t, Stalls) # ticks))) (seek_loop tml off L x ticks)"
  using assms
proof (induction ticks arbitrary: t x)
  case Nil
  then show ?case by (cases x) simp
next
  case (Cons tick ticks)
  obtain t' u where tick: "tick = (t', u)" by fastforce
  obtain c s d where x: "x = (c, s, d)" by (cases x)
  have t': "t < t'" "t' \<le> t + 300" "ticks_on_time t' ticks" using Cons.prems(4) by (simp_all add: tick)
  obtain y where y: "seek_loop tml off L (c, s, d) ((t', u) # ticks) = seek_loop tml off L y ticks" "phase n T L t' y"
    using phase_step [OF Cons.prems(1) [unfolded x] Cons.prems(2,3) t'(1,2) Cons.prems(5,6)] by blast
  have "phase n T L (fst (last ((t', Stalls) # ticks))) (seek_loop tml off L y ticks)"
    using Cons.IH [OF y(2) Cons.prems(2) _ t'(3) Cons.prems(5,6)] Cons.prems(3) t'(1) by simp
  then show ?case using y(1) by (simp add: x tick split: if_splits)
qed

lemma after_seek_phase:
  assumes "after_seek t0 l c" "0 \<le> l" "l \<le> 12 / 10" "0 \<le> L" "L \<le> 12 / 10"
  shows "phase (seeksIssued c + 4) (t0 + 15300) L t0 (c, t0, l - L)"
proof -
  have "\<bar>l - L\<bar> \<le> 12 / 10" using assms(2-5) by arith
  then have "waiting 4 (t0 + 15300) L t0 t0 (l - L) c"
    using assms by (auto simp: after_seek_def waiting_def ends_in_def)
  then show ?thesis by (auto simp: phase_def)
qed


lemma ticking_upt: "ticks_on_time (t + 250 * real k) (map (\<lambda>i. (t + 250 * real i, u)) [Suc k..<n])"
proof (induction "n - Suc k" arbitrary: k)
  case (Suc m)
  then have "Suc k < n" by simp
  then have "[Suc k..<n] = Suc k # [Suc (Suc k)..<n]" by (rule upt_conv_Cons)
  moreover have "m = n - Suc (Suc k)" using Suc(2) by simp
  ultimately show ?case using Suc(1) [of "Suc k"] by (simp add: algebra_simps)
qed simp


subsection \<open>A nudge that outlives its state\<close>

text \<open>
  Pausing the room during a nudge leaks it: when the room pauses and plays again while the
  controller is nudging, it goes through PAUSED_SYNC and SEEKING back to LOCKED without ever
  emitting clear-rate, so it reports LOCKED, and answers none, with the player still at the nudged
  rate.
\<close>

definition leak_inputs :: "controller_input list" where
  "leak_inputs =
     (let idle = (\<lambda>t. (demo_tick t 0 True)\<lparr>ci_timeline := Some (demo_room\<lparr>isPlaying := False, mediaTime := Fin 5\<rparr>),
                                           ci_playerTime := Fin 5\<rparr>) in
      [demo_tick 4000 (2 / 10) True, demo_tick 4250 (2 / 10) True, idle 4500,
       (idle 4750)\<lparr>ci_playerState := Paused\<rparr>, (demo_tick 5000 0 True)\<lparr>ci_playerState := Paused\<rparr>,
       demo_tick 6500 0 True, demo_tick 6750 0 True, demo_tick 7000 0 True])"

theorem pause_during_nudge_leaks_rate:
  "\<exists>c. drift_run (new_drift DEFAULT_CONTROLLER_TUNING) (map Evaluate leak_inputs) =
     (c, [ActNone, ActSetRate (Fin (95 / 100)), ActPause, ActNone, ActPlay, ActNone, ActNone, ActNone]) \<and>
   dc_state c = LOCKED \<and> rateApplied c"
  by (simp add: leak_inputs_def demo_ctrl_simps)

end
