(* ===== verification/DisciplineController.thy ===== *)
theory DisciplineController
  imports DriftController
begin

text \<open>
  The predictive controller (shared/sync-core/discipline-controller.ts): a PI servo with a recursive
  least-squares estimate of the player's skew around an inner reactive controller, which keeps the
  player's lifecycle, gross errors and seeks. Lemmas: the servo's numeric invariant under every
  operation. Properties: the bounds of the commanded rate and of the servo's state over any run, and
  the convergence of the skew estimate.
\<close>

subsection \<open>Data\<close>

record servo_tuning =
  kp :: jsnum
  ki :: jsnum
  forgetting :: jsnum
  clampSpan :: jsnum
  commandHysteresis :: jsnum
  servoZoneS :: jsnum
  integralClampS :: jsnum

definition DEFAULT_SERVO_TUNING :: servo_tuning where
  "DEFAULT_SERVO_TUNING =
     \<lparr>kp = Fin (3 / 10), ki = Fin (5 / 100), forgetting = Fin (98 / 100), clampSpan = Fin (5 / 100),
      commandHysteresis = Fin (5 / 1000), servoZoneS = Fin (6 / 10), integralClampS = Fin 2\<rparr>"

record servo_status =
  ss_status :: ctrl_status
  ss_servoActive :: bool
  ss_bHatPpm :: jsnum
  ss_commandedRate :: jsnum

record discipline =
  sv_servo :: servo_tuning
  sv_reactive :: drift_controller
  sv_integral :: jsnum
  bHat :: jsnum
  rlsP :: jsnum
  sv_lastDrift :: "jsnum option"
  sv_lastT :: "jsnum option"
  appliedRate :: jsnum
  lastCommand :: jsnum
  servoActive :: bool

definition new_discipline :: "servo_tuning \<Rightarrow> ctrl_tuning \<Rightarrow> discipline" where
  "new_discipline servo reactiveTuning =
     \<lparr>sv_servo = servo,
      sv_reactive = new_drift (reactiveTuning\<lparr>seekThresholdS := servoZoneS servo\<rparr>),
      sv_integral = 0, bHat = 0, rlsP = 1, sv_lastDrift = None, sv_lastT = None, appliedRate = 1,
      lastCommand = 1, servoActive = False\<rparr>"

subsection \<open>Operations\<close>

definition resetServo :: "discipline \<Rightarrow> discipline" where
  "resetServo v =
     v\<lparr>sv_integral := 0, sv_lastDrift := None, sv_lastT := None, servoActive := False,
       appliedRate := 1, lastCommand := 1\<rparr>"

definition servo_suspend :: "discipline \<Rightarrow> discipline" where
  "servo_suspend v = resetServo (v\<lparr>sv_reactive := drift_suspend (sv_reactive v)\<rparr>)"

definition servo_resume :: "discipline \<Rightarrow> discipline" where
  "servo_resume v = v\<lparr>sv_reactive := drift_resume (sv_reactive v)\<rparr>"

definition servo_getStatus :: "discipline \<Rightarrow> servo_status" where
  "servo_getStatus v =
     \<lparr>ss_status = drift_getStatus (sv_reactive v), ss_servoActive = servoActive v,
      ss_bHatPpm = bHat v * 1000000, ss_commandedRate = lastCommand v\<rparr>"

text \<open>The measurement of one interval: the least-squares step and the integral with anti-windup.\<close>

definition servo_measure :: "discipline \<Rightarrow> jsnum \<Rightarrow> jsnum \<Rightarrow> jsnum \<Rightarrow> discipline" where
  "servo_measure v drift lastD dt =
     (let s = sv_servo v;
          measuredB = (drift - lastD) / dt - (appliedRate v - 1);
          g = rlsP v / (forgetting s + rlsP v);
          v1 = v\<lparr>bHat := bHat v + g * (measuredB - bHat v), rlsP := (1 - g) * (rlsP v / forgetting s)\<rparr>;
          clamped = (clampSpan s - Fin (1 / 1000000000) \<le> abs (lastCommand v - 1)) in
      if \<not> clamped
      then v1\<lparr>sv_integral := math_max (- integralClampS s)
                (math_min (integralClampS s) (sv_integral v + drift * dt))\<rparr>
      else v1)"

text \<open>\<^verbatim>\<open>if (this.lastT !== null && this.lastDrift !== null) { ... if (dt > 0 && dt < 2) ... }\<close>\<close>

definition servo_learn :: "discipline \<Rightarrow> jsnum \<Rightarrow> jsnum \<Rightarrow> discipline" where
  "servo_learn v drift t = (case (sv_lastT v, sv_lastDrift v) of
     (Some lt, Some ld) \<Rightarrow>
       (let dt = t - lt in if 0 < dt \<and> dt < 2 then servo_measure v drift ld dt else v)
   | _ \<Rightarrow> v)"

definition servo_rate :: "discipline \<Rightarrow> jsnum \<Rightarrow> jsnum" where
  "servo_rate v drift =
     (let s = sv_servo v; r = 1 - kp s * drift - ki s * sv_integral v - bHat v in
      math_max (1 - clampSpan s) (math_min (1 + clampSpan s) r))"

text \<open>The steady state: learn, compute the command, and hand it out unless it barely moved.\<close>

definition servo_steady :: "discipline \<Rightarrow> jsnum \<Rightarrow> jsnum \<Rightarrow> discipline \<times> ctrl_action" where
  "servo_steady v drift tLocal =
     (let t = tLocal / 1000;
          v1 = (servo_learn v drift t)\<lparr>sv_lastT := Some t, sv_lastDrift := Some drift\<rparr>;
          r = servo_rate v1 drift;
          v2 = v1\<lparr>lastCommand := r, servoActive := True\<rparr> in
      if abs (r - appliedRate v2) < commandHysteresis (sv_servo v2) then (v2, ActNone)
      else (v2\<lparr>appliedRate := r\<rparr>, ActSetRate r))"

definition servo_evaluate :: "discipline \<Rightarrow> controller_input \<Rightarrow> discipline \<times> ctrl_action" where
  "servo_evaluate v inp =
     (let (rc, act) = drift_evaluate (sv_reactive v) (inp\<lparr>ci_fractionalRateOK := False\<rparr>);
          v1 = v\<lparr>sv_reactive := rc\<rparr>;
          st = drift_getStatus rc in
      case act of
        ActSeek _ \<Rightarrow> (resetServo v1, act)
      | _ \<Rightarrow>
          if act \<noteq> ActNone \<or> st_state st \<noteq> LOCKED then
            (if servoActive v1 \<and> ci_playerState inp \<noteq> Playing
             then ((resetServo v1)\<lparr>appliedRate := 1\<rparr>, if act = ActNone then ActClearRate else act)
             else (v1, act))
          else
            (let drift = st_lastDriftS st in
             if servoZoneS (sv_servo v1) < abs drift then (v1, ActNone)
             else servo_steady v1 drift (ci_tLocal inp)))"

definition onRateApplied :: "discipline \<Rightarrow> jsnum \<Rightarrow> discipline" where
  "onRateApplied v applied = v\<lparr>appliedRate := applied\<rparr>"

subsection \<open>The inner controller never commands a rate\<close>

text \<open>Fed with fractionalRateOK = false, the reactive controller neither nudges nor clears.\<close>

definition never_nudged :: "drift_controller \<Rightarrow> bool" where
  "never_nudged c = (\<not> rateApplied c \<and> dc_state c \<noteq> NUDGING)"

definition seek_free_rate :: "ctrl_action \<Rightarrow> bool" where
  "seek_free_rate a = (case a of ActSetRate _ \<Rightarrow> False | ActClearRate \<Rightarrow> False | _ \<Rightarrow> True)"

lemma learn_lead_keeps [simp]:
  "rateApplied (learn_lead c d) = rateApplied c" "dc_state (learn_lead c d) = dc_state c"
  "dc_tuning (learn_lead c d) = dc_tuning c"
  by (simp_all add: learn_lead_def split: option.splits)

lemma drift_evaluate_never_nudged:
  assumes "never_nudged c" "\<not> ci_fractionalRateOK inp" "drift_evaluate c inp = (c', a)"
  shows "never_nudged c' \<and> seek_free_rate a"
proof -
  have iss: "never_nudged (fst (issueSeek x inp tml)) \<and> seek_free_rate (snd (issueSeek x inp tml))" for x tml
    by (simp add: issueSeek_def never_nudged_def seek_free_rate_def Let_def)
  have iss': "never_nudged x' \<and> seek_free_rate b" if "issueSeek x inp tml = (x', b)" for x tml x' b
    using iss [of x tml] that by simp
  show ?thesis
    using assms
    by (auto simp: drift_evaluate_def eval_playing_def eval_buffering_def eval_paused_room_def eval_start_def
        eval_seeking_def eval_in_band_def eval_out_of_band_def never_nudged_def seek_free_rate_def Let_def
        dest!: iss' split: if_splits option.splits)
qed

subsection \<open>The invariant\<close>

definition inner_tuning :: ctrl_tuning where
  "inner_tuning = DEFAULT_CONTROLLER_TUNING\<lparr>seekThresholdS := servoZoneS DEFAULT_SERVO_TUNING\<rparr>"

lemma tuning_ok_inner: "tuning_ok inner_tuning"
  by (simp add: tuning_ok_def inner_tuning_def DEFAULT_CONTROLLER_TUNING_def)

definition between :: "real \<Rightarrow> real \<Rightarrow> jsnum \<Rightarrow> bool" where
  "between a b x = (\<exists>r. x = Fin r \<and> a \<le> r \<and> r \<le> b)"

lemma between_Fin [simp]: "between a b (Fin r) = (a \<le> r \<and> r \<le> b)"
  by (simp add: between_def)

definition opt_fin :: "jsnum option \<Rightarrow> bool" where
  "opt_fin x = (case x of None \<Rightarrow> True | Some y \<Rightarrow> is_fin y)"

definition servo_inv :: "discipline \<Rightarrow> bool" where
  "servo_inv v =
     (sv_servo v = DEFAULT_SERVO_TUNING \<and> ctrl_inv inner_tuning (sv_reactive v) \<and> never_nudged (sv_reactive v) \<and>
      between (- 2) 2 (sv_integral v) \<and> is_fin (bHat v) \<and> between (1 / 50) 1 (rlsP v) \<and>
      opt_fin (sv_lastDrift v) \<and> opt_fin (sv_lastT v) \<and> is_fin (appliedRate v) \<and>
      between (95 / 100) (105 / 100) (lastCommand v))"

lemma servo_inv_new: "servo_inv (new_discipline DEFAULT_SERVO_TUNING DEFAULT_CONTROLLER_TUNING)"
  using ctrl_inv_new [OF tuning_ok_inner]
  by (simp add: servo_inv_def new_discipline_def inner_tuning_def opt_fin_def never_nudged_def new_drift_def)

lemma servo_inv_reset: "servo_inv v \<Longrightarrow> servo_inv (resetServo v)"
  by (simp add: servo_inv_def resetServo_def opt_fin_def)

lemma servo_inv_reactive:
  "servo_inv v \<Longrightarrow> ctrl_inv inner_tuning rc \<Longrightarrow> never_nudged rc \<Longrightarrow> servo_inv (v\<lparr>sv_reactive := rc\<rparr>)"
  by (simp add: servo_inv_def)

lemma servo_inv_suspend: "servo_inv v \<Longrightarrow> servo_inv (servo_suspend v)"
  unfolding servo_suspend_def
  by (intro servo_inv_reset servo_inv_reactive)
    (simp_all add: servo_inv_def ctrl_inv_suspend, simp add: never_nudged_def drift_suspend_def)

lemma servo_inv_resume: "servo_inv v \<Longrightarrow> servo_inv (servo_resume v)"
  unfolding servo_resume_def
  by (intro servo_inv_reactive)
    (simp_all add: servo_inv_def ctrl_inv_resume, simp add: never_nudged_def drift_resume_def)

lemma servo_inv_onRateApplied: "servo_inv v \<Longrightarrow> is_fin r \<Longrightarrow> servo_inv (onRateApplied v r)"
  by (simp add: servo_inv_def onRateApplied_def)

text \<open>The least-squares step in closed form: with forgetting 0.98 the covariance maps p to p / (0.98 + p).\<close>

lemma servo_measure_values:
  assumes "sv_servo v = DEFAULT_SERVO_TUNING" "rlsP v = Fin p" "1 / 50 \<le> p" "bHat v = Fin b"
    "appliedRate v = Fin a" "0 < dt"
  shows "rlsP (servo_measure v (Fin d) (Fin l) (Fin dt)) = Fin (p / (98 / 100 + p))"
    "bHat (servo_measure v (Fin d) (Fin l) (Fin dt)) =
       Fin (b + p / (98 / 100 + p) * ((d - l) / dt - (a - 1) - b))"
  using assms by (simp_all add: servo_measure_def DEFAULT_SERVO_TUNING_def Let_def) (simp add: field_simps)

lemma rls_range:
  fixes p :: real
  assumes "1 / 50 \<le> p" "p \<le> 1"
  shows "1 / 50 \<le> p / (98 / 100 + p)" "p / (98 / 100 + p) \<le> 1"
  using assms by (simp_all add: field_simps)

lemma servo_inv_measure:
  assumes "servo_inv v" "0 < dt"
  shows "servo_inv (servo_measure v (Fin d) (Fin l) (Fin dt))"
proof -
  obtain i b p a where v: "sv_integral v = Fin i" "\<bar>i\<bar> \<le> 2" "bHat v = Fin b" "rlsP v = Fin p" "1 / 50 \<le> p" "p \<le> 1"
      "appliedRate v = Fin a" "sv_servo v = DEFAULT_SERVO_TUNING"
    using assms(1) by (auto simp: servo_inv_def between_def is_fin_iff abs_le_iff)
  note vals = servo_measure_values [OF v(8) v(4,5,3,7) assms(2)]
  define v' where "v' = servo_measure v (Fin d) (Fin l) (Fin dt)"
  have "between (1 / 50) 1 (rlsP v')" "is_fin (bHat v')"
    using vals rls_range [OF v(5,6)] by (simp_all add: v'_def)
  moreover have "between (- 2) 2 (sv_integral v')"
    using v by (auto simp: v'_def servo_measure_def Let_def DEFAULT_SERVO_TUNING_def abs_le_iff)
  ultimately show ?thesis
    using assms(1) by (auto simp: servo_inv_def v'_def [symmetric]) (simp_all add: v'_def servo_measure_def Let_def)
qed

lemma servo_inv_learn: "servo_inv v \<Longrightarrow> servo_inv (servo_learn v (Fin d) (Fin t))"
  using servo_inv_measure
  by (auto simp: servo_learn_def Let_def opt_fin_def is_fin_iff servo_inv_def [of v] split: option.splits)

lemma clamp_range: "between (95 / 100) (105 / 100) (Fin (max (95 / 100) (min (105 / 100) x)))"
  by (simp add: max_def min_def)

lemma servo_rate_range:
  assumes "servo_inv v"
  shows "between (95 / 100) (105 / 100) (servo_rate v (Fin d))"
proof -
  obtain i b where "sv_integral v = Fin i" "bHat v = Fin b" "sv_servo v = DEFAULT_SERVO_TUNING"
    using assms by (auto simp: servo_inv_def between_def is_fin_iff)
  then have "servo_rate v (Fin d) =
      Fin (max (95 / 100) (min (105 / 100) (1 - 3 / 10 * d - 5 / 100 * i - b)))"
    by (simp add: servo_rate_def DEFAULT_SERVO_TUNING_def Let_def)
  then show ?thesis by (simp only: clamp_range)
qed

text \<open>What the servo hands out: seeks to non-negative positions and rates in the clamp span.\<close>

definition servo_act_ok :: "ctrl_action \<Rightarrow> bool" where
  "servo_act_ok a = (case a of
     ActSeek x \<Rightarrow> is_fin x \<and> 0 \<le> x
   | ActSetRate r \<Rightarrow> between (95 / 100) (105 / 100) r
   | _ \<Rightarrow> True)"

lemma servo_steady_ok:
  assumes "servo_inv v"
  shows "servo_inv (fst (servo_steady v (Fin d) (Fin t))) \<and> servo_act_ok (snd (servo_steady v (Fin d) (Fin t)))"
proof -
  define v1 where "v1 = (servo_learn v (Fin d) (Fin (t / 1000)))\<lparr>sv_lastT := Some (Fin (t / 1000)), sv_lastDrift := Some (Fin d)\<rparr>"
  have v1: "servo_inv v1"
    using servo_inv_learn [OF assms] by (simp add: v1_def servo_inv_def opt_fin_def)
  obtain r where r: "servo_rate v1 (Fin d) = Fin r" "95 / 100 \<le> r" "r \<le> 105 / 100"
    using servo_rate_range [OF v1] by (auto simp: between_def)
  then have "servo_inv (v1\<lparr>lastCommand := Fin r, servoActive := True\<rparr>)"
    "servo_inv (v1\<lparr>lastCommand := Fin r, servoActive := True, appliedRate := Fin r\<rparr>)"
    using v1 by (simp_all add: servo_inv_def)
  then show ?thesis
    using r by (simp add: servo_steady_def Let_def v1_def [symmetric] servo_act_ok_def)
qed

lemma servo_evaluate_ok:
  assumes "servo_inv v" "input_ok inp"
  shows "servo_inv (fst (servo_evaluate v inp)) \<and> servo_act_ok (snd (servo_evaluate v inp))"
proof -
  define inp' where "inp' = inp\<lparr>ci_fractionalRateOK := False\<rparr>"
  have inp': "input_ok inp'" "\<not> ci_fractionalRateOK inp'" using assms(2) by (simp_all add: inp'_def input_ok_def)
  obtain rc act where e: "drift_evaluate (sv_reactive v) inp' = (rc, act)" by fastforce
  have ok: "ctrl_inv inner_tuning (sv_reactive v)" "never_nudged (sv_reactive v)" "sv_servo v = DEFAULT_SERVO_TUNING"
    using assms(1) by (simp_all add: servo_inv_def)
  have rc: "ctrl_inv inner_tuning rc" "act_ok inner_tuning act" "never_nudged rc" "seek_free_rate act"
    using drift_evaluate_ok [OF tuning_ok_inner ok(1) inp'(1)] e
      drift_evaluate_never_nudged [OF ok(2) inp'(2) e] by simp_all
  have v1: "servo_inv (v\<lparr>sv_reactive := rc\<rparr>)" by (rule servo_inv_reactive [OF assms(1) rc(1,3)])
  have reset: "servo_inv (resetServo (v\<lparr>sv_reactive := rc\<rparr>))" by (rule servo_inv_reset [OF v1])
  have reset1: "(resetServo w)\<lparr>appliedRate := Fin 1\<rparr> = resetServo w" for w by (simp add: resetServo_def)
  obtain d t where d: "dc_lastDrift rc = Fin d" "ci_tLocal inp = Fin t"
    using rc(1) assms(2) by (auto simp: ctrl_inv_def input_ok_def is_fin_iff)
  note steady = servo_steady_ok [OF v1, of d t]
  have act: "servo_act_ok act" using rc(2,4) by (cases act) (simp_all add: servo_act_ok_def seek_free_rate_def)
  show ?thesis
    unfolding servo_evaluate_def inp'_def [symmetric] e
    using v1 reset act steady
    by (cases act) (auto simp: Let_def reset1 drift_getStatus_def d [unfolded jsnum_consts] servo_act_ok_def)
qed

subsection \<open>Runs\<close>

datatype servo_op = ServoEval controller_input | ServoSuspend | ServoResume | RateReport jsnum

fun servo_run :: "discipline \<Rightarrow> servo_op list \<Rightarrow> discipline \<times> ctrl_action list" where
  "servo_run v [] = (v, [])"
| "servo_run v (ServoEval inp # ops) =
     (let (v1, a) = servo_evaluate v inp; (v2, as) = servo_run v1 ops in (v2, a # as))"
| "servo_run v (ServoSuspend # ops) = servo_run (servo_suspend v) ops"
| "servo_run v (ServoResume # ops) = servo_run (servo_resume v) ops"
| "servo_run v (RateReport r # ops) = servo_run (onRateApplied v r) ops"

definition servo_op_ok :: "servo_op \<Rightarrow> bool" where
  "servo_op_ok op = (case op of ServoEval inp \<Rightarrow> input_ok inp | RateReport r \<Rightarrow> is_fin r | _ \<Rightarrow> True)"

lemma servo_run_ok:
  assumes "servo_inv v" "list_all servo_op_ok ops"
  shows "servo_inv (fst (servo_run v ops)) \<and> list_all servo_act_ok (snd (servo_run v ops))"
  using assms
proof (induction v ops rule: servo_run.induct)
  case (2 v inp ops)
  obtain v1 a where e: "servo_evaluate v inp = (v1, a)" by fastforce
  have "servo_inv v1" "servo_act_ok a"
    using servo_evaluate_ok [OF 2(2), of inp] 2(3) e by (simp_all add: servo_op_ok_def)
  with 2 e show ?case by (auto split: prod.splits)
qed (simp_all add: servo_inv_suspend servo_inv_resume servo_inv_onRateApplied servo_op_ok_def)

text \<open>
  Under the servo every commanded playback rate is within 5 percent of 1, every seek goes to a
  finite non-negative position, the integral never winds up past 2 s, and the least-squares
  covariance stays between 0.02 and 1, over any sequence of evaluations, suspensions, resumes and
  rate reports by the player.
\<close>

theorem servo_run_bounds:
  assumes "list_all servo_op_ok ops"
    "servo_run (new_discipline DEFAULT_SERVO_TUNING DEFAULT_CONTROLLER_TUNING) ops = (v, as)"
  shows "(\<forall>r. ActSetRate r \<in> set as \<longrightarrow> (\<exists>q. r = Fin q \<and> 95 / 100 \<le> q \<and> q \<le> 105 / 100)) \<and>
    (\<forall>x. ActSeek x \<in> set as \<longrightarrow> (\<exists>m. x = Fin m \<and> 0 \<le> m)) \<and>
    (\<exists>i. sv_integral v = Fin i \<and> \<bar>i\<bar> \<le> 2) \<and> (\<exists>p. rlsP v = Fin p \<and> 1 / 50 \<le> p \<and> p \<le> 1)"
proof -
  have inv: "servo_inv v" and acts: "list_all servo_act_ok as"
    using servo_run_ok [OF servo_inv_new assms(1)] assms(2) by simp_all
  from acts have "\<forall>a\<in>set as. servo_act_ok a" by (simp add: list_all_iff)
  then have "\<forall>r. ActSetRate r \<in> set as \<longrightarrow> (\<exists>q. r = Fin q \<and> 95 / 100 \<le> q \<and> q \<le> 105 / 100)"
    "\<forall>x. ActSeek x \<in> set as \<longrightarrow> (\<exists>m. x = Fin m \<and> 0 \<le> m)"
    by (auto simp: servo_act_ok_def between_def is_fin_iff dest!: bspec)
  moreover have "\<exists>i. sv_integral v = Fin i \<and> \<bar>i\<bar> \<le> 2" "\<exists>p. rlsP v = Fin p \<and> 1 / 50 \<le> p \<and> p \<le> 1"
    using inv by (auto simp: servo_inv_def between_def abs_le_iff)
  ultimately show ?thesis by blast
qed

theorem servo_run_bounds_witness:
  "\<exists>v as. servo_run (new_discipline DEFAULT_SERVO_TUNING DEFAULT_CONTROLLER_TUNING)
       [ServoEval (demo_tick 4000 (1 / 10) True), RateReport (Fin (97 / 100))] = (v, as) \<and>
     as = [ActSetRate (Fin (97 / 100))] \<and> (\<exists>i. sv_integral v = Fin i \<and> \<bar>i\<bar> \<le> 2)"
proof -
  have ok: "list_all servo_op_ok [ServoEval (demo_tick 4000 (1 / 10) True), RateReport (Fin (97 / 100))]"
    by (simp add: servo_op_ok_def input_ok_def demo_tick_def demo_room_def tl_fin_def)
  obtain v as where r: "servo_run (new_discipline DEFAULT_SERVO_TUNING DEFAULT_CONTROLLER_TUNING)
       [ServoEval (demo_tick 4000 (1 / 10) True), RateReport (Fin (97 / 100))] = (v, as)" by fastforce
  have "as = [ActSetRate (Fin (97 / 100))]" using r
    by (simp add: demo_ctrl_simps new_discipline_def servo_evaluate_def servo_steady_def servo_learn_def
        servo_rate_def drift_getStatus_def DEFAULT_SERVO_TUNING_def)
  then show ?thesis using r servo_run_bounds [OF ok r] by blast
qed

subsection \<open>The skew estimate\<close>

text \<open>
  A player with constant skew \<open>b\<close>: over an interval at applied rate \<open>a\<close> its drift moves by
  ((a - 1) + b) per second. \<open>skew_run\<close> lets the servo see a sequence of such intervals, each given by
  the rate the player reports and the local time at its end.
\<close>

fun skew_run :: "real \<Rightarrow> discipline \<Rightarrow> real \<Rightarrow> real \<Rightarrow> (real \<times> real) list \<Rightarrow> discipline" where
  "skew_run b v t d [] = v"
| "skew_run b v t d ((a, t') # xs) =
     (let d' = d + ((a - 1) + b) * ((t' - t) / 1000) in
      skew_run b (fst (servo_steady (onRateApplied v (Fin a)) (Fin d') (Fin t'))) t' d' xs)"

fun ticking :: "real \<Rightarrow> (real \<times> real) list \<Rightarrow> bool" where
  "ticking t [] = True"
| "ticking t ((a, t') # xs) = (t < t' \<and> t' < t + 2000 \<and> ticking t' xs)"

lemma skew_step:
  assumes "servo_inv v" "sv_lastT v = Some (Fin (t / 1000))" "sv_lastDrift v = Some (Fin d)" "bHat v = Fin e"
    "t < t'" "t' < t + 2000" "d' = d + ((a - 1) + b) * ((t' - t) / 1000)"
    "v' = fst (servo_steady (onRateApplied v (Fin a)) (Fin d') (Fin t'))"
  shows "servo_inv v' \<and> sv_lastT v' = Some (Fin (t' / 1000)) \<and> sv_lastDrift v' = Some (Fin d') \<and>
    (\<exists>e'. bHat v' = Fin e' \<and> \<bar>e' - b\<bar> \<le> 98 / 100 * \<bar>e - b\<bar>)"
proof -
  define v0 where "v0 = onRateApplied v (Fin a)"
  define dt where "dt = (t' - t) / 1000"
  define v1 where "v1 = servo_measure v0 (Fin d') (Fin d) (Fin dt)"
  have v0: "servo_inv v0" using servo_inv_onRateApplied [OF assms(1)] by (simp add: v0_def)
  have dt: "0 < dt" "dt < 2" using assms(5,6) by (simp_all add: dt_def)
  have learn: "servo_learn v0 (Fin d') (Fin (t' / 1000)) = v1"
    using assms(2,3) dt by (simp add: servo_learn_def v0_def onRateApplied_def v1_def dt_def diff_divide_distrib)
  obtain p where p: "rlsP v0 = Fin p" "1 / 50 \<le> p" "p \<le> 1"
    using v0 by (auto simp: servo_inv_def between_def)
  have "sv_servo v0 = DEFAULT_SERVO_TUNING" "bHat v0 = Fin e" "appliedRate v0 = Fin a"
    using v0 assms(4) by (simp_all add: servo_inv_def v0_def onRateApplied_def)
  note val = servo_measure_values(2) [OF this(1) p(1,2) this(2,3) dt(1), of d' d]
  have meas: "(d' - d) / dt - (a - 1) = b" using dt(1) assms(7) by (simp add: dt_def)
  define g where "g = p / (98 / 100 + p)"
  have g: "1 / 50 \<le> g" "g \<le> 1" using rls_range [OF p(2,3)] by (simp_all add: g_def)
  have b1: "bHat v1 = Fin (e + g * (b - e))" using val meas by (simp add: v1_def g_def)
  have "e + g * (b - e) - b = (1 - g) * (e - b)" by (simp add: algebra_simps)
  then have "\<bar>e + g * (b - e) - b\<bar> = (1 - g) * \<bar>e - b\<bar>" using g by (simp add: abs_mult)
  also have "\<dots> \<le> 98 / 100 * \<bar>e - b\<bar>" using g by (intro mult_right_mono) simp_all
  finally have contr: "\<bar>e + g * (b - e) - b\<bar> \<le> 98 / 100 * \<bar>e - b\<bar>" .
  have "servo_inv v'" using servo_steady_ok [OF v0] assms(8) by (simp add: v0_def)
  moreover have "sv_lastT v' = Some (Fin (t' / 1000))" "sv_lastDrift v' = Some (Fin d')" "bHat v' = bHat v1"
    using assms(8) learn by (simp_all add: v0_def servo_steady_def Let_def)
  ultimately show ?thesis using b1 contr by simp
qed

text \<open>
  The servo learns the player's skew: on a player with constant skew, every observed interval
  shorter than 2 s shrinks the error of the skew estimate by at least 2 percent, whatever rates the
  player applied meanwhile, so the estimate converges to the skew geometrically.
\<close>

theorem skew_estimate_converges:
  assumes "servo_inv v" "sv_lastT v = Some (Fin (t / 1000))" "sv_lastDrift v = Some (Fin d)" "bHat v = Fin e"
    "ticking t xs"
  shows "\<exists>e'. bHat (skew_run b v t d xs) = Fin e' \<and> \<bar>e' - b\<bar> \<le> (98 / 100) ^ length xs * \<bar>e - b\<bar>"
  using assms
proof (induction xs arbitrary: v t d e)
  case (Cons x xs)
  obtain a t' where x: "x = (a, t')" by fastforce
  define d' where "d' = d + ((a - 1) + b) * ((t' - t) / 1000)"
  define v' where "v' = fst (servo_steady (onRateApplied v (Fin a)) (Fin d') (Fin t'))"
  have "t < t'" "t' < t + 2000" "ticking t' xs" using Cons.prems(5) by (simp_all add: x)
  from skew_step [OF Cons.prems(1-4) this(1,2) d'_def v'_def] obtain e1 where e1:
      "servo_inv v'" "sv_lastT v' = Some (Fin (t' / 1000))" "sv_lastDrift v' = Some (Fin d')"
      "bHat v' = Fin e1" "\<bar>e1 - b\<bar> \<le> 98 / 100 * \<bar>e - b\<bar>" by blast
  from Cons.IH [OF e1(1-4) \<open>ticking t' xs\<close>] obtain e' where e':
      "bHat (skew_run b v' t' d' xs) = Fin e'" "\<bar>e' - b\<bar> \<le> (98 / 100) ^ length xs * \<bar>e1 - b\<bar>" by blast
  have "(98 / 100) ^ length xs * \<bar>e1 - b\<bar> \<le> (98 / 100) ^ length xs * (98 / 100 * \<bar>e - b\<bar>)"
    using e1(5) by (intro mult_left_mono) simp_all
  from order_trans [OF e'(2) this] have "\<bar>e' - b\<bar> \<le> (98 / 100) ^ length (x # xs) * \<bar>e - b\<bar>"
    by (simp only: list.size power_Suc2 add_0_right add_Suc_right mult.assoc)
  moreover have "skew_run b v t d (x # xs) = skew_run b v' t' d' xs"
    unfolding x v'_def d'_def by (simp only: skew_run.simps Let_def)
  ultimately show ?case using e'(1) by metis
qed simp

theorem skew_estimate_converges_witness:
  "\<exists>v e'. v = fst (servo_steady (new_discipline DEFAULT_SERVO_TUNING DEFAULT_CONTROLLER_TUNING) (Fin 0) (Fin 0)) \<and>
     bHat (skew_run (1 / 100) v 0 0 [(1, 250), (99 / 100, 500)]) = Fin e' \<and> \<bar>e' - 1 / 100\<bar> \<le> (98 / 100) ^ 2 * (1 / 100)"
proof -
  define v where "v = fst (servo_steady (new_discipline DEFAULT_SERVO_TUNING DEFAULT_CONTROLLER_TUNING) (Fin 0) (Fin 0))"
  have "servo_inv v" using servo_steady_ok [OF servo_inv_new] by (simp add: v_def)
  moreover have "sv_lastT v = Some (Fin (0 / 1000))" "sv_lastDrift v = Some (Fin 0)" "bHat v = Fin 0"
    by (simp_all add: v_def servo_steady_def servo_learn_def new_discipline_def Let_def)
  ultimately have "\<exists>e'. bHat (skew_run (1 / 100) v 0 0 [(1, 250), (99 / 100, 500)]) = Fin e' \<and>
      \<bar>e' - 1 / 100\<bar> \<le> (98 / 100) ^ length [(1 :: real, 250 :: real), (99 / 100, 500)] * \<bar>0 - 1 / 100\<bar>"
    by (intro skew_estimate_converges) simp_all
  then show ?thesis by (auto simp: v_def [symmetric] numeral_2_eq_2 simp del: skew_run.simps)
qed

end
