(* ===== verification/MediaSource.thy ===== *)
theory MediaSource
  imports JsString
begin

text \<open>
  Classification and admission of video URLs (shared/media-source.ts). The WHATWG URL parser is a
  parameter: \<open>parse s\<close> is what \<^verbatim>\<open>new URL(s, RELATIVE_BASE)\<close> yields, or \<^term>\<open>None\<close> when it throws.
  Properties: what a classified source guarantees to the player that mounts it, and what admission
  guarantees to the stores and the wire.
\<close>

subsection \<open>Data\<close>

datatype none_reason = EmptySource | UnsupportedSource
datatype container = Mp4 | Webm | Ogg | UnknownContainer

datatype media_source =
    NoSource none_reason
  | YouTube string
  | Vimeo string "string option"
  | Hls string
  | MediaFile string container

text \<open>The parts of a URL object the classifier reads.\<close>

record url =
  u_protocol :: string
  u_hostname :: string
  u_pathname :: string
  u_searchParam :: "string \<Rightarrow> string option"

definition VIDEO_URL_MAX_LEN :: nat where "VIDEO_URL_MAX_LEN = 2048"

subsection \<open>The patterns\<close>

text \<open>One or more characters, none of them white space, after the given prefix.\<close>

definition prefixed :: "string \<Rightarrow> string \<Rightarrow> bool" where
  "prefixed p s = (startsWith s p \<and> length p < length s \<and> list_all (\<lambda>c. \<not> is_ws c) (drop (length p) s))"

definition VIDEO_URL_SHAPE :: "string \<Rightarrow> bool" where
  "VIDEO_URL_SHAPE s = (prefixed ''http://'' s \<or> prefixed ''https://'' s \<or> prefixed ''/media/'' s \<or> prefixed ''media/'' s)"

definition YT_ID :: "string \<Rightarrow> bool" where
  "YT_ID s = (length s = 11 \<and> list_all is_idchar s)"

definition digits1 :: "string \<Rightarrow> bool" where
  "digits1 s = (s \<noteq> [] \<and> list_all is_digit s)"

definition alnum1 :: "string \<Rightarrow> bool" where
  "alnum1 s = (s \<noteq> [] \<and> list_all is_alnum s)"

definition YT_HOSTS :: "string list" where
  "YT_HOSTS = [''youtube.com'', ''m.youtube.com'', ''music.youtube.com'', ''youtube-nocookie.com'']"

subsection \<open>Operations\<close>

definition hostOf :: "url \<Rightarrow> string" where
  "hostOf u = (let h = toLowerCase (u_hostname u) in if take 4 h = ''www.'' then drop 4 h else h)"

definition segmentsOf :: "url \<Rightarrow> string list" where
  "segmentsOf u = filter (\<lambda>s. s \<noteq> []) (split_on CHR ''/'' (u_pathname u))"

text \<open>\<^verbatim>\<open>segs[i]\<close>: undefined past the end.\<close>

definition seg :: "string list \<Rightarrow> nat \<Rightarrow> string option" where
  "seg segs i = (if i < length segs then Some (segs ! i) else None)"

definition extractYouTubeId :: "url \<Rightarrow> string \<Rightarrow> string option" where
  "extractYouTubeId u host =
     (let segs = segmentsOf u in
      if host = ''youtu.be'' then seg segs 0
      else if seg segs 0 = Some ''watch'' then u_searchParam u ''v''
      else if 2 \<le> length segs \<and> segs ! 0 \<in> {''embed'', ''shorts'', ''live'', ''v''} then Some (segs ! 1)
      else None)"

definition classifyVimeo :: "url \<Rightarrow> string \<Rightarrow> media_source" where
  "classifyVimeo u host =
     (let segs = segmentsOf u in
      if host = ''player.vimeo.com'' then
        (if seg segs 0 = Some ''video'' \<and> 1 < length segs \<and> digits1 (segs ! 1)
         then Vimeo (segs ! 1) (if truthy (u_searchParam u ''h'') then u_searchParam u ''h'' else None)
         else NoSource UnsupportedSource)
      else (case seg segs 0 of
          Some s0 \<Rightarrow>
            if digits1 s0
            then Vimeo s0 (case seg segs 1 of Some h \<Rightarrow> if alnum1 h then Some h else None | None \<Rightarrow> None)
            else NoSource UnsupportedSource
        | None \<Rightarrow> NoSource UnsupportedSource))"

definition byExtension :: "url \<Rightarrow> string \<Rightarrow> media_source option" where
  "byExtension u raw =
     (let p = toLowerCase (u_pathname u) in
      if endsWith p ''.m3u8'' then Some (Hls raw)
      else if endsWith p ''.mp4'' then Some (MediaFile raw Mp4)
      else if endsWith p ''.webm'' then Some (MediaFile raw Webm)
      else if endsWith p ''.ogg'' then Some (MediaFile raw Ogg)
      else None)"

definition classifyMediaSource :: "(string \<Rightarrow> url option) \<Rightarrow> string option \<Rightarrow> media_source" where
  "classifyMediaSource parse raw =
     (let s = trim (nullish raw []) in
      if s = [] then NoSource EmptySource
      else if YT_ID s then YouTube s
      else (case parse s of
          None \<Rightarrow> NoSource UnsupportedSource
        | Some u \<Rightarrow>
            if u_protocol u \<noteq> ''http:'' \<and> u_protocol u \<noteq> ''https:'' then NoSource UnsupportedSource
            else
              (let host = hostOf u in
               if host = ''youtu.be'' \<or> host \<in> set YT_HOSTS then
                 (case extractYouTubeId u host of
                    Some i \<Rightarrow> if i \<noteq> ''videoseries'' \<and> YT_ID i then YouTube i else NoSource UnsupportedSource
                  | None \<Rightarrow> NoSource UnsupportedSource)
               else if host = ''vimeo.com'' \<or> host = ''player.vimeo.com'' then classifyVimeo u host
               else nullish (byExtension u s) (MediaFile s UnknownContainer))))"

definition isAcceptableVideoUrl :: "(string \<Rightarrow> url option) \<Rightarrow> string \<Rightarrow> bool" where
  "isAcceptableVideoUrl parse raw =
     (if raw = [] \<or> VIDEO_URL_MAX_LEN < length raw then False
      else if \<not> VIDEO_URL_SHAPE raw \<and> \<not> YT_ID raw then False
      else (case classifyMediaSource parse (Some raw) of NoSource _ \<Rightarrow> False | _ \<Rightarrow> True))"

subsection \<open>What a classification guarantees\<close>

text \<open>
  The contract of a classified source: an identifier of the provider's alphabet, or the input itself
  with an http(s) scheme.
\<close>

definition source_ok :: "(string \<Rightarrow> url option) \<Rightarrow> string \<Rightarrow> media_source \<Rightarrow> bool" where
  "source_ok parse s src = (case src of
     NoSource _ \<Rightarrow> True
   | YouTube i \<Rightarrow> length i = 11 \<and> list_all is_idchar i
   | Vimeo i h \<Rightarrow> i \<noteq> [] \<and> list_all is_digit i \<and> h \<noteq> Some []
   | Hls u \<Rightarrow> u = s \<and> (\<exists>p. parse s = Some p \<and> u_protocol p \<in> {''http:'', ''https:''})
   | MediaFile u _ \<Rightarrow> u = s \<and> (\<exists>p. parse s = Some p \<and> u_protocol p \<in> {''http:'', ''https:''}))"

lemma classifyVimeo_ok: "source_ok parse s (classifyVimeo u host)"
  by (auto simp: classifyVimeo_def source_ok_def digits1_def alnum1_def Let_def split: option.splits)

lemma safe_classification: "source_ok parse (trim (nullish raw [])) (classifyMediaSource parse raw)"
proof -
  define s where "s = trim (nullish raw [])"
  consider "s = []" | "YT_ID s" "s \<noteq> []" | "s \<noteq> []" "\<not> YT_ID s" "parse s = None"
    | u where "s \<noteq> []" "\<not> YT_ID s" "parse s = Some u" by fastforce
  then show ?thesis
  proof cases
    case (4 u)
    have "source_ok parse s (nullish (byExtension u s) (MediaFile s UnknownContainer))"
      if "u_protocol u = ''http:'' \<or> u_protocol u = ''https:''"
      using that 4(3) by (auto simp: byExtension_def source_ok_def Let_def)
    moreover have "source_ok parse s (case extractYouTubeId u h of
        Some i \<Rightarrow> if i \<noteq> ''videoseries'' \<and> YT_ID i then YouTube i else NoSource UnsupportedSource
      | None \<Rightarrow> NoSource UnsupportedSource)" for h
      by (simp add: source_ok_def YT_ID_def split: option.splits)
    ultimately show ?thesis
      using 4 classifyVimeo_ok unfolding classifyMediaSource_def s_def [symmetric] Let_def
      by (auto simp: source_ok_def [of _ _ "NoSource _"])
  qed (auto simp: classifyMediaSource_def s_def [symmetric] source_ok_def YT_ID_def)
qed

text \<open>
  Whatever string a room stores, its classification is safe to mount: a YouTube id is eleven
  characters of the id alphabet, a Vimeo id is a non-empty run of digits, and a stream or file is
  the trimmed input itself, byte for byte, with an http or https scheme, so that no javascript:,
  data: or blob: URL ever becomes a media source.
\<close>

theorem classified_source_is_safe: "source_ok parse (trim (nullish raw [])) (classifyMediaSource parse raw)"
  by (rule safe_classification)

subsection \<open>What admission guarantees\<close>

lemma dropWhile_no_ws: "list_all (\<lambda>c. \<not> is_ws c) s \<Longrightarrow> dropWhile is_ws s = s"
  by (cases s) simp_all

lemma trim_no_ws: "list_all (\<lambda>c. \<not> is_ws c) s \<Longrightarrow> trim s = s"
  by (simp add: trim_def dropWhile_no_ws list_all_rev)

lemma prefixed_no_ws:
  assumes "prefixed p s" "list_all (\<lambda>c. \<not> is_ws c) p"
  shows "list_all (\<lambda>c. \<not> is_ws c) s"
proof -
  have "s = p @ drop (length p) s" using assms(1) by (metis append_take_drop_id prefixed_def startsWith_def)
  then show ?thesis using assms by (metis list_all_append prefixed_def)
qed

lemma idchar_no_ws: "is_idchar c \<Longrightarrow> \<not> is_ws c"
  by (auto simp: is_idchar_def is_ws_def is_alnum_def is_digit_def is_upper_def is_lower_def)

lemma shape_no_ws:
  assumes "VIDEO_URL_SHAPE s \<or> YT_ID s"
  shows "list_all (\<lambda>c. \<not> is_ws c) s"
proof -
  have "list_all (\<lambda>c. \<not> is_ws c) ''http://''" "list_all (\<lambda>c. \<not> is_ws c) ''https://''"
    "list_all (\<lambda>c. \<not> is_ws c) ''/media/''" "list_all (\<lambda>c. \<not> is_ws c) ''media/''"
    by (simp_all add: is_ws_def)
  note p = this [THEN [2] prefixed_no_ws]
  have "list_all (\<lambda>c. \<not> is_ws c) s" if "list_all is_idchar s"
    using that idchar_no_ws by (simp add: list_all_iff)
  then show ?thesis using assms p unfolding VIDEO_URL_SHAPE_def YT_ID_def by blast
qed

text \<open>
  An admitted URL is bounded and playable as given: at most 2048 characters, none of them white
  space (so trimming it changes nothing), and classified as some source, which for a stream or file
  carries exactly the admitted string.
\<close>

theorem admitted_url_is_playable:
  assumes "isAcceptableVideoUrl parse raw"
  shows "length raw \<le> 2048 \<and> list_all (\<lambda>c. \<not> is_ws c) raw \<and> trim raw = raw \<and>
    (\<forall>r. classifyMediaSource parse (Some raw) \<noteq> NoSource r) \<and> source_ok parse raw (classifyMediaSource parse (Some raw))"
proof -
  have ws: "list_all (\<lambda>c. \<not> is_ws c) raw"
    using assms by (intro shape_no_ws) (auto simp: isAcceptableVideoUrl_def split: if_splits)
  have safe: "source_ok parse (trim (nullish (Some raw) [])) (classifyMediaSource parse (Some raw))"
    by (rule safe_classification)
  then show ?thesis
    using assms ws trim_no_ws [OF ws]
    by (auto simp: isAcceptableVideoUrl_def VIDEO_URL_MAX_LEN_def split: if_splits media_source.splits)
qed

definition demo_parse :: "string \<Rightarrow> url option" where
  "demo_parse s = (if startsWith s ''https://'' then Some \<lparr>u_protocol = ''https:'', u_hostname = ''cdn.example'',
     u_pathname = ''/a.MP4'', u_searchParam = (\<lambda>_. None)\<rparr> else None)"

lemma demo_url_ok: "isAcceptableVideoUrl demo_parse ''https://cdn.example/a.MP4''"
  by (simp add: isAcceptableVideoUrl_def VIDEO_URL_MAX_LEN_def VIDEO_URL_SHAPE_def prefixed_def startsWith_def
      is_ws_def YT_ID_def classifyMediaSource_def trim_def demo_parse_def hostOf_def toLowerCase_def to_lower_char_def
      is_upper_def YT_HOSTS_def byExtension_def endsWith_def Let_def split: media_source.splits)

theorem admitted_url_is_playable_witness:
  "isAcceptableVideoUrl demo_parse ''https://cdn.example/a.MP4'' \<and>
   source_ok demo_parse ''https://cdn.example/a.MP4'' (classifyMediaSource demo_parse (Some ''https://cdn.example/a.MP4''))"
  using admitted_url_is_playable [OF demo_url_ok] demo_url_ok by blast

end
