(* ===== verification/Voice.thy ===== *)
theory Voice
  imports JsString
begin

text \<open>
  Voice calls: the shared roster (sync/voice-roster.service.ts) and the signalling gateway of the
  /voice namespace (sync/voice.gateway.ts). Identities are those of the authenticated socket and are
  arguments. Each handler returns what it emits; an error that is caught emits nothing. Properties: the roster the rest of the program reads
  is exactly the set of people on the call, and status events reach only the call the sender joined.
\<close>

subsection \<open>The roster\<close>

record voice_member =
  vm_userId :: string
  vm_username :: string

type_synonym roster = "(string, (string, voice_member) jsmap) jsmap"

definition roster_join :: "roster \<Rightarrow> string \<Rightarrow> string \<Rightarrow> voice_member \<Rightarrow> roster" where
  "roster_join r roomCode socketId member =
     jm_set r roomCode (jm_set (nullish (jm_get r roomCode) []) socketId member)"

fun roster_leave :: "roster \<Rightarrow> string \<Rightarrow> roster \<times> string option" where
  "roster_leave [] socketId = ([], None)"
| "roster_leave ((roomCode, room) # es) socketId =
     (if jm_has room socketId then
        (let room' = jm_del room socketId in (if room' = [] then es else (roomCode, room') # es, Some roomCode))
      else (let (es', left) = roster_leave es socketId in ((roomCode, room) # es', left)))"

definition dedup_by_user :: "(string, voice_member) jsmap \<Rightarrow> (string, voice_member) jsmap" where
  "dedup_by_user room = foldl (\<lambda>m e. jm_set m (vm_userId (snd e)) (snd e)) [] room"

definition roster_list :: "roster \<Rightarrow> string \<Rightarrow> voice_member list" where
  "roster_list r roomCode = (case jm_get r roomCode of None \<Rightarrow> [] | Some room \<Rightarrow> map snd (dedup_by_user room))"

subsection \<open>The gateway\<close>

record voice_user =
  vu_userId :: string
  vu_username :: string
  vu_socketId :: string
  vu_roomCode :: string
  vu_isMuted :: bool
  vu_isDeafened :: bool

text \<open>The maps of the gateway; \<open>channels\<close> are the socket.io rooms of the namespace, by socket and name.\<close>

record voice =
  voiceUsers :: "string \<rightharpoonup> voice_user"
  roomVoiceUsers :: "string \<rightharpoonup> string list"
  v_roster :: roster
  channels :: "(string \<times> string) set"

definition new_voice :: voice where
  "new_voice = \<lparr>voiceUsers = Map.empty, roomVoiceUsers = Map.empty, v_roster = [], channels = {}\<rparr>"

datatype voice_event =
    UsersList "voice_user list"
  | VoiceRoster string "voice_member list"
  | UserJoined string string string
  | UserLeft string string
  | Signal string string string string
  | MuteStatus string string bool
  | DeafenStatus string string bool bool
  | SpeakingStatus string string bool
  | OfferRequest string string

datatype voice_target = ToClient string | ToChannel string | ToOthers string string | ToMainRoom string

type_synonym voice_emit = "(voice_target \<times> voice_event) list"

definition channel :: "string \<Rightarrow> string" where
  "channel roomCode = ''voice-'' @ roomCode"

text \<open>A JavaScript Set in insertion order.\<close>

definition js_add :: "'a list \<Rightarrow> 'a \<Rightarrow> 'a list" where
  "js_add xs x = (if x \<in> set xs then xs else xs @ [x])"

definition js_delete :: "'a list \<Rightarrow> 'a \<Rightarrow> 'a list" where
  "js_delete xs x = filter (\<lambda>y. y \<noteq> x) xs"

definition joinedRoom :: "voice \<Rightarrow> string \<Rightarrow> string option" where
  "joinedRoom v sock = map_option vu_roomCode (voiceUsers v sock)"

definition users_of :: "voice \<Rightarrow> string list \<Rightarrow> voice_user list" where
  "users_of v ids = List.map_filter (voiceUsers v) ids"

definition broadcastVoiceRoster :: "voice \<Rightarrow> string \<Rightarrow> voice_emit" where
  "broadcastVoiceRoster v roomCode =
     [(ToMainRoom roomCode, VoiceRoster roomCode
        (map (\<lambda>u. \<lparr>vm_userId = vu_userId u, vm_username = vu_username u\<rparr>)
          (users_of v (nullish (roomVoiceUsers v roomCode) []))))]"

definition handleJoinVoiceChat :: "voice \<Rightarrow> string \<Rightarrow> voice_member \<Rightarrow> string \<Rightarrow> voice \<times> voice_emit" where
  "handleJoinVoiceChat v sock ident roomCode =
     (let user = \<lparr>vu_userId = vm_userId ident, vu_username = vm_username ident, vu_socketId = sock,
            vu_roomCode = roomCode, vu_isMuted = False, vu_isDeafened = False\<rparr>;
          v' = v\<lparr>voiceUsers := (voiceUsers v)(sock \<mapsto> user),
                 roomVoiceUsers := (roomVoiceUsers v)(roomCode \<mapsto> js_add (nullish (roomVoiceUsers v roomCode) []) sock),
                 v_roster := roster_join (v_roster v) roomCode sock ident,
                 channels := insert (sock, channel roomCode) (channels v)\<rparr>;
          existing = users_of v' (filter (\<lambda>i. i \<noteq> sock) (nullish (roomVoiceUsers v' roomCode) []))
      in (v', [(ToClient sock, UsersList existing)] @ broadcastVoiceRoster v' roomCode @
              [(ToOthers (channel roomCode) sock, UserJoined (vm_userId ident) (vm_username ident) sock)]))"

definition handleLeaveVoice :: "voice \<Rightarrow> string \<Rightarrow> voice_member \<Rightarrow> voice \<times> voice_emit" where
  "handleLeaveVoice v sock ident =
     (if \<not> truthy (joinedRoom v sock) then (v, [])
      else
        (let room = nullish (joinedRoom v sock) [];
             left = (case roomVoiceUsers v room of
                 None \<Rightarrow> roomVoiceUsers v
               | Some ids \<Rightarrow> (let ids' = js_delete ids sock in
                   (roomVoiceUsers v)(room := if ids' = [] then None else Some ids')));
             v' = v\<lparr>voiceUsers := (voiceUsers v)(sock := None), roomVoiceUsers := left,
                    v_roster := fst (roster_leave (v_roster v) sock), channels := channels v - {(sock, channel room)}\<rparr>
         in (v', broadcastVoiceRoster v' room @ [(ToOthers (channel room) sock, UserLeft (vm_userId ident) sock)])))"

definition voice_disconnect :: "voice \<Rightarrow> string \<Rightarrow> voice_member \<Rightarrow> voice \<times> voice_emit" where
  "voice_disconnect v sock ident = (if voiceUsers v sock = None then (v, []) else handleLeaveVoice v sock ident)"

text \<open>
  The relay handlers look the other socket up in \<^verbatim>\<open>this.server.sockets.sockets\<close>. The server of a gateway with a namespace
  is that namespace, whose \<^verbatim>\<open>sockets\<close> is the map of its sockets by id; a map has no property \<^verbatim>\<open>sockets\<close>, and reading its
  values raises. \<open>ns\<close> is the map, and \<^term>\<open>None\<close> the property that is not there. The error is caught and logged.
\<close>

definition sockets_of_map :: "string list \<Rightarrow> string list option" where
  "sockets_of_map ns = None"

definition find_socket :: "string list \<Rightarrow> string \<Rightarrow> unit + string option" where
  "find_socket ns dest = (case sockets_of_map ns of None \<Rightarrow> Inl () | Some ids \<Rightarrow> Inr (List.find (\<lambda>s. s = dest) ids))"

definition handleVoiceSignal :: "string list \<Rightarrow> string \<Rightarrow> voice_member \<Rightarrow> string \<Rightarrow> string \<Rightarrow> voice_emit" where
  "handleVoiceSignal ns sock ident dest signal =
     (case find_socket ns dest of
        Inl _ \<Rightarrow> []
      | Inr None \<Rightarrow> []
      | Inr (Some s) \<Rightarrow> [(ToClient s, Signal sock signal (vm_username ident) (vm_userId ident))])"

definition handleRequestOffer :: "string list \<Rightarrow> string \<Rightarrow> string \<Rightarrow> string \<Rightarrow> voice_emit" where
  "handleRequestOffer ns sock dest roomCode =
     (case find_socket ns dest of
        Inl _ \<Rightarrow> []
      | Inr None \<Rightarrow> []
      | Inr (Some s) \<Rightarrow> [(ToClient s, OfferRequest sock roomCode)])"

lemma no_signal_is_relayed: "handleVoiceSignal ns sock ident dest signal = []" "handleRequestOffer ns sock dest roomCode = []"
  by (simp_all add: handleVoiceSignal_def handleRequestOffer_def find_socket_def sockets_of_map_def)

definition handleMuteToggle :: "voice \<Rightarrow> string \<Rightarrow> voice_member \<Rightarrow> bool \<Rightarrow> voice \<times> voice_emit" where
  "handleMuteToggle v sock ident muted =
     (if \<not> truthy (joinedRoom v sock) then (v, [])
      else (v\<lparr>voiceUsers := (voiceUsers v)(sock := map_option (\<lambda>u. u\<lparr>vu_isMuted := muted\<rparr>) (voiceUsers v sock))\<rparr>,
            [(ToChannel (channel (nullish (joinedRoom v sock) [])), MuteStatus (vm_userId ident) sock muted)]))"

definition deafen_user :: "bool \<Rightarrow> voice_user \<Rightarrow> voice_user" where
  "deafen_user d u = (let u1 = u\<lparr>vu_isDeafened := d\<rparr> in if d then u1\<lparr>vu_isMuted := True\<rparr> else u1)"

definition handleDeafenToggle :: "voice \<Rightarrow> string \<Rightarrow> voice_member \<Rightarrow> bool \<Rightarrow> voice \<times> voice_emit" where
  "handleDeafenToggle v sock ident d =
     (if \<not> truthy (joinedRoom v sock) then (v, [])
      else
        (let user = map_option (deafen_user d) (voiceUsers v sock) in
         (v\<lparr>voiceUsers := (voiceUsers v)(sock := user)\<rparr>,
          [(ToChannel (channel (nullish (joinedRoom v sock) [])),
            DeafenStatus (vm_userId ident) sock d (case user of None \<Rightarrow> False | Some u \<Rightarrow> vu_isMuted u))])))"

definition handleSpeaking :: "voice \<Rightarrow> string \<Rightarrow> voice_member \<Rightarrow> bool \<Rightarrow> voice_emit" where
  "handleSpeaking v sock ident speaking =
     (if \<not> truthy (joinedRoom v sock) then []
      else [(ToOthers (channel (nullish (joinedRoom v sock) [])) sock, SpeakingStatus (vm_userId ident) sock speaking)])"

subsection \<open>The roster as a function of room and socket\<close>

definition roster_at :: "roster \<Rightarrow> string \<Rightarrow> string \<Rightarrow> voice_member option" where
  "roster_at r roomCode sock = (case jm_get r roomCode of None \<Rightarrow> None | Some room \<Rightarrow> jm_get room sock)"

definition roster_ok :: "roster \<Rightarrow> bool" where
  "roster_ok r = (jm_ok r \<and> (\<forall>e \<in> set r. jm_ok (snd e) \<and> snd e \<noteq> []))"

lemma jm_get_single [simp]: "jm_get [(k, v)] k' = (if k' = k then Some v else None)"
  by (simp add: jm_get_def)

lemma roster_room_ok: "roster_ok r \<Longrightarrow> jm_get r rc = Some room \<Longrightarrow> jm_ok room \<and> room \<noteq> []"
  using jm_get_mem [of r rc room] by (auto simp: roster_ok_def)

lemma roster_at_join [simp]:
  "roster_at (roster_join r rc s m) rc' s' = (if rc' = rc \<and> s' = s then Some m else roster_at r rc' s')"
  by (cases "jm_get r rc") (auto simp: roster_at_def roster_join_def)

lemma jm_set_neq_Nil [simp]: "jm_set m k v \<noteq> []"
  by (cases m) auto

lemma set_jm_set: "set (jm_set m k v) \<subseteq> insert (k, v) (set m)"
  by (induction m) auto

lemma roster_ok_join: "roster_ok r \<Longrightarrow> roster_ok (roster_join r rc s m)"
proof -
  assume ok: "roster_ok r"
  have "jm_ok (nullish (jm_get r rc) [])"
    using roster_room_ok [OF ok] by (cases "jm_get r rc") auto
  then show ?thesis
    using ok set_jm_set [of r rc] by (fastforce simp: roster_ok_def roster_join_def)
qed

lemma keys_roster_leave: "set (jm_keys (fst (roster_leave r s))) \<subseteq> set (jm_keys r)"
proof (induction r s rule: roster_leave.induct)
  case (2 rc room es s)
  obtain es' l where l: "roster_leave es s = (es', l)" by fastforce
  show ?case
  proof (cases "jm_has room s")
    case False
    then have "set (jm_keys es') \<subseteq> set (jm_keys es)" using 2 l by simp
    then show ?thesis using False l by auto
  qed (auto simp: Let_def)
qed simp

lemma set_roster_leave: "roster_ok r \<Longrightarrow> roster_ok (fst (roster_leave r s))"
proof -
  show "roster_ok r \<Longrightarrow> roster_ok (fst (roster_leave r s))"
  proof (induction r s rule: roster_leave.induct)
    case (2 rc room es s)
    then have es: "roster_ok es" "rc \<notin> set (jm_keys es)" "jm_ok room" "room \<noteq> []"
      by (auto simp: roster_ok_def jm_ok_def)
    have sub: "rc \<notin> set (jm_keys (fst (roster_leave es s)))" using keys_roster_leave es(2) by blast
    show ?case
    proof (cases "jm_has room s")
      case True
      then show ?thesis using es by (auto simp: roster_ok_def jm_ok_def Let_def jm_del_def distinct_map_filter)
    next
      case False
      then have "roster_ok (fst (roster_leave es s))" using 2 es by simp
      then show ?thesis using False es sub
        by (auto simp: roster_ok_def jm_ok_def split: prod.splits)
    qed
  qed simp
qed

lemma roster_at_Cons: "roster_at ((rc, room) # es) rc' s = (if rc' = rc then jm_get room s else roster_at es rc' s)"
  by (simp add: roster_at_def jm_get_def)

lemma roster_at_None: "rc \<notin> set (jm_keys es) \<Longrightarrow> roster_at es rc s = None"
  by (simp add: roster_at_def jm_get_def map_of_eq_None_iff [THEN iffD2])

lemma roster_at_leave:
  "roster_ok r \<Longrightarrow> (\<And>a b. roster_at r a s \<noteq> None \<Longrightarrow> roster_at r b s \<noteq> None \<Longrightarrow> a = b) \<Longrightarrow>
   roster_at (fst (roster_leave r s)) rc s' = (if s' = s then None else roster_at r rc s')"
proof (induction r s rule: roster_leave.induct)
  case (1 s)
  then show ?case by (simp add: roster_at_def)
next
  case (2 k room es s)
  have es: "roster_ok es" "k \<notin> set (jm_keys es)" using "2.prems"(1) by (auto simp: roster_ok_def jm_ok_def)
  note k = roster_at_None [OF es(2)]
  show ?case
  proof (cases "jm_has room s")
    case True
    have "roster_at es a s = None" for a
    proof (cases "a = k")
      case False
      have "roster_at ((k, room) # es) k s \<noteq> None" using True by (simp add: roster_at_Cons jm_has_get)
      then have "roster_at ((k, room) # es) a s = None" using "2.prems"(2) [of k a] False by blast
      then show ?thesis using False by (simp add: roster_at_Cons)
    qed (simp add: k)
    moreover have "jm_get room s' = None" if "jm_del room s = []" "s' \<noteq> s"
      using that jm_get_del [of room s s'] by simp
    ultimately show ?thesis using True k by (auto simp: Let_def roster_at_Cons)
  next
    case False
    have "a = b" if "roster_at es a s \<noteq> None" "roster_at es b s \<noteq> None" for a b
    proof (rule "2.prems"(2))
      have "a \<noteq> k" "b \<noteq> k" using that k by auto
      then show "roster_at ((k, room) # es) a s \<noteq> None" "roster_at ((k, room) # es) b s \<noteq> None"
        using that by (simp_all add: roster_at_Cons)
    qed
    then have "roster_at (fst (roster_leave es s)) rc s' = (if s' = s then None else roster_at es rc s')"
      using "2.IH" [OF False es(1)] by blast
    then show ?thesis using False by (auto simp: roster_at_Cons jm_has_get split: prod.splits)
  qed
qed

subsection \<open>Deduplication by user\<close>

lemma dedup_by_user_inv:
  "jm_ok m \<Longrightarrow> (\<forall>e \<in> set m. vm_userId (snd e) = fst e) \<Longrightarrow>
   (let m' = foldl (\<lambda>m e. jm_set m (vm_userId (snd e)) (snd e)) m room in
    jm_ok m' \<and> (\<forall>e \<in> set m'. vm_userId (snd e) = fst e) \<and>
    set (jm_keys m') = set (jm_keys m) \<union> (\<lambda>e. vm_userId (snd e)) ` set room)"
proof (induction room arbitrary: m)
  case (Cons e room)
  let ?m = "jm_set m (vm_userId (snd e)) (snd e)"
  have "jm_ok ?m" using Cons.prems by simp
  moreover have "\<forall>e \<in> set ?m. vm_userId (snd e) = fst e"
    using set_jm_set [of m "vm_userId (snd e)" "snd e"] Cons.prems by auto
  moreover have "set (jm_keys ?m) = insert (vm_userId (snd e)) (set (jm_keys m))"
    by (subst jm_keys_set) auto
  ultimately show ?case using Cons.IH [of ?m] by (auto simp: Let_def)
qed simp

lemma dedup_by_user_users: "map vm_userId (map snd (dedup_by_user room)) = jm_keys (dedup_by_user room)"
  "distinct (jm_keys (dedup_by_user room))" "set (jm_keys (dedup_by_user room)) = (\<lambda>e. vm_userId (snd e)) ` set room"
  using dedup_by_user_inv [of "[]" room] by (auto simp: dedup_by_user_def Let_def jm_ok_def)

lemma roster_list_users:
  assumes "roster_ok r"
  shows "distinct (map vm_userId (roster_list r rc)) \<and>
    set (map vm_userId (roster_list r rc)) = {u. \<exists>s m. roster_at r rc s = Some m \<and> vm_userId m = u}"
proof (cases "jm_get r rc")
  case None
  then show ?thesis by (simp add: roster_list_def roster_at_def)
next
  case (Some room)
  then have "jm_ok room" using roster_room_ok [OF assms] by simp
  then have "set (map vm_userId (map snd (dedup_by_user room))) = {u. \<exists>s m. jm_get room s = Some m \<and> vm_userId m = u}"
    unfolding dedup_by_user_users(1) dedup_by_user_users(3) by (force simp: jm_get_mem)
  moreover have "distinct (map vm_userId (map snd (dedup_by_user room)))"
    unfolding dedup_by_user_users(1) by (rule dedup_by_user_users(2))
  ultimately show ?thesis using Some by (simp add: roster_list_def roster_at_def)
qed

subsection \<open>Runs\<close>

datatype voice_op =
    VJoin string voice_member string
  | VLeave string voice_member
  | VDisconnect string voice_member
  | VMute string voice_member bool
  | VDeafen string voice_member bool

fun voice_step :: "voice \<Rightarrow> voice_op \<Rightarrow> voice" where
  "voice_step v (VJoin sock ident room) = fst (handleJoinVoiceChat v sock ident room)"
| "voice_step v (VLeave sock ident) = fst (handleLeaveVoice v sock ident)"
| "voice_step v (VDisconnect sock ident) = fst (voice_disconnect v sock ident)"
| "voice_step v (VMute sock ident b) = fst (handleMuteToggle v sock ident b)"
| "voice_step v (VDeafen sock ident b) = fst (handleDeafenToggle v sock ident b)"

definition voice_run :: "voice \<Rightarrow> voice_op list \<Rightarrow> voice" where
  "voice_run = foldl voice_step"

text \<open>
  The client's discipline: a socket joins a call only with a room code, and only when it is not on
  the call of another room.
\<close>

definition join_disciplined :: "voice \<Rightarrow> voice_op \<Rightarrow> bool" where
  "join_disciplined v p = (case p of
     VJoin sock ident room \<Rightarrow> room \<noteq> [] \<and> (joinedRoom v sock = None \<or> joinedRoom v sock = Some room)
   | _ \<Rightarrow> True)"

fun disciplined :: "voice \<Rightarrow> voice_op list \<Rightarrow> bool" where
  "disciplined v [] = True"
| "disciplined v (p # ps) = (join_disciplined v p \<and> disciplined (voice_step v p) ps)"

text \<open>Who is on the call of a room, from the gateway's own table.\<close>

definition on_call :: "voice \<Rightarrow> string \<Rightarrow> string \<Rightarrow> voice_member option" where
  "on_call v room sock = (case voiceUsers v sock of
     None \<Rightarrow> None
   | Some u \<Rightarrow> if vu_roomCode u = room then Some \<lparr>vm_userId = vu_userId u, vm_username = vu_username u\<rparr> else None)"

definition voice_ok :: "voice \<Rightarrow> bool" where
  "voice_ok v = (roster_ok (v_roster v) \<and>
     (\<forall>room sock. roster_at (v_roster v) room sock = on_call v room sock) \<and>
     (\<forall>room sock. sock \<in> set (nullish (roomVoiceUsers v room) []) \<longleftrightarrow> on_call v room sock \<noteq> None) \<and>
     (\<forall>room sock. (sock, channel room) \<in> channels v \<longleftrightarrow> on_call v room sock \<noteq> None) \<and>
     (\<forall>sock u. voiceUsers v sock = Some u \<longrightarrow> vu_roomCode u \<noteq> []))"

lemma channel_inject [simp]: "channel a = channel b \<longleftrightarrow> a = b"
  by (simp add: channel_def)

lemma set_js_add [simp]: "set (js_add xs x) = insert x (set xs)"
  by (auto simp: js_add_def)

lemma set_js_delete [simp]: "set (js_delete xs x) = set xs - {x}"
  by (auto simp: js_delete_def)

lemma on_call_unique: "on_call v a s \<noteq> None \<Longrightarrow> on_call v b s \<noteq> None \<Longrightarrow> a = b"
  by (auto simp: on_call_def split: option.splits if_splits)

lemma voice_ok_new: "voice_ok new_voice"
  by (simp add: voice_ok_def new_voice_def roster_ok_def roster_at_def on_call_def)

text \<open>The three operations change who is on the call of a room in the obvious way.\<close>

lemma on_call_join:
  assumes "join_disciplined v (VJoin sock ident room)"
  shows "on_call (fst (handleJoinVoiceChat v sock ident room)) r s =
    (if r = room \<and> s = sock then Some \<lparr>vm_userId = vm_userId ident, vm_username = vm_username ident\<rparr> else on_call v r s)"
  using assms by (auto simp: on_call_def handleJoinVoiceChat_def Let_def join_disciplined_def joinedRoom_def)

lemma on_call_leave:
  assumes "joinedRoom v sock = Some room" "room \<noteq> []"
  shows "on_call (fst (handleLeaveVoice v sock ident)) r s = (if s = sock then None else on_call v r s)"
  using assms by (auto simp: on_call_def handleLeaveVoice_def Let_def)

lemma voice_ok_join:
  assumes "voice_ok v" "join_disciplined v (VJoin sock ident room)"
  shows "voice_ok (fst (handleJoinVoiceChat v sock ident room))"
proof -
  have id: "\<lparr>vm_userId = vm_userId ident, vm_username = vm_username ident\<rparr> = ident" by simp
  let ?v = "fst (handleJoinVoiceChat v sock ident room)"
  have fields: "v_roster ?v = roster_join (v_roster v) room sock ident"
      "nullish (roomVoiceUsers ?v r) [] = (if r = room then js_add (nullish (roomVoiceUsers v room) []) sock else nullish (roomVoiceUsers v r) [])"
      "channels ?v = insert (sock, channel room) (channels v)"
      "voiceUsers ?v s = Some u \<Longrightarrow> vu_roomCode u \<noteq> []" for r s u
    using assms by (auto simp: handleJoinVoiceChat_def Let_def join_disciplined_def voice_ok_def split: if_splits)
  show ?thesis unfolding voice_ok_def on_call_join [OF assms(2)] fields id
    using assms(1) fields(4) roster_ok_join by (auto simp: voice_ok_def)
qed

lemma voice_ok_leave:
  assumes "voice_ok v"
  shows "voice_ok (fst (handleLeaveVoice v sock ident))"
proof (cases "truthy (joinedRoom v sock)")
  case False
  then show ?thesis using assms by (simp add: handleLeaveVoice_def)
next
  case True
  then obtain room where room: "joinedRoom v sock = Some room" "room \<noteq> []" by (auto simp: truthy_iff)
  let ?v = "fst (handleLeaveVoice v sock ident)"
  have here: "on_call v r sock \<noteq> None \<longleftrightarrow> r = room" for r
    using room(1) by (auto simp: on_call_def joinedRoom_def split: if_splits)
  have uniq: "a = b" if "roster_at (v_roster v) a sock \<noteq> None" "roster_at (v_roster v) b sock \<noteq> None" for a b
    using that assms on_call_unique by (simp add: voice_ok_def)
  have ids: "set (nullish (roomVoiceUsers ?v r) []) = set (nullish (roomVoiceUsers v r) []) - (if r = room then {sock} else {})" for r
    using room
    by (cases "roomVoiceUsers v room") (auto simp: handleLeaveVoice_def Let_def filter_empty_conv js_delete_def)
  have fields: "v_roster ?v = fst (roster_leave (v_roster v) sock)" "channels ?v = channels v - {(sock, channel room)}"
      "voiceUsers ?v s = Some u \<Longrightarrow> vu_roomCode u \<noteq> []" for s u
    using room assms by (auto simp: handleLeaveVoice_def Let_def voice_ok_def split: if_splits)
  have ok: "roster_ok (v_roster v)" using assms by (simp add: voice_ok_def)
  have at: "roster_at (fst (roster_leave (v_roster v) sock)) r s = (if s = sock then None else roster_at (v_roster v) r s)" for r s
    by (rule roster_at_leave [OF ok]) (rule uniq)
  show ?thesis unfolding voice_ok_def on_call_leave [OF room] fields ids at
    using assms here fields(3) set_roster_leave [OF ok]
    by (auto simp: voice_ok_def split: if_splits)
qed

lemma voice_ok_flags:
  assumes "voice_ok v" "\<And>u. vu_roomCode (f u) = vu_roomCode u \<and> vu_userId (f u) = vu_userId u \<and> vu_username (f u) = vu_username u"
  shows "voice_ok (v\<lparr>voiceUsers := (voiceUsers v)(sock := map_option f (voiceUsers v sock))\<rparr>)"
proof -
  have "on_call (v\<lparr>voiceUsers := (voiceUsers v)(sock := map_option f (voiceUsers v sock))\<rparr>) = on_call v"
    using assms(2) by (auto simp: fun_eq_iff on_call_def split: option.splits)
  then show ?thesis using assms by (auto simp: voice_ok_def)
qed

lemma voice_ok_step: "voice_ok v \<Longrightarrow> join_disciplined v p \<Longrightarrow> voice_ok (voice_step v p)"
proof (cases p)
  case (VMute sock ident b)
  then show "voice_ok v \<Longrightarrow> voice_ok (voice_step v p)" by (simp add: handleMuteToggle_def voice_ok_flags)
next
  case (VDeafen sock ident b)
  then show "voice_ok v \<Longrightarrow> voice_ok (voice_step v p)"
    by (simp add: handleDeafenToggle_def Let_def voice_ok_flags deafen_user_def)
qed (auto simp: voice_ok_join voice_ok_leave voice_disconnect_def)

lemma voice_ok_run: "voice_ok v \<Longrightarrow> disciplined v ps \<Longrightarrow> voice_ok (voice_run v ps)"
  by (induction ps arbitrary: v) (auto simp: voice_run_def voice_ok_step)

text \<open>
  C25. The voice roster is accurate: after any sequence of joins, leaves, disconnects and mute or
  deafen toggles in which no socket joins a second call before it left the first, the roster of a
  room that the rest of the program reads names every user with a socket on that call, names nobody
  else, and names each of them once, however many tabs they have open. The socket.io channel of the
  call holds exactly those sockets.
\<close>

theorem voice_roster_accurate:
  assumes "disciplined new_voice ps"
  shows "distinct (map vm_userId (roster_list (v_roster (voice_run new_voice ps)) room)) \<and>
    set (map vm_userId (roster_list (v_roster (voice_run new_voice ps)) room)) =
      {vu_userId u |sock u. voiceUsers (voice_run new_voice ps) sock = Some u \<and> vu_roomCode u = room} \<and>
    {sock. (sock, channel room) \<in> channels (voice_run new_voice ps)} =
      {sock. joinedRoom (voice_run new_voice ps) sock = Some room}"
proof -
  let ?v = "voice_run new_voice ps"
  have ok: "voice_ok ?v" using voice_ok_run [OF voice_ok_new assms] .
  then have "roster_at (v_roster ?v) room s = on_call ?v room s" for s by (simp add: voice_ok_def)
  then have "{u. \<exists>s m. roster_at (v_roster ?v) room s = Some m \<and> vm_userId m = u} =
      {vu_userId u |sock u. voiceUsers ?v sock = Some u \<and> vu_roomCode u = room}"
    by (force simp: on_call_def split: option.splits if_splits)
  moreover have "{sock. (sock, channel room) \<in> channels ?v} = {sock. joinedRoom ?v sock = Some room}"
    using ok by (auto simp: voice_ok_def on_call_def joinedRoom_def split: option.splits if_splits)
  ultimately show ?thesis using roster_list_users [of "v_roster ?v" room] ok by (simp add: voice_ok_def)
qed

definition demo_voice :: "voice_op list" where
  "demo_voice =
    [VJoin ''s1'' \<lparr>vm_userId = ''ann'', vm_username = ''Ann''\<rparr> ''r'', VJoin ''s2'' \<lparr>vm_userId = ''bob'', vm_username = ''Bob''\<rparr> ''r'',
     VJoin ''s3'' \<lparr>vm_userId = ''ann'', vm_username = ''Ann''\<rparr> ''r'', VLeave ''s2'' \<lparr>vm_userId = ''bob'', vm_username = ''Bob''\<rparr>]"

lemmas voice_eval = handleJoinVoiceChat_def handleLeaveVoice_def join_disciplined_def joinedRoom_def new_voice_def Let_def
  roster_join_def jm_get_def jm_has_def jm_del_def js_add_def js_delete_def

theorem voice_roster_accurate_witness:
  "map vm_userId (roster_list (v_roster (voice_run new_voice demo_voice)) ''r'') = [''ann''] \<and>
   {vu_userId u |sock u. voiceUsers (voice_run new_voice demo_voice) sock = Some u \<and> vu_roomCode u = ''r''} = {''ann''}"
proof -
  have "disciplined new_voice demo_voice" by (simp add: demo_voice_def voice_eval)
  moreover have "map vm_userId (roster_list (v_roster (voice_run new_voice demo_voice)) ''r'') = [''ann'']"
    by (simp add: demo_voice_def voice_run_def voice_eval roster_list_def dedup_by_user_def)
  ultimately show ?thesis using voice_roster_accurate [of demo_voice "''r''"] by simp
qed

text \<open>
  Without that discipline the tables part: a socket that joins a second call without leaving the
  first stays on the first roster, and leaving then clears the wrong one, so that a user who is on
  no call at all is listed on the second call for good.
\<close>

theorem voice_room_switch_leaves_ghost:
  "let ann = \<lparr>vm_userId = ''ann'', vm_username = ''Ann''\<rparr>;
       v = voice_run new_voice [VJoin ''s1'' ann ''a'', VJoin ''s1'' ann ''b'', VLeave ''s1'' ann] in
   voiceUsers v ''s1'' = None \<and> roster_list (v_roster v) ''b'' = [ann] \<and>
   voice_step v (VLeave ''s1'' ann) = v \<and> voice_step v (VDisconnect ''s1'' ann) = v"
  by (simp add: voice_run_def voice_eval roster_list_def dedup_by_user_def voice_disconnect_def)

text \<open>The announced roster is not deduplicated: two tabs of one user are announced as two people.\<close>

theorem broadcast_roster_repeats_user:
  "let ann = \<lparr>vm_userId = ''ann'', vm_username = ''Ann''\<rparr>;
       v = voice_run new_voice [VJoin ''s1'' ann ''a'', VJoin ''s2'' ann ''a''] in
   broadcastVoiceRoster v ''a'' = [(ToMainRoom ''a'', VoiceRoster ''a'' [ann, ann])] \<and> roster_list (v_roster v) ''a'' = [ann]"
  by (simp add: voice_run_def voice_eval roster_list_def dedup_by_user_def broadcastVoiceRoster_def users_of_def List.map_filter_def)

end
