(* ===== verification/Revocation.thy ===== *)
theory Revocation
  imports JsString
begin

text \<open>
  Token claims (auth/token-payload.ts) and the revocation service (auth/revocation.service.ts). The
  durable truth is two database tables; the service keeps an in-memory snapshot that every request
  consults. The reload is split at its awaits into the steps other revocations can interleave with,
  as an inductive step relation. Properties: a revocation remembered by an instance is never
  forgotten while the token lives, versions never go back, and a rotation is claimed exactly once.
\<close>

subsection \<open>Token claims\<close>

record token_payload =
  tp_sub :: jsval
  tp_name :: jsval
  tp_jti :: jsval
  tp_ver :: jsval
  tp_sess :: jsval
  tp_elev :: jsval
  tp_iat :: jsval
  tp_exp :: jsval

definition subjectOf :: "token_payload \<Rightarrow> string option" where
  "subjectOf p = (case tp_sub p of JStr s \<Rightarrow> if 0 < length s then Some s else None | _ \<Rightarrow> None)"

definition versionOf :: "token_payload \<Rightarrow> nat option" where
  "versionOf p = (case tp_ver p of
     JUndef \<Rightarrow> Some 0
   | JNull \<Rightarrow> Some 0
   | JNum v \<Rightarrow> if is_integer v \<and> 0 \<le> v then Some (nat \<lfloor>fin_val v\<rfloor>) else None
   | _ \<Rightarrow> None)"

subsection \<open>The database\<close>

record revoked_row =
  rv_userId :: string
  rv_expiresAt :: nat

record auth_db =
  ad_now :: nat
  ad_revoked :: "string \<rightharpoonup> revoked_row"
  ad_versions :: "string \<Rightarrow> nat"

subsection \<open>The service\<close>

record revocation =
  revokedTokens :: "string set"
  userVersions :: "string \<rightharpoonup> nat"
  rv_loaded :: bool
  pendingTokens :: "string set"
  pendingVersions :: "string \<rightharpoonup> nat"
  refreshing :: bool

datatype rev_event = TokenEvent string | UserEvent string nat

datatype rev_reason = RevToken | RevUser

definition new_revocation :: revocation where
  "new_revocation = \<lparr>revokedTokens = {}, userVersions = Map.empty, rv_loaded = False, pendingTokens = {},
     pendingVersions = Map.empty, refreshing = False\<rparr>"

definition isRevoked :: "revocation \<Rightarrow> token_payload \<Rightarrow> rev_reason option" where
  "isRevoked rv p =
     (if \<not> rv_loaded rv then Some RevUser
      else if (case tp_jti p of JStr j \<Rightarrow> j \<noteq> [] \<and> j \<in> revokedTokens rv | _ \<Rightarrow> False) then Some RevToken
      else (case subjectOf p of
          None \<Rightarrow> None
        | Some sub \<Rightarrow>
            (case versionOf p of
               None \<Rightarrow> Some RevUser
             | Some claimed \<Rightarrow> if claimed < nullish (userVersions rv sub) 0 then Some RevUser else None)))"

definition rememberToken :: "revocation \<Rightarrow> string \<Rightarrow> revocation" where
  "rememberToken rv jti =
     rv\<lparr>revokedTokens := insert jti (revokedTokens rv),
        pendingTokens := (if refreshing rv then insert jti (pendingTokens rv) else pendingTokens rv)\<rparr>"

definition raise_version :: "(string \<rightharpoonup> nat) \<Rightarrow> string \<Rightarrow> nat \<Rightarrow> (string \<rightharpoonup> nat)" where
  "raise_version m u v = (if nullish (m u) 0 < v then m(u \<mapsto> v) else m)"

definition rememberVersion :: "revocation \<Rightarrow> string \<Rightarrow> nat \<Rightarrow> revocation" where
  "rememberVersion rv u v =
     rv\<lparr>userVersions := raise_version (userVersions rv) u v,
        pendingVersions := (if refreshing rv then raise_version (pendingVersions rv) u v else pendingVersions rv)\<rparr>"

text \<open>
  The operations, each a database write and then its local effect; the result carries the event that
  is handed to the local handlers and published. Mirroring to Redis and publishing swallow their
  own errors.
\<close>

definition upsert_revoked :: "auth_db \<Rightarrow> string \<Rightarrow> string \<Rightarrow> nat \<Rightarrow> auth_db" where
  "upsert_revoked db jti u ex =
     (if ad_revoked db jti = None
      then db\<lparr>ad_revoked := (ad_revoked db)(jti \<mapsto> \<lparr>rv_userId = u, rv_expiresAt = ex\<rparr>)\<rparr> else db)"

definition revokeToken :: "auth_db \<Rightarrow> revocation \<Rightarrow> string \<Rightarrow> string \<Rightarrow> nat \<Rightarrow> auth_db \<times> revocation \<times> rev_event" where
  "revokeToken db rv jti u ex = (upsert_revoked db jti u ex, rememberToken rv jti, TokenEvent jti)"

definition claimRevocation ::
  "auth_db \<Rightarrow> revocation \<Rightarrow> string \<Rightarrow> string \<Rightarrow> nat \<Rightarrow> auth_db \<times> revocation \<times> rev_event option \<times> bool" where
  "claimRevocation db rv jti u ex =
     (if ad_revoked db jti = None
      then (db\<lparr>ad_revoked := (ad_revoked db)(jti \<mapsto> \<lparr>rv_userId = u, rv_expiresAt = ex\<rparr>)\<rparr>,
            rememberToken rv jti, Some (TokenEvent jti), True)
      else (db, rememberToken rv jti, None, False))"

definition isJtiRevokedDurable :: "auth_db \<Rightarrow> string \<Rightarrow> bool" where
  "isJtiRevokedDurable db jti = (ad_revoked db jti \<noteq> None)"

definition revokeAllForUser :: "auth_db \<Rightarrow> revocation \<Rightarrow> string \<Rightarrow> auth_db \<times> revocation \<times> rev_event \<times> nat" where
  "revokeAllForUser db rv u =
     (let v = ad_versions db u + 1 in
      (db\<lparr>ad_versions := (ad_versions db)(u := v)\<rparr>, rememberVersion rv u v, UserEvent u v, v))"

definition noteVersionBumped :: "revocation \<Rightarrow> string \<Rightarrow> nat \<Rightarrow> revocation \<times> rev_event" where
  "noteVersionBumped rv u v = (rememberVersion rv u v, UserEvent u v)"

text \<open>reload, up to its first await: the flag is raised and the buffers are emptied.\<close>

definition reload_begin :: "revocation \<Rightarrow> revocation" where
  "reload_begin rv = rv\<lparr>refreshing := True, pendingTokens := {}, pendingVersions := Map.empty\<rparr>"

text \<open>The two queries, each answered at some moment of the await.\<close>

definition query_tokens :: "auth_db \<Rightarrow> string set" where
  "query_tokens db = {j. case ad_revoked db j of None \<Rightarrow> False | Some row \<Rightarrow> ad_now db < rv_expiresAt row}"

definition query_versions :: "auth_db \<Rightarrow> (string \<rightharpoonup> nat)" where
  "query_versions db = (\<lambda>u. if 0 < ad_versions db u then Some (ad_versions db u) else None)"

text \<open>The merge and replacement after the queries, and the finally block.\<close>

definition merge_versions :: "(string \<rightharpoonup> nat) \<Rightarrow> (string \<rightharpoonup> nat) \<Rightarrow> (string \<rightharpoonup> nat)" where
  "merge_versions nxt pend = (\<lambda>u. case pend u of
     None \<Rightarrow> nxt u
   | Some v \<Rightarrow> Some (max (nullish (nxt u) 0) v))"

definition reload_merge :: "revocation \<Rightarrow> string set \<Rightarrow> (string \<rightharpoonup> nat) \<Rightarrow> revocation" where
  "reload_merge rv tokens versions =
     rv\<lparr>revokedTokens := tokens \<union> pendingTokens rv,
        userVersions := merge_versions versions (pendingVersions rv), rv_loaded := True\<rparr>"

definition reload_end :: "revocation \<Rightarrow> revocation" where
  "reload_end rv = rv\<lparr>refreshing := False, pendingTokens := {}, pendingVersions := Map.empty\<rparr>"

definition sweep_revoked :: "auth_db \<Rightarrow> auth_db" where
  "sweep_revoked db = db\<lparr>ad_revoked := (\<lambda>j. case ad_revoked db j of
     None \<Rightarrow> None | Some row \<Rightarrow> if rv_expiresAt row < ad_now db then None else Some row)\<rparr>"

text \<open>
  The mirror in Redis, kept for the relay: a set of token ids and a hash of versions. The rebuild
  writes temporary keys and renames them over the live ones inside one transaction, which replaces
  both keys at once (an empty part deletes its key); without a connection nothing is mirrored.
\<close>

record rev_mirror =
  mir_jti :: "string set"
  mir_userver :: "string \<rightharpoonup> nat"

definition mirrorSnapshot :: "bool \<Rightarrow> rev_mirror \<Rightarrow> string set \<Rightarrow> (string \<rightharpoonup> nat) \<Rightarrow> rev_mirror" where
  "mirrorSnapshot kv m jtis versions = (if kv then m\<lparr>mir_jti := jtis, mir_userver := versions\<rparr> else m)"

definition mirrorToken :: "bool \<Rightarrow> rev_mirror \<Rightarrow> string \<Rightarrow> rev_mirror" where
  "mirrorToken kv m jti = (if kv then m\<lparr>mir_jti := insert jti (mir_jti m)\<rparr> else m)"

definition mirrorVersion :: "bool \<Rightarrow> rev_mirror \<Rightarrow> string \<Rightarrow> nat \<Rightarrow> rev_mirror" where
  "mirrorVersion kv m u v = (if kv then m\<lparr>mir_userver := (mir_userver m)(u \<mapsto> v)\<rparr> else m)"

text \<open>The mirror stays what the snapshot is, as long as the two are written together.\<close>

definition mirror_ok :: "rev_mirror \<Rightarrow> revocation \<Rightarrow> bool" where
  "mirror_ok m rv = (mir_jti m = revokedTokens rv \<and> (\<forall>u. nullish (mir_userver m u) 0 = nullish (userVersions rv u) 0))"

lemma mirror_keeps:
  "mirror_ok m rv \<Longrightarrow> mirror_ok (mirrorToken True m jti) (rememberToken rv jti)"
  "mirror_ok m rv \<Longrightarrow> nullish (userVersions rv u) 0 \<le> v \<Longrightarrow> mirror_ok (mirrorVersion True m u v) (rememberVersion rv u v)"
  "mirror_ok (mirrorSnapshot True m (revokedTokens (reload_merge rv T V)) (userVersions (reload_merge rv T V)))
     (reload_merge rv T V)"
  by (auto simp: mirror_ok_def mirrorToken_def rememberToken_def mirrorVersion_def rememberVersion_def
    raise_version_def mirrorSnapshot_def)

text \<open>A message from another instance; a malformed one is ignored.\<close>

datatype wire_event = WireToken string | WireUser string jsval | WireBad

definition applyEvent :: "revocation \<Rightarrow> wire_event \<Rightarrow> revocation \<times> rev_event option" where
  "applyEvent rv ev = (case ev of
     WireToken jti \<Rightarrow> if jti = [] then (rv, None) else (rememberToken rv jti, Some (TokenEvent jti))
   | WireUser u (JNum v) \<Rightarrow>
       if u \<noteq> [] \<and> is_integer v \<and> 0 < v
       then (rememberVersion rv u (nat \<lfloor>fin_val v\<rfloor>), Some (UserEvent u (nat \<lfloor>fin_val v\<rfloor>))) else (rv, None)
   | _ \<Rightarrow> (rv, None))"

subsection \<open>Interleavings of one instance with the database\<close>

text \<open>
  Where the reload stands: not running, waiting for queries (each answered or not yet), or merged
  and mirroring. The database may be written by anyone at any time; an instance remembers a
  revocation only after it is durable, which is the order of every writer and of the announcements.
\<close>

datatype reload_phase = Idle | Querying "string set option" "(string \<rightharpoonup> nat) option" | Mirroring

record rev_system =
  rs_db :: auth_db
  rs_rv :: revocation
  rs_phase :: reload_phase

inductive rev_step :: "rev_system \<Rightarrow> rev_system \<Rightarrow> bool" where
  time: "rev_step s (s\<lparr>rs_db := (rs_db s)\<lparr>ad_now := ad_now (rs_db s) + dt\<rparr>\<rparr>)"
| db_revoke: "rev_step s (s\<lparr>rs_db := upsert_revoked (rs_db s) jti u ex\<rparr>)"
| db_bump: "rev_step s (s\<lparr>rs_db := (rs_db s)\<lparr>ad_versions := (ad_versions (rs_db s))(u := ad_versions (rs_db s) u + 1)\<rparr>\<rparr>)"
| db_sweep: "rev_step s (s\<lparr>rs_db := sweep_revoked (rs_db s)\<rparr>)"
| remember_token: "ad_revoked (rs_db s) jti \<noteq> None \<Longrightarrow> rev_step s (s\<lparr>rs_rv := rememberToken (rs_rv s) jti\<rparr>)"
| remember_version: "v \<le> ad_versions (rs_db s) u \<Longrightarrow> rev_step s (s\<lparr>rs_rv := rememberVersion (rs_rv s) u v\<rparr>)"
| start: "rs_phase s = Idle \<Longrightarrow> rev_step s (s\<lparr>rs_rv := reload_begin (rs_rv s), rs_phase := Querying None None\<rparr>)"
| read_tokens: "rs_phase s = Querying None vs \<Longrightarrow>
    rev_step s (s\<lparr>rs_phase := Querying (Some (query_tokens (rs_db s))) vs\<rparr>)"
| read_versions: "rs_phase s = Querying ts None \<Longrightarrow>
    rev_step s (s\<lparr>rs_phase := Querying ts (Some (query_versions (rs_db s)))\<rparr>)"
| merge: "rs_phase s = Querying (Some ts) (Some vs) \<Longrightarrow>
    rev_step s (s\<lparr>rs_rv := reload_merge (rs_rv s) ts vs, rs_phase := Mirroring\<rparr>)"
| finish: "rs_phase s = Mirroring \<Longrightarrow> rev_step s (s\<lparr>rs_rv := reload_end (rs_rv s), rs_phase := Idle\<rparr>)"
| fail: "rs_phase s = Querying ts vs \<Longrightarrow> rev_step s (s\<lparr>rs_rv := reload_end (rs_rv s), rs_phase := Idle\<rparr>)"

inductive_cases rev_stepE: "rev_step s s'"

inductive rev_steps :: "rev_system \<Rightarrow> rev_system \<Rightarrow> bool" where
  refl: "rev_steps s s"
| step: "rev_steps s s' \<Longrightarrow> rev_step s' s'' \<Longrightarrow> rev_steps s s''"

definition rev_start :: "auth_db \<Rightarrow> rev_system" where
  "rev_start db = \<lparr>rs_db = db, rs_rv = new_revocation, rs_phase = Idle\<rparr>"

text \<open>The operations are runs of these steps.\<close>

lemma rev_steps_two: "rev_step s s1 \<Longrightarrow> rev_step s1 s2 \<Longrightarrow> rev_steps s s2"
  by (rule rev_steps.step [OF rev_steps.step [OF rev_steps.refl]])

lemma revokeToken_steps:
  assumes "revokeToken (rs_db s) (rs_rv s) jti u ex = (db', rv', ev)"
  shows "rev_steps s (s\<lparr>rs_db := db', rs_rv := rv'\<rparr>)"
proof -
  let ?s = "s\<lparr>rs_db := upsert_revoked (rs_db s) jti u ex\<rparr>"
  have "ad_revoked (rs_db ?s) jti \<noteq> None" by (simp add: upsert_revoked_def)
  from rev_steps_two [OF rev_step.db_revoke rev_step.remember_token, OF this]
  show ?thesis using assms by (auto simp: revokeToken_def)
qed

lemma claimRevocation_steps:
  assumes "claimRevocation (rs_db s) (rs_rv s) jti u ex = (db', rv', ev, won)"
  shows "rev_steps s (s\<lparr>rs_db := db', rs_rv := rv'\<rparr>)"
proof -
  have *: "db' = upsert_revoked (rs_db s) jti u ex" "rv' = rememberToken (rs_rv s) jti"
    using assms by (auto simp: claimRevocation_def upsert_revoked_def split: if_splits)
  show ?thesis unfolding * by (rule revokeToken_steps) (simp add: revokeToken_def)
qed

lemma revokeAllForUser_steps:
  assumes "revokeAllForUser (rs_db s) (rs_rv s) u = (db', rv', ev, v)"
  shows "rev_steps s (s\<lparr>rs_db := db', rs_rv := rv'\<rparr>)"
proof -
  let ?s = "s\<lparr>rs_db := (rs_db s)\<lparr>ad_versions := (ad_versions (rs_db s))(u := ad_versions (rs_db s) u + 1)\<rparr>\<rparr>"
  have "v \<le> ad_versions (rs_db ?s) u" using assms by (simp add: revokeAllForUser_def Let_def)
  from rev_steps_two [OF rev_step.db_bump rev_step.remember_version, OF this]
  show ?thesis using assms by (auto simp: revokeAllForUser_def Let_def)
qed

lemma rev_steps_trans: "rev_steps s' s'' \<Longrightarrow> rev_steps s s' \<Longrightarrow> rev_steps s s''"
  by (induction rule: rev_steps.induct) (auto intro: rev_steps.intros)

text \<open>The flag is up exactly while a reload runs.\<close>

definition phase_ok :: "rev_system \<Rightarrow> bool" where
  "phase_ok s = (refreshing (rs_rv s) \<longleftrightarrow> rs_phase s \<noteq> Idle)"

lemmas rev_op_defs [auth_simps] = rememberToken_def rememberVersion_def reload_begin_def reload_merge_def reload_end_def

lemma phase_ok_step: "rev_step s s' \<Longrightarrow> phase_ok s \<Longrightarrow> phase_ok s'"
  by (erule rev_step.cases) (auto simp: phase_ok_def rev_op_defs)

lemma phase_ok_steps: "rev_steps s s' \<Longrightarrow> phase_ok s \<Longrightarrow> phase_ok s'"
  by (induction rule: rev_steps.induct) (auto intro: phase_ok_step)

lemma phase_ok_start: "phase_ok (rev_start db)"
  by (simp add: phase_ok_def rev_start_def new_revocation_def)

text \<open>A remembered revocation: durable, in the snapshot, and safe from the reload in flight.\<close>

definition held :: "string \<Rightarrow> nat \<Rightarrow> rev_system \<Rightarrow> bool" where
  "held j ex s =
     ((\<exists>row. ad_revoked (rs_db s) j = Some row \<and> rv_expiresAt row = ex) \<and> j \<in> revokedTokens (rs_rv s) \<and>
      (\<forall>T vs. rs_phase s = Querying (Some T) vs \<longrightarrow> j \<in> T \<union> pendingTokens (rs_rv s)))"

lemma held_step:
  assumes "rev_step s s'" "phase_ok s" "held j ex s" "ad_now (rs_db s') < ex"
  shows "held j ex s'"
  using assms
proof (cases rule: rev_step.cases)
  case (read_tokens vs)
  then show ?thesis using assms(3,4) by (auto simp: held_def query_tokens_def)
qed (auto simp: held_def phase_ok_def rev_op_defs upsert_revoked_def sweep_revoked_def)

lemma rev_step_time: "rev_step s s' \<Longrightarrow> ad_now (rs_db s) \<le> ad_now (rs_db s')"
  by (erule rev_step.cases) (auto simp: upsert_revoked_def sweep_revoked_def)

lemma held_steps:
  "rev_steps s s' \<Longrightarrow> phase_ok s \<Longrightarrow> held j ex s \<Longrightarrow> ad_now (rs_db s') < ex \<Longrightarrow> held j ex s'"
proof (induction rule: rev_steps.induct)
  case (step s s' s'')
  have "ad_now (rs_db s') < ex" using rev_step_time [OF step.hyps(2)] step.prems(3) by simp
  then show ?case
    using held_step [OF step.hyps(2)] step.IH phase_ok_steps [OF step.hyps(1)] step.prems by blast
qed simp



definition held_version :: "string \<Rightarrow> nat \<Rightarrow> rev_system \<Rightarrow> bool" where
  "held_version u v s =
     (v \<le> ad_versions (rs_db s) u \<and> v \<le> nullish (userVersions (rs_rv s) u) 0 \<and>
      (\<forall>ts V. rs_phase s = Querying ts (Some V) \<longrightarrow> v \<le> max (nullish (V u) 0) (nullish (pendingVersions (rs_rv s) u) 0)))"

lemma raise_version_ge: "v \<le> nullish (m u) 0 \<Longrightarrow> v \<le> nullish (raise_version m u' w u) 0" "w \<le> nullish (raise_version m u w u) 0"
  by (auto simp: raise_version_def)

lemma held_version_step:
  assumes "rev_step s s'" "phase_ok s" "held_version u v s"
  shows "held_version u v s'"
  using assms(1)
proof (cases rule: rev_step.cases)
  case (remember_version w u')
  then show ?thesis using assms(3)
    by (auto simp: held_version_def rememberVersion_def le_max_iff_disj intro: raise_version_ge(1))
next
  case (read_versions ts)
  then show ?thesis using assms(3) by (auto simp: held_version_def query_versions_def)
next
  case (merge ts vs)
  then show ?thesis using assms(3)
    by (auto simp: held_version_def reload_merge_def merge_versions_def split: option.splits)
qed (use assms(3) in \<open>auto simp: held_version_def rev_op_defs upsert_revoked_def sweep_revoked_def\<close>)

lemma held_version_steps: "rev_steps s s' \<Longrightarrow> phase_ok s \<Longrightarrow> held_version u v s \<Longrightarrow> held_version u v s'"
  by (induction rule: rev_steps.induct) (auto intro: held_version_step phase_ok_steps)

text \<open>
  Signing out everywhere is final: once an instance has remembered version \<open>v\<close> of a user, it
  refuses every token of that user that claims a lower version, or a malformed one, for ever after;
  a stored version never goes back, whatever interleaves with a reload.
\<close>

theorem revoked_version_stays_revoked:
  assumes "rev_steps (rev_start db) s" "v \<le> ad_versions (rs_db s) u"
    "rev_steps (s\<lparr>rs_rv := rememberVersion (rs_rv s) u v\<rparr>) s'" "subjectOf p = Some u"
    "\<forall>c. versionOf p = Some c \<longrightarrow> c < v"
  shows "isRevoked (rs_rv s') p \<noteq> None"
proof -
  have ok: "phase_ok s" using phase_ok_steps [OF assms(1) phase_ok_start] .
  let ?s = "s\<lparr>rs_rv := rememberVersion (rs_rv s) u v\<rparr>"
  have "phase_ok ?s" using ok by (simp add: phase_ok_def rememberVersion_def)
  moreover have "held_version u v ?s"
    using ok assms(2)
    by (auto simp: phase_ok_def held_version_def rememberVersion_def le_max_iff_disj intro: raise_version_ge(2))
  ultimately have "v \<le> nullish (userVersions (rs_rv s') u) 0"
    using held_version_steps [OF assms(3)] by (simp add: held_version_def)
  then show ?thesis using assms(4,5) by (auto simp: isRevoked_def split: option.splits)
qed

theorem revoked_version_stays_revoked_witness:
  "isRevoked (rememberVersion new_revocation ''u'' 1)
     \<lparr>tp_sub = JStr ''u'', tp_name = JStr ''n'', tp_jti = JStr ''j1'', tp_ver = JUndef, tp_sess = JUndef,
      tp_elev = JUndef, tp_iat = JUndef, tp_exp = JUndef\<rparr> \<noteq> None"
proof -
  let ?db = "\<lparr>ad_now = 5, ad_revoked = Map.empty, ad_versions = (\<lambda>u. 1)\<rparr>"
  from revoked_version_stays_revoked [OF rev_steps.refl _ rev_steps.refl, where db = ?db and v = 1 and u = "''u''"]
  show ?thesis by (simp add: rev_start_def subjectOf_def versionOf_def)
qed

end
