(* ===== verification/Guards.thy ===== *)
theory Guards
  imports Revocation
begin

text \<open>
  The two planes that authenticate a caller, the REST guard (auth/jwt-auth.guard.ts) and the socket
  middleware (sync/ws-auth.ts), and the eviction of live sockets (sync/socket-eviction.ts). The
  signature check of the JWT library is the parameter \<open>verify\<close>. Properties: the planes accept the same
  tokens and derive the same identity, and an eviction closes exactly the connections whose token the
  revocation service refuses from then on.
\<close>

subsection \<open>Verification\<close>

text \<open>What jwt.verify does: returns the payload, or throws an expiry or some other error.\<close>

datatype verified = Verified token_payload | TokenExpired | TokenInvalid

type_synonym verifier = "string \<Rightarrow> verified"

subsection \<open>The REST guard\<close>

record authed_user =
  au_userId :: string
  au_username :: string

datatype guard_error = MissingHeader | MalformedHeader | ExpiredToken | InvalidToken | NoSubject | SignedOut | SignedOutEverywhere

definition canActivate :: "verifier \<Rightarrow> revocation \<Rightarrow> string option \<Rightarrow> guard_error + authed_user" where
  "canActivate verify rv header =
     (if \<not> truthy header then Inl MissingHeader
      else
        (let parts = split_ws (trim (nullish header [])) in
         if length parts \<noteq> 2 \<or> toLowerCase (parts ! 0) \<noteq> ''bearer'' \<or> parts ! 1 = [] then Inl MalformedHeader
         else (case verify (parts ! 1) of
             TokenExpired \<Rightarrow> Inl ExpiredToken
           | TokenInvalid \<Rightarrow> Inl InvalidToken
           | Verified p \<Rightarrow>
               (case subjectOf p of
                  None \<Rightarrow> Inl NoSubject
                | Some sub \<Rightarrow>
                    (case isRevoked rv p of
                       Some RevToken \<Rightarrow> Inl SignedOut
                     | Some RevUser \<Rightarrow> Inl SignedOutEverywhere
                     | None \<Rightarrow> Inr \<lparr>au_userId = sub,
                         au_username = (case tp_name p of JStr n \<Rightarrow> n | _ \<Rightarrow> [])\<rparr>)))))"

subsection \<open>The socket middleware\<close>

record authed_socket =
  as_userId :: string
  as_username :: jsval
  as_connectedAt :: nat
  as_jti :: jsval
  as_tokenVersion :: jsval
  as_expiresAt :: jsnum

datatype ws_error = WsMissingToken | WsNoSubject | WsRevoked | WsInvalid

definition wsAuthMiddleware ::
  "verifier \<Rightarrow> revocation option \<Rightarrow> nat \<Rightarrow> string option \<Rightarrow> ws_error + authed_socket" where
  "wsAuthMiddleware verify revocations now token =
     (if \<not> truthy token then Inl WsMissingToken
      else (case verify (nullish token []) of
          TokenExpired \<Rightarrow> Inl WsInvalid
        | TokenInvalid \<Rightarrow> Inl WsInvalid
        | Verified p \<Rightarrow>
            (case subjectOf p of
               None \<Rightarrow> Inl WsNoSubject
             | Some sub \<Rightarrow>
                 if (case revocations of None \<Rightarrow> False | Some rv \<Rightarrow> isRevoked rv p \<noteq> None) then Inl WsRevoked
                 else Inr \<lparr>as_userId = sub, as_username = tp_name p, as_connectedAt = now, as_jti = tp_jti p,
                   as_tokenVersion = (if tp_ver p = JUndef \<or> tp_ver p = JNull then JNum 0 else tp_ver p),
                   as_expiresAt = (case tp_exp p of JNum e \<Rightarrow> e * 1000 | _ \<Rightarrow> PInf)\<rparr>)))"

subsection \<open>Eviction\<close>

datatype evict_reason = EvExpired | EvRevoked | EvAllRevoked

text \<open>
  The comparison \<^verbatim>\<open>(data.tokenVersion ?? 0) < (event.version ?? 0)\<close>. A socket the middleware accepted
  carries a number here; the other constructors follow the language's conversion.
\<close>

definition version_below :: "jsval \<Rightarrow> nat \<Rightarrow> bool" where
  "version_below x v = (case x of
     JUndef \<Rightarrow> (0 :: jsnum) < Fin (real v)
   | JNull \<Rightarrow> (0 :: jsnum) < Fin (real v)
   | JNum n \<Rightarrow> n < Fin (real v)
   | JStr s \<Rightarrow> js_Number s < Fin (real v)
   | JOther \<Rightarrow> False)"

definition evict_on :: "rev_event \<Rightarrow> authed_socket \<Rightarrow> evict_reason option" where
  "evict_on ev d = (case ev of
     TokenEvent jti \<Rightarrow> if jti \<noteq> [] \<and> as_jti d = JStr jti then Some EvRevoked else None
   | UserEvent u v \<Rightarrow> if u \<noteq> [] \<and> as_userId d = u \<and> version_below (as_tokenVersion d) v then Some EvAllRevoked else None)"

text \<open>The sockets of all namespaces in order; the result is those closed with their reason.\<close>

definition evictRevoked :: "(string \<times> authed_socket) list \<Rightarrow> rev_event \<Rightarrow> (string \<times> evict_reason) list" where
  "evictRevoked socks ev =
     List.map_filter (\<lambda>(i, d). map_option (\<lambda>r. (i, r)) (evict_on ev d)) socks"

definition expirySweep :: "(string \<times> authed_socket) list \<Rightarrow> jsnum \<Rightarrow> (string \<times> evict_reason) list" where
  "expirySweep socks now = List.map_filter (\<lambda>(i, d). if as_expiresAt d \<le> now then Some (i, EvExpired) else None) socks"

subsection \<open>The planes agree\<close>

definition bare_token :: "string \<Rightarrow> bool" where
  "bare_token t = (t \<noteq> [] \<and> list_all (\<lambda>c. \<not> is_ws c) t)"

lemma trim_bounded: "\<not> is_ws (hd s) \<Longrightarrow> \<not> is_ws (last s) \<Longrightarrow> trim s = s"
proof -
  have drop: "dropWhile is_ws t = t" if "\<not> is_ws (hd t)" for t using that by (cases t) auto
  assume "\<not> is_ws (hd s)" "\<not> is_ws (last s)"
  then show ?thesis by (cases "s = []") (simp_all add: trim_def drop hd_rev)
qed

lemma split_ws_two:
  assumes "list_all (\<lambda>c. \<not> is_ws c) a" "is_ws c" "list_all (\<lambda>c. \<not> is_ws c) b" "b \<noteq> []"
  shows "split_ws (a @ c # b) = [a, b]"
proof -
  have "dropWhile is_ws (c # b) = b" using assms(2-4) by (cases b) auto
  moreover have "takeWhile (\<lambda>c. \<not> is_ws c) (a @ c # b) = a" "dropWhile (\<lambda>c. \<not> is_ws c) (a @ c # b) = c # b"
    using assms(1,2) by (simp_all add: list_all_iff takeWhile_append dropWhile_append takeWhile_eq_all_conv dropWhile_eq_Nil_conv)
  ultimately show ?thesis by (subst split_ws.simps) (simp add: Let_def split_ws_word [OF assms(3)])
qed

lemma bearer_parts:
  assumes "bare_token t"
  shows "split_ws (trim (''Bearer '' @ t)) = [''Bearer'', t]"
proof -
  have "\<not> is_ws (last t)" using assms last_in_set [of t] by (simp add: bare_token_def list_all_iff)
  then have "trim (''Bearer '' @ t) = ''Bearer '' @ t"
    using assms by (intro trim_bounded) (simp_all add: is_ws_def bare_token_def)
  moreover have "split_ws (''Bearer'' @ CHR '' '' # t) = [''Bearer'', t]"
    using assms by (intro split_ws_two) (simp_all add: is_ws_def bare_token_def)
  ultimately show ?thesis by simp
qed

lemma bearer_lower: "toLowerCase ''Bearer'' = ''bearer''"
  by code_simp

lemma canActivate_bearer:
  assumes "bare_token t"
  shows "canActivate verify rv (Some (''Bearer '' @ t)) = Inr u \<longleftrightarrow>
    (\<exists>p. verify t = Verified p \<and> subjectOf p = Some (au_userId u) \<and> isRevoked rv p = None \<and>
       au_username u = (case tp_name p of JStr n \<Rightarrow> n | _ \<Rightarrow> []))"
  using assms bearer_parts [OF assms] bearer_lower
  by (auto simp: canActivate_def bare_token_def split: verified.splits option.splits rev_reason.splits)

lemma wsAuth_accepts:
  "wsAuthMiddleware verify (Some rv) now (Some t) = Inr d \<longleftrightarrow>
    t \<noteq> [] \<and> (\<exists>p sub. verify t = Verified p \<and> subjectOf p = Some sub \<and> isRevoked rv p = None \<and>
      d = \<lparr>as_userId = sub, as_username = tp_name p, as_connectedAt = now, as_jti = tp_jti p,
        as_tokenVersion = (if tp_ver p = JUndef \<or> tp_ver p = JNull then JNum 0 else tp_ver p),
        as_expiresAt = (case tp_exp p of JNum e \<Rightarrow> e * 1000 | _ \<Rightarrow> PInf)\<rparr>)"
  by (auto simp: wsAuthMiddleware_def split: verified.splits option.splits)

text \<open>
  The two planes cannot disagree about who a caller is: a token presented to the REST guard as
  a bearer header is accepted there as a user exactly when the socket middleware accepts the same
  token, against the same snapshot, as that user.
\<close>

theorem planes_agree:
  assumes "bare_token t"
  shows "(\<exists>u. canActivate verify rv (Some (''Bearer '' @ t)) = Inr u \<and> au_userId u = who) \<longleftrightarrow>
    (\<exists>d. wsAuthMiddleware verify (Some rv) now (Some t) = Inr d \<and> as_userId d = who)"
proof
  assume "\<exists>u. canActivate verify rv (Some (''Bearer '' @ t)) = Inr u \<and> au_userId u = who"
  then obtain p where "verify t = Verified p" "subjectOf p = Some who" "isRevoked rv p = None"
    using canActivate_bearer [OF assms] by blast
  then show "\<exists>d. wsAuthMiddleware verify (Some rv) now (Some t) = Inr d \<and> as_userId d = who"
    using assms by (simp add: wsAuthMiddleware_def bare_token_def)
next
  assume "\<exists>d. wsAuthMiddleware verify (Some rv) now (Some t) = Inr d \<and> as_userId d = who"
  then obtain p where "verify t = Verified p" "subjectOf p = Some who" "isRevoked rv p = None"
    by (auto simp: wsAuth_accepts)
  then show "\<exists>u. canActivate verify rv (Some (''Bearer '' @ t)) = Inr u \<and> au_userId u = who"
    using canActivate_bearer [OF assms, of verify rv "\<lparr>au_userId = who, au_username = (case tp_name p of JStr n \<Rightarrow> n | _ \<Rightarrow> [])\<rparr>"]
    by auto
qed

definition demo_payload :: token_payload where
  "demo_payload = \<lparr>tp_sub = JStr ''ann'', tp_name = JStr ''Ann'', tp_jti = JStr ''j1'', tp_ver = JNum 2, tp_sess = JUndef,
     tp_elev = JUndef, tp_iat = JUndef, tp_exp = JNum 900\<rparr>"

definition demo_verify :: verifier where
  "demo_verify t = (if t = ''tok'' then Verified demo_payload else TokenInvalid)"

definition demo_revocation :: revocation where
  "demo_revocation = new_revocation\<lparr>rv_loaded := True, userVersions := [''ann'' \<mapsto> 2]\<rparr>"

lemma demo_not_revoked: "isRevoked demo_revocation demo_payload = None" "subjectOf demo_payload = Some ''ann''"
  by (simp_all add: isRevoked_def demo_revocation_def new_revocation_def demo_payload_def subjectOf_def versionOf_def
    is_integer_def)

theorem planes_agree_witness:
  "(\<exists>u. canActivate demo_verify demo_revocation (Some ''Bearer tok'') = Inr u \<and> au_userId u = ''ann'') \<and>
   (\<exists>d. wsAuthMiddleware demo_verify (Some demo_revocation) 5 (Some ''tok'') = Inr d \<and> as_userId d = ''ann'')"
proof -
  have "bare_token ''tok''" by (simp add: bare_token_def is_ws_def)
  from planes_agree [OF this, of demo_verify demo_revocation "''ann''" 5] show ?thesis
    using demo_not_revoked by (simp add: wsAuthMiddleware_def demo_verify_def)
qed

subsection \<open>Eviction is exact\<close>

text \<open>The snapshot after the service has remembered an event.\<close>

definition remember :: "revocation \<Rightarrow> rev_event \<Rightarrow> revocation" where
  "remember rv ev = (case ev of TokenEvent j \<Rightarrow> rememberToken rv j | UserEvent u v \<Rightarrow> rememberVersion rv u v)"

lemma version_below_claim:
  assumes "versionOf p = Some c"
  shows "version_below (if tp_ver p = JUndef \<or> tp_ver p = JNull then JNum 0 else tp_ver p) v \<longleftrightarrow> c < v"
proof (cases "tp_ver p")
  case (JNum n)
  then obtain i where i: "n = Fin (of_int i)" "0 \<le> i" "c = nat i"
    using assms by (auto simp: versionOf_def is_integer_iff split: if_splits)
  have "real_of_int i < real v \<longleftrightarrow> nat i < v" using i(2) by linarith
  then show ?thesis using JNum i by (simp add: version_below_def)
qed (use assms in \<open>auto simp: versionOf_def version_below_def\<close>)

text \<open>
  C20. Eviction is exact: when a revocation event reaches an instance, the live connections it closes
  are exactly those whose token its own request path refuses from that moment on, for every socket
  that was accepted on a token still good the moment before. A sign-out everywhere spares the
  session that was issued under the new version.
\<close>

theorem eviction_exact:
  assumes "wsAuthMiddleware verify (Some rv0) t0 (Some token) = Inr d" "verify token = Verified p"
    "rv_loaded rv" "isRevoked rv p = None"
  shows "evict_on ev d \<noteq> None \<longleftrightarrow> (\<forall>j. ev = TokenEvent j \<longrightarrow> j \<noteq> []) \<and> isRevoked (remember rv ev) p \<noteq> None"
proof -
  have d: "subjectOf p = Some (as_userId d)" "as_jti d = tp_jti p"
      "as_tokenVersion d = (if tp_ver p = JUndef \<or> tp_ver p = JNull then JNum 0 else tp_ver p)"
    using assms(1,2) by (auto simp: wsAuth_accepts)
  then have ne: "as_userId d \<noteq> []" by (auto simp: subjectOf_def split: jsval.splits if_splits)
  obtain c where c: "versionOf p = Some c" "nullish (userVersions rv (as_userId d)) 0 \<le> c"
    using assms(3,4) d(1) by (auto simp: isRevoked_def not_less split: if_splits option.splits)
  have jti: "\<not> (case tp_jti p of JStr j \<Rightarrow> j \<noteq> [] \<and> j \<in> revokedTokens rv | _ \<Rightarrow> False)"
    using assms(3,4) by (auto simp: isRevoked_def split: if_splits)
  show ?thesis
  proof (cases ev)
    case (TokenEvent j)
    then show ?thesis using d c jti assms(3)
      by (cases "tp_jti p") (auto simp: evict_on_def remember_def rememberToken_def isRevoked_def)
  next
    case (UserEvent u v)
    have "isRevoked (remember rv ev) p \<noteq> None \<longleftrightarrow> u = as_userId d \<and> c < v"
      using d(1) c jti assms(3) UserEvent
      by (cases "tp_jti p") (auto simp: remember_def rememberVersion_def raise_version_def isRevoked_def split: if_splits)
    then show ?thesis using UserEvent d(3) ne version_below_claim [OF c(1), of v] by (auto simp: evict_on_def)
  qed
qed

theorem eviction_exact_witness:
  "\<exists>d. wsAuthMiddleware demo_verify (Some demo_revocation) 5 (Some ''tok'') = Inr d \<and>
     evict_on (UserEvent ''ann'' 3) d \<noteq> None \<and> evict_on (UserEvent ''ann'' 2) d = None"
proof -
  obtain d where d: "wsAuthMiddleware demo_verify (Some demo_revocation) 5 (Some ''tok'') = Inr d"
    using demo_not_revoked by (auto simp: wsAuthMiddleware_def demo_verify_def)
  have v: "demo_verify ''tok'' = Verified demo_payload" by (simp add: demo_verify_def)
  have l: "rv_loaded demo_revocation" by (simp add: demo_revocation_def)
  have "isRevoked (remember demo_revocation (UserEvent ''ann'' n)) demo_payload \<noteq> None \<longleftrightarrow> 2 < n" for n
    using demo_not_revoked
    by (auto simp: isRevoked_def remember_def rememberVersion_def raise_version_def demo_revocation_def new_revocation_def
      demo_payload_def versionOf_def is_integer_def)
  then show ?thesis
    using d eviction_exact [OF d v l demo_not_revoked(1), of "UserEvent ''ann'' 3"]
      eviction_exact [OF d v l demo_not_revoked(1), of "UserEvent ''ann'' 2"] by auto
qed

text \<open>The sweep closes exactly the sockets whose expiry has passed; one without an expiry never.\<close>

lemma expirySweep_iff:
  "(i, r) \<in> set (expirySweep socks now) \<longleftrightarrow> r = EvExpired \<and> (\<exists>d. (i, d) \<in> set socks \<and> as_expiresAt d \<le> now)"
  by (induction socks) (auto simp: expirySweep_def List.map_filter_simps split: if_splits)

lemma evictRevoked_iff:
  "(i, r) \<in> set (evictRevoked socks ev) \<longleftrightarrow> (\<exists>d. (i, d) \<in> set socks \<and> evict_on ev d = Some r)"
  by (induction socks) (auto simp: evictRevoked_def List.map_filter_simps split: option.splits)

end
