(* ===== verification/Gateway.thy ===== *)
theory Gateway
  imports TimelineService ActorStore MediaSource Guards Voice
begin

text \<open>
  The socket gateway (sync/sync.gateway.ts): validation of what arrives on the wire, membership,
  joins and leaves with their database effects, control commands and their fan-out, the repair sweep
  and chat. Each handler is a function from the gateway's state, the database and the message to the
  new state and the list of emissions, in order. A handler runs as one step; the one place where the
  program's awaits let two handlers overlap with a visible effect, the capacity check of a join, is
  split in its two halves so that the overlap can be stated. Metrics and log lines are left out, and
  database calls are taken to succeed.
\<close>

subsection \<open>The database rows the gateway touches\<close>

record room_rec =
  rm_id :: string
  rm_name :: string
  rm_code :: string
  rm_videoUrl :: "string option"
  rm_creatorId :: string
  rm_allowGuestControl :: bool
  rm_currentTime :: jsnum
  rm_isPlaying :: bool
  rm_lastSyncAt :: jsnum
  rm_isActive :: bool
  rm_maxUsers :: "nat option"

record participant =
  p_userId :: string
  p_roomId :: string
  p_isActive :: bool
  p_lastPingAt :: jsnum
  p_leftAt :: "jsnum option"

record chat_message =
  cm_id :: string
  cm_content :: string
  cm_userId :: string
  cm_roomId :: string
  cm_createdAt :: jsnum

record gw_db =
  db_rooms :: "string \<rightharpoonup> room_rec"
  db_participants :: "participant list"
  db_usernames :: "string \<Rightarrow> string"
  db_messages :: "chat_message list"

definition row_of :: "room_rec \<Rightarrow> room_row" where
  "row_of room = \<lparr>rr_creatorId = rm_creatorId room, rr_allowGuestControl = rm_allowGuestControl room,
     rr_videoUrl = rm_videoUrl room, rr_currentTime = rm_currentTime room\<rparr>"

definition active_in :: "participant list \<Rightarrow> string \<Rightarrow> participant list" where
  "active_in ps roomId = filter (\<lambda>p. p_roomId p = roomId \<and> p_isActive p) ps"

definition is_row :: "string \<Rightarrow> string \<Rightarrow> participant \<Rightarrow> bool" where
  "is_row userId roomId p = (p_userId p = userId \<and> p_roomId p = roomId)"

definition upsert_participant :: "participant list \<Rightarrow> string \<Rightarrow> string \<Rightarrow> jsnum \<Rightarrow> participant list" where
  "upsert_participant ps userId roomId wall =
     (if list_ex (is_row userId roomId) ps
      then map (\<lambda>p. if is_row userId roomId p then p\<lparr>p_isActive := True, p_lastPingAt := wall\<rparr> else p) ps
      else ps @ [\<lparr>p_userId = userId, p_roomId = roomId, p_isActive = True, p_lastPingAt = wall, p_leftAt = None\<rparr>])"

definition deactivate :: "participant list \<Rightarrow> string \<Rightarrow> string \<Rightarrow> jsnum \<Rightarrow> participant list" where
  "deactivate ps userId roomId wall =
     map (\<lambda>p. if is_row userId roomId p then p\<lparr>p_isActive := False, p_leftAt := Some wall\<rparr> else p) ps"

definition update_row :: "gw_db \<Rightarrow> string \<Rightarrow> row_update \<Rightarrow> gw_db" where
  "update_row db code upd = db\<lparr>db_rooms := (db_rooms db)(code := map_option (\<lambda>room.
     room\<lparr>rm_currentTime := ru_currentTime upd, rm_isPlaying := ru_isPlaying upd, rm_videoUrl := ru_videoUrl upd,
       rm_lastSyncAt := ru_lastSyncAt upd\<rparr>) (db_rooms db code))\<rparr>"

text \<open>A user as the clients see one: id and name.\<close>

type_synonym who = "string \<times> string"

definition present :: "gw_db \<Rightarrow> string \<Rightarrow> who list" where
  "present db roomId = map (\<lambda>p. (p_userId p, db_usernames db (p_userId p))) (active_in (db_participants db) roomId)"

subsection \<open>The wire\<close>

record wire_control =
  wc_roomCode :: jsval
  wc_intent :: jsval
  wc_mediaTime :: jsval
  wc_cmdId :: jsval
  wc_videoUrl :: jsval
  wc_forVideoId :: jsval

datatype reject_reason = RejNotController | RejRateLimited | RejRoomNotFound | RejStaleVideo | RejInvalidVideoUrl

datatype controller_reason = BySuccession | ByReclaim

datatype gw_event =
    EvConnected string jsnum
  | EvError string
  | EvRoomJoined room_rec timeline "who list" jsnum
  | EvUserJoined string string
  | EvUserLeft string
  | EvParticipants "who list"
  | EvHistory "(chat_message \<times> who) list"
  | EvChat chat_message who
  | EvVoiceRoster string "voice_member list"
  | EvTimeline timeline
  | EvRejected jsval jsval reject_reason
  | EvController string string controller_reason
  | EvClosed string

datatype gw_target = Sock string | Room string | RoomBut string string | LocalRoom string

type_synonym gw_emit = "(gw_target \<times> gw_event) list"

definition CONTROL_INTENTS :: "(string \<times> intent) list" where
  "CONTROL_INTENTS = [(''play'', Play), (''pause'', Pause), (''seek'', Seek), (''set-video'', SetVideo)]"

definition intent_of :: "jsval \<Rightarrow> intent option" where
  "intent_of v = (case v of JStr s \<Rightarrow> map_of CONTROL_INTENTS s | _ \<Rightarrow> None)"

definition media_time_ok :: "jsval \<Rightarrow> bool" where
  "media_time_ok v = (case v of JNum x \<Rightarrow> isFinite x \<and> \<not> x < 0 | _ \<Rightarrow> False)"

definition cmd_id_ok :: "jsval \<Rightarrow> bool" where
  "cmd_id_ok v = (case v of
     JUndef \<Rightarrow> True
   | JStr s \<Rightarrow> s \<noteq> [] \<and> length s \<le> 64 \<and> list_all is_idchar s
   | _ \<Rightarrow> False)"

definition fence_ok :: "jsval \<Rightarrow> bool" where
  "fence_ok v = (case v of
     JUndef \<Rightarrow> True | JNull \<Rightarrow> True | JStr s \<Rightarrow> length s \<le> VIDEO_URL_MAX_LEN | _ \<Rightarrow> False)"

definition wire_ok :: "wire_control option \<Rightarrow> bool" where
  "wire_ok data = (case data of None \<Rightarrow> False | Some d \<Rightarrow>
     intent_of (wc_intent d) \<noteq> None \<and> media_time_ok (wc_mediaTime d) \<and> cmd_id_ok (wc_cmdId d) \<and> fence_ok (wc_forVideoId d))"

text \<open>
  The next video of a set-video: \<^term>\<open>None\<close> when the address is refused, otherwise the value that is
  handed on (\<^verbatim>\<open>null\<close> clears the video).
\<close>

definition next_video :: "(string \<Rightarrow> url option) \<Rightarrow> jsval \<Rightarrow> string option option" where
  "next_video parse v = (case v of
     JStr s \<Rightarrow> (let u = trim s in
       if u \<noteq> [] \<and> \<not> isAcceptableVideoUrl parse u then None
       else Some (if u = [] then None else Some u))
   | _ \<Rightarrow> None)"

definition opts_of :: "string \<Rightarrow> wire_control \<Rightarrow> string option option \<Rightarrow> apply_opts" where
  "opts_of sock d nextVideoId =
     \<lparr>o_cmdId = (case wc_cmdId d of JStr s \<Rightarrow> Some s | _ \<Rightarrow> None), o_originSocketId = Some sock, o_videoId = nextVideoId,
      o_forVideoId = (case wc_forVideoId d of JNull \<Rightarrow> Some None | JStr s \<Rightarrow> Some (Some s) | _ \<Rightarrow> None)\<rparr>"

datatype wire_verdict = WireMalformed | WireBadVideo | WireCommand intent jsnum apply_opts

definition command_of :: "(string \<Rightarrow> url option) \<Rightarrow> string \<Rightarrow> wire_control option \<Rightarrow> wire_verdict" where
  "command_of parse sock data =
     (if \<not> wire_ok data then WireMalformed
      else case data of None \<Rightarrow> WireMalformed | Some d \<Rightarrow>
        (case (intent_of (wc_intent d), wc_mediaTime d) of
           (Some it, JNum mt) \<Rightarrow>
             if it = SetVideo then
               (case next_video parse (wc_videoUrl d) of
                  None \<Rightarrow> WireBadVideo
                | Some v \<Rightarrow> WireCommand it mt (opts_of sock d (Some v)))
             else WireCommand it mt (opts_of sock d None)
         | _ \<Rightarrow> WireMalformed))"

subsection \<open>State\<close>

text \<open>
  The gateway's maps, the timeline service and the voice roster it calls, and what socket.io holds
  for it: the data of every connected socket and the members of every room, oldest first.
\<close>

record 's gateway =
  userRooms :: "(string, string) jsmap"
  roomHosts :: "string \<rightharpoonup> string"
  socketToUser :: "string \<rightharpoonup> string"
  gw_svc :: "'s timeline_service"
  gw_sockets :: "string \<rightharpoonup> authed_socket"
  gw_rooms :: "string \<Rightarrow> string list"
  gw_roster :: roster

subsection \<open>Joining and leaving\<close>

definition handleConnection :: "string \<Rightarrow> jsnum \<Rightarrow> gw_emit" where
  "handleConnection sock wall = [(Sock sock, EvConnected sock wall)]"

datatype join_verdict = JoinNotFound | JoinFull | JoinAdmitted room_rec

definition join_admit :: "gw_db \<Rightarrow> string \<Rightarrow> string \<Rightarrow> join_verdict" where
  "join_admit db userId code = (case db_rooms db code of
     None \<Rightarrow> JoinNotFound
   | Some room \<Rightarrow>
       if \<not> rm_isActive room then JoinNotFound
       else (case rm_maxUsers room of
           None \<Rightarrow> JoinAdmitted room
         | Some n \<Rightarrow>
             if 0 < n \<and> n \<le> length (filter (\<lambda>p. p_userId p \<noteq> userId) (active_in (db_participants db) (rm_id room)))
             then JoinFull else JoinAdmitted room))"

definition history :: "gw_db \<Rightarrow> string \<Rightarrow> (chat_message \<times> who) list" where
  "history db roomId =
     (let newest_first = js_sort (\<lambda>a b. cm_createdAt b - cm_createdAt a) (filter (\<lambda>m. cm_roomId m = roomId) (db_messages db)) in
      map (\<lambda>m. (m, (cm_userId m, db_usernames db (cm_userId m)))) (rev (take 50 newest_first)))"

definition handleGetMessageHistory :: "gw_db \<Rightarrow> string \<Rightarrow> string \<Rightarrow> gw_emit" where
  "handleGetMessageHistory db sock code = (case db_rooms db code of
     None \<Rightarrow> [] | Some room \<Rightarrow> [(Sock sock, EvHistory (history db (rm_id room)))])"

definition join_commit ::
  "'s store_ops \<Rightarrow> 's gateway \<Rightarrow> gw_db \<Rightarrow> string \<Rightarrow> string \<Rightarrow> string \<Rightarrow> room_rec \<Rightarrow> jsnum \<Rightarrow> jsnum \<Rightarrow> jsnum \<Rightarrow>
   's gateway \<times> gw_db \<times> gw_emit" where
  "join_commit ops gw db sock userId code room now wall latency =
     (let (svc1, tml) = ensureRoom ops (gw_svc gw) code (row_of room) now;
          (svc2, back) = reclaim svc1 code userId;
          gw' = gw\<lparr>userRooms := jm_set (userRooms gw) sock code,
                  socketToUser := (socketToUser gw)(sock \<mapsto> userId),
                  roomHosts := (if roomHosts gw code = None then (roomHosts gw)(code \<mapsto> userId) else roomHosts gw),
                  gw_rooms := (gw_rooms gw)(code := js_add (gw_rooms gw code) sock), gw_svc := svc2\<rparr>;
          db' = db\<lparr>db_participants := upsert_participant (db_participants db) userId (rm_id room) wall\<rparr>;
          ps = present db' (rm_id room)
      in (gw', db',
          (case back of None \<Rightarrow> [] | Some c \<Rightarrow> [(Room code, EvController code c ByReclaim)]) @
          [(Sock sock, EvRoomJoined room tml ps latency),
           (RoomBut code sock, EvUserJoined userId (db_usernames db' userId)),
           (RoomBut code sock, EvParticipants ps)] @
          handleGetMessageHistory db' sock code @
          [(Sock sock, EvVoiceRoster code (roster_list (gw_roster gw') code))]))"

definition handleJoinRoom ::
  "'s store_ops \<Rightarrow> 's gateway \<Rightarrow> gw_db \<Rightarrow> string \<Rightarrow> string \<Rightarrow> string \<Rightarrow> jsnum \<Rightarrow> jsnum \<Rightarrow> jsnum \<Rightarrow>
   's gateway \<times> gw_db \<times> gw_emit" where
  "handleJoinRoom ops gw db sock userId code now wall latency = (case join_admit db userId code of
     JoinNotFound \<Rightarrow> (gw, db, [(Sock sock, EvError ''Room not found or inactive'')])
   | JoinFull \<Rightarrow> (gw, db, [(Sock sock, EvError ''Room is full'')])
   | JoinAdmitted room \<Rightarrow> join_commit ops gw db sock userId code room now wall latency)"

definition candidates :: "'s gateway \<Rightarrow> string list \<Rightarrow> (string option \<times> jsnum) list" where
  "candidates gw socks = filter (\<lambda>x. truthy (fst x)) (map (\<lambda>s. case gw_sockets gw s of
     None \<Rightarrow> (None, PInf) | Some d \<Rightarrow> (Some (as_userId d), Fin (real (as_connectedAt d)))) socks)"

definition candidate :: "'s gateway \<Rightarrow> string list \<Rightarrow> string option" where
  "candidate gw socks = (case js_sort (\<lambda>a b. snd a - snd b) (candidates gw socks) of [] \<Rightarrow> None | x # _ \<Rightarrow> fst x)"

definition leave_announce :: "gw_db \<Rightarrow> string \<Rightarrow> string option \<Rightarrow> string \<Rightarrow> jsnum \<Rightarrow> gw_db \<times> gw_emit" where
  "leave_announce db sock user code wall = (case (db_rooms db code, user) of
     (Some room, Some u) \<Rightarrow>
       if u = [] then (db, [])
       else (let db' = db\<lparr>db_participants := deactivate (db_participants db) u (rm_id room) wall\<rparr> in
         (db', [(RoomBut code sock, EvUserLeft u), (Room code, EvParticipants (present db' (rm_id room)))]))
   | _ \<Rightarrow> (db, []))"

definition handleLeaveRoom ::
  "'s store_ops \<Rightarrow> 's gateway \<Rightarrow> gw_db \<Rightarrow> string \<Rightarrow> string \<Rightarrow> jsnum \<Rightarrow> jsnum \<Rightarrow> 's gateway \<times> gw_db \<times> gw_emit" where
  "handleLeaveRoom ops gw db sock code now wall =
     (let user = socketToUser gw sock;
          socks = js_delete (gw_rooms gw code) sock;
          gw1 = gw\<lparr>userRooms := jm_del (userRooms gw) sock, socketToUser := (socketToUser gw)(sock := None),
                   gw_rooms := (gw_rooms gw)(code := socks), gw_svc := dropSocket (gw_svc gw) sock\<rparr>
      in if socks = [] then
           (let (svc, upd) = releaseRoom ops (gw_svc gw1) code now;
                gw2 = gw1\<lparr>roomHosts := (roomHosts gw1)(code := None), gw_svc := svc\<rparr>;
                db2 = (case upd of None \<Rightarrow> db | Some r \<Rightarrow> update_row db code r);
                (db3, em) = leave_announce db2 sock user code wall
            in (gw2, db3, em))
         else if truthy user then
           (let u = nullish user []; cand = candidate gw1 socks;
                (svc, change) = succession (gw_svc gw1) code u cand;
                gw2 = gw1\<lparr>gw_svc := svc, roomHosts :=
                  (if roomHosts gw1 code = Some u \<and> truthy cand then (roomHosts gw1)(code := cand) else roomHosts gw1)\<rparr>;
                (db3, em) = leave_announce db sock user code wall
            in (gw2, db3, (case change of None \<Rightarrow> [] | Some c \<Rightarrow> [(Room code, EvController code c BySuccession)]) @ em))
         else (let (db3, em) = leave_announce db sock user code wall in (gw1, db3, em)))"

text \<open>A disconnect: socket.io has removed the socket from every room before the handler runs.\<close>

definition handleDisconnect ::
  "'s store_ops \<Rightarrow> 's gateway \<Rightarrow> gw_db \<Rightarrow> string \<Rightarrow> jsnum \<Rightarrow> jsnum \<Rightarrow> 's gateway \<times> gw_db \<times> gw_emit" where
  "handleDisconnect ops gw db sock now wall =
     (let gw0 = gw\<lparr>gw_rooms := (\<lambda>r. js_delete (gw_rooms gw r) sock), gw_sockets := (gw_sockets gw)(sock := None)\<rparr> in
      if truthy (jm_get (userRooms gw0) sock)
      then handleLeaveRoom ops gw0 db sock (nullish (jm_get (userRooms gw0) sock) []) now wall
      else (gw0, db, []))"

definition handleRequestParticipants :: "gw_db \<Rightarrow> string \<Rightarrow> string \<Rightarrow> gw_emit" where
  "handleRequestParticipants db sock code = (case db_rooms db code of
     None \<Rightarrow> [] | Some room \<Rightarrow> [(Sock sock, EvParticipants (present db (rm_id room)))])"

subsection \<open>Control\<close>

definition handleSyncClock :: "jsnum \<Rightarrow> jsnum \<Rightarrow> jsnum \<Rightarrow> jsnum \<times> jsnum \<times> jsnum" where
  "handleSyncClock t0 t1 t2 = (t0, t1, t2)"

definition reject_of :: "deny_reason \<Rightarrow> reject_reason" where
  "reject_of d = (case d of NotController \<Rightarrow> RejNotController | RateLimited \<Rightarrow> RejRateLimited | RoomNotFound \<Rightarrow> RejRoomNotFound)"

definition control_answer :: "string \<Rightarrow> wire_control \<Rightarrow> string \<Rightarrow> control_result \<Rightarrow> gw_emit" where
  "control_answer sock d code res = (case res of
     ControlDenied r \<Rightarrow> [(Sock sock, EvRejected (wc_roomCode d) (wc_intent d) (reject_of r))]
   | ControlForwarded \<Rightarrow> []
   | ControlDuplicate t \<Rightarrow> [(Sock sock, EvTimeline t)]
   | ControlFenced t \<Rightarrow> [(Sock sock, EvTimeline t), (Sock sock, EvRejected (wc_roomCode d) (wc_intent d) RejStaleVideo)]
   | ControlOk t \<Rightarrow> [(Room code, EvTimeline t)])"

text \<open>
  The room the sender is in against the room it names: they must be the same string. A sender in no
  room that names none passes the comparison (\<^verbatim>\<open>undefined !== undefined\<close> is false) and is answered by
  the service, which knows no room of that name.
\<close>

datatype membership = InRoom string | NoRoomNamed | NotMember

definition membership_of :: "string option \<Rightarrow> jsval \<Rightarrow> membership" where
  "membership_of joined named = (case (joined, named) of
     (Some r, JStr s) \<Rightarrow> if r = s then InRoom r else NotMember
   | (None, JUndef) \<Rightarrow> NoRoomNamed
   | _ \<Rightarrow> NotMember)"

definition handleSyncControl ::
  "'s store_ops \<Rightarrow> (string \<Rightarrow> url option) \<Rightarrow> 's gateway \<Rightarrow> string \<Rightarrow> authed_socket \<Rightarrow> wire_control option \<Rightarrow> jsnum \<Rightarrow>
   's gateway \<times> gw_emit" where
  "handleSyncControl ops parse gw sock cd data now =
     (let room_of = (case data of None \<Rightarrow> JUndef | Some d \<Rightarrow> wc_roomCode d);
          int_of = (case data of None \<Rightarrow> JUndef | Some d \<Rightarrow> wc_intent d);
          reject = (\<lambda>r. [(Sock sock, EvRejected room_of int_of r)])
      in case command_of parse sock data of
           WireMalformed \<Rightarrow> (gw, reject RejRoomNotFound)
         | WireBadVideo \<Rightarrow> (gw, reject RejInvalidVideoUrl)
         | WireCommand it mt opts \<Rightarrow>
             (case membership_of (jm_get (userRooms gw) sock) room_of of
                NotMember \<Rightarrow> (gw, reject RejNotController)
              | NoRoomNamed \<Rightarrow> (gw, reject RejRoomNotFound)
              | InRoom code \<Rightarrow>
                  (let (svc, res) = handleControl ops (gw_svc gw) code sock (as_userId cd) it mt now opts in
                   (gw\<lparr>gw_svc := svc\<rparr>, (case data of None \<Rightarrow> [] | Some d \<Rightarrow> control_answer sock d code res)))))"

text \<open>A command forwarded to the owner of a room by another instance, executed here.\<close>

definition forward_handler ::
  "'s store_ops \<Rightarrow> 's gateway \<Rightarrow> forwarded \<Rightarrow> jsnum \<Rightarrow> 's gateway \<times> gw_emit" where
  "forward_handler ops gw c now =
     (let (svc, res) = handleControl ops (gw_svc gw) (fw_roomCode c) (''forward:'' @ fw_by c) (fw_by c) (fw_intent c)
            (fw_mediaTime c) now (fw_opts c);
          origin = (\<lambda>t. if truthy (o_originSocketId (fw_opts c))
            then [(Room (nullish (o_originSocketId (fw_opts c)) []), EvTimeline t)] else [])
      in (gw\<lparr>gw_svc := svc\<rparr>,
          (case res of
             ControlOk t \<Rightarrow> [(Room (fw_roomCode c), EvTimeline t)]
           | ControlDuplicate t \<Rightarrow> origin t
           | ControlFenced t \<Rightarrow> origin t
           | _ \<Rightarrow> [])))"

subsection \<open>The repair sweep\<close>

definition activeRooms :: "'s gateway \<Rightarrow> string list" where
  "activeRooms gw = rev (remdups (rev (map snd (userRooms gw))))"

definition sweep_room :: "'s store_ops \<Rightarrow> jsnum \<Rightarrow> 's gateway \<Rightarrow> string \<Rightarrow> 's gateway \<times> gw_emit" where
  "sweep_room ops now gw code =
     (let (svc, snap) = sweepSnapshot ops (gw_svc gw) code now in
      (gw\<lparr>gw_svc := svc\<rparr>, (case snap of
         SweepCommitted t \<Rightarrow> [(Room code, EvTimeline t)]
       | SweepDeferred t \<Rightarrow> [(LocalRoom code, EvTimeline t)]
       | SweepIdle \<Rightarrow> [])))"

fun sweep_rooms :: "'s store_ops \<Rightarrow> jsnum \<Rightarrow> 's gateway \<Rightarrow> string list \<Rightarrow> 's gateway \<times> gw_emit" where
  "sweep_rooms ops now gw [] = (gw, [])"
| "sweep_rooms ops now gw (code # codes) =
     (let (gw1, em1) = sweep_room ops now gw code; (gw2, em2) = sweep_rooms ops now gw1 codes in (gw2, em1 @ em2))"

definition sweepTimelines :: "'s store_ops \<Rightarrow> jsnum \<Rightarrow> 's gateway \<Rightarrow> 's gateway \<times> gw_emit" where
  "sweepTimelines ops now gw = sweep_rooms ops now gw (activeRooms gw)"

subsection \<open>Chat and announcements\<close>

text \<open>The identifier and the time of a message are the database's.\<close>

definition handleChatMessage ::
  "gw_db \<Rightarrow> string \<Rightarrow> authed_socket \<Rightarrow> string \<Rightarrow> string \<Rightarrow> string \<Rightarrow> jsnum \<Rightarrow> gw_db \<times> gw_emit" where
  "handleChatMessage db sock cd code msg fresh wall = (case db_rooms db code of
     None \<Rightarrow> (db, [(Sock sock, EvError ''Room not found'')])
   | Some room \<Rightarrow>
       (let saved = \<lparr>cm_id = fresh, cm_content = msg, cm_userId = as_userId cd, cm_roomId = rm_id room, cm_createdAt = wall\<rparr> in
        (db\<lparr>db_messages := db_messages db @ [saved]\<rparr>,
         [(Room code, EvChat saved (as_userId cd, db_usernames db (as_userId cd)))])))"

definition announceVoiceRoster :: "string \<Rightarrow> voice_member list \<Rightarrow> gw_emit" where
  "announceVoiceRoster code users = [(Room code, EvVoiceRoster code users)]"

definition announceRoomClosed :: "string \<Rightarrow> gw_emit" where
  "announceRoomClosed code = [(Room code, EvClosed code)]"

subsection \<open>What a validated command looks like\<close>

definition well_formed_command :: "(string \<Rightarrow> url option) \<Rightarrow> intent \<Rightarrow> jsnum \<Rightarrow> apply_opts \<Rightarrow> bool" where
  "well_formed_command parse it mt opts =
     ((case mt of Fin x \<Rightarrow> 0 \<le> x | _ \<Rightarrow> False) \<and>
      (case o_cmdId opts of None \<Rightarrow> True | Some c \<Rightarrow> c \<noteq> [] \<and> length c \<le> 64 \<and> list_all is_idchar c) \<and>
      (case o_forVideoId opts of Some (Some v) \<Rightarrow> length v \<le> VIDEO_URL_MAX_LEN | _ \<Rightarrow> True) \<and>
      (case o_videoId opts of
         None \<Rightarrow> it \<noteq> SetVideo
       | Some None \<Rightarrow> it = SetVideo
       | Some (Some u) \<Rightarrow> it = SetVideo \<and> isAcceptableVideoUrl parse u))"

lemma command_of_WireCommand:
  assumes "command_of parse sock data = WireCommand it mt opts"
  obtains d where "data = Some d" "wire_ok data" "intent_of (wc_intent d) = Some it" "wc_mediaTime d = JNum mt"
    "it = SetVideo \<Longrightarrow> \<exists>v. next_video parse (wc_videoUrl d) = Some v \<and> opts = opts_of sock d (Some v)"
    "it \<noteq> SetVideo \<Longrightarrow> opts = opts_of sock d None"
proof -
  obtain d where d: "data = Some d" "wire_ok data"
    using assms by (auto simp: command_of_def split: if_splits option.splits)
  show thesis
    using assms d by (intro that [of d])
      (auto simp: command_of_def split: option.splits jsval.splits if_splits)
qed

lemma command_well_formed:
  assumes "command_of parse sock data = WireCommand it mt opts"
  shows "well_formed_command parse it mt opts"
  using assms
proof (rule command_of_WireCommand)
  fix d
  assume d: "data = Some d" "wire_ok data" "intent_of (wc_intent d) = Some it" "wc_mediaTime d = JNum mt"
    "it = SetVideo \<Longrightarrow> \<exists>v. next_video parse (wc_videoUrl d) = Some v \<and> opts = opts_of sock d (Some v)"
    "it \<noteq> SetVideo \<Longrightarrow> opts = opts_of sock d None"
  obtain nv where nv: "opts = opts_of sock d nv" by (cases "it = SetVideo") (use d(5,6) in blast)+
  have "case mt of Fin x \<Rightarrow> 0 \<le> x | _ \<Rightarrow> False"
    using d(1,2,4) by (cases mt) (auto simp: wire_ok_def media_time_ok_def isFinite_def)
  moreover have "case o_cmdId opts of None \<Rightarrow> True | Some c \<Rightarrow> c \<noteq> [] \<and> length c \<le> 64 \<and> list_all is_idchar c"
    using d(1,2) by (auto simp: nv wire_ok_def opts_of_def cmd_id_ok_def split: jsval.splits)
  moreover have "case o_forVideoId opts of Some (Some v) \<Rightarrow> length v \<le> VIDEO_URL_MAX_LEN | _ \<Rightarrow> True"
    using d(1,2) by (auto simp: nv wire_ok_def opts_of_def fence_ok_def split: jsval.splits)
  moreover have "case o_videoId opts of None \<Rightarrow> it \<noteq> SetVideo | Some None \<Rightarrow> it = SetVideo
      | Some (Some u) \<Rightarrow> it = SetVideo \<and> isAcceptableVideoUrl parse u"
    using d(5,6) by (cases "it = SetVideo")
      (auto simp: opts_of_def next_video_def Let_def split: jsval.splits if_splits)
  ultimately show ?thesis by (simp add: well_formed_command_def)
qed

lemma idchar_not_colon: "list_all is_idchar s \<Longrightarrow> CHR '':'' \<notin> set s"
  by (auto simp: list_all_iff is_idchar_def is_alnum_def is_digit_def is_upper_def is_lower_def)

lemma last_sep_unique:
  "a @ x # b = c @ x # e \<Longrightarrow> x \<notin> set b \<Longrightarrow> x \<notin> set e \<Longrightarrow> b = e \<and> a = c"
  by (auto simp: append_eq_append_conv2 Cons_eq_append_conv append_eq_Cons_conv)

lemma cmd_key_unique:
  assumes "cmd_key r c = cmd_key r' c'" "list_all is_idchar c" "list_all is_idchar c'"
  shows "r = r' \<and> c = c'"
proof -
  have "(''room:'' @ r @ '':cmd'') @ CHR '':'' # c = (''room:'' @ r' @ '':cmd'') @ CHR '':'' # c'"
    using assms(1) by (simp add: cmd_key_def)
  from last_sep_unique [OF this] show ?thesis using idchar_not_colon assms(2,3) by simp
qed

text \<open>
  C33. Nothing unvalidated passes the wire: a message that is not refused as malformed is a command
  with a finite non-negative position, an idempotency key (if any) of at most 64 letters, digits,
  hyphens and underscores, a bounded fence, and, exactly for set-video, a cleared or acceptable
  address. Its deduplication key in Redis belongs to it alone: no command admitted in another room
  or with another key shares it. A refused message changes nothing and is answered to its sender.
\<close>

theorem wire_admission:
  "case command_of parse sock data of
     WireCommand it mt opts \<Rightarrow>
       well_formed_command parse it mt opts \<and>
       (\<forall>r r' c c' sock' data' it' mt' opts'. o_cmdId opts = Some c \<and> o_cmdId opts' = Some c' \<and>
          command_of parse sock' data' = WireCommand it' mt' opts' \<and> cmd_key r c = cmd_key r' c' \<longrightarrow> r = r' \<and> c = c')
   | _ \<Rightarrow> \<exists>a b why. handleSyncControl ops parse gw sock cd data now = (gw, [(Sock sock, EvRejected a b why)])"
proof (cases "command_of parse sock data")
  case (WireCommand it mt opts)
  have "r = r' \<and> c = c'" if "o_cmdId opts = Some c" "o_cmdId opts' = Some c'"
      "command_of parse sock' data' = WireCommand it' mt' opts'" "cmd_key r c = cmd_key r' c'"
    for r r' c c' sock' data' it' mt' opts'
    using cmd_key_unique [OF that(4)] command_well_formed [OF WireCommand] command_well_formed [OF that(3)] that(1,2)
    by (simp add: well_formed_command_def)
  then show ?thesis using command_well_formed [OF WireCommand] unfolding WireCommand by simp blast
qed (auto simp: handleSyncControl_def)

definition demo_wire :: wire_control where
  "demo_wire = \<lparr>wc_roomCode = JStr ''r'', wc_intent = JStr ''play'', wc_mediaTime = JNum 4, wc_cmdId = JStr ''c-1'',
     wc_videoUrl = JUndef, wc_forVideoId = JUndef\<rparr>"

lemma demo_wire_command:
  "command_of parse sock (Some demo_wire) = WireCommand Play 4 \<lparr>o_cmdId = Some ''c-1'', o_originSocketId = Some sock,
     o_videoId = None, o_forVideoId = None\<rparr>"
  by (simp add: command_of_def wire_ok_def demo_wire_def intent_of_def CONTROL_INTENTS_def media_time_ok_def isFinite_def
    cmd_id_ok_def fence_ok_def opts_of_def is_idchar_def is_alnum_def is_digit_def is_upper_def is_lower_def)

theorem wire_admission_witness:
  "well_formed_command (\<lambda>s. None) Play 4 \<lparr>o_cmdId = Some ''c-1'', o_originSocketId = Some ''s1'', o_videoId = None, o_forVideoId = None\<rparr>"
  using wire_admission [where parse = "\<lambda>s. None" and sock = "''s1''" and data = "Some demo_wire"]
  unfolding demo_wire_command by simp

subsection \<open>Fan-out\<close>

abbreviation gw_timeline :: "'s store_ops \<Rightarrow> 's gateway \<Rightarrow> string \<Rightarrow> timeline option" where
  "gw_timeline ops gw r \<equiv> currentTimeline ops (gw_svc gw) r"

lemma membership_InRoom: "membership_of a b = InRoom r \<longleftrightarrow> a = Some r \<and> b = JStr r"
  by (auto simp: membership_of_def split: option.splits jsval.splits)

lemma membership_same [simp]: "membership_of (Some r) (JStr r) = InRoom r"
  by (simp add: membership_InRoom)

text \<open>Every way the handler can end.\<close>

lemma handleSyncControl_cases:
  assumes "handleSyncControl ops parse gw sock cd data now = (gw', em)"
  obtains (rejected) a b why where "gw' = gw" "em = [(Sock sock, EvRejected a b why)]"
  | (handled) d it mt opts code res where "data = Some d" "command_of parse sock data = WireCommand it mt opts"
      "jm_get (userRooms gw) sock = Some code" "wc_roomCode d = JStr code"
      "handleControl ops (gw_svc gw) code sock (as_userId cd) it mt now opts = (gw_svc gw', res)"
      "em = control_answer sock d code res"
proof (cases "command_of parse sock data")
  case (WireCommand it mt opts)
  then obtain d where d: "data = Some d" by (auto elim: command_of_WireCommand)
  show thesis
  proof (cases "membership_of (jm_get (userRooms gw) sock) (wc_roomCode d)")
    case (InRoom code)
    obtain svc res where "handleControl ops (gw_svc gw) code sock (as_userId cd) it mt now opts = (svc, res)" by fastforce
    then show thesis using assms WireCommand d InRoom
      by (intro handled [of d it mt opts code res]) (auto simp: handleSyncControl_def membership_InRoom Let_def)
  qed (use assms WireCommand d rejected in \<open>auto simp: handleSyncControl_def Let_def\<close>)
qed (use assms rejected in \<open>auto simp: handleSyncControl_def Let_def\<close>)

text \<open>
  C9. A control is broadcast exactly when it committed. Either the handler sends one message, the
  room's new timeline to the room the sender has joined, which is what the store then holds and is
  numbered one past the one it replaced, from a sender who may control the room; or no room's
  timeline changes and whatever is sent goes to the sender alone, a timeline among it being the
  current one of the sender's room (the re-anchor of a duplicate or fenced command). Stated for the
  Redis store under any admissible trimming.
\<close>

theorem control_fanout:
  assumes "trim_ok xtrim" "redis_ok (ts_store (gw_svc gw))"
    "handleSyncControl (redis_ops xtrim) parse gw sock cd data now = (gw', em)"
  shows "(\<exists>r t p m. em = [(Room r, EvTimeline t)] \<and> jm_get (userRooms gw) sock = Some r \<and>
       gw_timeline (redis_ops xtrim) gw' r = Some t \<and> gw_timeline (redis_ops xtrim) gw r = Some p \<and>
       seq t = seq p + 1 \<and> storeEpoch t = storeEpoch p \<and> ts_meta (gw_svc gw) r = Some m \<and> allowedToControl m (as_userId cd)) \<or>
    ((\<forall>r. gw_timeline (redis_ops xtrim) gw' r = gw_timeline (redis_ops xtrim) gw r) \<and> em \<noteq> [] \<and>
     list_all (\<lambda>e. fst e = Sock sock) em \<and>
     (\<forall>t. EvTimeline t \<in> snd ` set em \<longrightarrow>
        (\<exists>r. jm_get (userRooms gw) sock = Some r \<and> gw_timeline (redis_ops xtrim) gw r = Some t)))"
  using assms(3)
proof (cases rule: handleSyncControl_cases)
  case rejected
  then show ?thesis by auto
next
  case (handled d it mt opts code res)
  note law = redis_lawful [OF assms(1)]
  note adm = handled(5)
  show ?thesis
  proof (cases "\<exists>t. res = ControlOk t")
    case True
    then obtain t where t: "res = ControlOk t" by blast
    with room_state_store.control_committed [OF law assms(2)] adm show ?thesis
      using handled(3,6) by (intro disjI1) (fastforce simp: control_answer_def)
  next
    case False
    have nf: "res \<noteq> ControlForwarded" using adm
      by (cases rule: handleControl_cases)
        (auto simp: redis_ops_def redis_applyControl_eq split: outcome.splits option.splits if_splits)
    have same: "gw_timeline (redis_ops xtrim) gw' r' = gw_timeline (redis_ops xtrim) gw r'"
        "res = ControlDuplicate t \<or> res = ControlFenced t \<Longrightarrow> gw_timeline (redis_ops xtrim) gw' code = Some t" for r' t
      using room_state_store.control_refused [OF law assms(2) adm _ nf] False by blast+
    then show ?thesis using handled(3,6) False nf
      by (intro disjI2) (cases res; auto simp: control_answer_def)
  qed
qed

definition demo_gateway :: "redis_db gateway" where
  "demo_gateway = \<lparr>userRooms = [(''s1'', ''r'')], roomHosts = Map.empty, socketToUser = [''s1'' \<mapsto> ''ann''],
     gw_svc = demo_service, gw_sockets = Map.empty, gw_rooms = (\<lambda>r. [''s1'']), gw_roster = []\<rparr>"

definition demo_socket :: "string \<Rightarrow> nat \<Rightarrow> authed_socket" where
  "demo_socket u t = \<lparr>as_userId = u, as_username = JStr u, as_connectedAt = t, as_jti = JUndef, as_tokenVersion = JNum 0,
     as_expiresAt = PInf\<rparr>"

theorem control_fanout_witness:
  "\<exists>gw' em. handleSyncControl (redis_ops (take_last LOG_MAX)) (\<lambda>s. None) demo_gateway ''s2'' (demo_socket ''ann'' 1)
     (Some demo_wire) 9 = (gw', em) \<and> list_all (\<lambda>e. fst e = Sock ''s2'') em \<and>
     gw_timeline (redis_ops (take_last LOG_MAX)) gw' ''r'' = gw_timeline (redis_ops (take_last LOG_MAX)) demo_gateway ''r''"
proof -
  obtain gw' em where h: "handleSyncControl (redis_ops (take_last LOG_MAX)) (\<lambda>s. None) demo_gateway ''s2''
      (demo_socket ''ann'' 1) (Some demo_wire) 9 = (gw', em)" by fastforce
  have "redis_ok (ts_store (gw_svc demo_gateway))" using demo_service_ok by (simp add: demo_gateway_def)
  moreover have "jm_get (userRooms demo_gateway) ''s2'' = None" by (simp add: demo_gateway_def jm_get_def)
  ultimately show ?thesis using control_fanout [OF trim_ok_exact _ h] h by auto
qed

subsection \<open>The effect of an admitted join\<close>

definition join_gateway :: "'s gateway \<Rightarrow> 's timeline_service \<Rightarrow> string \<Rightarrow> string \<Rightarrow> string \<Rightarrow> 's gateway" where
  "join_gateway gw svc sock userId code =
     gw\<lparr>userRooms := jm_set (userRooms gw) sock code, socketToUser := (socketToUser gw)(sock \<mapsto> userId),
        roomHosts := (if roomHosts gw code = None then (roomHosts gw)(code \<mapsto> userId) else roomHosts gw),
        gw_rooms := (gw_rooms gw)(code := js_add (gw_rooms gw code) sock), gw_svc := svc\<rparr>"

definition join_db :: "gw_db \<Rightarrow> string \<Rightarrow> room_rec \<Rightarrow> jsnum \<Rightarrow> gw_db" where
  "join_db db userId room wall = db\<lparr>db_participants := upsert_participant (db_participants db) userId (rm_id room) wall\<rparr>"

lemma join_commit_effect:
  "\<exists>svc em. join_commit ops gw db sock u code room now wall lat =
      (join_gateway gw svc sock u code, join_db db u room wall, em) \<and> ts_meta svc code \<noteq> None \<and>
      (\<forall>c. c \<noteq> code \<longrightarrow> ts_meta svc c = ts_meta (gw_svc gw) c)"
proof -
  obtain sv1 t where e: "ensureRoom ops (gw_svc gw) code (row_of room) now = (sv1, t)" by fastforce
  obtain sv2 bk where r: "reclaim sv1 code u = (sv2, bk)" by fastforce
  have "ts_meta sv1 code \<noteq> None" "\<forall>c. c \<noteq> code \<longrightarrow> ts_meta sv1 c = ts_meta (gw_svc gw) c"
    using e by (auto simp: ensureRoom_def Let_def split: prod.splits if_splits)
  moreover have "ts_meta sv1 code \<noteq> None \<Longrightarrow> ts_meta sv2 code \<noteq> None" "\<forall>c. c \<noteq> code \<longrightarrow> ts_meta sv2 c = ts_meta sv1 c"
    using r by (auto simp: reclaim_def split: option.splits if_splits)
  ultimately show ?thesis using e r
    by (auto simp: join_commit_def join_gateway_def join_db_def Let_def)
qed

lemma handleJoinRoom_admitted:
  assumes "join_admit db u code = JoinAdmitted room"
  shows "\<exists>svc em. handleJoinRoom ops gw db sock u code now wall lat =
      (join_gateway gw svc sock u code, join_db db u room wall, em) \<and> ts_meta svc code \<noteq> None \<and>
      (\<forall>c. c \<noteq> code \<longrightarrow> ts_meta svc c = ts_meta (gw_svc gw) c)"
  using join_commit_effect assms by (simp add: handleJoinRoom_def)

subsection \<open>Capacity\<close>

datatype gw_op =
    GJoin string string string jsnum jsnum jsnum
  | GDisconnect string jsnum jsnum

fun gw_step :: "'s store_ops \<Rightarrow> 's gateway \<times> gw_db \<Rightarrow> gw_op \<Rightarrow> 's gateway \<times> gw_db" where
  "gw_step ops (gw, db) (GJoin sock userId code now wall latency) =
     (let (gw', db', em) = handleJoinRoom ops gw db sock userId code now wall latency in (gw', db'))"
| "gw_step ops (gw, db) (GDisconnect sock now wall) =
     (let (gw', db', em) = handleDisconnect ops gw db sock now wall in (gw', db'))"

definition gw_run :: "'s store_ops \<Rightarrow> 's gateway \<times> gw_db \<Rightarrow> gw_op list \<Rightarrow> 's gateway \<times> gw_db" where
  "gw_run ops = foldl (gw_step ops)"

definition row_keys :: "participant list \<Rightarrow> (string \<times> string) list" where
  "row_keys ps = map (\<lambda>p. (p_userId p, p_roomId p)) ps"

text \<open>The unique constraints of the tables, and no room above its capacity.\<close>

definition tables_ok :: "gw_db \<Rightarrow> bool" where
  "tables_ok db = (distinct (row_keys (db_participants db)) \<and>
     (\<forall>c c' a b. db_rooms db c = Some a \<and> db_rooms db c' = Some b \<and> rm_id a = rm_id b \<longrightarrow> c = c'))"

definition within_capacity :: "gw_db \<Rightarrow> bool" where
  "within_capacity db = (\<forall>c room n. db_rooms db c = Some room \<and> rm_maxUsers room = Some n \<and> 0 < n \<longrightarrow>
     length (active_in (db_participants db) (rm_id room)) \<le> n)"

lemma row_keys_upsert:
  "row_keys (upsert_participant ps u rid w) = (if (u, rid) \<in> set (row_keys ps) then row_keys ps else row_keys ps @ [(u, rid)])"
  by (auto simp: upsert_participant_def row_keys_def is_row_def list_ex_iff comp_def)

lemma row_keys_deactivate [simp]: "row_keys (deactivate ps u rid w) = row_keys ps"
  by (auto simp: deactivate_def row_keys_def)

lemma one_row: "distinct (row_keys ps) \<Longrightarrow> length (filter (is_row u rid) ps) \<le> 1"
proof (induction ps)
  case (Cons p ps)
  have "filter (is_row u rid) ps = []" if "is_row u rid p"
    using that Cons.prems unfolding filter_empty_conv is_row_def row_keys_def by (auto simp: image_iff)
  then show ?case using Cons by (auto simp: row_keys_def)
qed simp

lemma active_upsert_others:
  "length (filter (\<lambda>p. p_userId p \<noteq> u) (active_in (upsert_participant ps u rid w) r)) =
   length (filter (\<lambda>p. p_userId p \<noteq> u) (active_in ps r))"
proof -
  have "length (filter (\<lambda>p. p_userId p \<noteq> u) (active_in (map (\<lambda>p. if is_row u rid p then p\<lparr>p_isActive := True, p_lastPingAt := w\<rparr> else p) ps) r)) =
      length (filter (\<lambda>p. p_userId p \<noteq> u) (active_in ps r))"
    by (induction ps) (auto simp: active_in_def is_row_def)
  then show ?thesis by (simp add: upsert_participant_def active_in_def)
qed

lemma active_upsert_other_room: "r \<noteq> rid \<Longrightarrow> active_in (upsert_participant ps u rid w) r = active_in ps r"
proof -
  assume "r \<noteq> rid"
  then have "active_in (map (\<lambda>p. if is_row u rid p then p\<lparr>p_isActive := True, p_lastPingAt := w\<rparr> else p) ps) r = active_in ps r"
    by (induction ps) (auto simp: active_in_def is_row_def)
  then show ?thesis using \<open>r \<noteq> rid\<close> by (simp add: upsert_participant_def active_in_def)
qed

lemma active_upsert_le:
  assumes "distinct (row_keys ps)"
  shows "length (active_in (upsert_participant ps u rid w) rid) \<le> Suc (length (filter (\<lambda>p. p_userId p \<noteq> u) (active_in ps rid)))"
proof -
  let ?a = "active_in (upsert_participant ps u rid w) rid"
  have "distinct (row_keys (upsert_participant ps u rid w))" using assms by (simp add: row_keys_upsert)
  then have "length (filter (is_row u rid) (upsert_participant ps u rid w)) \<le> 1" by (rule one_row)
  moreover have "length (filter (\<lambda>p. \<not> p_userId p \<noteq> u) ?a) \<le> length (filter (is_row u rid) (upsert_participant ps u rid w))"
    by (simp add: active_in_def is_row_def length_filter_conv_card) (rule card_mono; auto)
  ultimately show ?thesis
    using sum_length_filter_compl [of "\<lambda>p. p_userId p \<noteq> u" ?a] by (simp add: active_upsert_others)
qed

lemma active_deactivate_le: "length (active_in (deactivate ps u rid w) r) \<le> length (active_in ps r)"
  by (induction ps) (auto simp: deactivate_def active_in_def)

lemma capacity_deactivate:
  "tables_ok db \<Longrightarrow> within_capacity db \<Longrightarrow>
   tables_ok (db\<lparr>db_participants := deactivate (db_participants db) u rid w\<rparr>) \<and>
   within_capacity (db\<lparr>db_participants := deactivate (db_participants db) u rid w\<rparr>)"
  by (auto simp: tables_ok_def within_capacity_def intro: order_trans [OF active_deactivate_le])

lemma capacity_update_row:
  assumes "tables_ok db" "within_capacity db"
  shows "tables_ok (update_row db code upd) \<and> within_capacity (update_row db code upd)"
proof -
  have rm: "\<exists>room0. db_rooms db c = Some room0 \<and> rm_id room0 = rm_id room \<and> rm_maxUsers room0 = rm_maxUsers room"
    if "db_rooms (update_row db code upd) c = Some room" for c room
    using that by (auto simp: update_row_def split: if_splits)
  have ps: "db_participants (update_row db code upd) = db_participants db" by (simp add: update_row_def)
  show ?thesis
    unfolding tables_ok_def within_capacity_def ps using assms rm by (simp add: tables_ok_def within_capacity_def) metis
qed

lemma capacity_announce:
  "tables_ok db \<Longrightarrow> within_capacity db \<Longrightarrow>
   tables_ok (fst (leave_announce db sock user code wall)) \<and> within_capacity (fst (leave_announce db sock user code wall))"
  using capacity_deactivate by (auto simp: leave_announce_def Let_def split: option.splits)

lemma capacity_leave:
  assumes "handleLeaveRoom ops gw db sock code now wall = (gw', db', em)" "tables_ok db" "within_capacity db"
  shows "tables_ok db' \<and> within_capacity db'"
proof -
  obtain db0 user where "db' = fst (leave_announce db0 sock user code wall)" "db0 = db \<or> (\<exists>upd. db0 = update_row db code upd)"
    using assms(1) by (auto simp: handleLeaveRoom_def Let_def split: if_splits prod.splits option.splits) (metis fst_conv)+
  then show ?thesis using capacity_announce capacity_update_row assms(2,3) by metis
qed

lemma capacity_join:
  assumes "handleJoinRoom ops gw db sock u code now wall lat = (gw', db', em)" "tables_ok db" "within_capacity db"
  shows "tables_ok db' \<and> within_capacity db'"
proof (cases "join_admit db u code")
  case (JoinAdmitted room)
  let ?ps = "upsert_participant (db_participants db) u (rm_id room) wall"
  have room: "db_rooms db code = Some room"
      "\<And>n. rm_maxUsers room = Some n \<Longrightarrow> 0 < n \<Longrightarrow> length (filter (\<lambda>p. p_userId p \<noteq> u) (active_in (db_participants db) (rm_id room))) < n"
    using JoinAdmitted by (auto simp: join_admit_def split: option.splits if_splits)
  have db': "db' = db\<lparr>db_participants := ?ps\<rparr>"
    using assms(1) handleJoinRoom_admitted [OF JoinAdmitted, of ops gw sock now wall lat] by (auto simp: join_db_def)
  have t: "tables_ok db'" using assms(2) by (auto simp: tables_ok_def db' row_keys_upsert)
  moreover have "length (active_in ?ps (rm_id r)) \<le> n"
    if "db_rooms db c = Some r" "rm_maxUsers r = Some n" "0 < n" for c r n
  proof (cases "rm_id r = rm_id room")
    case True
    then have "r = room" using assms(2) that(1) room(1) by (metis option.inject tables_ok_def)
    then show ?thesis
      using active_upsert_le [of "db_participants db" u "rm_id room" wall] room(2) that assms(2) by (fastforce simp: tables_ok_def)
  next
    case False
    then show ?thesis using that assms(3) by (auto simp: active_upsert_other_room within_capacity_def)
  qed
  ultimately show ?thesis by (auto simp: within_capacity_def db')
qed (use assms in \<open>auto simp: handleJoinRoom_def\<close>)

lemma capacity_step:
  assumes "gw_step ops (gw, db) p = (gw', db')" "tables_ok db" "within_capacity db"
  shows "tables_ok db' \<and> within_capacity db'"
proof (cases p)
  case (GJoin sock u code now wall lat)
  then obtain em where "handleJoinRoom ops gw db sock u code now wall lat = (gw', db', em)"
    using assms(1) by (auto split: prod.splits)
  from capacity_join [OF this assms(2,3)] show ?thesis .
next
  case (GDisconnect sock now wall)
  then obtain gw0 code em where "db' = db \<or> handleLeaveRoom ops gw0 db sock code now wall = (gw', db', em)"
    using assms(1) by (fastforce simp: handleDisconnect_def Let_def split: prod.splits if_splits)
  then show ?thesis using capacity_leave assms(2,3) by metis
qed

text \<open>
  C34. Rooms keep to their capacity: however users join and disconnect, one handler after another, no
  room with a positive limit ever has more active participants than the limit, and a returning
  participant never takes a second place. This holds for every store behind the gateway.
\<close>

theorem room_capacity:
  assumes "tables_ok db" "within_capacity db"
  shows "tables_ok (snd (gw_run ops (gw, db) ps)) \<and> within_capacity (snd (gw_run ops (gw, db) ps))"
  using assms
proof (induction ps arbitrary: gw db)
  case (Cons p ps)
  obtain gw1 db1 where s: "gw_step ops (gw, db) p = (gw1, db1)" by fastforce
  then show ?case using Cons.IH [of db1 gw1] capacity_step [OF s] Cons.prems by (simp add: gw_run_def)
qed (simp add: gw_run_def)

definition demo_room :: "string \<Rightarrow> nat option \<Rightarrow> room_rec" where
  "demo_room c n = \<lparr>rm_id = c, rm_name = c, rm_code = c, rm_videoUrl = None, rm_creatorId = ''ann'', rm_allowGuestControl = False,
     rm_currentTime = 0, rm_isPlaying = False, rm_lastSyncAt = 0, rm_isActive = True, rm_maxUsers = n\<rparr>"

definition demo_db :: gw_db where
  "demo_db = \<lparr>db_rooms = [''a'' \<mapsto> demo_room ''a'' (Some 1), ''b'' \<mapsto> demo_room ''b'' None], db_participants = [],
     db_usernames = (\<lambda>u. u), db_messages = []\<rparr>"

lemma demo_db_ok: "tables_ok demo_db" "within_capacity demo_db"
  by (auto simp: tables_ok_def within_capacity_def demo_db_def demo_room_def row_keys_def active_in_def split: if_splits)

definition empty_gateway :: "'s \<Rightarrow> 's gateway" where
  "empty_gateway st = \<lparr>userRooms = [], roomHosts = Map.empty, socketToUser = Map.empty, gw_svc = new_service st,
     gw_sockets = Map.empty, gw_rooms = (\<lambda>r. []), gw_roster = []\<rparr>"

theorem room_capacity_witness:
  "within_capacity (snd (gw_run mem_ops (empty_gateway mem_empty, demo_db)
     [GJoin ''s1'' ''ann'' ''a'' 1 1 0, GJoin ''s2'' ''bob'' ''a'' 2 2 0, GDisconnect ''s1'' 3 3]))"
  using room_capacity [OF demo_db_ok] by blast

text \<open>
  The check and the write are separate database calls: two joins whose checks both run before either
  write are both admitted to the last place.
\<close>

theorem capacity_check_races:
  "join_admit demo_db ''ann'' ''a'' = JoinAdmitted (demo_room ''a'' (Some 1)) \<and>
   join_admit demo_db ''bob'' ''a'' = JoinAdmitted (demo_room ''a'' (Some 1)) \<and>
   (let (gw1, db1, _) = join_commit ops gw demo_db ''s1'' ''ann'' ''a'' (demo_room ''a'' (Some 1)) 1 1 0;
        (gw2, db2, _) = join_commit ops gw1 db1 ''s2'' ''bob'' ''a'' (demo_room ''a'' (Some 1)) 2 2 0 in
    length (active_in (db_participants db2) ''a'') = 2)"
proof -
  let ?a = "demo_room ''a'' (Some 1)"
  obtain gw1 em1 where j1: "join_commit ops gw demo_db ''s1'' ''ann'' ''a'' ?a 1 1 0 = (gw1, join_db demo_db ''ann'' ?a 1, em1)"
    using join_commit_effect by metis
  obtain gw2 em2 where j2: "join_commit ops gw1 (join_db demo_db ''ann'' ?a 1) ''s2'' ''bob'' ''a'' ?a 2 2 0 =
      (gw2, join_db (join_db demo_db ''ann'' ?a 1) ''bob'' ?a 2, em2)"
    using join_commit_effect by metis
  show ?thesis unfolding j1 j2 Let_def prod.case
    by (simp add: join_admit_def demo_db_def demo_room_def active_in_def join_db_def upsert_participant_def is_row_def)
qed

text \<open>
  There is no handler for the client's leave-room message, and a socket that joins a second room does
  not leave the first: when it disconnects, only the second is left. The first room then has no
  socket but keeps its participant, who fills it, and is never released.
\<close>

theorem second_join_strands_first_room:
  "let (gw1, db1, _) = handleJoinRoom ops (empty_gateway st) demo_db ''s1'' ''bob'' ''a'' 1 1 0;
       (gw2, db2, _) = handleJoinRoom ops gw1 db1 ''s1'' ''bob'' ''b'' 2 2 0;
       (gw3, db3, _) = handleDisconnect ops gw2 db2 ''s1'' 3 3 in
   gw_rooms gw3 ''a'' = [] \<and> userRooms gw3 = [] \<and> join_admit db3 ''cat'' ''a'' = JoinFull \<and> ts_meta (gw_svc gw3) ''a'' \<noteq> None"
proof -
  have ad1: "join_admit demo_db ''bob'' ''a'' = JoinAdmitted (demo_room ''a'' (Some 1))"
    by (simp add: join_admit_def demo_db_def demo_room_def active_in_def)
  obtain svc1 em1 where j1: "handleJoinRoom ops (empty_gateway st) demo_db ''s1'' ''bob'' ''a'' 1 1 0 =
      (join_gateway (empty_gateway st) svc1 ''s1'' ''bob'' ''a'', join_db demo_db ''bob'' (demo_room ''a'' (Some 1)) 1, em1)"
      "ts_meta svc1 ''a'' \<noteq> None"
    using handleJoinRoom_admitted [OF ad1] by metis
  let ?db1 = "join_db demo_db ''bob'' (demo_room ''a'' (Some 1)) 1"
  have ad2: "join_admit ?db1 ''bob'' ''b'' = JoinAdmitted (demo_room ''b'' None)"
    by (simp add: join_admit_def demo_db_def demo_room_def join_db_def)
  obtain svc2 em2 where j2: "handleJoinRoom ops (join_gateway (empty_gateway st) svc1 ''s1'' ''bob'' ''a'') ?db1 ''s1'' ''bob'' ''b'' 2 2 0 =
      (join_gateway (join_gateway (empty_gateway st) svc1 ''s1'' ''bob'' ''a'') svc2 ''s1'' ''bob'' ''b'',
       join_db ?db1 ''bob'' (demo_room ''b'' None) 2, em2)" "ts_meta svc2 ''a'' = ts_meta svc1 ''a''"
    using handleJoinRoom_admitted [OF ad2, of ops "join_gateway (empty_gateway st) svc1 ''s1'' ''bob'' ''a''" "''s1''" 2 2 0]
    by (auto simp: join_gateway_def)
  show ?thesis
    using j1(2) j2(2) unfolding j1(1) j2(1) Let_def prod.case
    by (cases "so_get ops (ts_store svc2) ''b''") (auto simp: handleDisconnect_def handleLeaveRoom_def join_gateway_def join_db_def empty_gateway_def js_add_def
      js_delete_def jm_get_def jm_del_def Let_def releaseRoom_def dropSocket_def leave_announce_def update_row_def deactivate_def
      upsert_participant_def is_row_def demo_db_def demo_room_def join_admit_def active_in_def)
qed

subsection \<open>Succession\<close>

lemma hd_js_insert: "hd (js_insert c x ys) = (if ys \<noteq> [] \<and> c (hd ys) x < 0 then hd ys else x)"
  by (cases ys) auto

lemma js_sort_hd_min:
  "\<forall>x \<in> set xs. is_fin (f x) \<Longrightarrow> y \<in> set xs \<Longrightarrow> f (hd (js_sort (\<lambda>a b. f a - f b) xs)) \<le> f y"
proof (induction xs)
  case (Cons x xs)
  let ?h = "hd (js_sort (\<lambda>a b. f a - f b) xs)"
  obtain a where a: "f x = Fin a" using Cons.prems(1) by auto
  show ?case
  proof (cases "xs = []")
    case True
    then show ?thesis using Cons.prems a by simp
  next
    case False
    then have "?h \<in> set xs" by (metis js_sort_eq_Nil list.set_sel(1) set_js_sort)
    then obtain b where b: "f ?h = Fin b" using Cons.prems(1) by auto
    have le: "Fin b \<le> f y" if "y \<in> set xs" using Cons.IH that Cons.prems(1) b by simp
    obtain e where e: "f y = Fin e" using Cons.prems by auto
    show ?thesis using False a b e le Cons.prems(2) by (auto simp: hd_js_insert)
  qed
qed simp

lemma candidate_longest:
  assumes "candidate gw socks = Some c" "s' \<in> set socks" "gw_sockets gw s' = Some d'" "as_userId d' \<noteq> []"
  shows "\<exists>s \<in> set socks. \<exists>d. gw_sockets gw s = Some d \<and> as_userId d = c \<and> as_connectedAt d \<le> as_connectedAt d'"
proof -
  let ?xs = "candidates gw socks"
  let ?h = "hd (js_sort (\<lambda>a b. snd a - snd b) ?xs)"
  have cand: "x \<in> set ?xs \<longleftrightarrow> (\<exists>s \<in> set socks. \<exists>d. gw_sockets gw s = Some d \<and> as_userId d \<noteq> [] \<and>
      x = (Some (as_userId d), Fin (real (as_connectedAt d))))" for x
    by (force simp: candidates_def split: option.splits)
  then have fin: "\<forall>x \<in> set ?xs. is_fin (snd x)" by auto
  have mem: "(Some (as_userId d'), Fin (real (as_connectedAt d'))) \<in> set ?xs" using cand assms(2-4) by blast
  have "snd ?h \<le> Fin (real (as_connectedAt d'))" using js_sort_hd_min [OF fin mem] by simp
  moreover have "?h \<in> set ?xs" using mem by (metis empty_iff empty_set js_sort_eq_Nil list.set_sel(1) set_js_sort)
  moreover have "fst ?h = Some c" using assms(1) by (auto simp: candidate_def split: list.splits)
  ultimately show ?thesis using cand [of ?h] by fastforce
qed

text \<open>
  Control passes to the longest-connected participant: when leaving announces a successor, the
  one who left controlled a room without guest control, the successor is somebody else with a socket
  still in the room, no remaining socket has been connected longer than theirs, and the service has
  recorded the successor as the active controller.
\<close>

theorem succession_longest_connected:
  assumes "handleLeaveRoom ops gw db sock code now wall = (gw', db', em)" "(Room code, EvController code c BySuccession) \<in> set em"
  shows "\<exists>u m. socketToUser gw sock = Some u \<and> c \<noteq> u \<and> ts_meta (gw_svc gw) code = Some m \<and> \<not> m_allowGuestControl m \<and>
    (u = m_creatorId m \<or> m_activeController m = Some u) \<and>
    ts_meta (gw_svc gw') code = Some (m\<lparr>m_activeController := Some c\<rparr>) \<and>
    (\<forall>s' d'. s' \<in> set (gw_rooms gw' code) \<and> gw_sockets gw s' = Some d' \<and> as_userId d' \<noteq> [] \<longrightarrow>
       (\<exists>s \<in> set (gw_rooms gw' code). \<exists>d. gw_sockets gw s = Some d \<and> as_userId d = c \<and> as_connectedAt d \<le> as_connectedAt d'))"
proof -
  define socks where "socks = js_delete (gw_rooms gw code) sock"
  define gw1 where "gw1 = gw\<lparr>userRooms := jm_del (userRooms gw) sock, socketToUser := (socketToUser gw)(sock := None),
    gw_rooms := (gw_rooms gw)(code := socks), gw_svc := dropSocket (gw_svc gw) sock\<rparr>"
  have no: "(Room code, EvController code c BySuccession) \<notin> set (snd (leave_announce db0 sock user code wall))" for db0 user
    by (auto simp: leave_announce_def Let_def split: option.splits)
  have noE: "(Room code, EvController code c BySuccession) \<notin> set e" if "leave_announce db0 sock user code wall = (d, e)" for db0 user d e
    using no [of db0 user] that by simp
  have ne: "socks \<noteq> []" and tr: "truthy (socketToUser gw sock)"
    using assms noE by (auto simp: handleLeaveRoom_def Let_def socks_def split: if_splits prod.splits)
  then obtain u where u: "socketToUser gw sock = Some u" "u \<noteq> []" by (auto simp: truthy_iff)
  obtain svc change where su: "succession (gw_svc gw1) code u (candidate gw1 socks) = (svc, change)" by fastforce
  have res: "gw_svc gw' = svc" "gw_rooms gw' code = socks" "change = Some c"
    using assms ne u su noE
    by (auto simp: handleLeaveRoom_def Let_def socks_def gw1_def split: if_splits prod.splits option.splits)
  have g1: "candidate gw1 socks = candidate gw socks" "ts_meta (gw_svc gw1) = ts_meta (gw_svc gw)"
    by (simp_all add: candidate_def candidates_def gw1_def dropSocket_def)
  have m: "\<exists>m. ts_meta (gw_svc gw) code = Some m \<and> \<not> m_allowGuestControl m \<and> (u = m_creatorId m \<or> m_activeController m = Some u) \<and>
      candidate gw socks = Some c \<and> c \<noteq> u \<and> ts_meta svc code = Some (m\<lparr>m_activeController := Some c\<rparr>)"
    using su res(3) by (auto simp: succession_def g1 split: option.splits if_splits)
  then show ?thesis using m u res candidate_longest [of gw socks c] by auto
qed

definition demo_meta :: room_meta where
  "demo_meta = \<lparr>m_creatorId = ''ann'', m_allowGuestControl = False, m_videoId = None, m_activeController = None\<rparr>"

definition demo_party :: "mem_store gateway" where
  "demo_party = \<lparr>userRooms = [(''s1'', ''r'')], roomHosts = Map.empty, socketToUser = [''s1'' \<mapsto> ''ann''],
     gw_svc = (new_service mem_empty)\<lparr>ts_meta := [''r'' \<mapsto> demo_meta]\<rparr>,
     gw_sockets = [''s2'' \<mapsto> demo_socket ''bob'' 7, ''s3'' \<mapsto> demo_socket ''cat'' 5],
     gw_rooms = (\<lambda>r. [''s1'', ''s2'', ''s3'']), gw_roster = []\<rparr>"

lemma demo_party_leave:
  "\<exists>gw' db' em. handleLeaveRoom mem_ops demo_party demo_db ''s1'' ''r'' 1 1 = (gw', db', em) \<and>
     (Room ''r'', EvController ''r'' ''cat'' BySuccession) \<in> set em"
  by (simp add: handleLeaveRoom_def demo_party_def demo_socket_def demo_db_def demo_room_def js_delete_def candidate_def candidates_def
    succession_def demo_meta_def dropSocket_def new_service_def leave_announce_def Let_def)

theorem succession_longest_connected_witness:
  "\<exists>gw' db' em. handleLeaveRoom mem_ops demo_party demo_db ''s1'' ''r'' 1 1 = (gw', db', em) \<and>
     ts_meta (gw_svc gw') ''r'' = Some (demo_meta\<lparr>m_activeController := Some ''cat''\<rparr>)"
proof -
  obtain gw' db' em where h: "handleLeaveRoom mem_ops demo_party demo_db ''s1'' ''r'' 1 1 = (gw', db', em)"
      "(Room ''r'', EvController ''r'' ''cat'' BySuccession) \<in> set em"
    using demo_party_leave by blast
  have "ts_meta (gw_svc demo_party) ''r'' = Some demo_meta" by (simp add: demo_party_def)
  then show ?thesis using succession_longest_connected [OF h] h(1) by auto
qed

end
