(* ===== verification/SyncEngine.thy ===== *)
theory SyncEngine
  imports DisciplineController ClockEstimator Gateway
begin

text \<open>
  The browser's sync engine (frontend sync/SyncEngine.ts): it owns the clock estimator, the
  controller and the last applied timeline, and drives whatever player is attached. The callbacks
  (socket events, timers, page visibility, calls from the page) are events; each is one step that
  returns the updated engine with the calls it makes on the player and the socket, in order.
  Properties: engines that were delivered the same timelines agree, a switched-off engine stands
  down, automatic plays are bounded, the servo's belief of the playback rate is the player's rate,
  everything commanded is within bounds, and every control sent is one the gateway admits.
\<close>

subsection \<open>Data\<close>

datatype engine_controller = Reactive drift_controller | Servo discipline

record telemetry_sample =
  te_tLocal :: jsnum
  te_playerTime :: jsnum
  te_playerState :: int
  te_rtt :: jsnum
  te_driftMs :: jsnum
  te_offsetMs :: jsnum
  te_uncertaintyMs :: jsnum
  te_ctrlState :: ctrl_state
  te_seq :: int
  te_fractionalRateOK :: bool

record telemetry_ring =
  tr_base :: nat
  tr_buf :: "telemetry_sample list"

record engine_status =
  es_timeline :: "timeline option"
  es_roomPlaying :: bool
  es_projectedS :: jsnum
  es_durationS :: jsnum
  es_driftMs :: jsnum
  es_offsetMs :: jsnum
  es_uncertaintyMs :: jsnum
  es_rttMs :: jsnum
  es_ctrlState :: ctrl_state
  es_seq :: int
  es_fractionalRateOK :: bool
  es_needsGesture :: bool
  es_seeksIssued :: nat
  es_playerState :: lifecycle

text \<open>
  What the attached player answers during one callback. \<open>pl_setRate\<close> is the value its setRate returns
  for a requested rate (the rate then in effect, by the contract of PlayerAdapter).
\<close>

record player =
  pl_lifecycle :: lifecycle
  pl_time :: jsnum
  pl_raw :: int
  pl_duration :: jsnum
  pl_setRate :: "jsnum \<Rightarrow> jsnum"

text \<open>
  The private fields of SyncEngine; adapters and listeners are identified by numbers, and the last two fields are
  the page's: \<^verbatim>\<open>document.hidden\<close> and \<^verbatim>\<open>socket.connected\<close>.
\<close>

record sync_engine =
  se_roomCode :: string
  se_estimator :: clock_estimator
  se_controller :: engine_controller
  se_telemetry :: telemetry_ring
  se_timeline :: "timeline option"
  se_adapter :: "nat option"
  se_fractionalRateOK :: bool
  se_enabled :: bool
  se_needsGesture :: bool
  se_playAttempts :: nat
  se_listeners :: "nat list"
  se_disposed :: bool
  se_hidden :: bool
  se_connected :: bool

datatype engine_call =
    CallSeek jsnum
  | CallPlay
  | CallPause
  | CallSetRate jsnum jsnum
  | EmitControl wire_control
  | EmitClock jsnum
  | ScheduleBurst "nat list"
  | NotifyStatus nat engine_status

definition CLOCK_BURST_COUNT :: nat where "CLOCK_BURST_COUNT = 8"
definition CLOCK_BURST_SPACING_MS :: nat where "CLOCK_BURST_SPACING_MS = 150"
definition GESTURE_CHIP_THRESHOLD :: nat where "GESTURE_CHIP_THRESHOLD = 3"
definition TELEMETRY_MAX :: nat where "TELEMETRY_MAX = 6000"

subsection \<open>Telemetry\<close>

definition telemetry_push :: "telemetry_ring \<Rightarrow> telemetry_sample \<Rightarrow> telemetry_ring" where
  "telemetry_push r x =
     (let buf = tr_buf r @ [x] in
      if TELEMETRY_MAX < length buf
      then \<lparr>tr_base = tr_base r + (length buf - TELEMETRY_MAX), tr_buf = drop (length buf - TELEMETRY_MAX) buf\<rparr>
      else r\<lparr>tr_buf := buf\<rparr>)"

text \<open>The reader's call: the next absolute index and the samples from an absolute index on.\<close>

definition getSamplesSince :: "telemetry_ring \<Rightarrow> nat \<Rightarrow> nat \<times> telemetry_sample list" where
  "getSamplesSince r abs_index = (tr_base r + length (tr_buf r), drop (abs_index - tr_base r) (tr_buf r))"

text \<open>The ring holds the newest samples, under their absolute indices.\<close>

lemma telemetry_ring:
  "foldl telemetry_push \<lparr>tr_base = 0, tr_buf = []\<rparr> xs =
     \<lparr>tr_base = length xs - TELEMETRY_MAX, tr_buf = drop (length xs - TELEMETRY_MAX) xs\<rparr>"
proof (induction xs rule: rev_induct)
  case (snoc x xs)
  let ?n = "length xs - TELEMETRY_MAX"
  have push: "telemetry_push \<lparr>tr_base = ?n, tr_buf = drop ?n xs\<rparr> x =
      \<lparr>tr_base = length (xs @ [x]) - TELEMETRY_MAX, tr_buf = drop (length (xs @ [x]) - TELEMETRY_MAX) (xs @ [x])\<rparr>"
  proof (cases "length xs < TELEMETRY_MAX")
    case False
    then have "length (xs @ [x]) - TELEMETRY_MAX = 1 + ?n" by simp
    then show ?thesis using False by (simp add: telemetry_push_def Let_def)
  qed (simp add: telemetry_push_def Let_def)
  show ?case by (simp only: foldl_append foldl.simps snoc push)
qed simp

text \<open>A reader that comes back with the index it was handed misses nothing but what the ring has shed.\<close>

lemma getSamplesSince_ring:
  "getSamplesSince (foldl telemetry_push \<lparr>tr_base = 0, tr_buf = []\<rparr> xs) n =
     (length xs, drop (max n (length xs - TELEMETRY_MAX)) xs)"
  by (simp add: telemetry_ring getSamplesSince_def max_def add.commute)

subsection \<open>The controller behind either arm\<close>

definition ctrl_evaluate :: "engine_controller \<Rightarrow> controller_input \<Rightarrow> engine_controller \<times> ctrl_action" where
  "ctrl_evaluate c inp = (case c of
     Reactive d \<Rightarrow> (let (d', a) = drift_evaluate d inp in (Reactive d', a))
   | Servo v \<Rightarrow> (let (v', a) = servo_evaluate v inp in (Servo v', a)))"

definition ctrl_suspend :: "engine_controller \<Rightarrow> engine_controller" where
  "ctrl_suspend c = (case c of Reactive d \<Rightarrow> Reactive (drift_suspend d) | Servo v \<Rightarrow> Servo (servo_suspend v))"

definition ctrl_resume :: "engine_controller \<Rightarrow> engine_controller" where
  "ctrl_resume c = (case c of Reactive d \<Rightarrow> Reactive (drift_resume d) | Servo v \<Rightarrow> Servo (servo_resume v))"

definition ctrl_getStatus :: "engine_controller \<Rightarrow> ctrl_status" where
  "ctrl_getStatus c = (case c of Reactive d \<Rightarrow> drift_getStatus d | Servo v \<Rightarrow> ss_status (servo_getStatus v))"

text \<open>\<^verbatim>\<open>if (this.controller instanceof DisciplineController) this.controller.onRateApplied(applied)\<close>\<close>

definition note_rate :: "engine_controller \<Rightarrow> jsnum \<Rightarrow> engine_controller" where
  "note_rate c applied = (case c of Reactive d \<Rightarrow> c | Servo v \<Rightarrow> Servo (onRateApplied v applied))"

definition is_servo :: "engine_controller \<Rightarrow> bool" where
  "is_servo c = (case c of Reactive _ \<Rightarrow> False | Servo _ \<Rightarrow> True)"

subsection \<open>Operations\<close>

text \<open>The constructor; \<open>arm\<close> is the query parameter \<^verbatim>\<open>controller\<close> of the page's address.\<close>

definition new_engine :: "string option \<Rightarrow> string \<Rightarrow> bool \<Rightarrow> bool \<Rightarrow> sync_engine" where
  "new_engine arm code hidden online =
     \<lparr>se_roomCode = code, se_estimator = new_estimator DEFAULT_CLOCK_TUNING,
      se_controller = (if arm = Some ''R'' then Reactive (new_drift DEFAULT_CONTROLLER_TUNING)
        else Servo (new_discipline DEFAULT_SERVO_TUNING DEFAULT_CONTROLLER_TUNING)),
      se_telemetry = \<lparr>tr_base = 0, tr_buf = []\<rparr>, se_timeline = None, se_adapter = None, se_fractionalRateOK = False,
      se_enabled = True, se_needsGesture = False, se_playAttempts = 0, se_listeners = [], se_disposed = False,
      se_hidden = hidden, se_connected = online\<rparr>"

definition burst :: "nat \<Rightarrow> engine_call" where
  "burst count = ScheduleBurst (map (\<lambda>i. i * CLOCK_BURST_SPACING_MS) [0..<count])"

definition ping :: "sync_engine \<Rightarrow> jsnum \<Rightarrow> engine_call list" where
  "ping e t0 = (if se_disposed e \<or> \<not> se_connected e then [] else [EmitClock t0])"

definition restoreRate :: "sync_engine \<Rightarrow> player \<Rightarrow> sync_engine \<times> engine_call list" where
  "restoreRate e pl =
     (let applied = pl_setRate pl 1 in
      (e\<lparr>se_controller := note_rate (se_controller e) applied\<rparr>, [CallSetRate 1 applied]))"

definition fallBackToSeekFirst :: "sync_engine \<Rightarrow> player \<Rightarrow> sync_engine \<times> engine_call list" where
  "fallBackToSeekFirst e pl =
     (if \<not> is_servo (se_controller e) then (e, [])
      else
        (let calls = (if se_adapter e \<noteq> None then [CallSetRate 1 (pl_setRate pl 1)] else []);
             d = Reactive (new_drift DEFAULT_CONTROLLER_TUNING);
             d' = (if \<not> se_enabled e \<or> se_hidden e then ctrl_suspend d else d) in
         (e\<lparr>se_controller := d'\<rparr>, calls)))"

definition execute :: "sync_engine \<Rightarrow> player \<Rightarrow> ctrl_action \<Rightarrow> sync_engine \<times> engine_call list" where
  "execute e pl act = (case act of
     ActSeek x \<Rightarrow> (let (e1, cs) = restoreRate e pl in (e1, cs @ [CallSeek x]))
   | ActPlay \<Rightarrow>
       (let e1 = e\<lparr>se_playAttempts := se_playAttempts e + 1\<rparr> in
        if GESTURE_CHIP_THRESHOLD < se_playAttempts e1 then (e1\<lparr>se_needsGesture := True\<rparr>, []) else (e1, [CallPlay]))
   | ActPause \<Rightarrow> (e, [CallPause])
   | ActSetRate r \<Rightarrow>
       (let applied = pl_setRate pl r;
            e1 = e\<lparr>se_controller := note_rate (se_controller e) applied\<rparr> in
        if Fin (1 / 1000) < abs (applied - r)
        then (let (e2, cs) = fallBackToSeekFirst (e1\<lparr>se_fractionalRateOK := False\<rparr>) pl in (e2, CallSetRate r applied # cs))
        else (e1, [CallSetRate r applied]))
   | ActClearRate \<Rightarrow> restoreRate e pl
   | ActNone \<Rightarrow> (e, []))"

definition status_of :: "sync_engine \<Rightarrow> player \<Rightarrow> jsnum \<Rightarrow> engine_status" where
  "status_of e pl tLocal =
     (let est = getEstimate (se_estimator e); ctrl = ctrl_getStatus (se_controller e);
          serverNow = serverNow_of (se_estimator e) tLocal in
      \<lparr>es_timeline = se_timeline e,
       es_roomPlaying = (case se_timeline e of None \<Rightarrow> False | Some tml \<Rightarrow> isPlaying tml),
       es_projectedS = (case se_timeline e of None \<Rightarrow> 0 | Some tml \<Rightarrow> projectMediaTime tml serverNow),
       es_durationS = (if se_adapter e = None then 0 else pl_duration pl),
       es_driftMs = st_lastDriftS ctrl * 1000, es_offsetMs = offsetMs est, es_uncertaintyMs = uncertaintyMs est,
       es_rttMs = lastRttMs est, es_ctrlState = st_state ctrl,
       es_seq = (case se_timeline e of None \<Rightarrow> - 1 | Some tml \<Rightarrow> seq tml),
       es_fractionalRateOK = se_fractionalRateOK e, es_needsGesture = se_needsGesture e,
       es_seeksIssued = st_seeksIssued ctrl,
       es_playerState = (if se_adapter e = None then Unstarted else pl_lifecycle pl)\<rparr>)"

definition emitStatus :: "sync_engine \<Rightarrow> player \<Rightarrow> jsnum \<Rightarrow> engine_call list" where
  "emitStatus e pl tLocal =
     (if se_listeners e = [] then [] else map (\<lambda>l. NotifyStatus l (status_of e pl tLocal)) (se_listeners e))"

definition sample_of :: "sync_engine \<Rightarrow> player \<Rightarrow> jsnum \<Rightarrow> telemetry_sample" where
  "sample_of e pl tLocal =
     (let est = getEstimate (se_estimator e); status = ctrl_getStatus (se_controller e) in
      \<lparr>te_tLocal = tLocal, te_playerTime = pl_time pl, te_playerState = pl_raw pl, te_rtt = lastRttMs est,
       te_driftMs = st_lastDriftS status * 1000, te_offsetMs = offsetMs est, te_uncertaintyMs = uncertaintyMs est,
       te_ctrlState = st_state status, te_seq = (case se_timeline e of None \<Rightarrow> - 1 | Some tml \<Rightarrow> seq tml),
       te_fractionalRateOK = se_fractionalRateOK e\<rparr>)"

definition engine_input :: "sync_engine \<Rightarrow> player \<Rightarrow> jsnum \<Rightarrow> controller_input" where
  "engine_input e pl tLocal =
     \<lparr>ci_tLocal = tLocal, ci_serverNow = serverNow_of (se_estimator e) tLocal, ci_playerTime = pl_time pl,
      ci_playerState = pl_lifecycle pl, ci_timeline = se_timeline e, ci_fractionalRateOK = se_fractionalRateOK e\<rparr>"

text \<open>The readings of the player are those at the start of the tick, the telemetry's those at its end.\<close>

definition engine_tick :: "sync_engine \<Rightarrow> player \<Rightarrow> player \<Rightarrow> jsnum \<Rightarrow> sync_engine \<times> engine_call list" where
  "engine_tick e0 pl pl' tLocal =
     (let e = e0\<lparr>se_estimator := tick (se_estimator e0) tLocal\<rparr> in
      if se_adapter e = None \<or> \<not> hasEstimate (se_estimator e) then (e, emitStatus e pl tLocal)
      else
        (let (c, act) = ctrl_evaluate (se_controller e) (engine_input e pl tLocal);
             (e1, calls) = execute (e\<lparr>se_controller := c\<rparr>) pl act;
             e2 = (if pl_lifecycle pl = Playing then e1\<lparr>se_playAttempts := 0, se_needsGesture := False\<rparr> else e1);
             e3 = e2\<lparr>se_telemetry := telemetry_push (se_telemetry e2) (sample_of e2 pl' tLocal)\<rparr> in
         (e3, calls @ emitStatus e3 pl' tLocal)))"

definition engine_receive :: "sync_engine \<Rightarrow> timeline \<Rightarrow> sync_engine" where
  "engine_receive e tml = (if isNewer tml (se_timeline e) then e\<lparr>se_timeline := Some tml\<rparr> else e)"

definition sendIntent :: "sync_engine \<Rightarrow> string \<Rightarrow> jsnum \<Rightarrow> string \<Rightarrow> engine_call list" where
  "sendIntent e it mt cmdId =
     (if \<not> se_connected e then []
      else [EmitControl \<lparr>wc_roomCode = JStr (se_roomCode e), wc_intent = JStr it, wc_mediaTime = JNum (math_max 0 mt),
              wc_cmdId = JStr cmdId, wc_videoUrl = JUndef,
              wc_forVideoId = (case se_timeline e of None \<Rightarrow> JUndef
                | Some tml \<Rightarrow> (case videoId tml of None \<Rightarrow> JNull | Some v \<Rightarrow> JStr v))\<rparr>])"

definition sendSetVideo :: "bool \<Rightarrow> string \<Rightarrow> string \<Rightarrow> string \<Rightarrow> bool \<times> engine_call list" where
  "sendSetVideo online code url cmdId =
     (if \<not> online then (False, [])
      else (True, [EmitControl \<lparr>wc_roomCode = JStr code, wc_intent = JStr ''set-video'', wc_mediaTime = JNum 0,
              wc_cmdId = JStr cmdId, wc_videoUrl = JStr url, wc_forVideoId = JUndef\<rparr>]))"

definition resumeFromGesture :: "sync_engine \<Rightarrow> sync_engine \<times> engine_call list" where
  "resumeFromGesture e =
     (e\<lparr>se_needsGesture := False, se_playAttempts := 0\<rparr>, if se_adapter e = None then [] else [CallPlay])"

definition stand_down :: "sync_engine \<Rightarrow> player \<Rightarrow> sync_engine \<times> engine_call list" where
  "stand_down e pl =
     (let e1 = e\<lparr>se_controller := ctrl_suspend (se_controller e)\<rparr> in
      if se_adapter e1 = None then (e1, []) else restoreRate e1 pl)"

definition resume_controller :: "sync_engine \<Rightarrow> sync_engine" where
  "resume_controller e = e\<lparr>se_controller := ctrl_resume (se_controller e)\<rparr>"

definition setEnabled :: "sync_engine \<Rightarrow> player \<Rightarrow> bool \<Rightarrow> sync_engine \<times> engine_call list" where
  "setEnabled e pl b =
     (let e1 = e\<lparr>se_enabled := b\<rparr> in if b then (resume_controller e1, []) else stand_down e1 pl)"

definition onReconnect :: "sync_engine \<Rightarrow> sync_engine \<times> engine_call list" where
  "onReconnect e =
     (let e1 = e\<lparr>se_estimator := reset_estimator (se_estimator e)\<rparr> in
      (if se_enabled e1 then resume_controller e1 else e1, [burst CLOCK_BURST_COUNT]))"

definition onVisibility :: "sync_engine \<Rightarrow> player \<Rightarrow> sync_engine \<times> engine_call list" where
  "onVisibility e pl =
     (if se_hidden e then stand_down e pl
      else (if se_enabled e then resume_controller e else e, [burst 4]))"

definition probed :: "sync_engine \<Rightarrow> player \<Rightarrow> nat \<Rightarrow> bool \<Rightarrow> sync_engine \<times> engine_call list" where
  "probed e pl i ok =
     (if se_adapter e \<noteq> Some i \<or> se_disposed e then (e, [])
      else (let e1 = e\<lparr>se_fractionalRateOK := ok\<rparr> in if ok then (e1, []) else fallBackToSeekFirst e1 pl))"

definition engine_dispose :: "sync_engine \<Rightarrow> sync_engine" where
  "engine_dispose e = e\<lparr>se_disposed := True, se_listeners := []\<rparr>"

subsection \<open>Steps\<close>

text \<open>
  A started engine is driven by the socket (a timeline, the answer to a join, connecting and
  disconnecting), its timers, the page and the promises it waits for. Disposing takes the socket and
  page handlers off and stops the two intervals; a pong already awaited still arrives.
\<close>

datatype engine_event =
    OnTimeline timeline
  | OnRoomJoined "timeline option"
  | OnConnect
  | OnDisconnect
  | OnVisibility bool player
  | ClockTimer jsnum
  | BurstPing jsnum
  | OnPong clock_sample
  | CtrlTimer player player jsnum
  | AttachAdapter nat
  | Probed player nat bool
  | SendIntent string jsnum string
  | Gesture
  | SetEnabled player bool
  | OnStatus nat
  | OffStatus nat
  | Dispose

definition unless_disposed :: "sync_engine \<Rightarrow> sync_engine \<times> engine_call list \<Rightarrow> js_error + sync_engine \<times> engine_call list" where
  "unless_disposed e r = Inr (if se_disposed e then (e, []) else r)"

fun engine_step :: "sync_engine \<Rightarrow> engine_event \<Rightarrow> js_error + sync_engine \<times> engine_call list" where
  "engine_step e (OnTimeline tml) = unless_disposed e (engine_receive e tml, [])"
| "engine_step e (OnRoomJoined p) =
     unless_disposed e (case p of None \<Rightarrow> e | Some tml \<Rightarrow> engine_receive e tml, [])"
| "engine_step e OnConnect =
     (let e1 = e\<lparr>se_connected := True\<rparr> in unless_disposed e1 (onReconnect e1))"
| "engine_step e OnDisconnect = Inr (e\<lparr>se_connected := False\<rparr>, [])"
| "engine_step e (OnVisibility h pl) =
     (let e1 = e\<lparr>se_hidden := h\<rparr> in unless_disposed e1 (onVisibility e1 pl))"
| "engine_step e (ClockTimer t0) = unless_disposed e (e, if se_hidden e then [] else ping e t0)"
| "engine_step e (BurstPing t0) = Inr (e, ping e t0)"
| "engine_step e (OnPong smp) = (case addSample (se_estimator e) smp of
     Inl err \<Rightarrow> Inl err
   | Inr (est, _) \<Rightarrow> Inr (e\<lparr>se_estimator := est\<rparr>, []))"
| "engine_step e (CtrlTimer pl pl' t) = unless_disposed e (engine_tick e pl pl' t)"
| "engine_step e (AttachAdapter i) = Inr (e\<lparr>se_adapter := Some i\<rparr>, [])"
| "engine_step e (Probed pl i ok) = Inr (probed e pl i ok)"
| "engine_step e (SendIntent it mt c) = Inr (e, sendIntent e it mt c)"
| "engine_step e Gesture = Inr (resumeFromGesture e)"
| "engine_step e (SetEnabled pl b) = Inr (setEnabled e pl b)"
| "engine_step e (OnStatus l) =
     Inr (e\<lparr>se_listeners := (if l \<in> set (se_listeners e) then se_listeners e else se_listeners e @ [l])\<rparr>, [])"
| "engine_step e (OffStatus l) = Inr (e\<lparr>se_listeners := filter (\<lambda>k. k \<noteq> l) (se_listeners e)\<rparr>, [])"
| "engine_step e Dispose = Inr (engine_dispose e, [])"

fun engine_run :: "sync_engine \<Rightarrow> engine_event list \<Rightarrow> js_error + sync_engine \<times> engine_call list" where
  "engine_run e [] = Inr (e, [])"
| "engine_run e (v # vs) = (case engine_step e v of
     Inl err \<Rightarrow> Inl err
   | Inr (e1, cs) \<Rightarrow> (case engine_run e1 vs of Inl err \<Rightarrow> Inl err | Inr (e2, cs') \<Rightarrow> Inr (e2, cs @ cs')))"

text \<open>The constructor followed by start().\<close>

definition start_engine :: "string option \<Rightarrow> string \<Rightarrow> bool \<Rightarrow> bool \<Rightarrow> sync_engine \<times> engine_call list" where
  "start_engine arm code hidden online = (new_engine arm code hidden online, [burst CLOCK_BURST_COUNT])"

subsection \<open>Invariants of runs\<close>

text \<open>
  An invariant of the engine and a promise about its calls that every step keeps hold along every
  run made of admitted events.
\<close>

locale engine_contract =
  fixes admitted :: "engine_event \<Rightarrow> bool"
    and inv :: "sync_engine \<Rightarrow> bool"
    and good :: "engine_call \<Rightarrow> bool"
  assumes step_keeps: "inv e \<Longrightarrow> admitted v \<Longrightarrow> engine_step e v = Inr (e', cs) \<Longrightarrow> inv e' \<and> list_all good cs"
begin

lemma run_keeps:
  "engine_run e vs = Inr (e', cs) \<Longrightarrow> inv e \<Longrightarrow> list_all admitted vs \<Longrightarrow> inv e' \<and> list_all good cs"
proof (induction vs arbitrary: e cs)
  case (Cons v vs)
  obtain e1 c1 where s: "engine_step e v = Inr (e1, c1)"
    using Cons.prems(1) by (cases "engine_step e v") auto
  obtain c2 where r: "engine_run e1 vs = Inr (e', c2)" "cs = c1 @ c2"
    using Cons.prems(1) s by (cases "engine_run e1 vs") auto
  have "inv e1 \<and> list_all good c1" using step_keeps [OF Cons.prems(2) _ s] Cons.prems(3) by simp
  with Cons.IH [OF r(1)] Cons.prems(3) r(2) show ?case by simp
qed simp

end

lemma unless_disposed_Inr:
  "unless_disposed e r = Inr (e', cs) \<longleftrightarrow> (if se_disposed e then e' = e \<and> cs = [] else r = (e', cs))"
  by (auto simp: unless_disposed_def)

lemmas engine_defs = unless_disposed_Inr engine_receive_def onReconnect_def onVisibility_def setEnabled_def stand_down_def
  probed_def resumeFromGesture_def resume_controller_def engine_dispose_def sendIntent_def ping_def restoreRate_def
  fallBackToSeekFirst_def

text \<open>What happens inside a tick, for a player and an estimate that are there.\<close>

lemma engine_tick_cases:
  assumes "engine_tick e0 pl pl' t = (e', cs)"
  obtains (idle) "e' = e0\<lparr>se_estimator := tick (se_estimator e0) t\<rparr>" "cs = emitStatus e' pl t"
    "se_adapter e0 = None \<or> \<not> hasEstimate (tick (se_estimator e0) t)"
  | (act) c a e1 calls e2 where
    "ctrl_evaluate (se_controller e0) (engine_input (e0\<lparr>se_estimator := tick (se_estimator e0) t\<rparr>) pl t) = (c, a)"
    "execute (e0\<lparr>se_estimator := tick (se_estimator e0) t, se_controller := c\<rparr>) pl a = (e1, calls)"
    "e2 = (if pl_lifecycle pl = Playing then e1\<lparr>se_playAttempts := 0, se_needsGesture := False\<rparr> else e1)"
    "e' = e2\<lparr>se_telemetry := telemetry_push (se_telemetry e2) (sample_of e2 pl' t)\<rparr>"
    "cs = calls @ emitStatus e' pl' t" "se_adapter e0 \<noteq> None"
proof (cases "se_adapter e0 = None \<or> \<not> hasEstimate (tick (se_estimator e0) t)")
  case True
  with assms show ?thesis by (auto simp: engine_tick_def Let_def intro!: idle)
next
  case False
  obtain c a where ca: "ctrl_evaluate (se_controller e0) (engine_input (e0\<lparr>se_estimator := tick (se_estimator e0) t\<rparr>) pl t) = (c, a)"
    by fastforce
  obtain e1 calls where ex: "execute (e0\<lparr>se_estimator := tick (se_estimator e0) t, se_controller := c\<rparr>) pl a = (e1, calls)"
    by fastforce
  show ?thesis
    by (rule act [OF ca ex HOL.refl]) (use assms False ca ex in \<open>auto simp: engine_tick_def Let_def\<close>)
qed

subsection \<open>Switched off\<close>

definition ctrl_stopped :: "engine_controller \<Rightarrow> bool" where
  "ctrl_stopped c = (case c of Reactive d \<Rightarrow> dc_state d = SUSPENDED
     | Servo v \<Rightarrow> dc_state (sv_reactive v) = SUSPENDED \<and> \<not> servoActive v)"

definition off_inv :: "sync_engine \<Rightarrow> bool" where
  "off_inv e = (\<not> se_enabled e \<and> ctrl_stopped (se_controller e))"

text \<open>A call that leaves the player alone, or returns it to its normal rate.\<close>

definition quiet_call :: "engine_call \<Rightarrow> bool" where
  "quiet_call c = (case c of CallSeek _ \<Rightarrow> False | CallPlay \<Rightarrow> False | CallPause \<Rightarrow> False
     | CallSetRate r _ \<Rightarrow> r = 1 | _ \<Rightarrow> True)"

definition hands_off :: "engine_event \<Rightarrow> bool" where
  "hands_off v = (case v of Gesture \<Rightarrow> False | SetEnabled _ b \<Rightarrow> \<not> b | _ \<Rightarrow> True)"

lemma stopped_suspend [simp]: "ctrl_stopped (ctrl_suspend c)"
  by (cases c) (simp_all add: ctrl_stopped_def ctrl_suspend_def drift_suspend_def servo_suspend_def resetServo_def)

lemma stopped_note_rate [simp]: "ctrl_stopped (note_rate c r) = ctrl_stopped c"
  by (cases c) (simp_all add: ctrl_stopped_def note_rate_def onRateApplied_def)

lemma stopped_evaluate: "ctrl_stopped c \<Longrightarrow> ctrl_evaluate c inp = (c, ActNone)"
  by (cases c) (auto simp: ctrl_stopped_def ctrl_evaluate_def drift_evaluate_def servo_evaluate_def drift_getStatus_def
    Let_def split: option.splits)

lemma quiet_emitStatus [simp]: "list_all quiet_call (emitStatus e pl t)"
  by (simp add: emitStatus_def quiet_call_def list_all_iff)

lemma execute_none [simp]: "execute e pl ActNone = (e, [])"
  by (simp add: execute_def)

lemma off_tick:
  assumes "off_inv e" "engine_tick e pl pl' t = (e', cs)"
  shows "off_inv e' \<and> list_all quiet_call cs"
  using assms(2)
proof (cases rule: engine_tick_cases)
  case idle
  then show ?thesis using assms(1) by (simp add: off_inv_def)
next
  case (act c a e1 calls e2)
  have st: "ctrl_stopped (se_controller e)" using assms(1) by (simp add: off_inv_def)
  then have ca: "c = se_controller e" "a = ActNone" using act(1) by (simp_all add: stopped_evaluate)
  then have "off_inv e1 \<and> calls = []" using act(2) assms(1) by (auto simp: off_inv_def)
  then show ?thesis using act(3-5) by (simp add: off_inv_def)
qed

interpretation off: engine_contract hands_off off_inv quiet_call
proof
  fix e v e' cs
  assume a: "off_inv e" "hands_off v" "engine_step e v = Inr (e', cs)"
  show "off_inv e' \<and> list_all quiet_call cs"
  proof (cases v)
    case (CtrlTimer pl pl' t)
    then show ?thesis using a off_tick by (auto simp: unless_disposed_Inr split: if_splits)
  qed (use a in \<open>auto simp: engine_defs off_inv_def hands_off_def quiet_call_def Let_def burst_def
      split: option.splits if_splits sum.splits\<close>)
qed

text \<open>No event makes the engine raise: the estimator always has a sample to choose from.\<close>

definition can_estimate :: "sync_engine \<Rightarrow> bool" where
  "can_estimate e = (0 < bestK (ce_tuning (se_estimator e)))"

lemma recompute_Inr: "0 < bestK (ce_tuning est) \<Longrightarrow> \<exists>est'. recompute est t = Inr est'"
proof (cases "best_samples est t")
  case Nil
  assume k: "0 < bestK (ce_tuning est)"
  have "filter (\<lambda>x. t - ss_t3 x \<le> windowMs (ce_tuning est)) (ce_samples est) = []"
    unfolding filter_empty_conv
  proof (intro ballI notI)
    fix x assume "x \<in> set (ce_samples est)" "t - ss_t3 x \<le> windowMs (ce_tuning est)"
    from best_samples_nonempty [OF this k] Nil show False by simp
  qed
  then have "recompute est t = Inr est" by (simp only: recompute_def Let_def if_True HOL.simp_thms)
  then show ?thesis by blast
next
  case (Cons b bs)
  let ?r = "\<lambda>e1. Inr (case ce_applied est of None \<Rightarrow> e1\<lparr>ce_applied := Some (js_median (map ss_theta (b # bs)))\<rparr>
     | Some a \<Rightarrow> if slewThresholdMs (ce_tuning est) \<le> \<bar>js_median (map ss_theta (b # bs)) - a\<bar>
         then e1\<lparr>ce_applied := Some (js_median (map ss_theta (b # bs)))\<rparr> else e1)"
  have "recompute est t = (if filter (\<lambda>x. t - ss_t3 x \<le> windowMs (ce_tuning est)) (ce_samples est) = [] then Inr est
     else ?r (est\<lparr>ce_target := js_median (map ss_theta (b # bs)), ce_uncertainty := ss_delta b / 2\<rparr>))"
    by (simp only: recompute_def Let_def Cons list.case)
  then show ?thesis by metis
qed

lemma addSample_Inr:
  assumes "0 < bestK (ce_tuning est)"
  shows "\<exists>est' b. addSample est smp = Inr (est', b) \<and> ce_tuning est' = ce_tuning est"
proof -
  let ?e = "\<lambda>d th. est\<lparr>ce_samples := take_last (ringSize (ce_tuning est)) (ce_samples est @ [\<lparr>ss_theta = th, ss_delta = d, ss_t3 = cs_t3 smp\<rparr>]),
    ce_lastRtt := d\<rparr>"
  have "\<exists>est'. recompute (?e d th) (cs_t3 smp) = Inr est' \<and> ce_tuning est' = ce_tuning est" for d th
    using recompute_Inr [of "?e d th" "cs_t3 smp"] recompute_tuning [of "?e d th" "cs_t3 smp"] assms by auto
  then obtain est' where "recompute (?e (cs_t3 smp - cs_t0 smp - (cs_t2 smp - cs_t1 smp))
        ((cs_t1 smp - cs_t0 smp + (cs_t2 smp - cs_t3 smp)) / 2)) (cs_t3 smp) = Inr est'" "ce_tuning est' = ce_tuning est"
    by blast
  then show ?thesis by (auto simp: addSample_def Let_def)
qed

lemma execute_estimator: "execute e pl a = (e', cs) \<Longrightarrow> se_estimator e' = se_estimator e"
  by (cases a) (auto simp: execute_def restoreRate_def fallBackToSeekFirst_def Let_def split: if_splits prod.splits)

lemma tick_tuning [simp]: "ce_tuning (tick est t) = ce_tuning est"
  by (simp add: tick_def Let_def split: option.splits)

lemma engine_tick_estimator: "engine_tick e pl pl' t = (e', cs) \<Longrightarrow> se_estimator e' = tick (se_estimator e) t"
  by (erule engine_tick_cases) (auto dest: execute_estimator)

lemma engine_step_Inr:
  assumes "can_estimate e"
  shows "\<exists>e' cs. engine_step e v = Inr (e', cs) \<and> can_estimate e'"
proof (cases v)
  case (CtrlTimer pl pl' t)
  then show ?thesis using assms engine_tick_estimator
    by (cases "engine_tick e pl pl' t") (auto simp: unless_disposed_def can_estimate_def)
next
  case (OnPong smp)
  then show ?thesis using addSample_Inr [of "se_estimator e" smp] assms by (auto simp: can_estimate_def)
qed (use assms in \<open>auto simp: engine_defs unless_disposed_def can_estimate_def reset_estimator_def Let_def split: option.splits\<close>)

lemma engine_run_Inr: "can_estimate e \<Longrightarrow> \<exists>e' cs. engine_run e vs = Inr (e', cs) \<and> can_estimate e'"
proof (induction vs arbitrary: e)
  case (Cons v vs)
  obtain e1 c1 where s: "engine_step e v = Inr (e1, c1)" "can_estimate e1" using engine_step_Inr [OF Cons.prems] by blast
  then show ?case using Cons.IH [OF s(2)] by auto
qed simp

lemma can_estimate_new: "can_estimate (new_engine arm code h c)"
  by (simp add: can_estimate_def new_engine_def new_estimator_def DEFAULT_CLOCK_TUNING_def)

text \<open>
  C14. Switched off means off: once the user disables sync, whatever the socket, the timers, the
  page's visibility, the player and its probes do, the engine neither seeks nor plays nor pauses and
  sets no rate but 1, until the user enables sync again or asks for playback by a gesture; it stays
  switched off, and it never raises.
\<close>

theorem disabled_engine_stands_down:
  assumes "list_all hands_off vs"
  shows "\<exists>e cs e' cs'. engine_run (new_engine arm code h c) us = Inr (e, cs) \<and>
    engine_run e (SetEnabled pl False # vs) = Inr (e', cs') \<and> \<not> se_enabled e' \<and> list_all quiet_call cs'"
proof -
  obtain e cs where e: "engine_run (new_engine arm code h c) us = Inr (e, cs)" "can_estimate e"
    using engine_run_Inr [OF can_estimate_new] by blast
  let ?s = "setEnabled e pl False"
  have s: "engine_step e (SetEnabled pl False) = Inr ?s" by simp
  have ok: "off_inv (fst ?s) \<and> list_all quiet_call (snd ?s)"
    by (simp add: engine_defs off_inv_def Let_def quiet_call_def)
  have "can_estimate (fst ?s)" using engine_step_Inr [OF e(2), of "SetEnabled pl False"] by auto
  then obtain e' c2 where r: "engine_run (fst ?s) vs = Inr (e', c2)" using engine_run_Inr by blast
  have "off_inv e' \<and> list_all quiet_call c2" using off.run_keeps [OF r _ assms] ok by blast
  with e(1) r ok show ?thesis by (simp add: prod.case_eq_if off_inv_def)
qed

text \<open>A paused player in front of a playing room, which an enabled engine would start.\<close>

definition demo_player :: player where
  "demo_player = \<lparr>pl_lifecycle = Paused, pl_time = 0, pl_raw = 2, pl_duration = 100, pl_setRate = (\<lambda>r. r)\<rparr>"

definition demo_timeline :: timeline where
  "demo_timeline = \<lparr>seq = 1, storeEpoch = ''7'', videoId = None, isPlaying = True, mediaTime = 0, stampedAt = 0, rate = 1,
     reason_of = ''play'', by_user = None\<rparr>"

definition demo_sample :: clock_sample where
  "demo_sample = \<lparr>cs_t0 = 0, cs_t1 = 10, cs_t2 = 10, cs_t3 = 20\<rparr>"

theorem disabled_engine_stands_down_witness:
  "\<exists>e cs e' cs'. engine_run (new_engine None ''room'' False True) [AttachAdapter 0, OnPong demo_sample, OnTimeline demo_timeline] = Inr (e, cs) \<and>
     engine_run e [SetEnabled demo_player False, OnConnect, OnVisibility False demo_player, Probed demo_player 0 False,
       CtrlTimer demo_player demo_player 250] = Inr (e', cs') \<and> \<not> se_enabled e' \<and> list_all quiet_call cs'"
  using disabled_engine_stands_down
    [of "[OnConnect, OnVisibility False demo_player, Probed demo_player 0 False, CtrlTimer demo_player demo_player 250]" None "''room''"
      False True "[AttachAdapter 0, OnPong demo_sample, OnTimeline demo_timeline]" demo_player]
  by (simp add: hands_off_def)

text \<open>
  Hidden does not mean off: a reconnect resumes the controller of a hidden tab, although hiding the
  tab had suspended it and fallBackToSeekFirst takes care not to.
\<close>

lemma reconnect_resumes_hidden_tab:
  assumes "se_hidden e" "se_enabled e" "\<not> se_disposed e"
  shows "\<exists>e' cs. engine_step e OnConnect = Inr (e', cs) \<and> se_hidden e' \<and> st_state (ctrl_getStatus (se_controller e')) = LOCKED"
  using assms
  by (cases "se_controller e")
    (simp_all add: engine_defs unless_disposed_def Let_def ctrl_resume_def ctrl_getStatus_def drift_getStatus_def drift_resume_def
      servo_getStatus_def servo_resume_def)

subsection \<open>Automatic plays\<close>

definition is_play :: "engine_call \<Rightarrow> bool" where
  "is_play c = (c = CallPlay)"

definition plays :: "engine_call list \<Rightarrow> nat" where
  "plays cs = length (filter is_play cs)"

text \<open>Events that neither see the player playing nor stand for a click of the user.\<close>

definition refusing :: "engine_event \<Rightarrow> bool" where
  "refusing v = (case v of Gesture \<Rightarrow> False | CtrlTimer pl _ _ \<Rightarrow> pl_lifecycle pl \<noteq> Playing | _ \<Rightarrow> True)"

lemma plays_simps [simp]: "plays [] = 0" "plays (cs @ ds) = plays cs + plays ds" "plays (emitStatus e pl t) = 0"
  by (simp_all add: plays_def emitStatus_def is_play_def comp_def)

text \<open>The chip is shown while plays are withheld, and a play that is sent uses up one of three.\<close>

definition chip_inv :: "sync_engine \<Rightarrow> bool" where
  "chip_inv e = (GESTURE_CHIP_THRESHOLD < se_playAttempts e \<longrightarrow> se_needsGesture e)"

lemma execute_plays:
  assumes "execute e pl a = (e', cs)"
  shows "plays cs + (3 - se_playAttempts e') \<le> 3 - se_playAttempts e" "chip_inv e \<Longrightarrow> chip_inv e'"
  using assms
  by (cases a; auto simp: execute_def restoreRate_def fallBackToSeekFirst_def Let_def plays_def is_play_def GESTURE_CHIP_THRESHOLD_def
    chip_inv_def split: if_splits prod.splits)+

lemma engine_tick_plays:
  assumes "engine_tick e pl pl' t = (e', cs)" "pl_lifecycle pl \<noteq> Playing"
  shows "plays cs + (3 - se_playAttempts e') \<le> 3 - se_playAttempts e" "chip_inv e \<Longrightarrow> chip_inv e'"
proof -
  have "plays cs + (3 - se_playAttempts e') \<le> 3 - se_playAttempts e \<and> (chip_inv e \<longrightarrow> chip_inv e')"
    using assms(1)
  proof (cases rule: engine_tick_cases)
    case (act c a e1 calls e2)
    then show ?thesis using execute_plays [OF act(2)] assms(2) by (simp add: chip_inv_def)
  qed (simp add: chip_inv_def)
  then show "plays cs + (3 - se_playAttempts e') \<le> 3 - se_playAttempts e" "chip_inv e \<Longrightarrow> chip_inv e'" by simp_all
qed

lemma engine_step_plays:
  assumes "engine_step e v = Inr (e', cs)" "refusing v"
  shows "plays cs + (3 - se_playAttempts e') \<le> 3 - se_playAttempts e \<and> (chip_inv e \<longrightarrow> chip_inv e')"
proof (cases v)
  case (CtrlTimer pl pl' t)
  then show ?thesis using assms engine_tick_plays [of e pl pl' t e' cs]
    by (auto simp: unless_disposed_Inr refusing_def split: if_splits)
qed (use assms in \<open>auto simp: engine_defs refusing_def chip_inv_def plays_def is_play_def burst_def Let_def
      split: option.splits if_splits sum.splits\<close>)

lemma engine_run_plays:
  "engine_run e vs = Inr (e', cs) \<Longrightarrow> list_all refusing vs \<Longrightarrow>
   plays cs + (3 - se_playAttempts e') \<le> 3 - se_playAttempts e \<and> (chip_inv e \<longrightarrow> chip_inv e')"
proof (induction vs arbitrary: e cs)
  case (Cons v vs)
  obtain e1 c1 where s: "engine_step e v = Inr (e1, c1)"
    using Cons.prems(1) by (cases "engine_step e v") auto
  obtain c2 where r: "engine_run e1 vs = Inr (e', c2)" "cs = c1 @ c2"
    using Cons.prems(1) s by (cases "engine_run e1 vs") auto
  show ?case using Cons.IH [OF r(1)] Cons.prems(2) engine_step_plays [OF s] r(2) by auto
qed simp

lemma chip_tick:
  assumes "chip_inv e" "engine_tick e pl pl' t = (e', cs)"
  shows "chip_inv e'"
  using assms(2)
proof (cases rule: engine_tick_cases)
  case (act c a e1 calls e2)
  then show ?thesis using execute_plays(2) [OF act(2)] assms(1) by (auto simp: chip_inv_def split: if_splits)
qed (use assms(1) in \<open>simp add: chip_inv_def\<close>)

interpretation chip: engine_contract "\<lambda>v. True" chip_inv "\<lambda>c. True"
proof
  fix e v e' cs
  assume a: "chip_inv e" "engine_step e v = Inr (e', cs)"
  have "chip_inv e'"
  proof (cases v)
    case (CtrlTimer pl pl' t)
    then show ?thesis using a chip_tick by (auto simp: unless_disposed_Inr split: if_splits)
  qed (use a in \<open>auto simp: engine_defs chip_inv_def Let_def split: option.splits if_splits sum.splits\<close>)
  then show "chip_inv e' \<and> list_all (\<lambda>c. True) cs" by (simp add: list_all_iff)
qed

text \<open>
  The engine does not fight a player that refuses to start: from any point on, as long as the
  player is not seen playing and the user makes no gesture, it calls play at most three times, and
  whenever it withholds a play it shows the request for a gesture.
\<close>

theorem automatic_plays_bounded:
  assumes "list_all refusing vs"
  shows "\<exists>e cs e' cs'. engine_run (new_engine arm code h c) us = Inr (e, cs) \<and> engine_run e vs = Inr (e', cs') \<and>
    plays cs' \<le> GESTURE_CHIP_THRESHOLD \<and> (GESTURE_CHIP_THRESHOLD < se_playAttempts e' \<longrightarrow> se_needsGesture e')"
proof -
  obtain e cs where e: "engine_run (new_engine arm code h c) us = Inr (e, cs)" "can_estimate e"
    using engine_run_Inr [OF can_estimate_new] by blast
  have "chip_inv (new_engine arm code h c)" by (simp add: chip_inv_def new_engine_def)
  then have "chip_inv e" using chip.run_keeps [OF e(1)] by (simp add: list_all_iff)
  moreover obtain e' cs' where r: "engine_run e vs = Inr (e', cs')" using engine_run_Inr [OF e(2)] by blast
  ultimately show ?thesis using engine_run_plays [OF r assms] e(1)
    by (auto simp: chip_inv_def GESTURE_CHIP_THRESHOLD_def)
qed

theorem automatic_plays_bounded_witness:
  "\<exists>e cs e' cs'. engine_run (new_engine None ''room'' False True) [AttachAdapter 0, OnPong demo_sample, OnTimeline demo_timeline] = Inr (e, cs) \<and>
     engine_run e (map (\<lambda>i. CtrlTimer demo_player demo_player (Fin (250 * real i))) [0..<5]) = Inr (e', cs') \<and>
     plays cs' \<le> 3 \<and> (3 < se_playAttempts e' \<longrightarrow> se_needsGesture e')"
proof -
  have "list_all refusing (map (\<lambda>i. CtrlTimer demo_player demo_player (Fin (250 * real i))) [0..<5])"
    by (simp add: list_all_iff refusing_def demo_player_def)
  from automatic_plays_bounded [OF this, of None "''room''" False True "[AttachAdapter 0, OnPong demo_sample, OnTimeline demo_timeline]"]
  show ?thesis by (simp only: GESTURE_CHIP_THRESHOLD_def)
qed

subsection \<open>Engines agree\<close>

fun deliveries :: "engine_event list \<Rightarrow> timeline list" where
  "deliveries [] = []"
| "deliveries (OnTimeline tml # vs) = tml # deliveries vs"
| "deliveries (OnRoomJoined (Some tml) # vs) = tml # deliveries vs"
| "deliveries (_ # vs) = deliveries vs"

lemma receive_timeline [simp]: "se_timeline (engine_receive e tml) = receive (se_timeline e) tml"
  by (simp add: engine_receive_def receive_def)

lemma receive_alive [simp]: "se_disposed (engine_receive e tml) = se_disposed e"
  by (simp add: engine_receive_def)

lemma execute_frame:
  "execute e pl a = (e', cs) \<Longrightarrow> se_timeline e' = se_timeline e \<and> se_disposed e' = se_disposed e \<and> se_adapter e' = se_adapter e"
  by (cases a) (auto simp: execute_def restoreRate_def fallBackToSeekFirst_def Let_def split: if_splits prod.splits)

lemma engine_tick_frame:
  assumes "engine_tick e pl pl' t = (e', cs)"
  shows "se_timeline e' = se_timeline e \<and> se_disposed e' = se_disposed e \<and> se_adapter e' = se_adapter e"
  using assms
proof (cases rule: engine_tick_cases)
  case (act c a e1 calls e2)
  then show ?thesis using execute_frame [OF act(2)] by simp
qed simp

lemma step_delivers:
  assumes "engine_step e v = Inr (e', cs)" "\<not> se_disposed e" "v \<noteq> Dispose"
  shows "se_timeline e' = foldl receive (se_timeline e) (deliveries [v]) \<and> \<not> se_disposed e'"
proof (cases v)
  case (CtrlTimer pl pl' t)
  then show ?thesis using assms engine_tick_frame [of e pl pl' t] by (auto simp: unless_disposed_Inr)
next
  case (OnRoomJoined p)
  then show ?thesis using assms by (cases p) (auto simp: unless_disposed_Inr)
qed (use assms in \<open>auto simp: engine_defs(1,3-) Let_def split: if_splits sum.splits\<close>)

lemma deliveries_Cons: "deliveries (v # vs) = deliveries [v] @ deliveries vs"
proof (cases v)
  case (OnRoomJoined p)
  then show ?thesis by (cases p) simp_all
qed simp_all

lemma run_delivers:
  "engine_run e vs = Inr (e', cs) \<Longrightarrow> \<not> se_disposed e \<Longrightarrow> Dispose \<notin> set vs \<Longrightarrow>
   se_timeline e' = foldl receive (se_timeline e) (deliveries vs)"
proof (induction vs arbitrary: e cs)
  case (Cons v vs)
  obtain e1 c1 where s: "engine_step e v = Inr (e1, c1)"
    using Cons.prems(1) by (cases "engine_step e v") auto
  obtain c2 where r: "engine_run e1 vs = Inr (e', c2)"
    using Cons.prems(1) s by (cases "engine_run e1 vs") auto
  have "se_timeline e1 = foldl receive (se_timeline e) (deliveries [v]) \<and> \<not> se_disposed e1"
    by (rule step_delivers [OF s]) (use Cons.prems in auto)
  with Cons.IH [OF r] Cons.prems(3) show ?case by (subst deliveries_Cons) auto
qed simp

text \<open>
  C7. Clients agree: two engines that live through any two histories (their own timers, players,
  probes, reconnects and switches) in which the same timelines were delivered, in whatever order and
  however often, hold the same timeline in the end, and it is the newest of those delivered. The
  versions of different timelines are distinct, as the store assigns them.
\<close>

theorem engines_agree:
  assumes "set (deliveries vs) = set (deliveries ws)" "Dispose \<notin> set vs" "Dispose \<notin> set ws"
    "\<forall>x\<in>set (deliveries vs). wf_epoch x" "inj_on version_of (set (deliveries vs))"
  shows "\<exists>e cs e' cs'. engine_run (new_engine arm code h c) vs = Inr (e, cs) \<and>
    engine_run (new_engine arm' code h' c') ws = Inr (e', cs') \<and> se_timeline e = se_timeline e' \<and>
    (\<forall>x\<in>set (deliveries vs). \<exists>tml. se_timeline e = Some tml \<and> tml \<in> set (deliveries vs) \<and>
      \<not> newer_version (version_of x) (version_of tml))"
proof -
  obtain e cs e' cs' where r: "engine_run (new_engine arm code h c) vs = Inr (e, cs)"
      "engine_run (new_engine arm' code h' c') ws = Inr (e', cs')"
    using engine_run_Inr [OF can_estimate_new] by meson
  have t: "se_timeline e = foldl receive None (deliveries vs)" "se_timeline e' = foldl receive None (deliveries ws)"
    using run_delivers [OF r(1)] run_delivers [OF r(2)] assms(2,3) by (simp_all add: new_engine_def)
  have "se_timeline e = se_timeline e'"
    using client.keep_order_free [OF assms(1,4,5)] by (simp add: t client_keep)
  moreover have "\<forall>x\<in>set (deliveries vs). \<exists>tml. se_timeline e = Some tml \<and> tml \<in> set (deliveries vs) \<and>
      \<not> newer_version (version_of x) (version_of tml)"
    using client.keep_None [OF assms(4)] by (cases "deliveries vs = []") (auto simp: t client_keep)
  ultimately show ?thesis using r by blast
qed

theorem engines_agree_witness:
  "\<exists>e cs e' cs'. engine_run (new_engine None ''room'' False True) [OnTimeline demo_timeline, OnDisconnect, OnTimeline (demo_timeline\<lparr>seq := 2\<rparr>)] = Inr (e, cs) \<and>
     engine_run (new_engine (Some ''R'') ''room'' True True) [OnRoomJoined (Some (demo_timeline\<lparr>seq := 2\<rparr>)), OnTimeline demo_timeline] = Inr (e', cs') \<and>
     se_timeline e = se_timeline e' \<and> se_timeline e \<noteq> None"
proof -
  let ?vs = "[OnTimeline demo_timeline, OnDisconnect, OnTimeline (demo_timeline\<lparr>seq := 2\<rparr>)]"
  let ?ws = "[OnRoomJoined (Some (demo_timeline\<lparr>seq := 2\<rparr>)), OnTimeline demo_timeline]"
  have "storeEpoch demo_timeline = show_nat 7" by (simp add: demo_timeline_def) code_simp
  then have w: "\<forall>x\<in>set (deliveries ?vs). wf_epoch x" by (auto simp: wf_epoch_def epoch_is_def)
  have i: "inj_on version_of (set (deliveries ?vs))" by (simp add: version_of_def demo_timeline_def)
  have d: "set (deliveries ?vs) = set (deliveries ?ws)" by auto
  have m: "demo_timeline \<in> set (deliveries ?vs)" by simp
  from engines_agree [OF d _ _ w i, of None "''room''" False True "Some ''R''" True True] show ?thesis
    using m by (auto simp del: engine_run.simps)
qed

subsection \<open>The rate the servo believes in\<close>

text \<open>
  The rate the player last reported, as far as it is known: a call of setRate reports it, and a new
  player or the start of a paused one leaves it unknown.
\<close>

definition last_rate :: "jsnum option \<Rightarrow> engine_call list \<Rightarrow> jsnum option" where
  "last_rate r cs = foldl (\<lambda>r c. case c of CallSetRate _ a \<Rightarrow> Some a | _ \<Rightarrow> r) r cs"

definition room_plays :: "sync_engine \<Rightarrow> bool" where
  "room_plays e = (case se_timeline e of None \<Rightarrow> False | Some tml \<Rightarrow> isPlaying tml)"

definition forget_rate :: "sync_engine \<Rightarrow> engine_event \<Rightarrow> jsnum option \<Rightarrow> jsnum option" where
  "forget_rate e v r = (case v of
     AttachAdapter _ \<Rightarrow> None
   | CtrlTimer pl _ _ \<Rightarrow> if pl_lifecycle pl \<in> {Paused, Cued} \<and> room_plays e then None else r
   | _ \<Rightarrow> r)"

fun known_rate :: "sync_engine \<Rightarrow> jsnum option \<Rightarrow> engine_event list \<Rightarrow> jsnum option" where
  "known_rate e r [] = r"
| "known_rate e r (v # vs) = (case engine_step e v of
     Inl _ \<Rightarrow> r
   | Inr (e1, cs) \<Rightarrow> known_rate e1 (last_rate (forget_rate e v r) cs) vs)"

definition belief_ok :: "sync_engine \<Rightarrow> jsnum option \<Rightarrow> bool" where
  "belief_ok e r = ((se_adapter e = None \<longrightarrow> r = None) \<and>
     (case se_controller e of Reactive _ \<Rightarrow> True | Servo v \<Rightarrow> r = None \<or> r = Some (appliedRate v)))"

lemma last_rate_simps [simp]:
  "last_rate r [] = r" "last_rate r (c # cs) = last_rate (case c of CallSetRate _ a \<Rightarrow> Some a | _ \<Rightarrow> r) cs"
  "last_rate r (cs @ ds) = last_rate (last_rate r cs) ds" "last_rate r (emitStatus e pl t) = r"
proof -
  have "last_rate r (map (\<lambda>l. NotifyStatus l s) ls) = r" for s ls
    by (induction ls) (simp_all add: last_rate_def)
  then show "last_rate r (emitStatus e pl t) = r" by (simp add: emitStatus_def last_rate_def)
qed (simp_all add: last_rate_def)

lemma drift_play_pause:
  assumes "drift_evaluate c inp = (c', a)"
  shows "a = ActPlay \<Longrightarrow> ci_playerState inp \<in> {Paused, Cued} \<and> (\<exists>tml. ci_timeline inp = Some tml \<and> isPlaying tml)"
    "a = ActPause \<Longrightarrow> ci_playerState inp = Playing"
  using assms
  by (auto simp: drift_evaluate_def eval_playing_def eval_branches issueSeek_def split: option.splits if_splits prod.splits)

lemma learn_applied [simp]: "appliedRate (servo_learn v d t) = appliedRate v"
  by (simp add: servo_learn_def servo_measure_def Let_def split: option.splits)

text \<open>What an evaluation of the servo does to its belief, by the action it hands out.\<close>

lemma servo_belief:
  assumes "servo_evaluate v inp = (v', a)"
  shows "a = ActPlay \<Longrightarrow> ci_playerState inp \<in> {Paused, Cued} \<and> (\<exists>tml. ci_timeline inp = Some tml \<and> isPlaying tml)"
    "a \<in> {ActNone, ActPause} \<Longrightarrow> appliedRate v' = appliedRate v"
proof -
  obtain rc b where e: "drift_evaluate (sv_reactive v) (inp\<lparr>ci_fractionalRateOK := False\<rparr>) = (rc, b)" by fastforce
  note pp = drift_play_pause [OF e]
  show "a = ActPlay \<Longrightarrow> ci_playerState inp \<in> {Paused, Cued} \<and> (\<exists>tml. ci_timeline inp = Some tml \<and> isPlaying tml)"
    using assms pp(1)
    by (cases b) (auto simp: servo_evaluate_def e Let_def servo_steady_def split: if_splits)
  show "a \<in> {ActNone, ActPause} \<Longrightarrow> appliedRate v' = appliedRate v"
    using assms pp(2)
    by (cases b) (auto simp: servo_evaluate_def e Let_def servo_steady_def split: if_splits)
qed

text \<open>An executed action: every call of setRate is reported to the servo, a seek and a clear make one.\<close>

lemma execute_belief:
  assumes "execute e pl a = (e', cs)" "a \<in> {ActNone, ActPause} \<Longrightarrow> belief_ok e r" "a = ActPlay \<Longrightarrow> r = None"
    "se_adapter e \<noteq> None"
  shows "belief_ok e' (last_rate r cs)"
  using assms
  by (cases a; cases "se_controller e")
    (auto simp: execute_def restoreRate_def fallBackToSeekFirst_def note_rate_def is_servo_def ctrl_suspend_def onRateApplied_def
      belief_ok_def Let_def split: if_splits prod.splits)

lemma evaluate_belief:
  assumes "ctrl_evaluate (se_controller e) inp = (c, a)" "belief_ok e r" "a \<in> {ActNone, ActPause}"
  shows "belief_ok (e\<lparr>se_estimator := x, se_controller := c\<rparr>) r"
proof (cases "se_controller e")
  case (Servo v)
  then obtain v' where v': "servo_evaluate v inp = (v', a)" "c = Servo v'"
    using assms(1) by (auto simp: ctrl_evaluate_def Let_def split: prod.splits)
  then show ?thesis using servo_belief(2) [OF v'(1) assms(3)] assms(2) Servo by (simp add: belief_ok_def)
next
  case (Reactive d)
  then show ?thesis using assms(1,2) by (auto simp: ctrl_evaluate_def belief_ok_def Let_def split: prod.splits)
qed

lemma evaluate_play:
  assumes "ctrl_evaluate c inp = (c', ActPlay)"
  shows "ci_playerState inp \<in> {Paused, Cued} \<and> (\<exists>tml. ci_timeline inp = Some tml \<and> isPlaying tml)"
  using assms drift_play_pause(1) servo_belief(1)
  by (cases c) (fastforce simp: ctrl_evaluate_def Let_def split: prod.splits)+

lemma tick_belief:
  assumes "belief_ok e r" "engine_tick e pl pl' t = (e', cs)"
  shows "belief_ok e' (last_rate (forget_rate e (CtrlTimer pl pl' t) r) cs)"
  using assms(2)
proof (cases rule: engine_tick_cases)
  case idle
  then show ?thesis using assms(1) by (auto simp: belief_ok_def forget_rate_def split: engine_controller.splits)
next
  case (act c a e1 calls e2)
  let ?r = "forget_rate e (CtrlTimer pl pl' t) r"
  have r: "belief_ok e ?r" using assms(1) by (auto simp: belief_ok_def forget_rate_def split: engine_controller.splits)
  have play: "?r = None" if "a = ActPlay"
    using evaluate_play [OF act(1) [unfolded that]] by (auto simp: forget_rate_def room_plays_def engine_input_def)
  have "belief_ok e1 (last_rate ?r calls)"
    by (rule execute_belief [OF act(2)]) (use evaluate_belief [OF act(1) r] play act(6) in auto)
  then show ?thesis using act(3-5) by (auto simp: belief_ok_def)
qed

lemma step_belief:
  assumes "belief_ok e r" "engine_step e v = Inr (e', cs)"
  shows "belief_ok e' (last_rate (forget_rate e v r) cs)"
proof (cases v)
  case (CtrlTimer pl pl' t)
  then show ?thesis using assms tick_belief [OF assms(1), of pl pl' t e' cs]
    by (auto simp: unless_disposed_Inr belief_ok_def forget_rate_def split: if_splits engine_controller.splits)
qed (use assms in \<open>auto simp: engine_defs belief_ok_def forget_rate_def Let_def burst_def note_rate_def ctrl_suspend_def ctrl_resume_def
      onRateApplied_def servo_resume_def is_servo_def split: option.splits if_splits sum.splits engine_controller.splits\<close>)

text \<open>
  C13. The servo corrects for the rate the player really runs at: along every history of an engine,
  the rate its servo believes to be applied is the one the player reported last, from the moment a
  rate is set until a new player is attached or a paused player is started in a playing room.
\<close>

theorem servo_belief_is_player_rate:
  "\<exists>e cs. engine_run (new_engine arm code h c) vs = Inr (e, cs) \<and>
    (case se_controller e of Reactive _ \<Rightarrow> True
     | Servo v \<Rightarrow> known_rate (new_engine arm code h c) None vs \<in> {None, Some (appliedRate v)})"
proof -
  have run: "belief_ok e0 r \<Longrightarrow> engine_run e0 vs = Inr (e, cs) \<Longrightarrow> belief_ok e (known_rate e0 r vs)" for e0 r e cs
  proof (induction vs arbitrary: e0 r cs)
    case (Cons v vs)
    obtain e1 c1 where s: "engine_step e0 v = Inr (e1, c1)"
      using Cons.prems(2) by (cases "engine_step e0 v") auto
    obtain c2 where r: "engine_run e1 vs = Inr (e, c2)"
      using Cons.prems(2) s by (cases "engine_run e1 vs") auto
    show ?case using Cons.IH [OF step_belief [OF Cons.prems(1) s] r] s by simp
  qed simp
  obtain e cs where r: "engine_run (new_engine arm code h c) vs = Inr (e, cs)"
    using engine_run_Inr [OF can_estimate_new] by blast
  have "belief_ok (new_engine arm code h c) None"
    by (simp add: belief_ok_def new_engine_def)
  from run [OF this r] r show ?thesis by (auto simp: belief_ok_def split: engine_controller.splits)
qed

text \<open>
  The gap is real: an active servo that finds its player paused in a playing room starts it without
  restoring its rate, and believes in rate 1 from then on.
\<close>

lemma start_keeps_stale_rate:
  assumes "se_controller e = Servo v" "servoActive v" "dc_state (sv_reactive v) \<noteq> SUSPENDED"
    "ci_playerState inp = Paused" "ci_timeline inp = Some tml" "isPlaying tml" "se_playAttempts e < GESTURE_CHIP_THRESHOLD"
  shows "\<exists>v'. ctrl_evaluate (se_controller e) inp = (Servo v', ActPlay) \<and> appliedRate v' = 1 \<and>
    snd (execute (e\<lparr>se_controller := Servo v'\<rparr>) pl ActPlay) = [CallPlay]"
  using assms
  by (simp add: ctrl_evaluate_def servo_evaluate_def drift_evaluate_def eval_start_def drift_getStatus_def resetServo_def
    execute_def GESTURE_CHIP_THRESHOLD_def Let_def)

text \<open>
  A locked servo goes on measuring when the player has ended: the drift it last saw does not change
  any more, so the measured skew is the negative of its own correction, and the estimate, which
  survives every reset, is drawn towards it.
\<close>

lemma ended_player_biases_skew:
  assumes "servo_inv v" "dc_state (sv_reactive v) = LOCKED" "ci_playerState inp = Ended" "ci_timeline inp = Some tml" "isPlaying tml"
    "dc_lastDrift (sv_reactive v) = Fin d" "\<bar>d\<bar> \<le> 6 / 10" "sv_lastDrift v = Some (Fin d)" "sv_lastT v = Some (Fin l)"
    "ci_tLocal inp = Fin (1000 * t)" "l < t" "t < l + 2" "appliedRate v = Fin a" "bHat v = Fin b" "rlsP v = Fin p"
  shows "bHat (fst (servo_evaluate v inp)) = Fin (b + p / (98 / 100 + p) * (1 - a - b))"
proof -
  have v: "sv_servo v = DEFAULT_SERVO_TUNING" "1 / 50 \<le> p"
    using assms(1,15) by (auto simp: servo_inv_def)
  have z: "\<not> servoZoneS (sv_servo v) < \<bar>Fin d\<bar>" using assms(7) by (simp add: v(1) DEFAULT_SERVO_TUNING_def)
  have d: "drift_evaluate (sv_reactive v) (inp\<lparr>ci_fractionalRateOK := False\<rparr>) = (sv_reactive v, ActNone)"
    using assms(2-5) by (simp add: drift_evaluate_def)
  have l: "servo_learn v (Fin d) (Fin t) = servo_measure v (Fin d) (Fin d) (Fin (t - l))"
    using assms(8,9,11,12) by (simp add: servo_learn_def)
  have m: "bHat (servo_measure v (Fin d) (Fin d) (Fin (t - l))) = Fin (b + p / (98 / 100 + p) * ((d - d) / (t - l) - (a - 1) - b))"
    by (rule servo_measure_values(2) [OF v(1) assms(15) v(2) assms(14,13)]) (use assms(11) in simp)
  have "fst (servo_evaluate v inp) = fst (servo_steady v (Fin d) (Fin (1000 * t)))"
    using z assms(2,6,10) by (simp add: servo_evaluate_def d drift_getStatus_def)
  moreover have "bHat (fst (servo_steady v (Fin d) (Fin (1000 * t)))) = bHat (servo_learn v (Fin d) (Fin t))"
    by (simp add: servo_steady_def Let_def)
  ultimately show ?thesis by (simp add: l m algebra_simps)
qed

lemma known_rate_example:
  "known_rate (new_engine None ''room'' False True) None [AttachAdapter 0, OnVisibility True demo_player] = Some 1"
  by (simp add: new_engine_def unless_disposed_def onVisibility_def stand_down_def restoreRate_def demo_player_def forget_rate_def Let_def)

subsection \<open>Everything commanded is within bounds\<close>

definition est_finite :: "clock_estimator \<Rightarrow> bool" where
  "est_finite est = (ce_tuning est = DEFAULT_CLOCK_TUNING \<and> (\<forall>x\<in>set (ce_samples est). is_fin (ss_theta x)) \<and>
     (case ce_applied est of None \<Rightarrow> True | Some a \<Rightarrow> is_fin a \<and> is_fin (ce_target est)) \<and>
     (case ce_lastTick est of None \<Rightarrow> True | Some t \<Rightarrow> is_fin t))"

definition ctrl_bounded :: "engine_controller \<Rightarrow> bool" where
  "ctrl_bounded c = (case c of Reactive d \<Rightarrow> ctrl_inv DEFAULT_CONTROLLER_TUNING d | Servo v \<Rightarrow> servo_inv v)"

definition timeline_ok :: "timeline \<Rightarrow> bool" where
  "timeline_ok tml = (tl_fin tml \<and> 0 \<le> mediaTime tml)"

definition bounded_inv :: "sync_engine \<Rightarrow> bool" where
  "bounded_inv e = (est_finite (se_estimator e) \<and> ctrl_bounded (se_controller e) \<and>
     (case se_timeline e of None \<Rightarrow> True | Some tml \<Rightarrow> timeline_ok tml))"

text \<open>A player that reports finite positions and rates, and events that carry finite numbers.\<close>

definition player_ok :: "player \<Rightarrow> bool" where
  "player_ok pl = (is_fin (pl_time pl) \<and> (\<forall>r. is_fin r \<longrightarrow> is_fin (pl_setRate pl r)))"

definition finite_event :: "engine_event \<Rightarrow> bool" where
  "finite_event v = (case v of
     OnTimeline tml \<Rightarrow> timeline_ok tml
   | OnRoomJoined (Some tml) \<Rightarrow> timeline_ok tml
   | OnPong smp \<Rightarrow> is_fin (cs_t0 smp) \<and> is_fin (cs_t1 smp) \<and> is_fin (cs_t2 smp) \<and> is_fin (cs_t3 smp)
   | CtrlTimer pl _ t \<Rightarrow> player_ok pl \<and> is_fin t
   | OnVisibility _ pl \<Rightarrow> player_ok pl
   | Probed pl _ _ \<Rightarrow> player_ok pl
   | SetEnabled pl _ \<Rightarrow> player_ok pl
   | _ \<Rightarrow> True)"

definition bounded_call :: "engine_call \<Rightarrow> bool" where
  "bounded_call c = (case c of
     CallSeek x \<Rightarrow> is_fin x \<and> 0 \<le> x
   | CallSetRate r _ \<Rightarrow> between (95 / 100) (105 / 100) r
   | _ \<Rightarrow> True)"

lemma tick_finite:
  assumes "est_finite est" "is_fin t"
  shows "est_finite (tick est t)"
proof (cases "ce_applied est")
  case (Some a)
  then show ?thesis using assms
    by (cases "ce_lastTick est") (auto simp: tick_def est_finite_def is_fin_iff DEFAULT_CLOCK_TUNING_def Let_def)
qed (use assms in \<open>simp add: tick_def\<close>)

lemma recompute_finite:
  assumes "est_finite est" "recompute est t = Inr est'"
  shows "est_finite est'"
proof (cases "best_samples est t")
  case (Cons b bs)
  let ?m = "js_median (map ss_theta (b # bs))"
  have "?m \<in> set (map ss_theta (b # bs))" by (rule js_median_mem) simp
  moreover have "set (b # bs) \<subseteq> set (ce_samples est)" using set_best_samples [of est t] by (simp only: Cons)
  ultimately have m: "is_fin ?m" using assms(1) unfolding est_finite_def by force
  have "est' = est \<or> est' = est\<lparr>ce_target := ?m, ce_uncertainty := ss_delta b / 2, ce_applied := Some ?m\<rparr> \<or>
      (ce_applied est \<noteq> None \<and> est' = est\<lparr>ce_target := ?m, ce_uncertainty := ss_delta b / 2\<rparr>)"
    using assms(2) unfolding recompute_def Let_def Cons list.case by (auto split: if_splits option.splits)
  then show ?thesis using assms(1) m by (elim disjE) (auto simp: est_finite_def)
next
  case Nil
  have "est' = est" using assms(2) unfolding recompute_def Let_def Nil list.case by (simp split: if_splits)
  then show ?thesis using assms(1) by simp
qed

lemma addSample_finite:
  assumes "est_finite est" "finite_event (OnPong smp)" "addSample est smp = Inr (est', b)"
  shows "est_finite est'"
proof -
  obtain t0 t1 t2 t3 where t: "cs_t0 smp = Fin t0" "cs_t1 smp = Fin t1" "cs_t2 smp = Fin t2" "cs_t3 smp = Fin t3"
    using assms(2) by (auto simp: finite_event_def is_fin_iff)
  have push: "est_finite (est\<lparr>ce_samples := take_last n (ce_samples est @ [\<lparr>ss_theta = Fin th, ss_delta = d, ss_t3 = u\<rparr>]), ce_lastRtt := d\<rparr>)" for n th d u
    using assms(1) set_take_last [of n "ce_samples est @ [\<lparr>ss_theta = Fin th, ss_delta = d, ss_t3 = u\<rparr>]"]
    by (auto simp: est_finite_def split: option.splits)
  show ?thesis
    using assms(1,3) recompute_finite [OF push] by (auto simp: addSample_def t Let_def split: if_splits sum.splits)
qed

lemma evaluate_bounded:
  assumes "ctrl_bounded c" "input_ok inp" "ctrl_evaluate c inp = (c', a)"
  shows "ctrl_bounded c' \<and> servo_act_ok a"
proof (cases c)
  case (Reactive d)
  obtain d' where d': "drift_evaluate d inp = (d', a)" "c' = Reactive d'"
    using assms(3) Reactive by (auto simp: ctrl_evaluate_def Let_def split: prod.splits)
  have "step_ok DEFAULT_CONTROLLER_TUNING (d', a)"
    using drift_evaluate_ok [OF tuning_ok_default _ assms(2), of d] assms(1) Reactive d' by (simp add: ctrl_bounded_def)
  then show ?thesis
    using d' by (cases a) (auto simp: ctrl_bounded_def servo_act_ok_def act_ok_def DEFAULT_CONTROLLER_TUNING_def)
next
  case (Servo v)
  then show ?thesis using servo_evaluate_ok [of v inp] assms
    by (auto simp: ctrl_bounded_def ctrl_evaluate_def Let_def split: prod.splits)
qed

lemma bounded_new_drift [simp]: "ctrl_bounded (Reactive (new_drift DEFAULT_CONTROLLER_TUNING))"
  by (simp add: ctrl_bounded_def ctrl_inv_new tuning_ok_default)

lemma bounded_suspend [simp]: "ctrl_bounded c \<Longrightarrow> ctrl_bounded (ctrl_suspend c)"
  by (cases c) (simp_all add: ctrl_bounded_def ctrl_suspend_def ctrl_inv_suspend servo_inv_suspend)

lemma bounded_resume [simp]: "ctrl_bounded c \<Longrightarrow> ctrl_bounded (ctrl_resume c)"
  by (cases c) (simp_all add: ctrl_bounded_def ctrl_resume_def ctrl_inv_resume servo_inv_resume)

lemma bounded_note_rate [simp]: "ctrl_bounded c \<Longrightarrow> is_fin r \<Longrightarrow> ctrl_bounded (note_rate c r)"
  by (cases c) (simp_all add: ctrl_bounded_def note_rate_def servo_inv_onRateApplied)

lemma setRate_fin: "player_ok pl \<Longrightarrow> is_fin r \<Longrightarrow> is_fin (pl_setRate pl r)"
  by (simp add: player_ok_def)

lemma execute_bounded:
  assumes "bounded_inv e" "player_ok pl" "servo_act_ok a" "execute e pl a = (e', cs)"
  shows "bounded_inv e' \<and> list_all bounded_call cs"
proof -
  have r1: "is_fin (pl_setRate pl (Fin 1))" using assms(2) by (simp add: setRate_fin)
  have r: "is_fin (pl_setRate pl r)" if "a = ActSetRate r" for r
    using assms(2,3) that by (auto simp: servo_act_ok_def between_def setRate_fin)
  show ?thesis
    using assms(1,3,4) r1 r
    by (cases a) (auto simp: execute_def restoreRate_def fallBackToSeekFirst_def bounded_inv_def bounded_call_def servo_act_ok_def
      Let_def split: if_splits prod.splits)
qed

lemma tick_bounded:
  assumes "bounded_inv e" "player_ok pl" "is_fin t" "engine_tick e pl pl' t = (e', cs)"
  shows "bounded_inv e' \<and> list_all bounded_call cs"
proof -
  have st: "list_all bounded_call (emitStatus x p u)" for x p u
    by (simp add: emitStatus_def bounded_call_def list_all_iff)
  have fin: "est_finite (tick (se_estimator e) t)" using assms(1,3) by (simp add: bounded_inv_def tick_finite)
  show ?thesis
    using assms(4)
  proof (cases rule: engine_tick_cases)
    case idle
    then show ?thesis using assms(1) fin st by (simp add: bounded_inv_def)
  next
    case (act c a e1 calls e2)
    let ?inp = "engine_input (e\<lparr>se_estimator := tick (se_estimator e) t\<rparr>) pl t"
    have "is_fin (ci_serverNow ?inp)"
      using fin assms(3) by (auto simp: engine_input_def serverNow_of_def est_finite_def is_fin_iff split: option.splits)
    then have "input_ok ?inp"
      using assms(1-3) by (auto simp: input_ok_def engine_input_def bounded_inv_def timeline_ok_def player_ok_def split: option.splits)
    then have ca: "ctrl_bounded c \<and> servo_act_ok a"
      using evaluate_bounded [OF _ _ act(1)] assms(1) by (simp add: bounded_inv_def)
    have "bounded_inv e1 \<and> list_all bounded_call calls"
      by (rule execute_bounded [OF _ assms(2) _ act(2)]) (use assms(1) ca fin in \<open>simp_all add: bounded_inv_def\<close>)
    then show ?thesis using act(3-5) st by (simp add: bounded_inv_def)
  qed
qed

lemma reset_finite: "est_finite est \<Longrightarrow> est_finite (reset_estimator est)"
  by (simp add: est_finite_def reset_estimator_def)

interpretation bounds: engine_contract finite_event bounded_inv bounded_call
proof
  fix e v e' cs
  assume a: "bounded_inv e" "finite_event v" "engine_step e v = Inr (e', cs)"
  note r1 = setRate_fin [of _ "Fin 1"]
  show "bounded_inv e' \<and> list_all bounded_call cs"
  proof (cases v)
    case (CtrlTimer pl pl' t)
    then show ?thesis using a tick_bounded [of e pl t pl' e' cs]
      by (auto simp: unless_disposed_Inr finite_event_def split: if_splits)
  next
    case (OnPong smp)
    then show ?thesis using a addSample_finite [of "se_estimator e" smp]
      by (auto simp: bounded_inv_def split: sum.splits)
  qed (use a in \<open>auto simp: engine_defs finite_event_def bounded_inv_def bounded_call_def Let_def burst_def reset_finite r1
      split: option.splits if_splits\<close>)
qed

text \<open>
  C8. Nothing wild reaches a player: along every history with finite clock readings and positions,
  however the network, the page, the probes and the user interleave, every seek the engine commands
  goes to a finite position of at least 0 and every rate it commands lies between 0.95 and 1.05. The
  estimator, both controllers and the fallback from one to the other take part in this.
\<close>

theorem engine_commands_bounded:
  assumes "list_all finite_event vs"
  shows "\<exists>e cs. engine_run (new_engine arm code h c) vs = Inr (e, cs) \<and> list_all bounded_call cs"
proof -
  obtain e cs where r: "engine_run (new_engine arm code h c) vs = Inr (e, cs)"
    using engine_run_Inr [OF can_estimate_new] by blast
  have "bounded_inv (new_engine arm code h c)"
    using servo_inv_new
    by (simp add: bounded_inv_def new_engine_def new_estimator_def est_finite_def)
      (simp add: ctrl_bounded_def ctrl_inv_new tuning_ok_default)
  from bounds.run_keeps [OF r this assms] r show ?thesis by blast
qed

theorem engine_commands_bounded_witness:
  "\<exists>e cs. engine_run (new_engine None ''room'' False True)
       [AttachAdapter 0, OnPong demo_sample, OnTimeline demo_timeline, CtrlTimer demo_player demo_player 250] = Inr (e, cs) \<and>
     list_all bounded_call cs"
proof (rule engine_commands_bounded)
  show "list_all finite_event [AttachAdapter 0, OnPong demo_sample, OnTimeline demo_timeline, CtrlTimer demo_player demo_player 250]"
    by (simp add: finite_event_def demo_sample_def demo_timeline_def demo_player_def timeline_ok_def tl_fin_def player_ok_def)
qed

subsection \<open>From the engine to the gateway\<close>

text \<open>What crypto.randomUUID returns: 36 characters, hexadecimal digits and dashes.\<close>

definition uuid_like :: "string \<Rightarrow> bool" where
  "uuid_like s = (length s = 36 \<and> list_all (\<lambda>c. c \<in> set ''0123456789abcdef-'') s)"

lemma uuid_cmd_id:
  assumes "uuid_like s"
  shows "cmd_id_ok (JStr s)"
proof -
  have "list_all is_idchar ''0123456789abcdef-''" by code_simp
  then have "list_all is_idchar s" using assms unfolding uuid_like_def list_all_iff by blast
  moreover have "s \<noteq> []" "length s \<le> 64" using assms by (auto simp: uuid_like_def)
  ultimately show ?thesis by (simp add: cmd_id_ok_def)
qed

text \<open>
  C32. The gateway understands what the engine says: a gesture sent on a live connection is decoded
  by the gateway as the same intent at the same position (no less than 0), under the id given to it
  and fenced by the video the sender had applied, or unfenced when it has seen no timeline yet; a
  change of video is decoded as such for every acceptable address, trimmed, at position 0 and
  unfenced. A disconnected engine sends nothing.
\<close>

theorem sent_controls_round_trip:
  assumes "it \<in> {''play'', ''pause'', ''seek''}" "uuid_like cmdId"
    "\<forall>tml v. se_timeline e = Some tml \<longrightarrow> videoId tml = Some v \<longrightarrow> length v \<le> VIDEO_URL_MAX_LEN"
    "isAcceptableVideoUrl parse (trim url)" "trim url \<noteq> []"
  shows "(if se_connected e then
      \<exists>d i opts d' opts'. sendIntent e it (Fin mt) cmdId = [EmitControl d] \<and> map_of CONTROL_INTENTS it = Some i \<and>
        command_of parse sock (Some d) = WireCommand i (Fin (max 0 mt)) opts \<and> o_cmdId opts = Some cmdId \<and>
        o_forVideoId opts = map_option videoId (se_timeline e) \<and>
        sendSetVideo True code url cmdId = (True, [EmitControl d']) \<and>
        command_of parse sock (Some d') = WireCommand SetVideo 0 opts' \<and>
        o_videoId opts' = Some (Some (trim url)) \<and> o_forVideoId opts' = None
     else sendIntent e it (Fin mt) cmdId = [] \<and> sendSetVideo False code url cmdId = (False, []))"
proof (cases "se_connected e")
  case True
  define f where "f = (case se_timeline e of None \<Rightarrow> JUndef | Some tml \<Rightarrow> (case videoId tml of None \<Rightarrow> JNull | Some v \<Rightarrow> JStr v))"
  define d where "d = \<lparr>wc_roomCode = JStr (se_roomCode e), wc_intent = JStr it, wc_mediaTime = JNum (Fin (max 0 mt)),
      wc_cmdId = JStr cmdId, wc_videoUrl = JUndef, wc_forVideoId = f\<rparr>"
  define d' where "d' = \<lparr>wc_roomCode = JStr code, wc_intent = JStr ''set-video'', wc_mediaTime = JNum 0,
      wc_cmdId = JStr cmdId, wc_videoUrl = JStr url, wc_forVideoId = JUndef\<rparr>"
  have s: "sendIntent e it (Fin mt) cmdId = [EmitControl d]" "sendSetVideo True code url cmdId = (True, [EmitControl d'])"
    using True by (simp_all add: sendIntent_def sendSetVideo_def d_def d'_def f_def)
  have fence: "fence_ok f" "(case f of JNull \<Rightarrow> Some None | JStr s \<Rightarrow> Some (Some s) | _ \<Rightarrow> None) = map_option videoId (se_timeline e)"
    using assms(3) by (auto simp: f_def fence_ok_def split: option.splits)
  obtain i where i: "map_of CONTROL_INTENTS it = Some i" "i \<noteq> SetVideo"
    using assms(1) by (auto simp: CONTROL_INTENTS_def)
  have w: "wire_ok (Some d)" "wire_ok (Some d')"
    using fence(1) i uuid_cmd_id [OF assms(2)]
    by (simp_all add: wire_ok_def d_def d'_def intent_of_def media_time_ok_def isFinite_def CONTROL_INTENTS_def fence_ok_def)
  have c: "command_of parse sock (Some d) = WireCommand i (Fin (max 0 mt)) (opts_of sock d None)"
    using w(1) i by (simp add: command_of_def d_def intent_of_def)
  have c': "command_of parse sock (Some d') = WireCommand SetVideo 0 (opts_of sock d' (Some (Some (trim url))))"
    using w(2) assms(4,5) by (simp add: command_of_def d'_def intent_of_def CONTROL_INTENTS_def next_video_def Let_def)
  have o: "o_cmdId (opts_of sock d None) = Some cmdId" "o_forVideoId (opts_of sock d None) = map_option videoId (se_timeline e)"
    "o_videoId (opts_of sock d' (Some (Some (trim url)))) = Some (Some (trim url))" "o_forVideoId (opts_of sock d' (Some (Some (trim url)))) = None"
    by (simp_all only: opts_of_def apply_opts.simps d_def d'_def wire_control.simps jsval.case fence(2))
  show ?thesis unfolding if_P [OF True] using s i(1) c c' o by blast
qed (simp add: sendIntent_def sendSetVideo_def)

theorem sent_controls_round_trip_witness:
  "\<exists>d opts. sendIntent (new_engine None ''room'' False True) ''seek'' (Fin 12) ''123e4567-e89b-12d3-a456-426614174000'' = [EmitControl d] \<and>
     command_of demo_parse ''s1'' (Some d) = WireCommand Seek (Fin 12) opts"
proof -
  have u: "uuid_like ''123e4567-e89b-12d3-a456-426614174000''" by (simp add: uuid_like_def)
  have t: "trim ''https://cdn.example/a.MP4'' = ''https://cdn.example/a.MP4''" by code_simp
  let ?e = "new_engine None ''room'' False True"
  have "map_of CONTROL_INTENTS ''seek'' = Some Seek" by (simp add: CONTROL_INTENTS_def)
  moreover have "se_connected ?e" "se_timeline ?e = None" by (simp_all add: new_engine_def)
  ultimately show ?thesis
    using sent_controls_round_trip [of "''seek''" _ ?e demo_parse "''https://cdn.example/a.MP4''" 12 "''s1''" "''room''", OF _ u]
      demo_url_ok by (simp add: t) blast
qed

end
