(* ===== verification/RoomsService.thy ===== *)
theory RoomsService
  imports Gateway
begin

text \<open>
  Creating, reading, changing and deleting rooms over REST (rooms/rooms.service.ts and
  rooms/rooms.controller.ts). The tables are lists of rows; ids and codes the database draws are
  arguments. The timeline service writes the playback columns of a room (timeline.service.ts,
  persistTimeline). Properties: everything else of a room changes, and the room disappears, only at
  the hand of its creator, and every run of requests keeps the tables consistent.
\<close>

subsection \<open>Tables\<close>

record room_entry =
  re_id :: string
  re_code :: string
  re_name :: string
  re_videoUrl :: "string option"
  re_creatorId :: string
  re_isActive :: bool
  re_isPublic :: bool
  re_description :: "string option"
  re_tags :: "string list"
  re_allowGuestControl :: bool
  re_maxUsers :: "nat option"
  re_currentTime :: jsnum
  re_isPlaying :: bool
  re_lastSyncAt :: jsnum
  re_updatedAt :: nat

record rooms_db =
  rd_rooms :: "room_entry list"
  rd_participants :: "participant list"
  rd_messages :: "chat_message list"
  rd_syncEvents :: "string list"
  rd_now :: nat

datatype rooms_error = RoomNotFoundError | UpdateForbidden | DeleteForbidden | ListForbidden | DuplicateKey

definition room_by_code :: "rooms_db \<Rightarrow> string \<Rightarrow> room_entry option" where
  "room_by_code db code = List.find (\<lambda>r. re_code r = code) (rd_rooms db)"

definition active_participants :: "rooms_db \<Rightarrow> string \<Rightarrow> participant list" where
  "active_participants db roomId = filter (\<lambda>p. p_roomId p = roomId \<and> p_isActive p) (rd_participants db)"

subsection \<open>Operations\<close>

record create_dto =
  cd_name :: string
  cd_videoUrl :: "string option"
  cd_isPublic :: "bool option"
  cd_description :: "string option"
  cd_tags :: "string list option"
  cd_allowGuestControl :: "bool option"

definition createRoom ::
  "rooms_db \<Rightarrow> string \<Rightarrow> create_dto \<Rightarrow> string \<Rightarrow> string \<Rightarrow> rooms_db \<times> (rooms_error + room_entry)" where
  "createRoom db userId dto newId newCode =
     (let room = \<lparr>re_id = newId, re_code = newCode, re_name = cd_name dto, re_videoUrl = cd_videoUrl dto, re_creatorId = userId,
            re_isActive = True, re_isPublic = nullish (cd_isPublic dto) False, re_description = cd_description dto,
            re_tags = nullish (cd_tags dto) [], re_allowGuestControl = nullish (cd_allowGuestControl dto) False,
            re_maxUsers = None, re_currentTime = 0, re_isPlaying = False, re_lastSyncAt = Fin (real (rd_now db)),
            re_updatedAt = rd_now db\<rparr> in
      if list_ex (\<lambda>r. re_id r = newId \<or> re_code r = newCode) (rd_rooms db) then (db, Inl DuplicateKey)
      else (db\<lparr>rd_rooms := rd_rooms db @ [room]\<rparr>, Inr room))"

text \<open>The room with its creator and active participants, each as id and name.\<close>

record room_view =
  vw_room :: room_entry
  vw_creator :: "string \<times> string"
  vw_participants :: "(participant \<times> string) list"

definition getRoomByCode :: "(string \<Rightarrow> string) \<Rightarrow> rooms_db \<Rightarrow> string \<Rightarrow> rooms_error + room_view" where
  "getRoomByCode names db code = (case room_by_code db code of
     None \<Rightarrow> Inl RoomNotFoundError
   | Some r \<Rightarrow> Inr \<lparr>vw_room = r, vw_creator = (re_creatorId r, names (re_creatorId r)),
       vw_participants = map (\<lambda>p. (p, names (p_userId p))) (active_participants db (re_id r))\<rparr>)"

text \<open>Columns that are absent are left alone.\<close>

record update_dto =
  ud_name :: "string option"
  ud_videoUrl :: "string option"
  ud_isPublic :: "bool option"
  ud_allowGuestControl :: "bool option"
  ud_maxUsers :: "nat option"

definition patch_row :: "rooms_db \<Rightarrow> update_dto \<Rightarrow> room_entry \<Rightarrow> room_entry" where
  "patch_row db dto r =
     r\<lparr>re_name := nullish (ud_name dto) (re_name r),
       re_videoUrl := (if ud_videoUrl dto = None then re_videoUrl r else ud_videoUrl dto),
       re_isPublic := nullish (ud_isPublic dto) (re_isPublic r),
       re_allowGuestControl := nullish (ud_allowGuestControl dto) (re_allowGuestControl r),
       re_maxUsers := (if ud_maxUsers dto = None then re_maxUsers r else ud_maxUsers dto),
       re_updatedAt := rd_now db\<rparr>"

definition updateRoom :: "rooms_db \<Rightarrow> string \<Rightarrow> update_dto \<Rightarrow> rooms_db" where
  "updateRoom db roomId dto = db\<lparr>rd_rooms := map (\<lambda>r. if re_id r = roomId then patch_row db dto r else r) (rd_rooms db)\<rparr>"

definition updateRoomByCode ::
  "rooms_db \<Rightarrow> string \<Rightarrow> string \<Rightarrow> update_dto \<Rightarrow> rooms_db \<times> (rooms_error + room_entry)" where
  "updateRoomByCode db code userId dto = (case room_by_code db code of
     None \<Rightarrow> (db, Inl RoomNotFoundError)
   | Some r \<Rightarrow>
       if re_creatorId r \<noteq> userId then (db, Inl UpdateForbidden)
       else (updateRoom db (re_id r) dto, Inr (patch_row db dto r)))"

text \<open>The announcement goes out before the rows go; the four deletes are one transaction.\<close>

definition deleteRoom ::
  "rooms_db \<Rightarrow> string \<Rightarrow> string \<Rightarrow> rooms_db \<times> gw_emit \<times> (rooms_error + room_entry)" where
  "deleteRoom db code userId = (case room_by_code db code of
     None \<Rightarrow> (db, [], Inl RoomNotFoundError)
   | Some r \<Rightarrow>
       if re_creatorId r \<noteq> userId then (db, [], Inl DeleteForbidden)
       else
         (db\<lparr>rd_messages := filter (\<lambda>m. cm_roomId m \<noteq> re_id r) (rd_messages db),
             rd_syncEvents := filter (\<lambda>i. i \<noteq> re_id r) (rd_syncEvents db),
             rd_participants := filter (\<lambda>p. p_roomId p \<noteq> re_id r) (rd_participants db),
             rd_rooms := filter (\<lambda>x. re_id x \<noteq> re_id r) (rd_rooms db)\<rparr>,
          announceRoomClosed code, Inr r))"

text \<open>Playing rooms first, then the most recently updated; a listing carries the creator's name and the head count.\<close>

definition listed :: "(string \<Rightarrow> string) \<Rightarrow> rooms_db \<Rightarrow> room_entry \<Rightarrow> room_entry \<times> (string \<times> string) \<times> nat" where
  "listed names db r = (r, (re_creatorId r, names (re_creatorId r)), length (active_participants db (re_id r)))"

definition getPublicRooms ::
  "(string \<Rightarrow> string) \<Rightarrow> rooms_db \<Rightarrow> string option \<Rightarrow> (room_entry \<times> (string \<times> string) \<times> nat) list" where
  "getPublicRooms names db flt =
     (let wanted = (\<lambda>r. re_isPublic r \<and> re_isActive r \<and>
            (truthy flt \<and> flt \<noteq> Some ''all'' \<longrightarrow> nullish flt [] \<in> set (re_tags r))) in
      map (listed names db) (take 20
        (sort_key (\<lambda>r. if re_isPlaying r then 0 else (1 :: nat)) (rev (sort_key re_updatedAt (filter wanted (rd_rooms db)))))))"

definition getUserRooms ::
  "(string \<Rightarrow> string) \<Rightarrow> rooms_db \<Rightarrow> string \<Rightarrow> (room_entry \<times> (string \<times> string) \<times> nat) list" where
  "getUserRooms names db userId =
     map (listed names db) (rev (sort_key re_updatedAt (filter (\<lambda>r. re_creatorId r = userId \<or>
       list_ex (\<lambda>p. p_userId p = userId) (active_participants db (re_id r))) (rd_rooms db))))"

text \<open>
  What the timeline service writes into the row of its room: an update by code, and nothing when there is no such room
  (the rejection is caught and logged). The update time of the row is the database's own.
\<close>

definition persist_row :: "rooms_db \<Rightarrow> row_update \<Rightarrow> room_entry \<Rightarrow> room_entry" where
  "persist_row db u r = r\<lparr>re_currentTime := ru_currentTime u, re_isPlaying := ru_isPlaying u, re_videoUrl := ru_videoUrl u,
     re_lastSyncAt := ru_lastSyncAt u, re_updatedAt := rd_now db\<rparr>"

definition persist_room :: "rooms_db \<Rightarrow> string \<Rightarrow> row_update \<Rightarrow> rooms_db" where
  "persist_room db code u = db\<lparr>rd_rooms := map (\<lambda>r. if re_code r = code then persist_row db u r else r) (rd_rooms db)\<rparr>"

subsection \<open>Routes\<close>

text \<open>Identity comes from the guard; a path that names another user is refused.\<close>

datatype rooms_request =
    ReqCreate create_dto string string
  | ReqPatch string update_dto
  | ReqDelete string

definition rooms_route ::
  "verifier \<Rightarrow> revocation \<Rightarrow> string option \<Rightarrow> rooms_db \<Rightarrow> rooms_request \<Rightarrow> rooms_db \<times> gw_emit" where
  "rooms_route verify rv header db rq = (case canActivate verify rv header of
     Inl e \<Rightarrow> (db, [])
   | Inr u \<Rightarrow>
       (case rq of
          ReqCreate dto i c \<Rightarrow> (fst (createRoom db (au_userId u) dto i c), [])
        | ReqPatch code dto \<Rightarrow> (fst (updateRoomByCode db code (au_userId u) dto), [])
        | ReqDelete code \<Rightarrow> (let (db', out, r) = deleteRoom db code (au_userId u) in (db', out))))"

definition route_getUserRooms ::
  "verifier \<Rightarrow> revocation \<Rightarrow> string option \<Rightarrow> (string \<Rightarrow> string) \<Rightarrow> rooms_db \<Rightarrow> string \<Rightarrow>
   (guard_error + rooms_error) + (room_entry \<times> (string \<times> string) \<times> nat) list" where
  "route_getUserRooms verify rv header names db userId = (case canActivate verify rv header of
     Inl e \<Rightarrow> Inl (Inl e)
   | Inr u \<Rightarrow> if userId \<noteq> au_userId u then Inl (Inr ListForbidden) else Inr (getUserRooms names db userId))"

subsection \<open>Consistency\<close>

definition rooms_ok :: "rooms_db \<Rightarrow> bool" where
  "rooms_ok db = (distinct (map re_id (rd_rooms db)) \<and> distinct (map re_code (rd_rooms db)) \<and>
     (\<forall>p\<in>set (rd_participants db). p_roomId p \<in> set (map re_id (rd_rooms db))) \<and>
     (\<forall>m\<in>set (rd_messages db). cm_roomId m \<in> set (map re_id (rd_rooms db))) \<and>
     (\<forall>i\<in>set (rd_syncEvents db). i \<in> set (map re_id (rd_rooms db))))"

lemma patch_row_keys [simp]:
  "re_id (patch_row db dto r) = re_id r" "re_code (patch_row db dto r) = re_code r" "re_creatorId (patch_row db dto r) = re_creatorId r"
  by (simp_all add: patch_row_def)

lemma map_patch_keys:
  "map re_id (map (\<lambda>r. if re_id r = i then patch_row db dto r else r) rs) = map re_id rs"
  "map re_code (map (\<lambda>r. if re_id r = i then patch_row db dto r else r) rs) = map re_code rs"
  by (induction rs) auto

lemma persist_row_keys [simp]:
  "re_id (persist_row db u r) = re_id r" "re_code (persist_row db u r) = re_code r" "re_creatorId (persist_row db u r) = re_creatorId r"
  by (simp_all add: persist_row_def)

lemma map_persist_keys:
  "map re_id (map (\<lambda>r. if re_code r = c then persist_row db u r else r) rs) = map re_id rs"
  "map re_code (map (\<lambda>r. if re_code r = c then persist_row db u r else r) rs) = map re_code rs"
  by (induction rs) auto

lemma persist_room_ok: "rooms_ok db \<Longrightarrow> rooms_ok (persist_room db code u)"
  unfolding rooms_ok_def persist_room_def by (simp add: map_persist_keys del: map_map set_map list.set_map)

lemma createRoom_ok: "rooms_ok db \<Longrightarrow> rooms_ok (fst (createRoom db u dto i c))"
  by (auto simp: createRoom_def rooms_ok_def Let_def list_ex_iff)

lemma updateRoom_fields:
  "rd_rooms (updateRoom db i dto) = map (\<lambda>r. if re_id r = i then patch_row db dto r else r) (rd_rooms db)"
  "rd_participants (updateRoom db i dto) = rd_participants db" "rd_messages (updateRoom db i dto) = rd_messages db"
  "rd_syncEvents (updateRoom db i dto) = rd_syncEvents db"
  by (simp_all add: updateRoom_def)

lemma updateRoom_ok: "rooms_ok db \<Longrightarrow> rooms_ok (updateRoom db i dto)"
  unfolding rooms_ok_def updateRoom_fields map_patch_keys by blast

lemma deleteRoom_ok: "rooms_ok db \<Longrightarrow> rooms_ok (fst (deleteRoom db code u))"
  by (auto simp: deleteRoom_def rooms_ok_def distinct_map_filter split: option.splits)

lemma rooms_route_ok: "rooms_ok db \<Longrightarrow> rooms_ok (fst (rooms_route verify rv header db rq))"
  using createRoom_ok updateRoom_ok deleteRoom_ok
  by (auto simp: rooms_route_def updateRoomByCode_def split: sum.splits rooms_request.splits option.splits prod.splits)
    (metis fst_conv)+

text \<open>The rows of one room: its entry and what refers to it.\<close>

definition rows_of :: "rooms_db \<Rightarrow> string \<Rightarrow> room_entry list \<times> participant list \<times> chat_message list \<times> string list" where
  "rows_of db i = (filter (\<lambda>r. re_id r = i) (rd_rooms db), filter (\<lambda>p. p_roomId p = i) (rd_participants db),
     filter (\<lambda>m. cm_roomId m = i) (rd_messages db), filter (\<lambda>x. x = i) (rd_syncEvents db))"

lemma room_by_code_Some:
  assumes "rooms_ok db"
  shows "room_by_code db code = Some r \<longleftrightarrow> r \<in> set (rd_rooms db) \<and> re_code r = code"
proof
  assume "room_by_code db code = Some r"
  then show "r \<in> set (rd_rooms db) \<and> re_code r = code" by (auto simp: room_by_code_def find_Some_iff)
next
  assume r: "r \<in> set (rd_rooms db) \<and> re_code r = code"
  then obtain w where w: "room_by_code db code = Some w"
    by (cases "room_by_code db code") (auto simp: room_by_code_def find_None_iff)
  then have "w \<in> set (rd_rooms db)" "re_code w = code" by (auto simp: room_by_code_def find_Some_iff)
  then show "room_by_code db code = Some r" using w r assms by (auto simp: rooms_ok_def distinct_map dest: inj_onD)
qed

lemma filter_patch_other:
  "j \<noteq> i \<Longrightarrow> filter (\<lambda>r. re_id r = j) (map (\<lambda>r. if re_id r = i then patch_row db dto r else r) rs) = filter (\<lambda>r. re_id r = j) rs"
  by (induction rs) auto

lemma filter_patch_same:
  "filter (\<lambda>r. re_id r = i) (map (\<lambda>r. if re_id r = i then patch_row db dto r else r) rs) = map (patch_row db dto) (filter (\<lambda>r. re_id r = i) rs)"
  by (induction rs) auto

lemma filter_none: "(\<And>x. Q x \<Longrightarrow> \<not> P x) \<Longrightarrow> filter P (filter Q xs) = []"
  by (induction xs) auto

lemma filter_other: "i \<noteq> j \<Longrightarrow> filter (\<lambda>x. f x = j) (filter (\<lambda>x. f x \<noteq> i) xs) = filter (\<lambda>x. f x = j) xs"
  by (induction xs) auto

text \<open>What one request can do to a room that exists.\<close>

lemma rooms_route_effect:
  assumes "rooms_ok db" "r \<in> set (rd_rooms db)" "rooms_route verify rv header db rq = (db', out)" "rows_of db' (re_id r) \<noteq> rows_of db (re_id r)"
  shows "\<exists>u. canActivate verify rv header = Inr u \<and> au_userId u = re_creatorId r \<and>
    ((\<exists>dto. rq = ReqPatch (re_code r) dto \<and> rd_rooms db' = map (\<lambda>x. if re_id x = re_id r then patch_row db dto x else x) (rd_rooms db)) \<or>
     (rq = ReqDelete (re_code r) \<and> rows_of db' (re_id r) = ([], [], [], []) \<and> out = [(Room (re_code r), EvClosed (re_code r))]))"
proof -
  obtain u where u: "canActivate verify rv header = Inr u"
    using assms(3,4) by (cases "canActivate verify rv header") (auto simp: rooms_route_def)
  have other: "re_id x \<noteq> re_id r" if "x \<in> set (rd_rooms db)" "re_code x \<noteq> re_code r" for x
    using that assms(1,2) by (auto simp: rooms_ok_def distinct_map dest: inj_onD)
  show ?thesis
  proof (cases rq)
    case (ReqCreate dto i c)
    then show ?thesis using assms(2-4) u
      by (auto simp: rooms_route_def createRoom_def rows_of_def Let_def list_ex_iff split: if_splits)
  next
    case (ReqPatch code dto)
    then obtain x where x: "room_by_code db code = Some x" "re_creatorId x = au_userId u" "db' = updateRoom db (re_id x) dto"
      using assms(3,4) u by (auto simp: rooms_route_def updateRoomByCode_def split: option.splits if_splits)
    then have xi: "x \<in> set (rd_rooms db)" "re_code x = code" using room_by_code_Some [OF assms(1)] by auto
    have "re_id x = re_id r"
      using assms(4) x(3) by (cases "re_id x = re_id r") (auto simp: rows_of_def updateRoom_def filter_patch_other)
    then have "x = r" using xi assms(1,2) by (auto simp: rooms_ok_def distinct_map dest: inj_onD)
    then show ?thesis using u x xi ReqPatch by (auto simp: updateRoom_def)
  next
    case (ReqDelete code)
    then obtain x where x: "room_by_code db code = Some x" "re_creatorId x = au_userId u" "deleteRoom db code (au_userId u) = (db', out, Inr x)"
      using assms(3,4) u by (auto simp: rooms_route_def deleteRoom_def split: option.splits if_splits)
    then have xi: "x \<in> set (rd_rooms db)" "re_code x = code" using room_by_code_Some [OF assms(1)] by auto
    have eff: "db' = db\<lparr>rd_messages := filter (\<lambda>m. cm_roomId m \<noteq> re_id x) (rd_messages db),
        rd_syncEvents := filter (\<lambda>i. i \<noteq> re_id x) (rd_syncEvents db), rd_participants := filter (\<lambda>p. p_roomId p \<noteq> re_id x) (rd_participants db),
        rd_rooms := filter (\<lambda>w. re_id w \<noteq> re_id x) (rd_rooms db)\<rparr>" "out = announceRoomClosed code"
      using x by (auto simp: deleteRoom_def)
    have "re_id x = re_id r"
      using assms(4) by (cases "re_id x = re_id r") (auto simp: rows_of_def eff filter_other filter_other [where f = "\<lambda>x. x"] simp del: filter_filter)
    then have "x = r" using xi assms(1,2) by (auto simp: rooms_ok_def distinct_map dest: inj_onD)
    moreover have "rows_of db' (re_id x) = ([], [], [], [])" by (simp add: rows_of_def eff filter_none del: filter_filter)
    ultimately show ?thesis using u x(2) xi(2) ReqDelete by (auto simp: eff(2) announceRoomClosed_def)
  qed
qed

subsection \<open>Runs\<close>

text \<open>
  Requests by anyone, with whatever header, interleaved with what the gateway writes: somebody
  joins a room that exists (the upsert of a participant), leaves it, or says something in it; and
  with what the timeline service persists of the timeline of a room at some time.
\<close>

datatype rooms_event =
    RoomsRequest revocation "string option" rooms_request
  | RoomsJoin string string jsnum
  | RoomsLeave string string jsnum
  | RoomsChat chat_message
  | RoomsPersist string jsnum timeline
  | RoomsTime nat

definition rooms_step :: "verifier \<Rightarrow> rooms_db \<Rightarrow> rooms_event \<Rightarrow> rooms_db" where
  "rooms_step verify db ev = (case ev of
     RoomsRequest rv header rq \<Rightarrow> fst (rooms_route verify rv header db rq)
   | RoomsJoin u i t \<Rightarrow>
       if i \<in> set (map re_id (rd_rooms db)) then db\<lparr>rd_participants := upsert_participant (rd_participants db) u i t\<rparr> else db
   | RoomsLeave u i t \<Rightarrow> db\<lparr>rd_participants := deactivate (rd_participants db) u i t\<rparr>
   | RoomsChat m \<Rightarrow> if cm_roomId m \<in> set (map re_id (rd_rooms db)) then db\<lparr>rd_messages := rd_messages db @ [m]\<rparr> else db
   | RoomsPersist code now tml \<Rightarrow> persist_room db code (persistTimeline now tml)
   | RoomsTime t \<Rightarrow> db\<lparr>rd_now := rd_now db + t\<rparr>)"

definition rooms_run :: "verifier \<Rightarrow> rooms_db \<Rightarrow> rooms_event list \<Rightarrow> rooms_db" where
  "rooms_run verify db evs = foldl (rooms_step verify) db evs"

lemma rooms_step_ok: "rooms_ok db \<Longrightarrow> rooms_ok (rooms_step verify db ev)"
  using rooms_route_ok persist_room_ok
  by (cases ev) (auto simp: rooms_step_def rooms_ok_def upsert_participant_def deactivate_def)

lemma rooms_run_ok: "rooms_ok db \<Longrightarrow> rooms_ok (rooms_run verify db evs)"
  unfolding rooms_run_def by (induction evs arbitrary: db) (simp_all add: rooms_step_ok)

definition no_rooms :: rooms_db where
  "no_rooms = \<lparr>rd_rooms = [], rd_participants = [], rd_messages = [], rd_syncEvents = [], rd_now = 0\<rparr>"

text \<open>A request of the creator of a room that names its code.\<close>

definition by_creator :: "verifier \<Rightarrow> room_entry \<Rightarrow> rooms_event \<Rightarrow> bool" where
  "by_creator verify r ev = (case ev of
     RoomsRequest rv header rq \<Rightarrow>
       (case canActivate verify rv header of Inl _ \<Rightarrow> False
        | Inr u \<Rightarrow> au_userId u = re_creatorId r \<and> (rq = ReqDelete (re_code r) \<or> (\<exists>dto. rq = ReqPatch (re_code r) dto)))
   | _ \<Rightarrow> False)"

text \<open>What one event leaves of the row of a room, when it is not a request of its creator.\<close>

definition row_after :: "rooms_db \<Rightarrow> rooms_event \<Rightarrow> room_entry \<Rightarrow> room_entry" where
  "row_after db ev r = (case ev of
     RoomsPersist code now tml \<Rightarrow> if re_code r = code then persist_row db (persistTimeline now tml) r else r
   | _ \<Rightarrow> r)"

lemma rooms_step_row:
  assumes "rooms_ok db" "r \<in> set (rd_rooms db)" "\<not> by_creator verify r ev"
  shows "row_after db ev r \<in> set (rd_rooms (rooms_step verify db ev))"
proof (cases ev)
  case (RoomsRequest rv header rq)
  obtain db' out where d: "rooms_route verify rv header db rq = (db', out)" by fastforce
  have "rows_of db' (re_id r) = rows_of db (re_id r)"
  proof (rule ccontr)
    assume "rows_of db' (re_id r) \<noteq> rows_of db (re_id r)"
    from rooms_route_effect [OF assms(1,2) d this] assms(3) RoomsRequest show False by (auto simp: by_creator_def)
  qed
  then have "filter (\<lambda>x. re_id x = re_id r) (rd_rooms db') = filter (\<lambda>x. re_id x = re_id r) (rd_rooms db)"
    by (simp add: rows_of_def)
  from arg_cong [OF this, of set] have "{x \<in> set (rd_rooms db'). re_id x = re_id r} = {x \<in> set (rd_rooms db). re_id x = re_id r}"
    by simp
  then show ?thesis using assms(2) RoomsRequest d by (auto simp: rooms_step_def row_after_def)
qed (use assms(2) in \<open>auto simp: rooms_step_def row_after_def persist_room_def\<close>)

text \<open>The persists of one room along a run, with their times.\<close>

definition persists_of :: "string \<Rightarrow> rooms_event list \<Rightarrow> (jsnum \<times> timeline) list" where
  "persists_of code evs = concat (map (\<lambda>ev. case ev of RoomsPersist c now tml \<Rightarrow> if c = code then [(now, tml)] else [] | _ \<Rightarrow> []) evs)"

lemma row_after_owned:
  "row_after db ev r = r\<lparr>re_currentTime := re_currentTime (row_after db ev r), re_isPlaying := re_isPlaying (row_after db ev r),
     re_videoUrl := re_videoUrl (row_after db ev r), re_lastSyncAt := re_lastSyncAt (row_after db ev r),
     re_updatedAt := re_updatedAt (row_after db ev r)\<rparr>"
  by (cases ev) (simp_all add: row_after_def persist_row_def)

lemma row_after_persisted:
  "persists_of (re_code r) [ev] = [] \<Longrightarrow> row_after db ev r = r"
  "persists_of (re_code r) [ev] \<noteq> [] \<Longrightarrow> \<exists>now tml. persists_of (re_code r) [ev] = [(now, tml)] \<and>
     row_after db ev r = persist_row db (persistTimeline now tml) r"
  by (cases ev; simp add: row_after_def persists_of_def split: if_splits)+

lemma by_creator_keys: "re_creatorId r' = re_creatorId r \<Longrightarrow> re_code r' = re_code r \<Longrightarrow> by_creator verify r' ev = by_creator verify r ev"
  by (simp only: by_creator_def)

text \<open>
  C21. A room is its creator's. Along every run of requests by anyone, with whatever tokens, interleaved with joins,
  departures, chat and what the timeline service persists: ids and codes stay unique and nothing refers to a room that
  is gone; and until a request comes that carries a token the guard accepts for the creator of a room and names its
  code, the room stays, its code, name, creator, visibility, description, tags, control setting, limit and activity
  are what they were, and the playback columns (position, playing, video, time of the last synchronisation, which any
  participant who may control the room can change through its timeline) are what the last persist of the timeline of
  this room wrote; without a persist of it the whole row is as it was.
\<close>

theorem room_belongs_to_creator:
  assumes "rooms_ok db" "r \<in> set (rd_rooms db)" "\<forall>ev\<in>set evs. \<not> by_creator verify r ev"
  shows "rooms_ok (rooms_run verify db evs) \<and>
    (\<exists>r'\<in>set (rd_rooms (rooms_run verify db evs)).
       r' = r\<lparr>re_currentTime := re_currentTime r', re_isPlaying := re_isPlaying r', re_videoUrl := re_videoUrl r',
              re_lastSyncAt := re_lastSyncAt r', re_updatedAt := re_updatedAt r'\<rparr> \<and>
       (if persists_of (re_code r) evs = [] then r' = r
        else (let (now, tml) = last (persists_of (re_code r) evs) in
          re_currentTime r' = projectMediaTime tml now \<and> re_isPlaying r' = isPlaying tml \<and>
          re_videoUrl r' = videoId tml \<and> re_lastSyncAt r' = now)))"
  using assms
proof (induction evs rule: rev_induct)
  case Nil
  then show ?case by (auto simp: rooms_run_def persists_of_def intro!: bexI [of _ r])
next
  case (snoc ev evs)
  let ?db = "rooms_run verify db evs"
  from snoc obtain r' where r': "rooms_ok ?db" "r' \<in> set (rd_rooms ?db)"
      "r' = r\<lparr>re_currentTime := re_currentTime r', re_isPlaying := re_isPlaying r', re_videoUrl := re_videoUrl r',
              re_lastSyncAt := re_lastSyncAt r', re_updatedAt := re_updatedAt r'\<rparr>"
      "if persists_of (re_code r) evs = [] then r' = r
       else (let (now, tml) = last (persists_of (re_code r) evs) in
          re_currentTime r' = projectMediaTime tml now \<and> re_isPlaying r' = isPlaying tml \<and>
          re_videoUrl r' = videoId tml \<and> re_lastSyncAt r' = now)" by auto
  have keys: "re_code r' = re_code r" "re_creatorId r' = re_creatorId r" by (subst r'(3), simp)+
  let ?r = "row_after ?db ev r'"
  have step: "rooms_run verify db (evs @ [ev]) = rooms_step verify ?db ev" by (simp add: rooms_run_def)
  have in_step: "?r \<in> set (rd_rooms (rooms_step verify ?db ev))"
    using rooms_step_row [OF r'(1,2)] snoc.prems(3) by_creator_keys [OF keys(2,1)] by simp
  have owned: "?r = r\<lparr>re_currentTime := re_currentTime ?r, re_isPlaying := re_isPlaying ?r, re_videoUrl := re_videoUrl ?r,
      re_lastSyncAt := re_lastSyncAt ?r, re_updatedAt := re_updatedAt ?r\<rparr>"
    by (subst row_after_owned, subst r'(3), simp)
  have app: "persists_of (re_code r) (evs @ [ev]) = persists_of (re_code r) evs @ persists_of (re_code r) [ev]"
    by (simp add: persists_of_def)
  have cols: "if persists_of (re_code r) (evs @ [ev]) = [] then ?r = r
     else (let (now, tml) = last (persists_of (re_code r) (evs @ [ev])) in
        re_currentTime ?r = projectMediaTime tml now \<and> re_isPlaying ?r = isPlaying tml \<and>
        re_videoUrl ?r = videoId tml \<and> re_lastSyncAt ?r = now)"
    using row_after_persisted [of r' ev ?db] r'(4) unfolding keys app
    by (cases "persists_of (re_code r) [ev] = []") (auto simp: persist_row_def persistTimeline_def)
  show ?case unfolding step using rooms_step_ok [OF r'(1)] in_step owned cols by blast
qed

definition demo_dto :: create_dto where
  "demo_dto = \<lparr>cd_name = ''movie night'', cd_videoUrl = None, cd_isPublic = None, cd_description = None, cd_tags = None, cd_allowGuestControl = None\<rparr>"

definition demo_shown :: timeline where
  "demo_shown = \<lparr>seq = 3, storeEpoch = ''e1'', videoId = Some ''https://v.example/a.mp4'', isPlaying = True, mediaTime = 7,
     stampedAt = 2, rate = 1, reason_of = ''set-video'', by_user = Some ''bob''\<rparr>"

theorem room_belongs_to_creator_witness:
  "\<exists>r'\<in>set (rd_rooms (rooms_run (\<lambda>t. TokenInvalid) (fst (createRoom no_rooms ''ada'' demo_dto ''r1'' ''code1''))
      [RoomsRequest new_revocation (Some ''Bearer x'') (ReqDelete ''code1''), RoomsJoin ''bob'' ''r1'' 5, RoomsPersist ''code1'' 9 demo_shown])).
    re_name r' = ''movie night'' \<and> re_videoUrl r' = videoId demo_shown"
proof -
  let ?db = "fst (createRoom no_rooms ''ada'' demo_dto ''r1'' ''code1'')"
  let ?evs = "[RoomsRequest new_revocation (Some ''Bearer x'') (ReqDelete ''code1''), RoomsJoin ''bob'' ''r1'' 5, RoomsPersist ''code1'' 9 demo_shown]"
  have "rooms_ok no_rooms" by (simp add: no_rooms_def rooms_ok_def)
  then have ok: "rooms_ok ?db" by (rule createRoom_ok)
  obtain r where r: "r \<in> set (rd_rooms ?db)" "re_name r = ''movie night''" "re_code r = ''code1''"
    by (simp add: createRoom_def no_rooms_def Let_def demo_dto_def)
  have "\<forall>ev\<in>set ?evs. \<not> by_creator (\<lambda>t. TokenInvalid) r ev"
    by (auto simp: by_creator_def canActivate_def Let_def split: sum.splits if_splits)
  from room_belongs_to_creator [OF ok r(1) this] obtain r' where r': "r' \<in> set (rd_rooms (rooms_run (\<lambda>t. TokenInvalid) ?db ?evs))"
      "r' = r\<lparr>re_currentTime := re_currentTime r', re_isPlaying := re_isPlaying r', re_videoUrl := re_videoUrl r',
              re_lastSyncAt := re_lastSyncAt r', re_updatedAt := re_updatedAt r'\<rparr>" "re_videoUrl r' = videoId demo_shown"
    by (auto simp: persists_of_def r(3))
  have "re_name r' = ''movie night''" by (subst r'(2)) (simp add: r(2))
  then show ?thesis using r' by blast
qed

text \<open>The creator's requests do what they say: a patch changes the named columns of this room and no other room, a delete
  removes every row of the room and announces it.\<close>

lemma creator_patch:
  assumes "rooms_ok db" "r \<in> set (rd_rooms db)"
  shows "snd (updateRoomByCode db (re_code r) (re_creatorId r) dto) = Inr (patch_row db dto r)"
    and "j \<noteq> re_id r \<Longrightarrow> rows_of (fst (updateRoomByCode db (re_code r) (re_creatorId r) dto)) j = rows_of db j"
proof -
  have "room_by_code db (re_code r) = Some r" using room_by_code_Some [OF assms(1)] assms(2) by blast
  then have u: "updateRoomByCode db (re_code r) (re_creatorId r) dto = (updateRoom db (re_id r) dto, Inr (patch_row db dto r))"
    by (simp add: updateRoomByCode_def)
  show "snd (updateRoomByCode db (re_code r) (re_creatorId r) dto) = Inr (patch_row db dto r)" by (simp add: u)
  show "j \<noteq> re_id r \<Longrightarrow> rows_of (fst (updateRoomByCode db (re_code r) (re_creatorId r) dto)) j = rows_of db j"
    by (simp add: u rows_of_def updateRoom_fields filter_patch_other)
qed

text \<open>
  Saving the settings does not reach a room that is live: the timeline service keeps the metadata it
  read when the room was opened, so a change of allowGuestControl has no effect on who may control
  the room until it is released and opened again.
\<close>

lemma settings_miss_live_room:
  assumes "ts_meta sv code = Some m"
  shows "ts_meta (fst (ensureRoom ops sv code row now)) code = Some m"
  using assms by (simp add: ensureRoom_def Let_def prod.case_eq_if)

end
