(* ===== verification/Username.thy ===== *)
theory Username
  imports JsString
begin

text \<open>
  Names: what register and claimGuestAccount accept (credentialsOrThrow of auth/auth.service.ts) and
  what a provider sign-in manufactures (auth/google/username.ts). Property: every manufactured name
  is one the first door would have accepted.
\<close>

subsection \<open>Patterns\<close>

text \<open>\<^verbatim>\<open>/^[a-zA-Z0-9_.-]{3,32}$/\<close>\<close>

definition username_ok :: "string \<Rightarrow> bool" where
  "username_ok s = (3 \<le> length s \<and> length s \<le> 32 \<and> list_all (\<lambda>c. is_idchar c \<or> c = CHR ''.'') s)"

text \<open>
  \<^verbatim>\<open>/^[^@\s]+@[^@\s.]+\.[^@\s]+$/\<close>: exactly one at sign, no white space, something before it, and
  after it a dot with a dotless non-empty part in front and something behind.
\<close>

definition email_ok :: "string \<Rightarrow> bool" where
  "email_ok s = (case split_on CHR ''@'' s of
     [user, domain] \<Rightarrow>
       list_all (\<lambda>c. \<not> is_ws c) s \<and> user \<noteq> [] \<and>
       (let first = takeWhile (\<lambda>c. c \<noteq> CHR ''.'') domain; rest = dropWhile (\<lambda>c. c \<noteq> CHR ''.'') domain in
        first \<noteq> [] \<and> 2 \<le> length rest)
   | _ \<Rightarrow> False)"

datatype credential_error = BadUsername | BadEmail | GuestAddress | ShortPassword

definition credentialsOrThrow :: "string \<Rightarrow> string \<Rightarrow> string \<Rightarrow> credential_error + (string \<times> string)" where
  "credentialsOrThrow username email password =
     (let cleanUsername = trim username; cleanEmail = toLowerCase (trim email) in
      if \<not> username_ok cleanUsername then Inl BadUsername
      else if \<not> email_ok cleanEmail then Inl BadEmail
      else if endsWith cleanEmail ''@guest.invalid'' then Inl GuestAddress
      else if length password < 8 then Inl ShortPassword
      else Inr (cleanUsername, cleanEmail))"

subsection \<open>Manufactured names\<close>

definition MIN_NAME :: nat where "MIN_NAME = 3"
definition MAX_NAME :: nat where "MAX_NAME = 20"

text \<open>
  NFKD of one character below 256, without the combining marks that the next step removes. The micro
  sign and the fraction slash decompose to characters outside this range, written here as a question
  mark: neither is a letter or a digit, which is all that the rest of the function asks.
\<close>

definition nfkd_base :: "char \<Rightarrow> string" where
  "nfkd_base c = (let n = code_of c in
     if 192 \<le> n \<and> n \<le> 197 then ''A'' else if n = 199 then ''C'' else if 200 \<le> n \<and> n \<le> 203 then ''E''
     else if 204 \<le> n \<and> n \<le> 207 then ''I'' else if n = 209 then ''N'' else if 210 \<le> n \<and> n \<le> 214 then ''O''
     else if 217 \<le> n \<and> n \<le> 220 then ''U'' else if n = 221 then ''Y''
     else if 224 \<le> n \<and> n \<le> 229 then ''a'' else if n = 231 then ''c'' else if 232 \<le> n \<and> n \<le> 235 then ''e''
     else if 236 \<le> n \<and> n \<le> 239 then ''i'' else if n = 241 then ''n'' else if 242 \<le> n \<and> n \<le> 246 then ''o''
     else if 249 \<le> n \<and> n \<le> 252 then ''u'' else if n = 253 \<or> n = 255 then ''y''
     else if n = 160 \<or> n = 168 \<or> n = 175 \<or> n = 180 \<or> n = 184 then '' ''
     else if n = 170 then ''a'' else if n = 186 then ''o'' else if n = 181 then ''?''
     else if n = 178 then ''2'' else if n = 179 then ''3'' else if n = 185 then ''1''
     else if n = 188 then ''1?4'' else if n = 189 then ''1?2'' else if n = 190 then ''3?4''
     else [c])"

definition is_slug_char :: "char \<Rightarrow> bool" where
  "is_slug_char c = (is_lower c \<or> is_digit c)"

text \<open>\<^verbatim>\<open>replace(/[^a-z0-9]+/g, '_')\<close>; the flag says that the current run already has its underscore.\<close>

fun collapse :: "bool \<Rightarrow> string \<Rightarrow> string" where
  "collapse run [] = []"
| "collapse run (c # cs) =
     (if is_slug_char c then c # collapse False cs
      else if run then collapse True cs else CHR ''_'' # collapse True cs)"

definition strip_right :: "string \<Rightarrow> string" where
  "strip_right s = rev (dropWhile (\<lambda>c. c = CHR ''_'') (rev s))"

definition strip_both :: "string \<Rightarrow> string" where
  "strip_both s = strip_right (dropWhile (\<lambda>c. c = CHR ''_'') s)"

definition slugifyUsername :: "string \<Rightarrow> string" where
  "slugifyUsername input =
     strip_right (take MAX_NAME (strip_both (collapse False (toLowerCase (concat (map nfkd_base input))))))"

definition usernameBase :: "string option \<Rightarrow> string option \<Rightarrow> string" where
  "usernameBase name email =
     (let fromName = (if truthy name then slugifyUsername (nullish name []) else []);
          fromEmail = (if truthy email then slugifyUsername (hd (split_on CHR ''@'' (nullish email []))) else [])
      in if MIN_NAME \<le> length fromName then fromName
         else if MIN_NAME \<le> length fromEmail then fromEmail
         else ''watcher'')"

definition padStart :: "nat \<Rightarrow> char \<Rightarrow> string \<Rightarrow> string" where
  "padStart n c s = replicate (n - length s) c @ s"

text \<open>
  The candidates a generator yields: the base, then the base with random suffixes; \<open>draw k\<close> is the
  \<open>k\<close>-th value of \<^verbatim>\<open>Math.floor(rand() * 10000)\<close>.
\<close>

definition usernameCandidate :: "string \<Rightarrow> (nat \<Rightarrow> nat) \<Rightarrow> nat \<Rightarrow> string" where
  "usernameCandidate base draw k = (case k of
     0 \<Rightarrow> base
   | Suc j \<Rightarrow> (let suffix = padStart 4 CHR ''0'' (show_nat (draw j)) in
       take (MAX_NAME - length suffix - 1) base @ ''_'' @ suffix))"

subsection \<open>Facts\<close>

definition slug_alphabet :: "string \<Rightarrow> bool" where
  "slug_alphabet s = list_all (\<lambda>c. is_slug_char c \<or> c = CHR ''_'') s"

lemma collapse_alphabet: "slug_alphabet (collapse b s)"
  by (induction b s rule: collapse.induct) (auto simp: slug_alphabet_def)

lemma slug_sub: "slug_alphabet s \<Longrightarrow> set t \<subseteq> set s \<Longrightarrow> slug_alphabet t"
  by (auto simp: slug_alphabet_def list_all_iff)

lemma set_strip_right: "set (strip_right s) \<subseteq> set s"
  by (auto simp: strip_right_def dest: set_dropWhileD)

lemma set_strip_both: "set (strip_both s) \<subseteq> set s"
  using set_strip_right by (fastforce simp: strip_both_def dest: set_dropWhileD)

lemma length_strip_right: "length (strip_right s) \<le> length s"
  by (simp add: strip_right_def length_dropWhile_le [THEN order_trans])

lemma slugify_alphabet: "slug_alphabet (slugifyUsername s)"
proof -
  let ?c = "collapse False (toLowerCase (concat (map nfkd_base s)))"
  have "set (slugifyUsername s) \<subseteq> set ?c"
    unfolding slugifyUsername_def
    using set_strip_right [of "take MAX_NAME (strip_both ?c)"] set_take_subset [of MAX_NAME "strip_both ?c"] set_strip_both [of ?c]
    by blast
  then show ?thesis using slug_sub [OF collapse_alphabet] by blast
qed

lemma slugify_length: "length (slugifyUsername s) \<le> MAX_NAME"
  unfolding slugifyUsername_def by (rule order_trans [OF length_strip_right]) simp

lemma strip_right_last: "strip_right s \<noteq> [] \<Longrightarrow> last (strip_right s) \<noteq> CHR ''_''"
  unfolding strip_right_def
  by (metis (mono_tags, lifting) hd_dropWhile last_rev rev.simps(1) rev_rev_ident)

lemma slug_is_username_char: "is_slug_char c \<or> c = CHR ''_'' \<Longrightarrow> is_idchar c"
  by (auto simp: is_slug_char_def is_idchar_def is_alnum_def)

lemma slug_username_ok: "slug_alphabet s \<Longrightarrow> 3 \<le> length s \<Longrightarrow> length s \<le> 32 \<Longrightarrow> username_ok s"
  using slug_is_username_char by (auto simp: username_ok_def slug_alphabet_def list_all_iff)

lemma usernameBase_ok: "slug_alphabet (usernameBase name email) \<and> 3 \<le> length (usernameBase name email) \<and>
  length (usernameBase name email) \<le> MAX_NAME"
proof -
  have "slug_alphabet ''watcher''" by (simp add: slug_alphabet_def is_slug_char_def is_lower_def)
  then show ?thesis using slugify_alphabet slugify_length
    by (auto simp: usernameBase_def Let_def MIN_NAME_def MAX_NAME_def)
qed

lemma length_show_nat_step:
  assumes "n < 10 * m" "\<And>j. j < m \<Longrightarrow> length (show_nat j) \<le> k"
  shows "length (show_nat n) \<le> Suc k"
proof (cases "n < 10")
  case True
  then show ?thesis by (subst show_nat.simps) simp
next
  case False
  have "n div 10 < m" using assms(1) by (simp add: less_mult_imp_div_less mult.commute)
  then have "length (show_nat (n div 10)) \<le> k" by (rule assms(2))
  with False show ?thesis by (subst show_nat.simps) simp
qed

lemma length_show_nat_le: assumes "n < 10000" shows "length (show_nat n) \<le> 4"
proof -
  have 1: "length (show_nat j) \<le> Suc 0" if "j < 10" for j using that by (subst show_nat.simps) simp
  have 2: "length (show_nat j) \<le> Suc (Suc 0)" if "j < 100" for j
    by (rule length_show_nat_step [of j 10]) (use that 1 in simp_all)
  have 3: "length (show_nat j) \<le> Suc (Suc (Suc 0))" if "j < 1000" for j
    by (rule length_show_nat_step [of j 100]) (use that 2 in simp_all)
  have "length (show_nat n) \<le> Suc (Suc (Suc (Suc 0)))"
    by (rule length_show_nat_step [of n 1000]) (use assms 3 in simp_all)
  then show ?thesis by simp
qed

lemma suffix_ok:
  assumes "n < 10000"
  shows "length (padStart 4 CHR ''0'' (show_nat n)) = 4 \<and> list_all is_digit (padStart 4 CHR ''0'' (show_nat n))"
  using length_show_nat_le [OF assms] show_nat_digits [of n] by (auto simp: padStart_def is_digit_def list_all_iff)

text \<open>
  Manufactured names are legal names: whatever display name and address a provider sends, and
  whatever is drawn, every candidate username is made of lower-case letters, digits and underscores,
  has between 3 and 20 characters, and passes the pattern that register and claim demand.
\<close>

theorem manufactured_names_legal:
  assumes "\<forall>j. draw j < 10000"
  shows "slug_alphabet (usernameCandidate (usernameBase name email) draw k) \<and>
    username_ok (usernameCandidate (usernameBase name email) draw k) \<and>
    length (usernameCandidate (usernameBase name email) draw k) \<le> MAX_NAME"
proof (cases k)
  case 0
  then show ?thesis
    using usernameBase_ok [of name email] slug_username_ok by (simp add: usernameCandidate_def MAX_NAME_def)
next
  case (Suc j)
  let ?b = "usernameBase name email" and ?s = "padStart 4 CHR ''0'' (show_nat (draw j))"
  have s: "length ?s = 4" "list_all is_digit ?s" using suffix_ok assms by blast+
  have c: "usernameCandidate ?b draw k = take 15 ?b @ CHR ''_'' # ?s"
    using Suc s(1) by (simp add: usernameCandidate_def MAX_NAME_def)
  have "slug_alphabet (take 15 ?b @ CHR ''_'' # ?s)"
    using usernameBase_ok [of name email] s(2) slug_sub [of ?b "take 15 ?b"] set_take_subset
    by (auto simp: slug_alphabet_def list_all_iff is_slug_char_def dest: in_set_takeD)
  moreover have "3 \<le> length (take 15 ?b @ CHR ''_'' # ?s)" "length (take 15 ?b @ CHR ''_'' # ?s) \<le> 20" using s(1) by simp_all
  ultimately show ?thesis unfolding c using slug_username_ok by (simp add: MAX_NAME_def)
qed

theorem manufactured_names_legal_witness:
  "username_ok (usernameCandidate (usernameBase (Some ''Ada Lovelace'') None) (\<lambda>j. 42) 1)"
  using manufactured_names_legal [of "\<lambda>j. 42" "Some ''Ada Lovelace''" None 1] by simp

end
