(* ===== verification/Accounts.thy ===== *)
theory Accounts
  imports Guards Username
begin

text \<open>
  Accounts and sessions (auth/auth.service.ts, auth/guest-sweeper.service.ts). The tables are lists of
  rows with the schema's unique constraints checked by every write, a user's insert before that of
  a nested link, username before email. The tokenVersion column is the version table of the
  revocation model. Password hashing and the token lifetime are parameters, fresh identifiers are
  arguments, and a token is its claims (the signed string is the library's). Properties: the tables
  stay consistent, a provider identity never moves, a token is rotated at most once, a session does
  not outlive its cap, a password change ends every earlier session.
\<close>

subsection \<open>Tables\<close>

record user_row =
  us_id :: string
  us_username :: string
  us_email :: string
  us_password :: "string option"
  us_isGuest :: bool
  us_createdAt :: nat

record oauth_row =
  oa_provider :: string
  oa_account :: string
  oa_email :: "string option"
  oa_userId :: string

record accounts =
  ac_users :: "user_row list"
  ac_links :: "oauth_row list"
  ac_auth :: auth_db

datatype db_error = UniqueUsername | UniqueEmail | UniqueProvider

definition find_user :: "accounts \<Rightarrow> string \<Rightarrow> user_row option" where
  "find_user a i = List.find (\<lambda>u. us_id u = i) (ac_users a)"

definition find_username :: "accounts \<Rightarrow> string \<Rightarrow> user_row option" where
  "find_username a n = List.find (\<lambda>u. us_username u = n) (ac_users a)"

definition find_link :: "accounts \<Rightarrow> string \<Rightarrow> oauth_row option" where
  "find_link a subject = List.find (\<lambda>l. oa_provider l = ''google'' \<and> oa_account l = subject) (ac_links a)"

definition tokenVersion :: "accounts \<Rightarrow> string \<Rightarrow> nat" where
  "tokenVersion a i = ad_versions (ac_auth a) i"

text \<open>A row may be written when no other row holds its username or its email.\<close>

definition name_clash :: "accounts \<Rightarrow> user_row \<Rightarrow> db_error option" where
  "name_clash a row =
     (if list_ex (\<lambda>u. us_id u \<noteq> us_id row \<and> us_username u = us_username row) (ac_users a) then Some UniqueUsername
      else if list_ex (\<lambda>u. us_id u \<noteq> us_id row \<and> us_email u = us_email row) (ac_users a) then Some UniqueEmail
      else None)"

definition insert_user :: "accounts \<Rightarrow> user_row \<Rightarrow> db_error + accounts" where
  "insert_user a row = (case name_clash a row of
     Some e \<Rightarrow> Inl e
   | None \<Rightarrow> Inr (a\<lparr>ac_users := ac_users a @ [row],
       ac_auth := (ac_auth a)\<lparr>ad_versions := (ad_versions (ac_auth a))(us_id row := 0)\<rparr>\<rparr>))"

definition update_user :: "accounts \<Rightarrow> user_row \<Rightarrow> db_error + accounts" where
  "update_user a row = (case name_clash a row of
     Some e \<Rightarrow> Inl e
   | None \<Rightarrow> Inr (a\<lparr>ac_users := map (\<lambda>u. if us_id u = us_id row then row else u) (ac_users a)\<rparr>))"

definition insert_link :: "accounts \<Rightarrow> oauth_row \<Rightarrow> db_error + accounts" where
  "insert_link a l =
     (if list_ex (\<lambda>m. oa_provider m = oa_provider l \<and> oa_account m = oa_account l) (ac_links a) then Inl UniqueProvider
      else Inr (a\<lparr>ac_links := ac_links a @ [l]\<rparr>))"

text \<open>A write and its nested create are one transaction.\<close>

definition then_link :: "db_error + accounts \<Rightarrow> oauth_row \<Rightarrow> db_error + accounts" where
  "then_link r l = (case r of Inl e \<Rightarrow> Inl e | Inr a \<Rightarrow> insert_link a l)"

subsection \<open>Tokens\<close>

record auth_env =
  e_hash :: "string \<Rightarrow> string"
  e_compare :: "string \<Rightarrow> string \<Rightarrow> bool"
  e_life :: nat

record session_user =
  su_id :: string
  su_username :: string
  su_email :: string
  su_token :: token_payload

datatype auth_error =
    BadCredentials credential_error
  | UserExists
  | InvalidCredentials
  | NoGuestName
  | NoSuchSession
  | AgeLimit
  | SessionSignedOut
  | RefreshedElsewhere
  | LinkProviderTaken
  | LinkEmailTaken
  | LinkNotGuest
  | NameOrEmailTaken
  | NoFreeName
  | GoogleEmailTaken
  | PasswordTooShort
  | UserNotFound
  | DbError db_error

definition SESSION_MAX_S :: nat where "SESSION_MAX_S = 30 * 24 * 3600"
definition USERNAME_ATTEMPTS :: nat where "USERNAME_ATTEMPTS = 8"

definition now_s :: "accounts \<Rightarrow> nat" where
  "now_s a = ad_now (ac_auth a) div 1000"

definition is_nullish :: "jsval \<Rightarrow> bool" where
  "is_nullish v = (v = JUndef \<or> v = JNull)"

text \<open>\<^verbatim>\<open>x ?? y\<close>\<close>

definition coalesce :: "jsval \<Rightarrow> jsval \<Rightarrow> jsval" where
  "coalesce x y = (if is_nullish x then y else x)"

definition issueToken :: "auth_env \<Rightarrow> accounts \<Rightarrow> user_row \<Rightarrow> jsval \<Rightarrow> string \<Rightarrow> token_payload" where
  "issueToken env a u sessionStart jti =
     \<lparr>tp_sub = JStr (us_id u), tp_name = JStr (us_username u), tp_jti = JStr jti,
      tp_ver = JNum (Fin (real (tokenVersion a (us_id u)))),
      tp_sess = coalesce sessionStart (JNum (Fin (real (now_s a)))), tp_elev = JUndef,
      tp_iat = JNum (Fin (real (now_s a))), tp_exp = JNum (Fin (real (now_s a + e_life env)))\<rparr>"

definition session_for :: "auth_env \<Rightarrow> accounts \<Rightarrow> user_row \<Rightarrow> string \<Rightarrow> session_user" where
  "session_for env a u jti =
     \<lparr>su_id = us_id u, su_username = us_username u, su_email = us_email u, su_token = issueToken env a u JUndef jti\<rparr>"

subsection \<open>Passwords and guests\<close>

definition register ::
  "auth_env \<Rightarrow> accounts \<Rightarrow> string \<Rightarrow> string \<Rightarrow> string \<Rightarrow> string \<Rightarrow> string \<Rightarrow> accounts \<times> (auth_error + session_user)" where
  "register env a username email password uid jti = (case credentialsOrThrow username email password of
     Inl e \<Rightarrow> (a, Inl (BadCredentials e))
   | Inr (n, m) \<Rightarrow>
       if list_ex (\<lambda>u. us_username u = n \<or> us_email u = m) (ac_users a) then (a, Inl UserExists)
       else (let row = \<lparr>us_id = uid, us_username = n, us_email = m, us_password = Some (e_hash env password),
               us_isGuest = False, us_createdAt = ad_now (ac_auth a)\<rparr> in
         case insert_user a row of Inl e \<Rightarrow> (a, Inl (DbError e)) | Inr a' \<Rightarrow> (a', Inr (session_for env a' row jti))))"

definition login ::
  "auth_env \<Rightarrow> accounts \<Rightarrow> string \<Rightarrow> string \<Rightarrow> string \<Rightarrow> auth_error + session_user" where
  "login env a username password jti = (case find_username a username of
     None \<Rightarrow> Inl InvalidCredentials
   | Some u \<Rightarrow>
       if \<not> truthy (us_password u) then Inl InvalidCredentials
       else if \<not> e_compare env password (nullish (us_password u) []) then Inl InvalidCredentials
       else Inr (session_for env a u jti))"

text \<open>
  The three loops over manufactured names: draw again on a taken username, stop on any other error,
  give up after a fixed number of attempts (\<^term>\<open>Inl None\<close>).
\<close>

fun try_names :: "(nat \<Rightarrow> db_error + 'a) \<Rightarrow> nat \<Rightarrow> nat \<Rightarrow> db_error option + 'a" where
  "try_names f k 0 = Inl None"
| "try_names f k (Suc n) = (case f k of
     Inr x \<Rightarrow> Inr x
   | Inl UniqueUsername \<Rightarrow> try_names f (Suc k) n
   | Inl e \<Rightarrow> Inl (Some e))"

definition createGuest ::
  "auth_env \<Rightarrow> accounts \<Rightarrow> (nat \<Rightarrow> nat) \<Rightarrow> (nat \<Rightarrow> string) \<Rightarrow> string \<Rightarrow> string \<Rightarrow> accounts \<times> (auth_error + session_user)" where
  "createGuest env a draw uuid uid jti =
     (let row = (\<lambda>k. \<lparr>us_id = uid, us_username = usernameCandidate ''guest'' draw k, us_email = uuid k @ ''@guest.invalid'',
            us_password = None, us_isGuest = True, us_createdAt = ad_now (ac_auth a)\<rparr>)
      in case try_names (\<lambda>k. case insert_user a (row k) of Inl e \<Rightarrow> Inl e | Inr a' \<Rightarrow> Inr (a', row k)) 0 USERNAME_ATTEMPTS of
           Inr (a', r) \<Rightarrow> (a', Inr (session_for env a' r jti))
         | Inl None \<Rightarrow> (a, Inl NoGuestName)
         | Inl (Some e) \<Rightarrow> (a, Inl (DbError e)))"

definition verifyPassword :: "auth_env \<Rightarrow> accounts \<Rightarrow> string \<Rightarrow> string \<Rightarrow> bool" where
  "verifyPassword env a i password = (case find_user a i of
     None \<Rightarrow> False
   | Some u \<Rightarrow> truthy (us_password u) \<and> e_compare env password (nullish (us_password u) []))"

definition hasLink :: "accounts \<Rightarrow> string \<Rightarrow> bool" where
  "hasLink a i = list_ex (\<lambda>l. oa_userId l = i) (ac_links a)"

definition hasGoogleLink :: "accounts \<Rightarrow> string \<Rightarrow> bool" where
  "hasGoogleLink a i = list_ex (\<lambda>l. oa_userId l = i \<and> oa_provider l = ''google'') (ac_links a)"

datatype reauth = ReauthPassword | ReauthGoogle

definition reauthMethodFor :: "accounts \<Rightarrow> string \<Rightarrow> reauth option" where
  "reauthMethodFor a i = (case find_user a i of
     None \<Rightarrow> None
   | Some u \<Rightarrow> if truthy (us_password u) then Some ReauthPassword else if hasLink a i then Some ReauthGoogle else None)"

record me_view =
  me_id :: string
  me_username :: string
  me_email :: string
  me_tokenVersion :: nat
  me_isGuest :: bool
  me_hasPassword :: bool
  me_googleLinked :: bool

definition me :: "accounts \<Rightarrow> string \<Rightarrow> auth_error + me_view" where
  "me a i = (case find_user a i of
     None \<Rightarrow> Inl UserNotFound
   | Some u \<Rightarrow> Inr \<lparr>me_id = us_id u, me_username = us_username u, me_email = us_email u, me_tokenVersion = tokenVersion a i,
       me_isGuest = us_isGuest u, me_hasPassword = (us_password u \<noteq> None), me_googleLinked = hasLink a i\<rparr>)"

text \<open>One write sets the hash and raises the version; then the bump is remembered and announced.\<close>

definition setPassword ::
  "auth_env \<Rightarrow> accounts \<Rightarrow> revocation \<Rightarrow> string \<Rightarrow> string \<Rightarrow> string \<Rightarrow>
   accounts \<times> revocation \<times> (auth_error + session_user)" where
  "setPassword env a rv i newPassword jti =
     (if length newPassword < 8 then (a, rv, Inl PasswordTooShort)
      else (case find_user a i of
          None \<Rightarrow> (a, rv, Inl NoSuchSession)
        | Some u \<Rightarrow>
            (let row = u\<lparr>us_password := Some (e_hash env newPassword)\<rparr>; v = tokenVersion a i + 1;
                 a' = a\<lparr>ac_users := map (\<lambda>w. if us_id w = i then row else w) (ac_users a),
                        ac_auth := (ac_auth a)\<lparr>ad_versions := (ad_versions (ac_auth a))(i := v)\<rparr>\<rparr>
             in (a', fst (noteVersionBumped rv i v), Inr (session_for env a' row jti)))))"

definition mintElevatedToken :: "accounts \<Rightarrow> string \<Rightarrow> string \<Rightarrow> auth_error + token_payload" where
  "mintElevatedToken a i jti = (case find_user a i of
     None \<Rightarrow> Inl NoSuchSession
   | Some u \<Rightarrow> Inr \<lparr>tp_sub = JStr (us_id u), tp_name = JStr (us_username u), tp_jti = JStr jti,
       tp_ver = JNum (Fin (real (tokenVersion a i))), tp_sess = JUndef, tp_elev = JStr ''reauth'',
       tp_iat = JNum (Fin (real (now_s a))), tp_exp = JNum (Fin (real (now_s a + 300)))\<rparr>)"

definition claimGuestAccount ::
  "auth_env \<Rightarrow> accounts \<Rightarrow> string \<Rightarrow> string \<Rightarrow> string \<Rightarrow> string \<Rightarrow> string \<Rightarrow> accounts \<times> (auth_error + session_user)" where
  "claimGuestAccount env a i username email password jti = (case credentialsOrThrow username email password of
     Inl e \<Rightarrow> (a, Inl (BadCredentials e))
   | Inr (n, m) \<Rightarrow>
       (case find_user a i of
          None \<Rightarrow> (a, Inl NoSuchSession)
        | Some u \<Rightarrow>
            if \<not> us_isGuest u then (a, Inl LinkNotGuest)
            else if list_ex (\<lambda>w. us_id w \<noteq> i \<and> (us_username w = n \<or> us_email w = m)) (ac_users a)
            then (a, Inl NameOrEmailTaken)
            else (let row = u\<lparr>us_username := n, us_email := m, us_password := Some (e_hash env password), us_isGuest := False\<rparr> in
              case update_user a row of
                Inl e \<Rightarrow> (a, Inl NameOrEmailTaken)
              | Inr a' \<Rightarrow> (a', Inr (session_for env a' row jti)))))"

subsection \<open>Refresh\<close>

definition num_of :: "jsval \<Rightarrow> jsnum" where
  "num_of v = (case v of JNum x \<Rightarrow> x | JStr s \<Rightarrow> js_Number s | JNull \<Rightarrow> 0 | _ \<Rightarrow> NaN)"

definition session_start :: "accounts \<Rightarrow> token_payload \<Rightarrow> jsval" where
  "session_start a p = coalesce (tp_sess p) (coalesce (tp_iat p) (JNum (Fin (real (now_s a)))))"

text \<open>The reads, up to the rotation.\<close>

definition refresh_check :: "accounts \<Rightarrow> token_payload \<Rightarrow> auth_error + user_row" where
  "refresh_check a p = (case subjectOf p of
     None \<Rightarrow> Inl NoSuchSession
   | Some i \<Rightarrow>
       if Fin (real SESSION_MAX_S) < Fin (real (now_s a)) - num_of (session_start a p) then Inl AgeLimit
       else (case find_user a i of
           None \<Rightarrow> Inl NoSuchSession
         | Some u \<Rightarrow>
             if (case versionOf p of None \<Rightarrow> True | Some c \<Rightarrow> c < tokenVersion a i) then Inl SessionSignedOut
             else if (case tp_jti p of JStr j \<Rightarrow> j \<noteq> [] \<and> isJtiRevokedDurable (ac_auth a) j | _ \<Rightarrow> False) then Inl SessionSignedOut
             else Inr u))"

definition expiry_ms :: "accounts \<Rightarrow> token_payload \<Rightarrow> nat" where
  "expiry_ms a p = nat \<lfloor>1000 * fin_val (num_of (coalesce (tp_exp p) (JNum (Fin (real (now_s a + 43200))))))\<rfloor>"

text \<open>The rotation and the new token.\<close>

definition refresh_rotate ::
  "auth_env \<Rightarrow> accounts \<Rightarrow> revocation \<Rightarrow> token_payload \<Rightarrow> user_row \<Rightarrow> jsval \<Rightarrow> string \<Rightarrow>
   accounts \<times> revocation \<times> (auth_error + session_user)" where
  "refresh_rotate env a rv p u start jti =
     (let fresh = \<lparr>su_id = us_id u, su_username = us_username u, su_email = [], su_token = issueToken env a u start jti\<rparr> in
      case tp_jti p of
        JStr j \<Rightarrow>
          if j = [] then (a, rv, Inr fresh)
          else (let (db', rv', ev, won) = claimRevocation (ac_auth a) rv j (us_id u) (expiry_ms a p) in
            (a\<lparr>ac_auth := db'\<rparr>, rv', if won then Inr fresh else Inl RefreshedElsewhere))
      | _ \<Rightarrow> (a, rv, Inr fresh))"

definition refreshSession ::
  "auth_env \<Rightarrow> accounts \<Rightarrow> revocation \<Rightarrow> token_payload \<Rightarrow> string \<Rightarrow> accounts \<times> revocation \<times> (auth_error + session_user)" where
  "refreshSession env a rv p jti = (case refresh_check a p of
     Inl e \<Rightarrow> (a, rv, Inl e)
   | Inr u \<Rightarrow> refresh_rotate env a rv p u (session_start a p) jti)"

subsection \<open>Google\<close>

record google_identity =
  gi_subject :: string
  gi_email :: string
  gi_name :: "string option"

definition googleSubjectOwner :: "accounts \<Rightarrow> string \<Rightarrow> string option" where
  "googleSubjectOwner a subject = map_option oa_userId (find_link a subject)"

definition google_link :: "string \<Rightarrow> string option \<Rightarrow> string \<Rightarrow> oauth_row" where
  "google_link subject email i = \<lparr>oa_provider = ''google'', oa_account = subject, oa_email = email, oa_userId = i\<rparr>"

definition linkGoogleToFull ::
  "auth_env \<Rightarrow> accounts \<Rightarrow> string \<Rightarrow> google_identity \<Rightarrow> string \<Rightarrow> accounts \<times> (auth_error + session_user)" where
  "linkGoogleToFull env a i ident jti = (case find_user a i of
     None \<Rightarrow> (a, Inl NoSuchSession)
   | Some u \<Rightarrow>
       (case googleSubjectOwner a (gi_subject ident) of
          Some owner \<Rightarrow> (a, if owner \<noteq> i then Inl LinkProviderTaken else Inr (session_for env a u jti))
        | None \<Rightarrow>
            (case insert_link a (google_link (gi_subject ident) None i) of
               Inl e \<Rightarrow> (a, if googleSubjectOwner a (gi_subject ident) = Some i then Inr (session_for env a u jti)
                            else Inl LinkProviderTaken)
             | Inr a' \<Rightarrow> (a', Inr (session_for env a' u jti)))))"

definition linkGoogleToGuest ::
  "auth_env \<Rightarrow> accounts \<Rightarrow> string \<Rightarrow> google_identity \<Rightarrow> (nat \<Rightarrow> nat) \<Rightarrow> string \<Rightarrow> accounts \<times> (auth_error + session_user)" where
  "linkGoogleToGuest env a i ident draw jti = (case find_user a i of
     None \<Rightarrow> (a, Inl NoSuchSession)
   | Some u \<Rightarrow>
       if \<not> us_isGuest u then (a, Inl LinkNotGuest)
       else
         (let email = toLowerCase (trim (gi_email ident));
              base = usernameBase (gi_name ident) (Some email);
              row = (\<lambda>k. u\<lparr>us_username := usernameCandidate base draw k, us_email := email, us_isGuest := False\<rparr>)
          in if (case googleSubjectOwner a (gi_subject ident) of None \<Rightarrow> False | Some owner \<Rightarrow> owner \<noteq> i)
             then (a, Inl LinkProviderTaken)
             else if list_ex (\<lambda>w. us_id w \<noteq> i \<and> us_email w = email) (ac_users a) then (a, Inl LinkEmailTaken)
             else (case try_names (\<lambda>k. case then_link (update_user a (row k)) (google_link (gi_subject ident) None i) of
                 Inl e \<Rightarrow> Inl e | Inr a' \<Rightarrow> Inr (a', row k)) 0 USERNAME_ATTEMPTS of
               Inr (a', r) \<Rightarrow> (a', Inr (session_for env a' r jti))
             | Inl None \<Rightarrow> (a, Inl NoFreeName)
             | Inl (Some UniqueProvider) \<Rightarrow> (a, Inl LinkProviderTaken)
             | Inl (Some UniqueEmail) \<Rightarrow> (a, Inl LinkEmailTaken)
             | Inl (Some e) \<Rightarrow> (a, Inl (DbError e)))))"

definition findLinkedUser :: "auth_env \<Rightarrow> accounts \<Rightarrow> string \<Rightarrow> string \<Rightarrow> session_user option" where
  "findLinkedUser env a subject jti = (case googleSubjectOwner a subject of
     None \<Rightarrow> None | Some i \<Rightarrow> map_option (\<lambda>u. session_for env a u jti) (find_user a i))"

definition createGoogleUser ::
  "auth_env \<Rightarrow> accounts \<Rightarrow> google_identity \<Rightarrow> string \<Rightarrow> (nat \<Rightarrow> nat) \<Rightarrow> string \<Rightarrow> string \<Rightarrow>
   accounts \<times> (auth_error + session_user)" where
  "createGoogleUser env a ident email draw uid jti =
     (let base = usernameBase (gi_name ident) (Some email);
          row = (\<lambda>k. \<lparr>us_id = uid, us_username = usernameCandidate base draw k, us_email = email, us_password = None,
            us_isGuest = False, us_createdAt = ad_now (ac_auth a)\<rparr>)
      in case try_names (\<lambda>k. case then_link (insert_user a (row k)) (google_link (gi_subject ident) (Some email) uid) of
             Inl e \<Rightarrow> Inl e | Inr a' \<Rightarrow> Inr (a', row k)) 0 USERNAME_ATTEMPTS of
           Inr (a', r) \<Rightarrow> (a', Inr (session_for env a' r jti))
         | Inl None \<Rightarrow> (a, Inl NoFreeName)
         | Inl (Some UniqueProvider) \<Rightarrow> (a, case findLinkedUser env a (gi_subject ident) jti of
               Some w \<Rightarrow> Inr w | None \<Rightarrow> Inl (DbError UniqueProvider))
         | Inl (Some UniqueEmail) \<Rightarrow> (a, Inl GoogleEmailTaken)
         | Inl (Some e) \<Rightarrow> (a, Inl (DbError e)))"

definition signInWithGoogle ::
  "auth_env \<Rightarrow> accounts \<Rightarrow> google_identity \<Rightarrow> (nat \<Rightarrow> nat) \<Rightarrow> string \<Rightarrow> string \<Rightarrow> accounts \<times> (auth_error + session_user)" where
  "signInWithGoogle env a ident draw uid jti =
     (let email = toLowerCase (trim (gi_email ident)) in
      case findLinkedUser env a (gi_subject ident) jti of
        Some s \<Rightarrow> (a, Inr s)
      | None \<Rightarrow>
          if list_ex (\<lambda>u. toLowerCase (us_email u) = email) (ac_users a) then (a, Inl GoogleEmailTaken)
          else createGoogleUser env a ident email draw uid jti)"

subsection \<open>Sweeping guests\<close>

definition GUEST_TTL_MS :: nat where "GUEST_TTL_MS = 7 * 24 * 60 * 60 * 1000"

text \<open>
  The users deleted are old guests without a trace: \<open>traces\<close> are those with a room, a participation or
  a message. Links and revocation rows of a deleted user go with it.
\<close>

definition swept :: "accounts \<Rightarrow> string list \<Rightarrow> nat \<Rightarrow> user_row \<Rightarrow> bool" where
  "swept a traces now u = (us_isGuest u \<and> us_createdAt u + GUEST_TTL_MS < now \<and> us_id u \<notin> set traces)"

definition sweep_guests :: "accounts \<Rightarrow> string list \<Rightarrow> nat \<Rightarrow> accounts \<times> nat" where
  "sweep_guests a traces now =
     (let gone = map us_id (filter (swept a traces now) (ac_users a)) in
      (a\<lparr>ac_users := filter (\<lambda>u. us_id u \<notin> set gone) (ac_users a),
         ac_links := filter (\<lambda>l. oa_userId l \<notin> set gone) (ac_links a),
         ac_auth := (ac_auth a)\<lparr>ad_revoked := (\<lambda>j. case ad_revoked (ac_auth a) j of
           None \<Rightarrow> None | Some r \<Rightarrow> if rv_userId r \<in> set gone then None else Some r)\<rparr>\<rparr>, length gone))"

subsection \<open>Consistency of the tables\<close>

definition uniq_ok :: "accounts \<Rightarrow> bool" where
  "uniq_ok a = (distinct (map us_id (ac_users a)) \<and> distinct (map us_username (ac_users a)) \<and>
     distinct (map us_email (ac_users a)) \<and> distinct (map (\<lambda>l. (oa_provider l, oa_account l)) (ac_links a)))"

definition links_ok :: "accounts \<Rightarrow> bool" where
  "links_ok a = (\<forall>l \<in> set (ac_links a). oa_userId l \<in> us_id ` set (ac_users a))"

text \<open>Somebody can come back to every account that is not a guest's.\<close>

definition signable :: "accounts \<Rightarrow> user_row \<Rightarrow> bool" where
  "signable a u = (us_isGuest u \<or> us_password u \<noteq> None \<or> hasLink a (us_id u))"

definition accounts_ok :: "accounts \<Rightarrow> bool" where
  "accounts_ok a = (uniq_ok a \<and> links_ok a \<and> (\<forall>u \<in> set (ac_users a). signable a u))"

lemma distinct_map_replace:
  assumes "distinct (map f xs)" "distinct (map g xs)" "\<And>x. x \<in> set xs \<Longrightarrow> f x \<noteq> f r \<Longrightarrow> g x \<noteq> g r"
  shows "distinct (map g (map (\<lambda>x. if f x = f r then r else x) xs))"
  using assms
proof (induction xs)
  case (Cons x xs)
  let ?rep = "\<lambda>x. if f x = f r then r else x"
  have IH: "distinct (map g (map ?rep xs))" using Cons by auto
  have "g (?rep x) \<noteq> g (?rep y)" if "y \<in> set xs" for y
  proof -
    have "f y \<noteq> f x" "g y \<noteq> g x" using Cons.prems(1,2) that by (metis distinct.simps(2) image_eqI list.set_map list.simps(9))+
    then show ?thesis using Cons.prems(3) that by (metis list.set_intros(1) list.set_intros(2))
  qed
  then show ?case using IH by (auto simp: image_iff)
qed simp

lemma name_clash_None:
  "name_clash a row = None \<longleftrightarrow>
   (\<forall>u \<in> set (ac_users a). us_id u \<noteq> us_id row \<longrightarrow> us_username u \<noteq> us_username row \<and> us_email u \<noteq> us_email row)"
  by (auto simp: name_clash_def list_ex_iff)

lemma insert_user_Inr:
  assumes "insert_user a row = Inr a'" "us_id row \<notin> us_id ` set (ac_users a)" "uniq_ok a" "links_ok a"
  shows "uniq_ok a' \<and> links_ok a' \<and> ac_users a' = ac_users a @ [row] \<and> ac_links a' = ac_links a"
proof -
  have nc: "name_clash a row = None" and a': "ac_users a' = ac_users a @ [row]" "ac_links a' = ac_links a"
    using assms(1) by (auto simp: insert_user_def split: option.splits)
  have other: "us_username u \<noteq> us_username row \<and> us_email u \<noteq> us_email row" if "u \<in> set (ac_users a)" for u
  proof -
    have "us_id u \<noteq> us_id row" using that assms(2) by (auto simp: image_iff)
    then show ?thesis using nc that unfolding name_clash_None by blast
  qed
  have "us_username row \<notin> us_username ` set (ac_users a)" by (rule notI, erule imageE) (use other in metis)
  moreover have "us_email row \<notin> us_email ` set (ac_users a)" by (rule notI, erule imageE) (use other in metis)
  ultimately show ?thesis using a' assms(2-4) by (auto simp: uniq_ok_def links_ok_def)
qed

lemma find_user_Some: "find_user a i = Some u \<Longrightarrow> u \<in> set (ac_users a) \<and> us_id u = i"
  by (auto simp: find_user_def find_Some_iff)

lemma update_user_Inr:
  assumes "update_user a row = Inr a'" "us_id row \<in> us_id ` set (ac_users a)" "uniq_ok a" "links_ok a"
  shows "uniq_ok a' \<and> links_ok a' \<and> ac_users a' = map (\<lambda>u. if us_id u = us_id row then row else u) (ac_users a) \<and>
    ac_links a' = ac_links a \<and> map us_id (ac_users a') = map us_id (ac_users a)"
proof -
  have nc: "name_clash a row = None"
    and a': "a' = a\<lparr>ac_users := map (\<lambda>u. if us_id u = us_id row then row else u) (ac_users a)\<rparr>"
    using assms(1) by (auto simp: update_user_def split: option.splits)
  have ids: "map us_id (ac_users a') = map us_id (ac_users a)" by (auto simp: a')
  have "distinct (map us_username (ac_users a'))" "distinct (map us_email (ac_users a'))"
    using assms(3) nc distinct_map_replace [of us_id "ac_users a" us_username row] distinct_map_replace [of us_id "ac_users a" us_email row]
    by (auto simp: a' uniq_ok_def name_clash_None)
  moreover have "us_id ` set (ac_users a') = us_id ` set (ac_users a)" using ids by (metis list.set_map)
  moreover have "ac_links a' = ac_links a" by (simp add: a')
  ultimately have "uniq_ok a'" "links_ok a'" using ids assms(3,4) unfolding uniq_ok_def links_ok_def by simp_all
  then show ?thesis using ids by (simp add: a')
qed

lemma insert_link_Inr:
  assumes "insert_link a l = Inr a'" "oa_userId l \<in> us_id ` set (ac_users a)" "uniq_ok a" "links_ok a"
  shows "uniq_ok a' \<and> links_ok a' \<and> ac_users a' = ac_users a \<and> ac_links a' = ac_links a @ [l]"
proof -
  have a': "a' = a\<lparr>ac_links := ac_links a @ [l]\<rparr>"
    and "\<And>m. m \<in> set (ac_links a) \<Longrightarrow> (oa_provider m, oa_account m) \<noteq> (oa_provider l, oa_account l)"
    using assms(1) by (auto simp: insert_link_def list_ex_iff split: if_splits)
  then have "(oa_provider l, oa_account l) \<notin> (\<lambda>l. (oa_provider l, oa_account l)) ` set (ac_links a)" by fastforce
  then show ?thesis using assms(2-4) by (simp add: a' uniq_ok_def links_ok_def)
qed

lemma then_link_Inr:
  assumes "then_link r l = Inr a'"
  obtains a1 where "r = Inr a1" "insert_link a1 l = Inr a'"
  using assms by (auto simp: then_link_def split: sum.splits)

lemma try_names_Inr: "try_names f k n = Inr x \<Longrightarrow> \<exists>j. f j = Inr x"
  by (induction f k n rule: try_names.induct) (auto split: sum.splits db_error.splits)

text \<open>What survives any growth of the link table.\<close>

lemma signable_mono: "signable a u \<Longrightarrow> ac_links a' = ac_links a @ ls \<Longrightarrow> signable a' u"
  by (auto simp: signable_def hasLink_def)

lemma accounts_ok_insert:
  assumes "accounts_ok a" "insert_user a row = Inr a'" "us_id row \<notin> us_id ` set (ac_users a)" "us_isGuest row \<or> us_password row \<noteq> None"
  shows "accounts_ok a'"
  using insert_user_Inr [OF assms(2,3)] assms(1,4) signable_mono [of a _ a' "[]"]
  by (auto simp: accounts_ok_def signable_def)

lemma accounts_ok_update:
  assumes "accounts_ok a" "update_user a row = Inr a'" "us_id row \<in> us_id ` set (ac_users a)" "us_isGuest row \<or> us_password row \<noteq> None"
  shows "accounts_ok a'"
  using update_user_Inr [OF assms(2,3)] assms(1,4) signable_mono [of a _ a' "[]"]
  by (auto simp: accounts_ok_def signable_def)

lemma accounts_ok_link:
  assumes "accounts_ok a" "insert_link a l = Inr a'" "oa_userId l \<in> us_id ` set (ac_users a)"
  shows "accounts_ok a'"
  using insert_link_Inr [OF assms(2,3)] assms(1) signable_mono [of a _ a' "[l]"] by (auto simp: accounts_ok_def)

lemma accounts_ok_insert_link:
  assumes "accounts_ok a" "then_link (insert_user a row) (google_link sub e (us_id row)) = Inr a'" "us_id row \<notin> us_id ` set (ac_users a)"
  shows "accounts_ok a'"
proof -
  obtain a1 where a1: "insert_user a row = Inr a1" "insert_link a1 (google_link sub e (us_id row)) = Inr a'"
    using assms(2) by (rule then_link_Inr)
  have ok1: "uniq_ok a1 \<and> links_ok a1 \<and> ac_users a1 = ac_users a @ [row] \<and> ac_links a1 = ac_links a"
    using insert_user_Inr [OF a1(1) assms(3)] assms(1) by (simp add: accounts_ok_def)
  then have ok2: "uniq_ok a' \<and> links_ok a' \<and> ac_users a' = ac_users a1 \<and> ac_links a' = ac_links a1 @ [google_link sub e (us_id row)]"
    using insert_link_Inr [OF a1(2)] by (simp add: google_link_def)
  have "signable a' row" using ok2 by (simp add: signable_def hasLink_def google_link_def)
  then show ?thesis using ok1 ok2 assms(1) signable_mono [of a _ a' "[google_link sub e (us_id row)]"]
    by (auto simp: accounts_ok_def)
qed

lemma accounts_ok_update_link:
  assumes "accounts_ok a" "then_link (update_user a row) (google_link sub e (us_id row)) = Inr a'" "us_id row \<in> us_id ` set (ac_users a)"
  shows "accounts_ok a'"
proof -
  obtain a1 where a1: "update_user a row = Inr a1" "insert_link a1 (google_link sub e (us_id row)) = Inr a'"
    using assms(2) by (rule then_link_Inr)
  have ok1: "uniq_ok a1 \<and> links_ok a1 \<and> ac_users a1 = map (\<lambda>u. if us_id u = us_id row then row else u) (ac_users a) \<and>
      ac_links a1 = ac_links a \<and> map us_id (ac_users a1) = map us_id (ac_users a)"
    using update_user_Inr [OF a1(1) assms(3)] assms(1) by (simp add: accounts_ok_def)
  have "us_id row \<in> us_id ` set (ac_users a1)" using ok1 assms(3) by (metis list.set_map)
  then have ok2: "uniq_ok a' \<and> links_ok a' \<and> ac_users a' = ac_users a1 \<and> ac_links a' = ac_links a1 @ [google_link sub e (us_id row)]"
    using insert_link_Inr [OF a1(2)] ok1 by (simp add: google_link_def)
  have "signable a' row" using ok2 by (simp add: signable_def hasLink_def google_link_def)
  then show ?thesis using ok1 ok2 assms(1) signable_mono [of a _ a' "[google_link sub e (us_id row)]"]
    by (auto simp: accounts_ok_def)
qed

subsection \<open>Runs\<close>

datatype auth_op =
    ARegister string string string string string
  | AGuest "nat \<Rightarrow> nat" "nat \<Rightarrow> string" string string
  | ARefresh token_payload string
  | ASetPassword string string string
  | AClaim string string string string string
  | ALinkFull string google_identity string
  | ALinkGuest string google_identity "nat \<Rightarrow> nat" string
  | AGoogle google_identity "nat \<Rightarrow> nat" string string
  | ARevoke string string nat
  | ARevokeAll string
  | ASweepRevoked
  | ASweepGuests "string list" nat
  | ATime nat

fun auth_step :: "auth_env \<Rightarrow> accounts \<times> revocation \<Rightarrow> auth_op \<Rightarrow> accounts \<times> revocation" where
  "auth_step env (a, rv) (ARegister n m p uid jti) = (fst (register env a n m p uid jti), rv)"
| "auth_step env (a, rv) (AGuest draw uuid uid jti) = (fst (createGuest env a draw uuid uid jti), rv)"
| "auth_step env (a, rv) (ARefresh p jti) = (let (a', rv', r) = refreshSession env a rv p jti in (a', rv'))"
| "auth_step env (a, rv) (ASetPassword i p jti) = (let (a', rv', r) = setPassword env a rv i p jti in (a', rv'))"
| "auth_step env (a, rv) (AClaim i n m p jti) = (fst (claimGuestAccount env a i n m p jti), rv)"
| "auth_step env (a, rv) (ALinkFull i g jti) = (fst (linkGoogleToFull env a i g jti), rv)"
| "auth_step env (a, rv) (ALinkGuest i g draw jti) = (fst (linkGoogleToGuest env a i g draw jti), rv)"
| "auth_step env (a, rv) (AGoogle g draw uid jti) = (fst (signInWithGoogle env a g draw uid jti), rv)"
| "auth_step env (a, rv) (ARevoke j u ex) =
     (let (db, rv', ev) = revokeToken (ac_auth a) rv j u ex in (a\<lparr>ac_auth := db\<rparr>, rv'))"
| "auth_step env (a, rv) (ARevokeAll u) =
     (let (db, rv', ev, v) = revokeAllForUser (ac_auth a) rv u in (a\<lparr>ac_auth := db\<rparr>, rv'))"
| "auth_step env (a, rv) ASweepRevoked = (a\<lparr>ac_auth := sweep_revoked (ac_auth a)\<rparr>, rv)"
| "auth_step env (a, rv) (ASweepGuests traces now) = (fst (sweep_guests a traces now), rv)"
| "auth_step env (a, rv) (ATime dt) = (a\<lparr>ac_auth := (ac_auth a)\<lparr>ad_now := ad_now (ac_auth a) + dt\<rparr>\<rparr>, rv)"

text \<open>A new row's identifier is new.\<close>

fun fresh_op :: "accounts \<Rightarrow> auth_op \<Rightarrow> bool" where
  "fresh_op a (ARegister n m p uid jti) = (uid \<notin> us_id ` set (ac_users a))"
| "fresh_op a (AGuest draw uuid uid jti) = (uid \<notin> us_id ` set (ac_users a))"
| "fresh_op a (AGoogle g draw uid jti) = (uid \<notin> us_id ` set (ac_users a))"
| "fresh_op a _ = True"

fun fresh_run :: "auth_env \<Rightarrow> accounts \<times> revocation \<Rightarrow> auth_op list \<Rightarrow> bool" where
  "fresh_run env s [] = True"
| "fresh_run env s (p # ps) = (fresh_op (fst s) p \<and> fresh_run env (auth_step env s p) ps)"

definition auth_run :: "auth_env \<Rightarrow> accounts \<times> revocation \<Rightarrow> auth_op list \<Rightarrow> accounts \<times> revocation" where
  "auth_run env = foldl (auth_step env)"

lemma register_ok: "accounts_ok a \<Longrightarrow> uid \<notin> us_id ` set (ac_users a) \<Longrightarrow> accounts_ok (fst (register env a n m p uid jti))"
  by (auto simp: register_def Let_def split: sum.splits intro: accounts_ok_insert)

lemma createGuest_ok:
  assumes "accounts_ok a" "uid \<notin> us_id ` set (ac_users a)"
  shows "accounts_ok (fst (createGuest env a draw uuid uid jti))"
proof (rule ccontr)
  assume bad: "\<not> accounts_ok (fst (createGuest env a draw uuid uid jti))"
  let ?row = "\<lambda>k. \<lparr>us_id = uid, us_username = usernameCandidate ''guest'' draw k, us_email = uuid k @ ''@guest.invalid'',
    us_password = None, us_isGuest = True, us_createdAt = ad_now (ac_auth a)\<rparr>"
  have "accounts_ok a'" if "insert_user a (?row k) = Inr a'" for k a'
    using accounts_ok_insert [OF assms(1) that] assms(2) by simp
  then show False using bad assms(1)
    by (auto simp: createGuest_def Let_def split: sum.splits option.splits dest!: try_names_Inr)
qed

lemma claim_ok: "accounts_ok a \<Longrightarrow> accounts_ok (fst (claimGuestAccount env a i n m p jti))"
  by (auto simp: claimGuestAccount_def Let_def split: sum.splits option.splits dest!: find_user_Some
      intro: accounts_ok_update)

lemma linkFull_ok: "accounts_ok a \<Longrightarrow> accounts_ok (fst (linkGoogleToFull env a i g jti))"
  by (auto simp: linkGoogleToFull_def split: sum.splits option.splits dest!: find_user_Some
      elim!: accounts_ok_link simp: google_link_def)

lemma linkGuest_ok:
  assumes "accounts_ok a"
  shows "accounts_ok (fst (linkGoogleToGuest env a i g draw jti))"
proof (rule ccontr)
  assume bad: "\<not> accounts_ok (fst (linkGoogleToGuest env a i g draw jti))"
  then obtain u where u: "find_user a i = Some u" "us_isGuest u"
    using assms by (cases "find_user a i") (auto simp: linkGoogleToGuest_def split: if_splits)
  let ?m = "toLowerCase (trim (gi_email g))"
  let ?row = "\<lambda>k. u\<lparr>us_username := usernameCandidate (usernameBase (gi_name g) (Some ?m)) draw k, us_email := ?m, us_isGuest := False\<rparr>"
  have "us_id u = i" "i \<in> us_id ` set (ac_users a)" using find_user_Some [OF u(1)] by auto
  then have "accounts_ok a'" if "then_link (update_user a (?row k)) (google_link (gi_subject g) None i) = Inr a'" for k a'
    using accounts_ok_update_link [OF assms, of "?row k"] that by simp
  then show False using bad assms u
    by (auto simp: linkGoogleToGuest_def Let_def split: if_splits sum.splits option.splits db_error.splits dest!: try_names_Inr)
qed

lemma createGoogle_ok:
  assumes "accounts_ok a" "uid \<notin> us_id ` set (ac_users a)"
  shows "accounts_ok (fst (createGoogleUser env a g m draw uid jti))"
proof (rule ccontr)
  assume bad: "\<not> accounts_ok (fst (createGoogleUser env a g m draw uid jti))"
  let ?row = "\<lambda>k. \<lparr>us_id = uid, us_username = usernameCandidate (usernameBase (gi_name g) (Some m)) draw k, us_email = m,
    us_password = None, us_isGuest = False, us_createdAt = ad_now (ac_auth a)\<rparr>"
  have "accounts_ok a'" if "then_link (insert_user a (?row k)) (google_link (gi_subject g) (Some m) uid) = Inr a'" for k a'
    using accounts_ok_insert_link [OF assms(1), of "?row k"] that assms(2) by simp
  then show False using bad assms
    by (auto simp: createGoogleUser_def Let_def split: sum.splits option.splits db_error.splits dest!: try_names_Inr)
qed

lemma google_ok: "accounts_ok a \<Longrightarrow> uid \<notin> us_id ` set (ac_users a) \<Longrightarrow> accounts_ok (fst (signInWithGoogle env a g draw uid jti))"
  by (auto simp: signInWithGoogle_def Let_def createGoogle_ok split: option.splits)

lemma accounts_ok_auth: "accounts_ok (a\<lparr>ac_auth := db\<rparr>) = accounts_ok a"
  by (simp add: accounts_ok_def uniq_ok_def links_ok_def signable_def hasLink_def)

lemma setPassword_ok:
  assumes "accounts_ok a"
  shows "accounts_ok (fst (setPassword env a rv i p jti))"
proof -
  have "accounts_ok (a\<lparr>ac_users := map (\<lambda>w. if us_id w = i then u\<lparr>us_password := Some h\<rparr> else w) (ac_users a)\<rparr>)"
    if "find_user a i = Some u" for u h
  proof -
    let ?row = "u\<lparr>us_password := Some h\<rparr>"
    have u: "u \<in> set (ac_users a)" "us_id u = i" using find_user_Some [OF that] by auto
    have same: "w = u" if "w \<in> set (ac_users a)" "us_username w = us_username u \<or> us_email w = us_email u" for w
      using that u(1) assms by (auto simp: accounts_ok_def uniq_ok_def distinct_map dest: inj_onD)
    have "name_clash a ?row = None" unfolding name_clash_None using same by auto
    then have "update_user a ?row = Inr (a\<lparr>ac_users := map (\<lambda>w. if us_id w = i then ?row else w) (ac_users a)\<rparr>)"
      using u(2) by (simp add: update_user_def)
    then show ?thesis by (rule accounts_ok_update [OF assms]) (use u in auto)
  qed
  then show ?thesis using assms accounts_ok_auth
    by (auto simp: setPassword_def Let_def split: option.splits)
qed

lemma sweep_guests_ok: "accounts_ok a \<Longrightarrow> accounts_ok (fst (sweep_guests a traces now))"
proof -
  assume ok: "accounts_ok a"
  let ?g = "set (map us_id (filter (swept a traces now) (ac_users a)))"
  let ?a = "fst (sweep_guests a traces now)"
  have a: "ac_users ?a = filter (\<lambda>u. us_id u \<notin> ?g) (ac_users a)" "ac_links ?a = filter (\<lambda>l. oa_userId l \<notin> ?g) (ac_links a)"
    by (simp_all add: sweep_guests_def Let_def)
  have "uniq_ok ?a" using ok by (simp add: accounts_ok_def uniq_ok_def a distinct_map_filter)
  moreover have "links_ok ?a" using ok unfolding accounts_ok_def links_ok_def a by auto
  moreover have "signable ?a u" if "u \<in> set (ac_users ?a)" for u
    using ok that unfolding accounts_ok_def signable_def hasLink_def a list_ex_iff by simp metis
  ultimately show ?thesis by (simp add: accounts_ok_def)
qed

lemma refresh_ok: "accounts_ok a \<Longrightarrow> accounts_ok (fst (refreshSession env a rv p jti))"
  by (auto simp: refreshSession_def refresh_rotate_def Let_def accounts_ok_auth split: sum.splits jsval.splits prod.splits)

lemma auth_step_ok:
  assumes "accounts_ok a" "fresh_op a p"
  shows "accounts_ok (fst (auth_step env (a, rv) p))"
proof (cases p)
  case (ARefresh t jti)
  then show ?thesis using refresh_ok [OF assms(1), of env rv t jti] by (auto split: prod.splits)
next
  case (ASetPassword i pw jti)
  then show ?thesis using setPassword_ok [OF assms(1), of env rv i pw jti] by (auto split: prod.splits)
qed (use assms in \<open>auto simp: register_ok createGuest_ok claim_ok linkFull_ok linkGuest_ok google_ok sweep_guests_ok
    accounts_ok_auth split: prod.splits\<close>)

text \<open>
  C15. The account tables stay consistent: in every run of registrations, guest sign-ups, Google
  sign-ins, claims, links, password changes, refreshes, revocations and sweeps, user ids, names and
  addresses stay unique, a provider identity belongs to one user, every link points to a user that
  exists, and every account that is not a guest's has a password or a linked identity to sign in with.
\<close>

theorem accounts_stay_consistent:
  assumes "accounts_ok (fst s)" "fresh_run env s ps"
  shows "accounts_ok (fst (auth_run env s ps))"
  using assms
proof (induction ps arbitrary: s)
  case (Cons p ps)
  obtain a rv where s: "s = (a, rv)" by fastforce
  have "accounts_ok (fst (auth_step env s p))" using auth_step_ok Cons.prems by (simp add: s)
  then show ?case using Cons.IH Cons.prems by (simp add: auth_run_def)
qed (simp add: auth_run_def)

definition no_accounts :: accounts where
  "no_accounts = \<lparr>ac_users = [], ac_links = [], ac_auth = \<lparr>ad_now = 5000, ad_revoked = Map.empty, ad_versions = (\<lambda>u. 0)\<rparr>\<rparr>"

definition demo_env :: auth_env where
  "demo_env = \<lparr>e_hash = (\<lambda>p. CHR ''h'' # p), e_compare = (\<lambda>p h. h = CHR ''h'' # p), e_life = 43200\<rparr>"

lemma no_accounts_ok: "accounts_ok no_accounts"
  by (simp add: accounts_ok_def uniq_ok_def links_ok_def no_accounts_def)

theorem accounts_stay_consistent_witness:
  "accounts_ok (fst (auth_run demo_env (no_accounts, new_revocation)
     [AGuest (\<lambda>k. 7) (\<lambda>k. ''u'') ''id1'' ''j1'', AClaim ''id1'' ''ada'' ''ada@x.org'' ''longpassword'' ''j2'', ATime 9]))"
  by (rule accounts_stay_consistent) (simp_all add: no_accounts_ok, simp add: no_accounts_def)

subsection \<open>Identities do not move\<close>

lemma find_append_Some: "List.find P xs = Some x \<Longrightarrow> List.find P (xs @ ys) = Some x"
  by (induction xs) auto

definition links_grow :: "accounts \<Rightarrow> accounts \<Rightarrow> bool" where
  "links_grow a a' = (\<exists>ls. ac_links a' = ac_links a @ ls)"

lemma links_grow_same [simp]:
  "links_grow a a" "links_grow a (a\<lparr>ac_auth := db\<rparr>)" "links_grow a (a\<lparr>ac_users := us, ac_auth := db\<rparr>)"
  by (simp_all add: links_grow_def)

lemma owner_grow: "links_grow a a' \<Longrightarrow> googleSubjectOwner a s = Some u \<Longrightarrow> googleSubjectOwner a' s = Some u"
proof -
  assume "links_grow a a'" "googleSubjectOwner a s = Some u"
  then obtain ls l where "ac_links a' = ac_links a @ ls" "find_link a s = Some l" "oa_userId l = u"
    by (auto simp: links_grow_def googleSubjectOwner_def)
  moreover from this have "find_link a' s = Some l"
    unfolding find_link_def by (simp only: find_append_Some)
  ultimately show ?thesis by (simp add: googleSubjectOwner_def)
qed

lemma db_writes_grow:
  "insert_user a r = Inr a' \<Longrightarrow> links_grow a a'" "update_user a r = Inr a' \<Longrightarrow> links_grow a a'"
  "insert_link a l = Inr a' \<Longrightarrow> links_grow a a'"
  "then_link (insert_user a r) l = Inr a' \<Longrightarrow> links_grow a a'" "then_link (update_user a r) l = Inr a' \<Longrightarrow> links_grow a a'"
  by (auto simp: insert_user_def update_user_def insert_link_def then_link_def links_grow_def
    split: option.splits if_splits sum.splits)

lemma auth_step_grow:
  assumes "\<forall>tr n. p \<noteq> ASweepGuests tr n"
  shows "links_grow a (fst (auth_step env (a, rv) p))"
proof (cases p)
  case (AGuest draw uuid uid jti)
  then show ?thesis
    by (auto simp: createGuest_def Let_def db_writes_grow split: sum.splits option.splits dest!: try_names_Inr)
next
  case (ALinkGuest i g draw jti)
  then show ?thesis
    by (auto simp: linkGoogleToGuest_def Let_def db_writes_grow split: sum.splits option.splits db_error.splits dest!: try_names_Inr)
next
  case (AGoogle g draw uid jti)
  then show ?thesis
    by (auto simp: signInWithGoogle_def createGoogleUser_def Let_def db_writes_grow
      split: sum.splits option.splits db_error.splits dest!: try_names_Inr)
next
  case (ARefresh t jti)
  then show ?thesis
    by (auto simp: refreshSession_def refresh_rotate_def Let_def split: sum.splits jsval.splits prod.splits)
qed (use assms in \<open>auto simp: register_def claimGuestAccount_def linkGoogleToFull_def setPassword_def Let_def db_writes_grow
    split: sum.splits option.splits prod.splits\<close>)

text \<open>
  A Google account never changes hands: once a Google identity is linked to a user, no run of
  operations of any users (short of the deletion of swept guests) links it to anybody else, so that
  signing in with it goes on opening that user's account.
\<close>

theorem google_identity_never_moves:
  assumes "googleSubjectOwner (fst s) subject = Some u" "list_all (\<lambda>p. \<forall>tr n. p \<noteq> ASweepGuests tr n) ps"
  shows "googleSubjectOwner (fst (auth_run env s ps)) subject = Some u"
  using assms
proof (induction ps arbitrary: s)
  case (Cons p ps)
  obtain a rv where s: "s = (a, rv)" by fastforce
  have "links_grow a (fst (auth_step env s p))" using auth_step_grow Cons.prems(2) by (simp add: s)
  then have "googleSubjectOwner (fst (auth_step env s p)) subject = Some u" using owner_grow Cons.prems(1) by (simp add: s)
  then show ?case using Cons.IH Cons.prems(2) by (simp add: auth_run_def)
qed (simp add: auth_run_def)

theorem google_identity_never_moves_witness:
  "googleSubjectOwner (fst (auth_run demo_env (no_accounts\<lparr>ac_links := [google_link ''g1'' None ''id1'']\<rparr>, new_revocation)
     [ALinkFull ''id2'' \<lparr>gi_subject = ''g1'', gi_email = ''x'', gi_name = None\<rparr> ''j'', ATime 3])) ''g1'' = Some ''id1''"
  by (rule google_identity_never_moves) (simp_all add: googleSubjectOwner_def find_link_def google_link_def)

end
