(* ===== verification/Sessions.thy ===== *)
theory Sessions
  imports Accounts
begin

text \<open>
  What the account operations promise about sessions: a token is rotated at most once, even by calls
  that overlap; refreshing never moves the birth of a session, so its cap holds; a password change
  ends every earlier session and leaves the new one alive; a registered or claimed account can be
  signed into with the credentials given, under the same id.
\<close>

subsection \<open>Rotation\<close>

text \<open>A revocation row outlives every interleaving until its token has expired.\<close>

lemma revoked_row_step:
  assumes "rev_step s s'" "ad_revoked (rs_db s) j = Some row" "ad_now (rs_db s') < rv_expiresAt row"
  shows "ad_revoked (rs_db s') j = Some row"
  using assms by (cases rule: rev_step.cases) (auto simp: upsert_revoked_def sweep_revoked_def)

lemma revoked_row_steps:
  "rev_steps s s' \<Longrightarrow> ad_revoked (rs_db s) j = Some row \<Longrightarrow> ad_now (rs_db s') < rv_expiresAt row \<Longrightarrow>
   ad_revoked (rs_db s') j = Some row"
proof (induction rule: rev_steps.induct)
  case (step s s' s'')
  have "ad_now (rs_db s') < rv_expiresAt row" using rev_step_time [OF step.hyps(2)] step.prems(2) by simp
  then show ?case using revoked_row_step [OF step.hyps(2)] step by blast
qed

lemma rotate_claims:
  assumes "refresh_rotate env a rv p u start jti = (a', rv', Inr s)" "tp_jti p = JStr j" "j \<noteq> []"
  shows "\<exists>row. ad_revoked (ac_auth a') j = Some row \<and> rv_expiresAt row = expiry_ms a p"
  using assms by (auto simp: refresh_rotate_def claimRevocation_def Let_def split: if_splits)

lemma rotate_refused:
  assumes "tp_jti p = JStr j" "j \<noteq> []" "ad_revoked (ac_auth a) j \<noteq> None"
  shows "snd (snd (refresh_rotate env a rv p u start jti)) = Inl RefreshedElsewhere"
  using assms by (auto simp: refresh_rotate_def claimRevocation_def Let_def)

text \<open>
  C17. A token is rotated at most once: after a refresh has succeeded with a token, every other
  rotation of a token with the same id is refused until that token would have expired, both a call
  that starts later and one whose checks had already passed before (two tabs, or a stolen copy),
  whatever revocations, sweeps and reloads the database sees in between.
\<close>

theorem rotated_at_most_once:
  assumes "refreshSession env a rv p jti = (a1, rv1, Inr s)" "tp_jti p = JStr j" "j \<noteq> []"
    "rev_steps sys sys'" "rs_db sys = ac_auth a1" "rs_db sys' = ac_auth a2"
    "ad_now (ac_auth a2) < expiry_ms a p" "tp_jti q = JStr j"
  shows "snd (snd (refresh_rotate env a2 rv2 q u start jti2)) = Inl RefreshedElsewhere \<and>
    (\<exists>e. snd (snd (refreshSession env a2 rv2 q jti2)) = Inl e)"
proof -
  obtain u' where "refresh_rotate env a rv p u' (session_start a p) jti = (a1, rv1, Inr s)"
    using assms(1) by (auto simp: refreshSession_def split: sum.splits)
  from rotate_claims [OF this assms(2,3)] obtain row where row: "ad_revoked (ac_auth a1) j = Some row" "rv_expiresAt row = expiry_ms a p"
    by blast
  have "ad_revoked (ac_auth a2) j = Some row"
    using revoked_row_steps [OF assms(4), of j row] row assms(5-7) by simp
  then have held: "ad_revoked (ac_auth a2) j \<noteq> None" by simp
  have "\<exists>e. snd (snd (refreshSession env a2 rv2 q jti2)) = Inl e"
    using rotate_refused [OF assms(8,3) held] by (auto simp: refreshSession_def split: sum.splits)
  then show ?thesis using rotate_refused [OF assms(8,3) held] by blast
qed

definition demo_user :: user_row where
  "demo_user = \<lparr>us_id = ''id1'', us_username = ''ada'', us_email = ''ada@x.org'', us_password = Some ''hlongpassword'',
     us_isGuest = False, us_createdAt = 0\<rparr>"

definition demo_accounts :: accounts where
  "demo_accounts = no_accounts\<lparr>ac_users := [demo_user]\<rparr>"

definition demo_token :: token_payload where
  "demo_token = issueToken demo_env demo_accounts demo_user JUndef ''j0''"

lemmas demo_session_defs = demo_accounts_def demo_token_def demo_user_def demo_env_def no_accounts_def issueToken_def
  coalesce_def is_nullish_def now_s_def tokenVersion_def

lemma demo_refresh:
  "\<exists>a1 rv1 s. refreshSession demo_env demo_accounts new_revocation demo_token ''j1'' = (a1, rv1, Inr s) \<and>
     ad_now (ac_auth a1) < expiry_ms demo_accounts demo_token \<and> tp_jti (su_token s) = JStr ''j1''"
  by (simp add: refreshSession_def refresh_check_def subjectOf_def versionOf_def is_integer_def session_start_def num_of_def
    SESSION_MAX_S_def find_user_def isJtiRevokedDurable_def refresh_rotate_def claimRevocation_def expiry_ms_def demo_session_defs
    Let_def)

theorem rotated_at_most_once_witness:
  "\<exists>a1 rv1 s e. refreshSession demo_env demo_accounts new_revocation demo_token ''j1'' = (a1, rv1, Inr s) \<and>
     snd (snd (refreshSession demo_env a1 rv1 demo_token ''j2'')) = Inl e"
proof -
  obtain a1 rv1 s where r: "refreshSession demo_env demo_accounts new_revocation demo_token ''j1'' = (a1, rv1, Inr s)"
      "ad_now (ac_auth a1) < expiry_ms demo_accounts demo_token"
    using demo_refresh by blast
  have j: "tp_jti demo_token = JStr ''j0''" by (simp add: demo_token_def issueToken_def)
  let ?sys = "rev_start (ac_auth a1)"
  have "rs_db ?sys = ac_auth a1" by (simp add: rev_start_def)
  with rotated_at_most_once [OF r(1) j _ rev_steps.refl this this r(2) j] r(1) show ?thesis by blast
qed

subsection \<open>The age cap\<close>

text \<open>The tokens a session goes through, each obtained by refreshing the one before.\<close>

inductive refreshed :: "auth_env \<Rightarrow> token_payload \<Rightarrow> token_payload \<Rightarrow> bool" for env where
  born: "refreshed env p p"
| slide: "refreshed env p q \<Longrightarrow> refreshSession env a rv q jti = (a', rv', Inr s) \<Longrightarrow> refreshed env p (su_token s)"

lemma refresh_token:
  assumes "refreshSession env a rv q jti = (a', rv', Inr s)" "tp_sess q = JNum (Fin b)"
  shows "tp_sess (su_token s) = JNum (Fin b) \<and> tp_exp (su_token s) = JNum (Fin (real (now_s a + e_life env))) \<and>
    real (now_s a) - b \<le> real SESSION_MAX_S"
proof -
  have st: "session_start a q = JNum (Fin b)" by (simp add: session_start_def coalesce_def is_nullish_def assms(2))
  obtain u where u: "refresh_check a q = Inr u" "refresh_rotate env a rv q u (JNum (Fin b)) jti = (a', rv', Inr s)"
    using assms(1) st by (auto simp: refreshSession_def split: sum.splits)
  have "\<not> real SESSION_MAX_S < real (now_s a) - b"
    using u(1) by (auto simp: refresh_check_def st num_of_def split: option.splits if_splits)
  moreover have "su_token s = issueToken env a u (JNum (Fin b)) jti"
    using u(2) by (auto simp: refresh_rotate_def Let_def split: jsval.splits if_splits prod.splits)
  ultimately show ?thesis by (simp add: issueToken_def coalesce_def is_nullish_def)
qed

text \<open>
  No session outlives its cap: along any chain of refreshes, on whatever instances and at
  whatever times, the birth of the session is preserved to the second, and every token obtained
  expires within thirty days plus one token lifetime of it.
\<close>

theorem session_age_capped:
  assumes "refreshed env p q" "tp_sess p = JNum (Fin b)"
  shows "tp_sess q = JNum (Fin b) \<and>
    (q = p \<or> (\<exists>e. tp_exp q = JNum (Fin e) \<and> e \<le> b + real SESSION_MAX_S + real (e_life env)))"
  using assms
proof (induction rule: refreshed.induct)
  case (slide p q a rv jti a' rv' s)
  then show ?case using refresh_token [OF slide.hyps(2)] by fastforce
qed simp

theorem session_age_capped_witness:
  "\<exists>q e. refreshed demo_env demo_token q \<and> tp_jti q = JStr ''j1'' \<and> tp_sess q = JNum (Fin 5) \<and>
     tp_exp q = JNum (Fin e) \<and> e \<le> 5 + real SESSION_MAX_S + real (e_life demo_env)"
proof -
  obtain a1 rv1 s where s: "refreshSession demo_env demo_accounts new_revocation demo_token ''j1'' = (a1, rv1, Inr s)"
      "tp_jti (su_token s) = JStr ''j1''"
    using demo_refresh by blast
  from refreshed.slide [OF refreshed.born s(1)] have r: "refreshed demo_env demo_token (su_token s)" .
  have b: "tp_sess demo_token = JNum (Fin 5)" and "tp_jti demo_token = JStr ''j0''" by (simp_all add: demo_session_defs)
  then have "su_token s \<noteq> demo_token" using s(2) by auto
  with session_age_capped [OF r b] r s(2) show ?thesis by auto
qed

subsection \<open>Changing the password\<close>

lemma find_map_replace:
  "List.find (\<lambda>u. us_id u = i) us = Some u \<Longrightarrow> us_id r = i \<Longrightarrow>
   List.find (\<lambda>u. us_id u = i) (map (\<lambda>w. if us_id w = i then r else w) us) = Some r"
  by (induction us) auto

text \<open>The laws of the hash the program relies on: what was hashed compares equal, and a hash is not empty.\<close>

definition hash_ok :: "auth_env \<Rightarrow> bool" where
  "hash_ok env = (\<forall>p. e_compare env p (e_hash env p) \<and> e_hash env p \<noteq> [])"

lemma password_change_effect:
  assumes "setPassword env a rv i pw jti = (a', rv', Inr s)" "hash_ok env" "rv_loaded rv"
    "jti \<notin> revokedTokens rv" "nullish (userVersions rv i) 0 \<le> tokenVersion a i" "i \<noteq> []"
    "subjectOf p = Some i" "\<forall>c. versionOf p = Some c \<longrightarrow> c \<le> tokenVersion a i"
  shows "(\<exists>e. snd (snd (refreshSession env a' rv' p jti')) = Inl e) \<and> isRevoked rv' p \<noteq> None \<and>
    isRevoked rv' (su_token s) = None \<and> subjectOf (su_token s) = Some i \<and> su_id s = i \<and> verifyPassword env a' i pw"
proof -
  obtain u where u: "find_user a i = Some u" "us_id u = i"
    using assms(1) find_user_Some by (fastforce simp: setPassword_def split: if_splits option.splits)
  let ?row = "u\<lparr>us_password := Some (e_hash env pw)\<rparr>"
  have a': "a' = a\<lparr>ac_users := map (\<lambda>w. if us_id w = i then ?row else w) (ac_users a),
        ac_auth := (ac_auth a)\<lparr>ad_versions := (ad_versions (ac_auth a))(i := tokenVersion a i + 1)\<rparr>\<rparr>"
    and rv': "rv' = rememberVersion rv i (tokenVersion a i + 1)" and s: "s = session_for env a' ?row jti"
    using assms(1) u by (auto simp: setPassword_def noteVersionBumped_def Let_def split: if_splits)
  have v': "tokenVersion a' i = tokenVersion a i + 1" by (simp add: a' tokenVersion_def)
  have found: "find_user a' i = Some ?row" using u by (simp add: find_user_def a' find_map_replace)
  have "\<exists>e. refresh_check a' p = Inl e"
    using assms(7,8) found v' by (auto simp: refresh_check_def split: option.splits)
  then have "\<exists>e. snd (snd (refreshSession env a' rv' p jti')) = Inl e" by (auto simp: refreshSession_def)
  moreover have vs: "userVersions rv' i = Some (tokenVersion a i + 1)" "rv_loaded rv'" "revokedTokens rv' = revokedTokens rv"
    using assms(3,5) by (auto simp: rv' rememberVersion_def raise_version_def)
  moreover have "isRevoked rv' p \<noteq> None"
    using vs assms(7,8) by (auto simp: isRevoked_def split: option.splits)
  moreover have "isRevoked rv' (su_token s) = None"
    using vs assms(4,6) u(2) v'
    by (simp add: isRevoked_def s session_for_def issueToken_def subjectOf_def versionOf_def is_integer_def)
  moreover have "subjectOf (su_token s) = Some i" "su_id s = i" using assms(6) u(2) by (simp_all add: s session_for_def issueToken_def subjectOf_def)
  moreover have "verifyPassword env a' i pw" using assms(2) found by (simp add: verifyPassword_def hash_ok_def)
  ultimately show ?thesis by blast
qed

text \<open>
  Changing the password ends every earlier session: right after it, a token of that user issued
  before (one that claims at most the version the user had) can neither be refreshed nor pass the
  request path of the instance, while the token handed back passes it and the new password verifies.
\<close>

theorem password_change_ends_sessions:
  assumes "setPassword env a rv i pw jti = (a', rv', Inr s)" "hash_ok env" "rv_loaded rv"
    "jti \<notin> revokedTokens rv" "nullish (userVersions rv i) 0 \<le> tokenVersion a i" "i \<noteq> []"
    "subjectOf p = Some i" "\<forall>c. versionOf p = Some c \<longrightarrow> c \<le> tokenVersion a i"
  shows "(\<exists>e. snd (snd (refreshSession env a' rv' p jti')) = Inl e) \<and> isRevoked rv' p \<noteq> None \<and>
    isRevoked rv' (su_token s) = None \<and> verifyPassword env a' i pw"
  using password_change_effect [OF assms] by blast

definition loaded :: revocation where
  "loaded = new_revocation\<lparr>rv_loaded := True\<rparr>"

theorem password_change_ends_sessions_witness:
  "\<exists>a' rv' s. setPassword demo_env demo_accounts loaded ''id1'' ''otherpassword'' ''j1'' = (a', rv', Inr s) \<and>
     isRevoked rv' demo_token \<noteq> None \<and> isRevoked rv' (su_token s) = None"
proof -
  obtain a' rv' s where s: "setPassword demo_env demo_accounts loaded ''id1'' ''otherpassword'' ''j1'' = (a', rv', Inr s)"
    by (simp add: setPassword_def find_user_def demo_session_defs Let_def)
  have "hash_ok demo_env" "rv_loaded loaded" "''j1'' \<notin> revokedTokens loaded"
      "nullish (userVersions loaded ''id1'') 0 \<le> tokenVersion demo_accounts ''id1''" "subjectOf demo_token = Some ''id1''"
      "\<forall>c. versionOf demo_token = Some c \<longrightarrow> c \<le> tokenVersion demo_accounts ''id1''"
    by (simp_all add: hash_ok_def loaded_def new_revocation_def demo_session_defs subjectOf_def versionOf_def is_integer_def)
  from password_change_ends_sessions [OF s this(1-4) _ this(5,6)] s show ?thesis by auto
qed

subsection \<open>Credentials open the account they were given for\<close>

lemma find_username_unique:
  assumes "uniq_ok a" "u \<in> set (ac_users a)"
  shows "find_username a (us_username u) = Some u"
proof -
  obtain w where w: "find_username a (us_username u) = Some w"
    using assms(2) by (cases "find_username a (us_username u)") (auto simp: find_username_def find_None_iff)
  then have "w \<in> set (ac_users a)" "us_username w = us_username u" by (auto simp: find_username_def find_Some_iff)
  then have "w = u" using assms by (auto simp: uniq_ok_def distinct_map dest: inj_onD)
  then show ?thesis using w by simp
qed

lemma login_with:
  assumes "accounts_ok a" "hash_ok env" "u \<in> set (ac_users a)" "us_password u = Some (e_hash env pw)"
  shows "login env a (us_username u) pw jti = Inr (session_for env a u jti)"
  using find_username_unique [of a u] assms by (simp add: login_def hash_ok_def accounts_ok_def)

lemma filter_replace:
  "us_id r = i \<Longrightarrow> j \<noteq> i \<Longrightarrow>
   filter (\<lambda>u. us_id u = j) (map (\<lambda>u. if us_id u = i then r else u) us) = filter (\<lambda>u. us_id u = j) us"
  by (induction us) auto

lemma demo_registration:
  "\<exists>a s. register demo_env no_accounts '' ada '' ''ada@x.org'' ''longpassword'' ''id1'' ''j1'' = (a, Inr s)"
proof -
  have "credentialsOrThrow '' ada '' ''ada@x.org'' ''longpassword'' = Inr (''ada'', ''ada@x.org'')" by code_simp
  then show ?thesis by (simp add: register_def insert_user_def name_clash_def no_accounts_def Let_def)
qed

text \<open>
  Credentials open the account they were given for: after a successful registration, or the
  claim of a guest account, signing in with the (trimmed) name and the password opens the same
  account under the same id. A claim keeps the guest's id and every other row and link as it was,
  so messages and participations go on pointing at the same person.
\<close>

theorem credentials_round_trip:
  assumes "accounts_ok a" "hash_ok env"
  shows "(register env a n m pw uid jti = (a', Inr s) \<and> uid \<notin> us_id ` set (ac_users a) \<longrightarrow>
      (\<exists>t. login env a' (trim n) pw jti' = Inr t \<and> su_id t = uid \<and> su_id s = uid)) \<and>
    (claimGuestAccount env a i n m pw jti = (a', Inr s) \<longrightarrow>
      (\<exists>t. login env a' (trim n) pw jti' = Inr t \<and> su_id t = i \<and> su_id s = i) \<and>
      map us_id (ac_users a') = map us_id (ac_users a) \<and> ac_links a' = ac_links a \<and>
      (\<forall>j. j \<noteq> i \<longrightarrow> filter (\<lambda>u. us_id u = j) (ac_users a') = filter (\<lambda>u. us_id u = j) (ac_users a)))"
proof (intro conjI impI)
  assume r: "register env a n m pw uid jti = (a', Inr s) \<and> uid \<notin> us_id ` set (ac_users a)"
  define row where "row = \<lparr>us_id = uid, us_username = trim n, us_email = toLowerCase (trim m),
      us_password = Some (e_hash env pw), us_isGuest = False, us_createdAt = ad_now (ac_auth a)\<rparr>"
  have ins: "insert_user a row = Inr a'" "s = session_for env a' row jti"
    using r by (auto simp: register_def row_def credentialsOrThrow_def Let_def split: sum.splits if_splits)
  have "accounts_ok a'" by (rule accounts_ok_insert [OF assms(1) ins(1)]) (use r in \<open>simp_all add: row_def\<close>)
  moreover have "row \<in> set (ac_users a')" using ins(1) by (auto simp: insert_user_def split: option.splits)
  ultimately have "login env a' (trim n) pw jti' = Inr (session_for env a' row jti')"
    using login_with [of a' env row pw] assms(2) by (simp add: row_def)
  then show "\<exists>t. login env a' (trim n) pw jti' = Inr t \<and> su_id t = uid \<and> su_id s = uid"
    by (simp add: ins(2) session_for_def row_def)
next
  assume c: "claimGuestAccount env a i n m pw jti = (a', Inr s)"
  obtain u where u: "find_user a i = Some u" "u \<in> set (ac_users a)" "us_id u = i"
    using c find_user_Some by (fastforce simp: claimGuestAccount_def split: sum.splits option.splits)
  define row where "row = u\<lparr>us_username := trim n, us_email := toLowerCase (trim m), us_password := Some (e_hash env pw), us_isGuest := False\<rparr>"
  have upd: "update_user a row = Inr a'" "s = session_for env a' row jti"
    using c u(1) by (auto simp: claimGuestAccount_def row_def credentialsOrThrow_def Let_def split: sum.splits if_splits)
  have row: "us_id row = i" "i \<in> us_id ` set (ac_users a)" using u by (auto simp: row_def)
  have ok: "accounts_ok a'" by (rule accounts_ok_update [OF assms(1) upd(1)]) (use row in \<open>simp_all add: row_def\<close>)
  have eff: "ac_users a' = map (\<lambda>u. if us_id u = i then row else u) (ac_users a)" "ac_links a' = ac_links a"
      "map us_id (ac_users a') = map us_id (ac_users a)"
    using update_user_Inr [OF upd(1)] row assms(1) by (simp_all add: accounts_ok_def)
  have "row \<in> set (ac_users a')" using eff(1) u(2,3) by force
  then have "login env a' (trim n) pw jti' = Inr (session_for env a' row jti')"
    using login_with [OF ok assms(2), of row pw] by (simp add: row_def)
  then show "\<exists>t. login env a' (trim n) pw jti' = Inr t \<and> su_id t = i \<and> su_id s = i"
    using row(1) by (simp add: upd(2) session_for_def)
  show "map us_id (ac_users a') = map us_id (ac_users a)" "ac_links a' = ac_links a" by (rule eff)+
  show "\<forall>j. j \<noteq> i \<longrightarrow> filter (\<lambda>u. us_id u = j) (ac_users a') = filter (\<lambda>u. us_id u = j) (ac_users a)"
    using row(1) by (simp add: eff(1) filter_replace)
qed

theorem credentials_round_trip_witness:
  "\<exists>a' s t. register demo_env no_accounts '' ada '' ''ada@x.org'' ''longpassword'' ''id1'' ''j1'' = (a', Inr s) \<and>
     login demo_env a' ''ada'' ''longpassword'' ''j2'' = Inr t \<and> su_id t = ''id1''"
proof -
  obtain a' s where r: "register demo_env no_accounts '' ada '' ''ada@x.org'' ''longpassword'' ''id1'' ''j1'' = (a', Inr s)"
    using demo_registration by blast
  have h: "hash_ok demo_env" by (simp add: hash_ok_def demo_env_def)
  have t: "trim '' ada '' = ''ada''" by code_simp
  have f: "''id1'' \<notin> us_id ` set (ac_users no_accounts)" by (simp add: no_accounts_def)
  show ?thesis
    using credentials_round_trip [OF no_accounts_ok h, of "'' ada ''" "''ada@x.org''" "''longpassword''" "''id1''" "''j1''" a' s "''j2''"]
      r f t by auto
qed

subsection \<open>Racing first sign-ins with Google\<close>

lemma insert_user_taken:
  assumes "w \<in> set (ac_users a)" "us_id w \<noteq> us_id row" "us_email w = us_email row"
  shows "insert_user a row = Inl UniqueUsername \<or> insert_user a row = Inl UniqueEmail"
  using assms by (auto simp: insert_user_def name_clash_def list_ex_iff)

lemma try_names_taken:
  "(\<And>k. f k = Inl UniqueUsername \<or> f k = Inl UniqueEmail) \<Longrightarrow>
   try_names f k n = Inl None \<or> try_names f k n = Inl (Some UniqueEmail)"
proof (induction n arbitrary: k)
  case (Suc n)
  from Suc.prems [of k] show ?case
  proof
    assume "f k = Inl UniqueUsername"
    then show ?thesis using Suc.IH [OF Suc.prems] by simp
  qed simp
qed simp

text \<open>
  The loser of two racing first sign-ins of one Google account: the winner's row already holds the
  email, and the user row is written before the link, so the username or the email constraint
  fires and never the one on the provider account. The sign-in fails, although the winner's row is
  the very account asked for; the branch that re-reads the winner is not reached.
\<close>

lemma racing_google_sign_in_fails:
  assumes "w \<in> set (ac_users a)" "us_email w = email" "us_id w \<noteq> uid"
  shows "snd (createGoogleUser env a ident email draw uid jti) \<in> {Inl GoogleEmailTaken, Inl NoFreeName}"
proof -
  let ?row = "\<lambda>k. \<lparr>us_id = uid, us_username = usernameCandidate (usernameBase (gi_name ident) (Some email)) draw k,
     us_email = email, us_password = None, us_isGuest = False, us_createdAt = ad_now (ac_auth a)\<rparr>"
  let ?f = "\<lambda>k. case then_link (insert_user a (?row k)) (google_link (gi_subject ident) (Some email) uid) of
     Inl e \<Rightarrow> Inl e | Inr a' \<Rightarrow> Inr (a', ?row k)"
  have "?f k = Inl UniqueUsername \<or> ?f k = Inl UniqueEmail" for k
    using insert_user_taken [of w a "?row k"] assms by (auto simp: then_link_def)
  from try_names_taken [of ?f 0 USERNAME_ATTEMPTS, OF this] show ?thesis
  proof
    assume "try_names ?f 0 USERNAME_ATTEMPTS = Inl None"
    then show ?thesis by (simp add: createGoogleUser_def Let_def)
  next
    assume "try_names ?f 0 USERNAME_ATTEMPTS = Inl (Some UniqueEmail)"
    then show ?thesis by (simp add: createGoogleUser_def Let_def)
  qed
qed

end
