(* ===== verification/OAuth.thy ===== *)
theory OAuth
  imports Accounts MediaSource
begin

text \<open>
  The Google flow around the account operations: the sealed state cookie (auth/google/oauth-state.ts),
  starting a flow and verifying its return (auth/google/google-oauth.service.ts), and the filter on
  return paths, on the server and in the browser (services/return-to.ts). Node's HMAC, the JSON and
  base64url codec, the URL parser and the exchange with Google are parameters. Properties: the round
  trip of a sealed state and what an opened one proves, and that a return path stays on the site.
\<close>

subsection \<open>The sealed state\<close>

datatype flow_purpose = LinkGuest | LinkFull | Reauth

definition purpose_name :: "flow_purpose \<Rightarrow> string" where
  "purpose_name p = (case p of LinkGuest \<Rightarrow> ''link-guest'' | LinkFull \<Rightarrow> ''link-full'' | Reauth \<Rightarrow> ''reauth'')"

record oauth_state =
  os_state :: string
  os_codeVerifier :: string
  os_returnTo :: "string option"
  os_linkUserId :: "string option"
  os_purpose :: "flow_purpose option"
  os_expiresAt :: jsnum

text \<open>A parsed body before it is trusted: every property may be anything.\<close>

record raw_state =
  rw_state :: jsval
  rw_codeVerifier :: jsval
  rw_returnTo :: jsval
  rw_linkUserId :: jsval
  rw_purpose :: jsval
  rw_expiresAt :: jsval

record state_codec =
  co_encode :: "oauth_state \<Rightarrow> string"
  co_decode :: "string \<Rightarrow> raw_state option"
  co_sign :: "string \<Rightarrow> string \<Rightarrow> string"

definition DOT :: char where "DOT = CHR ''.''"

definition sealState :: "state_codec \<Rightarrow> oauth_state \<Rightarrow> string \<Rightarrow> string" where
  "sealState co payload secret = (let body = co_encode co payload in body @ DOT # co_sign co secret body)"

definition openState :: "state_codec \<Rightarrow> string option \<Rightarrow> string \<Rightarrow> jsnum \<Rightarrow> raw_state option" where
  "openState co sealed secret now =
     (if \<not> truthy sealed then None
      else
        (let s = nullish sealed []; body = takeWhile (\<lambda>c. c \<noteq> DOT) s in
         if DOT \<notin> set s \<or> body = [] then None
         else if drop (length body + 1) s \<noteq> co_sign co secret body then None
         else (case co_decode co body of
             None \<Rightarrow> None
           | Some p \<Rightarrow>
               (case (rw_state p, rw_codeVerifier p, rw_expiresAt p) of
                  (JStr _, JStr _, JNum e) \<Rightarrow> if e \<le> now then None else Some p
                | _ \<Rightarrow> None))))"

subsection \<open>Return paths\<close>

definition has_control :: "string \<Rightarrow> bool" where
  "has_control s = list_ex (\<lambda>c. (of_char c :: nat) < 32 \<or> (of_char c :: nat) = 127) s"

definition safeReturnTo :: "string option \<Rightarrow> string option" where
  "safeReturnTo value =
     (if \<not> truthy value then None
      else
        (let v = nullish value [] in
         if \<not> startsWith v ''/'' \<or> startsWith v ''//'' then None
         else if has_control v then None
         else if CHR 0x5C \<in> set v then None
         else Some (take 512 v)))"

text \<open>The browser's filter tests the same things in another order.\<close>

definition browser_safeReturnTo :: "string option \<Rightarrow> string option" where
  "browser_safeReturnTo value =
     (if \<not> truthy value then None
      else
        (let v = nullish value [] in
         if \<not> startsWith v ''/'' \<or> startsWith v ''//'' then None
         else if CHR 0x5C \<in> set v then None
         else if has_control v then None
         else Some (take 512 v)))"

subsection \<open>The provider\<close>

record google_config =
  gc_clientId :: string
  gc_clientSecret :: string
  gc_secret :: string
  gc_isLocalEnv :: bool
  gc_corsOrigin :: string
  gc_publicApiUrl :: string

definition strip_slashes :: "string \<Rightarrow> string" where
  "strip_slashes s = rev (dropWhile (\<lambda>c. c = CHR ''/'') (rev s))"

definition frontendUrl :: "google_config \<Rightarrow> string" where
  "frontendUrl cf = strip_slashes (trim (hd (split_on (CHR '','') (gc_corsOrigin cf))))"

definition redirectUri :: "google_config \<Rightarrow> string" where
  "redirectUri cf = gc_publicApiUrl cf @ ''/api/auth/google/callback''"

definition isLoopback :: "(string \<Rightarrow> url option) \<Rightarrow> string \<Rightarrow> bool" where
  "isLoopback parse origin = (case parse origin of
     None \<Rightarrow> True
   | Some u \<Rightarrow>
       (let host = toLowerCase (u_hostname u) in
        host = ''localhost'' \<or> host = ''::1'' \<or> host = ''[::1]'' \<or> endsWith host ''.localhost'' \<or> startsWith host ''127.''))"

definition google_enabled :: "(string \<Rightarrow> url option) \<Rightarrow> google_config \<Rightarrow> bool" where
  "google_enabled parse cf =
     (if gc_clientId cf = [] \<or> gc_clientSecret cf = [] \<or> frontendUrl cf = [] then False
      else if \<not> gc_isLocalEnv cf \<and> isLoopback parse (frontendUrl cf) then False
      else True)"

definition callbackRedirect :: "google_config \<Rightarrow> string \<Rightarrow> string" where
  "callbackRedirect cf fragment = frontendUrl cf @ ''/auth/callback#'' @ fragment"

definition FLOW_TTL_MS :: jsnum where "FLOW_TTL_MS = 600000"

text \<open>The two random tokens of a flow are arguments; the address is its state and the verifier whose hash it carries.\<close>

definition google_start ::
  "state_codec \<Rightarrow> google_config \<Rightarrow> string option \<Rightarrow> jsnum \<Rightarrow> string option \<Rightarrow> flow_purpose option \<Rightarrow> string \<Rightarrow> string \<Rightarrow>
   (string \<times> string) \<times> string" where
  "google_start co cf returnTo now linkUserId purpose state codeVerifier =
     ((state, codeVerifier),
      sealState co \<lparr>os_state = state, os_codeVerifier = codeVerifier, os_returnTo = safeReturnTo returnTo,
        os_linkUserId = linkUserId, os_purpose = purpose, os_expiresAt = now + FLOW_TTL_MS\<rparr> (gc_secret cf))"

datatype google_failure = FailState | FailDenied | FailUnverified | FailExchange

text \<open>
  What Google answers for a code and its verifier: nothing when the exchange fails or the ID token is
  missing or rejected, otherwise the verified claims.
\<close>

record google_claims =
  cl_sub :: "string option"
  cl_email :: "string option"
  cl_emailVerified :: bool
  cl_name :: "string option"

type_synonym google_exchange = "string \<Rightarrow> string \<Rightarrow> google_claims option"

record callback_params =
  cb_code :: "string option"
  cb_state :: "string option"
  cb_error :: "string option"
  cb_cookie :: "string option"

record flow_result =
  fr_identity :: google_identity
  fr_returnTo :: jsval
  fr_linkUserId :: jsval
  fr_purpose :: jsval

definition identity_of :: "google_claims \<Rightarrow> google_failure + google_identity" where
  "identity_of cl =
     (if \<not> truthy (cl_sub cl) \<or> \<not> truthy (cl_email cl) then Inl FailExchange
      else if \<not> cl_emailVerified cl then Inl FailUnverified
      else Inr \<lparr>gi_subject = nullish (cl_sub cl) [], gi_email = nullish (cl_email cl) [], gi_name = cl_name cl\<rparr>)"

definition verifyCallback ::
  "state_codec \<Rightarrow> google_config \<Rightarrow> google_exchange \<Rightarrow> callback_params \<Rightarrow> jsnum \<Rightarrow> google_failure + flow_result" where
  "verifyCallback co cf exchange ps now =
     (if truthy (cb_error ps) then Inl FailDenied
      else (case openState co (cb_cookie ps) (gc_secret cf) now of
          None \<Rightarrow> Inl FailState
        | Some opened \<Rightarrow>
            if \<not> truthy (cb_state ps) \<or> rw_state opened \<noteq> JStr (nullish (cb_state ps) []) then Inl FailState
            else if \<not> truthy (cb_code ps) then Inl FailExchange
            else (case rw_codeVerifier opened of
                JStr verifier \<Rightarrow>
                  (case exchange (nullish (cb_code ps) []) verifier of
                     None \<Rightarrow> Inl FailExchange
                   | Some cl \<Rightarrow> (case identity_of cl of
                         Inl e \<Rightarrow> Inl e
                       | Inr ident \<Rightarrow> Inr \<lparr>fr_identity = ident, fr_returnTo = rw_returnTo opened,
                           fr_linkUserId = rw_linkUserId opened, fr_purpose = rw_purpose opened\<rparr>))
              | _ \<Rightarrow> Inl FailExchange)))"

subsection \<open>Seals\<close>

definition raw_of :: "oauth_state \<Rightarrow> raw_state" where
  "raw_of p = \<lparr>rw_state = JStr (os_state p), rw_codeVerifier = JStr (os_codeVerifier p),
     rw_returnTo = (case os_returnTo p of None \<Rightarrow> JUndef | Some r \<Rightarrow> JStr r),
     rw_linkUserId = (case os_linkUserId p of None \<Rightarrow> JUndef | Some i \<Rightarrow> JStr i),
     rw_purpose = (case os_purpose p of None \<Rightarrow> JUndef | Some u \<Rightarrow> JStr (purpose_name u)), rw_expiresAt = JNum (os_expiresAt p)\<rparr>"

text \<open>
  The documented behaviour of the codec on a payload: JSON in base64url decodes to what was encoded
  (an absent property as undefined), and base64url is not empty and has no dot.
\<close>

definition codec_ok :: "state_codec \<Rightarrow> oauth_state \<Rightarrow> bool" where
  "codec_ok co p = (co_decode co (co_encode co p) = Some (raw_of p) \<and> co_encode co p \<noteq> [] \<and> DOT \<notin> set (co_encode co p))"

lemma open_sealed:
  assumes "codec_ok co p"
  shows "openState co (Some (sealState co p secret)) secret now = (if os_expiresAt p \<le> now then None else Some (raw_of p))"
proof -
  let ?b = "co_encode co p"
  have b: "co_decode co ?b = Some (raw_of p)" "?b \<noteq> []" "DOT \<notin> set ?b"
    using assms by (simp_all add: codec_ok_def)
  have "takeWhile (\<lambda>c. c \<noteq> DOT) (?b @ DOT # x) = ?b" for x
    using b(3) by (auto simp: takeWhile_append takeWhile_eq_all_conv)
  then show ?thesis using b by (simp add: openState_def sealState_def truthy_def raw_of_def Let_def)
qed

lemma opened_is_signed:
  assumes "openState co (Some s) secret now = Some p"
  shows "\<exists>body. s = body @ DOT # co_sign co secret body \<and> co_decode co body = Some p \<and> DOT \<notin> set body"
proof -
  let ?b = "takeWhile (\<lambda>c. c \<noteq> DOT) s"
  have o: "DOT \<in> set s" "drop (length ?b + 1) s = co_sign co secret ?b" "co_decode co ?b = Some p"
    using assms by (auto simp: openState_def Let_def split: if_splits option.splits jsval.splits)
  have "s = ?b @ DOT # drop (length ?b + 1) s"
    using o(1) by (induction s) auto
  moreover have "DOT \<notin> set ?b" by (auto dest: set_takeWhileD)
  ultimately show ?thesis using o(2,3) by metis
qed

text \<open>
  A flow comes back as it was started: a state sealed at the start of a flow opens, within its
  ten minutes, to exactly the account and purpose that were sealed, and not after; and whatever
  opens carries the signature of its own body under the server's key, so a cookie whose body was
  altered does not open unless its signature is the one of the altered body.
\<close>

theorem flow_state_round_trip:
  assumes "codec_ok co \<lparr>os_state = st, os_codeVerifier = ver, os_returnTo = safeReturnTo r, os_linkUserId = i, os_purpose = p,
      os_expiresAt = now + FLOW_TTL_MS\<rparr>"
  shows "openState co (Some (snd (google_start co cf r now i p st ver))) (gc_secret cf) later =
      (if now + FLOW_TTL_MS \<le> later then None
       else Some (raw_of \<lparr>os_state = st, os_codeVerifier = ver, os_returnTo = safeReturnTo r, os_linkUserId = i, os_purpose = p,
         os_expiresAt = now + FLOW_TTL_MS\<rparr>)) \<and>
    (\<forall>s q. openState co (Some s) (gc_secret cf) later = Some q \<longrightarrow>
      (\<exists>body. s = body @ DOT # co_sign co (gc_secret cf) body \<and> co_decode co body = Some q))"
  using open_sealed [OF assms] opened_is_signed by (simp add: google_start_def) blast

text \<open>A codec for one payload, and a toy signature.\<close>

definition demo_state :: oauth_state where
  "demo_state = \<lparr>os_state = ''s'', os_codeVerifier = ''v'', os_returnTo = Some ''/room/ABC'', os_linkUserId = Some ''id1'',
     os_purpose = Some Reauth, os_expiresAt = 600005\<rparr>"

definition demo_codec :: state_codec where
  "demo_codec = \<lparr>co_encode = (\<lambda>p. if p = demo_state then ''eA'' else ''eB''),
     co_decode = (\<lambda>b. if b = ''eA'' then Some (raw_of demo_state) else None), co_sign = (\<lambda>k b. k @ rev b)\<rparr>"

definition demo_google :: google_config where
  "demo_google = \<lparr>gc_clientId = ''c'', gc_clientSecret = ''x'', gc_secret = ''k'', gc_isLocalEnv = True,
     gc_corsOrigin = ''https://watch.example/'', gc_publicApiUrl = ''https://api.example''\<rparr>"

lemma demo_codec_ok: "codec_ok demo_codec demo_state"
  by (simp add: codec_ok_def demo_codec_def DOT_def)

lemma safe_return_to_demo: "safeReturnTo (Some ''/room/ABC'') = Some ''/room/ABC''"
  by (simp add: safeReturnTo_def startsWith_def has_control_def Let_def)

theorem flow_state_round_trip_witness:
  "openState demo_codec (Some (snd (google_start demo_codec demo_google (Some ''/room/ABC'') 5 (Some ''id1'') (Some Reauth) ''s'' ''v''))) ''k'' 300000 =
     Some (raw_of demo_state)"
proof -
  have "codec_ok demo_codec \<lparr>os_state = ''s'', os_codeVerifier = ''v'', os_returnTo = safeReturnTo (Some ''/room/ABC''),
      os_linkUserId = Some ''id1'', os_purpose = Some Reauth, os_expiresAt = 5 + FLOW_TTL_MS\<rparr>"
    using demo_codec_ok by (simp add: safe_return_to_demo demo_state_def FLOW_TTL_MS_def)
  from flow_state_round_trip [OF this, of demo_google 300000] show ?thesis
    by (simp add: safe_return_to_demo demo_state_def FLOW_TTL_MS_def demo_google_def)
qed

subsection \<open>Return paths stay on the site\<close>

definition on_site :: "string \<Rightarrow> bool" where
  "on_site r = (\<exists>rest. r = CHR ''/'' # rest \<and> (rest = [] \<or> hd rest \<noteq> CHR ''/'') \<and> CHR 0x5C \<notin> set r \<and> \<not> has_control r \<and> length r \<le> 512)"

lemma filters_agree: "browser_safeReturnTo v = safeReturnTo v"
  by (auto simp: browser_safeReturnTo_def safeReturnTo_def Let_def)

lemma filtered_path:
  assumes "safeReturnTo v = Some r"
  shows "on_site r" and "safeReturnTo (Some r) = Some r"
proof -
  obtain w where w: "v = Some w" "startsWith w ''/''" "\<not> startsWith w ''//''" "\<not> has_control w" "CHR 0x5C \<notin> set w" "r = take 512 w"
    using assms by (cases v) (auto simp: safeReturnTo_def Let_def split: if_splits)
  obtain rest where rest: "w = CHR ''/'' # rest" "rest = [] \<or> hd rest \<noteq> CHR ''/''"
    using w(2,3) by (cases w; cases "tl w") (auto simp: startsWith_def)
  have sub: "set r \<subseteq> set w" by (simp add: w(6) set_take_subset)
  have ctl: "\<not> has_control r" using w(4) sub by (auto simp: has_control_def list_ex_iff)
  have r: "r = CHR ''/'' # take 511 rest" by (simp add: w(6) rest(1) take_Cons')
  have hd: "take 511 rest = [] \<or> hd (take 511 rest) \<noteq> CHR ''/''" using rest(2) by (cases rest) auto
  have bs: "CHR 0x5C \<notin> set r" using sub w(5) by blast
  have len: "length r \<le> 512" by (simp add: w(6))
  show "on_site r" unfolding on_site_def using r hd bs ctl len by blast
  have "startsWith r ''/''" "\<not> startsWith r ''//''"
    using r rest(2) by (cases rest; simp add: startsWith_def)+
  then show "safeReturnTo (Some r) = Some r" using ctl bs len r by (simp add: safeReturnTo_def Let_def)
qed

lemma on_site_root: "on_site ''/''"
  by (simp add: on_site_def has_control_def)

text \<open>
  No open redirect: what the filter lets through is a path on the site (one leading slash, no
  backslash, no control character, at most 512 characters), filtering it again changes nothing, and
  the browser's filter and the server's agree on every value.
\<close>

theorem return_to_stays_on_site:
  "browser_safeReturnTo v = safeReturnTo v \<and>
   (case safeReturnTo v of None \<Rightarrow> True | Some r \<Rightarrow> on_site r \<and> safeReturnTo (Some r) = Some r)"
  by (auto simp: filters_agree filtered_path split: option.splits)

end
