(* ===== verification/RateBucket.thy ===== *)
theory RateBucket
  imports JsString
begin

text \<open>
  The request limiter of the REST routes (auth/rate-bucket.ts) and the two buckets in front of guest
  creation (auth/auth.controller.ts): the token bucket with its sweep, and the address a caller is
  keyed by. Lemmas: the level of a bucket over time, what taking and sweeping do to it. Properties:
  the limits on guest creation over any stretch of requests and sweeps, and that forged hops of the
  forwarding chain do not move a caller to another bucket.
\<close>

subsection \<open>The bucket\<close>

record rate_slot =
  sl_tokens :: jsnum
  sl_at :: jsnum

record rate_bucket =
  rb_capacity :: jsnum
  rb_refillPerSecond :: jsnum
  rb_buckets :: "string \<rightharpoonup> rate_slot"

definition new_bucket :: "jsnum \<Rightarrow> jsnum \<Rightarrow> rate_bucket" where
  "new_bucket capacity refillPerSecond =
     \<lparr>rb_capacity = capacity, rb_refillPerSecond = refillPerSecond, rb_buckets = Map.empty\<rparr>"

definition refilled :: "rate_bucket \<Rightarrow> rate_slot \<Rightarrow> jsnum \<Rightarrow> jsnum" where
  "refilled rb slot now =
     (let elapsedS = math_max 0 ((now - sl_at slot) / 1000) in
      math_min (rb_capacity rb) (sl_tokens slot + elapsedS * rb_refillPerSecond rb))"

definition bucket_take :: "rate_bucket \<Rightarrow> string \<Rightarrow> jsnum \<Rightarrow> rate_bucket \<times> bool" where
  "bucket_take rb key now =
     (let slot = nullish (rb_buckets rb key) \<lparr>sl_tokens = rb_capacity rb, sl_at = now\<rparr>;
          tokens = refilled rb slot now in
      if tokens < 1 then (rb\<lparr>rb_buckets := (rb_buckets rb)(key \<mapsto> \<lparr>sl_tokens = tokens, sl_at = now\<rparr>)\<rparr>, False)
      else (rb\<lparr>rb_buckets := (rb_buckets rb)(key \<mapsto> \<lparr>sl_tokens = tokens - 1, sl_at = now\<rparr>)\<rparr>, True))"

definition bucket_peek :: "rate_bucket \<Rightarrow> string \<Rightarrow> jsnum \<Rightarrow> bool" where
  "bucket_peek rb key now = (case rb_buckets rb key of
     None \<Rightarrow> 1 \<le> rb_capacity rb
   | Some slot \<Rightarrow> 1 \<le> refilled rb slot now)"

definition bucket_sweep :: "rate_bucket \<Rightarrow> jsnum \<Rightarrow> jsnum \<Rightarrow> rate_bucket" where
  "bucket_sweep rb now idleMs = rb\<lparr>rb_buckets := (\<lambda>k. case rb_buckets rb k of
     None \<Rightarrow> None
   | Some slot \<Rightarrow> if idleMs < now - sl_at slot then None else Some slot)\<rparr>"

subsection \<open>The caller's address\<close>

definition strip_prefix :: "string \<Rightarrow> string \<Rightarrow> string" where
  "strip_prefix p s = (if startsWith s p then drop (length p) s else s)"

text \<open>The alternatives of the patterns are the decimal numbers 16 to 31 and 64 to 127.\<close>

definition isInfrastructureAddress :: "string \<Rightarrow> bool" where
  "isInfrastructureAddress raw =
     (let ip = strip_prefix ''::ffff:'' (toLowerCase (trim raw)) in
      ip = [] \<or> ip = ''::1'' \<or> ip = ''unknown'' \<or> startsWith ip ''10.'' \<or> startsWith ip ''127.'' \<or> startsWith ip ''192.168.'' \<or>
      list_ex (\<lambda>n. startsWith ip (''172.'' @ show_nat n @ ''.'')) [16..<32] \<or> startsWith ip ''169.254.'' \<or>
      list_ex (\<lambda>n. startsWith ip (''100.'' @ show_nat n @ ''.'')) [64..<128] \<or>
      startsWith ip ''fc'' \<or> startsWith ip ''fd'' \<or>
      startsWith ip ''fe8'' \<or> startsWith ip ''fe9'' \<or> startsWith ip ''fea'' \<or> startsWith ip ''feb'')"

text \<open>A header as Node hands it over: missing, one value, or several.\<close>

datatype header = NoHeader | OneHeader string | ManyHeaders "string list"

record http_request =
  rq_remoteAddress :: "string option"
  rq_cfConnectingIp :: header
  rq_xForwardedFor :: header

fun join_with :: "char \<Rightarrow> string list \<Rightarrow> string" where
  "join_with d [] = []"
| "join_with d [x] = x"
| "join_with d (x # y # zs) = x @ d # join_with d (y # zs)"

definition hops :: "string \<Rightarrow> string list" where
  "hops raw = filter (\<lambda>p. p \<noteq> []) (map trim (split_on (CHR '','') raw))"

definition clientIpFrom :: "http_request \<Rightarrow> bool \<Rightarrow> string" where
  "clientIpFrom rq trustProxy =
     (let peer = (case rq_remoteAddress rq of None \<Rightarrow> ''unknown'' | Some a \<Rightarrow> if a = [] then ''unknown'' else a) in
      if \<not> trustProxy then peer
      else
        (let fromEdge = (case rq_cfConnectingIp rq of NoHeader \<Rightarrow> [] | OneHeader s \<Rightarrow> s
              | ManyHeaders [] \<Rightarrow> [] | ManyHeaders (s # _) \<Rightarrow> s) in
         if trim fromEdge \<noteq> [] then trim fromEdge
         else
           (let parts = (case rq_xForwardedFor rq of NoHeader \<Rightarrow> [] | OneHeader s \<Rightarrow> hops s
                 | ManyHeaders ss \<Rightarrow> hops (join_with (CHR '','') ss)) in
            case List.find (\<lambda>p. \<not> isInfrastructureAddress p) (rev parts) of
              Some p \<Rightarrow> p
            | None \<Rightarrow> peer)))"

definition LOCAL_ENVS :: "string list" where "LOCAL_ENVS = [''development'', ''test'']"

definition clientIp :: "string option \<Rightarrow> http_request \<Rightarrow> string" where
  "clientIp nodeEnv rq = clientIpFrom rq (nullish nodeEnv [] \<notin> set LOCAL_ENVS)"

subsection \<open>Guest creation\<close>

record guest_limits =
  gl_guestBucket :: rate_bucket
  gl_guestGlobalBucket :: rate_bucket

definition new_limits :: guest_limits where
  "new_limits = \<lparr>gl_guestBucket = new_bucket 10 (10 / 3600), gl_guestGlobalBucket = new_bucket 300 (300 / 3600)\<rparr>"

datatype guest_verdict = GuestAdmitted | TooManyFromConnection | TooManyGuests

definition guest_admit :: "guest_limits \<Rightarrow> string \<Rightarrow> jsnum \<Rightarrow> guest_limits \<times> guest_verdict" where
  "guest_admit gl ip now =
     (if \<not> bucket_peek (gl_guestBucket gl) ip now then (gl, TooManyFromConnection)
      else if \<not> bucket_peek (gl_guestGlobalBucket gl) ''all'' now then (gl, TooManyGuests)
      else (gl\<lparr>gl_guestBucket := fst (bucket_take (gl_guestBucket gl) ip now),
               gl_guestGlobalBucket := fst (bucket_take (gl_guestGlobalBucket gl) ''all'' now)\<rparr>, GuestAdmitted))"

definition sweepRateBuckets :: "guest_limits \<Rightarrow> jsnum \<Rightarrow> guest_limits" where
  "sweepRateBuckets gl now =
     gl\<lparr>gl_guestBucket := bucket_sweep (gl_guestBucket gl) now 3600000,
        gl_guestGlobalBucket := bucket_sweep (gl_guestGlobalBucket gl) now 3600000\<rparr>"

subsection \<open>The level of a bucket\<close>

text \<open>The tokens a caller would find at a time, and the shape of a bucket whose last use was by \<open>u\<close>.\<close>

definition level :: "rate_bucket \<Rightarrow> string \<Rightarrow> real \<Rightarrow> real" where
  "level rb key t = (case rb_buckets rb key of
     None \<Rightarrow> fin_val (rb_capacity rb)
   | Some s \<Rightarrow> min (fin_val (rb_capacity rb))
       (fin_val (sl_tokens s) + max 0 ((t - fin_val (sl_at s)) / 1000) * fin_val (rb_refillPerSecond rb)))"

definition bucket_ok :: "real \<Rightarrow> real \<Rightarrow> rate_bucket \<Rightarrow> real \<Rightarrow> bool" where
  "bucket_ok c r rb u = (rb_capacity rb = Fin c \<and> rb_refillPerSecond rb = Fin r \<and>
     (\<forall>k s. rb_buckets rb k = Some s \<longrightarrow> (\<exists>x a. s = \<lparr>sl_tokens = Fin x, sl_at = Fin a\<rparr> \<and> 0 \<le> x \<and> x \<le> c \<and> a \<le> u)))"

lemma bucket_slot:
  assumes "bucket_ok c r rb u" "rb_buckets rb k = Some s"
  obtains x a where "s = \<lparr>sl_tokens = Fin x, sl_at = Fin a\<rparr>" "0 \<le> x" "x \<le> c" "a \<le> u"
    "\<And>t. level rb k t = min c (x + max 0 ((t - a) / 1000) * r)"
proof -
  obtain x a where s: "s = \<lparr>sl_tokens = Fin x, sl_at = Fin a\<rparr>" "0 \<le> x" "x \<le> c" "a \<le> u"
    using assms unfolding bucket_ok_def by blast
  have "level rb k t = min c (x + max 0 ((t - a) / 1000) * r)" for t
    using assms s(1) by (simp add: level_def bucket_ok_def)
  with s that show ?thesis by blast
qed

lemma level_None: "bucket_ok c r rb u \<Longrightarrow> rb_buckets rb k = None \<Longrightarrow> level rb k t = c"
  by (simp add: level_def bucket_ok_def)

lemma level_range:
  assumes "bucket_ok c r rb u" "0 \<le> c" "0 \<le> r"
  shows "0 \<le> level rb k t \<and> level rb k t \<le> c"
proof (cases "rb_buckets rb k")
  case (Some s)
  then obtain x a where "0 \<le> x" "level rb k t = min c (x + max 0 ((t - a) / 1000) * r)"
    using bucket_slot [OF assms(1)] by metis
  then show ?thesis using assms(2,3) by simp
qed (use assms level_None in simp)

lemma refilled_level:
  assumes "bucket_ok c r rb u" "rb_buckets rb k = Some s"
  shows "refilled rb s (Fin t) = Fin (level rb k t)"
proof -
  obtain x a where "s = \<lparr>sl_tokens = Fin x, sl_at = Fin a\<rparr>" "level rb k t = min c (x + max 0 ((t - a) / 1000) * r)"
    using bucket_slot [OF assms] by metis
  then show ?thesis using assms(1) by (simp add: refilled_def bucket_ok_def Let_def)
qed

lemma bucket_peek_level:
  assumes "bucket_ok c r rb u"
  shows "bucket_peek rb k (Fin t) = (1 \<le> level rb k t)"
  using assms refilled_level [OF assms]
  by (cases "rb_buckets rb k") (simp_all add: bucket_peek_def level_None, simp add: bucket_ok_def)

lemma bucket_take_level:
  assumes "bucket_ok c r rb u" "0 \<le> c" "0 \<le> r" "u \<le> t"
  shows "snd (bucket_take rb k (Fin t)) = (1 \<le> level rb k t)"
    and "bucket_ok c r (fst (bucket_take rb k (Fin t))) t"
    and "level (fst (bucket_take rb k (Fin t))) k' t' = (if k' = k
      then min c (level rb k t - (if 1 \<le> level rb k t then 1 else 0) + max 0 ((t' - t) / 1000) * r)
      else level rb k' t')"
proof -
  let ?l = "level rb k t"
  have tok: "refilled rb (nullish (rb_buckets rb k) \<lparr>sl_tokens = rb_capacity rb, sl_at = Fin t\<rparr>) (Fin t) = Fin ?l"
  proof (cases "rb_buckets rb k")
    case None
    then show ?thesis using assms(1) by (simp add: refilled_def level_def bucket_ok_def Let_def)
  qed (use refilled_level [OF assms(1)] in simp)
  have e: "bucket_take rb k (Fin t) =
      (rb\<lparr>rb_buckets := (rb_buckets rb)(k \<mapsto> \<lparr>sl_tokens = Fin (?l - (if 1 \<le> ?l then 1 else 0)), sl_at = Fin t\<rparr>)\<rparr>, 1 \<le> ?l)"
    unfolding bucket_take_def Let_def tok by simp
  show "snd (bucket_take rb k (Fin t)) = (1 \<le> ?l)" by (simp add: e)
  have "0 \<le> ?l" "?l \<le> c" using level_range [OF assms(1-3)] by auto
  then show "bucket_ok c r (fst (bucket_take rb k (Fin t))) t"
    using assms(1,4) by (fastforce simp: e bucket_ok_def)
  show "level (fst (bucket_take rb k (Fin t))) k' t' = (if k' = k
      then min c (level rb k t - (if 1 \<le> level rb k t then 1 else 0) + max 0 ((t' - t) / 1000) * r)
      else level rb k' t')"
    using assms(1) by (cases "k' = k"; cases "rb_buckets rb k'") (simp_all add: e level_def bucket_ok_def)
qed

lemma level_grows:
  assumes "bucket_ok c r rb u" "0 \<le> c" "0 \<le> r" "u \<le> t" "t \<le> t'"
  shows "level rb k t' \<le> level rb k t + (t' - t) / 1000 * r"
proof (cases "rb_buckets rb k")
  case (Some s)
  then obtain x a where s: "a \<le> u" "\<And>t. level rb k t = min c (x + max 0 ((t - a) / 1000) * r)"
    using bucket_slot [OF assms(1)] by metis
  have "max 0 ((t' - a) / 1000) * r = max 0 ((t - a) / 1000) * r + (t' - t) / 1000 * r"
    using assms(4,5) s(1) by (simp add: field_simps)
  moreover have "0 \<le> (t' - t) / 1000 * r" using assms(3,5) by simp
  ultimately show ?thesis unfolding s(2) by linarith
qed (use assms level_None in simp)

text \<open>
  Sweeping is invisible when an idle caller would be full again anyway: what a sweep at \<open>u\<close> drops is a
  bucket that every later look finds at its capacity.
\<close>

lemma sweep_level:
  assumes "bucket_ok c r rb u" "0 \<le> r" "c \<le> 3600 * r" "u \<le> v" "v \<le> t"
  shows "level (bucket_sweep rb (Fin v) 3600000) k t = level rb k t"
proof (cases "rb_buckets rb k")
  case (Some s)
  then obtain x a where s: "s = \<lparr>sl_tokens = Fin x, sl_at = Fin a\<rparr>" "0 \<le> x"
      "\<And>t. level rb k t = min c (x + max 0 ((t - a) / 1000) * r)"
    using bucket_slot [OF assms(1)] by metis
  have "c \<le> x + max 0 ((t - a) / 1000) * r" if "3600000 < v - a"
  proof -
    have "3600 * r \<le> max 0 ((t - a) / 1000) * r" using that assms(2,5) by (intro mult_right_mono) auto
    then show ?thesis using assms(3) s(2) by linarith
  qed
  then show ?thesis using assms(1) Some s by (auto simp: level_def bucket_sweep_def bucket_ok_def)
qed (simp add: level_def bucket_sweep_def)

lemma sweep_ok: "bucket_ok c r rb u \<Longrightarrow> u \<le> v \<Longrightarrow> bucket_ok c r (bucket_sweep rb (Fin v) 3600000) v"
  by (fastforce simp: bucket_ok_def bucket_sweep_def split: option.splits if_splits)

subsection \<open>Limits over time\<close>

datatype limiter_event = GuestRequest string real | SweepTimer real

fun time_of :: "limiter_event \<Rightarrow> real" where
  "time_of (GuestRequest ip t) = t"
| "time_of (SweepTimer t) = t"

fun in_time_order :: "real \<Rightarrow> limiter_event list \<Rightarrow> bool" where
  "in_time_order u [] = True"
| "in_time_order u (v # vs) = (u \<le> time_of v \<and> in_time_order (time_of v) vs)"

fun end_time :: "real \<Rightarrow> limiter_event list \<Rightarrow> real" where
  "end_time u [] = u"
| "end_time u (v # vs) = end_time (time_of v) vs"

fun limiter_run :: "guest_limits \<Rightarrow> limiter_event list \<Rightarrow> (string \<times> guest_verdict) list" where
  "limiter_run gl [] = []"
| "limiter_run gl (GuestRequest ip t # vs) = (let (gl', v) = guest_admit gl ip (Fin t) in (ip, v) # limiter_run gl' vs)"
| "limiter_run gl (SweepTimer t # vs) = limiter_run (sweepRateBuckets gl (Fin t)) vs"

definition admitted_total :: "(string \<times> guest_verdict) list \<Rightarrow> nat" where
  "admitted_total rs = length (filter (\<lambda>p. snd p = GuestAdmitted) rs)"

definition admitted_from :: "string \<Rightarrow> (string \<times> guest_verdict) list \<Rightarrow> nat" where
  "admitted_from ip rs = admitted_total (filter (\<lambda>p. fst p = ip) rs)"

definition limits_ok :: "guest_limits \<Rightarrow> real \<Rightarrow> bool" where
  "limits_ok gl u = (bucket_ok 10 (10 / 3600) (gl_guestBucket gl) u \<and> bucket_ok 300 (300 / 3600) (gl_guestGlobalBucket gl) u)"

lemma limits_ok_sweep:
  assumes "limits_ok gl u" "u \<le> v"
  shows "limits_ok (sweepRateBuckets gl (Fin v)) v"
    and "v \<le> t \<Longrightarrow> level (gl_guestBucket (sweepRateBuckets gl (Fin v))) k t = level (gl_guestBucket gl) k t"
    and "v \<le> t \<Longrightarrow> level (gl_guestGlobalBucket (sweepRateBuckets gl (Fin v))) k t = level (gl_guestGlobalBucket gl) k t"
  using assms sweep_ok sweep_level [of _ _ _ u v t]
  by (auto simp: limits_ok_def sweepRateBuckets_def)

text \<open>A request that is refused is charged nothing; one that is admitted is charged to both buckets.\<close>

lemma guest_admit_level:
  assumes "limits_ok gl u" "u \<le> t" "guest_admit gl ip (Fin t) = (gl', v)"
  shows "limits_ok gl' t"
    and "level (gl_guestBucket gl') k t = level (gl_guestBucket gl) k t - (if v = GuestAdmitted \<and> k = ip then 1 else 0)"
    and "level (gl_guestGlobalBucket gl') ''all'' t = level (gl_guestGlobalBucket gl) ''all'' t - (if v = GuestAdmitted then 1 else 0)"
    and "v \<noteq> GuestAdmitted \<Longrightarrow> gl' = gl"
proof -
  note ok = assms(1) [unfolded limits_ok_def, THEN conjunct1] assms(1) [unfolded limits_ok_def, THEN conjunct2]
  note p = bucket_peek_level [OF ok(1), of ip t] bucket_peek_level [OF ok(2), of "''all''" t]
  note t1 = bucket_take_level [OF ok(1) _ _ assms(2)]
  note t2 = bucket_take_level [OF ok(2) _ _ assms(2)]
  note rng = level_range [OF ok(1), of ip t] level_range [OF ok(2), of "''all''" t]
  have mono: "bucket_ok c r rb u \<Longrightarrow> bucket_ok c r rb t" for c r rb
    using assms(2) unfolding bucket_ok_def by (meson order_trans)
  show "limits_ok gl' t" using assms(3) t1(2) t2(2) mono ok
    by (auto simp: guest_admit_def limits_ok_def split: if_splits)
  show "level (gl_guestBucket gl') k t = level (gl_guestBucket gl) k t - (if v = GuestAdmitted \<and> k = ip then 1 else 0)"
    using assms(3) p rng t1(3) [of ip k t] by (auto simp: guest_admit_def min_def split: if_splits)
  show "level (gl_guestGlobalBucket gl') ''all'' t = level (gl_guestGlobalBucket gl) ''all'' t - (if v = GuestAdmitted then 1 else 0)"
    using assms(3) p rng t2(3) [of "''all''" "''all''" t] by (auto simp: guest_admit_def min_def split: if_splits)
  show "v \<noteq> GuestAdmitted \<Longrightarrow> gl' = gl" using assms(3) by (auto simp: guest_admit_def split: if_splits)
qed

lemma limiter_bounds:
  "limits_ok gl u \<Longrightarrow> in_time_order u vs \<Longrightarrow>
   real (admitted_from ip (limiter_run gl vs)) \<le> level (gl_guestBucket gl) ip u + (end_time u vs - u) / 1000 * (10 / 3600) \<and>
   real (admitted_total (limiter_run gl vs)) \<le> level (gl_guestGlobalBucket gl) ''all'' u + (end_time u vs - u) / 1000 * (300 / 3600)"
proof (induction vs arbitrary: gl u)
  case Nil
  then show ?case using level_range [of 10 "10 / 3600" "gl_guestBucket gl" u ip u]
      level_range [of 300 "300 / 3600" "gl_guestGlobalBucket gl" u "''all''" u]
    by (simp add: limits_ok_def admitted_from_def admitted_total_def)
next
  case (Cons v vs)
  have grow: "level (gl_guestBucket gl) ip t \<le> level (gl_guestBucket gl) ip u + (t - u) / 1000 * (10 / 3600)"
      "level (gl_guestGlobalBucket gl) ''all'' t \<le> level (gl_guestGlobalBucket gl) ''all'' u + (t - u) / 1000 * (300 / 3600)" if "u \<le> t" for t
    using level_grows [of 10 "10 / 3600" "gl_guestBucket gl" u u t ip] level_grows [of 300 "300 / 3600" "gl_guestGlobalBucket gl" u u t "''all''"]
      Cons.prems(1) that by (simp_all add: limits_ok_def)
  show ?case
  proof (cases v)
    case (GuestRequest ip' t)
    obtain gl' w where g: "guest_admit gl ip' (Fin t) = (gl', w)" by fastforce
    have t: "u \<le> t" "in_time_order t vs" using Cons.prems(2) GuestRequest by simp_all
    note l = guest_admit_level [OF Cons.prems(1) t(1) g]
    show ?thesis
      using Cons.IH [OF l(1) t(2)] grow [OF t(1)] l(2) [of ip] l(3) GuestRequest
      by (simp add: g admitted_from_def admitted_total_def field_simps split: if_splits)
  next
    case (SweepTimer t)
    have t: "u \<le> t" "in_time_order t vs" using Cons.prems(2) SweepTimer by simp_all
    note l = limits_ok_sweep [OF Cons.prems(1) t(1)]
    show ?thesis
      using Cons.IH [OF l(1) t(2)] grow [OF t(1)] l(2) [of t ip] l(3) [of t "''all''"] SweepTimer
      by (simp add: field_simps)
  qed
qed

lemma new_limits_ok: "limits_ok new_limits u"
  by (simp add: limits_ok_def new_limits_def new_bucket_def bucket_ok_def)

text \<open>
  C35. Guest creation is bounded, whoever asks and however often the maps are swept: over any stretch
  of requests in time order, an instance admits from one address at most 10 plus one for every six
  minutes of the stretch, and in all at most 300 plus one for every twelve seconds.
\<close>

theorem guest_creation_bounded:
  assumes "in_time_order u vs"
  shows "real (admitted_from ip (limiter_run new_limits vs)) \<le> 10 + (end_time u vs - u) / 360000 \<and>
    real (admitted_total (limiter_run new_limits vs)) \<le> 300 + (end_time u vs - u) / 12000"
proof -
  have "level (gl_guestBucket new_limits) ip u = 10" "level (gl_guestGlobalBucket new_limits) ''all'' u = 300"
    by (simp_all add: level_def new_limits_def new_bucket_def)
  then show ?thesis using limiter_bounds [OF new_limits_ok assms, of ip] by simp
qed

theorem guest_creation_bounded_witness:
  "real (admitted_from ''1.2.3.4'' (limiter_run new_limits [GuestRequest ''1.2.3.4'' 0, SweepTimer 5, GuestRequest ''1.2.3.4'' 360000])) \<le> 11"
  using guest_creation_bounded [of 0 "[GuestRequest ''1.2.3.4'' 0, SweepTimer 5, GuestRequest ''1.2.3.4'' 360000]" "''1.2.3.4''"]
  by (simp del: limiter_run.simps)

subsection \<open>Forged hops\<close>

lemma split_on_word: "d \<notin> set s \<Longrightarrow> split_on d s = [s]"
  by (induction s) auto

lemma split_on_join:
  "ws \<noteq> [] \<Longrightarrow> \<forall>w\<in>set ws. d \<notin> set w \<Longrightarrow> split_on d (join_with d ws) = ws"
proof (induction d ws rule: join_with.induct)
  case (2 d x)
  then show ?case by (simp add: split_on_word)
next
  case (3 d x y zs)
  then show ?case by (simp add: split_on_append split_on_word)
qed simp

text \<open>
  A caller cannot choose their bucket: behind a trusted proxy that appends the address it saw,
  and any number of internal hops after it, the caller is keyed by that address, whatever entries
  they put in front of it themselves.
\<close>

theorem forged_hops_ignored:
  assumes "rq_cfConnectingIp rq = NoHeader"
    "rq_xForwardedFor rq = OneHeader (join_with (CHR '','') (forged @ caller # internal))"
    "\<forall>w\<in>set (forged @ caller # internal). CHR '','' \<notin> set w" "trim caller \<noteq> []"
    "\<not> isInfrastructureAddress (trim caller)" "list_all (\<lambda>h. isInfrastructureAddress (trim h)) internal"
  shows "clientIpFrom rq True = trim caller"
proof -
  have "hops (join_with (CHR '','') (forged @ caller # internal)) =
      filter (\<lambda>p. p \<noteq> []) (map trim forged) @ trim caller # filter (\<lambda>p. p \<noteq> []) (map trim internal)"
    using assms(3,4) by (simp add: hops_def split_on_join)
  moreover have "List.find (\<lambda>p. \<not> isInfrastructureAddress p) (rev hs @ p # qs) = Some p"
    if "list_all isInfrastructureAddress hs" "\<not> isInfrastructureAddress p" for hs p qs
    using that by (induction hs rule: rev_induct) simp_all
  moreover have "list_all isInfrastructureAddress (filter (\<lambda>p. p \<noteq> []) (map trim internal))"
    using assms(6) by (auto simp: list_all_iff)
  ultimately show ?thesis using assms(1,2,5) by (simp add: clientIpFrom_def trim_def)
qed

definition demo_request :: http_request where
  "demo_request = \<lparr>rq_remoteAddress = Some ''10.0.0.9'', rq_cfConnectingIp = NoHeader,
     rq_xForwardedFor = OneHeader ''6.6.6.6,93.184.216.34, 10.1.2.3''\<rparr>"

theorem forged_hops_ignored_witness: "clientIpFrom demo_request True = ''93.184.216.34''"
proof -
  have h: "rq_cfConnectingIp demo_request = NoHeader"
    "rq_xForwardedFor demo_request = OneHeader (join_with (CHR '','') ([''6.6.6.6''] @ ''93.184.216.34'' # ['' 10.1.2.3'']))"
    by (simp_all add: demo_request_def)
  have c: "\<forall>w\<in>set ([''6.6.6.6''] @ ''93.184.216.34'' # ['' 10.1.2.3'']). CHR '','' \<notin> set w" by simp
  have t: "trim ''93.184.216.34'' = ''93.184.216.34''" by code_simp
  have i: "\<not> isInfrastructureAddress ''93.184.216.34''" by code_simp
  have n: "list_all (\<lambda>h. isInfrastructureAddress (trim h)) ['' 10.1.2.3'']" by code_simp
  show ?thesis using forged_hops_ignored [OF h c _ _ n] t i by simp
qed

end
