(* ===== verification/AuthRoutes.thy ===== *)
theory AuthRoutes
  imports Sessions Guards OAuth RateBucket
begin

text \<open>
  The routes of auth/auth.controller.ts over the account operations, the guard, the Google flow and
  the guest limits. A route takes the request's Authorization header and arguments and returns the
  new state with its answer. Properties: changing the password or attaching Google to an account
  with a password takes more than a session token; elevation takes the account's own Google identity;
  signing out ends the token on the instance and in the database.
\<close>

subsection \<open>Data\<close>

record auth_app =
  aa_accounts :: accounts
  aa_revocation :: revocation
  aa_limits :: guest_limits

text \<open>What the routes are wired to: hashing, the JWT library, the codec, Google, the URL parser and NODE_ENV.\<close>

record auth_ctx =
  cx_env :: auth_env
  cx_verify :: verifier
  cx_codec :: state_codec
  cx_google :: google_config
  cx_exchange :: google_exchange
  cx_parse :: "string \<Rightarrow> url option"
  cx_nodeEnv :: "string option"

datatype route_error =
    NotAuthenticated guard_error
  | ServiceError auth_error
  | TooManyRequests guest_verdict
  | GoogleAlreadyLinked
  | PasswordRequired
  | WrongMethod
  | WrongPassword
  | ConfirmWithGoogle
  | NoReauthMethod
  | InvalidOwnToken
  | ElevatedRefused
  | GoogleNotConfigured

definition js_truthy :: "jsval \<Rightarrow> bool" where
  "js_truthy v = (case v of JUndef \<Rightarrow> False | JNull \<Rightarrow> False | JNum x \<Rightarrow> x \<noteq> 0 \<and> x \<noteq> NaN | JStr s \<Rightarrow> s \<noteq> [] | JOther \<Rightarrow> True)"

definition decodeOwnToken :: "verifier \<Rightarrow> string option \<Rightarrow> token_payload option" where
  "decodeOwnToken verify header = (case header of
     None \<Rightarrow> None
   | Some h \<Rightarrow>
       (let parts = split_ws (trim h) in
        if length parts < 2 \<or> parts ! 1 = [] then None
        else (case verify (parts ! 1) of Verified p \<Rightarrow> Some p | _ \<Rightarrow> None)))"

subsection \<open>Routes without a session\<close>

definition now_of :: "auth_app \<Rightarrow> jsnum" where
  "now_of app = Fin (real (ad_now (ac_auth (aa_accounts app))))"

definition lift_auth :: "auth_app \<Rightarrow> accounts \<times> (auth_error + 'a) \<Rightarrow> auth_app \<times> (route_error + 'a)" where
  "lift_auth app r = (app\<lparr>aa_accounts := fst r\<rparr>, case snd r of Inl e \<Rightarrow> Inl (ServiceError e) | Inr x \<Rightarrow> Inr x)"

definition route_register ::
  "auth_ctx \<Rightarrow> auth_app \<Rightarrow> string \<Rightarrow> string \<Rightarrow> string \<Rightarrow> string \<Rightarrow> string \<Rightarrow> auth_app \<times> (route_error + session_user)" where
  "route_register cx app username email password uid jti =
     lift_auth app (register (cx_env cx) (aa_accounts app) username email password uid jti)"

definition route_login :: "auth_ctx \<Rightarrow> auth_app \<Rightarrow> string \<Rightarrow> string \<Rightarrow> string \<Rightarrow> route_error + session_user" where
  "route_login cx app username password jti = (case login (cx_env cx) (aa_accounts app) username password jti of
     Inl e \<Rightarrow> Inl (ServiceError e) | Inr s \<Rightarrow> Inr s)"

definition route_guest ::
  "auth_ctx \<Rightarrow> auth_app \<Rightarrow> http_request \<Rightarrow> (nat \<Rightarrow> nat) \<Rightarrow> (nat \<Rightarrow> string) \<Rightarrow> string \<Rightarrow> string \<Rightarrow>
   auth_app \<times> (route_error + session_user)" where
  "route_guest cx app rq draw uuid uid jti =
     (case guest_admit (aa_limits app) (clientIp (cx_nodeEnv cx) rq) (now_of app) of
        (gl, GuestAdmitted) \<Rightarrow>
          lift_auth (app\<lparr>aa_limits := gl\<rparr>) (createGuest (cx_env cx) (aa_accounts app) draw uuid uid jti)
      | (gl, v) \<Rightarrow> (app\<lparr>aa_limits := gl\<rparr>, Inl (TooManyRequests v)))"

definition route_providers :: "auth_ctx \<Rightarrow> bool" where
  "route_providers cx = google_enabled (cx_parse cx) (cx_google cx)"

subsection \<open>Routes behind the guard\<close>

definition guarded ::
  "auth_ctx \<Rightarrow> auth_app \<Rightarrow> string option \<Rightarrow> (string \<Rightarrow> auth_app \<times> (route_error + 'a)) \<Rightarrow> auth_app \<times> (route_error + 'a)" where
  "guarded cx app header k = (case canActivate (cx_verify cx) (aa_revocation app) header of
     Inl e \<Rightarrow> (app, Inl (NotAuthenticated e))
   | Inr u \<Rightarrow> k (au_userId u))"

definition route_claim ::
  "auth_ctx \<Rightarrow> auth_app \<Rightarrow> string option \<Rightarrow> string \<Rightarrow> string \<Rightarrow> string \<Rightarrow> string \<Rightarrow> auth_app \<times> (route_error + session_user)" where
  "route_claim cx app header username email password jti = guarded cx app header (\<lambda>i.
     lift_auth app (claimGuestAccount (cx_env cx) (aa_accounts app) i username email password jti))"

text \<open>The answer is whether the token could be revoked.\<close>

definition route_logout :: "auth_ctx \<Rightarrow> auth_app \<Rightarrow> string option \<Rightarrow> auth_app \<times> (route_error + bool)" where
  "route_logout cx app header = guarded cx app header (\<lambda>i.
     case decodeOwnToken (cx_verify cx) header of
       None \<Rightarrow> (app, Inr False)
     | Some p \<Rightarrow>
         (case (tp_jti p, tp_sub p) of
            (JStr j, JStr u) \<Rightarrow>
              if j = [] \<or> u = [] then (app, Inr False)
              else
                (let a = aa_accounts app; (db, rv, ev) = revokeToken (ac_auth a) (aa_revocation app) j u (expiry_ms a p) in
                 (app\<lparr>aa_accounts := a\<lparr>ac_auth := db\<rparr>, aa_revocation := rv\<rparr>, Inr True))
          | _ \<Rightarrow> (app, Inr False)))"

definition route_logoutAll :: "auth_ctx \<Rightarrow> auth_app \<Rightarrow> string option \<Rightarrow> auth_app \<times> (route_error + nat)" where
  "route_logoutAll cx app header = guarded cx app header (\<lambda>i.
     let a = aa_accounts app; (db, rv, ev, v) = revokeAllForUser (ac_auth a) (aa_revocation app) i in
     (app\<lparr>aa_accounts := a\<lparr>ac_auth := db\<rparr>, aa_revocation := rv\<rparr>, Inr v))"

definition route_me :: "auth_ctx \<Rightarrow> auth_app \<Rightarrow> string option \<Rightarrow> auth_app \<times> (route_error + me_view)" where
  "route_me cx app header = guarded cx app header (\<lambda>i.
     (app, case me (aa_accounts app) i of Inl e \<Rightarrow> Inl (ServiceError e) | Inr v \<Rightarrow> Inr v))"

text \<open>Starting a flow hands back the address to go to and the sealed cookie; the two random tokens are arguments.\<close>

definition begin_flow ::
  "auth_ctx \<Rightarrow> auth_app \<Rightarrow> string option \<Rightarrow> string option \<Rightarrow> flow_purpose option \<Rightarrow> string \<Rightarrow> string \<Rightarrow>
   auth_app \<times> (route_error + (string \<times> string) \<times> string)" where
  "begin_flow cx app returnTo i purpose st ver =
     (app, if google_enabled (cx_parse cx) (cx_google cx)
           then Inr (google_start (cx_codec cx) (cx_google cx) returnTo (now_of app) i purpose st ver)
           else Inl GoogleNotConfigured)"

definition route_linkStart ::
  "auth_ctx \<Rightarrow> auth_app \<Rightarrow> string option \<Rightarrow> string option \<Rightarrow> string option \<Rightarrow> string \<Rightarrow> string \<Rightarrow>
   auth_app \<times> (route_error + (string \<times> string) \<times> string)" where
  "route_linkStart cx app header returnTo password st ver = guarded cx app header (\<lambda>i.
     if hasGoogleLink (aa_accounts app) i then (app, Inl GoogleAlreadyLinked)
     else (case reauthMethodFor (aa_accounts app) i of
         Some ReauthPassword \<Rightarrow>
           if verifyPassword (cx_env cx) (aa_accounts app) i (nullish password [])
           then begin_flow cx app returnTo (Some i) (Some LinkFull) st ver
           else (app, Inl PasswordRequired)
       | Some ReauthGoogle \<Rightarrow> (app, Inl GoogleAlreadyLinked)
       | None \<Rightarrow> begin_flow cx app returnTo (Some i) (Some LinkGuest) st ver))"

definition route_reauthStart ::
  "auth_ctx \<Rightarrow> auth_app \<Rightarrow> string option \<Rightarrow> string option \<Rightarrow> string \<Rightarrow> string \<Rightarrow>
   auth_app \<times> (route_error + (string \<times> string) \<times> string)" where
  "route_reauthStart cx app header returnTo st ver = guarded cx app header (\<lambda>i.
     if reauthMethodFor (aa_accounts app) i \<noteq> Some ReauthGoogle then (app, Inl WrongMethod)
     else begin_flow cx app returnTo (Some i) (Some Reauth) st ver)"

definition change_password ::
  "auth_ctx \<Rightarrow> auth_app \<Rightarrow> string \<Rightarrow> string \<Rightarrow> string \<Rightarrow> auth_app \<times> (route_error + session_user)" where
  "change_password cx app i newPassword jti =
     (case setPassword (cx_env cx) (aa_accounts app) (aa_revocation app) i newPassword jti of
        (a, rv, r) \<Rightarrow> (app\<lparr>aa_accounts := a, aa_revocation := rv\<rparr>,
          case r of Inl e \<Rightarrow> Inl (ServiceError e) | Inr s \<Rightarrow> Inr s))"

definition route_setPassword ::
  "auth_ctx \<Rightarrow> auth_app \<Rightarrow> string option \<Rightarrow> string option \<Rightarrow> string option \<Rightarrow> string \<Rightarrow> auth_app \<times> (route_error + session_user)" where
  "route_setPassword cx app header currentPassword newPassword jti = guarded cx app header (\<lambda>i.
     case reauthMethodFor (aa_accounts app) i of
       Some ReauthPassword \<Rightarrow>
         if verifyPassword (cx_env cx) (aa_accounts app) i (nullish currentPassword [])
         then change_password cx app i (nullish newPassword []) jti
         else (app, Inl WrongPassword)
     | Some ReauthGoogle \<Rightarrow>
         (case decodeOwnToken (cx_verify cx) header of
            None \<Rightarrow> (app, Inl ConfirmWithGoogle)
          | Some p \<Rightarrow>
              if tp_elev p \<noteq> JStr ''reauth'' \<or> tp_sub p \<noteq> JStr i then (app, Inl ConfirmWithGoogle)
              else change_password cx app i (nullish newPassword []) jti)
     | None \<Rightarrow> (app, Inl NoReauthMethod))"

definition route_refresh :: "auth_ctx \<Rightarrow> auth_app \<Rightarrow> string option \<Rightarrow> string \<Rightarrow> auth_app \<times> (route_error + session_user)" where
  "route_refresh cx app header jti = guarded cx app header (\<lambda>i.
     case decodeOwnToken (cx_verify cx) header of
       None \<Rightarrow> (app, Inl InvalidOwnToken)
     | Some p \<Rightarrow>
         if js_truthy (tp_elev p) then (app, Inl ElevatedRefused)
         else (case refreshSession (cx_env cx) (aa_accounts app) (aa_revocation app) p jti of
             (a, rv, r) \<Rightarrow> (app\<lparr>aa_accounts := a, aa_revocation := rv\<rparr>,
               case r of Inl e \<Rightarrow> Inl (ServiceError e) | Inr s \<Rightarrow> Inr s)))"

subsection \<open>The callback\<close>

definition route_start ::
  "auth_ctx \<Rightarrow> auth_app \<Rightarrow> string option \<Rightarrow> string \<Rightarrow> string \<Rightarrow> auth_app \<times> (route_error + (string \<times> string) \<times> string)" where
  "route_start cx app returnTo st ver = begin_flow cx app returnTo None None st ver"

datatype landing = LandToken session_user jsval | LandElevated token_payload jsval | LandError string

definition failure_code :: "google_failure \<Rightarrow> string" where
  "failure_code f = (case f of FailState \<Rightarrow> ''state'' | FailDenied \<Rightarrow> ''denied'' | FailUnverified \<Rightarrow> ''unverified'' | FailExchange \<Rightarrow> ''exchange'')"

definition link_code :: "auth_error \<Rightarrow> string" where
  "link_code e = (case e of
     LinkProviderTaken \<Rightarrow> ''link_provider_taken''
   | LinkEmailTaken \<Rightarrow> ''link_email_taken''
   | LinkNotGuest \<Rightarrow> ''link_not_guest''
   | GoogleEmailTaken \<Rightarrow> ''email_taken''
   | _ \<Rightarrow> ''exchange'')"

text \<open>Where the browser lands; \<open>draw\<close>, \<open>uid\<close> and \<open>jti\<close> are the random choices of the account operations.\<close>

definition route_callback ::
  "auth_ctx \<Rightarrow> auth_app \<Rightarrow> callback_params \<Rightarrow> (nat \<Rightarrow> nat) \<Rightarrow> string \<Rightarrow> string \<Rightarrow> auth_app \<times> (route_error + landing)" where
  "route_callback cx app ps draw uid jti =
     (if \<not> google_enabled (cx_parse cx) (cx_google cx) then (app, Inl GoogleNotConfigured)
      else (case verifyCallback (cx_codec cx) (cx_google cx) (cx_exchange cx) ps (now_of app) of
          Inl f \<Rightarrow> (app, Inr (LandError (failure_code f)))
        | Inr fr \<Rightarrow>
            (let a = aa_accounts app; ident = fr_identity fr;
                 finish = (\<lambda>(a', r). (app\<lparr>aa_accounts := a'\<rparr>, Inr (case r of Inr s \<Rightarrow> LandToken s (fr_returnTo fr) | Inl e \<Rightarrow> LandError (link_code e)))) in
             if \<not> js_truthy (fr_linkUserId fr) then finish (signInWithGoogle (cx_env cx) a ident draw uid jti)
             else (case fr_linkUserId fr of
                 JStr i \<Rightarrow>
                   if fr_purpose fr = JStr ''reauth'' then
                     (if googleSubjectOwner a (gi_subject ident) \<noteq> Some i then (app, Inr (LandError ''reauth_mismatch''))
                      else (app, Inr (case mintElevatedToken a i jti of
                          Inr p \<Rightarrow> LandElevated p (fr_returnTo fr) | Inl e \<Rightarrow> LandError (link_code e))))
                   else if fr_purpose fr = JStr ''link-full'' then finish (linkGoogleToFull (cx_env cx) a i ident jti)
                   else finish (linkGoogleToGuest (cx_env cx) a i ident draw jti)
               | _ \<Rightarrow> (app, Inr (LandError ''exchange''))))))"

subsection \<open>Step-up authentication\<close>

lemma guarded_Inr:
  "guarded cx app header k = (app', Inr r) \<longleftrightarrow>
   (\<exists>u. canActivate (cx_verify cx) (aa_revocation app) header = Inr u \<and> k (au_userId u) = (app', Inr r))"
  by (auto simp: guarded_def split: sum.splits)

lemma reauth_password: "reauthMethodFor a i = Some ReauthGoogle \<Longrightarrow> \<exists>u. find_user a i = Some u \<and> \<not> truthy (us_password u) \<and> hasLink a i"
  by (auto simp: reauthMethodFor_def split: option.splits if_splits)

text \<open>
  The proof of identity beyond a session: the current password of an account that has one, a token elevated for
  this very account otherwise.
\<close>

definition proved_identity :: "auth_ctx \<Rightarrow> auth_app \<Rightarrow> string option \<Rightarrow> string option \<Rightarrow> string \<Rightarrow> bool" where
  "proved_identity cx app header cur i = (case find_user (aa_accounts app) i of
     None \<Rightarrow> False
   | Some row \<Rightarrow>
       if truthy (us_password row) then e_compare (cx_env cx) (nullish cur []) (nullish (us_password row) [])
       else hasLink (aa_accounts app) i \<and>
         (\<exists>p. decodeOwnToken (cx_verify cx) header = Some p \<and> tp_elev p = JStr ''reauth'' \<and> tp_sub p = JStr i))"

text \<open>The state after a password change: the row of the account, its version and nothing else.\<close>

definition password_changed :: "auth_env \<Rightarrow> auth_app \<Rightarrow> string \<Rightarrow> string \<Rightarrow> auth_app \<Rightarrow> bool" where
  "password_changed env app i pw app' \<longleftrightarrow> (\<exists>row. find_user (aa_accounts app) i = Some row \<and> 8 \<le> length pw \<and>
     app' = app\<lparr>
       aa_accounts := (aa_accounts app)\<lparr>
         ac_users := map (\<lambda>w. if us_id w = i then row\<lparr>us_password := Some (e_hash env pw)\<rparr> else w) (ac_users (aa_accounts app)),
         ac_auth := (ac_auth (aa_accounts app))\<lparr>ad_versions := (ad_versions (ac_auth (aa_accounts app)))(i := tokenVersion (aa_accounts app) i + 1)\<rparr>\<rparr>,
       aa_revocation := rememberVersion (aa_revocation app) i (tokenVersion (aa_accounts app) i + 1)\<rparr>)"

lemma change_password_cases:
  assumes "change_password cx app i pw jti = (app', res)"
  shows "case res of Inl e \<Rightarrow> app' = app | Inr s \<Rightarrow> password_changed (cx_env cx) app i pw app' \<and> su_id s = i"
proof (cases res)
  case (Inl e)
  then show ?thesis using assms
    by (auto simp: change_password_def setPassword_def Let_def split: prod.splits sum.splits if_splits option.splits)
next
  case (Inr s)
  then show ?thesis using assms find_user_Some [of "aa_accounts app" i]
    by (auto simp: change_password_def setPassword_def password_changed_def session_for_def noteVersionBumped_def Let_def
        split: prod.splits sum.splits if_splits option.splits)
qed

lemma setPassword_needs_proof:
  assumes "route_setPassword cx app header cur new jti = (app', res)"
  shows "case res of Inl e \<Rightarrow> app' = app | Inr s \<Rightarrow>
    (\<exists>u. canActivate (cx_verify cx) (aa_revocation app) header = Inr u \<and> proved_identity cx app header cur (au_userId u) \<and>
      password_changed (cx_env cx) app (au_userId u) (nullish new []) app' \<and> su_id s = au_userId u)"
proof (cases "canActivate (cx_verify cx) (aa_revocation app) header")
  case (Inl e)
  then show ?thesis using assms by (auto simp: route_setPassword_def guarded_def)
next
  case (Inr u)
  let ?i = "au_userId u"
  have refused: ?thesis if "\<exists>e. (app', res) = (app, Inl e)" using that by auto
  have changed: ?thesis if "change_password cx app ?i (nullish new []) jti = (app', res)" "proved_identity cx app header cur ?i"
    using change_password_cases [OF that(1)] that(2) Inr by (cases res) auto
  consider "reauthMethodFor (aa_accounts app) ?i = None" | "reauthMethodFor (aa_accounts app) ?i = Some ReauthPassword"
    | "reauthMethodFor (aa_accounts app) ?i = Some ReauthGoogle" using reauth.exhaust option.exhaust by metis
  then show ?thesis
  proof cases
    case 1
    then show ?thesis using assms Inr by (intro refused) (auto simp: route_setPassword_def guarded_def)
  next
    case 2
    show ?thesis
    proof (cases "verifyPassword (cx_env cx) (aa_accounts app) ?i (nullish cur [])")
      case True
      then have "proved_identity cx app header cur ?i" by (auto simp: verifyPassword_def proved_identity_def split: option.splits)
      then show ?thesis using assms Inr 2 True by (intro changed) (auto simp: route_setPassword_def guarded_def)
    next
      case False
      then show ?thesis using assms Inr 2 by (intro refused) (auto simp: route_setPassword_def guarded_def)
    qed
  next
    case 3
    obtain row where row: "find_user (aa_accounts app) ?i = Some row" "\<not> truthy (us_password row)" "hasLink (aa_accounts app) ?i"
      using reauth_password [OF 3] by blast
    show ?thesis
    proof (cases "\<exists>p. decodeOwnToken (cx_verify cx) header = Some p \<and> tp_elev p = JStr ''reauth'' \<and> tp_sub p = JStr ?i")
      case True
      then have "proved_identity cx app header cur ?i" using row by (simp add: proved_identity_def)
      then show ?thesis using assms Inr 3 True by (intro changed) (auto simp: route_setPassword_def guarded_def)
    next
      case False
      then show ?thesis using assms Inr 3 by (intro refused) (auto simp: route_setPassword_def guarded_def split: option.splits if_splits)
    qed
  qed
qed

text \<open>The flows that may be begun, and for what.\<close>

lemma flows_begun:
  "route_linkStart cx app header ret pw st ver = (app', res) \<Longrightarrow> app' = app \<and> (\<forall>cookie. res = Inr cookie \<longrightarrow>
     (\<exists>u. canActivate (cx_verify cx) (aa_revocation app) header = Inr u \<and> \<not> hasGoogleLink (aa_accounts app) (au_userId u) \<and>
       (if reauthMethodFor (aa_accounts app) (au_userId u) = Some ReauthPassword
        then verifyPassword (cx_env cx) (aa_accounts app) (au_userId u) (nullish pw []) \<and>
          cookie = google_start (cx_codec cx) (cx_google cx) ret (now_of app) (Some (au_userId u)) (Some LinkFull) st ver
        else reauthMethodFor (aa_accounts app) (au_userId u) = None \<and>
          cookie = google_start (cx_codec cx) (cx_google cx) ret (now_of app) (Some (au_userId u)) (Some LinkGuest) st ver)))"
  "route_reauthStart cx app header ret st ver = (app', res) \<Longrightarrow> app' = app \<and> (\<forall>cookie. res = Inr cookie \<longrightarrow>
     (\<exists>i. cookie = google_start (cx_codec cx) (cx_google cx) ret (now_of app) (Some i) (Some Reauth) st ver))"
  "route_start cx app ret st ver = (app', res) \<Longrightarrow> app' = app \<and> (\<forall>cookie. res = Inr cookie \<longrightarrow>
     cookie = google_start (cx_codec cx) (cx_google cx) ret (now_of app) None None st ver)"
  by (auto simp: route_linkStart_def route_reauthStart_def route_start_def guarded_def begin_flow_def
      split: sum.splits if_splits option.splits reauth.splits dest!: sym [of "google_start _ _ _ _ _ _ _ _"])

text \<open>What a verified return rests on.\<close>

lemma verifyCallback_Inr:
  assumes "verifyCallback co cf ex ps now = Inr fr"
  obtains opened ver cl code where "openState co (cb_cookie ps) (gc_secret cf) now = Some opened" "fr_linkUserId fr = rw_linkUserId opened"
    "fr_purpose fr = rw_purpose opened" "rw_codeVerifier opened = JStr ver" "cb_state ps \<noteq> None"
    "rw_state opened = JStr (nullish (cb_state ps) [])" "cb_code ps = Some code" "ex code ver = Some cl" "cl_emailVerified cl"
    "gi_subject (fr_identity fr) = nullish (cl_sub cl) []"
proof -
  obtain opened where o: "openState co (cb_cookie ps) (gc_secret cf) now = Some opened" "truthy (cb_state ps)"
      "rw_state opened = JStr (nullish (cb_state ps) [])" "truthy (cb_code ps)"
    using assms by (auto simp: verifyCallback_def split: if_splits option.splits)
  obtain st code where sc: "cb_state ps = Some st" "cb_code ps = Some code" using o(2,4) by (auto simp: truthy_iff)
  obtain ver where v: "rw_codeVerifier opened = JStr ver"
    using assms o by (cases "rw_codeVerifier opened") (auto simp: verifyCallback_def split: if_splits)
  obtain cl where c: "ex code ver = Some cl" "identity_of cl = Inr (fr_identity fr)" "fr_linkUserId fr = rw_linkUserId opened"
      "fr_purpose fr = rw_purpose opened"
    using assms o v sc by (auto simp: verifyCallback_def split: if_splits option.splits sum.splits)
  have "cl_emailVerified cl" "gi_subject (fr_identity fr) = nullish (cl_sub cl) []"
    using c(2) by (auto simp: identity_of_def split: if_splits dest!: sym [of _ "fr_identity fr"])
  with o v sc c show ?thesis by (intro that) auto
qed

text \<open>What an account operation of the callback may write: new links, and no password of an account there is.\<close>

definition keeps_passwords :: "accounts \<Rightarrow> accounts \<Rightarrow> bool" where
  "keeps_passwords a a' \<longleftrightarrow> (\<forall>i u. find_user a i = Some u \<longrightarrow> (\<exists>u'. find_user a' i = Some u' \<and> us_password u' = us_password u))"

definition adds_links :: "accounts \<Rightarrow> accounts \<Rightarrow> (oauth_row \<Rightarrow> bool) \<Rightarrow> bool" where
  "adds_links a a' P \<longleftrightarrow> (\<exists>ls. ac_links a' = ac_links a @ ls \<and> (\<forall>l \<in> set ls. P l))"

lemma callback_writes_refl [simp]: "keeps_passwords a a" "adds_links a a P"
  by (simp_all add: keeps_passwords_def adds_links_def)

lemma adds_links_mono: "adds_links a a' P \<Longrightarrow> (\<And>l. P l \<Longrightarrow> Q l) \<Longrightarrow> adds_links a a' Q"
  unfolding adds_links_def by blast

lemma keeps_passwords_insert: "insert_user a r = Inr a' \<Longrightarrow> keeps_passwords a a' \<and> ac_links a' = ac_links a"
  by (auto simp: insert_user_def keeps_passwords_def find_user_def find_append_Some split: option.splits)

lemma keeps_passwords_update:
  assumes "update_user a r = Inr a'" "find_user a (us_id r) = Some u" "us_password r = us_password u"
  shows "keeps_passwords a a' \<and> ac_links a' = ac_links a"
proof -
  have a': "a' = a\<lparr>ac_users := map (\<lambda>u. if us_id u = us_id r then r else u) (ac_users a)\<rparr>"
    using assms(1) by (auto simp: update_user_def split: option.splits)
  have "\<exists>w'. find_user a' i = Some w' \<and> us_password w' = us_password w" if w: "find_user a i = Some w" for i w
  proof (cases "i = us_id r")
    case True
    then show ?thesis using w assms(2,3) by (auto simp: a' find_user_def find_map_replace)
  next
    case False
    have "List.find (\<lambda>u. us_id u = i) us = Some w \<Longrightarrow>
        List.find (\<lambda>u. us_id u = i) (map (\<lambda>u. if us_id u = us_id r then r else u) us) = Some w" for us
      using False by (induction us) auto
    then show ?thesis using w by (auto simp: a' find_user_def)
  qed
  then show ?thesis by (simp add: keeps_passwords_def a')
qed

lemma insert_link_writes: "insert_link a l = Inr a' \<Longrightarrow> keeps_passwords a a' \<and> ac_links a' = ac_links a @ [l]"
  by (auto simp: insert_link_def keeps_passwords_def find_user_def split: if_splits)

lemma keeps_passwords_trans: "keeps_passwords a b \<Longrightarrow> keeps_passwords b c \<Longrightarrow> keeps_passwords a c"
  unfolding keeps_passwords_def by metis

lemma then_link_writes:
  assumes "then_link r l = Inr a'" "\<And>b. r = Inr b \<Longrightarrow> keeps_passwords a b \<and> ac_links b = ac_links a"
  shows "keeps_passwords a a' \<and> ac_links a' = ac_links a @ [l]"
  using then_link_Inr [OF assms(1)] assms(2) insert_link_writes keeps_passwords_trans by metis

lemma signIn_writes:
  assumes "signInWithGoogle env a ident draw uid jti = (a', res)"
  shows "keeps_passwords a a' \<and> adds_links a a' (\<lambda>l. oa_userId l = uid)"
proof -
  have made: "keeps_passwords a b \<and> adds_links a b (\<lambda>l. oa_userId l = uid)"
    if "then_link (insert_user a row) (google_link (gi_subject ident) e uid) = Inr b" for row e b
    using then_link_writes [OF that, of a] keeps_passwords_insert [of a row] by (auto simp: adds_links_def google_link_def)
  show ?thesis using assms
    by (auto simp: signInWithGoogle_def createGoogleUser_def Let_def split: option.splits if_splits sum.splits db_error.splits
        dest!: try_names_Inr made)
qed

lemma linkFull_writes:
  assumes "linkGoogleToFull env a i ident jti = (a', res)"
  shows "keeps_passwords a a' \<and> adds_links a a' (\<lambda>l. l = google_link (gi_subject ident) None i)"
  using assms insert_link_writes by (fastforce simp: linkGoogleToFull_def adds_links_def split: option.splits sum.splits)

lemma linkGuest_writes:
  assumes "linkGoogleToGuest env a i ident draw jti = (a', res)"
  shows "keeps_passwords a a' \<and> adds_links a a' (\<lambda>l. l = google_link (gi_subject ident) None i \<and> (\<exists>u. find_user a i = Some u \<and> us_isGuest u))"
proof (cases "find_user a i")
  case (Some u)
  have made: "keeps_passwords a b \<and> ac_links b = ac_links a @ [google_link (gi_subject ident) None i]"
    if "then_link (update_user a (u\<lparr>us_username := n, us_email := m, us_isGuest := g\<rparr>)) (google_link (gi_subject ident) None i) = Inr b" for n m g b
    using then_link_writes [OF that, of a] keeps_passwords_update [of a "u\<lparr>us_username := n, us_email := m, us_isGuest := g\<rparr>" _ u]
      find_user_Some [OF Some] Some by auto
  show ?thesis
  proof (cases "us_isGuest u")
    case True
    have "a' = a \<or> (\<exists>n m. then_link (update_user a (u\<lparr>us_username := n, us_email := m, us_isGuest := False\<rparr>))
        (google_link (gi_subject ident) None i) = Inr a')"
      using assms Some True
      by (auto simp: linkGoogleToGuest_def Let_def split: if_splits option.splits sum.splits db_error.splits dest!: try_names_Inr)
    then show ?thesis using made Some True by (auto simp: adds_links_def)
  next
    case False
    then show ?thesis using assms Some by (simp add: linkGoogleToGuest_def)
  qed
qed (use assms in \<open>simp add: linkGoogleToGuest_def\<close>)

text \<open>A return from Google that was opened under the server's key for the account \<open>i\<close> and that Google vouched for.\<close>

definition returned_for :: "auth_ctx \<Rightarrow> auth_app \<Rightarrow> callback_params \<Rightarrow> string \<Rightarrow> string \<Rightarrow> raw_state \<Rightarrow> bool" where
  "returned_for cx app ps i subject opened \<longleftrightarrow>
     openState (cx_codec cx) (cb_cookie ps) (gc_secret (cx_google cx)) (now_of app) = Some opened \<and> rw_linkUserId opened = JStr i \<and>
     rw_state opened = JStr (nullish (cb_state ps) []) \<and>
     (\<exists>ver code cl. rw_codeVerifier opened = JStr ver \<and> cb_code ps = Some code \<and> cx_exchange cx code ver = Some cl \<and> cl_emailVerified cl \<and>
       subject = nullish (cl_sub cl) [])"

lemma callback_cases:
  assumes "route_callback cx app ps draw uid jti = (app', res)"
  obtains (same) "app' = app"
  | (signin) fr r where "verifyCallback (cx_codec cx) (cx_google cx) (cx_exchange cx) ps (now_of app) = Inr fr"
      "signInWithGoogle (cx_env cx) (aa_accounts app) (fr_identity fr) draw uid jti = (aa_accounts app', r)" "app' = app\<lparr>aa_accounts := aa_accounts app'\<rparr>"
  | (full) fr i r where "verifyCallback (cx_codec cx) (cx_google cx) (cx_exchange cx) ps (now_of app) = Inr fr" "fr_linkUserId fr = JStr i"
      "fr_purpose fr = JStr ''link-full''"
      "linkGoogleToFull (cx_env cx) (aa_accounts app) i (fr_identity fr) jti = (aa_accounts app', r)" "app' = app\<lparr>aa_accounts := aa_accounts app'\<rparr>"
  | (guest) fr i r where "verifyCallback (cx_codec cx) (cx_google cx) (cx_exchange cx) ps (now_of app) = Inr fr" "fr_linkUserId fr = JStr i"
      "linkGoogleToGuest (cx_env cx) (aa_accounts app) i (fr_identity fr) draw jti = (aa_accounts app', r)" "app' = app\<lparr>aa_accounts := aa_accounts app'\<rparr>"
proof (cases "google_enabled (cx_parse cx) (cx_google cx)")
  case False
  then show thesis using assms same by (simp add: route_callback_def)
next
  case en: True
  show thesis
  proof (cases "verifyCallback (cx_codec cx) (cx_google cx) (cx_exchange cx) ps (now_of app)")
    case (Inl f)
    then show thesis using assms same en by (simp add: route_callback_def)
  next
    case (Inr fr)
    show thesis
    proof (cases "js_truthy (fr_linkUserId fr)")
      case False
      obtain b r where sg: "signInWithGoogle (cx_env cx) (aa_accounts app) (fr_identity fr) draw uid jti = (b, r)" by fastforce
      then have "app' = app\<lparr>aa_accounts := b\<rparr>" using assms en Inr False by (auto simp: route_callback_def)
      then show thesis using signin [OF Inr] sg by simp
    next
      case t: True
      show thesis
      proof (cases "fr_linkUserId fr")
        case (JStr i)
        consider "fr_purpose fr = JStr ''reauth''" | "fr_purpose fr = JStr ''link-full''" | "fr_purpose fr \<noteq> JStr ''reauth''" "fr_purpose fr \<noteq> JStr ''link-full''" by blast
        then show thesis
        proof cases
          case 1
          then show thesis using assms en Inr t JStr same by (auto simp: route_callback_def Let_def split: if_splits)
        next
          case 2
          obtain b r where sg: "linkGoogleToFull (cx_env cx) (aa_accounts app) i (fr_identity fr) jti = (b, r)" by fastforce
          then have "app' = app\<lparr>aa_accounts := b\<rparr>" using assms en Inr t JStr 2 by (auto simp: route_callback_def)
          then show thesis using full [OF Inr JStr 2] sg by simp
        next
          case 3
          obtain b r where sg: "linkGoogleToGuest (cx_env cx) (aa_accounts app) i (fr_identity fr) draw jti = (b, r)" by fastforce
          then have "app' = app\<lparr>aa_accounts := b\<rparr>" using assms en Inr t JStr 3 by (auto simp: route_callback_def)
          then show thesis using guest [OF Inr JStr] sg by simp
        qed
      qed (use assms en Inr t same in \<open>auto simp: route_callback_def\<close>)
    qed
  qed
qed

lemma callback_links:
  assumes "route_callback cx app ps draw uid jti = (app', res)"
  shows "app' = app\<lparr>aa_accounts := aa_accounts app'\<rparr> \<and> keeps_passwords (aa_accounts app) (aa_accounts app') \<and>
    adds_links (aa_accounts app) (aa_accounts app') (\<lambda>l. oa_userId l = uid \<or>
      (\<exists>opened. returned_for cx app ps (oa_userId l) (oa_account l) opened \<and>
        (rw_purpose opened = JStr ''link-full'' \<or> (\<exists>u. find_user (aa_accounts app) (oa_userId l) = Some u \<and> us_isGuest u))))"
  using assms
proof (cases rule: callback_cases)
  case (signin fr r)
  then show ?thesis using signIn_writes [OF signin(2)] by (auto simp: adds_links_def)
next
  case (full fr i r)
  have "\<exists>opened. returned_for cx app ps i (gi_subject (fr_identity fr)) opened \<and> rw_purpose opened = JStr ''link-full''"
    by (rule verifyCallback_Inr [OF full(1)]) (use full(2,3) in \<open>auto simp: returned_for_def\<close>)
  then show ?thesis using linkFull_writes [OF full(4)] full(5)
    by (intro conjI) (auto simp: google_link_def elim!: adds_links_mono)
next
  case (guest fr i r)
  have "\<exists>opened. returned_for cx app ps i (gi_subject (fr_identity fr)) opened"
    by (rule verifyCallback_Inr [OF guest(1)]) (use guest(2) in \<open>auto simp: returned_for_def\<close>)
  then show ?thesis using linkGuest_writes [OF guest(3)] guest(4)
    by (intro conjI) (auto simp: google_link_def elim!: adds_links_mono)
qed simp

text \<open>
  C16. A session token is not enough to take an account over. A call of set-password either leaves the whole state as
  it is, and then it answers an error, or it was made with a token the guard accepts and the identity behind it was
  proved besides, by the current password or, on an account without one, by a token elevated for this account; then
  the row and the version of that one account are what changed, and the session handed back is of that account. A
  call that begins to connect Google changes nothing; it hands out a flow with the purpose link-full only for the
  account of the token and after its password was proved, and a link-guest flow only to an account with neither password nor link;
  the other two starts never hand out such a flow. A return from Google changes no password; whatever link it adds
  belongs to the account it creates, or to the account named in the state it opened, for the subject Google vouched
  for, and then the state's purpose is link-full or the account is a guest.
\<close>

theorem step_up_required:
  "(\<forall>app' res. route_setPassword cx app header cur new jti = (app', res) \<longrightarrow>
      (case res of Inl e \<Rightarrow> app' = app | Inr s \<Rightarrow>
        (\<exists>u. canActivate (cx_verify cx) (aa_revocation app) header = Inr u \<and> proved_identity cx app header cur (au_userId u) \<and>
          password_changed (cx_env cx) app (au_userId u) (nullish new []) app' \<and> su_id s = au_userId u))) \<and>
    (\<forall>app' res. route_linkStart cx app header ret pw st ver = (app', res) \<longrightarrow> app' = app \<and> (\<forall>cookie. res = Inr cookie \<longrightarrow>
      (\<exists>u. canActivate (cx_verify cx) (aa_revocation app) header = Inr u \<and> \<not> hasGoogleLink (aa_accounts app) (au_userId u) \<and>
        (if reauthMethodFor (aa_accounts app) (au_userId u) = Some ReauthPassword
         then verifyPassword (cx_env cx) (aa_accounts app) (au_userId u) (nullish pw []) \<and>
           cookie = google_start (cx_codec cx) (cx_google cx) ret (now_of app) (Some (au_userId u)) (Some LinkFull) st ver
         else reauthMethodFor (aa_accounts app) (au_userId u) = None \<and>
           cookie = google_start (cx_codec cx) (cx_google cx) ret (now_of app) (Some (au_userId u)) (Some LinkGuest) st ver)))) \<and>
    (\<forall>app' res. route_reauthStart cx app header ret st ver = (app', res) \<longrightarrow> app' = app \<and> (\<forall>cookie. res = Inr cookie \<longrightarrow>
      (\<exists>i. cookie = google_start (cx_codec cx) (cx_google cx) ret (now_of app) (Some i) (Some Reauth) st ver))) \<and>
    (\<forall>app' res. route_start cx app ret st ver = (app', res) \<longrightarrow> app' = app \<and> (\<forall>cookie. res = Inr cookie \<longrightarrow>
      cookie = google_start (cx_codec cx) (cx_google cx) ret (now_of app) None None st ver)) \<and>
    (\<forall>app' res. route_callback cx app ps draw uid jti = (app', res) \<longrightarrow>
      app' = app\<lparr>aa_accounts := aa_accounts app'\<rparr> \<and>
      (\<forall>i u. find_user (aa_accounts app) i = Some u \<longrightarrow> (\<exists>u'. find_user (aa_accounts app') i = Some u' \<and> us_password u' = us_password u)) \<and>
      (\<exists>ls. ac_links (aa_accounts app') = ac_links (aa_accounts app) @ ls \<and> (\<forall>l \<in> set ls. oa_userId l = uid \<or>
        (\<exists>opened. returned_for cx app ps (oa_userId l) (oa_account l) opened \<and>
          (rw_purpose opened = JStr ''link-full'' \<or> (\<exists>u. find_user (aa_accounts app) (oa_userId l) = Some u \<and> us_isGuest u))))))"
  by (intro conjI allI impI)
    (blast dest: setPassword_needs_proof flows_begun callback_links [unfolded keeps_passwords_def adds_links_def])+

text \<open>A full account is linked under its own password, and the new password opens a session.\<close>

definition toy_verify :: verifier where
  "toy_verify t = (if t = ''tok'' then Verified demo_token else TokenInvalid)"

definition demo_cx :: auth_ctx where
  "demo_cx = \<lparr>cx_env = demo_env, cx_verify = toy_verify, cx_codec = demo_codec, cx_google = demo_google,
     cx_exchange = (\<lambda>c v. Some \<lparr>cl_sub = Some ''g1'', cl_email = Some ''ada@x.org'', cl_emailVerified = True, cl_name = None\<rparr>),
     cx_parse = (\<lambda>s. None), cx_nodeEnv = Some ''test''\<rparr>"

definition demo_app :: auth_app where
  "demo_app = \<lparr>aa_accounts = demo_accounts, aa_revocation = loaded, aa_limits = new_limits\<rparr>"

lemma demo_guard: "canActivate toy_verify loaded (Some ''Bearer tok'') = Inr \<lparr>au_userId = ''id1'', au_username = ''ada''\<rparr>"
proof -
  have s: "split_ws (trim ''Bearer tok'') = [''Bearer'', ''tok'']" by code_simp
  have b: "toLowerCase ''Bearer'' = ''bearer''" by code_simp
  show ?thesis
    by (simp add: canActivate_def s b toy_verify_def subjectOf_def isRevoked_def versionOf_def is_integer_def loaded_def
      new_revocation_def demo_session_defs)
qed

theorem step_up_required_witness:
  "\<exists>app' s. route_setPassword demo_cx demo_app (Some ''Bearer tok'') (Some ''longpassword'') (Some ''otherpassword'') ''j9'' = (app', Inr s) \<and>
     password_changed demo_env demo_app ''id1'' ''otherpassword'' app' \<and>
     proved_identity demo_cx demo_app (Some ''Bearer tok'') (Some ''longpassword'') ''id1''"
proof -
  obtain app' s where r: "route_setPassword demo_cx demo_app (Some ''Bearer tok'') (Some ''longpassword'') (Some ''otherpassword'') ''j9'' = (app', Inr s)"
    by (simp add: route_setPassword_def guarded_def demo_cx_def demo_app_def demo_guard reauthMethodFor_def verifyPassword_def
      change_password_def setPassword_def find_user_def demo_session_defs Let_def)
  from step_up_required [of demo_cx demo_app "Some ''Bearer tok''" "Some ''longpassword''" "Some ''otherpassword''" "''j9''"] r
  have "\<exists>u. canActivate toy_verify loaded (Some ''Bearer tok'') = Inr u \<and>
      proved_identity demo_cx demo_app (Some ''Bearer tok'') (Some ''longpassword'') (au_userId u) \<and>
      password_changed demo_env demo_app (au_userId u) ''otherpassword'' app'"
    by (fastforce simp: demo_cx_def demo_app_def)
  then show ?thesis using r by (auto simp: demo_guard)
qed

subsection \<open>Elevation\<close>

lemma callback_elevated:
  assumes "route_callback cx app ps draw uid jti = (app', Inr (LandElevated p r))"
  obtains fr i where "verifyCallback (cx_codec cx) (cx_google cx) (cx_exchange cx) ps (now_of app) = Inr fr"
    "fr_linkUserId fr = JStr i" "fr_purpose fr = JStr ''reauth''" "googleSubjectOwner (aa_accounts app) (gi_subject (fr_identity fr)) = Some i"
    "mintElevatedToken (aa_accounts app) i jti = Inr p" "app' = app"
proof -
  have en: "google_enabled (cx_parse cx) (cx_google cx)" using assms by (auto simp: route_callback_def split: if_splits)
  obtain fr where f: "verifyCallback (cx_codec cx) (cx_google cx) (cx_exchange cx) ps (now_of app) = Inr fr"
    using assms en by (cases "verifyCallback (cx_codec cx) (cx_google cx) (cx_exchange cx) ps (now_of app)") (auto simp: route_callback_def)
  let ?land = "\<lambda>r. case r of Inr s \<Rightarrow> LandToken s (fr_returnTo fr) | Inl e \<Rightarrow> LandError (link_code e)"
  have land: "?land x \<noteq> LandElevated p r" for x by (cases x) auto
  have "\<not> \<not> google_enabled (cx_parse cx) (cx_google cx)" using en by simp
  note body = assms [unfolded route_callback_def f sum.case Let_def if_not_P [OF this]]
  have t: "js_truthy (fr_linkUserId fr)" using body land by (auto simp: prod.case_eq_if split: if_splits)
  obtain i where i: "fr_linkUserId fr = JStr i" using body t by (cases "fr_linkUserId fr") auto
  have pu: "fr_purpose fr = JStr ''reauth''" using body t i land by (auto simp: prod.case_eq_if split: if_splits)
  have own: "googleSubjectOwner (aa_accounts app) (gi_subject (fr_identity fr)) = Some i"
    using body t i pu by (auto split: if_splits)
  have "mintElevatedToken (aa_accounts app) i jti = Inr p \<and> app' = app"
    using body t i pu own by (cases "mintElevatedToken (aa_accounts app) i jti") auto
  with f i pu own that show ?thesis by blast
qed

text \<open>
  C23. Elevation is earned by the account's own identity: an elevated token is handed out only when a
  cookie that opens names this account and the purpose of re-authenticating, the returned state is
  the one in it, and Google vouches, for the code and the verifier in that cookie, for the very
  identity linked to this account. The token is for that account, good for five minutes, and no
  refresh accepts it.
\<close>

theorem elevation_is_earned:
  assumes "route_callback cx app ps draw uid jti = (app', Inr (LandElevated p r))"
  shows "\<exists>opened i ver cl code. openState (cx_codec cx) (cb_cookie ps) (gc_secret (cx_google cx)) (now_of app) = Some opened \<and>
    rw_linkUserId opened = JStr i \<and> rw_purpose opened = JStr ''reauth'' \<and> rw_codeVerifier opened = JStr ver \<and>
    cb_state ps \<noteq> None \<and> rw_state opened = JStr (nullish (cb_state ps) []) \<and> cb_code ps = Some code \<and>
    cx_exchange cx code ver = Some cl \<and> cl_emailVerified cl \<and>
    googleSubjectOwner (aa_accounts app) (nullish (cl_sub cl) []) = Some i \<and>
    tp_sub p = JStr i \<and> tp_exp p = JNum (Fin (real (now_s (aa_accounts app) + 300))) \<and> app' = app \<and>
    (\<forall>app2 header jti2 s. decodeOwnToken (cx_verify cx) header = Some p \<longrightarrow> snd (route_refresh cx app2 header jti2) \<noteq> Inr s)"
proof -
  obtain fr i where f: "verifyCallback (cx_codec cx) (cx_google cx) (cx_exchange cx) ps (now_of app) = Inr fr"
    "fr_linkUserId fr = JStr i" "fr_purpose fr = JStr ''reauth''" "googleSubjectOwner (aa_accounts app) (gi_subject (fr_identity fr)) = Some i"
    "mintElevatedToken (aa_accounts app) i jti = Inr p" "app' = app"
    by (rule callback_elevated [OF assms])
  obtain opened ver cl code where o: "openState (cx_codec cx) (cb_cookie ps) (gc_secret (cx_google cx)) (now_of app) = Some opened"
    "rw_linkUserId opened = JStr i" "rw_purpose opened = JStr ''reauth''" "rw_codeVerifier opened = JStr ver"
    "cb_state ps \<noteq> None" "rw_state opened = JStr (nullish (cb_state ps) [])" "cb_code ps = Some code"
    "cx_exchange cx code ver = Some cl" "cl_emailVerified cl" "gi_subject (fr_identity fr) = nullish (cl_sub cl) []"
    by (rule verifyCallback_Inr [OF f(1)]) (use f(2,3) that in auto)
  have p: "tp_sub p = JStr i" "tp_exp p = JNum (Fin (real (now_s (aa_accounts app) + 300)))" "tp_elev p = JStr ''reauth''"
    using f(5) find_user_Some by (fastforce simp: mintElevatedToken_def split: option.splits)+
  have "snd (route_refresh cx app2 header jti2) \<noteq> Inr s" if "decodeOwnToken (cx_verify cx) header = Some p" for app2 header jti2 s
    using that p(3) by (auto simp: route_refresh_def guarded_def js_truthy_def split: sum.splits)
  then show ?thesis using o(1-9) f(4,6) [unfolded o(10)] p(1,2) by blast
qed

definition linked_app :: auth_app where
  "linked_app = demo_app\<lparr>aa_accounts := demo_accounts\<lparr>ac_users := [demo_user\<lparr>us_password := None\<rparr>],
     ac_links := [google_link ''g1'' None ''id1'']\<rparr>\<rparr>"

definition demo_return :: callback_params where
  "demo_return = \<lparr>cb_code = Some ''c'', cb_state = Some ''s'', cb_error = None, cb_cookie = Some (sealState demo_codec demo_state ''k'')\<rparr>"

lemma demo_reauth: "\<exists>p. route_callback demo_cx linked_app demo_return (\<lambda>k. 0) ''u'' ''j'' = (linked_app, Inr (LandElevated p (JStr ''/room/ABC'')))"
proof -
  have o: "openState demo_codec (Some (sealState demo_codec demo_state ''k'')) ''k'' (now_of linked_app) = Some (raw_of demo_state)"
    using open_sealed [OF demo_codec_ok, of "''k''" "now_of linked_app"]
    by (simp add: now_of_def linked_app_def demo_app_def demo_accounts_def no_accounts_def demo_state_def)
  have "strip_slashes (trim (hd (split_on (CHR '','') ''https://watch.example/''))) = ''https://watch.example''" by code_simp
  then have "google_enabled (cx_parse demo_cx) demo_google"
    by (simp add: google_enabled_def frontendUrl_def demo_google_def)
  moreover have raw: "rw_state (raw_of demo_state) = JStr ''s''" "rw_codeVerifier (raw_of demo_state) = JStr ''v''"
      "rw_linkUserId (raw_of demo_state) = JStr ''id1''" "rw_purpose (raw_of demo_state) = JStr ''reauth''"
      "rw_returnTo (raw_of demo_state) = JStr ''/room/ABC''"
    by (simp_all add: raw_of_def demo_state_def purpose_name_def)
  then have "verifyCallback demo_codec demo_google (cx_exchange demo_cx) demo_return (now_of linked_app) =
      Inr \<lparr>fr_identity = \<lparr>gi_subject = ''g1'', gi_email = ''ada@x.org'', gi_name = None\<rparr>, fr_returnTo = JStr ''/room/ABC'',
        fr_linkUserId = JStr ''id1'', fr_purpose = JStr ''reauth''\<rparr>"
    by (simp add: verifyCallback_def demo_return_def demo_google_def o identity_of_def demo_cx_def)
  moreover have "googleSubjectOwner (aa_accounts linked_app) ''g1'' = Some ''id1''"
    by (simp add: googleSubjectOwner_def find_link_def google_link_def linked_app_def demo_app_def)
  moreover have "\<exists>p. mintElevatedToken (aa_accounts linked_app) ''id1'' ''j'' = Inr p"
    by (simp add: mintElevatedToken_def find_user_def linked_app_def demo_app_def demo_user_def)
  moreover have "cx_codec demo_cx = demo_codec" "cx_google demo_cx = demo_google" by (simp_all add: demo_cx_def)
  ultimately show ?thesis by (auto simp: route_callback_def js_truthy_def)
qed

theorem elevation_is_earned_witness:
  "\<exists>p i. route_callback demo_cx linked_app demo_return (\<lambda>k. 0) ''u'' ''j'' = (linked_app, Inr (LandElevated p (JStr ''/room/ABC''))) \<and>
     tp_sub p = JStr i \<and> googleSubjectOwner (aa_accounts linked_app) ''g1'' = Some i"
proof -
  obtain p where p: "route_callback demo_cx linked_app demo_return (\<lambda>k. 0) ''u'' ''j'' = (linked_app, Inr (LandElevated p (JStr ''/room/ABC'')))"
    using demo_reauth by blast
  from elevation_is_earned [OF p] show ?thesis using p by (auto simp: demo_cx_def)
qed

subsection \<open>Signing out\<close>

lemma guard_own_token:
  assumes "canActivate verify rv header = Inr u"
  obtains p where "decodeOwnToken verify header = Some p" "subjectOf p = Some (au_userId u)" "isRevoked rv p = None"
  using assms
  by (auto simp: canActivate_def decodeOwnToken_def truthy_iff Let_def split: if_splits verified.splits option.splits rev_reason.splits)

lemma guard_refuses:
  assumes "decodeOwnToken verify header = Some p" "isRevoked rv p \<noteq> None"
  shows "\<exists>e. canActivate verify rv header = Inl e"
proof (rule ccontr)
  assume "\<nexists>e. canActivate verify rv header = Inl e"
  then obtain u where "canActivate verify rv header = Inr u" by (cases "canActivate verify rv header") auto
  then show False using guard_own_token assms by (metis option.inject)
qed

text \<open>
  Signing out ends the session on the server: after a sign-out that reports success, the same
  header passes no guarded route of the instance any more, and no instance refreshes the token, since
  the revocation is in the database.
\<close>

theorem logout_ends_session:
  assumes "route_logout cx app header = (app', Inr True)"
  shows "(\<exists>e. canActivate (cx_verify cx) (aa_revocation app') header = Inl e) \<and>
    (\<exists>p. decodeOwnToken (cx_verify cx) header = Some p \<and>
      (\<forall>env rv jti. \<exists>e. snd (snd (refreshSession env (aa_accounts app') rv p jti)) = Inl e))"
proof -
  obtain p j u where p: "decodeOwnToken (cx_verify cx) header = Some p" "tp_jti p = JStr j" "j \<noteq> []"
      "aa_revocation app' = rememberToken (aa_revocation app) j"
      "ac_auth (aa_accounts app') = upsert_revoked (ac_auth (aa_accounts app)) j u (expiry_ms (aa_accounts app) p)"
    using assms
    by (auto simp: route_logout_def guarded_Inr revokeToken_def Let_def split: option.splits jsval.splits if_splits)
  have "isRevoked (rememberToken rv j) p \<noteq> None" for rv
    using p(2,3) by (simp add: isRevoked_def rememberToken_def)
  then have g: "\<exists>e. canActivate (cx_verify cx) (aa_revocation app') header = Inl e"
    using guard_refuses [OF p(1)] by (simp add: p(4))
  have "ad_revoked (ac_auth (aa_accounts app')) j \<noteq> None" by (simp add: p(5) upsert_revoked_def)
  then have "\<exists>e. snd (snd (refreshSession env (aa_accounts app') rv p jti)) = Inl e" for env rv jti
    using rotate_refused [OF p(2,3)] by (auto simp: refreshSession_def split: sum.splits)
  then show ?thesis using g p(1) by blast
qed

theorem logout_ends_session_witness:
  "\<exists>app' e. route_logout demo_cx demo_app (Some ''Bearer tok'') = (app', Inr True) \<and>
     canActivate toy_verify (aa_revocation app') (Some ''Bearer tok'') = Inl e"
proof -
  have "split_ws (trim ''Bearer tok'') = [''Bearer'', ''tok'']" by code_simp
  then have d: "decodeOwnToken toy_verify (Some ''Bearer tok'') = Some demo_token"
    by (simp add: decodeOwnToken_def toy_verify_def)
  have j: "tp_jti demo_token = JStr ''j0''" "tp_sub demo_token = JStr ''id1''" by (simp_all add: demo_session_defs)
  obtain app' where r: "route_logout demo_cx demo_app (Some ''Bearer tok'') = (app', Inr True)"
    by (simp add: route_logout_def guarded_def demo_cx_def demo_app_def demo_guard d j revokeToken_def Let_def)
  from logout_ends_session [OF r] r show ?thesis by (auto simp: demo_cx_def)
qed

text \<open>
  The rule of one Google identity per account is tested when a flow starts and not when it returns:
  a flow that was started before another one completed attaches a second identity.
\<close>

lemma open_flow_attaches_second_identity:
  assumes "find_user a i = Some u" "hasGoogleLink a i" "googleSubjectOwner a (gi_subject ident) = None"
  shows "\<exists>a' s l. linkGoogleToFull env a i ident jti = (a', Inr s) \<and> ac_links a' = ac_links a @ [l] \<and>
    oa_userId l = i \<and> oa_provider l = ''google''"
proof -
  have "\<not> list_ex (\<lambda>m. oa_provider m = ''google'' \<and> oa_account m = gi_subject ident) (ac_links a)"
    using assms(3) by (auto simp: googleSubjectOwner_def find_link_def find_None_iff list_ex_iff)
  then show ?thesis using assms(1,3) by (simp add: linkGoogleToFull_def insert_link_def google_link_def)
qed

end
