(* ===== verification/ClockDomain.thy ===== *)
theory ClockDomain
  imports JsNum
begin

text \<open>
  The offset between an instance's clock and the clock of Redis (redis/clock-domain.service.ts): the
  mean of the last eight midpoint samples. Property: the time handed out is within half the worst
  round trip of the store's time.
\<close>

record clock_domain =
  cd_redis :: bool
  cd_offsetMs :: jsnum
  cd_samples :: "jsnum list"

definition new_clock_domain :: "bool \<Rightarrow> clock_domain" where
  "new_clock_domain redis = \<lparr>cd_redis = redis, cd_offsetMs = 0, cd_samples = []\<rparr>"

text \<open>The answer of TIME is seconds and microseconds; \<open>tA\<close> and \<open>tB\<close> are the local times around the call.\<close>

definition measure_domain :: "clock_domain \<Rightarrow> jsnum \<Rightarrow> jsnum \<Rightarrow> jsnum \<Rightarrow> jsnum \<Rightarrow> clock_domain" where
  "measure_domain cd tA sec usec tB =
     (if \<not> cd_redis cd then cd
      else
        (let redisNow = sec * 1000 + usec / 1000;
             sample = redisNow - (tA + tB) / 2;
             pushed = cd_samples cd @ [sample];
             samples = (if 8 < length pushed then tl pushed else pushed) in
         cd\<lparr>cd_samples := samples, cd_offsetMs := foldl (+) 0 samples / Fin (real (length samples))\<rparr>))"

definition domain_now :: "clock_domain \<Rightarrow> jsnum \<Rightarrow> jsnum" where
  "domain_now cd dateNow = dateNow + cd_offsetMs cd"

subsection \<open>Accuracy\<close>

text \<open>
  A run of measurements against a store whose clock is ahead by \<open>off\<close>: a call leaves at \<open>tA\<close>, is answered
  after \<open>d1\<close> with the store's time as \<open>sec\<close> seconds and the rest in microseconds, and is back after another \<open>d2\<close>.
\<close>

definition measured :: "real \<Rightarrow> clock_domain \<Rightarrow> real \<times> real \<times> real \<times> real \<Rightarrow> clock_domain" where
  "measured off cd m = (case m of (tA, d1, d2, sec) \<Rightarrow>
     measure_domain cd (Fin tA) (Fin sec) (Fin (1000 * (tA + d1 + off - 1000 * sec))) (Fin (tA + d1 + d2)))"

definition domain_ok :: "real \<Rightarrow> real \<Rightarrow> clock_domain \<Rightarrow> bool" where
  "domain_ok off D cd = (cd_redis cd \<and> length (cd_samples cd) \<le> 8 \<and>
     (\<exists>xs. cd_samples cd = map Fin xs \<and> (\<forall>x\<in>set xs. \<bar>x - off\<bar> \<le> D / 2)) \<and>
     (cd_samples cd \<noteq> [] \<longrightarrow> (\<exists>x. cd_offsetMs cd = Fin x \<and> \<bar>x - off\<bar> \<le> D / 2)))"

lemma foldl_Fin: "foldl (+) (Fin a) (map Fin xs) = Fin (a + sum_list xs)"
  by (induction xs arbitrary: a) (simp_all add: add.assoc)

lemma mean_bound:
  fixes off :: real
  assumes "xs \<noteq> []" "\<forall>x\<in>set xs. \<bar>x - off\<bar> \<le> b"
  shows "\<bar>sum_list xs / real (length xs) - off\<bar> \<le> b"
proof -
  have "\<bar>sum_list ys - real (length ys) * off\<bar> \<le> real (length ys) * b" if "\<forall>x\<in>set ys. \<bar>x - off\<bar> \<le> b" for ys
    using that by (induction ys) (auto simp: algebra_simps)
  from this [OF assms(2)] show ?thesis
    using assms(1) by (simp add: abs_le_iff field_simps)
qed

lemma measured_ok:
  assumes "domain_ok off D cd" "0 \<le> d1" "0 \<le> d2" "d1 + d2 \<le> D"
  shows "domain_ok off D (measured off cd (tA, d1, d2, sec)) \<and> cd_samples (measured off cd (tA, d1, d2, sec)) \<noteq> []"
proof -
  obtain xs where xs: "cd_samples cd = map Fin xs" "\<forall>x\<in>set xs. \<bar>x - off\<bar> \<le> D / 2" "cd_redis cd" "length xs \<le> 8"
    using assms(1) by (auto simp: domain_ok_def)
  define ys where "ys = (if 8 < length (xs @ [off + (d1 - d2) / 2]) then tl (xs @ [off + (d1 - d2) / 2]) else xs @ [off + (d1 - d2) / 2])"
  have "\<bar>(d1 - d2) / 2\<bar> \<le> D / 2" using assms(2-4) by (simp add: abs_le_iff field_simps)
  then have ys: "ys \<noteq> []" "length ys \<le> 8" "\<forall>x\<in>set ys. \<bar>x - off\<bar> \<le> D / 2"
    using xs(2,4) by (auto simp: ys_def dest: list.set_sel(2) split: if_splits) (cases xs; auto)+
  have smp: "Fin sec * 1000 + Fin (1000 * (tA + d1 + off - 1000 * sec)) / 1000 - (Fin tA + Fin (tA + d1 + d2)) / 2 = Fin (off + (d1 - d2) / 2)"
    by (simp add: field_simps)
  have "measured off cd (tA, d1, d2, sec) = cd\<lparr>cd_samples := map Fin ys, cd_offsetMs := foldl (+) 0 (map Fin ys) / Fin (real (length ys))\<rparr>"
    using xs(1,3) smp unfolding measured_def measure_domain_def ys_def
    by (simp add: Let_def map_tl)
  then show ?thesis using ys xs(3) mean_bound [OF ys(1,3)] by (auto simp: domain_ok_def foldl_Fin)
qed

text \<open>
  One clock domain: after any number of measurements, the time an instance stamps into the
  domain of the store is off by at most half the longest round trip of a measurement, whatever the
  skew of the instance's own clock.
\<close>

theorem domain_time_error_bound:
  assumes "ms \<noteq> []" "\<forall>(tA, d1, d2, sec)\<in>set ms. 0 \<le> d1 \<and> 0 \<le> d2 \<and> d1 + d2 \<le> D"
  shows "\<exists>x. domain_now (foldl (measured off) (new_clock_domain True) ms) (Fin t) = Fin x \<and> \<bar>x - (t + off)\<bar> \<le> D / 2"
proof -
  have run: "domain_ok off D (foldl (measured off) cd ms) \<and> cd_samples (foldl (measured off) cd ms) \<noteq> []"
    if "domain_ok off D cd" "ms \<noteq> []" "\<forall>(tA, d1, d2, sec)\<in>set ms. 0 \<le> d1 \<and> 0 \<le> d2 \<and> d1 + d2 \<le> D" for cd and ms :: "(real \<times> real \<times> real \<times> real) list"
    using that
  proof (induction ms arbitrary: cd)
    case (Cons m ms)
    obtain tA d1 d2 sec where m: "m = (tA, d1, d2, sec)" by (cases m)
    have "domain_ok off D (measured off cd m) \<and> cd_samples (measured off cd m) \<noteq> []"
      using measured_ok [of off D cd d1 d2 tA sec] Cons.prems(1,3) m by simp
    then show ?case using Cons.IH Cons.prems(3) by (cases "ms = []") simp_all
  qed simp
  have "domain_ok off D (new_clock_domain True)" by (simp add: domain_ok_def new_clock_domain_def)
  from run [OF this assms] obtain x where "cd_offsetMs (foldl (measured off) (new_clock_domain True) ms) = Fin x" "\<bar>x - off\<bar> \<le> D / 2"
    by (auto simp: domain_ok_def)
  then show ?thesis by (simp add: domain_now_def)
qed

theorem domain_time_error_bound_witness:
  "\<exists>x. domain_now (foldl (measured 500) (new_clock_domain True) [(0, 2, 4, 0), (5000, 1, 1, 5)]) (Fin 6000) = Fin x \<and> \<bar>x - 6500\<bar> \<le> 3"
  using domain_time_error_bound [of "[(0, 2, 4, 0), (5000, 1, 1, 5)]" 6 500 6000] by simp

end
