(* ===== verification/ApiClient.thy ===== *)
theory ApiClient
  imports JsString
begin

text \<open>
  The browser's stored session and the two interceptors around every REST call (frontend
  services/api.ts), and the list of recently visited rooms (services/recent-rooms.ts). A stored entry
  is what JSON.parse makes of its text: a value of the shape the program writes (nothing else writes
  the user's key) or text that does not parse. Properties: which token a
  request carries, that only the death of the stored token ends a session, and the recent rooms list.
\<close>

subsection \<open>The stored session\<close>

record web_user =
  wu_id :: string
  wu_username :: string
  wu_email :: string
  wu_token :: "string option"

datatype user_entry = Unparseable | JsonUser web_user

definition readStoredToken :: "user_entry option \<Rightarrow> string option" where
  "readStoredToken raw = (case raw of
     Some (JsonUser u) \<Rightarrow> if truthy (wu_token u) then wu_token u else None
   | _ \<Rightarrow> None)"

lemma readStoredToken_Some:
  "readStoredToken raw = Some t \<longleftrightarrow> (\<exists>u. raw = Some (JsonUser u) \<and> wu_token u = Some t \<and> t \<noteq> [])"
  by (auto simp: readStoredToken_def truthy_iff split: option.splits user_entry.splits)

lemma readStoredToken_None [simp]: "readStoredToken None = None"
  by (simp add: readStoredToken_def)

subsection \<open>Requests\<close>

text \<open>A header container: the value its get method returns, or the two spellings of a plain object.\<close>

datatype http_headers = HeaderObject jsval | PlainHeaders jsval jsval

record api_request =
  ar_url :: "string option"
  ar_headers :: "http_headers option"

definition string_of :: "jsval \<Rightarrow> string option" where
  "string_of v = (case v of JStr s \<Rightarrow> Some s | _ \<Rightarrow> None)"

definition nullish_val :: "jsval \<Rightarrow> jsval \<Rightarrow> jsval" where
  "nullish_val v w = (if v = JUndef \<or> v = JNull then w else v)"

definition authHeader :: "http_headers option \<Rightarrow> string option" where
  "authHeader headers = (case headers of
     None \<Rightarrow> None
   | Some (HeaderObject v) \<Rightarrow> string_of v
   | Some (PlainHeaders upper lower) \<Rightarrow> string_of (nullish_val upper lower))"

definition NO_TOKEN_NEEDED :: "string list" where
  "NO_TOKEN_NEEDED = [''/auth/login'', ''/auth/register'', ''/auth/guest'', ''/auth/providers'',
     ''/auth/google/start'', ''/auth/google/callback'']"

definition token_free :: "string option \<Rightarrow> bool" where
  "token_free url = (case url of None \<Rightarrow> False | Some u \<Rightarrow> list_ex (\<lambda>path. startsWith u path) NO_TOKEN_NEEDED)"

definition bearer :: "string \<Rightarrow> string" where
  "bearer t = ''Bearer '' @ t"

text \<open>Assigning the property of an object that is not there raises, which is \<^term>\<open>None\<close>.\<close>

definition set_authorization :: "http_headers option \<Rightarrow> string \<Rightarrow> http_headers option" where
  "set_authorization headers s = (case headers of
     None \<Rightarrow> None
   | Some (HeaderObject v) \<Rightarrow> Some (HeaderObject (JStr s))
   | Some (PlainHeaders upper lower) \<Rightarrow> Some (PlainHeaders (JStr s) lower))"

definition on_request :: "user_entry option \<Rightarrow> api_request \<Rightarrow> api_request option" where
  "on_request raw config =
     (if token_free (ar_url config) then Some config
      else (case readStoredToken raw of
          None \<Rightarrow> Some config
        | Some token \<Rightarrow>
            if truthy (authHeader (ar_headers config)) then Some config
            else (case set_authorization (ar_headers config) (bearer token) of
                None \<Rightarrow> None
              | Some h \<Rightarrow> Some (config\<lparr>ar_headers := Some h\<rparr>))))"

text \<open>Whether the rejection of a request clears the stored session.\<close>

definition clears_session :: "user_entry option \<Rightarrow> http_headers option \<Rightarrow> nat option \<Rightarrow> bool" where
  "clears_session raw headers status =
     (case readStoredToken raw of
        None \<Rightarrow> False
      | Some stored \<Rightarrow> status = Some 401 \<and> authHeader headers = Some (bearer stored))"

lemma bearer_inject [simp]: "bearer s = bearer t \<longleftrightarrow> s = t"
  by (simp add: bearer_def)

lemma bearer_truthy [simp]: "truthy (Some (bearer t))"
  by (simp add: bearer_def)

lemma authHeader_set [simp]: "set_authorization h s = Some h' \<Longrightarrow> authHeader (Some h') = Some s"
  by (auto simp: set_authorization_def authHeader_def string_of_def nullish_val_def split: option.splits http_headers.splits)

lemma set_authorization_total: "set_authorization (Some h) s \<noteq> None"
  by (simp add: set_authorization_def split: http_headers.split)

subsection \<open>The calls\<close>

text \<open>axios hands every interceptor a header object; one that the caller set is in it.\<close>

definition api_post :: "string \<Rightarrow> string option \<Rightarrow> api_request" where
  "api_post url auth = \<lparr>ar_url = Some url, ar_headers = Some (HeaderObject (case auth of None \<Rightarrow> JUndef | Some h \<Rightarrow> JStr h))\<rparr>"

definition api_logout :: api_request where
  "api_logout = api_post ''/auth/logout'' None"

definition api_logoutEverywhere :: api_request where
  "api_logoutEverywhere = api_post ''/auth/logout-all'' None"

definition api_refresh :: api_request where
  "api_refresh = api_post ''/auth/refresh'' None"

definition api_setPassword :: api_request where
  "api_setPassword = api_post ''/auth/set-password'' None"

definition api_setPasswordElevated :: "string \<Rightarrow> api_request" where
  "api_setPasswordElevated elevatedToken = api_post ''/auth/set-password'' (Some (bearer elevatedToken))"

definition api_guest :: api_request where
  "api_guest = api_post ''/auth/guest'' None"

definition api_claim :: api_request where
  "api_claim = api_post ''/auth/claim'' None"

definition api_getMe :: "string \<Rightarrow> api_request" where
  "api_getMe token = api_post ''/auth/me'' (Some (bearer token))"

lemmas api_calls = api_logout_def api_logoutEverywhere_def api_refresh_def api_setPassword_def
  api_setPasswordElevated_def api_guest_def api_claim_def api_getMe_def api_post_def

text \<open>The header a call goes out with.\<close>

definition sent_header :: "user_entry option \<Rightarrow> api_request \<Rightarrow> string option" where
  "sent_header raw config = (case on_request raw config of None \<Rightarrow> None | Some c \<Rightarrow> authHeader (ar_headers c))"

lemma sent_header_post:
  "sent_header raw (api_post url auth) =
     (if token_free (Some url) then auth else if truthy auth then auth
      else (case readStoredToken raw of None \<Rightarrow> auth | Some t \<Rightarrow> Some (bearer t)))"
  by (auto simp: sent_header_def on_request_def api_post_def authHeader_def string_of_def set_authorization_def
      split: option.splits)

lemma token_free_urls [simp]:
  "token_free (Some ''/auth/guest'')" "\<not> token_free (Some ''/auth/logout'')" "\<not> token_free (Some ''/auth/logout-all'')"
  "\<not> token_free (Some ''/auth/refresh'')" "\<not> token_free (Some ''/auth/set-password'')" "\<not> token_free (Some ''/auth/claim'')"
  "\<not> token_free (Some ''/auth/me'')"
  by (simp_all add: token_free_def NO_TOKEN_NEEDED_def startsWith_def)

text \<open>
  C36. A request never carries a token but the caller's own choice or the stored one, a route that
  needs none carries none of the stored ones, and a request is always sent. When it is rejected, the
  session ends only if the token it carried is still the stored one at that moment: neither a wrong
  password behind an elevated token nor the late rejection of a token that has been replaced signs
  anybody out.
\<close>

theorem only_the_stored_token_ends_the_session:
  assumes "ar_headers config = Some h"
  shows "\<exists>c. on_request sent_under config = Some c \<and>
    (authHeader (ar_headers c) = authHeader (Some h) \<or>
     \<not> token_free (ar_url config) \<and> \<not> truthy (authHeader (Some h)) \<and>
       (\<exists>t. readStoredToken sent_under = Some t \<and> authHeader (ar_headers c) = Some (bearer t))) \<and>
    (clears_session now (ar_headers c) status \<longrightarrow>
       status = Some 401 \<and> (\<exists>t. readStoredToken now = Some t \<and>
         (authHeader (Some h) = Some (bearer t) \<or> readStoredToken sent_under = Some t)))"
proof (cases "token_free (ar_url config) \<or> readStoredToken sent_under = None \<or> truthy (authHeader (Some h))")
  case True
  then have "on_request sent_under config = Some config" using assms by (auto simp: on_request_def split: option.splits)
  then show ?thesis using assms by (auto simp: clears_session_def split: option.splits)
next
  case False
  then obtain t where t: "readStoredToken sent_under = Some t" by auto
  obtain h' where h': "set_authorization (Some h) (bearer t) = Some h'"
    using set_authorization_total by fastforce
  then have "on_request sent_under config = Some (config\<lparr>ar_headers := Some h'\<rparr>)"
    using False t assms by (auto simp: on_request_def)
  moreover have "authHeader (Some h') = Some (bearer t)" by (rule authHeader_set [OF h'])
  ultimately show ?thesis using False t by (auto simp: clears_session_def split: option.splits)
qed

definition demo_web_user :: web_user where
  "demo_web_user = \<lparr>wu_id = ''id1'', wu_username = ''ada'', wu_email = ''ada@x.org'', wu_token = Some ''tok''\<rparr>"

theorem only_the_stored_token_ends_the_session_witness:
  "\<exists>c. on_request (Some (JsonUser demo_web_user)) (api_setPasswordElevated ''five'') = Some c \<and>
     authHeader (ar_headers c) = Some ''Bearer five'' \<and> \<not> clears_session (Some (JsonUser demo_web_user)) (ar_headers c) (Some 401)"
proof -
  let ?s = "Some (JsonUser demo_web_user)"
  have h: "ar_headers (api_setPasswordElevated ''five'') = Some (HeaderObject (JStr ''Bearer five''))"
    by (simp add: api_calls bearer_def)
  obtain c where c: "on_request ?s (api_setPasswordElevated ''five'') = Some c"
    using only_the_stored_token_ends_the_session [OF h, of ?s ?s "Some 401"] by blast
  then show ?thesis
    by (auto simp: on_request_def api_calls readStoredToken_def demo_web_user_def authHeader_def string_of_def bearer_def
      clears_session_def)
qed

subsection \<open>Recent rooms\<close>

record recent_room =
  rec_code :: string
  rec_name :: string
  rec_at :: jsnum

text \<open>An element of the stored array: the three fields read, each of any type.\<close>

record raw_recent =
  rx_code :: jsval
  rx_name :: jsval
  rx_at :: jsval

datatype recent_entry = RecentUnparseable | RecentOther | RecentArray "raw_recent option list"

definition RECENT_LIMIT :: nat where
  "RECENT_LIMIT = 6"

definition isRecord :: "raw_recent option \<Rightarrow> recent_room option" where
  "isRecord v = (case v of
     None \<Rightarrow> None
   | Some r \<Rightarrow>
       (case (rx_code r, rx_name r, rx_at r) of
          (JStr c, JStr n, JNum a) \<Rightarrow>
            if c \<noteq> [] \<and> isFinite a then Some \<lparr>rec_code = c, rec_name = n, rec_at = a\<rparr> else None
        | _ \<Rightarrow> None))"

definition newest_first :: "recent_room \<Rightarrow> recent_room \<Rightarrow> jsnum" where
  "newest_first a b = rec_at b - rec_at a"

definition listRecentRooms :: "recent_entry option \<Rightarrow> recent_room list" where
  "listRecentRooms raw = (case raw of
     Some (RecentArray parsed) \<Rightarrow> take RECENT_LIMIT (js_sort newest_first (List.map_filter isRecord parsed))
   | _ \<Rightarrow> [])"

definition json_of :: "recent_room \<Rightarrow> raw_recent option" where
  "json_of r = Some \<lparr>rx_code = JStr (rec_code r), rx_name = JStr (rec_name r), rx_at = JNum (rec_at r)\<rparr>"

text \<open>Writing can fail (a full or disabled storage): then the entry stays as it was.\<close>

definition rememberRoom :: "bool \<Rightarrow> recent_entry option \<Rightarrow> string \<Rightarrow> string \<Rightarrow> jsnum \<Rightarrow> recent_entry option" where
  "rememberRoom writable raw code name now =
     (if code = [] \<or> \<not> writable then raw
      else Some (RecentArray (map json_of (take RECENT_LIMIT
        (\<lparr>rec_code = code, rec_name = (if name = [] then code else name), rec_at = now\<rparr> #
         filter (\<lambda>r. rec_code r \<noteq> code) (listRecentRooms raw))))))"

definition forgetRoom :: "bool \<Rightarrow> recent_entry option \<Rightarrow> string \<Rightarrow> recent_entry option" where
  "forgetRoom writable raw code =
     (if writable then Some (RecentArray (map json_of (filter (\<lambda>r. rec_code r \<noteq> code) (listRecentRooms raw)))) else raw)"

definition clearRecentRooms :: "recent_entry option \<Rightarrow> recent_entry option" where
  "clearRecentRooms raw = None"

datatype recent_op = Remember bool string string jsnum | Forget bool string | ClearRecent

fun recent_step :: "recent_entry option \<Rightarrow> recent_op \<Rightarrow> recent_entry option" where
  "recent_step raw (Remember w code name now) = rememberRoom w raw code name now"
| "recent_step raw (Forget w code) = forgetRoom w raw code"
| "recent_step raw ClearRecent = clearRecentRooms raw"

definition finite_visit :: "recent_op \<Rightarrow> bool" where
  "finite_visit op = (case op of Remember w code name now \<Rightarrow> is_fin now | _ \<Rightarrow> True)"

definition recent_record :: "recent_room \<Rightarrow> bool" where
  "recent_record r = (rec_code r \<noteq> [] \<and> is_fin (rec_at r))"

definition newest_sorted :: "recent_room list \<Rightarrow> bool" where
  "newest_sorted = sorted_wrt (\<lambda>a b. rec_at b \<le> rec_at a)"

lemma isRecord_ok: "isRecord v = Some r \<Longrightarrow> recent_record r"
  by (auto simp: isRecord_def recent_record_def isFinite_def split: option.splits jsval.splits if_splits)

lemma isRecord_json [simp]: "recent_record r \<Longrightarrow> isRecord (json_of r) = Some r"
  by (simp add: isRecord_def json_of_def recent_record_def isFinite_def)

lemma map_filter_json: "\<forall>r\<in>set rs. recent_record r \<Longrightarrow> List.map_filter isRecord (map json_of rs) = rs"
  by (induction rs) simp_all

lemma map_filter_records: "r \<in> set (List.map_filter isRecord vs) \<Longrightarrow> recent_record r"
  by (induction vs) (auto simp: isRecord_ok split: option.splits)

lemma newest_first_less:
  assumes "recent_record a" "recent_record b"
  shows "newest_first a b < 0 \<longleftrightarrow> rec_at b < rec_at a"
  using assms by (cases "rec_at a"; cases "rec_at b") (simp_all add: newest_first_def recent_record_def zero_jsnum_def)

lemma fin_order: "is_fin x \<Longrightarrow> is_fin y \<Longrightarrow> \<not> x < y \<longleftrightarrow> y \<le> (x :: jsnum)"
  by (cases x; cases y) auto

lemma fin_less_trans: "is_fin x \<Longrightarrow> is_fin y \<Longrightarrow> is_fin z \<Longrightarrow> x \<le> y \<Longrightarrow> y \<le> z \<Longrightarrow> x \<le> (z :: jsnum)"
  by (cases x; cases y; cases z) auto

lemma newest_insert:
  assumes "recent_record x" "\<forall>r\<in>set rs. recent_record r" "newest_sorted rs"
  shows "newest_sorted (js_insert newest_first x rs)"
  using assms
proof (induction rs)
  case (Cons y ys)
  have f: "is_fin (rec_at x)" "is_fin (rec_at y)" using Cons.prems by (auto simp: recent_record_def)
  show ?case
  proof (cases "newest_first y x < 0")
    case True
    then have "rec_at x \<le> rec_at y" using Cons.prems f newest_first_less [of y x] by (cases "rec_at x"; cases "rec_at y") auto
    then show ?thesis using Cons True by (auto simp: newest_sorted_def)
  next
    case False
    then have y: "rec_at y \<le> rec_at x" using Cons.prems f newest_first_less [of y x] fin_order by auto
    have "rec_at z \<le> rec_at x" if z: "z \<in> set ys" for z
    proof (rule fin_less_trans [OF _ f(2) f(1) _ y])
      show "is_fin (rec_at z)" using z Cons.prems by (simp add: recent_record_def)
      show "rec_at z \<le> rec_at y" using z Cons.prems(3) by (simp add: newest_sorted_def)
    qed
    then show ?thesis using False y Cons.prems(3) by (simp add: newest_sorted_def)
  qed
qed (simp add: newest_sorted_def)

lemma newest_sort: "\<forall>r\<in>set rs. recent_record r \<Longrightarrow> newest_sorted (js_sort newest_first rs)"
  by (induction rs) (simp add: newest_sorted_def, simp add: newest_insert)

lemma distinct_js_insert: "distinct (map f (js_insert c x xs)) \<longleftrightarrow> f x \<notin> f ` set xs \<and> distinct (map f xs)"
  by (induction xs) auto

lemma distinct_js_sort [simp]: "distinct (map f (js_sort c xs)) = distinct (map f xs)"
  by (induction xs) (simp_all add: distinct_js_insert)

lemma js_insert_front: "\<forall>y\<in>set ys. \<not> c y x < 0 \<Longrightarrow> js_insert c x ys = x # ys"
  by (cases ys) simp_all

text \<open>Sorting what is sorted changes nothing.\<close>

lemma newest_sort_id:
  assumes "\<forall>r\<in>set rs. recent_record r" "newest_sorted rs"
  shows "js_sort newest_first rs = rs"
  using assms
proof (induction rs)
  case (Cons x xs)
  have "\<not> newest_first y x < 0" if "y \<in> set xs" for y
    using that Cons.prems newest_first_less [of y x] fin_order [of "rec_at x" "rec_at y"]
    by (auto simp: newest_sorted_def recent_record_def)
  then show ?case using Cons by (auto simp: newest_sorted_def intro!: js_insert_front)
qed simp

lemma listRecentRooms_ok:
  shows "length (listRecentRooms raw) \<le> RECENT_LIMIT" "newest_sorted (listRecentRooms raw)"
    and "r \<in> set (listRecentRooms raw) \<Longrightarrow> recent_record r"
proof -
  have "newest_sorted (js_sort newest_first (List.map_filter isRecord vs))" for vs
    using map_filter_records by (intro newest_sort) blast
  then show "newest_sorted (listRecentRooms raw)"
    by (auto simp: listRecentRooms_def newest_sorted_def sorted_wrt_take split: option.splits recent_entry.splits)
  show "length (listRecentRooms raw) \<le> RECENT_LIMIT"
    by (auto simp: listRecentRooms_def split: option.splits recent_entry.splits)
  show "r \<in> set (listRecentRooms raw) \<Longrightarrow> recent_record r"
    by (auto simp: listRecentRooms_def dest!: in_set_takeD map_filter_records split: option.splits recent_entry.splits)
qed

lemma list_stored:
  assumes "\<forall>r\<in>set rs. recent_record r"
  shows "listRecentRooms (Some (RecentArray (map json_of rs))) = take RECENT_LIMIT (js_sort newest_first rs)"
  using assms by (simp add: listRecentRooms_def map_filter_json)

definition no_repeats :: "recent_entry option \<Rightarrow> bool" where
  "no_repeats raw = distinct (map rec_code (listRecentRooms raw))"

lemma distinct_take_map: "distinct (map f xs) \<Longrightarrow> distinct (map f (take n xs))"
  by (metis distinct_take take_map)

lemma no_repeats_stored:
  assumes "\<forall>r\<in>set rs. recent_record r" "distinct (map rec_code rs)"
  shows "no_repeats (Some (RecentArray (map json_of rs)))"
  using assms by (simp add: no_repeats_def list_stored distinct_take_map)

lemma no_repeats_step:
  assumes "no_repeats raw" "finite_visit op"
  shows "no_repeats (recent_step raw op)"
proof (cases op)
  case (Remember w code name now)
  let ?x = "\<lparr>rec_code = code, rec_name = (if name = [] then code else name), rec_at = now\<rparr>"
  let ?rs = "take RECENT_LIMIT (?x # filter (\<lambda>r. rec_code r \<noteq> code) (listRecentRooms raw))"
  have "\<forall>r\<in>set ?rs. recent_record r" if "code \<noteq> []"
    using that assms(2) Remember by (auto simp: finite_visit_def recent_record_def dest!: in_set_takeD listRecentRooms_ok(3))
  moreover have "distinct (map rec_code ?rs)"
    using assms(1) by (intro distinct_take_map) (auto simp: no_repeats_def distinct_map_filter)
  ultimately show ?thesis using assms(1) Remember no_repeats_stored [of ?rs] by (simp add: rememberRoom_def)
next
  case (Forget w code)
  have "\<forall>r\<in>set (filter (\<lambda>r. rec_code r \<noteq> code) (listRecentRooms raw)). recent_record r"
    using listRecentRooms_ok(3) by auto
  then show ?thesis using assms(1) Forget
    by (auto simp: forgetRoom_def intro!: no_repeats_stored) (simp add: no_repeats_def distinct_map_filter)
next
  case ClearRecent
  then show ?thesis by (simp add: clearRecentRooms_def no_repeats_def listRecentRooms_def)
qed

lemma no_repeats_run: "no_repeats raw \<Longrightarrow> list_all finite_visit ops \<Longrightarrow> no_repeats (foldl recent_step raw ops)"
  by (induction ops arbitrary: raw) (simp_all add: no_repeats_step)

text \<open>
  The recent rooms of a browser, after any sequence of visits, removals and sign-outs and whether
  or not the writes succeeded, are at most six, newest first, each with a code, and none twice. A visit
  that could be written and is the latest stands first, with every other room that fits behind it in
  the order it had.
\<close>

theorem recent_rooms_stay_sound:
  assumes "list_all finite_visit ops"
  defines "raw \<equiv> foldl recent_step None ops"
  assumes "code \<noteq> []" "is_fin now" "\<forall>r\<in>set (listRecentRooms raw). rec_at r \<le> now"
  shows "length (listRecentRooms raw) \<le> 6 \<and> newest_sorted (listRecentRooms raw) \<and>
    distinct (map rec_code (listRecentRooms raw)) \<and> [] \<notin> set (map rec_code (listRecentRooms raw)) \<and>
    listRecentRooms (rememberRoom True raw code name now) =
      take 6 (\<lparr>rec_code = code, rec_name = (if name = [] then code else name), rec_at = now\<rparr> #
        filter (\<lambda>r. rec_code r \<noteq> code) (listRecentRooms raw))"
proof -
  let ?x = "\<lparr>rec_code = code, rec_name = (if name = [] then code else name), rec_at = now\<rparr>"
  let ?rs = "take 6 (?x # filter (\<lambda>r. rec_code r \<noteq> code) (listRecentRooms raw))"
  have "no_repeats raw" unfolding raw_def using assms(1)
    by (intro no_repeats_run) (auto simp: no_repeats_def listRecentRooms_def)
  moreover have rec: "\<forall>r\<in>set ?rs. recent_record r"
    using assms(3,4) by (auto simp: recent_record_def dest!: in_set_takeD listRecentRooms_ok(3))
  moreover have "newest_sorted ?rs"
    using listRecentRooms_ok(2) [of raw] assms(5) unfolding newest_sorted_def
    by (intro sorted_wrt_take) (auto simp: sorted_wrt_filter)
  moreover have "[] \<notin> set (map rec_code (listRecentRooms raw))"
    using listRecentRooms_ok(3) [of _ raw] by (force simp: recent_record_def)
  ultimately show ?thesis
    using listRecentRooms_ok(1,2) [of raw] assms(3) list_stored [OF rec] newest_sort_id [OF rec]
    by (auto simp: no_repeats_def rememberRoom_def RECENT_LIMIT_def)
qed

theorem recent_rooms_stay_sound_witness:
  "listRecentRooms (rememberRoom True (foldl recent_step None [Remember True ''A'' ''Film'' 1, Remember True ''B'' [] 2]) ''A'' ''Film'' 3) =
     [\<lparr>rec_code = ''A'', rec_name = ''Film'', rec_at = 3\<rparr>, \<lparr>rec_code = ''B'', rec_name = ''B'', rec_at = 2\<rparr>]"
proof -
  let ?ops = "[Remember True ''A'' ''Film'' 1, Remember True ''B'' [] 2]"
  have l: "listRecentRooms (foldl recent_step None ?ops) =
    [\<lparr>rec_code = ''B'', rec_name = ''B'', rec_at = 2\<rparr>, \<lparr>rec_code = ''A'', rec_name = ''Film'', rec_at = 1\<rparr>]"
    by code_simp
  have "list_all finite_visit ?ops" by (simp add: finite_visit_def)
  from recent_rooms_stay_sound [OF this, of "''A''" 3 "''Film''"] show ?thesis unfolding l by simp
qed

end
