(* ===== verification/BrowserSession.thy ===== *)
theory BrowserSession
  imports ApiClient AuthRoutes
begin

text \<open>
  A browser tab's session: signing in and out, adopting tokens, following other tabs and scheduling the
  refresh (frontend contexts/AuthContext.tsx), landing from the Google flow (pages/AuthCallbackPage.tsx)
  and the life of the socket (contexts/SocketContext.tsx, sync/drop-stale-controls.ts). Toasts are
  answers, React's state is the record, and the answers of the server are arguments. Properties: the
  user shown, the stored user and the token of the requests agree; the refresh comes before the
  expiry; an elevated token never becomes a session; no control outlives the connection it was meant
  for. The sign-out of a tab does not reach the server.
\<close>

subsection \<open>The tab\<close>

record web_tab =
  wt_user :: "web_user option"
  wt_ready :: bool
  wt_store :: "user_entry option"
  wt_recent :: "recent_entry option"
  wt_elevated :: "string option"

datatype toast = ToastOk string | ToastError string

record api_error =
  ae_status :: "nat option"
  ae_message :: "string option"

definition entry_user :: "user_entry option \<Rightarrow> web_user option" where
  "entry_user e = (case e of Some (JsonUser u) \<Rightarrow> Some u | _ \<Rightarrow> None)"

text \<open>The effect that reads the stored session once after mounting.\<close>

definition rehydrate :: "web_tab \<Rightarrow> web_tab" where
  "rehydrate tab = (case wt_store tab of
     None \<Rightarrow> tab
   | Some (JsonUser u) \<Rightarrow> tab\<lparr>wt_user := Some u\<rparr>
   | Some Unparseable \<Rightarrow> tab\<lparr>wt_store := None\<rparr>)\<lparr>wt_ready := True\<rparr>"

definition onExpired :: "web_tab \<Rightarrow> web_tab" where
  "onExpired tab = tab\<lparr>wt_user := None, wt_recent := clearRecentRooms (wt_recent tab)\<rparr>"

definition clearStoredUser :: "web_tab \<Rightarrow> web_tab" where
  "clearStoredUser tab = onExpired (tab\<lparr>wt_store := None\<rparr>)"

definition onRejected :: "web_tab \<Rightarrow> http_headers option \<Rightarrow> nat option \<Rightarrow> web_tab" where
  "onRejected tab headers status = (if clears_session (wt_store tab) headers status then clearStoredUser tab else tab)"

definition adopt_session :: "web_tab \<Rightarrow> web_user \<Rightarrow> web_tab" where
  "adopt_session tab u = tab\<lparr>wt_user := Some u, wt_store := Some (JsonUser u)\<rparr>"

text \<open>Sign-in and registration go out without the interceptors, the other calls with them.\<close>

definition web_login :: "web_tab \<Rightarrow> api_error + web_user \<Rightarrow> web_tab \<times> toast" where
  "web_login tab response = (case response of
     Inr u \<Rightarrow> (adopt_session tab u, ToastOk ''Signed in'')
   | Inl e \<Rightarrow> (tab, ToastError (if truthy (ae_message e) then nullish (ae_message e) [] else ''Couldn't sign in'')))"

definition web_register :: "web_tab \<Rightarrow> api_error + web_user \<Rightarrow> web_tab \<times> toast" where
  "web_register tab response = (case response of
     Inr u \<Rightarrow> (adopt_session tab u, ToastOk ''Account created'')
   | Inl e \<Rightarrow> (tab, ToastError (if truthy (ae_message e) then nullish (ae_message e) [] else ''Couldn't create the account'')))"

definition signInWithToken :: "web_tab \<Rightarrow> string \<Rightarrow> api_error + web_user \<Rightarrow> web_tab \<times> toast" where
  "signInWithToken tab token response = (case response of
     Inr u \<Rightarrow> (adopt_session tab (u\<lparr>wu_token := Some token\<rparr>), ToastOk ''Signed in'')
   | Inl e \<Rightarrow> (onRejected tab (ar_headers (api_getMe token)) (ae_status e), ToastError ''Couldn't complete sign-in''))"

definition continueAsGuest :: "web_tab \<Rightarrow> http_headers option \<Rightarrow> api_error + web_user \<Rightarrow> web_tab \<times> toast" where
  "continueAsGuest tab sent response = (case response of
     Inr u \<Rightarrow> (adopt_session tab u, ToastOk (''You are in as '' @ wu_username u))
   | Inl e \<Rightarrow> (onRejected tab sent (ae_status e),
       ToastError (if ae_status e = Some 429 then ''Too many guests from this connection - try again shortly''
         else ''Couldn't join as a guest'')))"

definition claim_message :: "api_error \<Rightarrow> string" where
  "claim_message e =
     (if ae_status e = Some 400 \<or> ae_status e = Some 409
      then (if truthy (ae_message e) then nullish (ae_message e) [] else ''That didn't work'')
      else if ae_status e = Some 403 then ''This session is already a full account''
      else ''Couldn't save your account'')"

definition claimAccount :: "web_tab \<Rightarrow> http_headers option \<Rightarrow> api_error + web_user \<Rightarrow> web_tab \<times> toast" where
  "claimAccount tab sent response = (case response of
     Inr u \<Rightarrow> (adopt_session tab u, ToastOk (''Welcome properly, '' @ wu_username u))
   | Inl e \<Rightarrow> (onRejected tab sent (ae_status e), ToastError (claim_message e)))"

definition with_token :: "string \<Rightarrow> string \<Rightarrow> web_user \<Rightarrow> web_user" where
  "with_token token i u = (if wu_id u = i then u\<lparr>wu_token := Some token\<rparr> else u)"

definition adoptToken :: "web_tab \<Rightarrow> string \<Rightarrow> string \<Rightarrow> web_tab" where
  "adoptToken tab token i = tab\<lparr>wt_user := map_option (with_token token i) (wt_user tab),
     wt_store := (case wt_store tab of Some (JsonUser u) \<Rightarrow> Some (JsonUser (with_token token i u)) | other \<Rightarrow> other)\<rparr>"

definition onStorage :: "web_tab \<Rightarrow> string \<Rightarrow> user_entry option \<Rightarrow> web_tab" where
  "onStorage tab key newValue =
     (if key \<noteq> ''user'' then tab
      else (case newValue of
          None \<Rightarrow> tab\<lparr>wt_user := None\<rparr>
        | Some Unparseable \<Rightarrow> tab
        | Some (JsonUser nxt) \<Rightarrow>
            tab\<lparr>wt_user := (case wt_user tab of
                None \<Rightarrow> Some nxt
              | Some current \<Rightarrow> if wu_id current = wu_id nxt then Some nxt else Some current)\<rparr>))"

text \<open>
  Signing out calls the server and drops the local session. Whether axios runs the request
  interceptors inside the call (an interceptor registered as synchronous) or once the caller has
  finished (the default) is the parameter \<open>synchronous\<close>; the second component is the Authorization
  header the call goes out with.
\<close>

definition logout :: "bool \<Rightarrow> web_tab \<Rightarrow> bool \<Rightarrow> web_tab \<times> string option" where
  "logout synchronous tab everywhere =
     (let tab' = tab\<lparr>wt_user := None, wt_store := None, wt_recent := clearRecentRooms (wt_recent tab)\<rparr>;
          config = (if everywhere then api_logoutEverywhere else api_logout) in
      (tab', sent_header (wt_store (if synchronous then tab else tab')) config))"

definition isGuest :: "web_tab \<Rightarrow> bool" where
  "isGuest tab = (case wt_user tab of None \<Rightarrow> False | Some u \<Rightarrow> endsWith (wu_email u) ''@guest.invalid'')"

subsection \<open>The refresh timer\<close>

text \<open>
  \<open>decode\<close> is what reading the payload out of a token yields: its exp and elev claims, or nothing when
  the text does not decode.
\<close>

definition refresh_delay :: "(string \<Rightarrow> (jsval \<times> jsval) option) \<Rightarrow> web_tab \<Rightarrow> jsnum \<Rightarrow> jsnum option" where
  "refresh_delay decode tab now =
     (case wt_user tab of
        None \<Rightarrow> None
      | Some u \<Rightarrow>
          if \<not> truthy (wu_token u) then None
          else (case decode (nullish (wu_token u) []) of
              None \<Rightarrow> None
            | Some (expiry, elev) \<Rightarrow>
                if js_truthy elev then None
                else (case expiry of
                    JNum e \<Rightarrow> Some (math_max ((e * 1000 - now) * Fin (9/10)) 60000)
                  | _ \<Rightarrow> None)))"

text \<open>The browser's setTimeout reads its delay as a signed 32-bit integer, and a negative one as 0.\<close>

definition timer_delay :: "jsnum \<Rightarrow> int" where
  "timer_delay d = (case d of
     Fin x \<Rightarrow> max 0 ((((if 0 \<le> x then \<lfloor>x\<rfloor> else \<lceil>x\<rceil>) + 2 ^ 31) mod 2 ^ 32) - 2 ^ 31)
   | _ \<Rightarrow> 0)"

lemma timer_delay_exact: "0 \<le> x \<Longrightarrow> \<lfloor>x\<rfloor> < 2 ^ 31 \<Longrightarrow> timer_delay (Fin x) = \<lfloor>x\<rfloor>"
  by (simp add: timer_delay_def)

definition on_refreshed :: "web_tab \<Rightarrow> http_headers option \<Rightarrow> api_error + (string \<times> string) \<Rightarrow> web_tab" where
  "on_refreshed tab sent response = (case response of
     Inr (token, i) \<Rightarrow> adoptToken tab token i
   | Inl e \<Rightarrow> onRejected tab sent (ae_status e))"

text \<open>
  The refresh of a session comes before its end: with up to 27 days and at least 70 seconds left,
  the timer of a session token fires no earlier than a minute from now and while the token still has
  a tenth of its remaining life; an elevated token is never refreshed.
\<close>

theorem refresh_before_expiry:
  assumes "wt_user tab = Some u" "wu_token u = Some t" "t \<noteq> []" "decode t = Some (JNum (Fin e), elev)"
    and "70000 \<le> e * 1000 - now" "e * 1000 - now \<le> 27 * 86400000"
  shows "if js_truthy elev then refresh_delay decode tab (Fin now) = None
    else \<exists>d. refresh_delay decode tab (Fin now) = Some d \<and> 60000 \<le> timer_delay d \<and>
      now + real_of_int (timer_delay d) + (e * 1000 - now) / 10 \<le> e * 1000"
proof (cases "js_truthy elev")
  case False
  let ?x = "(e * 1000 - now) * (9/10)"
  have d: "refresh_delay decode tab (Fin now) = Some (Fin ?x)"
    using assms False by (simp add: refresh_delay_def math_max_def js_simps)
  obtain n where n: "\<lfloor>?x\<rfloor> = n" by blast
  have "real_of_int n \<le> ?x" unfolding n [symmetric] by (rule of_int_floor_le)
  moreover have "60000 \<le> n" "n < 2 ^ 31" using assms(5,6) n [symmetric] by (simp_all add: le_floor_iff floor_less_iff)
  moreover from this have "timer_delay (Fin ?x) = n" using assms(5) timer_delay_exact [of ?x] unfolding n by simp
  ultimately have "60000 \<le> timer_delay (Fin ?x) \<and> now + real_of_int (timer_delay (Fin ?x)) + (e * 1000 - now) / 10 \<le> e * 1000"
    by (simp add: field_simps)
  with d have "\<exists>d. refresh_delay decode tab (Fin now) = Some d \<and> 60000 \<le> timer_delay d \<and>
      now + real_of_int (timer_delay d) + (e * 1000 - now) / 10 \<le> e * 1000" by blast
  then show ?thesis using False by auto
qed (use assms in \<open>simp add: refresh_delay_def\<close>)

text \<open>A lifetime of thirty days overflows the timer: the refresh fires at once, and so does the next one.\<close>

lemma long_lifetime_refreshes_at_once:
  assumes "wt_user tab = Some u" "wu_token u = Some t" "t \<noteq> []" "decode t = Some (JNum (Fin e), JUndef)"
    and "e * 1000 - now = 30 * 86400000"
  shows "\<exists>d. refresh_delay decode tab (Fin now) = Some d \<and> timer_delay d = 0"
  using assms by (simp add: refresh_delay_def math_max_def js_truthy_def js_simps timer_delay_def)

definition demo_tab :: web_tab where
  "demo_tab = \<lparr>wt_user = Some demo_web_user, wt_ready = True, wt_store = Some (JsonUser demo_web_user), wt_recent = None, wt_elevated = None\<rparr>"

theorem refresh_before_expiry_witness:
  "\<exists>d. refresh_delay (\<lambda>t. Some (JNum (Fin 43200), JUndef)) demo_tab (Fin 0) = Some d \<and> 60000 \<le> timer_delay d \<and>
     real_of_int (timer_delay d) \<le> 38880000"
  using refresh_before_expiry [of demo_tab demo_web_user "''tok''" "\<lambda>t. Some (JNum (Fin 43200), JUndef)" 43200 JUndef 0]
  by (auto simp: demo_tab_def demo_web_user_def js_truthy_def)

subsection \<open>One identity per tab\<close>

text \<open>
  What happens to a tab. A write of another tab changes the shared storage first and is announced
  later; \<open>ServerEnded\<close> is the socket's session-ended event, which dispatches the expiry event.
\<close>

datatype web_event =
    Rehydrated
  | SignedIn web_user
  | RequestRejected "http_headers option" "nat option"
  | TokenAdopted string string
  | LoggedOut bool bool
  | ServerEnded
  | ForeignWrite "user_entry option"
  | StorageAnnounced "user_entry option"

fun web_step :: "web_tab \<Rightarrow> web_event \<Rightarrow> web_tab" where
  "web_step tab Rehydrated = rehydrate tab"
| "web_step tab (SignedIn u) = adopt_session tab u"
| "web_step tab (RequestRejected sent status) = onRejected tab sent status"
| "web_step tab (TokenAdopted token i) = adoptToken tab token i"
| "web_step tab (LoggedOut synchronous everywhere) = fst (logout synchronous tab everywhere)"
| "web_step tab ServerEnded = onExpired tab"
| "web_step tab (ForeignWrite e) = tab\<lparr>wt_store := e\<rparr>"
| "web_step tab (StorageAnnounced e) = onStorage tab ''user'' e"

definition own_event :: "web_event \<Rightarrow> bool" where
  "own_event ev = (case ev of ServerEnded \<Rightarrow> False | ForeignWrite e \<Rightarrow> False | StorageAnnounced e \<Rightarrow> False | _ \<Rightarrow> True)"

definition new_tab :: "user_entry option \<Rightarrow> recent_entry option \<Rightarrow> web_tab" where
  "new_tab e r = \<lparr>wt_user = None, wt_ready = False, wt_store = e, wt_recent = r, wt_elevated = None\<rparr>"

definition in_step :: "web_tab \<Rightarrow> bool" where
  "in_step tab = (wt_user tab = entry_user (wt_store tab))"

lemma entry_user_simps [simp]:
  "entry_user None = None" "entry_user (Some (JsonUser u)) = Some u" "entry_user (Some Unparseable) = None"
  by (simp_all add: entry_user_def)

lemma rehydrate_in_step: "wt_user tab = None \<or> in_step tab \<Longrightarrow> in_step (rehydrate tab)"
  by (auto simp: rehydrate_def in_step_def split: option.splits user_entry.splits)

lemma own_event_in_step: "in_step tab \<Longrightarrow> own_event ev \<Longrightarrow> in_step (web_step tab ev)"
  by (cases ev) (simp add: rehydrate_in_step, auto simp: in_step_def own_event_def adopt_session_def onRejected_def clearStoredUser_def
      onExpired_def adoptToken_def logout_def Let_def split: option.splits user_entry.splits)

lemma own_run_in_step: "in_step tab \<Longrightarrow> list_all own_event evs \<Longrightarrow> in_step (foldl web_step tab evs)"
  by (induction evs arbitrary: tab) (simp_all add: own_event_in_step)

definition shown_header :: "web_tab \<Rightarrow> string option" where
  "shown_header tab = (case wt_user tab of
     None \<Rightarrow> None
   | Some u \<Rightarrow> (case wu_token u of None \<Rightarrow> None | Some t \<Rightarrow> if t = [] then None else Some (bearer t)))"

lemma in_step_header:
  assumes "in_step tab" "\<not> token_free (Some url)"
  shows "sent_header (wt_store tab) (api_post url None) = shown_header tab"
  using assms
  by (auto simp: sent_header_post in_step_def shown_header_def readStoredToken_def truthy_iff entry_user_def
      split: option.splits user_entry.splits)

text \<open>
  C24. A tab acts as the user it shows. Whatever it starts from in storage and whatever it goes through
  by itself (signing in and out, tokens adopted late, rejected requests), the user it shows is the one
  it stored, and a call to a guarded route carries exactly the token of that user, and none when
  nobody is shown.
\<close>

theorem tab_acts_as_shown_user:
  assumes "list_all own_event evs" "\<not> token_free (Some url)"
  shows "let tab = foldl web_step (rehydrate (new_tab e r)) evs in
    in_step tab \<and> sent_header (wt_store tab) (api_post url None) = shown_header tab"
proof -
  have "in_step (rehydrate (new_tab e r))" by (rule rehydrate_in_step) (simp add: new_tab_def)
  then show ?thesis using own_run_in_step assms in_step_header by (simp add: Let_def)
qed

theorem tab_acts_as_shown_user_witness:
  "let tab = foldl web_step (rehydrate (new_tab (Some Unparseable) None)) [SignedIn demo_web_user, TokenAdopted ''new'' ''id1'', TokenAdopted ''x'' ''id2''] in
     in_step tab \<and> sent_header (wt_store tab) (api_post ''/auth/refresh'' None) = Some ''Bearer new''"
proof -
  let ?evs = "[SignedIn demo_web_user, TokenAdopted ''new'' ''id1'', TokenAdopted ''x'' ''id2'']"
  have "list_all own_event ?evs" by (simp add: own_event_def)
  from tab_acts_as_shown_user [OF this, of "''/auth/refresh''" "Some Unparseable" None] show ?thesis
    by (auto simp: Let_def shown_header_def adoptToken_def adopt_session_def with_token_def demo_web_user_def bearer_def)
qed

text \<open>
  The three ways out of step. A session the server ended stays in storage and comes back with the next
  page load; a tab whose user differs from the one another tab signed in as keeps showing its own
  user while its calls carry the other's token.
\<close>

lemma ended_session_returns_on_reload:
  assumes "wt_store tab = Some (JsonUser u)"
  shows "wt_user (web_step tab ServerEnded) = None \<and>
    wt_user (rehydrate (new_tab (wt_store (web_step tab ServerEnded)) r)) = Some u"
  using assms by (simp add: onExpired_def rehydrate_def new_tab_def)

lemma two_tabs_two_identities:
  assumes "wt_user tab = Some u" "wu_id w \<noteq> wu_id u" "wu_token w = Some t" "t \<noteq> []" "\<not> token_free (Some url)"
  defines "tab' \<equiv> foldl web_step tab [ForeignWrite (Some (JsonUser w)), StorageAnnounced (Some (JsonUser w))]"
  shows "wt_user tab' = Some u \<and> sent_header (wt_store tab') (api_post url None) = Some (bearer t)"
  using assms by (auto simp: onStorage_def sent_header_post readStoredToken_def)

lemma announced_write_restores_step:
  assumes "case (wt_user tab, e) of (Some u, Some (JsonUser w)) \<Rightarrow> wu_id u = wu_id w | (_, Some Unparseable) \<Rightarrow> False | _ \<Rightarrow> True"
  shows "in_step (foldl web_step tab [ForeignWrite e, StorageAnnounced e])"
  using assms by (auto simp: in_step_def onStorage_def split: option.splits user_entry.splits)

subsection \<open>Signing out\<close>

lemma canActivate_None: "canActivate verify rv None = Inl MissingHeader"
  by (simp add: canActivate_def)

text \<open>
  C27. Signing out of a tab does not end the session on the server: the interceptor that attaches the
  token runs after the tab has dropped it, so the call arrives without a token, is refused, changes
  nothing, and the token goes on passing the guard, on this tab's request and for whoever has a copy. An
  interceptor that ran inside the call would have revoked it.
\<close>

theorem sign_out_does_not_reach_server:
  assumes "wt_store tab = Some (JsonUser u)" "wu_token u = Some t" "bare_token t"
    and "cx_verify cx t = Verified p" "tp_jti p = JStr j" "j \<noteq> []" "tp_sub p = JStr i" "i \<noteq> []"
    and "canActivate (cx_verify cx) (aa_revocation app) (Some (bearer t)) = Inr w"
  shows "(case logout False tab False of (tab', header) \<Rightarrow>
      wt_user tab' = None \<and> header = None \<and> route_logout cx app header = (app, Inl (NotAuthenticated MissingHeader))) \<and>
    (case logout True tab False of (tab', header) \<Rightarrow>
      \<exists>app'. route_logout cx app header = (app', Inr True) \<and>
        (\<exists>e. canActivate (cx_verify cx) (aa_revocation app') (Some (bearer t)) = Inl e))"
proof -
  have t: "t \<noteq> []" using assms(3) by (simp add: bare_token_def)
  have d: "decodeOwnToken (cx_verify cx) (Some (bearer t)) = Some p"
    using bearer_parts [OF assms(3)] t assms(4) by (simp add: decodeOwnToken_def bearer_def)
  have "\<exists>app'. route_logout cx app (Some (bearer t)) = (app', Inr True) \<and> aa_revocation app' = rememberToken (aa_revocation app) j"
    using assms(5-9) by (simp add: route_logout_def guarded_def d revokeToken_def Let_def)
  then obtain app' where a: "route_logout cx app (Some (bearer t)) = (app', Inr True)" "aa_revocation app' = rememberToken (aa_revocation app) j"
    by blast
  have "isRevoked (rememberToken (aa_revocation app) j) p \<noteq> None"
    using assms(5,6) by (simp add: isRevoked_def rememberToken_def)
  then have "\<exists>e. canActivate (cx_verify cx) (aa_revocation app') (Some (bearer t)) = Inl e"
    using guard_refuses [OF d] by (simp add: a(2))
  moreover have "route_logout cx app None = (app, Inl (NotAuthenticated MissingHeader))"
    by (simp add: route_logout_def guarded_def canActivate_None)
  ultimately show ?thesis
    using assms(1,2) t a(1) by (auto simp: logout_def api_logout_def sent_header_post readStoredToken_def)
qed

theorem sign_out_does_not_reach_server_witness:
  "snd (logout False demo_tab False) = None \<and> route_logout demo_cx demo_app None = (demo_app, Inl (NotAuthenticated MissingHeader)) \<and>
   (\<exists>w. canActivate toy_verify loaded (Some ''Bearer tok'') = Inr w)"
proof -
  have "bare_token ''tok''" by (simp add: bare_token_def is_ws_def)
  moreover have "cx_verify demo_cx ''tok'' = Verified demo_token" by (simp add: demo_cx_def toy_verify_def)
  moreover have "tp_jti demo_token = JStr ''j0''" "tp_sub demo_token = JStr ''id1''" by (simp_all add: demo_session_defs)
  moreover have "canActivate (cx_verify demo_cx) (aa_revocation demo_app) (Some (bearer ''tok'')) = Inr \<lparr>au_userId = ''id1'', au_username = ''ada''\<rparr>"
    using demo_guard by (simp add: demo_cx_def demo_app_def bearer_def)
  moreover have "wt_store demo_tab = Some (JsonUser demo_web_user)" "wu_token demo_web_user = Some ''tok''"
    by (simp_all add: demo_tab_def demo_web_user_def)
  ultimately have "case logout False demo_tab False of (tab', header) \<Rightarrow>
      wt_user tab' = None \<and> header = None \<and> route_logout demo_cx demo_app header = (demo_app, Inl (NotAuthenticated MissingHeader))"
    using sign_out_does_not_reach_server [of demo_tab demo_web_user "''tok''" demo_cx demo_token "''j0''" "''id1''" demo_app] by simp
  then show ?thesis using demo_guard by auto
qed

subsection \<open>Landing from Google\<close>

record landing_params =
  lp_token :: "string option"
  lp_error :: "string option"
  lp_to :: "string option"
  lp_elev :: "string option"

definition explanation :: "string \<Rightarrow> string option" where
  "explanation code = map_of
     [(''denied'', ''Sign-in cancelled''),
      (''state'', ''That sign-in expired''),
      (''unverified'', ''Google has not verified that address''),
      (''email_taken'', ''That email already has an account here''),
      (''link_provider_taken'', ''That Google account already has an account here''),
      (''link_email_taken'', ''That email already has an account here''),
      (''link_not_guest'', ''This account is already a full one''),
      (''reauth_mismatch'', ''That was a different Google account''),
      (''link'', ''Couldn't attach Google to this session''),
      (''exchange'', ''Couldn't finish with Google'')] code"

definition fallback_title :: string where
  "fallback_title = ''Couldn't sign you in''"

datatype landing_outcome = Navigate string | ShowFailure string

text \<open>The page's effect; \<open>response\<close> is the server's answer for the profile behind the token.\<close>

definition land :: "web_tab \<Rightarrow> landing_params \<Rightarrow> (string \<Rightarrow> api_error + web_user) \<Rightarrow> web_tab \<times> landing_outcome" where
  "land tab ps response =
     (if truthy (lp_elev ps) then (tab\<lparr>wt_elevated := lp_elev ps\<rparr>, Navigate (nullish (browser_safeReturnTo (lp_to ps)) ''/''))
      else if truthy (lp_error ps) \<or> \<not> truthy (lp_token ps) then
        (tab, ShowFailure (if truthy (lp_error ps) then nullish (explanation (nullish (lp_error ps) [])) fallback_title else fallback_title))
      else
        (let token = nullish (lp_token ps) []; tab' = fst (signInWithToken tab token (response token)) in
         (tab', case response token of
            Inr u \<Rightarrow> Navigate (nullish (browser_safeReturnTo (lp_to ps)) ''/'')
          | Inl e \<Rightarrow> ShowFailure fallback_title)))"

lemma navigates_on_site: "on_site (nullish (browser_safeReturnTo to) ''/'')"
  using filtered_path by (cases "browser_safeReturnTo to") (simp_all add: on_site_root filters_agree)

lemma adopted_session: "wt_user (adopt_session tab u) = Some u" "wt_store (adopt_session tab u) = Some (JsonUser u)"
  by (simp_all add: adopt_session_def)

text \<open>
  What a landing can do to a session: it only ever navigates within the site; an elevated token is
  parked and neither shown nor stored as a session; a token becomes the session only when the server
  answered for it, with the user the server named. Every code the server's callback lands with has an
  explanation of its own.
\<close>

theorem landing_is_checked:
  "(case land tab ps response of (tab', out) \<Rightarrow>
      (case out of Navigate path \<Rightarrow> on_site path | ShowFailure t \<Rightarrow> True) \<and>
      (if truthy (lp_elev ps) then wt_user tab' = wt_user tab \<and> wt_store tab' = wt_store tab \<and> wt_elevated tab' = lp_elev ps
       else wt_elevated tab' = wt_elevated tab \<and>
         (tab' = tab \<or> tab' = clearStoredUser tab \<or>
          (\<exists>token u. lp_token ps = Some token \<and> response token = Inr u \<and> out = Navigate (nullish (browser_safeReturnTo (lp_to ps)) ''/'') \<and>
             tab' = adopt_session tab (u\<lparr>wu_token := Some token\<rparr>))))) \<and>
   (\<forall>cx app cb draw uid jti app' code. route_callback cx app cb draw uid jti = (app', Inr (LandError code)) \<longrightarrow> explanation code \<noteq> None)"
proof (intro conjI)
  show "case land tab ps response of (tab', out) \<Rightarrow>
      (case out of Navigate path \<Rightarrow> on_site path | ShowFailure t \<Rightarrow> True) \<and>
      (if truthy (lp_elev ps) then wt_user tab' = wt_user tab \<and> wt_store tab' = wt_store tab \<and> wt_elevated tab' = lp_elev ps
       else wt_elevated tab' = wt_elevated tab \<and>
         (tab' = tab \<or> tab' = clearStoredUser tab \<or>
          (\<exists>token u. lp_token ps = Some token \<and> response token = Inr u \<and> out = Navigate (nullish (browser_safeReturnTo (lp_to ps)) ''/'') \<and>
             tab' = adopt_session tab (u\<lparr>wu_token := Some token\<rparr>))))"
    by (auto simp: land_def Let_def signInWithToken_def navigates_on_site truthy_iff onRejected_def adopt_session_def clearStoredUser_def
        onExpired_def split: sum.splits)
  have link: "explanation (link_code e) \<noteq> None" for e by (simp add: link_code_def explanation_def split: auth_error.split)
  have fail: "explanation (failure_code f) \<noteq> None" for f by (cases f) (simp_all add: failure_code_def explanation_def)
  have "explanation ''reauth_mismatch'' \<noteq> None" "explanation ''exchange'' \<noteq> None" by (simp_all add: explanation_def)
  then show "\<forall>cx app cb draw uid jti app' code. route_callback cx app cb draw uid jti = (app', Inr (LandError code)) \<longrightarrow> explanation code \<noteq> None"
    using link fail
    by (auto simp: route_callback_def Let_def prod.case_eq_if split: if_splits sum.splits jsval.splits)
qed

theorem landing_is_checked_witness:
  "case land demo_tab \<lparr>lp_token = None, lp_error = None, lp_to = Some ''//evil'', lp_elev = Some ''five''\<rparr> (\<lambda>t. Inl \<lparr>ae_status = None, ae_message = None\<rparr>) of
     (tab', out) \<Rightarrow> wt_user tab' = wt_user demo_tab \<and> wt_elevated tab' = Some ''five'' \<and> out = Navigate ''/''"
  using landing_is_checked [of "\<lparr>lp_token = None, lp_error = None, lp_to = Some ''//evil'', lp_elev = Some ''five''\<rparr>" demo_tab "\<lambda>t. Inl \<lparr>ae_status = None, ae_message = None\<rparr>"]
  by (auto simp: land_def browser_safeReturnTo_def startsWith_def)

subsection \<open>The socket\<close>

text \<open>A packet of the send buffer: the first element of its data, when it has any.\<close>

record packet =
  pk_event :: "string option"
  pk_id :: nat

definition dropStaleControls :: "packet list \<Rightarrow> packet list" where
  "dropStaleControls buffer = filter (\<lambda>p. pk_event p \<noteq> Some ''sync:control'') buffer"

record web_socket =
  ws_live :: bool
  ws_connected :: bool
  ws_reconnecting :: bool
  ws_hasConnected :: bool
  ws_ended :: bool
  ws_sendBuffer :: "packet list"

text \<open>The effect on a token: a new socket, or none without a token.\<close>

definition open_socket :: "string option \<Rightarrow> web_socket \<Rightarrow> web_socket" where
  "open_socket token w =
     (if truthy token
      then w\<lparr>ws_live := True, ws_reconnecting := False, ws_hasConnected := False, ws_ended := False, ws_sendBuffer := []\<rparr>
      else w\<lparr>ws_live := False, ws_connected := False, ws_ended := False, ws_sendBuffer := []\<rparr>)"

text \<open>
  Connecting flushes the buffer before the application hears of it; the second component is what goes
  out.
\<close>

definition on_connect :: "web_socket \<Rightarrow> web_socket \<times> packet list" where
  "on_connect w = (w\<lparr>ws_connected := True, ws_reconnecting := False, ws_hasConnected := True, ws_sendBuffer := []\<rparr>, ws_sendBuffer w)"

definition on_disconnect :: "web_socket \<Rightarrow> web_socket" where
  "on_disconnect w = w\<lparr>ws_sendBuffer := dropStaleControls (ws_sendBuffer w), ws_connected := False,
     ws_reconnecting := ws_hasConnected w \<and> \<not> ws_ended w\<rparr>"

text \<open>The server ended the session: the socket is closed for good, which fires disconnect when it was connected.\<close>

definition on_session_ended :: "web_socket \<Rightarrow> web_socket" where
  "on_session_ended w =
     (let w' = w\<lparr>ws_ended := True\<rparr> in (if ws_connected w' then on_disconnect w' else w')\<lparr>ws_live := False\<rparr>)"

definition session_ended_message :: "string option \<Rightarrow> string" where
  "session_ended_message reason =
     (if reason = Some ''token expired'' then ''Your session expired - sign in again''
      else if reason = Some ''signed out everywhere'' then ''You were signed out everywhere''
      else ''This session was signed out'')"

text \<open>Teardown of the effect: the flag goes first, so the disconnect it causes is no drop.\<close>

definition close_socket :: "web_socket \<Rightarrow> web_socket" where
  "close_socket w =
     (let w' = w\<lparr>ws_hasConnected := False\<rparr> in (if ws_connected w' then on_disconnect w' else w')\<lparr>ws_live := False, ws_reconnecting := False\<rparr>)"

datatype sock_event = Connects | Disconnects | SessionEnds | Emits packet | TokenIs "string option"

text \<open>An emit that cannot be written is buffered; session-ended arrives over a live connection. The second component is what a reconnect flushes.\<close>

fun sock_step :: "web_socket \<Rightarrow> sock_event \<Rightarrow> web_socket \<times> packet list" where
  "sock_step w Connects = (if ws_live w then on_connect w else (w, []))"
| "sock_step w Disconnects = (on_disconnect w, [])"
| "sock_step w SessionEnds = (if ws_connected w then on_session_ended w else w, [])"
| "sock_step w (Emits p) = (w\<lparr>ws_sendBuffer := ws_sendBuffer w @ [p]\<rparr>, [])"
| "sock_step w (TokenIs token) = (open_socket token (close_socket w), [])"

definition sock_run :: "web_socket \<Rightarrow> sock_event list \<Rightarrow> web_socket" where
  "sock_run w evs = foldl (\<lambda>w ev. fst (sock_step w ev)) w evs"

definition new_socket :: web_socket where
  "new_socket = \<lparr>ws_live = False, ws_connected = False, ws_reconnecting = False, ws_hasConnected = False, ws_ended = False, ws_sendBuffer = []\<rparr>"

definition emitted :: "sock_event list \<Rightarrow> packet list" where
  "emitted evs = List.map_filter (\<lambda>ev. case ev of Emits p \<Rightarrow> Some p | _ \<Rightarrow> None) evs"

definition is_control :: "packet \<Rightarrow> bool" where
  "is_control p = (pk_event p = Some ''sync:control'')"

lemma emitted_simps [simp]:
  "emitted [] = []" "emitted (Emits p # evs) = p # emitted evs" "emitted (Connects # evs) = emitted evs"
  "emitted (Disconnects # evs) = emitted evs" "emitted (SessionEnds # evs) = emitted evs" "emitted (TokenIs t # evs) = emitted evs"
  by (simp_all add: emitted_def)

lemma dropStale_controls: "filter is_control (dropStaleControls b) = []"
  by (simp add: dropStaleControls_def is_control_def)

lemma dropStale_set: "set (dropStaleControls b) \<subseteq> set b"
  by (auto simp: dropStaleControls_def)

lemma step_buffer:
  "set (ws_sendBuffer (fst (sock_step w ev))) \<subseteq> set (ws_sendBuffer w) \<union> set (emitted [ev])"
  by (cases ev) (auto simp: on_connect_def on_disconnect_def on_session_ended_def close_socket_def open_socket_def Let_def
      dropStaleControls_def)

lemma run_buffer: "set (ws_sendBuffer (sock_run w evs)) \<subseteq> set (ws_sendBuffer w) \<union> set (emitted evs)"
proof (induction evs arbitrary: w)
  case (Cons ev evs)
  have "set (emitted (ev # evs)) = set (emitted [ev]) \<union> set (emitted evs)" by (cases ev) simp_all
  then show ?case using Cons.IH [of "fst (sock_step w ev)"] step_buffer [of w ev] by (auto simp: sock_run_def)
qed (simp add: sock_run_def)

lemma waiting_buffer:
  assumes "\<forall>ev\<in>set evs. \<exists>p. ev = Emits p"
  shows "ws_sendBuffer (sock_run w evs) = ws_sendBuffer w @ emitted evs"
  using assms by (induction evs arbitrary: w) (auto simp: sock_run_def)

text \<open>
  No control outlives the connection it was meant for: whatever went before, a control that goes out
  when a socket reconnects was issued after the last disconnect. Nothing else is lost: what was
  buffered and is no control goes out in order, together with what was issued while waiting.
\<close>

theorem no_stale_control_flushes:
  fixes before waiting :: "sock_event list"
  defines "w \<equiv> sock_run new_socket (before @ [Disconnects] @ waiting)"
  shows "(\<forall>p. p \<in> set (snd (sock_step w Connects)) \<longrightarrow> is_control p \<longrightarrow> p \<in> set (emitted waiting)) \<and>
    (ws_live w \<longrightarrow> (\<forall>ev\<in>set waiting. \<exists>p. ev = Emits p) \<longrightarrow>
      snd (sock_step w Connects) =
        filter (\<lambda>p. \<not> is_control p) (ws_sendBuffer (sock_run new_socket before)) @ emitted waiting)"
proof -
  define v where "v = on_disconnect (sock_run new_socket before)"
  have w: "w = sock_run v waiting" by (simp add: w_def v_def sock_run_def)
  have b: "ws_sendBuffer v = filter (\<lambda>p. \<not> is_control p) (ws_sendBuffer (sock_run new_socket before))"
    by (simp add: v_def on_disconnect_def dropStaleControls_def is_control_def)
  have "p \<in> set (emitted waiting)" if p: "p \<in> set (snd (sock_step w Connects))" "is_control p" for p
  proof -
    have "p \<in> set (ws_sendBuffer w)" using p(1) by (simp add: on_connect_def split: if_splits)
    then show ?thesis using run_buffer [of v waiting] p(2) b w by auto
  qed
  moreover have "snd (sock_step w Connects) = ws_sendBuffer v @ emitted waiting"
    if "ws_live w" "\<forall>ev\<in>set waiting. \<exists>p. ev = Emits p"
    using that waiting_buffer [of waiting v] by (simp add: on_connect_def w)
  ultimately show ?thesis using b by auto
qed

theorem no_stale_control_flushes_witness:
  "snd (sock_step (sock_run new_socket ([TokenIs (Some ''tok''), Connects, Emits \<lparr>pk_event = Some ''sync:control'', pk_id = 1\<rparr>,
        Emits \<lparr>pk_event = Some ''chat-message'', pk_id = 2\<rparr>] @ [Disconnects] @ [Emits \<lparr>pk_event = None, pk_id = 3\<rparr>])) Connects) =
     [\<lparr>pk_event = Some ''chat-message'', pk_id = 2\<rparr>, \<lparr>pk_event = None, pk_id = 3\<rparr>]"
  using no_stale_control_flushes [of "[TokenIs (Some ''tok''), Connects, Emits \<lparr>pk_event = Some ''sync:control'', pk_id = 1\<rparr>,
        Emits \<lparr>pk_event = Some ''chat-message'', pk_id = 2\<rparr>]" "[Emits \<lparr>pk_event = None, pk_id = 3\<rparr>]"]
  by (simp add: sock_run_def new_socket_def open_socket_def close_socket_def on_connect_def on_disconnect_def Let_def
      is_control_def dropStaleControls_def)

text \<open>What the status chip promises: it says reconnecting only for a socket that had connected and was not ended.\<close>

definition honest_chip :: "web_socket \<Rightarrow> bool" where
  "honest_chip w = (ws_reconnecting w \<longrightarrow> ws_hasConnected w \<and> \<not> ws_ended w \<and> \<not> ws_connected w)"

lemma honest_chip_step: "honest_chip w \<Longrightarrow> honest_chip (fst (sock_step w ev))"
  by (cases ev) (auto simp: honest_chip_def on_connect_def on_disconnect_def on_session_ended_def close_socket_def open_socket_def Let_def)

lemma honest_chip_run: "honest_chip (sock_run new_socket evs)"
proof -
  have "honest_chip w \<Longrightarrow> honest_chip (sock_run w evs)" for w
    by (induction evs arbitrary: w) (simp_all add: sock_run_def honest_chip_step)
  then show ?thesis by (simp add: honest_chip_def new_socket_def)
qed

end
