(* ===== verification/PlayerAdapters.thy ===== *)
theory PlayerAdapters
  imports SyncEngine
begin

text \<open>
  The adapters between the sync engine and the players (frontend sync/Html5Adapter.ts,
  sync/YouTubeAdapter.ts, sync/VimeoAdapter.ts). A player is what it answers: reads take its answer as
  an argument (\<^term>\<open>None\<close> where the call raises), commands are returned. Both embedded players report
  the playhead in steps, so their adapters rebuild it from the last step; the interface of that
  reconstruction is a locale. Properties: the error of the playhead, and the local audio and captions.
\<close>

subsection \<open>Shared pieces\<close>

definition clamp01 :: "jsnum \<Rightarrow> jsnum" where
  "clamp01 n = (if isFinite n then math_min 1 (math_max 0 n) else 0)"

datatype player_command =
    CmdSeek jsnum
  | CmdPlay
  | CmdPause
  | CmdRate jsnum
  | CmdVolume jsnum
  | CmdMuted bool
  | CmdTrack nat bool
  | CmdCaptionTrack "string option"
  | CmdLoadCaptions

definition recently :: "jsnum \<Rightarrow> jsnum \<Rightarrow> jsnum \<Rightarrow> bool" where
  "recently lastCommandAt now win = (now - lastCommandAt < win)"

lemma clamp01_range: "\<exists>x. clamp01 n = Fin x \<and> 0 \<le> x \<and> x \<le> 1"
  by (cases n) (auto simp: clamp01_def isFinite_def math_min_def math_max_def js_simps)

lemma clamp01_id: "0 \<le> x \<Longrightarrow> x \<le> 1 \<Longrightarrow> clamp01 (Fin x) = Fin x"
  by (simp add: clamp01_def isFinite_def math_min_def math_max_def js_simps)

text \<open>The numeric states of the telemetry contract.\<close>

definition raw_state :: "lifecycle \<Rightarrow> int" where
  "raw_state l = (case l of Playing \<Rightarrow> 1 | Paused \<Rightarrow> 2 | Buffering \<Rightarrow> 3 | Ended \<Rightarrow> 0 | Cued \<Rightarrow> 5 | Unstarted \<Rightarrow> - 1)"

subsection \<open>A media element\<close>

record media_element =
  el_currentTime :: jsnum
  el_duration :: jsnum
  el_ended :: bool
  el_readyState :: nat
  el_seeking :: bool
  el_paused :: bool
  el_playbackRate :: jsnum
  el_kinds :: "string list"

record html5_adapter =
  h5_lastCommandAt :: jsnum

definition h5_getPlayerTime :: "media_element \<Rightarrow> jsnum" where
  "h5_getPlayerTime el = el_currentTime el"

definition h5_getLifecycle :: "media_element \<Rightarrow> lifecycle" where
  "h5_getLifecycle el =
     (if el_ended el then Ended
      else if el_readyState el < 3 then Buffering
      else if el_seeking el then Buffering
      else if el_paused el then (if 0 < el_currentTime el then Paused else Cued)
      else Playing)"

definition h5_getRawState :: "media_element \<Rightarrow> int" where
  "h5_getRawState el = raw_state (h5_getLifecycle el)"

definition h5_getDuration :: "media_element \<Rightarrow> jsnum" where
  "h5_getDuration el = (if isFinite (el_duration el) then el_duration el else 0)"

definition h5_seekTo :: "html5_adapter \<Rightarrow> jsnum \<Rightarrow> jsnum \<Rightarrow> html5_adapter \<times> player_command list" where
  "h5_seekTo h now target = (h\<lparr>h5_lastCommandAt := now\<rparr>, [CmdSeek (math_max 0 target)])"

definition h5_play :: "html5_adapter \<Rightarrow> jsnum \<Rightarrow> html5_adapter \<times> player_command list" where
  "h5_play h now = (h\<lparr>h5_lastCommandAt := now\<rparr>, [CmdPlay])"

definition h5_pause :: "html5_adapter \<Rightarrow> jsnum \<Rightarrow> html5_adapter \<times> player_command list" where
  "h5_pause h now = (h\<lparr>h5_lastCommandAt := now\<rparr>, [CmdPause])"

text \<open>\<open>accept\<close> is the rate the element reports after one is assigned.\<close>

definition h5_setRate :: "(jsnum \<Rightarrow> jsnum) \<Rightarrow> html5_adapter \<Rightarrow> jsnum \<Rightarrow> jsnum \<Rightarrow> html5_adapter \<times> jsnum \<times> player_command list" where
  "h5_setRate accept h now r = (h\<lparr>h5_lastCommandAt := now\<rparr>, accept r, [CmdRate r])"

definition h5_probeFractionalRate :: "(jsnum \<Rightarrow> jsnum) \<Rightarrow> media_element \<Rightarrow> bool \<times> player_command list" where
  "h5_probeFractionalRate accept el =
     (abs (accept (Fin (105/100)) - Fin (105/100)) < Fin (1/1000000), [CmdRate (Fin (105/100)), CmdRate (el_playbackRate el)])"

definition h5_wasRecentlyCommanded :: "html5_adapter \<Rightarrow> jsnum \<Rightarrow> jsnum \<Rightarrow> bool" where
  "h5_wasRecentlyCommanded h now win = recently (h5_lastCommandAt h) now win"

definition h5_setVolume :: "jsnum \<Rightarrow> player_command list" where
  "h5_setVolume fraction = [CmdVolume (clamp01 fraction)]"

definition h5_setMuted :: "bool \<Rightarrow> player_command list" where
  "h5_setMuted muted = [CmdMuted muted]"

text \<open>The places, in the element's list, of the tracks that put words on the screen.\<close>

definition captionTracks :: "media_element \<Rightarrow> nat list" where
  "captionTracks el = filter (\<lambda>i. el_kinds el ! i = ''subtitles'' \<or> el_kinds el ! i = ''captions'') [0..<length (el_kinds el)]"

definition h5_hasCaptions :: "media_element \<Rightarrow> bool" where
  "h5_hasCaptions el = (captionTracks el \<noteq> [])"

definition h5_setCaptionsEnabled :: "media_element \<Rightarrow> bool \<Rightarrow> player_command list" where
  "h5_setCaptionsEnabled el enabled =
     map (\<lambda>(i, track). CmdTrack track (enabled \<and> i = 0)) (zip [0..<length (captionTracks el)] (captionTracks el))"

subsection \<open>YouTube\<close>

record youtube_adapter =
  yt_lastRaw :: jsnum
  yt_edge :: "(jsnum \<times> jsnum) option"
  yt_polling :: bool
  yt_lastCommandAt :: jsnum
  yt_rate :: jsnum
  yt_captionsLoaded :: bool

definition new_youtube :: youtube_adapter where
  "new_youtube = \<lparr>yt_lastRaw = 0, yt_edge = None, yt_polling = True, yt_lastCommandAt = 0, yt_rate = 1, yt_captionsLoaded = False\<rparr>"

text \<open>The 50 ms poll; \<open>raw\<close> is what getCurrentTime answers.\<close>

definition yt_poll :: "youtube_adapter \<Rightarrow> jsnum \<Rightarrow> jsnum option \<Rightarrow> youtube_adapter" where
  "yt_poll y now raw =
     (if \<not> yt_polling y then y
      else (case raw of
          None \<Rightarrow> y
        | Some r \<Rightarrow> if js_eq r (yt_lastRaw y) then y else y\<lparr>yt_edge := Some (now, r), yt_lastRaw := r\<rparr>))"

text \<open>The player's states: -1 unstarted, 0 ended, 1 playing, 2 paused, 3 buffering, 5 cued.\<close>

definition yt_getLifecycle :: "int option \<Rightarrow> lifecycle" where
  "yt_getLifecycle state =
     (if state = Some 1 then Playing else if state = Some 2 then Paused else if state = Some 3 then Buffering
      else if state = Some 0 then Ended else if state = Some 5 then Cued else Unstarted)"

definition yt_getPlayerTime :: "youtube_adapter \<Rightarrow> jsnum \<Rightarrow> int option \<Rightarrow> jsnum" where
  "yt_getPlayerTime y now state =
     (case yt_edge y of
        Some (tLocal, v) \<Rightarrow>
          if yt_getLifecycle state = Playing \<and> now - tLocal < 800 then v + ((now - tLocal) / 1000) * yt_rate y else yt_lastRaw y
      | None \<Rightarrow> yt_lastRaw y)"

definition yt_getRawState :: "int option \<Rightarrow> int" where
  "yt_getRawState state = nullish state (- 1)"

definition yt_getDuration :: "jsnum option \<Rightarrow> jsnum" where
  "yt_getDuration d = nullish d 0"

definition yt_seekTo :: "youtube_adapter \<Rightarrow> jsnum \<Rightarrow> jsnum \<Rightarrow> youtube_adapter \<times> player_command list" where
  "yt_seekTo y now target = (y\<lparr>yt_lastCommandAt := now, yt_edge := None\<rparr>, [CmdSeek target])"

definition yt_play :: "youtube_adapter \<Rightarrow> jsnum \<Rightarrow> youtube_adapter \<times> player_command list" where
  "yt_play y now = (y\<lparr>yt_lastCommandAt := now\<rparr>, [CmdPlay])"

definition yt_pause :: "youtube_adapter \<Rightarrow> jsnum \<Rightarrow> youtube_adapter \<times> player_command list" where
  "yt_pause y now = (y\<lparr>yt_lastCommandAt := now\<rparr>, [CmdPause])"

definition yt_setRate :: "(jsnum \<Rightarrow> jsnum) \<Rightarrow> youtube_adapter \<Rightarrow> jsnum \<Rightarrow> jsnum \<Rightarrow> youtube_adapter \<times> jsnum \<times> player_command list" where
  "yt_setRate accept y now r = (y\<lparr>yt_lastCommandAt := now, yt_rate := accept r\<rparr>, accept r, [CmdRate r])"

text \<open>
  The probe reads the rate up to five times. An answer \<^term>\<open>None\<close> raises and ends it; the rate is put back
  in every case.
\<close>

fun yt_probe_loop :: "nat \<Rightarrow> jsnum option list \<Rightarrow> bool \<times> player_command list" where
  "yt_probe_loop 0 readings = (False, [])"
| "yt_probe_loop (Suc n) [] = (False, [])"
| "yt_probe_loop (Suc n) (None # readings) = (False, [])"
| "yt_probe_loop (Suc n) (Some applied # readings) =
     (if abs (applied - Fin (105/100)) < Fin (1/1000) then (True, [CmdRate 1]) else yt_probe_loop n readings)"

definition yt_probeFractionalRate :: "jsnum option list \<Rightarrow> bool \<times> player_command list" where
  "yt_probeFractionalRate readings =
     (let (ok, cmds) = yt_probe_loop 5 readings in (ok, [CmdRate (Fin (105/100))] @ cmds @ [CmdRate 1]))"

definition yt_wasRecentlyCommanded :: "youtube_adapter \<Rightarrow> jsnum \<Rightarrow> jsnum \<Rightarrow> bool" where
  "yt_wasRecentlyCommanded y now win = recently (yt_lastCommandAt y) now win"

definition yt_dispose :: "youtube_adapter \<Rightarrow> youtube_adapter" where
  "yt_dispose y = y\<lparr>yt_polling := False\<rparr>"

text \<open>Math.round of a finite number.\<close>

definition math_round :: "jsnum \<Rightarrow> jsnum" where
  "math_round n = math_floor (n + Fin (1/2))"

definition yt_setVolume :: "jsnum \<Rightarrow> player_command list" where
  "yt_setVolume fraction = [CmdVolume (math_round (clamp01 fraction * 100))]"

definition yt_setMuted :: "bool \<Rightarrow> player_command list" where
  "yt_setMuted muted = [CmdMuted muted]"

text \<open>
  The captions module: whether the player has its two calls, and the track list it answers, each track
  with its language code; \<^term>\<open>None\<close> when a call raises or the answer is no array.
\<close>

definition yt_hasCaptions :: "youtube_adapter \<Rightarrow> bool \<Rightarrow> string option list option \<Rightarrow> youtube_adapter \<times> bool \<times> player_command list" where
  "yt_hasCaptions y available tracklist =
     (if \<not> available then (y, False, [])
      else (y\<lparr>yt_captionsLoaded := True\<rparr>,
        (case tracklist of None \<Rightarrow> False | Some list \<Rightarrow> list \<noteq> []),
        if yt_captionsLoaded y then [] else [CmdLoadCaptions]))"

definition firstCaptionLanguage :: "string option list option \<Rightarrow> string" where
  "firstCaptionLanguage tracklist = (case tracklist of Some (Some code # rest) \<Rightarrow> code | _ \<Rightarrow> ''en'')"

definition yt_setCaptionsEnabled :: "bool \<Rightarrow> string option list option \<Rightarrow> bool \<Rightarrow> player_command list" where
  "yt_setCaptionsEnabled available tracklist enabled =
     (if \<not> available then [] else [CmdCaptionTrack (if enabled then Some (firstCaptionLanguage tracklist) else None)])"

subsection \<open>Vimeo\<close>

record vimeo_adapter =
  vi_edge :: "(jsnum \<times> jsnum) option"
  vi_lastKnown :: jsnum
  vi_durationS :: jsnum
  vi_life :: lifecycle
  vi_rate :: jsnum
  vi_lastCommandAt :: jsnum
  vi_listening :: bool
  vi_captionLanguages :: "string list"

definition new_vimeo :: vimeo_adapter where
  "new_vimeo = \<lparr>vi_edge = None, vi_lastKnown = 0, vi_durationS = 0, vi_life = Unstarted, vi_rate = 1, vi_lastCommandAt = 0,
     vi_listening = True, vi_captionLanguages = []\<rparr>"

text \<open>What the player announces, and the promises of the constructor when they settle.\<close>

datatype vimeo_event =
    VTimeupdate jsnum "jsnum option"
  | VSeeked jsnum
  | VPlay
  | VPause
  | VBufferstart
  | VBufferend
  | VEnded
  | VLoaded
  | VPlaybackratechange jsnum
  | VDurationchange jsnum
  | VDurationRead "jsnum option"
  | VTracksRead "string list option"
  | VRateRejected

definition vi_is_promise :: "vimeo_event \<Rightarrow> bool" where
  "vi_is_promise ev = (case ev of VDurationRead d \<Rightarrow> True | VTracksRead ts \<Rightarrow> True | VRateRejected \<Rightarrow> True | _ \<Rightarrow> False)"

fun vi_react :: "vimeo_adapter \<Rightarrow> jsnum \<Rightarrow> vimeo_event \<Rightarrow> vimeo_adapter" where
  "vi_react v now (VTimeupdate seconds dur) =
     (let v1 = v\<lparr>vi_lastKnown := seconds, vi_edge := Some (now, seconds)\<rparr> in
      case dur of None \<Rightarrow> v1 | Some d \<Rightarrow> if js_eq d 0 \<or> d = NaN then v1 else v1\<lparr>vi_durationS := d\<rparr>)"
| "vi_react v now (VSeeked seconds) = v\<lparr>vi_lastKnown := seconds, vi_edge := Some (now, seconds)\<rparr>"
| "vi_react v now VPlay = v\<lparr>vi_life := Playing\<rparr>"
| "vi_react v now VPause = v\<lparr>vi_life := Paused\<rparr>"
| "vi_react v now VBufferstart = v\<lparr>vi_life := Buffering\<rparr>"
| "vi_react v now VBufferend = (if vi_life v = Buffering then v\<lparr>vi_life := Playing\<rparr> else v)"
| "vi_react v now VEnded = v\<lparr>vi_life := Ended\<rparr>"
| "vi_react v now VLoaded = (if vi_life v = Unstarted then v\<lparr>vi_life := Cued\<rparr> else v)"
| "vi_react v now (VPlaybackratechange r) = v\<lparr>vi_rate := r\<rparr>"
| "vi_react v now (VDurationchange d) = v\<lparr>vi_durationS := d\<rparr>"
| "vi_react v now (VDurationRead d) = (case d of None \<Rightarrow> v | Some x \<Rightarrow> v\<lparr>vi_durationS := x\<rparr>)"
| "vi_react v now (VTracksRead ts) = v\<lparr>vi_captionLanguages := nullish ts []\<rparr>"
| "vi_react v now VRateRejected = v\<lparr>vi_rate := 1\<rparr>"

definition vi_on :: "vimeo_adapter \<Rightarrow> jsnum \<Rightarrow> vimeo_event \<Rightarrow> vimeo_adapter" where
  "vi_on v now ev = (if vi_listening v \<or> vi_is_promise ev then vi_react v now ev else v)"

definition vi_getPlayerTime :: "vimeo_adapter \<Rightarrow> jsnum \<Rightarrow> jsnum" where
  "vi_getPlayerTime v now =
     (case vi_edge v of
        Some (tLocal, x) \<Rightarrow>
          if vi_life v = Playing \<and> now - tLocal < 1200 then x + ((now - tLocal) / 1000) * vi_rate v else vi_lastKnown v
      | None \<Rightarrow> vi_lastKnown v)"

definition vi_getRawState :: "vimeo_adapter \<Rightarrow> int" where
  "vi_getRawState v = raw_state (vi_life v)"

definition vi_seekTo :: "vimeo_adapter \<Rightarrow> jsnum \<Rightarrow> jsnum \<Rightarrow> vimeo_adapter \<times> player_command list" where
  "vi_seekTo v now target = (v\<lparr>vi_lastCommandAt := now, vi_edge := None\<rparr>, [CmdSeek (math_max 0 target)])"

definition vi_play :: "vimeo_adapter \<Rightarrow> jsnum \<Rightarrow> vimeo_adapter \<times> player_command list" where
  "vi_play v now = (v\<lparr>vi_lastCommandAt := now\<rparr>, [CmdPlay])"

definition vi_pause :: "vimeo_adapter \<Rightarrow> jsnum \<Rightarrow> vimeo_adapter \<times> player_command list" where
  "vi_pause v now = (v\<lparr>vi_lastCommandAt := now\<rparr>, [CmdPause])"

definition vi_setRate :: "vimeo_adapter \<Rightarrow> jsnum \<Rightarrow> jsnum \<Rightarrow> vimeo_adapter \<times> jsnum \<times> player_command list" where
  "vi_setRate v now r = (v\<lparr>vi_lastCommandAt := now, vi_rate := r\<rparr>, r, [CmdRate r])"

text \<open>\<open>applied\<close> is the rate the player reports after taking 1.05, nothing when it refuses it.\<close>

definition vi_probeFractionalRate :: "jsnum option \<Rightarrow> bool \<times> player_command list" where
  "vi_probeFractionalRate applied =
     ((case applied of None \<Rightarrow> False | Some a \<Rightarrow> abs (a - Fin (105/100)) < Fin (1/1000)), [CmdRate (Fin (105/100)), CmdRate 1])"

definition vi_wasRecentlyCommanded :: "vimeo_adapter \<Rightarrow> jsnum \<Rightarrow> jsnum \<Rightarrow> bool" where
  "vi_wasRecentlyCommanded v now win = recently (vi_lastCommandAt v) now win"

definition vi_dispose :: "vimeo_adapter \<Rightarrow> vimeo_adapter" where
  "vi_dispose v = v\<lparr>vi_listening := False\<rparr>"

text \<open>Vimeo has no mute: muting is a volume. Older embeds lack the call.\<close>

definition vi_setVolume :: "bool \<Rightarrow> jsnum \<Rightarrow> player_command list" where
  "vi_setVolume available fraction = (if available then [CmdVolume (clamp01 fraction)] else [])"

definition vi_setMuted :: "bool \<Rightarrow> bool \<Rightarrow> player_command list" where
  "vi_setMuted available muted = (if available then [CmdVolume (if muted then 0 else 1)] else [])"

definition vi_hasCaptions :: "vimeo_adapter \<Rightarrow> bool" where
  "vi_hasCaptions v = (vi_captionLanguages v \<noteq> [])"

definition vi_setCaptionsEnabled :: "bool \<Rightarrow> vimeo_adapter \<Rightarrow> bool \<Rightarrow> player_command list" where
  "vi_setCaptionsEnabled available v enabled =
     (if \<not> enabled then (if available then [CmdCaptionTrack None] else [])
      else (case vi_captionLanguages v of
          first # rest \<Rightarrow> if first \<noteq> [] \<and> available then [CmdCaptionTrack (Some first)] else []
        | [] \<Rightarrow> []))"

subsection \<open>The playhead between two steps\<close>

text \<open>
  The interface of a reconstructed playhead: observing a reported position either makes it the edge or
  finds it unchanged, and while playing the readout runs on from the edge for a while, at the speed in
  effect, and otherwise is the position reported last.
\<close>

locale edge_playhead =
  fixes ok :: "'s \<Rightarrow> bool"
    and observe :: "'s \<Rightarrow> jsnum \<Rightarrow> jsnum \<Rightarrow> 's"
    and readout :: "'s \<Rightarrow> jsnum \<Rightarrow> jsnum"
    and edge_of :: "'s \<Rightarrow> (jsnum \<times> jsnum) option"
    and known :: "'s \<Rightarrow> jsnum"
    and speed :: "'s \<Rightarrow> jsnum"
    and horizon :: jsnum
  assumes readout: "ok s \<Longrightarrow> readout s now = (case edge_of s of
      Some (t, x) \<Rightarrow> if now - t < horizon then x + ((now - t) / 1000) * speed s else known s
    | None \<Rightarrow> known s)"
    and observe_known: "ok s \<Longrightarrow> known (observe s (Fin t) (Fin x)) = Fin x"
    and observe_edge: "ok s \<Longrightarrow> edge_of (observe s (Fin t) (Fin x)) = Some (Fin t, Fin x) \<or>
      edge_of (observe s (Fin t) (Fin x)) = edge_of s"
    and observe_ok: "ok s \<Longrightarrow> ok (observe s (Fin t) (Fin x))"
    and observe_speed: "ok s \<Longrightarrow> speed (observe s (Fin t) (Fin x)) = speed s"
begin

definition watch :: "'s \<Rightarrow> (real \<times> real) list \<Rightarrow> 's" where
  "watch s obs = foldl (\<lambda>s (t, x). observe s (Fin t) (Fin x)) s obs"

definition edge_from :: "(real \<times> real) list \<Rightarrow> 's \<Rightarrow> bool" where
  "edge_from obs s = (case edge_of s of None \<Rightarrow> True | Some e \<Rightarrow> \<exists>(t, x)\<in>set obs. e = (Fin t, Fin x))"

lemma watch_snoc: "watch s (obs @ [(t, x)]) = observe (watch s obs) (Fin t) (Fin x)"
  by (simp add: watch_def)

lemma watch_facts:
  assumes "ok s" "edge_of s = None"
  shows "ok (watch s obs) \<and> speed (watch s obs) = speed s \<and> edge_from obs (watch s obs)"
proof (induction obs rule: rev_induct)
  case (snoc o1 obs)
  obtain t x where o1: "o1 = (t, x)" by fastforce
  let ?w = "watch s obs"
  have e: "edge_from (obs @ [(t, x)]) (observe ?w (Fin t) (Fin x))"
    using observe_edge [of ?w t x] snoc by (auto simp: edge_from_def split: option.splits)
  show ?case using snoc e observe_ok observe_speed by (simp add: o1 watch_snoc)
qed (use assms in \<open>simp add: watch_def edge_from_def\<close>)

lemma readout_error:
  assumes "ok s" "edge_of s = None" "speed s = Fin v" "0 \<le> v"
    and "\<forall>(t, x)\<in>set (obs @ [(tz, xz)]). p + v * t / 1000 - d \<le> x \<and> x \<le> p + v * t / 1000"
    and "tz \<le> now"
  shows "\<exists>y. readout (watch s (obs @ [(tz, xz)])) (Fin now) = Fin y \<and>
    p + v * now / 1000 - d - v * (now - tz) / 1000 \<le> y \<and> y \<le> p + v * now / 1000"
proof -
  let ?w = "watch s (obs @ [(tz, xz)])"
  have w: "ok ?w" "speed ?w = Fin v" "edge_from (obs @ [(tz, xz)]) ?w" using watch_facts assms(1-3) by simp_all
  have k: "known ?w = Fin xz" using watch_facts assms(1,2) observe_known by (simp add: watch_snoc)
  have late: "0 \<le> v * (now - tz) / 1000" using assms(4,6) by simp
  have last: "p + v * tz / 1000 - d \<le> xz" "xz \<le> p + v * tz / 1000" using assms(5) by auto
  have stale: "p + v * now / 1000 - d - v * (now - tz) / 1000 \<le> xz \<and> xz \<le> p + v * now / 1000"
    using last late by (simp add: field_simps)
  consider "readout ?w (Fin now) = Fin xz" |
    t x where "(t, x) \<in> set (obs @ [(tz, xz)])" "readout ?w (Fin now) = Fin (x + (now - t) / 1000 * v)"
  proof (cases "edge_of ?w")
    case None
    then show ?thesis using that readout [OF w(1)] k by simp
  next
    case (Some e)
    then obtain t x where e: "(t, x) \<in> set (obs @ [(tz, xz)])" "e = (Fin t, Fin x)"
      using w(3) by (auto simp: edge_from_def)
    then show ?thesis using that readout [OF w(1)] k w(2) Some by (cases "Fin now - Fin t < horizon") auto
  qed
  then show ?thesis
  proof cases
    case 1
    then show ?thesis using stale by simp
  next
    case 2
    then have "p + v * t / 1000 - d \<le> x" "x \<le> p + v * t / 1000" using assms(5) by auto
    then have "p + v * now / 1000 - d - v * (now - tz) / 1000 \<le> x + (now - t) / 1000 * v \<and> x + (now - t) / 1000 * v \<le> p + v * now / 1000"
      using late by (simp add: field_simps)
    then show ?thesis using 2(2) by blast
  qed
qed

end

interpretation youtube: edge_playhead yt_polling "\<lambda>y now x. yt_poll y now (Some x)" "\<lambda>y now. yt_getPlayerTime y now (Some 1)"
  yt_edge yt_lastRaw yt_rate 800
  by unfold_locales (auto simp: yt_getPlayerTime_def yt_getLifecycle_def yt_poll_def js_eq_def split: option.splits)

interpretation vimeo: edge_playhead "\<lambda>v. vi_life v = Playing \<and> vi_listening v" "\<lambda>v now x. vi_on v now (VTimeupdate x None)" vi_getPlayerTime
  vi_edge vi_lastKnown vi_rate 1200
  by unfold_locales (auto simp: vi_getPlayerTime_def vi_on_def split: option.splits)

text \<open>
  How far the reported playhead can be off. A player runs at a constant speed and reports a position
  that lags the true one by at most a quantum, and its adapter has no edge yet (it was just attached, or has
  just sought). Then, however its reports fell, the adapter's playhead is never ahead of the true
  position and lags it by at most the quantum plus what was played since the last report, for the
  polled player and for the one that announces its position.
\<close>

theorem playhead_error_bound:
  assumes "0 \<le> v" "tz \<le> now"
    and "\<forall>(t, x)\<in>set (obs @ [(tz, xz)]). p + v * t / 1000 - quantum \<le> x \<and> x \<le> p + v * t / 1000"
    and "yt_polling y" "yt_edge y = None" "yt_rate y = Fin v"
    and "vi_life w = Playing" "vi_listening w" "vi_edge w = None" "vi_rate w = Fin v"
  shows "(\<exists>e. yt_getPlayerTime (foldl (\<lambda>y (t, x). yt_poll y (Fin t) (Some (Fin x))) y (obs @ [(tz, xz)])) (Fin now) (Some 1) = Fin e \<and>
      p + v * now / 1000 - quantum - v * (now - tz) / 1000 \<le> e \<and> e \<le> p + v * now / 1000) \<and>
    (\<exists>e. vi_getPlayerTime (foldl (\<lambda>w (t, x). vi_on w (Fin t) (VTimeupdate (Fin x) None)) w (obs @ [(tz, xz)])) (Fin now) = Fin e \<and>
      p + v * now / 1000 - quantum - v * (now - tz) / 1000 \<le> e \<and> e \<le> p + v * now / 1000)"
  using youtube.readout_error [OF assms(4-6,1,3,2)] vimeo.readout_error [OF conjI [OF assms(7,8)] assms(9,10,1,3,2)]
  unfolding youtube.watch_def vimeo.watch_def by blast

theorem playhead_error_bound_witness:
  "\<exists>e. yt_getPlayerTime (foldl (\<lambda>y (t, x). yt_poll y (Fin t) (Some (Fin x))) (fst (yt_seekTo new_youtube 0 0)) ([(0, 0), (500, 1/4)] @ [(550, 1/4)])) (Fin 600) (Some 1) = Fin e \<and>
     1/4 \<le> e \<and> e \<le> 6/10"
proof -
  let ?y = "fst (yt_seekTo new_youtube 0 0)" and ?w = "new_vimeo\<lparr>vi_life := Playing\<rparr>"
  have "\<forall>(t, x)\<in>set ([(0, 0), (500, 1/4)] @ [(550, 1/4)]). 0 + 1 * t / 1000 - 3/10 \<le> x \<and> x \<le> 0 + 1 * t / (1000 :: real)" by auto
  from playhead_error_bound [OF _ _ this, of 600 ?y ?w] show ?thesis
    by (auto simp: yt_seekTo_def new_youtube_def new_vimeo_def)
qed

text \<open>The numeric state and the lifecycle tell the same story for all three players.\<close>

lemma raw_state_playing: "raw_state l = 1 \<longleftrightarrow> l = Playing"
  by (cases l) (simp_all add: raw_state_def)

lemma adapters_report_playing:
  "h5_getRawState el = 1 \<longleftrightarrow> h5_getLifecycle el = Playing"
  "yt_getRawState st = 1 \<longleftrightarrow> yt_getLifecycle st = Playing"
  "vi_getRawState w = 1 \<longleftrightarrow> vi_life w = Playing"
  by (simp_all add: h5_getRawState_def yt_getRawState_def vi_getRawState_def raw_state_playing yt_getLifecycle_def nullish_def split: option.split)

text \<open>Captions: every track that shows words is set, only the first of them showing, and no other track is touched.\<close>

lemma captions_first_only:
  "h5_setCaptionsEnabled el enabled =
     (case captionTracks el of [] \<Rightarrow> [] | t # ts \<Rightarrow> CmdTrack t enabled # map (\<lambda>u. CmdTrack u False) ts)"
proof (cases "captionTracks el")
  case (Cons t ts)
  have "map (\<lambda>(i, track). CmdTrack track (enabled \<and> i = 0)) (zip [Suc 0..<Suc (length ts)] ts) = map (\<lambda>u. CmdTrack u False) ts"
    by (rule nth_equalityI) (simp_all del: upt_Suc)
  then show ?thesis using Cons by (simp add: h5_setCaptionsEnabled_def upt_conv_Cons del: upt_Suc)
qed (simp add: h5_setCaptionsEnabled_def)

text \<open>The probes leave the player at the rate they found, or at 1 on the embedded players.\<close>

lemma probes_restore_rate:
  "last (snd (h5_probeFractionalRate accept el)) = CmdRate (el_playbackRate el)"
  "last (snd (yt_probeFractionalRate readings)) = CmdRate 1"
  "last (snd (vi_probeFractionalRate applied)) = CmdRate 1"
  by (simp_all add: h5_probeFractionalRate_def yt_probeFractionalRate_def vi_probeFractionalRate_def prod.case_eq_if)

end
