(* ===== verification/PlayerShell.thy ===== *)
theory PlayerShell
  imports PlayerAdapters
begin

text \<open>
  The player's shell (frontend components/EnhancedVideoPlayer.tsx) and its mounts
  (components/player/Html5Mount.tsx, components/player/fullscreen.ts): who may control, what the
  buttons, the bar and the keyboard send, the local volume and captions, which mount shows a source
  and how a failing stream ends. Every control leaves as an intent through the engine. React's renders
  matter in one place: the keyboard handler keeps the view of the render it was installed in, which
  is a field of the record. Properties: that page and server agree on who may control, what the controls can send, that the
  chosen volume is the one heard, and that a failing stream is reported.
\<close>

subsection \<open>State\<close>

text \<open>What a render of the component closes over: the engine's status and whether the user may control.\<close>

record shell_view =
  sv_status :: engine_status
  sv_canControl :: bool
  sv_isReady :: bool

record player_shell =
  sh_roomCode :: string
  sh_videoUrl :: string
  sh_isHost :: bool
  sh_allowGuestControl :: bool
  sh_userId :: "string option"
  sh_controllerId :: "string option"
  sh_status :: engine_status
  sh_isReady :: bool
  sh_failure :: "string option"
  sh_playerEpoch :: nat
  sh_syncEnabled :: bool
  sh_volume :: jsnum
  sh_muted :: bool
  sh_captionsOn :: bool
  sh_captionsAvailable :: bool
  sh_showHud :: bool
  sh_keyView :: shell_view

definition EMPTY_STATUS :: engine_status where
  "EMPTY_STATUS = \<lparr>es_timeline = None, es_roomPlaying = False, es_projectedS = 0, es_durationS = 0, es_driftMs = 0, es_offsetMs = 0,
     es_uncertaintyMs = PInf, es_rttMs = NaN, es_ctrlState = LOCKED, es_seq = - 1, es_fractionalRateOK = False,
     es_needsGesture = False, es_seeksIssued = 0, es_playerState = Unstarted\<rparr>"

definition SEEK_STEP_S :: jsnum where "SEEK_STEP_S = 5"
definition SKIP_STEP_S :: jsnum where "SKIP_STEP_S = 10"

definition canControl :: "player_shell \<Rightarrow> bool" where
  "canControl sh = (sh_isHost sh \<or> sh_allowGuestControl sh \<or> (sh_userId sh \<noteq> None \<and> sh_controllerId sh = sh_userId sh))"

definition view :: "player_shell \<Rightarrow> shell_view" where
  "view sh = \<lparr>sv_status = sh_status sh, sv_canControl = canControl sh, sv_isReady = sh_isReady sh\<rparr>"

text \<open>
  After a render the keyboard handler is installed anew only when one of its dependencies changed:
  whether the room plays, whether the user may control, whether a player is ready.
\<close>

definition rerender :: "player_shell \<Rightarrow> player_shell" where
  "rerender sh =
     (let k = sh_keyView sh in
      if es_roomPlaying (sv_status k) = es_roomPlaying (sh_status sh) \<and> sv_canControl k = canControl sh \<and> sv_isReady k = sh_isReady sh
      then sh else sh\<lparr>sh_keyView := view sh\<rparr>)"

text \<open>The stored volume: an absent, unreadable or impossible value is full volume.\<close>

definition initial_volume :: "string option \<Rightarrow> jsnum" where
  "initial_volume raw = (case raw of
     None \<Rightarrow> 1
   | Some s \<Rightarrow> (let stored = js_Number s in if isFinite stored \<and> 0 \<le> stored \<and> stored \<le> 1 then stored else 1))"

definition new_shell ::
  "string \<Rightarrow> string \<Rightarrow> bool \<Rightarrow> bool \<Rightarrow> string option \<Rightarrow> string option \<Rightarrow> string option \<Rightarrow> string option \<Rightarrow> bool \<Rightarrow> player_shell" where
  "new_shell code url host guest user volume muted captions hud =
     (let sh = \<lparr>sh_roomCode = code, sh_videoUrl = url, sh_isHost = host, sh_allowGuestControl = guest, sh_userId = user,
        sh_controllerId = None, sh_status = EMPTY_STATUS, sh_isReady = False, sh_failure = None, sh_playerEpoch = 0,
        sh_syncEnabled = True, sh_volume = initial_volume volume, sh_muted = (muted = Some ''1''), sh_captionsOn = (captions = Some ''1''),
        sh_captionsAvailable = False, sh_showHud = hud,
        sh_keyView = \<lparr>sv_status = EMPTY_STATUS, sv_canControl = False, sv_isReady = False\<rparr>\<rparr>
      in sh\<lparr>sh_keyView := view sh\<rparr>)"

subsection \<open>What arrives\<close>

definition on_status :: "player_shell \<Rightarrow> engine_status \<Rightarrow> player_shell" where
  "on_status sh st = rerender (sh\<lparr>sh_status := st\<rparr>)"

definition on_adapter :: "player_shell \<Rightarrow> bool \<Rightarrow> player_shell" where
  "on_adapter sh there = rerender (sh\<lparr>sh_isReady := there\<rparr>)"

text \<open>Who drives: a promotion in another room is not believed.\<close>

definition on_controller :: "player_shell \<Rightarrow> string \<Rightarrow> string option \<Rightarrow> player_shell" where
  "on_controller sh controllerId roomCode =
     (if truthy roomCode \<and> roomCode \<noteq> Some (sh_roomCode sh) then sh else rerender (sh\<lparr>sh_controllerId := Some controllerId\<rparr>))"

definition controller_toast :: "player_shell \<Rightarrow> string \<Rightarrow> string \<Rightarrow> string option \<Rightarrow> string option" where
  "controller_toast sh controllerId reason roomCode =
     (if truthy roomCode \<and> roomCode \<noteq> Some (sh_roomCode sh) then None
      else if Some controllerId \<noteq> sh_userId sh then None
      else if reason = ''succession'' then Some ''The host left - you have the remote now''
      else if reason = ''reclaim'' then Some ''You have the remote back''
      else None)"

definition rejected_toast :: "string \<Rightarrow> string option" where
  "rejected_toast reason =
     (if reason = ''not-controller'' then Some ''Only the host can control video playback''
      else if reason = ''invalid-video-url'' then Some ''That video URL was refused by the server''
      else None)"

definition change_room :: "player_shell \<Rightarrow> string \<Rightarrow> player_shell" where
  "change_room sh code = rerender (sh\<lparr>sh_roomCode := code, sh_controllerId := None\<rparr>)"

definition activeVideoUrl :: "player_shell \<Rightarrow> string" where
  "activeVideoUrl sh = (case es_timeline (sh_status sh) of Some tml \<Rightarrow> nullish (videoId tml) [] | None \<Rightarrow> sh_videoUrl sh)"

definition retry :: "player_shell \<Rightarrow> player_shell" where
  "retry sh = sh\<lparr>sh_failure := None, sh_playerEpoch := sh_playerEpoch sh + 1\<rparr>"

subsection \<open>What is shown\<close>

datatype stage =
    YouTubeStage string nat
  | Html5Stage string bool nat
  | VimeoStage string "string option" nat
  | FailedCard string
  | EmptyCard
  | UnplayableCard

definition stage_of :: "player_shell \<Rightarrow> media_source \<Rightarrow> stage" where
  "stage_of sh source = (case sh_failure sh of
     Some reason \<Rightarrow> FailedCard reason
   | None \<Rightarrow> (case source of
         YouTube v \<Rightarrow> YouTubeStage v (sh_playerEpoch sh)
       | Hls u \<Rightarrow> Html5Stage u True (sh_playerEpoch sh)
       | MediaFile u c \<Rightarrow> Html5Stage u False (sh_playerEpoch sh)
       | Vimeo v h \<Rightarrow> VimeoStage v h (sh_playerEpoch sh)
       | NoSource r \<Rightarrow> (if r = EmptySource then EmptyCard else UnplayableCard)))"

definition shownTime :: "engine_status \<Rightarrow> jsnum" where
  "shownTime st = (if es_roomPlaying st then es_projectedS st else (case es_timeline st of None \<Rightarrow> 0 | Some tml \<Rightarrow> mediaTime tml))"

definition progressPct :: "engine_status \<Rightarrow> jsnum" where
  "progressPct st = (if 0 < es_durationS st then math_min 100 (math_max 0 ((shownTime st / es_durationS st) * 100)) else 0)"

definition pad2 :: "string \<Rightarrow> string" where
  "pad2 s = replicate (2 - length s) CHR ''0'' @ s"

text \<open>The remainder of a finite number, as the operator % has it.\<close>

definition js_rem60 :: "jsnum \<Rightarrow> jsnum" where
  "js_rem60 x = (case x of Fin a \<Rightarrow> Fin (if 0 \<le> a then a - 60 * of_int \<lfloor>a / 60\<rfloor> else - (- a - 60 * of_int \<lfloor>- a / 60\<rfloor>)) | _ \<Rightarrow> NaN)"

definition formatTime :: "jsnum \<Rightarrow> string" where
  "formatTime seconds = js_String (math_floor (seconds / 60)) @ '':'' @ pad2 (js_String (math_floor (js_rem60 seconds)))"

subsection \<open>What the user does\<close>

datatype gesture = SendsNothing | SaysHostOnly | Sends string jsnum

text \<open>
  The handlers of one render. \<open>adapter\<close> is the playhead of the player at that moment, nothing when there is
  no player; the engine is there with the socket.
\<close>

definition handlePlayPause :: "shell_view \<Rightarrow> bool \<Rightarrow> jsnum option \<Rightarrow> gesture" where
  "handlePlayPause v engine adapter =
     (if \<not> sv_canControl v then SaysHostOnly
      else (case adapter of
          None \<Rightarrow> SendsNothing
        | Some playhead \<Rightarrow>
            if \<not> engine then SendsNothing
            else if es_roomPlaying (sv_status v) then Sends ''pause'' playhead
            else Sends ''play'' (if es_timeline (sv_status v) = None then playhead else es_projectedS (sv_status v))))"

definition no_duration :: "engine_status \<Rightarrow> bool" where
  "no_duration st = (js_eq (es_durationS st) 0 \<or> es_durationS st = NaN)"

definition send_seek :: "shell_view \<Rightarrow> bool \<Rightarrow> jsnum \<Rightarrow> gesture" where
  "send_seek v engine target =
     (if \<not> sv_canControl v then SaysHostOnly
      else if \<not> engine \<or> no_duration (sv_status v) then SendsNothing
      else Sends ''seek'' target)"

definition handleProgressClick :: "shell_view \<Rightarrow> bool \<Rightarrow> jsnum \<Rightarrow> jsnum \<Rightarrow> jsnum \<Rightarrow> gesture" where
  "handleProgressClick v engine clientX left width =
     send_seek v engine (((clientX - left) / width) * es_durationS (sv_status v))"

definition seekBy :: "shell_view \<Rightarrow> bool \<Rightarrow> jsnum \<Rightarrow> gesture" where
  "seekBy v engine deltaS =
     send_seek v engine (math_max 0 (math_min (es_durationS (sv_status v)) (shownTime (sv_status v) + deltaS)))"

definition progress_key_target :: "engine_status \<Rightarrow> string \<Rightarrow> jsnum option" where
  "progress_key_target st key =
     (if key = ''ArrowLeft'' then Some (shownTime st - SEEK_STEP_S)
      else if key = ''ArrowRight'' then Some (shownTime st + SEEK_STEP_S)
      else if key = ''Home'' then Some 0
      else if key = ''End'' then Some (es_durationS st)
      else None)"

definition handleProgressKeyDown :: "shell_view \<Rightarrow> bool \<Rightarrow> string \<Rightarrow> gesture" where
  "handleProgressKeyDown v engine key = (case progress_key_target (sv_status v) key of
     None \<Rightarrow> SendsNothing
   | Some target \<Rightarrow> send_seek v engine (math_max 0 (math_min (es_durationS (sv_status v)) target)))"

record key_press =
  kp_key :: string
  kp_typing :: bool
  kp_modified :: bool

definition isTypingTarget :: "string option \<Rightarrow> bool \<Rightarrow> bool" where
  "isTypingTarget tagName contentEditable = (case tagName of
     None \<Rightarrow> False
   | Some t \<Rightarrow> t \<noteq> [] \<and> (toLowerCase t \<in> {''input'', ''textarea'', ''select''} \<or> contentEditable))"

text \<open>The keyboard handler: it acts through the view it was installed with.\<close>

definition onKey :: "player_shell \<Rightarrow> bool \<Rightarrow> jsnum option \<Rightarrow> bool \<Rightarrow> key_press \<Rightarrow> player_shell \<times> gesture" where
  "onKey sh engine adapter hasCaptions press =
     (let k = kp_key press; v = sh_keyView sh in
      if kp_typing press \<or> kp_modified press then (sh, SendsNothing)
      else if k = ''`'' then (sh\<lparr>sh_showHud := \<not> sh_showHud sh\<rparr>, SendsNothing)
      else if k = '' '' \<or> k = ''k'' then (sh, handlePlayPause v engine adapter)
      else if k = ''j'' then (sh, seekBy v engine (- SKIP_STEP_S))
      else if k = ''l'' then (sh, seekBy v engine SKIP_STEP_S)
      else if k = ''m'' then (sh\<lparr>sh_muted := \<not> sh_muted sh\<rparr>, SendsNothing)
      else if k = ''c'' \<and> hasCaptions then (sh\<lparr>sh_captionsOn := \<not> sh_captionsOn sh\<rparr>, SendsNothing)
      else (sh, SendsNothing))"

definition toggleFullscreen :: "bool \<Rightarrow> bool \<Rightarrow> bool \<Rightarrow> bool \<Rightarrow> bool" where
  "toggleFullscreen element isFullscreen canRequest refuses =
     (if \<not> element then False
      else if isFullscreen then False
      else if \<not> canRequest then False
      else \<not> refuses)"

definition handleSyncToggle :: "player_shell \<Rightarrow> player_shell \<times> bool" where
  "handleSyncToggle sh = (sh\<lparr>sh_syncEnabled := \<not> sh_syncEnabled sh\<rparr>, \<not> sh_syncEnabled sh)"

definition on_volume_slider :: "player_shell \<Rightarrow> jsnum \<Rightarrow> player_shell" where
  "on_volume_slider sh nxt = sh\<lparr>sh_volume := nxt, sh_muted := (if 0 < nxt then False else sh_muted sh)\<rparr>"

text \<open>The effect that applies the level: the mute first, the level last.\<close>

datatype adapter_kind = Html5Kind | YouTubeKind | VimeoKind

definition set_muted :: "adapter_kind \<Rightarrow> bool \<Rightarrow> player_command list" where
  "set_muted kind muted = (case kind of Html5Kind \<Rightarrow> h5_setMuted muted | YouTubeKind \<Rightarrow> yt_setMuted muted | VimeoKind \<Rightarrow> vi_setMuted True muted)"

definition set_volume :: "adapter_kind \<Rightarrow> jsnum \<Rightarrow> player_command list" where
  "set_volume kind x = (case kind of Html5Kind \<Rightarrow> h5_setVolume x | YouTubeKind \<Rightarrow> yt_setVolume x | VimeoKind \<Rightarrow> vi_setVolume True x)"

definition apply_audio :: "player_shell \<Rightarrow> adapter_kind \<Rightarrow> player_command list" where
  "apply_audio sh kind = set_muted kind (sh_muted sh) @ set_volume kind (if sh_muted sh then 0 else sh_volume sh)"

text \<open>Asking for captions: again every 700 ms until the answer is yes or six were no; \<open>answer n\<close> is the answer to question \<open>n\<close>.\<close>

partial_function (option) captions_poll :: "(nat \<Rightarrow> bool) \<Rightarrow> nat \<Rightarrow> (nat \<times> bool) option" where
  "captions_poll answer attempts =
     (if answer attempts then Some (attempts + 1, True)
      else if 6 \<le> attempts + 1 then Some (attempts + 1, False)
      else captions_poll answer (attempts + 1))"

subsection \<open>The stream behind a media element\<close>

definition MEDIA_ERRORS :: "nat \<Rightarrow> string option" where
  "MEDIA_ERRORS code = map_of
     [(1, ''Loading was aborted.''), (2, ''A network error interrupted the download.''),
      (3, ''The video downloaded but could not be decoded.''),
      (4, ''The URL could not be loaded - not a playable video, or unreachable.'')] code"

definition media_failure :: "nat option \<Rightarrow> string" where
  "media_failure code = (case code of
     None \<Rightarrow> ''The video element reported an unknown error.''
   | Some c \<Rightarrow> nullish (MEDIA_ERRORS c) ''The video element reported an unknown error.'')"

datatype hls_type = NetworkError | MediaError | OtherHlsError

record hls_error =
  he_fatal :: bool
  he_type :: hls_type
  he_details :: string

record hls_mount =
  hm_retriedNetwork :: bool
  hm_retriedMedia :: bool
  hm_cancelled :: bool
  hm_instance :: bool

datatype hls_action = StartLoad | RecoverMedia | DestroyAndFail string

definition new_hls :: hls_mount where
  "new_hls = \<lparr>hm_retriedNetwork = False, hm_retriedMedia = False, hm_cancelled = False, hm_instance = True\<rparr>"

definition on_hls_error :: "hls_mount \<Rightarrow> hls_error \<Rightarrow> hls_mount \<times> hls_action list" where
  "on_hls_error h d =
     (if \<not> he_fatal d \<or> hm_cancelled h then (h, [])
      else if he_type d = NetworkError \<and> \<not> hm_retriedNetwork h then (h\<lparr>hm_retriedNetwork := True\<rparr>, [StartLoad])
      else if he_type d = MediaError \<and> \<not> hm_retriedMedia h then (h\<lparr>hm_retriedMedia := True\<rparr>, [RecoverMedia])
      else (h\<lparr>hm_instance := False\<rparr>, [DestroyAndFail (''HLS playback failed ('' @ he_details d @ '').'')]))"

text \<open>A destroyed instance emits no more errors.\<close>

fun hls_run :: "hls_mount \<Rightarrow> hls_error list \<Rightarrow> hls_mount \<times> hls_action list" where
  "hls_run h [] = (h, [])"
| "hls_run h (d # ds) =
     (if \<not> hm_instance h then (h, [])
      else (let (h1, a) = on_hls_error h d; (h2, b) = hls_run h1 ds in (h2, a @ b)))"

subsection \<open>Who may control\<close>

text \<open>
  A page and the server of its room over time: somebody leaves and the remote may pass to a candidate, somebody joins and
  may reclaim it, and what either changes is announced to the room; anybody sends a control; a controller of another
  room is announced on the same socket; the player comes and goes and reports its status.
\<close>

datatype remote_event =
    Departs string "string option"
  | Arrives string
  | Controls string string intent jsnum jsnum apply_opts
  | ElsewhereController string string
  | StatusArrives engine_status
  | PlayerThere bool

definition announced :: "string \<Rightarrow> player_shell \<Rightarrow> string option \<Rightarrow> player_shell" where
  "announced code sh change = (case change of None \<Rightarrow> sh | Some c \<Rightarrow> on_controller sh c (Some code))"

definition remote_step :: "'s store_ops \<Rightarrow> string \<Rightarrow> 's timeline_service \<times> player_shell \<Rightarrow> remote_event \<Rightarrow> 's timeline_service \<times> player_shell" where
  "remote_step ops code w ev = (case (w, ev) of
     ((sv, sh), Departs who cand) \<Rightarrow> (let (sv', change) = succession sv code who cand in (sv', announced code sh change))
   | ((sv, sh), Arrives who) \<Rightarrow> (let (sv', change) = reclaim sv code who in (sv', announced code sh change))
   | ((sv, sh), Controls sock who it mt now opts) \<Rightarrow> (fst (handleControl ops sv code sock who it mt now opts), sh)
   | ((sv, sh), ElsewhereController c code2) \<Rightarrow> (sv, if code2 = [] \<or> code2 = code then sh else on_controller sh c (Some code2))
   | ((sv, sh), StatusArrives st) \<Rightarrow> (sv, on_status sh st)
   | ((sv, sh), PlayerThere b) \<Rightarrow> (sv, on_adapter sh b))"

text \<open>
  The page knows what matters of the room: whether its user is the creator, whether guests may control, and, when neither
  gives the right, whether its user is the one the remote passed to. The handler of the keyboard knows it too.
\<close>

definition knows :: "string \<Rightarrow> string \<Rightarrow> 's timeline_service \<times> player_shell \<Rightarrow> bool" where
  "knows code u w = (case w of (sv, sh) \<Rightarrow> (\<exists>m. ts_meta sv code = Some m \<and> sh_roomCode sh = code \<and> sh_userId sh = Some u \<and>
     sh_isHost sh = (u = m_creatorId m) \<and> sh_allowGuestControl sh = m_allowGuestControl m \<and>
     (u = m_creatorId m \<or> m_allowGuestControl m \<or> (sh_controllerId sh = Some u \<longleftrightarrow> m_activeController m = Some u))) \<and>
     sv_canControl (sh_keyView sh) = canControl sh)"

lemma knows_permission: "knows code u (sv, sh) \<Longrightarrow> \<exists>m. ts_meta sv code = Some m \<and> canControl sh = allowedToControl m u"
  by (auto simp: knows_def canControl_def allowedToControl_def)

lemma rerender_fields:
  "sh_roomCode (rerender sh) = sh_roomCode sh" "sh_userId (rerender sh) = sh_userId sh" "sh_isHost (rerender sh) = sh_isHost sh"
  "sh_allowGuestControl (rerender sh) = sh_allowGuestControl sh" "sh_controllerId (rerender sh) = sh_controllerId sh"
  "sh_status (rerender sh) = sh_status sh" "canControl (rerender sh) = canControl sh"
  "sv_canControl (sh_keyView (rerender sh)) = canControl sh"
  by (auto simp: rerender_def Let_def canControl_def view_def)

lemma handleControl_denied:
  assumes "ts_meta sv code = Some m"
  shows "snd (handleControl ops sv code sock u it mt now opts) = ControlDenied NotController \<longleftrightarrow> \<not> allowedToControl m u"
  using assms by (auto simp: handleControl_def takeToken_def prod.case_eq_if Let_def split: outcome.splits)

lemma handleControl_meta: "ts_meta (fst (handleControl ops sv code sock u it mt now opts)) = ts_meta sv"
  by (auto simp: handleControl_def takeToken_def schedulePersist_def prod.case_eq_if Let_def split: outcome.splits option.splits)

lemma knows_announced:
  assumes "knows code u (sv, sh)" "ts_meta sv code = Some m" "ts_meta sv' code = Some (m\<lparr>m_activeController := a\<rparr>)"
    and "u \<noteq> m_creatorId m \<Longrightarrow> c = u \<longleftrightarrow> a = Some u"
  shows "knows code u (sv', announced code sh (Some c))"
  using assms by (auto simp: knows_def announced_def on_controller_def rerender_fields)

lemma remote_step_knows:
  assumes "knows code u w"
  shows "knows code u (remote_step ops code w ev)"
proof -
  obtain sv sh where w: "w = (sv, sh)" by fastforce
  obtain m where m: "ts_meta sv code = Some m" using assms by (auto simp: w knows_def)
  show ?thesis
  proof (cases ev)
    case (Departs who cand)
    obtain sv' change where s: "succession sv code who cand = (sv', change)" by fastforce
    show ?thesis
    proof (cases change)
      case None
      then have "sv' = sv" using s m by (auto simp: succession_def split: if_splits)
      then show ?thesis using assms None s by (simp add: remote_step_def w Departs announced_def)
    next
      case (Some c)
      then have "ts_meta sv' code = Some (m\<lparr>m_activeController := Some c\<rparr>)" using s m by (auto simp: succession_def split: if_splits)
      from knows_announced [OF assms [unfolded w] m this, of c] show ?thesis using s Some by (simp add: remote_step_def w Departs)
    qed
  next
    case (Arrives who)
    obtain sv' change where s: "reclaim sv code who = (sv', change)" by fastforce
    show ?thesis
    proof (cases change)
      case None
      then have "sv' = sv" using s m by (auto simp: reclaim_def split: if_splits)
      then show ?thesis using assms None s by (simp add: remote_step_def w Arrives announced_def)
    next
      case (Some c)
      then have "ts_meta sv' code = Some (m\<lparr>m_activeController := None\<rparr>)" "c = m_creatorId m" using s m by (auto simp: reclaim_def split: if_splits)
      then show ?thesis using knows_announced [OF assms [unfolded w] m, of sv' None c] s Some by (simp add: remote_step_def w Arrives)
    qed
  next
    case (Controls sock who it mt now opts)
    then show ?thesis using assms by (simp add: remote_step_def w knows_def handleControl_meta)
  next
    case (ElsewhereController c code2)
    then show ?thesis using assms by (auto simp: remote_step_def w knows_def on_controller_def)
  next
    case (StatusArrives st)
    then show ?thesis using assms by (auto simp: remote_step_def w knows_def on_status_def rerender_fields canControl_def)
  next
    case (PlayerThere b)
    then show ?thesis using assms by (auto simp: remote_step_def w knows_def on_adapter_def rerender_fields canControl_def)
  qed
qed

lemma remote_run_knows: "knows code u w \<Longrightarrow> knows code u (foldl (remote_step ops code) w evs)"
  by (induction evs arbitrary: w) (simp_all add: remote_step_knows)

lemma new_shell_knows:
  assumes "ts_meta sv code = Some m" "u = m_creatorId m \<or> m_allowGuestControl m \<or> m_activeController m \<noteq> Some u"
  shows "knows code u (sv, new_shell code url (u = m_creatorId m) (m_allowGuestControl m) (Some u) volume muted captions hud)"
  using assms by (auto simp: knows_def new_shell_def Let_def view_def canControl_def)

text \<open>
  C28. Page and server agree on who may control. A page is mounted for a user to whom the remote of the room has not
  passed, with what the server knows of the room: its creator and the right of guests. However then people leave and
  join, so that the remote passes from one to another and is reclaimed, whoever sends controls, whatever is announced of
  other rooms and whatever the player reports: the play button, the skips, a click on the bar, the keys of the bar and the
  keys of the page each answer that only the host may do that exactly when the server, asked by this user for any control,
  answers that he is not the controller. The other refusals of the server (too many controls, a room that is gone) are not the page's.
\<close>

theorem page_refuses_as_server:
  assumes "ts_meta sv0 code = Some m" "u = m_creatorId m \<or> m_allowGuestControl m \<or> m_activeController m \<noteq> Some u"
    and "foldl (remote_step ops code) (sv0, new_shell code url (u = m_creatorId m) (m_allowGuestControl m) (Some u) volume muted captions hud) evs = (sv, sh)"
  shows "let denied = (snd (handleControl ops sv code sock u it mt now opts) = ControlDenied NotController) in
    (handlePlayPause (view sh) engine adapter = SaysHostOnly \<longleftrightarrow> denied) \<and>
    (seekBy (view sh) engine deltaS = SaysHostOnly \<longleftrightarrow> denied) \<and>
    (handleProgressClick (view sh) engine clientX left width = SaysHostOnly \<longleftrightarrow> denied) \<and>
    (handleProgressKeyDown (view sh) engine key = SaysHostOnly \<longleftrightarrow> key \<in> {''ArrowLeft'', ''ArrowRight'', ''Home'', ''End''} \<and> denied) \<and>
    (snd (onKey sh engine adapter hasCaptions press) = SaysHostOnly \<longleftrightarrow>
      \<not> kp_typing press \<and> \<not> kp_modified press \<and> kp_key press \<in> {'' '', ''k'', ''j'', ''l''} \<and> denied)"
proof -
  have k: "knows code u (sv, sh)" using remote_run_knows [OF new_shell_knows [OF assms(1,2)]] assms(3) by metis
  from knows_permission [OF this] obtain m' where m': "ts_meta sv code = Some m'" "canControl sh = allowedToControl m' u" by blast
  then have d: "(snd (handleControl ops sv code sock u it mt now opts) = ControlDenied NotController) = (\<not> canControl sh)"
    using handleControl_denied by metis
  have kv: "sv_canControl (sh_keyView sh) = canControl sh" using k by (simp add: knows_def)
  have seek: "send_seek v engine x = SaysHostOnly \<longleftrightarrow> \<not> sv_canControl v" for v x by (simp add: send_seek_def)
  have play: "handlePlayPause v engine adapter = SaysHostOnly \<longleftrightarrow> \<not> sv_canControl v" for v by (simp add: handlePlayPause_def split: option.split)
  have vw: "sv_canControl (view sh) = canControl sh" by (simp add: view_def)
  have bar: "progress_key_target st key \<noteq> None \<longleftrightarrow> key \<in> {''ArrowLeft'', ''ArrowRight'', ''Home'', ''End''}" for st
    by (simp add: progress_key_target_def)
  have keys: "handleProgressKeyDown (view sh) engine key = SaysHostOnly \<longleftrightarrow>
      progress_key_target (sv_status (view sh)) key \<noteq> None \<and> \<not> canControl sh"
    by (simp add: handleProgressKeyDown_def seek vw split: option.split)
  have board: "snd (onKey sh engine adapter hasCaptions press) = SaysHostOnly \<longleftrightarrow>
      \<not> kp_typing press \<and> \<not> kp_modified press \<and> kp_key press \<in> {'' '', ''k'', ''j'', ''l''} \<and> \<not> canControl sh"
    by (simp add: onKey_def Let_def seekBy_def seek play kv)
  show ?thesis unfolding d keys bar board Let_def by (simp add: play seekBy_def handleProgressClick_def seek vw)
qed

definition demo_shell :: player_shell where
  "demo_shell = on_controller (new_shell ''r'' ''u'' False False (Some ''bob'') None None None False) ''cat'' (Some ''r'')"

definition demo_meta :: room_meta where
  "demo_meta = \<lparr>m_creatorId = ''ann'', m_allowGuestControl = False, m_videoId = None, m_activeController = None\<rparr>"

text \<open>The remote passes to bob and the creator takes it back: bob is refused again, on both sides.\<close>

theorem page_refuses_as_server_witness:
  "\<exists>sv sh. foldl (remote_step (redis_ops (take_last LOG_MAX)) ''r'') ((new_service (redis_empty 7))\<lparr>ts_meta := [''r'' \<mapsto> demo_meta]\<rparr>,
      new_shell ''r'' ''u'' (''bob'' = m_creatorId demo_meta) (m_allowGuestControl demo_meta) (Some ''bob'') None None None False)
      [Departs ''ann'' (Some ''bob''), Arrives ''ann''] = (sv, sh) \<and>
    snd (handleControl (redis_ops (take_last LOG_MAX)) sv ''r'' ''s'' ''bob'' Play 0 9 no_opts) = ControlDenied NotController \<and>
    handleProgressClick (view sh) True 0 0 1 = SaysHostOnly"
proof -
  let ?sv = "(new_service (redis_empty 7))\<lparr>ts_meta := [''r'' \<mapsto> demo_meta]\<rparr>"
  let ?sh = "new_shell ''r'' ''u'' (''bob'' = m_creatorId demo_meta) (m_allowGuestControl demo_meta) (Some ''bob'') None None None False"
  obtain sv sh where r: "foldl (remote_step (redis_ops (take_last LOG_MAX)) ''r'') (?sv, ?sh) [Departs ''ann'' (Some ''bob''), Arrives ''ann''] = (sv, sh)"
    by fastforce
  have m: "ts_meta ?sv ''r'' = Some demo_meta" "''bob'' = m_creatorId demo_meta \<or> m_allowGuestControl demo_meta \<or> m_activeController demo_meta \<noteq> Some ''bob''"
    by (simp_all add: demo_meta_def)
  have "ts_meta sv ''r'' = Some demo_meta"
    using r by (auto simp: remote_step_def succession_def reclaim_def demo_meta_def Let_def)
  then have d: "snd (handleControl (redis_ops (take_last LOG_MAX)) sv ''r'' ''s'' ''bob'' Play 0 9 no_opts) = ControlDenied NotController"
    using handleControl_denied [of sv "''r''" demo_meta] by (simp add: allowedToControl_def demo_meta_def)
  then have "handleProgressClick (view sh) True 0 0 1 = SaysHostOnly"
    using page_refuses_as_server [OF m r, where sock = "''s''" and it = Play and mt = 0 and now = 9 and opts = no_opts] unfolding Let_def by blast
  then show ?thesis using r d by blast
qed

subsection \<open>What is sent\<close>

lemma clamp_seek:
  assumes "0 \<le> d"
  shows "\<exists>y. math_max 0 (math_min (Fin d) (Fin s)) = Fin y \<and> 0 \<le> y \<and> y \<le> d"
  using assms by (simp add: zero_jsnum_def)

lemma send_seek_Sends: "send_seek v engine target = Sends it x \<Longrightarrow> it = ''seek'' \<and> x = target \<and> sv_canControl v \<and> engine"
  by (simp add: send_seek_def split: if_splits)

definition within_media :: "gesture \<Rightarrow> real \<Rightarrow> bool" where
  "within_media g d = (case g of Sends it x \<Rightarrow> it = ''seek'' \<and> (\<exists>y. x = Fin y \<and> 0 \<le> y \<and> y \<le> d) | _ \<Rightarrow> True)"

lemma within_media_send:
  assumes "\<exists>y. target = Fin y \<and> 0 \<le> y \<and> y \<le> d"
  shows "within_media (send_seek v engine target) d"
  using assms by (simp add: within_media_def send_seek_def)

text \<open>
  Everything the shell sends is sent for somebody who may control and while there is an engine to send it
  through; a skip and a key of the bar ask for a position of the video, and so does a click on the bar.
\<close>

theorem shell_sends_within_media:
  assumes "es_durationS (sv_status v) = Fin d" "0 \<le> d" "shownTime (sv_status v) = Fin s"
    and "left \<le> x" "x \<le> left + width" "0 < width"
  shows "within_media (seekBy v engine (Fin delta)) d \<and> within_media (handleProgressKeyDown v engine key) d \<and>
    within_media (handleProgressClick v engine (Fin x) (Fin left) (Fin width)) d \<and>
    (\<forall>g it y. g \<in> {handlePlayPause v engine adapter, seekBy v engine (Fin delta), handleProgressKeyDown v engine key,
       handleProgressClick v engine (Fin x) (Fin left) (Fin width)} \<longrightarrow> g = Sends it y \<longrightarrow> sv_canControl v \<and> engine)"
proof (intro conjI)
  show "within_media (seekBy v engine (Fin delta)) d"
    unfolding seekBy_def using assms(1-3) by (intro within_media_send) (simp add: zero_jsnum_def)
  have key: "within_media (send_seek v engine (math_max 0 (math_min (es_durationS (sv_status v)) (Fin t)))) d" for t
    using assms(1,2) by (intro within_media_send) (simp add: zero_jsnum_def)
  show "within_media (handleProgressKeyDown v engine key) d"
    using assms(1,3) key key [of 0]
    by (auto simp: handleProgressKeyDown_def progress_key_target_def SEEK_STEP_S_def within_media_def [of SendsNothing]
        simp del: math_max_Fin math_min_Fin split: option.splits if_splits)
  have f: "0 \<le> (x - left) / width" "(x - left) / width \<le> 1" using assms(4-6) by simp_all
  have "0 \<le> (x - left) / width * d" "(x - left) / width * d \<le> d"
    using mult_nonneg_nonneg [OF f(1) assms(2)] mult_right_mono [OF f(2) assms(2)] by simp_all
  then show "within_media (handleProgressClick v engine (Fin x) (Fin left) (Fin width)) d"
    unfolding handleProgressClick_def using assms(1,6) by (intro within_media_send) simp
  show "\<forall>g it y. g \<in> {handlePlayPause v engine adapter, seekBy v engine (Fin delta), handleProgressKeyDown v engine key,
       handleProgressClick v engine (Fin x) (Fin left) (Fin width)} \<longrightarrow> g = Sends it y \<longrightarrow> sv_canControl v \<and> engine"
    by (auto simp: seekBy_def handleProgressKeyDown_def handleProgressClick_def handlePlayPause_def
        dest!: send_seek_Sends split: option.splits if_splits)
qed

theorem shell_sends_within_media_witness:
  "within_media (handleProgressClick (view demo_shell) True (Fin 50) (Fin 0) (Fin 100)) 0"
proof -
  have "es_durationS (sv_status (view demo_shell)) = Fin 0" "shownTime (sv_status (view demo_shell)) = Fin 0"
    by (simp_all add: view_def demo_shell_def on_controller_def rerender_def new_shell_def EMPTY_STATUS_def shownTime_def Let_def)
  from shell_sends_within_media [OF this(1) _ this(2), of 0 50 100] show ?thesis by simp
qed

text \<open>
  The keyboard acts through the view it was installed with: while the room keeps playing the position in
  that view stays what it was when playback started. Ten minutes into a film, the key that skips ten seconds
  ahead sends everybody back to the tenth second.
\<close>

lemma key_view_kept:
  assumes "es_roomPlaying st = es_roomPlaying (sv_status (sh_keyView sh))" "sv_canControl (sh_keyView sh) = canControl sh"
    "sv_isReady (sh_keyView sh) = sh_isReady sh"
  shows "sh_keyView (on_status sh st) = sh_keyView sh"
  using assms by (simp add: on_status_def rerender_def Let_def canControl_def)

definition playing_at :: "real \<Rightarrow> engine_status" where
  "playing_at s = EMPTY_STATUS\<lparr>es_roomPlaying := True, es_projectedS := Fin s, es_durationS := 3600\<rparr>"

lemma keyboard_skip_is_stale:
  assumes "sh = foldl on_status (on_adapter (new_shell code url True False u None None None False) True) [playing_at 0, playing_at 600]"
  shows "snd (onKey sh True (Some 600) False \<lparr>kp_key = ''l'', kp_typing = False, kp_modified = False\<rparr>) = Sends ''seek'' 10 \<and>
    seekBy (view sh) True SKIP_STEP_S = Sends ''seek'' 610"
  by (simp add: assms onKey_def seekBy_def send_seek_def on_status_def on_adapter_def rerender_def new_shell_def view_def canControl_def
      playing_at_def EMPTY_STATUS_def shownTime_def no_duration_def SKIP_STEP_S_def js_simps)

subsection \<open>The level heard\<close>

text \<open>The volume and the mute of a player, as the commands set them, and the level that results.\<close>

definition audio_after :: "jsnum \<times> bool \<Rightarrow> player_command list \<Rightarrow> jsnum \<times> bool" where
  "audio_after a cmds = foldl (\<lambda>(x, m) c. case c of CmdVolume y \<Rightarrow> (y, m) | CmdMuted b \<Rightarrow> (x, b) | _ \<Rightarrow> (x, m)) a cmds"

definition heard :: "adapter_kind \<Rightarrow> jsnum \<times> bool \<Rightarrow> jsnum" where
  "heard kind a = (case kind of
     Html5Kind \<Rightarrow> if snd a then 0 else fst a
   | YouTubeKind \<Rightarrow> if snd a then 0 else fst a / 100
   | VimeoKind \<Rightarrow> fst a)"

lemma round_near: "\<exists>r. math_round (Fin x) = Fin r \<and> \<bar>r - x\<bar> \<le> 1/2"
proof -
  have "\<bar>real_of_int \<lfloor>x + 1/2\<rfloor> - x\<bar> \<le> 1/2" by linarith
  then show ?thesis by (simp add: math_round_def)
qed

lemma initial_volume_range: "\<exists>x. initial_volume raw = Fin x \<and> 0 \<le> x \<and> x \<le> 1"
proof (cases raw)
  case (Some s)
  then show ?thesis by (cases "js_Number s") (auto simp: initial_volume_def Let_def isFinite_def)
qed (simp add: initial_volume_def)

text \<open>
  The level that is heard is the level that was chosen, on all three players and whatever they were set
  to before: silence when muted, otherwise the slider's level, exactly or, on the player that counts in
  hundredths, to half a hundredth; and the level restored from storage is always a level.
\<close>

theorem chosen_level_is_heard:
  assumes "sh_volume sh = Fin x" "0 \<le> x" "x \<le> 1"
  shows "(\<exists>l. heard kind (audio_after a (apply_audio sh kind)) = Fin l \<and>
      (if sh_muted sh then l = 0 else if kind = YouTubeKind then \<bar>l - x\<bar> \<le> 1/200 else l = x)) \<and>
    (\<exists>y. initial_volume raw = Fin y \<and> 0 \<le> y \<and> y \<le> 1)"
proof -
  obtain r where r: "math_round (Fin (x * 100)) = Fin r" "\<bar>r - x * 100\<bar> \<le> 1/2" using round_near by blast
  then have near: "\<bar>r / 100 - x\<bar> \<le> 1/200" by (simp add: abs_le_iff field_simps)
  have zero: "math_round (Fin 0) = Fin 0" by (simp add: math_round_def)
  have yt: "\<exists>l. r = l * 100 \<and> \<bar>l - x\<bar> * 200 \<le> 1" using near by (intro exI [of _ "r / 100"]) simp
  have "\<exists>l. heard kind (audio_after a (apply_audio sh kind)) = Fin l \<and>
      (if sh_muted sh then l = 0 else if kind = YouTubeKind then \<bar>l - x\<bar> \<le> 1/200 else l = x)"
    using assms r(1) zero yt
    by (cases kind; cases a; cases "sh_muted sh")
      (auto simp: apply_audio_def set_muted_def set_volume_def h5_setMuted_def h5_setVolume_def yt_setMuted_def yt_setVolume_def
        vi_setMuted_def vi_setVolume_def audio_after_def heard_def clamp01_id clamp01_id [of 0, simplified])
  then show ?thesis using initial_volume_range by blast
qed

theorem chosen_level_is_heard_witness:
  "\<exists>l. heard VimeoKind (audio_after (1, False) (apply_audio (new_shell ''R'' ''u'' True False None (Some ''0.4'') None None False) VimeoKind)) = Fin l \<and> l = 4/10"
proof -
  have "initial_volume (Some ''0.4'') = Fin (4/10)" by code_simp
  then have "sh_volume (new_shell ''R'' ''u'' True False None (Some ''0.4'') None None False) = Fin (4/10)"
    by (simp add: new_shell_def Let_def)
  from chosen_level_is_heard [OF this, of VimeoKind "(1, False)"] show ?thesis by (simp add: new_shell_def Let_def)
qed

subsection \<open>Asking for captions ends\<close>

lemma captions_poll_yes: "answer m \<Longrightarrow> captions_poll answer m = Some (m + 1, True)"
  by (subst captions_poll.simps) simp

lemma captions_poll_last: "\<not> answer 5 \<Longrightarrow> captions_poll answer 5 = Some (6, False)"
  by (subst captions_poll.simps) simp

lemma captions_poll_next: "\<not> answer m \<Longrightarrow> m < 5 \<Longrightarrow> captions_poll answer m = captions_poll answer (m + 1)"
  by (subst captions_poll.simps) simp

lemma captions_poll_from:
  assumes "m \<le> 5"
  shows "captions_poll answer m = (case find answer [m..<6] of Some i \<Rightarrow> Some (i + 1, True) | None \<Rightarrow> Some (6, False))"
  using assms
proof (induction "5 - m" arbitrary: m)
  case 0
  then have "m = 5" "[m..<6] = [5]" by (simp_all add: upt_rec)
  then show ?case using captions_poll_yes [of answer 5] captions_poll_last [of answer] by simp
next
  case (Suc k)
  then have u: "[m..<6] = m # [m + 1..<6]" and m: "m < 5" by (simp_all add: upt_conv_Cons)
  from Suc have "k = 5 - (m + 1)" "m + 1 \<le> 5" by simp_all
  from Suc.hyps(1) [OF this] show ?case
    using captions_poll_yes [of answer m] captions_poll_next [of answer m] m by (cases "answer m") (simp_all add: u)
qed

text \<open>
  C37. Asking a player for captions ends, whatever it answers: after at most six questions, right after the
  first yes, and with no only when all six answers were no.
\<close>

theorem captions_poll_ends:
  "\<exists>n b. captions_poll answer 0 = Some (n, b) \<and> n \<le> 6 \<and> (b \<longleftrightarrow> (\<exists>i<6. answer i)) \<and> (b \<longrightarrow> answer (n - 1) \<and> (\<forall>i<n - 1. \<not> answer i))"
proof (cases "find answer [0..<6]")
  case None
  then have "\<not> (\<exists>i<6. answer i)" by (auto simp: find_None_iff)
  then show ?thesis using captions_poll_from [of 0 answer] None by simp
next
  case (Some i)
  then have i: "i < 6" "answer i" "\<forall>j<i. \<not> answer j" by (auto simp: find_Some_iff)
  moreover have "captions_poll answer 0 = Some (i + 1, True)" using captions_poll_from [of 0 answer] Some by simp
  ultimately show ?thesis by (intro exI [of _ "i + 1"] exI [of _ True]) auto
qed

theorem captions_poll_ends_witness: "\<exists>n. captions_poll (\<lambda>i. i = 2) 0 = Some (n, True) \<and> n \<le> 6 \<and> n - 1 = 2"
  using captions_poll_ends [of "\<lambda>i. i = 2"] by auto

subsection \<open>A failing stream is reported\<close>

definition fatals :: "hls_error list \<Rightarrow> hls_error list" where
  "fatals ds = filter he_fatal ds"

definition retries_left :: "hls_mount \<Rightarrow> nat" where
  "retries_left h = (if hm_retriedNetwork h then 0 else 1) + (if hm_retriedMedia h then 0 else 1)"

definition is_failure :: "hls_action \<Rightarrow> bool" where
  "is_failure a = (case a of DestroyAndFail r \<Rightarrow> True | _ \<Rightarrow> False)"

lemma on_hls_error_cases:
  assumes "\<not> hm_cancelled h"
  obtains (ignored) "\<not> he_fatal d" "on_hls_error h d = (h, [])"
  | (network) "he_fatal d" "\<not> hm_retriedNetwork h" "on_hls_error h d = (h\<lparr>hm_retriedNetwork := True\<rparr>, [StartLoad])"
  | (media) "he_fatal d" "\<not> hm_retriedMedia h" "on_hls_error h d = (h\<lparr>hm_retriedMedia := True\<rparr>, [RecoverMedia])"
  | (failed) r where "he_fatal d" "on_hls_error h d = (h\<lparr>hm_instance := False\<rparr>, [DestroyAndFail r])"
proof (cases "he_fatal d")
  case True
  note def = on_hls_error_def [of h d] and t = True assms
  consider "he_type d = NetworkError" "\<not> hm_retriedNetwork h" | "he_type d = MediaError" "\<not> hm_retriedMedia h"
    | "\<not> (he_type d = NetworkError \<and> \<not> hm_retriedNetwork h)" "\<not> (he_type d = MediaError \<and> \<not> hm_retriedMedia h)" by blast
  then show ?thesis
  proof cases
    case 1
    then show ?thesis using t by (intro network) (simp_all add: def)
  next
    case 2
    then show ?thesis using t by (intro media) (simp_all add: def)
  next
    case 3
    show ?thesis using t by (intro failed) (simp_all only: def 3 if_False if_True not_True_eq_False not_False_eq_True simp_thms)
  qed
qed (simp add: ignored on_hls_error_def)

lemma hls_dead: "\<not> hm_instance h \<Longrightarrow> hls_run h ds = (h, [])"
  by (cases ds) simp_all

lemma hls_run_facts:
  assumes "\<not> hm_cancelled h" "hm_instance h" "hls_run h ds = (h', acts)"
  shows "length (filter is_failure acts) \<le> 1 \<and> (hm_instance h' \<longleftrightarrow> filter is_failure acts = []) \<and>
    count_list acts StartLoad \<le> (if hm_retriedNetwork h then 0 else 1) \<and>
    count_list acts RecoverMedia \<le> (if hm_retriedMedia h then 0 else 1) \<and>
    (retries_left h < length (fatals ds) \<longrightarrow> filter is_failure acts \<noteq> [])"
  using assms
proof (induction ds arbitrary: h acts)
  case Nil
  then show ?case by (auto simp: fatals_def)
next
  case (Cons d ds)
  obtain h1 a where s: "on_hls_error h d = (h1, a)" by fastforce
  obtain b where b: "hls_run h1 ds = (h', b)" "acts = a @ b" using Cons.prems(2,3) s by (auto split: prod.splits)
  show ?case
    using Cons.prems(1)
  proof (cases rule: on_hls_error_cases [where d = d])
    case ignored
    then show ?thesis using Cons.IH [of h b] Cons.prems s b by (auto simp: fatals_def)
  next
    case network
    then have "\<not> hm_cancelled h1" "hm_instance h1" using Cons.prems s by auto
    from Cons.IH [OF this b(1)] show ?thesis using network s b by (auto simp: fatals_def is_failure_def retries_left_def)
  next
    case media
    then have "\<not> hm_cancelled h1" "hm_instance h1" using Cons.prems s by auto
    from Cons.IH [OF this b(1)] show ?thesis using media s b by (auto simp: fatals_def is_failure_def retries_left_def)
  next
    case failed
    then have "b = []" "h' = h1" using s b hls_dead [of h1 ds] by auto
    then show ?thesis using failed s b by (auto simp: is_failure_def)
  qed
qed

text \<open>
  A stream that keeps failing fails visibly: whatever errors a mounted stream runs into, it is
  recovered at most once from a network error and at most once from a media error, the failure is reported
  at most once and exactly when the stream is given up, and three fatal errors always report it.
\<close>

theorem failing_stream_is_reported:
  assumes "hls_run new_hls ds = (h', acts)"
  shows "length (filter is_failure acts) \<le> 1 \<and> (hm_instance h' \<longleftrightarrow> filter is_failure acts = []) \<and>
    count_list acts StartLoad \<le> 1 \<and> count_list acts RecoverMedia \<le> 1 \<and>
    (3 \<le> length (fatals ds) \<longrightarrow> filter is_failure acts \<noteq> [])"
  using hls_run_facts [OF _ _ assms] by (simp add: new_hls_def retries_left_def)

theorem failing_stream_is_reported_witness:
  "let d = \<lparr>he_fatal = True, he_type = NetworkError, he_details = ''x''\<rparr> in
   \<exists>h' acts. hls_run new_hls [d, d, d] = (h', acts) \<and> \<not> hm_instance h' \<and> count_list acts StartLoad \<le> 1"
proof -
  let ?d = "\<lparr>he_fatal = True, he_type = NetworkError, he_details = ''x''\<rparr>"
  obtain h' acts where r: "hls_run new_hls [?d, ?d, ?d] = (h', acts)" by fastforce
  show ?thesis using failing_stream_is_reported [OF r] r by (auto simp: fatals_def Let_def)
qed

end
