(* ===== verification/VoicePanel.thy ===== *)
theory VoicePanel
  imports Voice
begin

text \<open>
  The browser's side of a voice call (frontend components/EnhancedVoiceChat.tsx): the microphone, the peers
  it keeps and what the panel shows. A peer is known by whether this side initiated it; the media library
  behind it is not modelled, and no two peers are ever connected, since the gateway relays no signal
  (Voice, \<open>no_signal_is_relayed\<close>). Lemmas: what each message makes of the peers, when the microphone is
  what the panel shows, and where it is not.
\<close>

subsection \<open>State\<close>

record panel_user =
  pu_userId :: string
  pu_username :: string
  pu_socketId :: string
  pu_isMuted :: bool
  pu_isDeafened :: bool

text \<open>
  \<open>vp_stream\<close> is the local microphone: nothing, or whether its track is enabled. The audio elements are kept
  by the peer they play, with their mute.
\<close>

record voice_panel =
  vp_roomCode :: string
  vp_self :: voice_member
  vp_isInVoice :: bool
  vp_isMuted :: bool
  vp_isDeafened :: bool
  vp_voiceUsers :: "panel_user list"
  vp_onCall :: "voice_member list"
  vp_speaking :: "string list"
  vp_stream :: "bool option"
  vp_peers :: "(string, bool) jsmap"
  vp_audio :: "(string \<times> bool) list"

abbreviation vp_userId :: "voice_panel \<Rightarrow> string" where
  "vp_userId p \<equiv> vm_userId (vp_self p)"

definition new_panel :: "string \<Rightarrow> voice_member \<Rightarrow> voice_panel" where
  "new_panel code self = \<lparr>vp_roomCode = code, vp_self = self, vp_isInVoice = False, vp_isMuted = False, vp_isDeafened = False,
     vp_voiceUsers = [], vp_onCall = [], vp_speaking = [], vp_stream = None, vp_peers = [], vp_audio = []\<rparr>"

datatype panel_emit =
    EmitJoin string
  | EmitLeave string
  | EmitMute string bool
  | EmitDeafen string bool
  | EmitSpeaking string bool

subsection \<open>What arrives\<close>

definition createPeerConnection :: "voice_panel \<Rightarrow> string \<Rightarrow> bool \<Rightarrow> voice_panel" where
  "createPeerConnection p target initiator =
     (if vp_stream p = None then p else p\<lparr>vp_peers := jm_set (vp_peers p) target initiator\<rparr>)"

definition shown_user :: "voice_user \<Rightarrow> panel_user" where
  "shown_user u = \<lparr>pu_userId = vu_userId u, pu_username = vu_username u, pu_socketId = vu_socketId u, pu_isMuted = vu_isMuted u, pu_isDeafened = vu_isDeafened u\<rparr>"

definition on_users_list :: "voice_panel \<Rightarrow> panel_user list \<Rightarrow> voice_panel" where
  "on_users_list p users =
     foldl (\<lambda>p u. if pu_userId u \<noteq> vp_userId p then createPeerConnection p (pu_socketId u) True else p)
       (p\<lparr>vp_voiceUsers := users\<rparr>) users"

definition on_user_joined :: "voice_panel \<Rightarrow> string \<Rightarrow> string \<Rightarrow> string \<Rightarrow> voice_panel" where
  "on_user_joined p userId username socketId =
     createPeerConnection
       (p\<lparr>vp_voiceUsers := vp_voiceUsers p @ [\<lparr>pu_userId = userId, pu_username = username, pu_socketId = socketId, pu_isMuted = False, pu_isDeafened = False\<rparr>]\<rparr>)
       socketId False"

definition on_user_left :: "voice_panel \<Rightarrow> string \<Rightarrow> string \<Rightarrow> voice_panel" where
  "on_user_left p userId socketId =
     p\<lparr>vp_voiceUsers := filter (\<lambda>u. pu_userId u \<noteq> userId) (vp_voiceUsers p), vp_peers := jm_del (vp_peers p) socketId\<rparr>"

definition on_mute_status :: "voice_panel \<Rightarrow> string \<Rightarrow> bool \<Rightarrow> voice_panel" where
  "on_mute_status p userId m =
     p\<lparr>vp_voiceUsers := map (\<lambda>u. if pu_userId u = userId then u\<lparr>pu_isMuted := m\<rparr> else u) (vp_voiceUsers p)\<rparr>"

definition on_deafen_status :: "voice_panel \<Rightarrow> string \<Rightarrow> bool \<Rightarrow> bool \<Rightarrow> voice_panel" where
  "on_deafen_status p userId d m =
     p\<lparr>vp_voiceUsers := map (\<lambda>u. if pu_userId u = userId then u\<lparr>pu_isDeafened := d, pu_isMuted := m\<rparr> else u) (vp_voiceUsers p)\<rparr>"

definition on_speaking_status :: "voice_panel \<Rightarrow> string \<Rightarrow> bool \<Rightarrow> voice_panel" where
  "on_speaking_status p userId s = p\<lparr>vp_speaking := (if s then js_add (vp_speaking p) userId else js_delete (vp_speaking p) userId)\<rparr>"

definition on_voice_roster :: "voice_panel \<Rightarrow> string option \<Rightarrow> voice_member list option \<Rightarrow> voice_panel" where
  "on_voice_roster p roomCode users =
     (if truthy roomCode \<and> roomCode \<noteq> Some (vp_roomCode p) then p else p\<lparr>vp_onCall := nullish users []\<rparr>)"

definition on_remote_stream :: "voice_panel \<Rightarrow> string \<Rightarrow> voice_panel" where
  "on_remote_stream p socketId = p\<lparr>vp_audio := vp_audio p @ [(socketId, False)]\<rparr>"

text \<open>A signal is handed to the peer it comes from, when there is one.\<close>

definition signal_for :: "voice_panel \<Rightarrow> string \<Rightarrow> string \<Rightarrow> (string \<times> string) option" where
  "signal_for p from signal = (if jm_has (vp_peers p) from then Some (from, signal) else None)"

definition panel_on :: "voice_panel \<Rightarrow> voice_event \<Rightarrow> voice_panel" where
  "panel_on p ev = (case ev of
     UsersList us \<Rightarrow> on_users_list p (map shown_user us)
   | UserJoined i n s \<Rightarrow> on_user_joined p i n s
   | UserLeft i s \<Rightarrow> on_user_left p i s
   | MuteStatus i s m \<Rightarrow> on_mute_status p i m
   | DeafenStatus i s d m \<Rightarrow> on_deafen_status p i d m
   | SpeakingStatus i s b \<Rightarrow> on_speaking_status p i b
   | VoiceRoster code us \<Rightarrow> on_voice_roster p (Some code) (Some us)
   | _ \<Rightarrow> p)"

subsection \<open>What the user does\<close>

text \<open>
  One frame of the speaking detector, which sees the render \<open>r\<close> it was created in: the last component says
  whether it asks for another frame.
\<close>

definition checkSpeaking :: "voice_panel \<Rightarrow> voice_panel \<Rightarrow> nat \<Rightarrow> voice_panel \<times> panel_emit list \<times> bool" where
  "checkSpeaking r p average =
     (if \<not> vp_isInVoice r then (p, [], False)
      else
        (let isSpeaking = (30 < average \<and> \<not> vp_isMuted r); me = vp_userId r in
         if isSpeaking \<and> me \<noteq> [] then
           (if me \<in> set (vp_speaking p) then (p, [], True)
            else (p\<lparr>vp_speaking := vp_speaking p @ [me]\<rparr>, [EmitSpeaking (vp_roomCode r) True], True))
         else if me \<noteq> [] \<and> me \<in> set (vp_speaking p) then
           (p\<lparr>vp_speaking := js_delete (vp_speaking p) me\<rparr>, [EmitSpeaking (vp_roomCode r) False], True)
         else (p, [], True)))"

text \<open>\<open>granted\<close> is whether the browser hands out the microphone; a fresh track is enabled.\<close>

definition handleJoinVoice :: "bool \<Rightarrow> voice_panel \<Rightarrow> nat \<Rightarrow> voice_panel \<times> panel_emit list" where
  "handleJoinVoice granted p average =
     (if \<not> granted then (p, [])
      else
        (let (p1, em, again) = checkSpeaking p (p\<lparr>vp_stream := Some True\<rparr>) average in
         (p1\<lparr>vp_isInVoice := True\<rparr>, em @ [EmitJoin (vp_roomCode p)])))"

definition panel_leave :: "voice_panel \<Rightarrow> voice_panel \<times> panel_emit list" where
  "panel_leave p =
     (p\<lparr>vp_stream := None, vp_peers := [], vp_audio := [], vp_isInVoice := False, vp_voiceUsers := [], vp_speaking := []\<rparr>,
      [EmitLeave (vp_roomCode p)])"

definition handleToggleMute :: "voice_panel \<Rightarrow> voice_panel \<times> panel_emit list" where
  "handleToggleMute p =
     (if vp_stream p = None then (p, [])
      else (p\<lparr>vp_stream := Some (vp_isMuted p), vp_isMuted := \<not> vp_isMuted p\<rparr>, [EmitMute (vp_roomCode p) (\<not> vp_isMuted p)]))"

definition handleToggleDeafen :: "voice_panel \<Rightarrow> voice_panel \<times> panel_emit list" where
  "handleToggleDeafen p =
     (let d = \<not> vp_isDeafened p;
          (p1, em) = (if d \<and> \<not> vp_isMuted p then handleToggleMute p else (p, [])) in
      (p1\<lparr>vp_isDeafened := d, vp_audio := map (\<lambda>(s, m). (s, d)) (vp_audio p1)\<rparr>, em @ [EmitDeafen (vp_roomCode p) d]))"

text \<open>The chip on the panel: everybody else and oneself, or the roster of a call one is not on.\<close>

definition shown_count :: "voice_panel \<Rightarrow> nat" where
  "shown_count p = (if vp_isInVoice p then length (vp_voiceUsers p) + 1 else length (vp_onCall p))"

subsection \<open>The microphone and the button\<close>

definition mic_honest :: "voice_panel \<Rightarrow> bool" where
  "mic_honest p = (case vp_stream p of None \<Rightarrow> True | Some enabled \<Rightarrow> enabled = (\<not> vp_isMuted p))"

lemma checkSpeaking_same:
  "checkSpeaking r p a = (p1, em, again) \<Longrightarrow> vp_stream p1 = vp_stream p \<and> vp_isMuted p1 = vp_isMuted p"
  by (auto simp: checkSpeaking_def Let_def split: if_splits)

lemma toggles_keep_mic_honest:
  assumes "mic_honest p"
  shows "mic_honest (fst (handleToggleMute p))" "mic_honest (fst (handleToggleDeafen p))" "mic_honest (fst (panel_leave p))"
  using assms
  by (auto simp: mic_honest_def handleToggleMute_def handleToggleDeafen_def panel_leave_def Let_def split: option.splits)

lemma join_keeps_mic_honest:
  assumes "\<not> vp_isMuted p" "mic_honest p"
  shows "mic_honest (fst (handleJoinVoice granted p a))"
proof -
  obtain p1 em again where c: "checkSpeaking p (p\<lparr>vp_stream := Some True\<rparr>) a = (p1, em, again)" by (metis prod_cases3)
  from checkSpeaking_same [OF c] show ?thesis using assms by (cases granted) (simp_all add: handleJoinVoice_def c mic_honest_def)
qed

text \<open>
  Leaving does not take the mute off the panel: whoever mutes, leaves and joins again is heard while the
  panel says muted, and the server and everybody else say the opposite.
\<close>

lemma rejoin_is_live_while_shown_muted:
  fixes p0 :: voice_panel
  defines "p \<equiv> fst (handleJoinVoice True (fst (panel_leave (fst (handleToggleMute (fst (handleJoinVoice True p0 0)))))) 0)"
  assumes "\<not> vp_isInVoice p0" "\<not> vp_isMuted p0"
  shows "vp_isInVoice p \<and> vp_isMuted p \<and> vp_stream p = Some True"
  using assms by (simp add: handleJoinVoice_def checkSpeaking_def handleToggleMute_def panel_leave_def)

text \<open>
  The speaking detector is created by the join button, in a render that is not on the call: its first frame
  is its last, and nobody is ever announced as speaking.
\<close>

lemma speaking_is_never_announced:
  assumes "\<not> vp_isInVoice p" "handleJoinVoice True p average = (p', em)"
  shows "em = [EmitJoin (vp_roomCode p)] \<and> vp_speaking p' = vp_speaking p"
  using assms by (auto simp: handleJoinVoice_def checkSpeaking_def)

subsection \<open>Peers\<close>

text \<open>
  What the panel keeps of the others: a list of users makes it initiate towards each of them but its own other tabs, a user
  who joined is answered, and the peer of whoever left is gone; without the microphone none is created.
\<close>

lemma peer_after_list:
  "jm_get (vp_peers (on_users_list p us)) t =
    (if vp_stream p \<noteq> None \<and> (\<exists>u\<in>set us. pu_userId u \<noteq> vp_userId p \<and> pu_socketId u = t) then Some True else jm_get (vp_peers p) t)"
proof -
  let ?f = "\<lambda>p u. if pu_userId u \<noteq> vp_userId p then createPeerConnection p (pu_socketId u) True else p"
  have "jm_get (vp_peers (foldl ?f q us)) t =
      (if vp_stream q \<noteq> None \<and> (\<exists>u\<in>set us. pu_userId u \<noteq> vp_userId q \<and> pu_socketId u = t) then Some True else jm_get (vp_peers q) t)" for q
    by (induction us arbitrary: q) (auto simp: createPeerConnection_def)
  from this [of "p\<lparr>vp_voiceUsers := us\<rparr>"] show ?thesis unfolding on_users_list_def by (simp del: foldl_Cons cong: if_cong)
qed

lemma peer_after_joined:
  "jm_get (vp_peers (on_user_joined p i n s)) t = (if vp_stream p \<noteq> None \<and> t = s then Some False else jm_get (vp_peers p) t)"
  by (simp add: on_user_joined_def createPeerConnection_def)

lemma peer_after_left: "jm_get (vp_peers (on_user_left p i s)) t = (if t = s then None else jm_get (vp_peers p) t)"
  by (simp add: on_user_left_def)

end
