(* ===== verification/RoomPage.thy ===== *)
theory RoomPage
  imports Gateway
begin

text \<open>
  The room page of the browser (pages/EnhancedRoomPage.tsx) with its chat panel (components/ChatPanel.tsx): loading
  the room, the participants list kept from the socket's events, the conversation, the end of a room, sharing and
  leaving. Together with the gateway the pages of all tabs form one system, in which the list and the conversation
  a page shows are those of the database while its connection is in its room only. Markup, the document's title and the clock of the copied mark are
  left out; what the browser and the server answer is an argument.
\<close>

subsection \<open>State and effects\<close>

record page_room =
  pr_id :: string
  pr_name :: string
  pr_code :: string
  pr_videoUrl :: "string option"
  pr_creatorId :: string
  pr_allowGuestControl :: bool

record room_page =
  rp_roomCode :: string
  rp_room :: "page_room option"
  rp_participants :: "who list"
  rp_loading :: bool
  rp_showSettings :: bool
  rp_messages :: "(chat_message \<times> who) list"
  rp_inputMessage :: string
  rp_unread :: nat
  rp_wasNearBottom :: bool

datatype page_effect =
    Navigate string bool
  | PageToast string
  | EmitJoin string
  | EmitRequestParticipants string
  | EmitLeave string
  | EmitChat string string
  | RememberRoom string string
  | ForgetRoom string
  | ShareSheet string
  | CopyText string

definition new_page :: "string \<Rightarrow> room_page" where
  "new_page code = \<lparr>rp_roomCode = code, rp_room = None, rp_participants = [], rp_loading = True, rp_showSettings = False,
     rp_messages = [], rp_inputMessage = [], rp_unread = 0, rp_wasNearBottom = True\<rparr>"

subsection \<open>Loading the room\<close>

text \<open>What happens when the page opens: \<^term>\<open>True\<close> when the room is to be fetched.\<close>

definition page_start :: "string \<Rightarrow> bool \<Rightarrow> bool \<Rightarrow> page_effect list \<times> bool" where
  "page_start code authReady signedIn =
     (if code = [] then ([Navigate ''/'' False], False)
      else if \<not> authReady then ([], False)
      else if \<not> signedIn then ([Navigate (''/join-room/'' @ code) True], False)
      else ([], True))"

definition fetchRoomDetails :: "room_page \<Rightarrow> nat option + page_room \<times> who list option \<Rightarrow> room_page \<times> page_effect list" where
  "fetchRoomDetails p answer = (case answer of
     Inr (room, listed) \<Rightarrow>
       (p\<lparr>rp_room := Some room, rp_participants := (case listed of None \<Rightarrow> rp_participants p | Some ps \<Rightarrow> ps), rp_loading := False\<rparr>,
        if pr_code room = [] then [] else [RememberRoom (pr_code room) (pr_name room)])
   | Inl status \<Rightarrow>
       (p\<lparr>rp_loading := False\<rparr>,
        if status = Some 401 then [Navigate (''/join-room/'' @ rp_roomCode p) True]
        else [PageToast ''Couldn't load the room'', Navigate ''/'' False]))"

subsection \<open>Being in the room\<close>

definition page_join :: "room_page \<Rightarrow> bool \<Rightarrow> bool \<Rightarrow> page_effect list" where
  "page_join p isConnected signedIn = (case rp_room p of
     None \<Rightarrow> []
   | Some room \<Rightarrow> if \<not> isConnected \<or> \<not> signedIn then [] else [EmitJoin (pr_code room), EmitRequestParticipants (pr_code room)])"

definition handleRoomJoined :: "room_page \<Rightarrow> who list \<Rightarrow> room_page \<times> page_effect list" where
  "handleRoomJoined p ps = (p\<lparr>rp_participants := ps\<rparr>, [PageToast ''Joined the room''])"

definition handleUserJoined :: "room_page \<Rightarrow> string \<Rightarrow> string \<Rightarrow> room_page \<times> page_effect list" where
  "handleUserJoined p userId username =
     (if list_ex (\<lambda>w. fst w = userId) (rp_participants p) then (p, [])
      else (p\<lparr>rp_participants := rp_participants p @ [(userId, username)]\<rparr>, [PageToast (username @ '' joined'')]))"

definition handleUserLeft :: "room_page \<Rightarrow> string \<Rightarrow> room_page \<times> page_effect list" where
  "handleUserLeft p userId = (case find (\<lambda>w. fst w = userId) (rp_participants p) of
     None \<Rightarrow> (p, [])
   | Some leaving \<Rightarrow>
       (p\<lparr>rp_participants := filter (\<lambda>w. fst w \<noteq> userId) (rp_participants p)\<rparr>, [PageToast (snd leaving @ '' left'')]))"

definition handleParticipantsUpdate :: "room_page \<Rightarrow> who list \<Rightarrow> room_page" where
  "handleParticipantsUpdate p ps = p\<lparr>rp_participants := ps\<rparr>"

definition onClosed :: "room_page \<Rightarrow> string option \<Rightarrow> page_effect list" where
  "onClosed p named =
     (if truthy named \<and> nullish named [] \<noteq> rp_roomCode p then []
      else (if rp_roomCode p = [] then [] else [ForgetRoom (rp_roomCode p)]) @
        [PageToast ''The host ended this room'', Navigate ''/'' True])"

definition page_leave :: "room_page \<Rightarrow> bool \<Rightarrow> page_effect list" where
  "page_leave p has_socket =
     (case rp_room p of Some room \<Rightarrow> if has_socket then [EmitLeave (pr_code room)] else [] | None \<Rightarrow> []) @
     [Navigate ''/'' False, PageToast ''Left the room'']"

datatype share_answer = Shared | ShareAborted | ShareFailed

definition handleShareRoom :: "room_page \<Rightarrow> string \<Rightarrow> share_answer option \<Rightarrow> bool \<Rightarrow> page_effect list" where
  "handleShareRoom p origin sheet copied = (case rp_room p of
     None \<Rightarrow> []
   | Some room \<Rightarrow>
       (let url = origin @ ''/join-room/'' @ pr_code room;
            copy = (if copied then [CopyText url, PageToast ''Share link copied''] else [PageToast ''Copy the link from the address bar'']) in
        case sheet of
          None \<Rightarrow> copy
        | Some Shared \<Rightarrow> [ShareSheet url]
        | Some ShareAborted \<Rightarrow> [ShareSheet url]
        | Some ShareFailed \<Rightarrow> ShareSheet url # copy))"

definition isHost :: "room_page \<Rightarrow> string option \<Rightarrow> bool" where
  "isHost p user = (case rp_room p of None \<Rightarrow> False | Some room \<Rightarrow> user = Some (pr_creatorId room))"

definition other_rows :: "room_page \<Rightarrow> who list" where
  "other_rows p = (case rp_room p of None \<Rightarrow> [] | Some room \<Rightarrow> filter (\<lambda>w. fst w \<noteq> pr_creatorId room) (rp_participants p))"

text \<open>
  Keys while the settings are open: escape closes them, and tab is moved from one end of the focusable elements
  to the other. The answer is the element that is given the focus, if the key is caught.
\<close>

definition trap_key :: "room_page \<Rightarrow> string \<Rightarrow> bool \<Rightarrow> 'e list \<Rightarrow> 'e option \<Rightarrow> bool \<Rightarrow> room_page \<times> 'e option" where
  "trap_key p key shift focusable active inside =
     (if key = ''Escape'' then (p\<lparr>rp_showSettings := False\<rparr>, None)
      else if key \<noteq> ''Tab'' then (p, None)
      else if focusable = [] then (p, None)
      else if shift \<and> (active = Some (hd focusable) \<or> \<not> inside) then (p, Some (last focusable))
      else if \<not> shift \<and> active = Some (last focusable) then (p, Some (hd focusable))
      else (p, None))"

subsection \<open>The conversation\<close>

definition NEAR_BOTTOM_PX :: real where "NEAR_BOTTOM_PX = 48"

definition messages_changed :: "room_page \<Rightarrow> room_page" where
  "messages_changed p = (if rp_wasNearBottom p then p\<lparr>rp_unread := 0\<rparr> else p\<lparr>rp_unread := rp_unread p + 1\<rparr>)"

definition on_chat_message :: "room_page \<Rightarrow> chat_message \<times> who \<Rightarrow> room_page" where
  "on_chat_message p m = messages_changed (p\<lparr>rp_messages := rp_messages p @ [m]\<rparr>)"

definition on_message_history :: "room_page \<Rightarrow> (chat_message \<times> who) list \<Rightarrow> room_page" where
  "on_message_history p ms = messages_changed (p\<lparr>rp_messages := ms\<rparr>)"

definition on_chat_scroll :: "room_page \<Rightarrow> real \<Rightarrow> real \<Rightarrow> real \<Rightarrow> room_page" where
  "on_chat_scroll p scrollHeight scrollTop clientHeight =
     (let atBottom = scrollHeight - scrollTop - clientHeight \<le> NEAR_BOTTOM_PX; p1 = p\<lparr>rp_wasNearBottom := atBottom\<rparr> in
      if atBottom then p1\<lparr>rp_unread := 0\<rparr> else p1)"

definition sendMessage :: "room_page \<Rightarrow> bool \<Rightarrow> bool \<Rightarrow> room_page \<times> page_effect list" where
  "sendMessage p has_socket signedIn =
     (if trim (rp_inputMessage p) = [] \<or> \<not> has_socket \<or> \<not> signedIn then (p, [])
      else case rp_room p of
        None \<Rightarrow> (p, [])
      | Some room \<Rightarrow> (p\<lparr>rp_inputMessage := []\<rparr>, [EmitChat (pr_code room) (trim (rp_inputMessage p))]))"

subsection \<open>A page among the events of its socket\<close>

definition page_on :: "room_page \<Rightarrow> gw_event \<Rightarrow> room_page \<times> page_effect list" where
  "page_on p ev = (case ev of
     EvRoomJoined room t ps latency \<Rightarrow> handleRoomJoined p ps
   | EvUserJoined u n \<Rightarrow> handleUserJoined p u n
   | EvUserLeft u \<Rightarrow> handleUserLeft p u
   | EvParticipants ps \<Rightarrow> (handleParticipantsUpdate p ps, [])
   | EvHistory ms \<Rightarrow> (on_message_history p ms, [])
   | EvChat m w \<Rightarrow> (on_chat_message p (m, w), [])
   | EvClosed c \<Rightarrow> (p, onClosed p (Some c))
   | _ \<Rightarrow> (p, []))"

definition stays :: "room_page \<times> page_effect list \<Rightarrow> room_page option" where
  "stays r = (if list_ex (\<lambda>e. case e of Navigate to replace \<Rightarrow> True | _ \<Rightarrow> False) (snd r) then None else Some (fst r))"

definition page_after :: "room_page option \<Rightarrow> gw_event \<Rightarrow> room_page option" where
  "page_after p ev = Option.bind p (\<lambda>p. stays (page_on p ev))"

subsection \<open>All tabs and the gateway\<close>

text \<open>
  The pages open in the browser's tabs, by the socket of the tab. A step is what one tab does together with the
  gateway's answer, delivered to whom it is addressed.
\<close>

record 's party =
  pa_gw :: "'s gateway"
  pa_db :: gw_db
  pa_pages :: "string \<Rightarrow> room_page option"

definition reaches :: "'s gateway \<Rightarrow> gw_target \<Rightarrow> string \<Rightarrow> bool" where
  "reaches gw tgt s = (case tgt of
     Sock s' \<Rightarrow> s = s' | Room c \<Rightarrow> s \<in> set (gw_rooms gw c) | RoomBut c s' \<Rightarrow> s \<in> set (gw_rooms gw c) \<and> s \<noteq> s'
   | LocalRoom c \<Rightarrow> s \<in> set (gw_rooms gw c))"

definition heard :: "'s gateway \<Rightarrow> gw_emit \<Rightarrow> string \<Rightarrow> gw_event list" where
  "heard gw em s = map snd (filter (\<lambda>e. reaches gw (fst e) s) em)"

definition deliver_all :: "'s gateway \<Rightarrow> gw_emit \<Rightarrow> (string \<Rightarrow> room_page option) \<Rightarrow> string \<Rightarrow> room_page option" where
  "deliver_all gw em pages = (\<lambda>s. foldl page_after (pages s) (heard gw em s))"

definition room_of_page :: "room_rec \<Rightarrow> page_room" where
  "room_of_page room = \<lparr>pr_id = rm_id room, pr_name = rm_name room, pr_code = rm_code room, pr_videoUrl = rm_videoUrl room,
     pr_creatorId = rm_creatorId room, pr_allowGuestControl = rm_allowGuestControl room\<rparr>"

definition room_answer :: "gw_db \<Rightarrow> string \<Rightarrow> nat option + page_room \<times> who list option" where
  "room_answer db code = (case db_rooms db code of
     None \<Rightarrow> Inl (Some 404)
   | Some room \<Rightarrow> Inr (room_of_page room, Some (present db (rm_id room))))"

definition end_room :: "gw_db \<Rightarrow> string \<Rightarrow> gw_db" where
  "end_room db code = (case db_rooms db code of
     None \<Rightarrow> db
   | Some room \<Rightarrow> db\<lparr>db_rooms := (db_rooms db)(code := None),
       db_participants := filter (\<lambda>p. p_roomId p \<noteq> rm_id room) (db_participants db),
       db_messages := filter (\<lambda>m. cm_roomId m \<noteq> rm_id room) (db_messages db)\<rparr>)"

datatype party_event =
    TabConnects string authed_socket
  | TabOpens string string
  | TabJoins string jsnum jsnum jsnum
  | TabTypes string string
  | TabSends string string jsnum
  | TabScrolls string real real real
  | TabLeaves string
  | TabDisconnects string jsnum jsnum
  | TabMoves string string
  | RoomEnds string

text \<open>What the gateway does about a message of a tab: there is no handler for a leave.\<close>

definition serve :: "'s store_ops \<Rightarrow> string \<Rightarrow> string \<Rightarrow> jsnum \<Rightarrow> jsnum \<Rightarrow> jsnum \<Rightarrow> 's party \<Rightarrow> page_effect \<Rightarrow> 's party" where
  "serve ops s fresh now wall latency w eff = (case gw_sockets (pa_gw w) s of
     None \<Rightarrow> w
   | Some cd \<Rightarrow>
       (case eff of
          EmitJoin code \<Rightarrow>
            (let (gw, db, em) = handleJoinRoom ops (pa_gw w) (pa_db w) s (as_userId cd) code now wall latency in
             \<lparr>pa_gw = gw, pa_db = db, pa_pages = deliver_all gw em (pa_pages w)\<rparr>)
        | EmitRequestParticipants code \<Rightarrow>
            w\<lparr>pa_pages := deliver_all (pa_gw w) (handleRequestParticipants (pa_db w) s code) (pa_pages w)\<rparr>
        | EmitChat code msg \<Rightarrow>
            (let (db, em) = handleChatMessage (pa_db w) s cd code msg fresh wall in
             w\<lparr>pa_db := db, pa_pages := deliver_all (pa_gw w) em (pa_pages w)\<rparr>)
        | _ \<Rightarrow> w))"

definition with_page :: "'s party \<Rightarrow> string \<Rightarrow> room_page option \<Rightarrow> 's party" where
  "with_page w s p = w\<lparr>pa_pages := (pa_pages w)(s := p)\<rparr>"

definition on_page :: "'s party \<Rightarrow> string \<Rightarrow> (room_page \<Rightarrow> 's party) \<Rightarrow> 's party" where
  "on_page w s f = (case pa_pages w s of None \<Rightarrow> w | Some p \<Rightarrow> f p)"

definition party_step :: "'s store_ops \<Rightarrow> 's party \<Rightarrow> party_event \<Rightarrow> 's party" where
  "party_step ops w ev = (case ev of
     TabConnects s cd \<Rightarrow> w\<lparr>pa_gw := (pa_gw w)\<lparr>gw_sockets := (gw_sockets (pa_gw w))(s \<mapsto> cd)\<rparr>\<rparr>
   | TabOpens s code \<Rightarrow>
       (if snd (page_start code True (gw_sockets (pa_gw w) s \<noteq> None))
        then with_page w s (stays (fetchRoomDetails (new_page code) (room_answer (pa_db w) code)))
        else with_page w s None)
   | TabJoins s now wall latency \<Rightarrow> on_page w s (\<lambda>p. foldl (serve ops s [] now wall latency) w (page_join p True True))
   | TabTypes s msg \<Rightarrow> on_page w s (\<lambda>p. with_page w s (Some (p\<lparr>rp_inputMessage := msg\<rparr>)))
   | TabSends s fresh wall \<Rightarrow>
       on_page w s (\<lambda>p. let (p', effs) = sendMessage p True True in foldl (serve ops s fresh 0 wall 0) (with_page w s (Some p')) effs)
   | TabScrolls s a b c \<Rightarrow> on_page w s (\<lambda>p. with_page w s (Some (on_chat_scroll p a b c)))
   | TabLeaves s \<Rightarrow>
       on_page w s (\<lambda>p. with_page (foldl (serve ops s [] 0 0 0) w (page_leave p True)) s (stays (p, page_leave p True)))
   | TabDisconnects s now wall \<Rightarrow>
       (let (gw, db, em) = handleDisconnect ops (pa_gw w) (pa_db w) s now wall in
        \<lparr>pa_gw = gw, pa_db = db, pa_pages = deliver_all gw em (pa_pages w)\<rparr>)
   | TabMoves s s' \<Rightarrow> with_page (with_page w s None) s' (pa_pages w s)
   | RoomEnds code \<Rightarrow>
       w\<lparr>pa_db := end_room (pa_db w) code, pa_pages := deliver_all (pa_gw w) (announceRoomClosed code) (pa_pages w)\<rparr>)"

subsection \<open>What a page shows\<close>

text \<open>The conversation of a room in the database, oldest message first, and the end of it that a page has.\<close>

definition room_chat :: "gw_db \<Rightarrow> string \<Rightarrow> (chat_message \<times> who) list" where
  "room_chat db roomId = map (\<lambda>m. (m, (cm_userId m, db_usernames db (cm_userId m)))) (filter (\<lambda>m. cm_roomId m = roomId) (db_messages db))"

definition chat_tail :: "gw_db \<Rightarrow> string \<Rightarrow> (chat_message \<times> who) list \<Rightarrow> bool" where
  "chat_tail db roomId ms \<longleftrightarrow> (\<exists>k. ms = drop k (room_chat db roomId) \<and> (k = 0 \<or> 50 \<le> length ms))"

definition earlier :: "chat_message \<Rightarrow> chat_message \<Rightarrow> bool" where
  "earlier a b \<longleftrightarrow> isFinite (cm_createdAt a) \<and> isFinite (cm_createdAt b) \<and> cm_createdAt a < cm_createdAt b"

definition db_ok :: "gw_db \<Rightarrow> bool" where
  "db_ok db \<longleftrightarrow> tables_ok db \<and> (\<forall>c room. db_rooms db c = Some room \<longrightarrow> c \<noteq> [] \<and> rm_code room = c) \<and>
     sorted_wrt earlier (db_messages db) \<and> (\<forall>m\<in>set (db_messages db). isFinite (cm_createdAt m))"

text \<open>Messages are stamped one after the other.\<close>

definition stamped :: "'s party \<Rightarrow> party_event \<Rightarrow> bool" where
  "stamped w ev = (case ev of
     TabSends s fresh wall \<Rightarrow> isFinite wall \<and> (\<forall>m\<in>set (db_messages (pa_db w)). cm_createdAt m < wall)
   | _ \<Rightarrow> True)"

text \<open>
  The connections whose page the gateway has let into its room since the page was opened, or came to this connection:
  kept beside a run, from its events.
\<close>

definition let_in :: "string set \<Rightarrow> 's party \<Rightarrow> party_event \<Rightarrow> string set" where
  "let_in J w ev = (case ev of
     TabOpens s code \<Rightarrow> J - {s}
   | TabMoves s s' \<Rightarrow> J - {s, s'}
   | TabJoins s now wall latency \<Rightarrow>
       (case (pa_pages w s, gw_sockets (pa_gw w) s) of
          (Some p, Some cd) \<Rightarrow> (case join_admit (pa_db w) (as_userId cd) (rp_roomCode p) of JoinAdmitted room \<Rightarrow> insert s J | _ \<Rightarrow> J)
        | _ \<Rightarrow> J)
   | _ \<Rightarrow> J)"

inductive party_run :: "'s store_ops \<Rightarrow> 's party \<Rightarrow> string set \<Rightarrow> 's party \<Rightarrow> bool" for ops w0 where
  start: "party_run ops w0 {} w0"
| step: "party_run ops w0 J w \<Longrightarrow> stamped w ev \<Longrightarrow> party_run ops w0 (let_in J w ev) (party_step ops w ev)"

text \<open>A page in its room: let in, still connected, and its connection is in no other room.\<close>

definition settled :: "string set \<Rightarrow> 's gateway \<Rightarrow> string \<Rightarrow> room_page \<Rightarrow> bool" where
  "settled J gw s p \<longleftrightarrow> s \<in> J \<and> s \<in> set (gw_rooms gw (rp_roomCode p)) \<and> (\<forall>c. s \<in> set (gw_rooms gw c) \<longrightarrow> c = rp_roomCode p)"

subsection \<open>Delivery\<close>

lemma messages_changed_fields [simp]:
  "rp_roomCode (messages_changed p) = rp_roomCode p" "rp_room (messages_changed p) = rp_room p"
  "rp_participants (messages_changed p) = rp_participants p" "rp_messages (messages_changed p) = rp_messages p"
  by (simp_all add: messages_changed_def)

lemma page_after_simps [simp]:
  "page_after None ev = None"
  "page_after (Some p) (EvRoomJoined r t ps l) = Some (p\<lparr>rp_participants := ps\<rparr>)"
  "page_after (Some p) (EvParticipants ps) = Some (p\<lparr>rp_participants := ps\<rparr>)"
  "page_after (Some p) (EvHistory ms) = Some (messages_changed (p\<lparr>rp_messages := ms\<rparr>))"
  "page_after (Some p) (EvChat m w) = Some (messages_changed (p\<lparr>rp_messages := rp_messages p @ [(m, w)]\<rparr>))"
  "page_after (Some p) (EvController c u why) = Some p"
  "page_after (Some p) (EvVoiceRoster c us) = Some p"
  "page_after (Some p) (EvError e) = Some p"
  "page_after (Some p) (EvClosed c) = (if c \<noteq> [] \<and> c \<noteq> rp_roomCode p then Some p else None)"
  by (simp_all add: page_after_def page_on_def stays_def handleRoomJoined_def handleParticipantsUpdate_def on_message_history_def
    on_chat_message_def onClosed_def truthy_def nullish_def)

lemma page_after_presence:
  "\<exists>ps. page_after (Some p) (EvUserJoined u n) = Some (p\<lparr>rp_participants := ps\<rparr>)"
  "\<exists>ps. page_after (Some p) (EvUserLeft u) = Some (p\<lparr>rp_participants := ps\<rparr>)"
  by (auto simp: page_after_def page_on_def stays_def handleUserJoined_def handleUserLeft_def split: option.splits
    intro: exI [of _ "rp_participants p"])

lemma foldl_page_after_None [simp]: "foldl page_after None evs = None"
  by (induction evs) simp_all

lemma page_after_keys: "page_after (Some p) ev = Some q \<Longrightarrow> rp_roomCode q = rp_roomCode p \<and> rp_room q = rp_room p"
proof (cases ev)
  case (EvUserJoined u n)
  then show "page_after (Some p) ev = Some q \<Longrightarrow> ?thesis" using page_after_presence(1) [of p u n] by auto
next
  case (EvUserLeft u)
  then show "page_after (Some p) ev = Some q \<Longrightarrow> ?thesis" using page_after_presence(2) [of p u] by auto
qed (auto split: if_splits simp: page_after_def page_on_def stays_def handleRoomJoined_def handleParticipantsUpdate_def on_message_history_def
  on_chat_message_def)

lemma foldl_page_keys: "foldl page_after (Some p) evs = Some q \<Longrightarrow> rp_roomCode q = rp_roomCode p \<and> rp_room q = rp_room p"
proof (induction evs arbitrary: p)
  case (Cons ev evs)
  then show ?case using page_after_keys by (cases "page_after (Some p) ev") fastforce+
qed simp

lemma presence_then_list [simp]:
  "page_after (page_after (Some p) (EvUserJoined u n)) (EvParticipants ps) = Some (p\<lparr>rp_participants := ps\<rparr>)"
  "page_after (page_after (Some p) (EvUserLeft u)) (EvParticipants ps) = Some (p\<lparr>rp_participants := ps\<rparr>)"
  using page_after_presence(1) [of p u n] page_after_presence(2) [of p u] by auto

lemma controller_is_ignored:
  assumes "pre = [] \<or> (\<exists>c why. pre = [(Room code, EvController code c why)])"
  shows "foldl page_after (Some p) (heard gw (pre @ em) s) = foldl page_after (Some p) (heard gw em s)"
  using assms by (cases "s \<in> set (gw_rooms gw code)") (auto simp: heard_def reaches_def)

lemma deliver_error [simp]: "deliver_all gw [(Sock s, EvError e)] pages = pages"
  by (rule ext) (case_tac "pages x"; simp add: deliver_all_def heard_def reaches_def)

subsection \<open>The conversation kept\<close>

lemma js_insert_back: "\<forall>y\<in>set ys. c y x < 0 \<Longrightarrow> js_insert c x ys = ys @ [x]"
  by (induction ys) simp_all

lemma earlier_diff: "earlier a b \<Longrightarrow> cm_createdAt a - cm_createdAt b < 0"
  by (cases "cm_createdAt a"; cases "cm_createdAt b") (auto simp: earlier_def isFinite_def)

lemma newest_first_rev: "sorted_wrt earlier ms \<Longrightarrow> js_sort (\<lambda>a b. cm_createdAt b - cm_createdAt a) ms = rev ms"
  by (induction ms) (auto intro!: js_insert_back earlier_diff)

lemma history_is_tail:
  assumes "sorted_wrt earlier (db_messages db)"
  shows "chat_tail db rid (history db rid)"
proof -
  let ?ms = "filter (\<lambda>m. cm_roomId m = rid) (db_messages db)"
  have "history db rid = drop (length ?ms - 50) (room_chat db rid)"
    using newest_first_rev [OF sorted_wrt_filter [OF assms]]
    by (simp add: history_def Let_def rev_take drop_map room_chat_def)
  then show ?thesis by (auto simp: chat_tail_def room_chat_def intro!: exI [of _ "length ?ms - 50"])
qed

lemma chat_tail_append: "chat_tail db rid ms \<Longrightarrow> room_chat db' rid = room_chat db rid @ new \<Longrightarrow> chat_tail db' rid (ms @ new)"
  unfolding chat_tail_def
proof (elim exE conjE)
  fix k assume *: "room_chat db' rid = room_chat db rid @ new" "ms = drop k (room_chat db rid)" "k = 0 \<or> 50 \<le> length ms"
  show "\<exists>k. ms @ new = drop k (room_chat db' rid) \<and> (k = 0 \<or> 50 \<le> length (ms @ new))"
    using * by (intro exI [of _ k]) auto
qed

lemma chat_tail_same: "chat_tail db rid ms \<Longrightarrow> room_chat db' rid = room_chat db rid \<Longrightarrow> chat_tail db' rid ms"
  by (simp add: chat_tail_def)

subsection \<open>The rooms kept apart\<close>

lemma active_deactivate_other_room: "r \<noteq> rid \<Longrightarrow> active_in (deactivate ps u rid w) r = active_in ps r"
  by (induction ps) (auto simp: active_in_def deactivate_def is_row_def)

text \<open>Two databases in which a room looks the same: its row, who is there and what was said.\<close>

definition same_room :: "gw_db \<Rightarrow> gw_db \<Rightarrow> string \<Rightarrow> bool" where
  "same_room db db' c \<longleftrightarrow> map_option rm_id (db_rooms db' c) = map_option rm_id (db_rooms db c) \<and>
     (\<forall>room. db_rooms db c = Some room \<longrightarrow> present db' (rm_id room) = present db (rm_id room) \<and>
        room_chat db' (rm_id room) = room_chat db (rm_id room))"

definition shows_room :: "gw_db \<Rightarrow> room_page \<Rightarrow> string \<Rightarrow> bool" where
  "shows_room db p c \<longleftrightarrow> (\<exists>room. db_rooms db c = Some room \<and> rp_participants p = present db (rm_id room) \<and>
     chat_tail db (rm_id room) (rp_messages p))"

lemma shows_roomD: "shows_room db p c \<Longrightarrow> db_rooms db c = Some room \<Longrightarrow> rp_participants p = present db (rm_id room) \<and> chat_tail db (rm_id room) (rp_messages p)"
  by (simp add: shows_room_def)

lemma shows_same_room:
  assumes "same_room db db' c" "shows_room db p c"
  shows "shows_room db' p c"
proof -
  obtain room where room: "db_rooms db c = Some room" using assms(2) by (auto simp: shows_room_def)
  then obtain a where a: "db_rooms db' c = Some a" "rm_id a = rm_id room" using assms(1) by (auto simp: same_room_def)
  show ?thesis using shows_roomD [OF assms(2) room] assms(1) room a chat_tail_same [of db "rm_id room" "rp_messages p" db']
    by (simp add: same_room_def shows_room_def)
qed

definition page_fits :: "string set \<Rightarrow> 's gateway \<Rightarrow> gw_db \<Rightarrow> string \<Rightarrow> room_page \<Rightarrow> bool" where
  "page_fits J gw db s p \<longleftrightarrow> (\<exists>r. rp_room p = Some r \<and> pr_code r = rp_roomCode p) \<and> (settled J gw s p \<longrightarrow> shows_room db p (rp_roomCode p))"

definition party_ok :: "string set \<Rightarrow> 's party \<Rightarrow> bool" where
  "party_ok J w \<longleftrightarrow> db_ok (pa_db w) \<and> (\<forall>s p. pa_pages w s = Some p \<longrightarrow> page_fits J (pa_gw w) (pa_db w) s p)"

lemma page_fitsD: "page_fits J gw db s p \<Longrightarrow> settled J gw s p \<Longrightarrow> shows_room db p (rp_roomCode p)"
  by (auto simp: page_fits_def)

lemma party_okD: "party_ok J w \<Longrightarrow> pa_pages w s = Some p \<Longrightarrow> page_fits J (pa_gw w) (pa_db w) s p"
  by (simp add: party_ok_def)

lemma db_ok_id: "db_ok db \<Longrightarrow> db_rooms db c = Some a \<Longrightarrow> db_rooms db c' = Some b \<Longrightarrow> c \<noteq> c' \<Longrightarrow> rm_id a \<noteq> rm_id b"
  unfolding db_ok_def tables_ok_def by blast

text \<open>
  A step that touches one room. The rooms of all others are the same; pages settled in the room come to show it, and pages
  settled in another were settled there before and hear nothing.
\<close>

lemma party_ok_room_step:
  assumes ok: "party_ok J w" and db: "db_ok db" and other: "\<And>c. c \<noteq> code \<Longrightarrow> same_room (pa_db w) db c"
    and here: "\<And>s p q. pa_pages w s = Some p \<Longrightarrow> page_fits J (pa_gw w) (pa_db w) s p \<Longrightarrow> foldl page_after (Some p) (heard gw em s) = Some q \<Longrightarrow>
        rp_roomCode p = code \<Longrightarrow> settled J' gw s p \<Longrightarrow> shows_room db q code"
    and away: "\<And>s p. rp_roomCode p \<noteq> code \<Longrightarrow> settled J' gw s p \<Longrightarrow> settled J (pa_gw w) s p \<and> heard gw em s = []"
  shows "party_ok J' \<lparr>pa_gw = gw, pa_db = db, pa_pages = deliver_all gw em (pa_pages w)\<rparr>"
  unfolding party_ok_def
proof (intro conjI allI impI)
  show "db_ok (pa_db \<lparr>pa_gw = gw, pa_db = db, pa_pages = deliver_all gw em (pa_pages w)\<rparr>)" using db by simp
  fix s q assume "pa_pages \<lparr>pa_gw = gw, pa_db = db, pa_pages = deliver_all gw em (pa_pages w)\<rparr> s = Some q"
  then have q: "foldl page_after (pa_pages w s) (heard gw em s) = Some q" by (simp add: deliver_all_def)
  then obtain p where p: "pa_pages w s = Some p" by (cases "pa_pages w s") auto
  have fits: "page_fits J (pa_gw w) (pa_db w) s p" by (rule party_okD [OF ok p])
  have keys: "rp_roomCode q = rp_roomCode p" "rp_room q = rp_room p" using foldl_page_keys q p by auto
  have "shows_room db q (rp_roomCode q)" if "settled J' gw s q"
  proof (cases "rp_roomCode p = code")
    case True
    then show ?thesis using here [OF p fits q [unfolded p] True] that keys by (simp add: settled_def)
  next
    case False
    have "settled J' gw s p" using that keys by (simp add: settled_def)
    from away [OF False this] have "q = p" "shows_room (pa_db w) p (rp_roomCode p)" using q p page_fitsD [OF fits] by auto
    then show ?thesis using shows_same_room other [OF False] by simp
  qed
  then show "page_fits J' (pa_gw \<lparr>pa_gw = gw, pa_db = db, pa_pages = deliver_all gw em (pa_pages w)\<rparr>)
      (pa_db \<lparr>pa_gw = gw, pa_db = db, pa_pages = deliver_all gw em (pa_pages w)\<rparr>) s q"
    using fits keys by (simp add: page_fits_def)
qed

lemma heard_elsewhere: "s \<notin> set (gw_rooms gw code) \<Longrightarrow> heard gw [(Room code, ev)] s = []"
  by (simp add: heard_def reaches_def)

subsection \<open>Every step keeps the pages right\<close>

lemma same_room_refl [simp]: "same_room db db c"
  by (simp add: same_room_def)

lemma same_room_participants:
  "db_ok db \<Longrightarrow> db_rooms db code = Some room \<Longrightarrow> c \<noteq> code \<Longrightarrow>
   same_room db (db\<lparr>db_participants := upsert_participant (db_participants db) u (rm_id room) w\<rparr>) c"
  "db_ok db \<Longrightarrow> db_rooms db code = Some room \<Longrightarrow> c \<noteq> code \<Longrightarrow>
   same_room db (db\<lparr>db_participants := deactivate (db_participants db) u (rm_id room) w\<rparr>) c"
  by (auto simp: same_room_def present_def room_chat_def active_upsert_other_room active_deactivate_other_room db_ok_id)

lemma db_ok_participants: "db_ok db \<Longrightarrow> distinct (row_keys ps) \<Longrightarrow> db_ok (db\<lparr>db_participants := ps\<rparr>)"
  by (simp add: db_ok_def tables_ok_def)

lemma db_ok_keys: "db_ok db \<Longrightarrow> distinct (row_keys (db_participants db))"
  by (simp add: db_ok_def tables_ok_def)

lemma join_commit_emits:
  "\<exists>svc pre. join_commit ops gw db s u code room now wall lat =
      (join_gateway gw svc s u code, join_db db u room wall,
       pre @ [(Sock s, EvRoomJoined room (snd (ensureRoom ops (gw_svc gw) code (row_of room) now)) (present (join_db db u room wall) (rm_id room)) lat),
         (RoomBut code s, EvUserJoined u (db_usernames db u)), (RoomBut code s, EvParticipants (present (join_db db u room wall) (rm_id room)))] @
       handleGetMessageHistory (join_db db u room wall) s code @ [(Sock s, EvVoiceRoster code (roster_list (gw_roster gw) code))]) \<and>
      (pre = [] \<or> (\<exists>c. pre = [(Room code, EvController code c ByReclaim)]))"
  by (auto simp: join_commit_def join_gateway_def join_db_def Let_def split: prod.splits option.splits)

lemma join_keeps:
  assumes ok: "party_ok J w" and s: "pa_pages w s = Some p" "rp_roomCode p = code"
    and j: "handleJoinRoom ops (pa_gw w) (pa_db w) s u code now wall lat = (gw, db, em)"
    and J': "J' = (case join_admit (pa_db w) u code of JoinAdmitted room \<Rightarrow> insert s J | _ \<Rightarrow> J)"
  shows "party_ok J' \<lparr>pa_gw = gw, pa_db = db, pa_pages = deliver_all gw em (pa_pages w)\<rparr>"
proof (cases "join_admit (pa_db w) u code")
  case (JoinAdmitted room)
  have room: "db_rooms (pa_db w) code = Some room" using JoinAdmitted by (auto simp: join_admit_def split: option.splits if_splits)
  have dbok: "db_ok (pa_db w)" using ok by (simp add: party_ok_def)
  obtain svc pre t where e: "gw = join_gateway (pa_gw w) svc s u code" "db = join_db (pa_db w) u room wall"
      "em = pre @ [(Sock s, EvRoomJoined room t (present db (rm_id room)) lat), (RoomBut code s, EvUserJoined u (db_usernames (pa_db w) u)),
         (RoomBut code s, EvParticipants (present db (rm_id room))), (Sock s, EvHistory (history db (rm_id room))),
         (Sock s, EvVoiceRoster code (roster_list (gw_roster (pa_gw w)) code))]"
      "pre = [] \<or> (\<exists>c why. pre = [(Room code, EvController code c why)])"
    using join_commit_emits [of ops "pa_gw w" "pa_db w" s u code room now wall lat] j JoinAdmitted room
    by (auto simp: handleJoinRoom_def handleGetMessageHistory_def join_db_def)
  have chat: "room_chat db rid = room_chat (pa_db w) rid" for rid by (simp add: e(2) join_db_def room_chat_def)
  have db: "db_ok db" using dbok db_ok_keys [OF dbok] by (auto simp: e(2) join_db_def intro!: db_ok_participants simp: row_keys_upsert)
  have member: "x \<in> set (gw_rooms gw c) \<longleftrightarrow> x \<in> set (gw_rooms (pa_gw w) c) \<or> x = s \<and> c = code" for x c
    by (auto simp: e(1) join_gateway_def js_add_def)
  have before: "settled J (pa_gw w) x p'" if "settled J' gw x p'" "x \<noteq> s" for x p'
    using that JoinAdmitted by (simp add: settled_def member J')
  have row: "db_rooms db code = Some room" using room by (simp add: e(2) join_db_def)
  show ?thesis
  proof (rule party_ok_room_step [OF ok db])
    show "same_room (pa_db w) db c" if "c \<noteq> code" for c
      using same_room_participants(1) [OF dbok room that] by (simp add: e(2) join_db_def)
    show "settled J (pa_gw w) x p' \<and> heard gw em x = []" if "rp_roomCode p' \<noteq> code" "settled J' gw x p'" for x p'
    proof -
      have x: "x \<noteq> s" "x \<notin> set (gw_rooms gw code)" using that member by (auto simp: settled_def)
      then have "heard gw em x = []" using e(4) by (auto simp: e(3) heard_def reaches_def)
      then show ?thesis using before [OF that(2) x(1)] by simp
    qed
    fix x p' q assume x: "pa_pages w x = Some p'" "page_fits J (pa_gw w) (pa_db w) x p'" "foldl page_after (Some p') (heard gw em x) = Some q"
      "rp_roomCode p' = code" "settled J' gw x p'"
    show "shows_room db q code"
    proof (cases "x = s")
      case True
      then have "q = messages_changed (p\<lparr>rp_participants := present db (rm_id room), rp_messages := history db (rm_id room)\<rparr>)"
        using x(1,3) s unfolding e(3) controller_is_ignored [OF e(4)] by (simp add: heard_def reaches_def)
      then show ?thesis using row history_is_tail [of db "rm_id room"] db by (auto simp: shows_room_def db_ok_def)
    next
      case False
      have "x \<in> set (gw_rooms gw code)" using x(4,5) by (simp add: settled_def)
      then have "q = p'\<lparr>rp_participants := present db (rm_id room)\<rparr>"
        using x(3) False unfolding e(3) controller_is_ignored [OF e(4)] by (simp add: heard_def reaches_def)
      moreover have "chat_tail (pa_db w) (rm_id room) (rp_messages p')"
        using page_fitsD [OF x(2) before [OF x(5) False]] x(4) shows_roomD room by metis
      ultimately show ?thesis using chat_tail_same [OF _ chat] row by (simp add: shows_room_def)
    qed
  qed
next
  case JoinNotFound
  then have "gw = pa_gw w" "db = pa_db w" "em = [(Sock s, EvError ''Room not found or inactive'')]" using j by (simp_all add: handleJoinRoom_def)
  then show ?thesis using ok JoinNotFound J' by (cases w) simp
next
  case JoinFull
  then have "gw = pa_gw w" "db = pa_db w" "em = [(Sock s, EvError ''Room is full'')]" using j by (simp_all add: handleJoinRoom_def)
  then show ?thesis using ok JoinFull J' by (cases w) simp
qed

lemma request_keeps:
  assumes ok: "party_ok J w" and s: "\<And>p. pa_pages w s = Some p \<Longrightarrow> rp_roomCode p = code"
  shows "party_ok J (w\<lparr>pa_pages := deliver_all (pa_gw w) (handleRequestParticipants (pa_db w) s code) (pa_pages w)\<rparr>)"
proof -
  let ?em = "handleRequestParticipants (pa_db w) s code"
  have "page_fits J (pa_gw w) (pa_db w) x q" if d: "deliver_all (pa_gw w) ?em (pa_pages w) x = Some q" for x q
  proof -
    obtain p where p: "pa_pages w x = Some p" "foldl page_after (Some p) (heard (pa_gw w) ?em x) = Some q"
      using d by (cases "pa_pages w x") (auto simp: deliver_all_def)
    have q: "q = (case db_rooms (pa_db w) code of None \<Rightarrow> p | Some room \<Rightarrow> if x = s then p\<lparr>rp_participants := present (pa_db w) (rm_id room)\<rparr> else p)"
      using p(2) by (auto simp: handleRequestParticipants_def heard_def reaches_def split: option.splits if_splits)
    have fits: "page_fits J (pa_gw w) (pa_db w) x p" by (rule party_okD [OF ok p(1)])
    show ?thesis
    proof (cases "x = s \<and> db_rooms (pa_db w) code \<noteq> None")
      case False
      then have "q = p" using q by (auto split: option.splits)
      then show ?thesis using fits by simp
    next
      case True
      then obtain room where room: "db_rooms (pa_db w) code = Some room" "rp_roomCode p = code" using s p(1) by blast
      then have qp: "q = p\<lparr>rp_participants := present (pa_db w) (rm_id room)\<rparr>" using q True by simp
      have "settled J (pa_gw w) x q = settled J (pa_gw w) x p" by (simp add: qp settled_def)
      moreover have "shows_room (pa_db w) p code \<Longrightarrow> shows_room (pa_db w) q code" using room(1) by (simp add: qp shows_room_def)
      ultimately show ?thesis using fits room(2) by (simp add: page_fits_def qp)
    qed
  qed
  then show ?thesis using ok by (simp add: party_ok_def)
qed

lemma chat_keeps:
  assumes ok: "party_ok J w" and t: "isFinite wall" "\<forall>m\<in>set (db_messages (pa_db w)). cm_createdAt m < wall"
    and c: "handleChatMessage (pa_db w) s cd code msg fresh wall = (db, em)"
  shows "party_ok J (w\<lparr>pa_db := db, pa_pages := deliver_all (pa_gw w) em (pa_pages w)\<rparr>)"
proof (cases "db_rooms (pa_db w) code")
  case None
  then show ?thesis using ok c by (auto simp: handleChatMessage_def)
next
  case (Some room)
  let ?m = "\<lparr>cm_id = fresh, cm_content = msg, cm_userId = as_userId cd, cm_roomId = rm_id room, cm_createdAt = wall\<rparr>"
  let ?who = "(as_userId cd, db_usernames (pa_db w) (as_userId cd))"
  have dbok: "db_ok (pa_db w)" using ok by (simp add: party_ok_def)
  have e: "db = (pa_db w)\<lparr>db_messages := db_messages (pa_db w) @ [?m]\<rparr>" "em = [(Room code, EvChat ?m ?who)]"
    using c Some by (auto simp: handleChatMessage_def Let_def)
  have chat: "room_chat db (rm_id room) = room_chat (pa_db w) (rm_id room) @ [(?m, ?who)]" by (simp add: room_chat_def e(1))
  have "earlier m ?m" if "m \<in> set (db_messages (pa_db w))" for m
    using t that dbok by (simp add: earlier_def db_ok_def)
  then have db: "db_ok db" using dbok t(1) by (auto simp: db_ok_def tables_ok_def e(1) sorted_wrt_append)
  have "party_ok J \<lparr>pa_gw = pa_gw w, pa_db = db, pa_pages = deliver_all (pa_gw w) em (pa_pages w)\<rparr>"
  proof (rule party_ok_room_step [OF ok db])
    show "same_room (pa_db w) db x" if "x \<noteq> code" for x
      using db_ok_id [OF dbok Some _ that [symmetric]] by (auto simp: same_room_def e(1) present_def room_chat_def)
    show "settled J (pa_gw w) x p' \<and> heard (pa_gw w) em x = []" if "rp_roomCode p' \<noteq> code" "settled J (pa_gw w) x p'" for x p'
      using that heard_elsewhere [of x "pa_gw w" code] by (auto simp: settled_def e(2))
    fix x p' q assume x: "pa_pages w x = Some p'" "page_fits J (pa_gw w) (pa_db w) x p'" "foldl page_after (Some p') (heard (pa_gw w) em x) = Some q"
      "rp_roomCode p' = code" "settled J (pa_gw w) x p'"
    have "q = messages_changed (p'\<lparr>rp_messages := rp_messages p' @ [(?m, ?who)]\<rparr>)"
      using x(3-5) by (simp add: e(2) heard_def reaches_def settled_def)
    moreover have "rp_participants p' = present (pa_db w) (rm_id room)" "chat_tail (pa_db w) (rm_id room) (rp_messages p')"
      using page_fitsD [OF x(2,5)] shows_roomD Some x(4) by auto
    ultimately show "shows_room db q code" using Some chat_tail_append [OF _ chat] by (simp add: shows_room_def e(1) present_def)
  qed
  then show ?thesis by (cases w) simp
qed

lemma leave_emits:
  "\<exists>gw' pre db2. handleLeaveRoom ops gw db s code now wall =
      (gw', fst (leave_announce db2 s (socketToUser gw s) code wall), pre @ snd (leave_announce db2 s (socketToUser gw s) code wall)) \<and>
      gw_rooms gw' = (gw_rooms gw)(code := js_delete (gw_rooms gw code) s) \<and>
      (pre = [] \<or> (\<exists>c why. pre = [(Room code, EvController code c why)])) \<and> (db2 = db \<or> (\<exists>upd. db2 = update_row db code upd))"
proof -
  let ?socks = "js_delete (gw_rooms gw code) s"
  let ?gw = "gw\<lparr>userRooms := jm_del (userRooms gw) s, socketToUser := (socketToUser gw)(s := None),
    gw_rooms := (gw_rooms gw)(code := ?socks), gw_svc := dropSocket (gw_svc gw) s\<rparr>"
  obtain svc upd where r: "releaseRoom ops (dropSocket (gw_svc gw) s) code now = (svc, upd)" by fastforce
  obtain svc' change where c: "succession (dropSocket (gw_svc gw) s) code (nullish (socketToUser gw s) []) (candidate ?gw ?socks) = (svc', change)"
    by fastforce
  let ?db = "case upd of None \<Rightarrow> db | Some u \<Rightarrow> update_row db code u"
  let ?pre = "case change of None \<Rightarrow> [] | Some c \<Rightarrow> [(Room code, EvController code c BySuccession)]"
  have pre: "?pre = [] \<or> (\<exists>c why. ?pre = [(Room code, EvController code c why)])" by (cases change) auto
  have db: "?db = db \<or> (\<exists>upd. ?db = update_row db code upd)" by (cases upd) auto
  show ?thesis
  proof (cases "?socks = []")
    case True
    then show ?thesis using r db by (intro exI [of _ "?gw\<lparr>roomHosts := (roomHosts ?gw)(code := None), gw_svc := svc\<rparr>"] exI [of _ "[]"] exI [of _ ?db])
      (simp add: handleLeaveRoom_def Let_def split_beta)
  next
    case False
    show ?thesis
    proof (cases "truthy (socketToUser gw s)")
      case True
      then show ?thesis using False c pre by (intro exI [of _ "?gw\<lparr>gw_svc := svc', roomHosts :=
          (if roomHosts ?gw code = Some (nullish (socketToUser gw s) []) \<and> truthy (candidate ?gw ?socks) then (roomHosts ?gw)(code := candidate ?gw ?socks) else roomHosts ?gw)\<rparr>"]
          exI [of _ ?pre] exI [of _ db]) (simp add: handleLeaveRoom_def Let_def split_beta)
    next
      case untold: False
      then show ?thesis using False by (intro exI [of _ ?gw] exI [of _ "[]"] exI [of _ db]) (simp add: handleLeaveRoom_def Let_def split_beta)
    qed
  qed
qed

lemma update_row_keeps:
  "db_ok db \<Longrightarrow> db_ok (update_row db code upd)" "same_room db (update_row db code upd) c"
  by (auto simp: db_ok_def tables_ok_def update_row_def same_room_def present_def room_chat_def option.map_comp comp_def split: if_splits option.splits)

lemma leave_announce_cases:
  obtains "leave_announce db s user code wall = (db, [])"
  | room u db' where "db_rooms db code = Some room" "db' = db\<lparr>db_participants := deactivate (db_participants db) u (rm_id room) wall\<rparr>"
    "leave_announce db s user code wall = (db', [(RoomBut code s, EvUserLeft u), (Room code, EvParticipants (present db' (rm_id room)))])"
proof (cases "db_rooms db code = None \<or> user = None \<or> user = Some []")
  case True
  then have "leave_announce db s user code wall = (db, [])" by (auto simp: leave_announce_def split: option.splits)
  then show thesis by (rule that(1))
next
  case False
  then obtain room u where ru: "db_rooms db code = Some room" "user = Some u" "u \<noteq> []" by auto
  then show thesis by (intro that(2) [OF ru(1) HOL.refl, of u]) (simp add: leave_announce_def Let_def)
qed

lemma same_room_trans: "same_room a b c \<Longrightarrow> same_room b e c \<Longrightarrow> same_room a e c"
  by (cases "db_rooms b c") (auto simp: same_room_def)

lemma disconnect_keeps:
  assumes ok: "party_ok J w" and d: "handleDisconnect ops (pa_gw w) (pa_db w) s now wall = (gw, db, em)"
  shows "party_ok J \<lparr>pa_gw = gw, pa_db = db, pa_pages = deliver_all gw em (pa_pages w)\<rparr>"
proof -
  let ?gw = "(pa_gw w)\<lparr>gw_rooms := (\<lambda>r. js_delete (gw_rooms (pa_gw w) r) s), gw_sockets := (gw_sockets (pa_gw w))(s := None)\<rparr>"
  define code where "code = nullish (jm_get (userRooms (pa_gw w)) s) []"
  have dbok: "db_ok (pa_db w)" using ok by (simp add: party_ok_def)
  show ?thesis
  proof (cases "truthy (jm_get (userRooms (pa_gw w)) s)")
    case False
    then have e: "gw = ?gw" "db = pa_db w" "em = []" using d by (auto simp: handleDisconnect_def Let_def)
    have st: "settled J (pa_gw w) x p" if "settled J ?gw x p" for x p using that by (auto simp: settled_def js_delete_def)
    show ?thesis unfolding e
      by (rule party_ok_room_step [OF ok dbok, where code = "[]"]) (auto simp: heard_def dest!: st dest: page_fitsD)
  next
    case True
    have h: "handleLeaveRoom ops ?gw (pa_db w) s code now wall = (gw, db, em)" using d True by (simp add: handleDisconnect_def Let_def code_def)
    define user where "user = socketToUser (pa_gw w) s"
    obtain db2 pre where e: "gw_rooms gw = (gw_rooms ?gw)(code := js_delete (gw_rooms ?gw code) s)"
        "db = fst (leave_announce db2 s user code wall)" "em = pre @ snd (leave_announce db2 s user code wall)"
        "pre = [] \<or> (\<exists>c why. pre = [(Room code, EvController code c why)])" "db2 = pa_db w \<or> (\<exists>upd. db2 = update_row (pa_db w) code upd)"
      using leave_emits [of ops ?gw "pa_db w" s code now wall] unfolding h prod.inject by (elim exE conjE) (rule that; simp add: user_def)
    have db2: "db_ok db2" "\<And>c. same_room (pa_db w) db2 c" using e(5) dbok update_row_keeps by auto
    have members: "x \<in> set (gw_rooms gw c) \<longleftrightarrow> x \<in> set (gw_rooms (pa_gw w) c) \<and> x \<noteq> s" for x c
      by (auto simp: e(1) js_delete_def)
    have st: "settled J (pa_gw w) x p" if "settled J gw x p" for x p using that by (auto simp: settled_def members)
    have "db_ok db \<and> (\<forall>c. c \<noteq> code \<longrightarrow> same_room db2 db c)"
      by (rule leave_announce_cases [of db2 s user code wall])
        (simp_all add: e(2) db2(1) db_ok_participants db_ok_keys same_room_participants(2))
    then have db: "db_ok db" and other: "\<And>c. c \<noteq> code \<Longrightarrow> same_room db2 db c" by blast+
    show ?thesis
    proof (rule party_ok_room_step [OF ok db])
      show "same_room (pa_db w) db c" if "c \<noteq> code" for c using same_room_trans db2(2) other [OF that] by blast
      show "settled J (pa_gw w) x p \<and> heard gw em x = []" if "rp_roomCode p \<noteq> code" "settled J gw x p" for x p
      proof -
        have "x \<notin> set (gw_rooms gw code)" using that by (auto simp: settled_def)
        then have "heard gw em x = []" using e(4)
          by (cases rule: leave_announce_cases [of db2 s user code wall]) (auto simp: e(3) heard_def reaches_def)
        then show ?thesis using st [OF that(2)] by simp
      qed
      fix x p q assume x: "page_fits J (pa_gw w) (pa_db w) x p" "foldl page_after (Some p) (heard gw em x) = Some q"
        "rp_roomCode p = code" "settled J gw x p"
      have q: "foldl page_after (Some p) (heard gw (snd (leave_announce db2 s user code wall)) x) = Some q"
        using x(2) unfolding e(3) controller_is_ignored [OF e(4)] .
      have p: "x \<in> set (gw_rooms gw code)" "shows_room db2 p code" "x \<noteq> s"
        using page_fitsD [OF x(1) st [OF x(4)]] x(3,4) shows_same_room [OF db2(2)] by (auto simp: settled_def members)
      show "shows_room db q code"
      proof (rule leave_announce_cases [of db2 s user code wall])
        assume "leave_announce db2 s user code wall = (db2, [])"
        then show ?thesis using q p e(2) by (simp add: heard_def)
      next
        fix room u db' assume l: "db_rooms db2 code = Some room" "db' = db2\<lparr>db_participants := deactivate (db_participants db2) u (rm_id room) wall\<rparr>"
          "leave_announce db2 s user code wall = (db', [(RoomBut code s, EvUserLeft u), (Room code, EvParticipants (present db' (rm_id room)))])"
        then have "q = p\<lparr>rp_participants := present db (rm_id room)\<rparr>" using q p(1,3) by (simp add: e(2) heard_def reaches_def)
        moreover have "chat_tail db (rm_id room) (rp_messages p)"
          using shows_roomD [OF p(2) l(1)] chat_tail_same by (simp add: e(2) l(3)) (simp add: l(2) room_chat_def chat_tail_def)
        ultimately show ?thesis using l by (simp add: shows_room_def e(2))
      qed
    qed
  qed
qed

lemma end_keeps:
  assumes ok: "party_ok J w"
  shows "party_ok J (w\<lparr>pa_db := end_room (pa_db w) code, pa_pages := deliver_all (pa_gw w) (announceRoomClosed code) (pa_pages w)\<rparr>)"
proof -
  let ?db = "end_room (pa_db w) code"
  have dbok: "db_ok (pa_db w)" using ok by (simp add: party_ok_def)
  have db: "db_ok ?db" using dbok
    by (cases "db_rooms (pa_db w) code") (auto simp: end_room_def db_ok_def tables_ok_def row_keys_def distinct_map_filter intro: sorted_wrt_filter)
  have "party_ok J \<lparr>pa_gw = pa_gw w, pa_db = ?db, pa_pages = deliver_all (pa_gw w) (announceRoomClosed code) (pa_pages w)\<rparr>"
  proof (rule party_ok_room_step [OF ok db, where code = code])
    show "same_room (pa_db w) ?db c" if "c \<noteq> code" for c
    proof (cases "db_rooms (pa_db w) code")
      case (Some room)
      have "rm_id r \<noteq> rm_id room" if "db_rooms (pa_db w) c = Some r" for r using db_ok_id [OF dbok that Some \<open>c \<noteq> code\<close>] .
      then show ?thesis using Some that
        by (auto simp: end_room_def same_room_def present_def active_in_def room_chat_def intro!: arg_cong [where f = "map f" for f] filter_cong)
    qed (simp add: end_room_def)
    show "settled J (pa_gw w) x p \<and> heard (pa_gw w) (announceRoomClosed code) x = []" if "rp_roomCode p \<noteq> code" "settled J (pa_gw w) x p" for x p
      using that by (auto simp: settled_def announceRoomClosed_def heard_def reaches_def)
    fix x p q assume x: "foldl page_after (Some p) (heard (pa_gw w) (announceRoomClosed code) x) = Some q" "rp_roomCode p = code" "settled J (pa_gw w) x p"
    then have False by (auto simp: announceRoomClosed_def heard_def reaches_def settled_def split: if_splits)
    then show "shows_room ?db q code" ..
  qed
  then show ?thesis by (cases w) simp
qed

lemma with_page_keeps:
  assumes "party_ok J w" "\<And>q. p = Some q \<Longrightarrow> page_fits J (pa_gw w) (pa_db w) s q"
  shows "party_ok J (with_page w s p)"
  using assms by (simp add: party_ok_def with_page_def)

lemma party_ok_fewer: "party_ok J w \<Longrightarrow> J' \<subseteq> J \<Longrightarrow> party_ok J' w"
  by (auto simp: party_ok_def page_fits_def settled_def)

lemma page_fits_same:
  "page_fits J gw db s p \<Longrightarrow> rp_room q = rp_room p \<Longrightarrow> rp_roomCode q = rp_roomCode p \<Longrightarrow> rp_participants q = rp_participants p \<Longrightarrow>
   rp_messages q = rp_messages p \<Longrightarrow> page_fits J gw db s q"
  by (simp add: page_fits_def shows_room_def settled_def)

lemma on_page_keeps: "party_ok J w \<Longrightarrow> (\<And>p. pa_pages w s = Some p \<Longrightarrow> party_ok J (f p)) \<Longrightarrow> party_ok J (on_page w s f)"
  by (simp add: on_page_def split: option.splits)

lemma joins_keeps:
  assumes ok: "party_ok J w" and p: "pa_pages w s = Some p"
  shows "party_ok (let_in J w (TabJoins s now wall lat)) (foldl (serve ops s f now wall lat) w (page_join p True True))"
proof -
  obtain r where r: "rp_room p = Some r" "pr_code r = rp_roomCode p" using party_okD [OF ok p] by (auto simp: page_fits_def)
  let ?c = "rp_roomCode p" and ?J = "let_in J w (TabJoins s now wall lat)"
  define w1 where w1: "w1 = serve ops s f now wall lat w (EmitJoin ?c)"
  have w: "party_ok ?J w1 \<and> (\<forall>q. pa_pages w1 s = Some q \<longrightarrow> rp_roomCode q = ?c)"
  proof (cases "gw_sockets (pa_gw w) s")
    case None
    then show ?thesis using ok p by (simp add: w1 serve_def let_in_def)
  next
    case (Some cd)
    obtain gw db em where j: "handleJoinRoom ops (pa_gw w) (pa_db w) s (as_userId cd) ?c now wall lat = (gw, db, em)" by (metis prod_cases3)
    have "w1 = \<lparr>pa_gw = gw, pa_db = db, pa_pages = deliver_all gw em (pa_pages w)\<rparr>" using Some j by (simp add: w1 serve_def)
    then show ?thesis using join_keeps [OF ok p HOL.refl j, of ?J] p Some foldl_page_keys by (auto simp: deliver_all_def let_in_def)
  qed
  have "party_ok ?J (serve ops s f now wall lat w1 (EmitRequestParticipants ?c))"
  proof (cases "gw_sockets (pa_gw w1) s")
    case (Some cd)
    then have e: "serve ops s f now wall lat w1 (EmitRequestParticipants ?c) =
        w1\<lparr>pa_pages := deliver_all (pa_gw w1) (handleRequestParticipants (pa_db w1) s ?c) (pa_pages w1)\<rparr>" by (simp add: serve_def)
    show ?thesis unfolding e by (rule request_keeps) (use w in blast)+
  qed (use w in \<open>simp add: serve_def\<close>)
  then show ?thesis using r by (simp add: page_join_def w1)
qed

lemma sends_keeps:
  assumes ok: "party_ok J w" and p: "pa_pages w s = Some p" and t: "stamped w (TabSends s fresh wall)"
  shows "party_ok J (let (p', effs) = sendMessage p True True in foldl (serve ops s fresh 0 wall 0) (with_page w s (Some p')) effs)"
proof -
  obtain p' effs where sm: "sendMessage p True True = (p', effs)" by fastforce
  have same: "rp_room p' = rp_room p" "rp_roomCode p' = rp_roomCode p" "rp_participants p' = rp_participants p" "rp_messages p' = rp_messages p"
    "effs = [] \<or> (\<exists>c m. effs = [EmitChat c m])" using sm by (auto simp: sendMessage_def split: if_splits option.splits)
  have w: "party_ok J (with_page w s (Some p'))"
    using with_page_keeps [OF ok, of "Some p'"] page_fits_same [OF party_okD [OF ok p] same(1-4)] by simp
  have "party_ok J (serve ops s fresh 0 wall 0 (with_page w s (Some p')) (EmitChat c m))" for c m
  proof (cases "gw_sockets (pa_gw w) s")
    case (Some cd)
    obtain db em where h: "handleChatMessage (pa_db (with_page w s (Some p'))) s cd c m fresh wall = (db, em)" by fastforce
    show ?thesis using chat_keeps [OF w _ _ h] t Some h by (simp add: serve_def stamped_def with_page_def)
  qed (use w in \<open>simp add: serve_def with_page_def\<close>)
  then show ?thesis using same(5) w by (auto simp: sm)
qed

lemma opens_keeps:
  assumes ok: "party_ok J w"
  shows "party_ok (J - {s}) (with_page w s (stays (fetchRoomDetails (new_page code) (room_answer (pa_db w) code))))"
proof (rule with_page_keeps [OF party_ok_fewer [OF ok]])
  fix q assume q: "stays (fetchRoomDetails (new_page code) (room_answer (pa_db w) code)) = Some q"
  then obtain room where room: "db_rooms (pa_db w) code = Some room" by (cases "db_rooms (pa_db w) code") (auto simp: room_answer_def fetchRoomDetails_def stays_def)
  then have "rm_code room = code" using ok by (simp add: party_ok_def db_ok_def)
  then show "page_fits (J - {s}) (pa_gw w) (pa_db w) s q"
    using q room by (auto simp: room_answer_def fetchRoomDetails_def stays_def new_page_def room_of_page_def page_fits_def settled_def split: if_splits)
qed blast

lemma leave_serves_nothing: "foldl (serve ops s f now wall lat) w (page_leave p has) = w"
  by (cases "gw_sockets (pa_gw w) s"; cases "rp_room p") (simp_all add: page_leave_def serve_def)

lemma party_step_keeps:
  assumes ok: "party_ok J w" and "stamped w ev"
  shows "party_ok (let_in J w ev) (party_step ops w ev)"
proof (cases ev)
  case (TabConnects s cd)
  then show ?thesis using ok by (simp add: party_step_def let_in_def party_ok_def page_fits_def settled_def)
next
  case (TabOpens s code)
  then show ?thesis using opens_keeps [OF ok, of s code] with_page_keeps [OF party_ok_fewer [OF ok], of "J - {s}" None s]
    by (auto simp: party_step_def let_in_def)
next
  case (TabJoins s now wall lat)
  show ?thesis
  proof (cases "pa_pages w s")
    case None
    then show ?thesis using ok TabJoins by (simp add: party_step_def on_page_def let_in_def)
  next
    case (Some p)
    then show ?thesis using joins_keeps [OF ok Some] TabJoins by (simp add: party_step_def on_page_def)
  qed
next
  case (TabTypes s msg)
  then show ?thesis using ok
    by (auto simp: party_step_def let_in_def intro!: on_page_keeps with_page_keeps intro: page_fits_same [OF party_okD [OF ok]])
next
  case (TabSends s fresh wall)
  then show ?thesis using ok assms(2) sends_keeps by (auto simp: party_step_def let_in_def simp del: split_paired_All intro!: on_page_keeps)
next
  case (TabScrolls s a b c)
  then show ?thesis using ok
    by (auto simp: party_step_def let_in_def on_chat_scroll_def Let_def intro!: on_page_keeps with_page_keeps intro: page_fits_same [OF party_okD [OF ok]])
next
  case (TabLeaves s)
  have "stays (p, page_leave p True) = None" for p by (simp add: stays_def page_leave_def)
  then show ?thesis using ok by (auto simp: TabLeaves party_step_def let_in_def leave_serves_nothing intro!: on_page_keeps with_page_keeps)
next
  case (TabDisconnects s now wall)
  obtain gw db em where d: "handleDisconnect ops (pa_gw w) (pa_db w) s now wall = (gw, db, em)" by (metis prod_cases3)
  show ?thesis using disconnect_keeps [OF ok d] by (simp add: TabDisconnects party_step_def let_in_def d)
next
  case (TabMoves s s')
  have few: "party_ok (J - {s, s'}) w" by (rule party_ok_fewer [OF ok]) blast
  have "page_fits (J - {s, s'}) (pa_gw w) (pa_db w) s' q" if "pa_pages w s = Some q" for q
    using party_okD [OF ok that] by (simp add: page_fits_def settled_def)
  then show ?thesis using with_page_keeps [OF with_page_keeps [OF few, of None s], of "pa_pages w s" s']
    by (simp add: TabMoves party_step_def let_in_def with_page_def)
next
  case (RoomEnds code)
  then show ?thesis using end_keeps [OF ok] by (simp add: party_step_def let_in_def)
qed

lemma party_run_keeps: "party_run ops w0 J w \<Longrightarrow> party_ok {} w0 \<Longrightarrow> party_ok J w"
  by (induction rule: party_run.induct) (simp_all add: party_step_keeps)

lemma present_distinct: "db_ok db \<Longrightarrow> distinct (map fst (present db rid))"
proof -
  assume "db_ok db"
  then have "distinct (row_keys (active_in (db_participants db) rid))" using db_ok_keys by (auto simp: row_keys_def active_in_def distinct_map_filter)
  moreover have "row_keys (active_in (db_participants db) rid) = map (\<lambda>u. (u, rid)) (map fst (present db rid))"
    by (simp add: row_keys_def active_in_def present_def comp_def)
  ultimately show ?thesis by (simp add: distinct_map del: map_map)
qed

text \<open>
  C26. What the page of a room shows is the room. However tabs connect, open rooms, join, type, send, scroll, leave, open
  another room on the same connection, lose their connection and come back on another, and however rooms are ended: take
  any page the gateway has let into its room since it was opened, whose connection is up and in no other room. Its
  room exists, the participants it lists are exactly the active ones in the database, each once, and its conversation is
  the end of the room's conversation in its order: all of it, or at least the last fifty messages. This holds whatever the
  connections of the others are in; a connection that is in a second room, because leaving a room does not take
  it out, also hears the first, and nothing is claimed of its page. Messages are stamped one after the other.
\<close>

theorem pages_show_the_room:
  assumes "party_run ops w0 J w" "db_ok (pa_db w0)" "pa_pages w0 = (\<lambda>s. None)"
    and "pa_pages w s = Some p" "s \<in> J" "s \<in> set (gw_rooms (pa_gw w) (rp_roomCode p))"
    and "\<forall>c. s \<in> set (gw_rooms (pa_gw w) c) \<longrightarrow> c = rp_roomCode p"
  shows "\<exists>room. db_rooms (pa_db w) (rp_roomCode p) = Some room \<and> rp_participants p = present (pa_db w) (rm_id room) \<and>
    distinct (map fst (rp_participants p)) \<and> chat_tail (pa_db w) (rm_id room) (rp_messages p)"
proof -
  have ok: "party_ok J w" using party_run_keeps [OF assms(1)] assms(2,3) by (simp add: party_ok_def)
  have "settled J (pa_gw w) s p" unfolding settled_def using assms(5-7) by blast
  then have "shows_room (pa_db w) p (rp_roomCode p)" by (rule page_fitsD [OF party_okD [OF ok assms(4)]])
  then obtain room where room: "db_rooms (pa_db w) (rp_roomCode p) = Some room" "rp_participants p = present (pa_db w) (rm_id room)"
    "chat_tail (pa_db w) (rm_id room) (rp_messages p)" unfolding shows_room_def by blast
  have "db_ok (pa_db w)" using ok by (simp add: party_ok_def)
  from present_distinct [OF this, of "rm_id room"] room show ?thesis by simp
qed

definition quiet_party :: "mem_store party" where
  "quiet_party = \<lparr>pa_gw = empty_gateway mem_empty, pa_db = demo_db, pa_pages = (\<lambda>s. None)\<rparr>"

definition opened_party :: "mem_store party" where
  "opened_party = party_step mem_ops (party_step mem_ops quiet_party (TabConnects ''s1'' (demo_socket ''ann'' 1))) (TabOpens ''s1'' ''b'')"

lemma quiet_db_ok: "db_ok demo_db"
  using demo_db_ok(1) by (auto simp: db_ok_def demo_db_def demo_room_def split: if_splits)

lemma opened_page:
  "\<exists>p. pa_pages opened_party ''s1'' = Some p \<and> rp_room p = Some (room_of_page (demo_room ''b'' None)) \<and> rp_roomCode p = ''b''"
  "gw_sockets (pa_gw opened_party) ''s1'' = Some (demo_socket ''ann'' 1)" "pa_db opened_party = demo_db"
  "gw_rooms (pa_gw opened_party) c = []"
  by (simp_all add: opened_party_def quiet_party_def party_step_def page_start_def with_page_def empty_gateway_def fetchRoomDetails_def room_answer_def
    new_page_def stays_def demo_db_def demo_room_def room_of_page_def)

lemma page_after_stays: "\<forall>c. ev \<noteq> EvClosed c \<Longrightarrow> page_after (Some p) ev \<noteq> None"
  by (cases ev) (auto simp: page_after_def page_on_def stays_def handleRoomJoined_def handleUserJoined_def handleUserLeft_def split: option.splits)

lemma pages_stay: "\<forall>c. EvClosed c \<notin> set evs \<Longrightarrow> foldl page_after (Some p) evs \<noteq> None"
proof (induction evs arbitrary: p)
  case (Cons ev evs)
  then show ?case using page_after_stays [of ev p] by (cases "page_after (Some p) ev") auto
qed simp

lemma joined_page:
  "\<exists>w p. party_step mem_ops opened_party (TabJoins ''s1'' 1 1 0) = w \<and> pa_pages w ''s1'' = Some p \<and> rp_roomCode p = ''b'' \<and>
     (\<forall>c. ''s1'' \<in> set (gw_rooms (pa_gw w) c) \<longleftrightarrow> c = ''b'') \<and> let_in {} opened_party (TabJoins ''s1'' 1 1 0) = {''s1''} \<and>
     pa_db w = join_db demo_db ''ann'' (demo_room ''b'' None) 1"
proof -
  obtain p where p: "pa_pages opened_party ''s1'' = Some p" "rp_room p = Some (room_of_page (demo_room ''b'' None))" "rp_roomCode p = ''b''"
    using opened_page(1) by blast
  let ?db = "join_db demo_db ''ann'' (demo_room ''b'' None) 1"
  have admit: "join_admit demo_db ''ann'' ''b'' = JoinAdmitted (demo_room ''b'' None)" by (simp add: join_admit_def demo_db_def demo_room_def)
  obtain gw svc em where j: "handleJoinRoom mem_ops (pa_gw opened_party) demo_db ''s1'' ''ann'' ''b'' 1 1 0 = (gw, ?db, em)"
      "gw = join_gateway (pa_gw opened_party) svc ''s1'' ''ann'' ''b''" "\<forall>c. EvClosed c \<notin> snd ` set em"
    using join_commit_emits [of mem_ops "pa_gw opened_party" demo_db "''s1''" "''ann''" "''b''" "demo_room ''b'' None" 1 1 0] admit
    by (auto simp: handleJoinRoom_def handleGetMessageHistory_def split: option.splits)
  obtain q where q: "deliver_all gw em (pa_pages opened_party) ''s1'' = Some q"
    using pages_stay [of "heard gw em ''s1''" p] j(3) p(1) unfolding deliver_all_def by (fastforce simp: heard_def)
  have qk: "rp_roomCode q = ''b''" using q p(1,3) foldl_page_keys unfolding deliver_all_def by metis
  let ?w = "\<lparr>pa_gw = gw, pa_db = ?db, pa_pages = deliver_all gw em (pa_pages opened_party)\<rparr>"
  have sock: "gw_sockets gw ''s1'' = Some (demo_socket ''ann'' 1)" by (simp add: j(2) join_gateway_def opened_page(2))
  have "party_step mem_ops opened_party (TabJoins ''s1'' 1 1 0) =
      ?w\<lparr>pa_pages := deliver_all gw (handleRequestParticipants ?db ''s1'' ''b'') (pa_pages ?w)\<rparr>"
    using p j(1) sock by (simp add: party_step_def on_page_def page_join_def room_of_page_def serve_def opened_page demo_room_def demo_socket_def)
  moreover obtain r where r: "deliver_all gw (handleRequestParticipants ?db ''s1'' ''b'') (pa_pages ?w) ''s1'' = Some r"
  proof -
    have "\<forall>c. EvClosed c \<notin> set (heard gw (handleRequestParticipants ?db ''s1'' ''b'') ''s1'')"
      by (auto simp: heard_def handleRequestParticipants_def split: option.splits)
    from pages_stay [OF this, of q] q show thesis by (auto simp: deliver_all_def intro: that)
  qed
  moreover have "rp_roomCode r = ''b''" using r q qk foldl_page_keys by (simp add: deliver_all_def)
  moreover have "''s1'' \<in> set (gw_rooms gw c) \<longleftrightarrow> c = ''b''" for c by (auto simp: j(2) join_gateway_def js_add_def opened_page(4))
  moreover have "let_in {} opened_party (TabJoins ''s1'' 1 1 0) = {''s1''}"
    using admit p opened_page(2,3) by (simp add: let_in_def demo_socket_def)
  ultimately show ?thesis by auto
qed

theorem pages_show_the_room_witness:
  "\<exists>p. pa_pages (party_step mem_ops opened_party (TabJoins ''s1'' 1 1 0)) ''s1'' = Some p \<and> rp_participants p = [(''ann'', ''ann'')]"
proof -
  let ?w = "party_step mem_ops opened_party (TabJoins ''s1'' 1 1 0)"
  have "party_run mem_ops quiet_party {} opened_party"
    using party_run.step [OF party_run.step [OF party_run.start], of quiet_party "TabConnects ''s1'' (demo_socket ''ann'' 1)" mem_ops "TabOpens ''s1'' ''b''"]
    by (simp add: opened_party_def stamped_def let_in_def)
  from party_run.step [OF this, of "TabJoins ''s1'' 1 1 0"]
  have run: "party_run mem_ops quiet_party (let_in {} opened_party (TabJoins ''s1'' 1 1 0)) ?w" by (simp add: stamped_def)
  obtain p where p: "pa_pages ?w ''s1'' = Some p" "rp_roomCode p = ''b''" "\<forall>c. ''s1'' \<in> set (gw_rooms (pa_gw ?w) c) \<longleftrightarrow> c = ''b''"
    "let_in {} opened_party (TabJoins ''s1'' 1 1 0) = {''s1''}"
    "pa_db ?w = join_db demo_db ''ann'' (demo_room ''b'' None) 1" using joined_page by blast
  have start: "db_ok (pa_db quiet_party)" "pa_pages quiet_party = (\<lambda>s. None)" by (simp_all add: quiet_party_def quiet_db_ok)
  have here: "''s1'' \<in> let_in {} opened_party (TabJoins ''s1'' 1 1 0)" "''s1'' \<in> set (gw_rooms (pa_gw ?w) (rp_roomCode p))"
    "\<forall>c. ''s1'' \<in> set (gw_rooms (pa_gw ?w) c) \<longrightarrow> c = rp_roomCode p"
    unfolding p(2,4) using p(3) by blast+
  have "\<exists>room. db_rooms (pa_db ?w) ''b'' = Some room \<and> rp_participants p = present (pa_db ?w) (rm_id room)"
    using pages_show_the_room [OF run start p(1) here] unfolding p(2) by blast
  then have "rp_participants p = [(''ann'', ''ann'')]" unfolding p(5)
    by (simp add: join_db_def demo_db_def demo_room_def present_def active_in_def upsert_participant_def)
  then show ?thesis using p(1) by blast
qed

subsection \<open>What leaving does not do\<close>

text \<open>
  The leave button says that the room was left, but nothing happens on the server: the socket stays in the room
  and every other page keeps listing who left.
\<close>

lemma leave_button_leaves_nothing:
  "pa_gw (party_step ops w (TabLeaves s)) = pa_gw w \<and> pa_db (party_step ops w (TabLeaves s)) = pa_db w \<and>
   (\<forall>s'. s' \<noteq> s \<longrightarrow> pa_pages (party_step ops w (TabLeaves s)) s' = pa_pages w s')"
  by (auto simp: party_step_def on_page_def leave_serves_nothing with_page_def split: option.splits)

text \<open>
  The next room opened on such a socket then shows the list of the room it left whenever somebody comes or goes
  there: the lists carry no room, unlike the end of a room, which is compared with the page's own.
\<close>

lemma stray_list_replaces_own:
  assumes "s \<in> set (gw_rooms gw old)" "pages s = Some p" "rp_roomCode p \<noteq> old" "old \<noteq> []"
  shows "deliver_all gw [(Room old, EvParticipants ps)] pages s = Some (p\<lparr>rp_participants := ps\<rparr>)"
    "deliver_all gw (announceRoomClosed old) pages s = Some p"
  using assms by (simp_all add: deliver_all_def heard_def reaches_def announceRoomClosed_def)

text \<open>
  Somebody with two tabs in a room is struck from the list when one of them closes, while the other is still there.
\<close>

lemma deactivated: "list_all (\<lambda>p. p_userId p \<noteq> u) (active_in (deactivate ps u rid w) rid)"
  unfolding list_all_iff
proof
  fix p assume "p \<in> set (active_in (deactivate ps u rid w) rid)"
  then obtain x where "p = (if is_row u rid x then x\<lparr>p_isActive := False, p_leftAt := Some w\<rparr> else x)" "p_roomId p = rid" "p_isActive p"
    unfolding active_in_def deactivate_def set_filter set_map by blast
  then show "p_userId p \<noteq> u" by (cases "is_row u rid x") (auto simp: is_row_def)
qed

lemma closing_one_tab_unlists:
  assumes "handleDisconnect ops gw db s now wall = (gw', db', em)" "jm_get (userRooms gw) s = Some code" "code \<noteq> []"
    and "socketToUser gw s = Some u" "u \<noteq> []" "db_rooms db code = Some room" "s' \<in> set (gw_rooms gw code)" "s' \<noteq> s"
  shows "s' \<in> set (gw_rooms gw' code) \<and> u \<notin> fst ` set (present db' (rm_id room))"
proof -
  let ?gw = "gw\<lparr>gw_rooms := (\<lambda>r. js_delete (gw_rooms gw r) s), gw_sockets := (gw_sockets gw)(s := None)\<rparr>"
  have h: "handleLeaveRoom ops ?gw db s code now wall = (gw', db', em)"
    using assms(1-3) by (simp add: handleDisconnect_def Let_def truthy_def nullish_def)
  obtain db2 where e: "gw_rooms gw' = (gw_rooms ?gw)(code := js_delete (gw_rooms ?gw code) s)" "db' = fst (leave_announce db2 s (Some u) code wall)"
      "db2 = db \<or> (\<exists>upd. db2 = update_row db code upd)"
    using leave_emits [of ops ?gw db s code now wall] unfolding h prod.inject by (elim exE conjE) (rule that; simp add: assms(4))
  obtain r where r: "db_rooms db2 code = Some r" "rm_id r = rm_id room" using e(3) assms(6) by (auto simp: update_row_def)
  have "db_participants db' = deactivate (db_participants db2) u (rm_id room) wall"
    unfolding e(2) using assms(5) r by (simp add: leave_announce_def Let_def)
  then have "u \<notin> fst ` set (present db' (rm_id room))"
    unfolding present_def using deactivated [where ps = "db_participants db2" and u = u and rid = "rm_id room" and w = wall] by (auto simp: list_all_iff)
  moreover have "s' \<in> set (gw_rooms gw' code)" using assms(7,8) by (simp add: e(1) js_delete_def)
  ultimately show ?thesis by blast
qed

end
