(* ===== verification/SimPlayer.thy ===== *)
theory SimPlayer
  imports PlayerAdapters "HOL-Library.Word"
begin

text \<open>
  The simulated player of the bots and its seeded generator (sync-harness/src/bots/sim-player.ts). The
  generator works on 32-bit integers; its counter, a number that is only ever read through bit operations,
  is an exact natural number (the code's stays exact for the first four million draws). The player is
  parametric in the generator: the locale \<open>unit_generator\<close> states what it relies on and mulberry32 is its
  interpretation. Property: whatever commands and stalls a player is given, it does not stay stuck.
\<close>

unbundle bit_operations_syntax

subsection \<open>The generator\<close>

definition mulberry_mix :: "32 word \<Rightarrow> 32 word" where
  "mulberry_mix a =
     (let t1 = (a XOR drop_bit 15 a) * (a OR 1);
          t2 = t1 XOR (t1 + (t1 XOR drop_bit 7 t1) * (t1 OR 61)) in
      t2 XOR drop_bit 14 t2)"

definition mulberry_seed :: "nat \<Rightarrow> nat" where
  "mulberry_seed seed = seed mod 2 ^ 32"

definition mulberry32 :: "nat \<Rightarrow> real \<times> nat" where
  "mulberry32 a = (let a' = a + 0x6d2b79f5 in (real (unat (mulberry_mix (of_nat a'))) / 4294967296, a'))"

subsection \<open>The player\<close>

record sim_config =
  sc_playbackSkew :: real
  sc_commandLatencyMinMs :: real
  sc_commandLatencyMaxMs :: real
  sc_seekSettleMinMs :: real
  sc_seekSettleMaxMs :: real
  sc_fractionalRateOK :: bool

datatype sim_action = SimPlay | SimPause | SimSeek jsnum

record 'g sim_player =
  sp_lifecycle :: lifecycle
  sp_position :: jsnum
  sp_lastAdvanceAt :: "real option"
  sp_rate :: jsnum
  sp_pendingUntil :: real
  sp_pending :: "sim_action list"
  sp_stallUntil :: real
  sp_rng :: 'g

definition new_sim :: "'g \<Rightarrow> 'g sim_player" where
  "new_sim g = \<lparr>sp_lifecycle = Cued, sp_position = 0, sp_lastAdvanceAt = None, sp_rate = 1, sp_pendingUntil = 0, sp_pending = [],
     sp_stallUntil = 0, sp_rng = g\<rparr>"

definition sim_draw :: "('g \<Rightarrow> real \<times> 'g) \<Rightarrow> 'g sim_player \<Rightarrow> real \<Rightarrow> real \<Rightarrow> 'g sim_player \<times> real" where
  "sim_draw rng p lo hi = (let (u, g) = rng (sp_rng p) in (p\<lparr>sp_rng := g\<rparr>, lo + u * (hi - lo)))"

definition sim_act :: "('g \<Rightarrow> real \<times> 'g) \<Rightarrow> sim_config \<Rightarrow> 'g sim_player \<Rightarrow> sim_action \<Rightarrow> 'g sim_player" where
  "sim_act rng cfg p a = (case a of
     SimPlay \<Rightarrow> if sp_lifecycle p \<noteq> Playing then p\<lparr>sp_lifecycle := Playing\<rparr> else p
   | SimPause \<Rightarrow> p\<lparr>sp_lifecycle := Paused\<rparr>
   | SimSeek m \<Rightarrow>
       (let (p1, settle) = sim_draw rng (p\<lparr>sp_position := m\<rparr>) (sc_seekSettleMinMs cfg) (sc_seekSettleMaxMs cfg) in
        if sp_lifecycle p1 = Playing \<or> sp_lifecycle p1 = Cued
        then p1\<lparr>sp_lifecycle := Buffering, sp_stallUntil := sp_pendingUntil p1 + settle\<rparr> else p1))"

definition sim_flush :: "('g \<Rightarrow> real \<times> 'g) \<Rightarrow> sim_config \<Rightarrow> 'g sim_player \<Rightarrow> real \<Rightarrow> 'g sim_player" where
  "sim_flush rng cfg p t =
     (if sp_pending p \<noteq> [] \<and> t \<ge> sp_pendingUntil p
      then (foldl (sim_act rng cfg) (p\<lparr>sp_pending := []\<rparr>) (sp_pending p))\<lparr>sp_lastAdvanceAt := Some t\<rparr> else p)"

definition sim_unstall :: "'g sim_player \<Rightarrow> real \<Rightarrow> 'g sim_player" where
  "sim_unstall p t =
     (if sp_stallUntil p > 0 \<and> t \<ge> sp_stallUntil p \<and> sp_lifecycle p = Buffering
      then p\<lparr>sp_lifecycle := Playing, sp_stallUntil := 0, sp_lastAdvanceAt := Some t\<rparr> else p)"

definition sim_move :: "sim_config \<Rightarrow> 'g sim_player \<Rightarrow> real \<Rightarrow> 'g sim_player" where
  "sim_move cfg p t =
     (case sp_lastAdvanceAt p of
        Some l \<Rightarrow>
          if sp_lifecycle p = Playing
          then p\<lparr>sp_position := sp_position p + Fin ((t - l) / 1000) * sp_rate p * Fin (1 + sc_playbackSkew cfg), sp_lastAdvanceAt := Some t\<rparr>
          else p\<lparr>sp_lastAdvanceAt := Some t\<rparr>
      | None \<Rightarrow> p\<lparr>sp_lastAdvanceAt := Some t\<rparr>)"

definition sim_advance :: "('g \<Rightarrow> real \<times> 'g) \<Rightarrow> sim_config \<Rightarrow> 'g sim_player \<Rightarrow> real \<Rightarrow> 'g sim_player" where
  "sim_advance rng cfg p t = sim_move cfg (sim_unstall (sim_flush rng cfg p t) t) t"

definition sim_later :: "('g \<Rightarrow> real \<times> 'g) \<Rightarrow> sim_config \<Rightarrow> 'g sim_player \<Rightarrow> real \<Rightarrow> sim_action \<Rightarrow> 'g sim_player" where
  "sim_later rng cfg p t a =
     (let (p1, latency) = sim_draw rng p (sc_commandLatencyMinMs cfg) (sc_commandLatencyMaxMs cfg) in
      p1\<lparr>sp_pendingUntil := t + latency, sp_pending := sp_pending p1 @ [a]\<rparr>)"

definition sim_setRate :: "sim_config \<Rightarrow> 'g sim_player \<Rightarrow> jsnum \<Rightarrow> 'g sim_player \<times> jsnum" where
  "sim_setRate cfg p rate' = (let r = (if sc_fractionalRateOK cfg then rate' else math_round rate') in (p\<lparr>sp_rate := r\<rparr>, r))"

definition sim_stall :: "'g sim_player \<Rightarrow> real \<Rightarrow> real \<Rightarrow> 'g sim_player" where
  "sim_stall p t durationMs =
     (if sp_lifecycle p = Playing then p\<lparr>sp_lifecycle := Buffering, sp_stallUntil := t + durationMs\<rparr> else p)"

subsection \<open>Draws\<close>

locale unit_generator =
  fixes rng :: "'g \<Rightarrow> real \<times> 'g"
  assumes unit: "0 \<le> fst (rng g)" "fst (rng g) < 1"
begin

lemma draw_range:
  assumes "lo \<le> hi" "sim_draw rng p lo hi = (p1, d)"
  shows "lo \<le> d" "d \<le> hi"
proof -
  have d: "d = lo + fst (rng (sp_rng p)) * (hi - lo)" using assms(2) by (simp add: sim_draw_def prod.case_eq_if)
  have "fst (rng (sp_rng p)) * (hi - lo) \<le> 1 * (hi - lo)" using unit [of "sp_rng p"] assms(1) by (intro mult_right_mono) simp_all
  then show "d \<le> hi" by (simp add: d)
  show "lo \<le> d" using unit [of "sp_rng p"] assms(1) by (simp add: d)
qed

end

interpretation mulberry: unit_generator mulberry32
proof
  fix a :: nat
  show "0 \<le> fst (mulberry32 a)"
    unfolding mulberry32_def Let_def fst_conv by (intro divide_nonneg_nonneg of_nat_0_le_iff) simp
  have "unat (mulberry_mix w) < 2 ^ 32" for w using unsigned_less [where w = "mulberry_mix w"] by simp
  then have "real (unat (mulberry_mix w)) < 2 ^ 32" for w by (metis of_nat_less_iff of_nat_numeral of_nat_power)
  then show "fst (mulberry32 a) < 1" by (simp add: mulberry32_def Let_def)
qed

text \<open>The counter visits every 32-bit value once before it repeats: no seed has a short cycle.\<close>

primrec mulberry_state :: "nat \<Rightarrow> nat \<Rightarrow> nat" where
  "mulberry_state seed 0 = mulberry_seed seed"
| "mulberry_state seed (Suc n) = snd (mulberry32 (mulberry_state seed n))"

lemma mulberry_state_eq: "mulberry_state seed n = mulberry_seed seed + n * 0x6d2b79f5"
  by (induction n) (simp_all add: mulberry32_def Let_def)

lemma mulberry_full_period:
  assumes "m < n" "n < m + 2 ^ 32"
  shows "(of_nat (mulberry_state seed m) :: 32 word) \<noteq> of_nat (mulberry_state seed n)"
proof
  assume "(of_nat (mulberry_state seed m) :: 32 word) = of_nat (mulberry_state seed n)"
  then have "mulberry_state seed m mod 2 ^ 32 = mulberry_state seed n mod 2 ^ 32"
    by (simp add: word_of_nat_eq_iff take_bit_eq_mod)
  then have "(2 ^ 32 :: nat) dvd mulberry_state seed n - mulberry_state seed m"
    using assms(1) by (intro mod_eq_dvd_iff_nat [THEN iffD1]) (simp_all add: mulberry_state_eq)
  then have "(2 ^ 32 :: nat) dvd (n - m) * 0x6d2b79f5" by (simp add: mulberry_state_eq diff_mult_distrib)
  moreover have "coprime ((2 :: nat) ^ 32) 0x6d2b79f5" by (intro coprime_power_left_iff [THEN iffD2] disjI1) simp
  ultimately have "(2 ^ 32 :: nat) dvd n - m" using coprime_dvd_mult_left_iff by blast
  then show False using assms by (auto dest: dvd_imp_le)
qed

subsection \<open>Commands take effect\<close>

datatype sim_op = SimCommand real sim_action | SimStall real real | SimAdvance real | SimRate jsnum

definition sim_step :: "('g \<Rightarrow> real \<times> 'g) \<Rightarrow> sim_config \<Rightarrow> 'g sim_player \<Rightarrow> sim_op \<Rightarrow> 'g sim_player" where
  "sim_step rng cfg p op = (case op of
     SimCommand t a \<Rightarrow> sim_later rng cfg p t a
   | SimStall t d \<Rightarrow> sim_stall p t d
   | SimAdvance t \<Rightarrow> sim_advance rng cfg p t
   | SimRate r \<Rightarrow> fst (sim_setRate cfg p r))"

definition sim_run :: "('g \<Rightarrow> real \<times> 'g) \<Rightarrow> sim_config \<Rightarrow> 'g \<Rightarrow> sim_op list \<Rightarrow> 'g sim_player" where
  "sim_run rng cfg g ops = foldl (sim_step rng cfg) (new_sim g) ops"

text \<open>What the commands ask for: the abstract player, which obeys at once and never buffers.\<close>

definition wanted :: "lifecycle \<Rightarrow> sim_action \<Rightarrow> lifecycle" where
  "wanted l a = (case a of SimPlay \<Rightarrow> Playing | SimPause \<Rightarrow> Paused | SimSeek m \<Rightarrow> if l = Cued then Playing else l)"

fun commands :: "sim_op list \<Rightarrow> sim_action list" where
  "commands [] = []"
| "commands (SimCommand t a # ops) = a # commands ops"
| "commands (_ # ops) = commands ops"

definition settled :: "lifecycle \<Rightarrow> lifecycle" where
  "settled l = (if l = Buffering then Playing else l)"

definition asked :: "'g sim_player \<Rightarrow> lifecycle" where
  "asked p = foldl wanted (settled (sp_lifecycle p)) (sp_pending p)"

lemma settled_act: "settled (sp_lifecycle (sim_act rng cfg p a)) = wanted (settled (sp_lifecycle p)) a"
  by (auto simp: sim_act_def sim_draw_def wanted_def settled_def prod.case_eq_if Let_def split: sim_action.splits)

lemma act_keeps [simp]: "sp_pending (sim_act rng cfg p a) = sp_pending p" "sp_pendingUntil (sim_act rng cfg p a) = sp_pendingUntil p"
  by (auto simp: sim_act_def sim_draw_def prod.case_eq_if Let_def split: sim_action.splits)

lemma acts_keep [simp]: "sp_pending (foldl (sim_act rng cfg) p as) = sp_pending p"
  by (induction as arbitrary: p) simp_all

lemma settled_acts: "settled (sp_lifecycle (foldl (sim_act rng cfg) p as)) = foldl wanted (settled (sp_lifecycle p)) as"
  by (induction as arbitrary: p) (simp_all add: settled_act)

lemma asked_flush [simp]: "asked (sim_flush rng cfg p t) = asked p"
  by (simp add: asked_def sim_flush_def settled_acts)

lemma asked_unstall [simp]: "asked (sim_unstall p t) = asked p"
  by (simp add: asked_def sim_unstall_def settled_def)

lemma asked_move [simp]: "asked (sim_move cfg p t) = asked p"
  by (simp add: asked_def sim_move_def split: option.split)

lemma asked_advance [simp]: "asked (sim_advance rng cfg p t) = asked p"
  by (simp add: sim_advance_def)

lemma asked_step: "asked (sim_step rng cfg p op) = foldl wanted (asked p) (commands [op])"
proof (cases op)
  case (SimAdvance t)
  then show ?thesis by (simp add: sim_step_def)
qed (auto simp: sim_step_def sim_later_def sim_draw_def asked_def sim_stall_def sim_setRate_def settled_def prod.case_eq_if Let_def)

lemma commands_Cons: "commands (op # ops) = commands [op] @ commands ops"
  by (cases op) simp_all

lemma asked_run: "asked (sim_run rng cfg g ops) = foldl wanted Cued (commands ops)"
proof -
  have "asked (foldl (sim_step rng cfg) p ops) = foldl wanted (asked p) (commands ops)" for p
  proof (induction ops arbitrary: p)
    case (Cons op ops)
    then show ?case by (subst commands_Cons) (simp only: foldl_Cons foldl_append asked_step)
  qed simp
  then show ?thesis by (simp add: sim_run_def new_sim_def asked_def settled_def)
qed

definition config_ok :: "sim_config \<Rightarrow> bool" where
  "config_ok cfg \<longleftrightarrow> 0 \<le> sc_commandLatencyMinMs cfg \<and> sc_commandLatencyMinMs cfg \<le> sc_commandLatencyMaxMs cfg \<and>
     0 \<le> sc_seekSettleMinMs cfg \<and> sc_seekSettleMinMs cfg \<le> sc_seekSettleMaxMs cfg"

definition op_until :: "real \<Rightarrow> real \<Rightarrow> sim_op \<Rightarrow> bool" where
  "op_until T D op \<longleftrightarrow> (case op of SimCommand t a \<Rightarrow> 0 < t \<and> t \<le> T | SimStall t d \<Rightarrow> 0 < t \<and> t \<le> T \<and> 0 \<le> d \<and> d \<le> D | _ \<Rightarrow> True)"

text \<open>The latest moments at which a command still waits, and at which the player still buffers.\<close>

definition free_at :: "sim_config \<Rightarrow> real \<Rightarrow> real" where
  "free_at cfg T = T + sc_commandLatencyMaxMs cfg"

definition calm_at :: "sim_config \<Rightarrow> real \<Rightarrow> real \<Rightarrow> real" where
  "calm_at cfg T D = free_at cfg T + max (sc_seekSettleMaxMs cfg) D"

definition stall_ok :: "real \<Rightarrow> 'g sim_player \<Rightarrow> bool" where
  "stall_ok C p \<longleftrightarrow> (sp_lifecycle p = Buffering \<longrightarrow> 0 < sp_stallUntil p \<and> sp_stallUntil p \<le> C)"

definition wait_ok :: "real \<Rightarrow> 'g sim_player \<Rightarrow> bool" where
  "wait_ok F p \<longleftrightarrow> (sp_pending p \<noteq> [] \<longrightarrow> 0 < sp_pendingUntil p \<and> sp_pendingUntil p \<le> F)"

context unit_generator
begin

lemma act_stall_ok:
  assumes "config_ok cfg" "stall_ok C p" "0 < sp_pendingUntil p" "sp_pendingUntil p + sc_seekSettleMaxMs cfg \<le> C"
  shows "stall_ok C (sim_act rng cfg p a)"
proof (cases a)
  case (SimSeek m)
  obtain p1 d where d: "sim_draw rng (p\<lparr>sp_position := m\<rparr>) (sc_seekSettleMinMs cfg) (sc_seekSettleMaxMs cfg) = (p1, d)" by fastforce
  have "sc_seekSettleMinMs cfg \<le> d" "d \<le> sc_seekSettleMaxMs cfg" using draw_range [OF _ d] assms(1) by (simp_all add: config_ok_def)
  moreover have "sp_lifecycle p1 = sp_lifecycle p" "sp_stallUntil p1 = sp_stallUntil p" "sp_pendingUntil p1 = sp_pendingUntil p"
    using d by (auto simp: sim_draw_def prod.case_eq_if)
  ultimately show ?thesis using assms by (auto simp: SimSeek sim_act_def d stall_ok_def config_ok_def)
qed (use assms(2) in \<open>simp_all add: sim_act_def stall_ok_def\<close>)

lemma acts_stall_ok:
  assumes "config_ok cfg" "stall_ok C p" "0 < sp_pendingUntil p" "sp_pendingUntil p + sc_seekSettleMaxMs cfg \<le> C"
  shows "stall_ok C (foldl (sim_act rng cfg) p as)"
  using assms(2-) by (induction as arbitrary: p) (simp_all add: act_stall_ok [OF assms(1)])

lemma step_bounds:
  assumes cfg: "config_ok cfg" and op: "op_until T D op" and p: "wait_ok (free_at cfg T) p" "stall_ok (calm_at cfg T D) p"
  shows "wait_ok (free_at cfg T) (sim_step rng cfg p op) \<and> stall_ok (calm_at cfg T D) (sim_step rng cfg p op)"
proof (cases op)
  case (SimCommand t a)
  obtain p1 d where d: "sim_draw rng p (sc_commandLatencyMinMs cfg) (sc_commandLatencyMaxMs cfg) = (p1, d)" by fastforce
  have r: "sc_commandLatencyMinMs cfg \<le> d" "d \<le> sc_commandLatencyMaxMs cfg" using draw_range [OF _ d] cfg by (simp_all add: config_ok_def)
  have "sp_lifecycle p1 = sp_lifecycle p" "sp_stallUntil p1 = sp_stallUntil p" using d by (auto simp: sim_draw_def prod.case_eq_if)
  then show ?thesis
    using SimCommand r cfg op p(2) by (auto simp: sim_step_def sim_later_def d wait_ok_def stall_ok_def free_at_def config_ok_def op_until_def)
next
  case (SimStall t d)
  then show ?thesis
    using op p cfg by (auto simp: sim_step_def sim_stall_def wait_ok_def stall_ok_def calm_at_def free_at_def op_until_def config_ok_def)
next
  case (SimAdvance t)
  have w: "wait_ok (free_at cfg T) (sim_flush rng cfg p t)" using p(1) by (simp add: sim_flush_def wait_ok_def)
  have "stall_ok (calm_at cfg T D) (sim_flush rng cfg p t)"
  proof (cases "sp_pending p \<noteq> [] \<and> t \<ge> sp_pendingUntil p")
    case True
    then have "stall_ok (calm_at cfg T D) (foldl (sim_act rng cfg) (p\<lparr>sp_pending := []\<rparr>) (sp_pending p))"
      using p by (intro acts_stall_ok [OF cfg]) (auto simp: stall_ok_def wait_ok_def calm_at_def)
    then show ?thesis using True by (simp add: sim_flush_def stall_ok_def)
  qed (use p(2) in \<open>auto simp: sim_flush_def\<close>)
  then show ?thesis
    using w by (auto simp: SimAdvance sim_step_def sim_advance_def sim_move_def sim_unstall_def wait_ok_def stall_ok_def split: option.splits)
next
  case (SimRate r)
  then show ?thesis
    using p by (simp_all add: sim_step_def sim_setRate_def wait_ok_def stall_ok_def Let_def)
qed

lemma run_bounds:
  assumes "config_ok cfg" "\<forall>op\<in>set ops. op_until T D op"
  shows "wait_ok (free_at cfg T) (sim_run rng cfg g ops)" "stall_ok (calm_at cfg T D) (sim_run rng cfg g ops)"
proof -
  have "wait_ok (free_at cfg T) (foldl (sim_step rng cfg) p ops) \<and> stall_ok (calm_at cfg T D) (foldl (sim_step rng cfg) p ops)"
    if "wait_ok (free_at cfg T) p" "stall_ok (calm_at cfg T D) p" for p
    using that assms(2)
  proof (induction ops arbitrary: p)
    case (Cons op ops)
    then show ?case using step_bounds [OF assms(1), of T D op p] by simp
  qed simp
  then show "wait_ok (free_at cfg T) (sim_run rng cfg g ops)" "stall_ok (calm_at cfg T D) (sim_run rng cfg g ops)"
    by (simp_all add: sim_run_def new_sim_def wait_ok_def stall_ok_def)
qed

lemma flushed: "wait_ok F p \<Longrightarrow> F \<le> t \<Longrightarrow> sp_pending (sim_advance rng cfg p t) = []"
  by (auto simp: sim_advance_def sim_move_def sim_unstall_def sim_flush_def wait_ok_def split: option.splits)

lemma unstalled: "stall_ok C p \<Longrightarrow> sp_pending p = [] \<Longrightarrow> C \<le> t \<Longrightarrow> sp_lifecycle (sim_advance rng cfg p t) \<noteq> Buffering"
  by (auto simp: sim_advance_def sim_move_def sim_unstall_def sim_flush_def stall_ok_def split: option.splits)

lemma obeys:
  assumes "config_ok cfg" "\<forall>op\<in>set ops. op_until T D op" "free_at cfg T \<le> t1" "calm_at cfg T D \<le> t2"
  shows "sp_lifecycle (sim_advance rng cfg (sim_advance rng cfg (sim_run rng cfg g ops) t1) t2) = foldl wanted Cued (commands ops)"
proof -
  let ?p = "sim_run rng cfg g ops"
  let ?p1 = "sim_advance rng cfg ?p t1"
  let ?p2 = "sim_advance rng cfg ?p1 t2"
  note b = run_bounds [OF assms(1,2), of g]
  have w: "wait_ok (free_at cfg T) ?p1" and s: "stall_ok (calm_at cfg T D) ?p1"
    using step_bounds [OF assms(1) _ b, of "SimAdvance t1"] by (simp_all add: sim_step_def op_until_def)
  have "sp_pending ?p1 = []" using flushed [OF b(1) assms(3)] .
  then have "sp_lifecycle ?p2 \<noteq> Buffering" using unstalled [OF s _ assms(4)] by simp
  moreover have "sp_pending ?p2 = []"
    using \<open>sp_pending ?p1 = []\<close> by (simp add: sim_advance_def [of _ _ ?p1] sim_move_def sim_unstall_def sim_flush_def split: option.split)
  moreover have "asked ?p2 = foldl wanted Cued (commands ops)" by (simp add: asked_run)
  ultimately show ?thesis by (simp add: asked_def settled_def)
qed

end

text \<open>
  A simulated player is never left stuck. Whatever commands, stalls and rate changes it is given up to an
  instant, in any order and with whatever draws of the seeded generator, once the longest command latency and
  then the longest settle or stall have passed, two steps of the simulation leave it exactly as the commands
  ask: playing, paused, or still cued when it was never told anything.
\<close>

theorem sim_player_obeys:
  assumes "config_ok cfg" "\<forall>op\<in>set ops. op_until T D op" "free_at cfg T \<le> t1" "calm_at cfg T D \<le> t2"
  shows "sp_lifecycle (sim_advance mulberry32 cfg (sim_advance mulberry32 cfg (sim_run mulberry32 cfg (mulberry_seed seed) ops) t1) t2) =
    foldl wanted Cued (commands ops)"
  by (rule mulberry.obeys [OF assms])

definition bot_player :: sim_config where
  "bot_player = \<lparr>sc_playbackSkew = 0, sc_commandLatencyMinMs = 80, sc_commandLatencyMaxMs = 300, sc_seekSettleMinMs = 150,
     sc_seekSettleMaxMs = 600, sc_fractionalRateOK = False\<rparr>"

theorem sim_player_obeys_witness:
  "sp_lifecycle (sim_advance mulberry32 bot_player (sim_advance mulberry32 bot_player (sim_run mulberry32 bot_player (mulberry_seed 1000)
     [SimCommand 100 (SimSeek 30), SimAdvance 250, SimCommand 500 SimPause, SimStall 600 4000, SimCommand 700 SimPlay]) 1000) 5000) = Playing"
  using sim_player_obeys [of bot_player
      "[SimCommand 100 (SimSeek 30), SimAdvance 250, SimCommand 500 SimPause, SimStall 600 4000, SimCommand 700 SimPlay]" 700 4000 1000 5000 1000]
  by (simp add: bot_player_def config_ok_def op_until_def free_at_def calm_at_def wanted_def)

end
