(* ===== verification/RunStats.thy ===== *)
theory RunStats
  imports Prelude
begin

text \<open>
  The statistics of a measured run (sync-harness/src/stats.ts): percentiles, the playhead of a client between
  two samples, pairwise drift on a time grid, convergence after a control, hard seeks and the readout's noise.
  Samples are parsed from JSON, so their numbers are finite: they are reals, and NaN, the answer of a
  percentile of nothing, is \<^term>\<open>None\<close>. Properties: a percentile is the nearest rank, an interpolated playhead
  lies between two consecutive samples of continuous playback, convergence is the first time it holds.
\<close>

subsection \<open>Percentiles\<close>

definition percentile :: "'a list \<Rightarrow> real \<Rightarrow> 'a option" where
  "percentile xs p =
     (if xs = [] then None
      else (let n = int (length xs);
                idx = min (n - 1) (max 0 (\<lceil>p / 100 * of_int n\<rceil> - 1)) in
            Some (xs ! nat idx)))"

record drift_stats =
  ds_p50 :: "real option"
  ds_p95 :: "real option"
  ds_p99 :: "real option"
  ds_max :: "real option"
  ds_samples :: nat

definition driftStats :: "real list \<Rightarrow> drift_stats" where
  "driftStats values =
     (let s = sort values in
      \<lparr>ds_p50 = percentile s 50, ds_p95 = percentile s 95, ds_p99 = percentile s 99,
       ds_max = (if s = [] then None else Some (last s)), ds_samples = length s\<rparr>)"

subsection \<open>The playhead of a client\<close>

record sample =
  sm_client :: nat
  sm_tLocal :: real
  sm_playerTime :: real
  sm_playerState :: int

record client_series =
  cs_client :: nat
  cs_spans :: "(real \<times> real) list list"
  cs_all :: "sample list"

definition HARD_SEEK_JUMP_S :: real where
  "HARD_SEEK_JUMP_S = 3 / 2"

definition is_playing :: "sample \<Rightarrow> bool" where
  "is_playing s = (sm_playerState s = 1)"

definition discontinuity :: "sample \<Rightarrow> sample \<Rightarrow> bool" where
  "discontinuity prev s =
     (sm_tLocal s - sm_tLocal prev > 1000 \<or> \<bar>sm_playerTime s - sm_playerTime prev\<bar> > HARD_SEEK_JUMP_S)"

definition point :: "sample \<Rightarrow> real \<times> real" where
  "point s = (sm_tLocal s, sm_playerTime s)"

definition close_span :: "(real \<times> real) list list \<Rightarrow> (real \<times> real) list \<Rightarrow> (real \<times> real) list list" where
  "close_span spans current = (if 1 < length current then spans @ [current] else spans)"

text \<open>The loop over a client's samples, with its three variables.\<close>

fun span_loop :: "(real \<times> real) list list \<Rightarrow> (real \<times> real) list \<Rightarrow> sample option \<Rightarrow> sample list \<Rightarrow> (real \<times> real) list list" where
  "span_loop spans current prev [] = close_span spans current"
| "span_loop spans current prev (s # rest) =
     (let cut = (\<not> is_playing s \<or> (case prev of None \<Rightarrow> False | Some p \<Rightarrow> discontinuity p s));
          spans' = (if cut then close_span spans current else spans);
          current' = (if cut then [] else current);
          current'' = (if is_playing s then current' @ [point s] else current') in
      span_loop spans' current'' (Some s) rest)"

definition client_series_of :: "sample list \<Rightarrow> nat \<Rightarrow> client_series" where
  "client_series_of samples c =
     (let mine = sort_key sm_tLocal (filter (\<lambda>s. sm_client s = c) samples) in
      \<lparr>cs_client = c, cs_spans = span_loop [] [] None mine, cs_all = mine\<rparr>)"

definition buildSeries :: "sample list \<Rightarrow> nat \<Rightarrow> client_series list" where
  "buildSeries samples nClients = map (client_series_of samples) [0..<nClients]"

text \<open>The binary search for the surrounding pair.\<close>

function bsearch :: "(real \<times> real) list \<Rightarrow> real \<Rightarrow> nat \<Rightarrow> nat \<Rightarrow> nat \<times> nat" where
  "bsearch seg t lo hi =
     (if 1 < hi - lo then
        (let mid = (lo + hi) div 2 in
         if fst (seg ! mid) \<le> t then bsearch seg t mid hi else bsearch seg t lo mid)
      else (lo, hi))"
  by auto
termination by (relation "measure (\<lambda>(seg, t, lo, hi). hi - lo)") auto

declare bsearch.simps [simp del]

definition between :: "real \<times> real \<Rightarrow> real \<times> real \<Rightarrow> real \<Rightarrow> real" where
  "between a b t =
     (if fst b = fst a then snd a else snd a + (t - fst a) / (fst b - fst a) * (snd b - snd a))"

definition outside :: "(real \<times> real) list \<Rightarrow> real \<Rightarrow> bool" where
  "outside seg t = (t < fst (seg ! 0) \<or> t > fst (seg ! (length seg - 1)))"

fun interpolate_spans :: "(real \<times> real) list list \<Rightarrow> real \<Rightarrow> real option" where
  "interpolate_spans [] t = None"
| "interpolate_spans (seg # spans) t =
     (if outside seg t then interpolate_spans spans t
      else (let (lo, hi) = bsearch seg t 0 (length seg - 1) in Some (between (seg ! lo) (seg ! hi) t)))"

definition interpolateAt :: "client_series \<Rightarrow> real \<Rightarrow> real option" where
  "interpolateAt series t = interpolate_spans (cs_spans series) t"

subsection \<open>Drift on the grid\<close>

datatype action_kind = AJoin | APlay | APause | ASeek | AScenarioStart | AScenarioEnd

record action_event =
  ae_tHost :: real
  ae_client :: nat
  ae_kind :: action_kind

definition GRID_MS :: real where "GRID_MS = 250"
definition WARMUP_EXCLUDE_MS :: real where "WARMUP_EXCLUDE_MS = 15000"
definition POST_CONTROL_EXCLUDE_MS :: real where "POST_CONTROL_EXCLUDE_MS = 5000"
definition CONVERGENCE_THRESHOLD_S :: real where "CONVERGENCE_THRESHOLD_S = 15 / 100"
definition CONVERGENCE_POINTS :: nat where "CONVERGENCE_POINTS = 3"

function grid :: "real \<Rightarrow> real \<Rightarrow> real list" where
  "grid t t1 = (if t \<le> t1 then t # grid (t + GRID_MS) t1 else [])"
  by auto
termination
proof (relation "measure (\<lambda>(t, t1). nat \<lceil>(t1 - t) / GRID_MS + 1\<rceil>)")
  fix t t1 :: real
  assume "t \<le> t1"
  then have "0 \<le> (t1 - t) / GRID_MS" "(t1 - (t + GRID_MS)) / GRID_MS = (t1 - t) / GRID_MS - 1"
    by (simp_all add: GRID_MS_def field_simps)
  then show "((t + GRID_MS, t1), (t, t1)) \<in> measure (\<lambda>(t, t1). nat \<lceil>(t1 - t) / GRID_MS + 1\<rceil>)"
    by simp
qed simp

declare grid.simps [simp del]

definition controlEvents :: "action_event list \<Rightarrow> action_event list" where
  "controlEvents events = filter (\<lambda>e. ae_kind e \<in> {APlay, APause, ASeek, AJoin}) events"

definition excluded :: "real \<Rightarrow> action_event list \<Rightarrow> real \<Rightarrow> bool" where
  "excluded t0 controls t =
     (t - t0 < WARMUP_EXCLUDE_MS \<or> list_ex (\<lambda>e. t \<ge> ae_tHost e \<and> t - ae_tHost e < POST_CONTROL_EXCLUDE_MS) controls)"

definition live_values :: "client_series list \<Rightarrow> real \<Rightarrow> (nat \<times> real) list" where
  "live_values series t = List.map_filter (\<lambda>s. map_option (Pair (cs_client s)) (interpolateAt s t)) series"

fun pairs_of :: "'a list \<Rightarrow> ('a \<times> 'a) list" where
  "pairs_of [] = []"
| "pairs_of (x # xs) = map (Pair x) xs @ pairs_of xs"

definition drifts_at :: "client_series list \<Rightarrow> real \<Rightarrow> ((nat \<times> nat) \<times> real) list" where
  "drifts_at series t = map (\<lambda>(a, b). ((fst a, fst b), \<bar>snd a - snd b\<bar>)) (pairs_of (live_values series t))"

definition allTime :: "client_series list \<Rightarrow> real \<Rightarrow> real \<Rightarrow> real list" where
  "allTime series t0 t1 = concat (map (\<lambda>t. map snd (drifts_at series t)) (grid t0 t1))"

definition steady :: "client_series list \<Rightarrow> action_event list \<Rightarrow> real \<Rightarrow> real \<Rightarrow> real list" where
  "steady series controls t0 t1 =
     concat (map (\<lambda>t. if excluded t0 controls t then [] else map snd (drifts_at series t)) (grid t0 t1))"

definition pairwiseSeries :: "client_series list \<Rightarrow> real \<Rightarrow> real \<Rightarrow> (real \<times> (nat \<times> nat) \<times> real) list" where
  "pairwiseSeries series t0 t1 = concat (map (\<lambda>t. map (Pair (t - t0)) (drifts_at series t)) (grid t0 t1))"

subsection \<open>Convergence\<close>

definition worst_drift :: "client_series list \<Rightarrow> real \<Rightarrow> real" where
  "worst_drift series t = foldl max 0 (map snd (drifts_at series t))"

definition locked_at :: "client_series list \<Rightarrow> real \<Rightarrow> bool" where
  "locked_at series t = (2 \<le> length (live_values series t) \<and> worst_drift series t < CONVERGENCE_THRESHOLD_S)"

fun convergence_loop :: "client_series list \<Rightarrow> real \<Rightarrow> nat \<Rightarrow> real list \<Rightarrow> real option" where
  "convergence_loop series tHost consecutive [] = None"
| "convergence_loop series tHost consecutive (t # ts) =
     (if locked_at series t then
        (if consecutive + 1 \<ge> CONVERGENCE_POINTS
         then Some ((t - tHost) / 1000 - (real CONVERGENCE_POINTS - 1) * GRID_MS / 1000)
         else convergence_loop series tHost (consecutive + 1) ts)
      else convergence_loop series tHost 0 ts)"

definition convergence :: "client_series list \<Rightarrow> action_event list \<Rightarrow> real \<Rightarrow> (action_event \<times> real option) list" where
  "convergence series controls t1 =
     map (\<lambda>e. (e, convergence_loop series (ae_tHost e) 0 (grid (ae_tHost e) t1))) (filter (\<lambda>e. ae_kind e \<noteq> APause) controls)"

subsection \<open>Seeks and noise\<close>

fun hard_seeks :: "sample list \<Rightarrow> nat" where
  "hard_seeks (a # b # rest) =
     (if is_playing a \<and> is_playing b \<and> sm_tLocal b - sm_tLocal a < 1000 \<and>
         \<bar>sm_playerTime b - sm_playerTime a - (sm_tLocal b - sm_tLocal a) / 1000\<bar> > HARD_SEEK_JUMP_S
      then 1 else 0) + hard_seeks (b # rest)"
| "hard_seeks _ = 0"

text \<open>The plateaus and the increments of the readout of a client, with the start of an open plateau.\<close>

fun noise_loop :: "real option \<Rightarrow> sample list \<Rightarrow> real list \<times> real list" where
  "noise_loop plateauStart (a # b # rest) =
     (if sm_tLocal b - sm_tLocal a > 200 then noise_loop None (b # rest)
      else
        (let inc = sm_playerTime b - sm_playerTime a in
         if inc = 0 then
           (let (ps, is) = noise_loop (Some (case plateauStart of None \<Rightarrow> sm_tLocal a | Some s \<Rightarrow> s)) (b # rest) in (ps, inc # is))
         else (case plateauStart of
             Some s \<Rightarrow> (let (ps, is) = noise_loop None (b # rest) in ((sm_tLocal b - s) # ps, inc # is))
           | None \<Rightarrow> (let (ps, is) = noise_loop None (b # rest) in (ps, inc # is)))))"
| "noise_loop plateauStart _ = ([], [])"

record run_stats =
  rs_steady :: drift_stats
  rs_allTime :: drift_stats
  rs_convergence :: "(action_event \<times> real option) list"
  rs_hardSeeksPerMinute :: real
  rs_plateauP50 :: "real option"
  rs_plateauP95 :: "real option"
  rs_incrementP50 :: "real option"
  rs_incrementP95 :: "real option"

text \<open>Of no samples the first and last instant are infinite and every loop is empty.\<close>

definition computeStats :: "sample list \<Rightarrow> action_event list \<Rightarrow> nat \<Rightarrow> run_stats \<times> (real \<times> (nat \<times> nat) \<times> real) list" where
  "computeStats samples events nClients =
     (let series = buildSeries samples nClients;
          ts = map sm_tLocal samples;
          t0 = foldl min (hd ts) ts; t1 = foldl max (hd ts) ts;
          controls = controlEvents events;
          on = (\<lambda>xs. if samples = [] then [] else xs);
          seeks = sum_list (map (\<lambda>s. hard_seeks (cs_all s)) series);
          minutes = (t1 - t0) / 60000;
          noise = map (\<lambda>s. noise_loop None (filter is_playing (cs_all s))) series;
          plateaus = sort (concat (map fst noise)); increments = sort (concat (map snd noise)) in
      (\<lparr>rs_steady = driftStats (on (steady series controls t0 t1)),
        rs_allTime = driftStats (on (allTime series t0 t1)),
        rs_convergence =
          (if samples = [] then map (\<lambda>e. (e, None)) (filter (\<lambda>e. ae_kind e \<noteq> APause) controls) else convergence series controls t1),
        rs_hardSeeksPerMinute = (if samples \<noteq> [] \<and> 0 < minutes then real seeks / minutes else 0),
        rs_plateauP50 = percentile plateaus 50, rs_plateauP95 = percentile plateaus 95,
        rs_incrementP50 = percentile increments 50, rs_incrementP95 = percentile increments 95\<rparr>,
       if samples = [] then [] else pairwiseSeries series t0 t1))"

subsection \<open>Nearest rank\<close>

lemma sorted_count_le:
  assumes "sorted xs" "i < length xs"
  shows "Suc i \<le> length (filter (\<lambda>x. x \<le> xs ! i) xs)"
proof -
  have "filter (\<lambda>x. x \<le> xs ! i) (take (Suc i) xs) = take (Suc i) xs"
    using assms by (auto intro!: filter_True simp: in_set_conv_nth sorted_nth_mono)
  then have "Suc i = length (filter (\<lambda>x. x \<le> xs ! i) (take (Suc i) xs))" using assms(2) by simp
  also have "\<dots> \<le> length (filter (\<lambda>x. x \<le> xs ! i) (take (Suc i) xs @ drop (Suc i) xs))"
    unfolding filter_append length_append by simp
  finally show ?thesis by simp
qed

lemma sorted_count_less:
  assumes "sorted xs" "i < length xs"
  shows "length (filter (\<lambda>x. x < xs ! i) xs) \<le> i"
proof -
  have "filter (\<lambda>x. x < xs ! i) (drop i xs) = []"
    using assms by (auto simp: filter_empty_conv in_set_conv_nth sorted_nth_mono not_less)
  then have "length (filter (\<lambda>x. x < xs ! i) (take i xs @ drop i xs)) = length (filter (\<lambda>x. x < xs ! i) (take i xs))"
    unfolding filter_append by simp
  also have "\<dots> \<le> i" using length_filter_le [of _ "take i xs"] le_trans by (metis length_take min.cobounded2)
  finally show ?thesis by simp
qed

text \<open>
  A percentile is the nearest rank: it is a sample, at least \<open>p\<close> percent of the samples are no larger,
  and fewer than \<open>p\<close> percent are smaller.
\<close>

lemma percentile_is_nearest_rank:
  assumes "values \<noteq> []" "0 < p" "p \<le> 100"
  shows "\<exists>v. percentile (sort values) p = Some v \<and> v \<in> set values \<and>
    p / 100 * length values \<le> length (filter (\<lambda>x. x \<le> v) values) \<and>
    length (filter (\<lambda>x. x < v) values) < p / 100 * length values"
proof -
  let ?xs = "sort values" and ?n = "length values"
  define q where "q = p / 100 * real ?n"
  define i where "i = nat (\<lceil>q\<rceil> - 1)"
  have n: "0 < ?n" using assms(1) by simp
  then have q: "0 < q" "q \<le> ?n" using assms(2,3) by (simp_all add: q_def field_simps)
  then have c: "1 \<le> \<lceil>q\<rceil>" "\<lceil>q\<rceil> \<le> ?n" by (simp_all add: ceiling_le_iff)
  then have i: "i < ?n" "of_nat (Suc i) = \<lceil>q\<rceil>" unfolding i_def by linarith+
  have "percentile ?xs p = Some (?xs ! i)"
  proof -
    have "?xs \<noteq> []" using assms(1) by (metis length_0_conv length_sort)
    moreover have "nat (min (int ?n - 1) (max 0 (\<lceil>q\<rceil> - 1))) = i" using c unfolding i_def by linarith
    ultimately show ?thesis by (simp add: percentile_def Let_def q_def)
  qed
  moreover have "?xs ! i \<in> set values" using i(1) by (metis length_sort nth_mem set_sort)
  moreover have "q \<le> Suc i" "i < q" using i(2) by linarith+
  moreover have "Suc i \<le> length (filter (\<lambda>x. x \<le> ?xs ! i) values)" "length (filter (\<lambda>x. x < ?xs ! i) values) \<le> i"
    using sorted_count_le [of ?xs i] sorted_count_less [of ?xs i] i(1) by (simp_all add: filter_sort)
  ultimately show ?thesis unfolding q_def by (intro exI [of _ "?xs ! i"]) linarith
qed

lemma percentile_map: "percentile (map f xs) p = map_option f (percentile xs p)"
proof (cases "xs = []")
  case False
  then have "0 < length xs" by simp
  then have "nat (min (int (length xs) - 1) k) < length xs" for k by linarith
  then show ?thesis using False by (simp add: percentile_def Let_def)
qed (simp add: percentile_def)

subsection \<open>Interpolation\<close>

lemma bsearch_bracket:
  assumes "lo < hi" "fst (seg ! lo) \<le> t" "t \<le> fst (seg ! hi)"
  shows "\<exists>i. bsearch seg t lo hi = (i, Suc i) \<and> lo \<le> i \<and> i < hi \<and> fst (seg ! i) \<le> t \<and> t \<le> fst (seg ! Suc i)"
  using assms
proof (induction seg t lo hi rule: bsearch.induct)
  case (1 seg t lo hi)
  show ?case
  proof (cases "1 < hi - lo")
    case True
    then have mid: "lo < (lo + hi) div 2" "(lo + hi) div 2 < hi" by auto
    show ?thesis
    proof (cases "fst (seg ! ((lo + hi) div 2)) \<le> t")
      case below: True
      from "1.IH" (1) [OF True refl below mid(2) below "1.prems"(3)] show ?thesis
        using True below mid by (subst bsearch.simps) auto
    next
      case above: False
      then have "t \<le> fst (seg ! ((lo + hi) div 2))" by simp
      from "1.IH" (2) [OF True refl above mid(1) "1.prems"(2) this] show ?thesis
        using True above mid by (subst bsearch.simps) auto
    qed
  next
    case False
    then have "hi = Suc lo" using "1.prems"(1) by simp
    then show ?thesis using "1.prems" by (subst bsearch.simps) simp
  qed
qed

text \<open>Two points of a client's series that come from neighbouring samples of continuous playback.\<close>

definition linked :: "sample list \<Rightarrow> real \<times> real \<Rightarrow> real \<times> real \<Rightarrow> bool" where
  "linked mine x y \<longleftrightarrow> (\<exists>j. Suc j < length mine \<and> x = point (mine ! j) \<and> y = point (mine ! Suc j) \<and>
     is_playing (mine ! j) \<and> is_playing (mine ! Suc j) \<and> \<not> discontinuity (mine ! j) (mine ! Suc j))"

lemma linked_next:
  assumes "xs \<noteq> []" "is_playing (last xs)" "is_playing s" "\<not> discontinuity (last xs) s"
  shows "linked (xs @ s # rest) (point (last xs)) (point s)"
  unfolding linked_def using assms
  by (intro exI [of _ "length xs - 1"]) (auto simp: nth_append last_conv_nth)

definition good_seg :: "sample list \<Rightarrow> (real \<times> real) list \<Rightarrow> bool" where
  "good_seg mine seg \<longleftrightarrow> 1 < length seg \<and> chained (linked mine) seg"

lemma span_loop_good:
  assumes "mine = before @ rest" "prev = (if before = [] then None else Some (last before))"
    and "\<forall>seg\<in>set spans. good_seg mine seg" "chained (linked mine) current"
    and "current \<noteq> [] \<longrightarrow> before \<noteq> [] \<and> is_playing (last before) \<and> last current = point (last before)"
  shows "\<forall>seg\<in>set (span_loop spans current prev rest). good_seg mine seg"
  using assms
proof (induction rest arbitrary: spans current prev before)
  case Nil
  then show ?case by (auto simp: close_span_def good_seg_def)
next
  case (Cons s rest)
  define cut where "cut \<longleftrightarrow> \<not> is_playing s \<or> (case prev of None \<Rightarrow> False | Some p \<Rightarrow> discontinuity p s)"
  let ?spans = "if cut then close_span spans current else spans"
  let ?cur = "if is_playing s then (if cut then [] else current) @ [point s] else (if cut then [] else current)"
  have "linked mine (last current) (point s)" if "\<not> cut" "current \<noteq> []"
    using that Cons.prems(1,2,5) linked_next [of before s rest] by (auto simp: cut_def)
  then have "chained (linked mine) ?cur" using Cons.prems(4) by (auto simp: chained_snoc)
  moreover have "\<forall>seg\<in>set ?spans. good_seg mine seg"
    using Cons.prems(3,4) by (auto simp: close_span_def good_seg_def)
  ultimately have "\<forall>seg\<in>set (span_loop ?spans ?cur (Some s) rest). good_seg mine seg"
    using Cons.prems(1) by (intro Cons.IH [of "before @ [s]"]) (auto simp: cut_def)
  then show ?case by (simp add: Let_def cut_def)
qed

lemma between_range:
  assumes "fst a \<le> t" "t \<le> fst b"
  shows "min (snd a) (snd b) \<le> between a b t" "between a b t \<le> max (snd a) (snd b)"
proof -
  define f where "f = (if fst b = fst a then 0 else (t - fst a) / (fst b - fst a))"
  have f: "0 \<le> f" "f \<le> 1" using assms by (auto simp: f_def divide_simps)
  have b: "between a b t = (1 - f) * snd a + f * snd b"
    unfolding between_def f_def by (simp add: ring_distribs del: times_divide_eq_left)
  have "(1 - f) * min (snd a) (snd b) + f * min (snd a) (snd b) \<le> between a b t"
    "between a b t \<le> (1 - f) * max (snd a) (snd b) + f * max (snd a) (snd b)"
    unfolding b using f by (intro add_mono mult_left_mono; simp)+
  then show "min (snd a) (snd b) \<le> between a b t" "between a b t \<le> max (snd a) (snd b)" by (simp_all add: algebra_simps)
qed

lemma interpolate_spans_linked:
  assumes "\<forall>seg\<in>set spans. good_seg mine seg" "interpolate_spans spans t = Some v"
  shows "\<exists>a b. linked mine a b \<and> fst a \<le> t \<and> t \<le> fst b \<and> v = between a b t"
  using assms
proof (induction spans)
  case (Cons seg spans)
  show ?case
  proof (cases "outside seg t")
    case False
    have len: "0 < length seg - 1" and ch: "chained (linked mine) seg" using Cons.prems(1) by (auto simp: good_seg_def)
    obtain i where i: "bsearch seg t 0 (length seg - 1) = (i, Suc i)" "i < length seg - 1" "fst (seg ! i) \<le> t" "t \<le> fst (seg ! Suc i)"
      using bsearch_bracket [OF len, of seg t] False by (auto simp: outside_def)
    then have "linked mine (seg ! i) (seg ! Suc i)" using ch by (auto simp: chained_nth)
    then show ?thesis using i Cons.prems(2) False by (intro exI [of _ "seg ! i"] exI [of _ "seg ! Suc i"]) simp
  qed (use Cons in simp)
qed simp

text \<open>
  Where a client's playhead is read between two samples, they are consecutive samples of that client around
  the instant, both playing, at most a second and one and a half seconds of video apart, and the value read
  lies between theirs: drift is never read across a pause, a stall of the sampling or a seek.
\<close>

theorem interpolation_between_samples:
  fixes samples :: "sample list" and c :: nat
  defines "mine \<equiv> cs_all (client_series_of samples c)"
  assumes "interpolateAt (client_series_of samples c) t = Some v"
  shows "\<exists>i. Suc i < length mine \<and> sm_tLocal (mine ! i) \<le> t \<and> t \<le> sm_tLocal (mine ! Suc i) \<and>
    is_playing (mine ! i) \<and> is_playing (mine ! Suc i) \<and> sm_tLocal (mine ! Suc i) - sm_tLocal (mine ! i) \<le> 1000 \<and>
    \<bar>sm_playerTime (mine ! Suc i) - sm_playerTime (mine ! i)\<bar> \<le> 3 / 2 \<and>
    min (sm_playerTime (mine ! i)) (sm_playerTime (mine ! Suc i)) \<le> v \<and>
    v \<le> max (sm_playerTime (mine ! i)) (sm_playerTime (mine ! Suc i))"
proof -
  have "\<forall>seg\<in>set (cs_spans (client_series_of samples c)). good_seg mine seg"
    unfolding mine_def client_series_of_def Let_def by (simp del: span_loop.simps) (rule span_loop_good [of _ "[]"], simp_all)
  from interpolate_spans_linked [OF this assms(2) [unfolded interpolateAt_def]]
  obtain a b where "linked mine a b" "fst a \<le> t" "t \<le> fst b" "v = between a b t" by blast
  then obtain j where j: "Suc j < length mine" "a = point (mine ! j)" "b = point (mine ! Suc j)" "is_playing (mine ! j)"
    "is_playing (mine ! Suc j)" "\<not> discontinuity (mine ! j) (mine ! Suc j)" unfolding linked_def by blast
  then show ?thesis using between_range [of a t b] \<open>fst a \<le> t\<close> \<open>t \<le> fst b\<close> \<open>v = between a b t\<close>
    by (intro exI [of _ j]) (auto simp: discontinuity_def HARD_SEEK_JUMP_S_def point_def)
qed

definition demo_samples :: "sample list" where
  "demo_samples =
     [\<lparr>sm_client = 0, sm_tLocal = 100, sm_playerTime = 10, sm_playerState = 1\<rparr>,
      \<lparr>sm_client = 1, sm_tLocal = 100, sm_playerTime = 11, sm_playerState = 1\<rparr>,
      \<lparr>sm_client = 0, sm_tLocal = 600, sm_playerTime = 10 + 1 / 2, sm_playerState = 1\<rparr>,
      \<lparr>sm_client = 0, sm_tLocal = 700, sm_playerTime = 90, sm_playerState = 1\<rparr>]"

lemma demo_interpolation: "interpolateAt (client_series_of demo_samples 0) 350 = Some (10 + 1 / 4)"
  by (simp add: interpolateAt_def client_series_of_def demo_samples_def Let_def is_playing_def discontinuity_def HARD_SEEK_JUMP_S_def
    point_def close_span_def outside_def between_def bsearch.simps)

theorem interpolation_between_samples_witness:
  "interpolateAt (client_series_of demo_samples 0) 350 = Some (10 + 1 / 4) \<and>
   (\<exists>i. Suc i < length (cs_all (client_series_of demo_samples 0)) \<and> is_playing (cs_all (client_series_of demo_samples 0) ! i))"
  using interpolation_between_samples [OF demo_interpolation] demo_interpolation by blast

subsection \<open>Convergence\<close>

definition locked_point :: "client_series list \<Rightarrow> real \<Rightarrow> real \<Rightarrow> nat \<Rightarrow> bool" where
  "locked_point series tHost t1 k \<longleftrightarrow> tHost + GRID_MS * real k \<le> t1 \<and> locked_at series (tHost + GRID_MS * real k)"

definition locked_run :: "client_series list \<Rightarrow> real \<Rightarrow> real \<Rightarrow> nat \<Rightarrow> bool" where
  "locked_run series tHost t1 k \<longleftrightarrow> (\<forall>j<CONVERGENCE_POINTS. locked_point series tHost t1 (k + j))"

lemma locked_run_unfold:
  "locked_run series tHost t1 k \<longleftrightarrow> locked_point series tHost t1 k \<and> locked_point series tHost t1 (k + 1) \<and> locked_point series tHost t1 (k + 2)"
  by (auto simp: locked_run_def CONVERGENCE_POINTS_def less_Suc_eq numeral_3_eq_3 numeral_2_eq_2)

lemma locked_run_point: "locked_run series tHost t1 k \<Longrightarrow> k \<le> m \<Longrightarrow> m \<le> k + 2 \<Longrightarrow> locked_point series tHost t1 m"
  unfolding locked_run_def CONVERGENCE_POINTS_def by (drule spec [of _ "m - k"]) simp

text \<open>\<open>c\<close> points before grid point \<open>m\<close> are locked, and no earlier run of three is.\<close>

lemma convergence_loop_from:
  assumes "t = tHost + GRID_MS * real m" "c \<le> m" "c \<le> 2"
    and "\<forall>k. m \<le> k + c \<and> k < m \<longrightarrow> locked_point series tHost t1 k"
    and "\<forall>k. k + c < m \<longrightarrow> \<not> locked_run series tHost t1 k"
  shows "convergence_loop series tHost c (grid t t1) =
    (if \<exists>k. locked_run series tHost t1 k then Some (real (LEAST k. locked_run series tHost t1 k) / 4) else None)"
  using assms
proof (induction t t1 arbitrary: m c rule: grid.induct)
  case (1 t t1)
  let ?P = "locked_point series tHost t1" and ?R = "locked_run series tHost t1"
  have next_t: "t + GRID_MS = tHost + GRID_MS * real (Suc m)" using "1.prems"(1) by (simp add: algebra_simps)
  show ?case
  proof (cases "t \<le> t1")
    case False
    have "\<not> ?P k" if "m \<le> k" for k
    proof -
      have "GRID_MS * real m \<le> GRID_MS * real k" using that by (simp add: GRID_MS_def)
      then show ?thesis using False "1.prems"(1) by (simp add: locked_point_def)
    qed
    then have "\<not> ?R k" for k
      using "1.prems"(3,5) locked_run_point [of series tHost t1 k "k + 2"] by (cases "k + c < m") auto
    then show ?thesis using False by (simp add: grid.simps)
  next
    case True
    note step = "1.IH" [OF True next_t]
    have Pm: "?P m = locked_at series t" using True "1.prems"(1) by (simp add: locked_point_def)
    consider "\<not> ?P m" | "?P m" "c < 2" | "?P m" "c = 2" using "1.prems"(3) by linarith
    then show ?thesis
    proof cases
      case 1
      have "\<not> ?R k" if "k < Suc m" for k
        using that "1.prems"(3,5) 1 locked_run_point [of series tHost t1 k m] by (cases "k + c < m") auto
      then have "convergence_loop series tHost 0 (grid (t + GRID_MS) t1) = (if \<exists>k. ?R k then Some (real (LEAST k. ?R k) / 4) else None)"
        by (intro step) auto
      then show ?thesis using True 1 Pm by (simp add: grid.simps [of t])
    next
      case 2
      then have "\<forall>k. Suc m \<le> k + Suc c \<and> k < Suc m \<longrightarrow> ?P k" using "1.prems"(4) by (auto simp: less_Suc_eq)
      then have "convergence_loop series tHost (Suc c) (grid (t + GRID_MS) t1) = (if \<exists>k. ?R k then Some (real (LEAST k. ?R k) / 4) else None)"
        using 2(2) "1.prems"(2,5) by (intro step) auto
      then show ?thesis using True 2 Pm by (simp add: grid.simps [of t] CONVERGENCE_POINTS_def)
    next
      case 3
      obtain i where i: "m = i + 2" using "1.prems"(2) 3(2) by (metis add.commute le_Suc_ex)
      then have R: "?R (m - 2)" using "1.prems"(4) 3 unfolding locked_run_unfold by auto
      have "(LEAST k. ?R k) = m - 2"
        using R "1.prems"(5) 3 by (intro Least_equality) (auto simp: not_less [symmetric])
      moreover have "convergence_loop series tHost c (grid t t1) = Some ((t - tHost) / 1000 - 2 * GRID_MS / 1000)"
        using True 3 Pm by (subst grid.simps) (simp add: CONVERGENCE_POINTS_def)
      moreover have "(t - tHost) / 1000 - 2 * GRID_MS / 1000 = real (m - 2) / 4" using "1.prems"(1) i by (simp add: GRID_MS_def field_simps)
      ultimately show ?thesis using R by auto
    qed
  qed
qed

text \<open>
  The convergence reported for a control is the time from it to the first of three consecutive grid points at
  which at least two clients are playing and no two of them are 0.15 s apart, and nothing is reported exactly
  when the run has no such points.
\<close>

theorem convergence_is_first_lock:
  "convergence series controls t1 =
     map (\<lambda>e. (e, if \<exists>k. locked_run series (ae_tHost e) t1 k
                 then Some (real (LEAST k. locked_run series (ae_tHost e) t1 k) / 4) else None))
       (filter (\<lambda>e. ae_kind e \<noteq> APause) controls)"
  unfolding convergence_def
  by (intro map_cong refl) (simp add: convergence_loop_from [where m = 0 and c = 0])

end
