(* ===== verification/BotClient.thy ===== *)
theory BotClient
  imports SimPlayer RunStats
begin

text \<open>
  A bot of the measurement fleet (sync-harness/src/bots/bot-client.ts): the shared estimator and controller on a
  virtual clock against the simulated player, with the integrity counters it reports, and the analysis and the
  gate over the reports of a fleet (sync-harness/src/bots/run-bots.ts). Properties: the gaps a bot reports are
  exactly the sequence numbers lost to it, in whatever order the others arrived; and what a passing gate means.
\<close>

subsection \<open>State\<close>

datatype controller_arm = ArmReactive | ArmPredictive

record bot_config =
  bc_index :: nat
  bc_clockOffsetMs :: real
  bc_clockSkew :: real
  bc_player :: sim_config
  bc_seed :: nat
  bc_controller :: "controller_arm option"
  bc_duplicateControls :: bool

record bot_sample =
  bs_bot :: nat
  bs_tReal :: real
  bs_driftS :: "jsnum option"
  bs_thetaErrorMs :: "jsnum option"
  bs_seq :: int
  bs_lifecycle :: lifecycle
  bs_ctrlState :: ctrl_state
  bs_seeks :: nat

record bot =
  bo_estimator :: clock_estimator
  bo_controller :: engine_controller
  bo_player :: "nat sim_player"
  bo_timeline :: "timeline option"
  bo_samples :: "bot_sample list"
  bo_seqsByEpoch :: "(string, int list) jsmap"
  bo_seqReorders :: nat
  bo_seqDuplicates :: nat
  bo_reconnects :: nat
  bo_rejoinFailures :: nat
  bo_dupControlsSent :: nat
  bo_reorderPairsSent :: nat
  bo_lastSeekMediaTime :: "jsnum option"
  bo_controlCommits :: "string list"
  bo_roomCode :: "string option"
  bo_handlerErrors :: "string list"
  bo_rejected :: nat

definition new_bot :: "bot_config \<Rightarrow> bot" where
  "new_bot cfg =
     \<lparr>bo_estimator = new_estimator DEFAULT_CLOCK_TUNING,
      bo_controller =
        (if bc_controller cfg = Some ArmPredictive then Servo (new_discipline DEFAULT_SERVO_TUNING DEFAULT_CONTROLLER_TUNING)
         else Reactive (new_drift DEFAULT_CONTROLLER_TUNING)),
      bo_player = new_sim (mulberry_seed (bc_seed cfg)), bo_timeline = None, bo_samples = [], bo_seqsByEpoch = [],
      bo_seqReorders = 0, bo_seqDuplicates = 0, bo_reconnects = 0, bo_rejoinFailures = 0, bo_dupControlsSent = 0,
      bo_reorderPairsSent = 0, bo_lastSeekMediaTime = None, bo_controlCommits = [], bo_roomCode = None, bo_handlerErrors = [],
      bo_rejected = 0\<rparr>"

text \<open>The bot's virtual clock at the process time \<open>real\<close>; \<open>epoch\<close> is when it was made.\<close>

definition bot_now :: "bot_config \<Rightarrow> real \<Rightarrow> real \<Rightarrow> real" where
  "bot_now cfg epoch now = now + bc_clockOffsetMs cfg + bc_clockSkew cfg * (now - epoch)"

subsection \<open>What arrives\<close>

definition commit_key :: "timeline \<Rightarrow> string" where
  "commit_key tml = storeEpoch tml @ '':'' @ js_String (Fin (of_int (seq tml)))"

definition is_control_reason :: "string \<Rightarrow> bool" where
  "is_control_reason r \<longleftrightarrow> r = ''play'' \<or> r = ''pause'' \<or> r = ''seek''"

definition bot_ingest :: "bot \<Rightarrow> timeline \<Rightarrow> bot" where
  "bot_ingest b0 tml =
     (let seen = nullish (jm_get (bo_seqsByEpoch b0) (storeEpoch tml)) [];
          b1 = b0\<lparr>bo_seqsByEpoch := jm_set (bo_seqsByEpoch b0) (storeEpoch tml) (js_add seen (seq tml))\<rparr>;
          b2 = (if is_control_reason (reason_of tml) then b1\<lparr>bo_controlCommits := js_add (bo_controlCommits b1) (commit_key tml)\<rparr> else b1);
          b3 = (if reason_of tml = ''seek'' \<and> isNewer tml (bo_timeline b2) then b2\<lparr>bo_lastSeekMediaTime := Some (mediaTime tml)\<rparr> else b2) in
      if isNewer tml (bo_timeline b3) then b3\<lparr>bo_timeline := Some tml\<rparr>
      else (case bo_timeline b3 of
          None \<Rightarrow> b3
        | Some applied \<Rightarrow>
            if storeEpoch tml = storeEpoch applied then
              (if seq tml = seq applied then b3\<lparr>bo_seqDuplicates := bo_seqDuplicates b3 + 1\<rparr>
               else b3\<lparr>bo_seqReorders := bo_seqReorders b3 + 1\<rparr>)
            else b3))"

text \<open>The answer to joining: a timeline or none. After a reconnection the answer may also be a failure.\<close>

definition bot_join :: "bot \<Rightarrow> string \<Rightarrow> timeline option \<Rightarrow> bot" where
  "bot_join b roomCode answer =
     (let b1 = b\<lparr>bo_roomCode := Some roomCode\<rparr> in case answer of None \<Rightarrow> b1 | Some tml \<Rightarrow> bot_ingest b1 tml)"

definition bot_reconnect :: "bot \<Rightarrow> timeline option option \<Rightarrow> bot" where
  "bot_reconnect b answer =
     (let b1 = b\<lparr>bo_reconnects := bo_reconnects b + 1\<rparr> in
      if \<not> truthy (bo_roomCode b1) then b1
      else (case answer of
          None \<Rightarrow> b1\<lparr>bo_rejoinFailures := bo_rejoinFailures b1 + 1\<rparr>
        | Some None \<Rightarrow> b1
        | Some (Some tml) \<Rightarrow> bot_ingest b1 tml))"

definition bot_pong :: "bot \<Rightarrow> clock_sample \<Rightarrow> js_error + bot" where
  "bot_pong b smp = (case addSample (bo_estimator b) smp of
     Inl err \<Rightarrow> Inl err
   | Inr (est, _) \<Rightarrow> Inr (b\<lparr>bo_estimator := est\<rparr>))"

subsection \<open>The tick\<close>

definition bot_execute :: "bot_config \<Rightarrow> bot \<Rightarrow> ctrl_action \<Rightarrow> real \<Rightarrow> bot" where
  "bot_execute cfg b act tBot = (case act of
     ActSeek m \<Rightarrow>
       b\<lparr>bo_player := sim_later mulberry32 (bc_player cfg) (fst (sim_setRate (bc_player cfg) (bo_player b) 1)) tBot (SimSeek m),
         bo_controller := note_rate (bo_controller b) 1\<rparr>
   | ActPlay \<Rightarrow> b\<lparr>bo_player := sim_later mulberry32 (bc_player cfg) (bo_player b) tBot SimPlay\<rparr>
   | ActPause \<Rightarrow> b\<lparr>bo_player := sim_later mulberry32 (bc_player cfg) (bo_player b) tBot SimPause\<rparr>
   | ActSetRate r \<Rightarrow>
       (let (p, applied) = sim_setRate (bc_player cfg) (bo_player b) r in
        b\<lparr>bo_player := p, bo_controller := note_rate (bo_controller b) applied\<rparr>)
   | ActClearRate \<Rightarrow>
       (let (p, applied) = sim_setRate (bc_player cfg) (bo_player b) 1 in
        b\<lparr>bo_player := p, bo_controller := note_rate (bo_controller b) applied\<rparr>)
   | ActNone \<Rightarrow> b)"

definition bot_drift :: "bot \<Rightarrow> jsnum \<Rightarrow> jsnum option" where
  "bot_drift b serverNow = (case bo_timeline b of
     None \<Rightarrow> None
   | Some tml \<Rightarrow>
       if isPlaying tml \<and> sp_lifecycle (bo_player b) = Playing
       then Some (sp_position (bo_player b) - projectMediaTime tml serverNow) else None)"

definition bot_tick :: "bot_config \<Rightarrow> real \<Rightarrow> bot \<Rightarrow> real \<Rightarrow> bot" where
  "bot_tick cfg epoch b0 now =
     (let tBot = bot_now cfg epoch now;
          b = b0\<lparr>bo_estimator := tick (bo_estimator b0) (Fin tBot), bo_player := sim_advance mulberry32 (bc_player cfg) (bo_player b0) tBot\<rparr> in
      if \<not> hasEstimate (bo_estimator b) then b
      else
        (let serverNow = serverNow_of (bo_estimator b) (Fin tBot);
             (c, act) = ctrl_evaluate (bo_controller b)
               \<lparr>ci_tLocal = Fin tBot, ci_serverNow = serverNow, ci_playerTime = sp_position (bo_player b),
                ci_playerState = sp_lifecycle (bo_player b), ci_timeline = bo_timeline b, ci_fractionalRateOK = (bc_controller cfg \<noteq> None)\<rparr>;
             b1 = bot_execute cfg (b\<lparr>bo_controller := c\<rparr>) act tBot;
             status = ctrl_getStatus (bo_controller b1) in
         b1\<lparr>bo_samples := bo_samples b1 @
           [\<lparr>bs_bot = bc_index cfg, bs_tReal = now, bs_driftS = bot_drift b1 serverNow,
             bs_thetaErrorMs = Some (offsetMs (getEstimate (bo_estimator b1)) - Fin (now - tBot)),
             bs_seq = (case bo_timeline b1 of None \<Rightarrow> - 1 | Some tml \<Rightarrow> seq tml), bs_lifecycle = sp_lifecycle (bo_player b1),
             bs_ctrlState = st_state status, bs_seeks = st_seeksIssued status\<rparr>]\<rparr>))"

subsection \<open>What is sent\<close>

record bot_send =
  bx_room :: string
  bx_intent :: string
  bx_mediaTime :: jsnum
  bx_cmdId :: string

definition bot_sendIntent :: "bot_config \<Rightarrow> bot \<Rightarrow> string \<Rightarrow> string \<Rightarrow> jsnum \<Rightarrow> string \<Rightarrow> bot \<times> bot_send list" where
  "bot_sendIntent cfg b roomCode it m cmdId =
     (let s = \<lparr>bx_room = roomCode, bx_intent = it, bx_mediaTime = m, bx_cmdId = cmdId\<rparr> in
      if bc_duplicateControls cfg then (b\<lparr>bo_dupControlsSent := bo_dupControlsSent b + 1\<rparr>, [s, s]) else (b, [s]))"

definition bot_sendIntentSwappedPair ::
  "bot_config \<Rightarrow> bot \<Rightarrow> string \<Rightarrow> string \<Rightarrow> jsnum \<Rightarrow> jsnum \<Rightarrow> string \<Rightarrow> string \<Rightarrow> bot \<times> bot_send list" where
  "bot_sendIntentSwappedPair cfg b roomCode it firstTime secondTime firstId secondId =
     (let f = \<lparr>bx_room = roomCode, bx_intent = it, bx_mediaTime = firstTime, bx_cmdId = firstId\<rparr>;
          s = \<lparr>bx_room = roomCode, bx_intent = it, bx_mediaTime = secondTime, bx_cmdId = secondId\<rparr>;
          b1 = b\<lparr>bo_reorderPairsSent := bo_reorderPairsSent b + 1\<rparr> in
      if bc_duplicateControls cfg then (b1\<lparr>bo_dupControlsSent := bo_dupControlsSent b1 + 2\<rparr>, [s, f, s, f]) else (b1, [s, f]))"

definition bot_scriptedStall :: "bot_config \<Rightarrow> real \<Rightarrow> bot \<Rightarrow> real \<Rightarrow> real \<Rightarrow> bot" where
  "bot_scriptedStall cfg epoch b now durationMs = b\<lparr>bo_player := sim_stall (bo_player b) (bot_now cfg epoch now) durationMs\<rparr>"

subsection \<open>The report\<close>

definition epoch_gaps :: "int list \<Rightarrow> int list" where
  "epoch_gaps seen = (if seen = [] then [] else filter (\<lambda>s. s \<notin> set seen) [Min (set seen) + 1..Max (set seen) - 1])"

definition seqGaps :: "bot \<Rightarrow> int list" where
  "seqGaps b = concat (map (\<lambda>e. epoch_gaps (snd e)) (bo_seqsByEpoch b))"

record bot_report =
  br_samples :: "bot_sample list"
  br_seqGaps :: "int list"
  br_seqReorders :: nat
  br_seqDuplicates :: nat
  br_reconnects :: nat
  br_rejoinFailures :: nat
  br_dupControlsSent :: nat
  br_reorderPairsSent :: nat
  br_lastSeekMediaTime :: "jsnum option"
  br_controlCommits :: "string list"
  br_handlerErrors :: "string list"
  br_rejected :: nat

definition report :: "bot \<Rightarrow> bot_report" where
  "report b =
     \<lparr>br_samples = bo_samples b, br_seqGaps = seqGaps b, br_seqReorders = bo_seqReorders b, br_seqDuplicates = bo_seqDuplicates b,
      br_reconnects = bo_reconnects b, br_rejoinFailures = bo_rejoinFailures b, br_dupControlsSent = bo_dupControlsSent b,
      br_reorderPairsSent = bo_reorderPairsSent b, br_lastSeekMediaTime = bo_lastSeekMediaTime b,
      br_controlCommits = bo_controlCommits b, br_handlerErrors = bo_handlerErrors b, br_rejected = bo_rejected b\<rparr>"

subsection \<open>The gate over a fleet\<close>

definition fleet_steady :: "real \<Rightarrow> real list \<Rightarrow> real \<Rightarrow> bool" where
  "fleet_steady t0 controlAtMs t \<longleftrightarrow> t - t0 > 15000 \<and> \<not> list_ex (\<lambda>c. t \<ge> c \<and> t - c < 5000) controlAtMs"

definition fleet_samples :: "bot_report list \<Rightarrow> bot_sample list" where
  "fleet_samples reports = concat (map br_samples reports)"

text \<open>The steady drifts in milliseconds, each with the ten-second bucket it falls into.\<close>

definition steady_points :: "real \<Rightarrow> real list \<Rightarrow> bot_report list \<Rightarrow> (int \<times> jsnum) list" where
  "steady_points t0 controlAtMs reports =
     List.map_filter (\<lambda>s. case bs_driftS s of
         None \<Rightarrow> None
       | Some d \<Rightarrow> if fleet_steady t0 controlAtMs (bs_tReal s) then Some (\<lfloor>(bs_tReal s - t0) / 10000\<rfloor>, \<bar>d\<bar> * 1000) else None)
       (fleet_samples reports)"

definition steadyDrifts :: "real \<Rightarrow> real list \<Rightarrow> bot_report list \<Rightarrow> jsnum list" where
  "steadyDrifts t0 controlAtMs reports = map snd (steady_points t0 controlAtMs reports)"

definition js_order :: "jsnum list \<Rightarrow> jsnum list" where
  "js_order xs = js_sort (\<lambda>a b. a - b) xs"

definition js_percentile :: "jsnum list \<Rightarrow> real \<Rightarrow> jsnum" where
  "js_percentile xs p = nullish (percentile (js_order xs) p) NaN"

definition timeBuckets :: "(int \<times> jsnum) list \<Rightarrow> (int, jsnum list) jsmap" where
  "timeBuckets points = foldl (\<lambda>m (k, v). jm_set m k (nullish (jm_get m k) [] @ [v])) [] points"

definition quiet_buckets :: "(int \<times> jsnum) list \<Rightarrow> (jsnum \<times> jsnum) list" where
  "quiet_buckets points =
     map (\<lambda>(k, v). (Fin (of_int k), js_percentile v 50)) (filter (\<lambda>(k, v). k \<ge> 7) (sort_key fst (timeBuckets points)))"

definition js_sum :: "('a \<Rightarrow> jsnum) \<Rightarrow> 'a list \<Rightarrow> jsnum" where
  "js_sum f xs = foldl (\<lambda>s x. s + f x) 0 xs"

definition slopeMsPerMin :: "(jsnum \<times> jsnum) list \<Rightarrow> jsnum" where
  "slopeMsPerMin buckets =
     (if 3 \<le> length buckets then
        (let n = Fin (of_nat (length buckets));
             mx = js_sum fst buckets / n; my = js_sum snd buckets / n;
             num = js_sum (\<lambda>b. (fst b - mx) * (snd b - my)) buckets;
             den = js_sum (\<lambda>b. (fst b - mx) * (fst b - mx)) buckets in
         if den > 0 then num / den * 6 else 0)
      else 0)"

definition controlCommitsObserved :: "bot_report list \<Rightarrow> nat" where
  "controlCommitsObserved reports = length (remdups (concat (map br_controlCommits reports)))"

datatype gate_failure =
    DriftTooLarge jsnum
  | SlopeTooLarge jsnum
  | SeqGaps nat
  | HandlerErrors nat
  | FailedRejoins nat
  | DuplicateApplied nat nat
  | CommandLost nat nat
  | NoPairSent
  | OffWitness nat nat

definition off_witness :: "bot_report \<Rightarrow> bool" where
  "off_witness r = (case br_lastSeekMediaTime r of None \<Rightarrow> True | Some m \<Rightarrow> \<bar>m - 500\<bar> > 1)"

definition gate_failures :: "real \<Rightarrow> real list \<Rightarrow> nat \<Rightarrow> bool \<Rightarrow> bot_report list \<Rightarrow> gate_failure list" where
  "gate_failures t0 controlAtMs scriptedControls reorderControls reports =
     (let points = steady_points t0 controlAtMs reports;
          p95 = js_percentile (map snd points) 95;
          slope = slopeMsPerMin (quiet_buckets points);
          gaps = concat (map br_seqGaps reports);
          errors = concat (map br_handlerErrors reports);
          rejoins = sum_list (map br_rejoinFailures reports);
          commits = controlCommitsObserved reports;
          pairs = sum_list (map br_reorderPairsSent reports);
          off = filter off_witness reports in
      (if \<not> p95 < 250 then [DriftTooLarge p95] else []) @
      (if \<not> \<bar>slope\<bar> < 15 then [SlopeTooLarge slope] else []) @
      (if 0 < length gaps then [SeqGaps (length gaps)] else []) @
      (if 0 < length errors then [HandlerErrors (length errors)] else []) @
      (if 0 < rejoins then [FailedRejoins rejoins] else []) @
      (if commits > scriptedControls then [DuplicateApplied commits scriptedControls]
       else if commits < scriptedControls then [CommandLost commits scriptedControls] else []) @
      (if reorderControls then
         (if pairs < 1 then [NoPairSent] else []) @ (if 0 < length off then [OffWitness (length off) (length reports)] else [])
       else []))"

subsection \<open>Histories\<close>

datatype bot_event =
    BotTimeline timeline
  | BotJoined string "timeline option"
  | BotReconnected "timeline option option"
  | BotRejected
  | BotError string
  | BotPong clock_sample
  | BotTick real real
  | BotStall real real real

definition bot_step :: "bot_config \<Rightarrow> bot \<Rightarrow> bot_event \<Rightarrow> js_error + bot" where
  "bot_step cfg b ev = (case ev of
     BotTimeline tml \<Rightarrow> Inr (bot_ingest b tml)
   | BotJoined code answer \<Rightarrow> Inr (bot_join b code answer)
   | BotReconnected answer \<Rightarrow> Inr (bot_reconnect b answer)
   | BotRejected \<Rightarrow> Inr (b\<lparr>bo_rejected := bo_rejected b + 1\<rparr>)
   | BotError err \<Rightarrow> Inr (b\<lparr>bo_handlerErrors := bo_handlerErrors b @ [err]\<rparr>)
   | BotPong smp \<Rightarrow> bot_pong b smp
   | BotTick epoch now \<Rightarrow> Inr (bot_tick cfg epoch b now)
   | BotStall epoch now d \<Rightarrow> Inr (bot_scriptedStall cfg epoch b now d))"

fun bot_run :: "bot_config \<Rightarrow> bot \<Rightarrow> bot_event list \<Rightarrow> js_error + bot" where
  "bot_run cfg b [] = Inr b"
| "bot_run cfg b (ev # evs) = (case bot_step cfg b ev of Inl err \<Rightarrow> Inl err | Inr b' \<Rightarrow> bot_run cfg b' evs)"

text \<open>The timelines an event hands to the bot.\<close>

definition handed :: "bot \<Rightarrow> bot_event \<Rightarrow> timeline list" where
  "handed b ev = (case ev of
     BotTimeline tml \<Rightarrow> [tml]
   | BotJoined code (Some tml) \<Rightarrow> [tml]
   | BotReconnected (Some (Some tml)) \<Rightarrow> if truthy (bo_roomCode b) then [tml] else []
   | _ \<Rightarrow> [])"

fun all_handed :: "bot_config \<Rightarrow> bot \<Rightarrow> bot_event list \<Rightarrow> timeline list" where
  "all_handed cfg b [] = []"
| "all_handed cfg b (ev # evs) = handed b ev @ (case bot_step cfg b ev of Inl err \<Rightarrow> [] | Inr b' \<Rightarrow> all_handed cfg b' evs)"

text \<open>The integrity counters of a bot, apart from which nothing is reported of what it received.\<close>

definition tally :: "bot \<Rightarrow> (string, int list) jsmap \<times> string list" where
  "tally b = (bo_seqsByEpoch b, bo_controlCommits b)"

definition tally_add :: "(string, int list) jsmap \<times> string list \<Rightarrow> timeline \<Rightarrow> (string, int list) jsmap \<times> string list" where
  "tally_add x tml =
     (jm_set (fst x) (storeEpoch tml) (js_add (nullish (jm_get (fst x) (storeEpoch tml)) []) (seq tml)),
      if is_control_reason (reason_of tml) then js_add (snd x) (commit_key tml) else snd x)"

lemma tally_ingest: "tally (bot_ingest b tml) = tally_add (tally b) tml"
  by (simp add: tally_def tally_add_def bot_ingest_def Let_def split: option.split)

lemma tally_execute [simp]: "tally (bot_execute cfg b act t) = tally b"
  by (simp add: tally_def bot_execute_def prod.case_eq_if Let_def split: ctrl_action.split)

lemma tally_update [simp]:
  "tally (b\<lparr>bo_estimator := x1\<rparr>) = tally b" "tally (b\<lparr>bo_player := x2\<rparr>) = tally b" "tally (b\<lparr>bo_controller := x3\<rparr>) = tally b"
  "tally (b\<lparr>bo_samples := x4\<rparr>) = tally b" "tally (b\<lparr>bo_roomCode := x5\<rparr>) = tally b" "tally (b\<lparr>bo_reconnects := x6\<rparr>) = tally b"
  "tally (b\<lparr>bo_rejoinFailures := x7\<rparr>) = tally b" "tally (b\<lparr>bo_rejected := x8\<rparr>) = tally b" "tally (b\<lparr>bo_handlerErrors := x9\<rparr>) = tally b"
  by (simp_all add: tally_def)

lemma tally_tick [simp]: "tally (bot_tick cfg epoch b now) = tally b"
  by (simp add: bot_tick_def Let_def prod.case_eq_if)

lemma tally_step:
  assumes "bot_step cfg b ev = Inr b'"
  shows "tally b' = foldl tally_add (tally b) (handed b ev)"
  using assms
  by (auto simp: bot_step_def handed_def bot_join_def bot_reconnect_def bot_pong_def bot_scriptedStall_def tally_ingest Let_def
    split: bot_event.splits option.splits sum.splits prod.splits if_splits)

lemma tally_run: "bot_run cfg b evs = Inr b' \<Longrightarrow> tally b' = foldl tally_add (tally b) (all_handed cfg b evs)"
proof (induction evs arbitrary: b)
  case (Cons ev evs)
  then obtain b1 where "bot_step cfg b ev = Inr b1" "bot_run cfg b1 evs = Inr b'" by (auto split: sum.splits)
  then show ?case using Cons.IH [of b1] tally_step [of cfg b ev b1] by simp
qed simp

text \<open>No event makes a bot raise.\<close>

definition bot_estimates :: "bot \<Rightarrow> bool" where
  "bot_estimates b \<longleftrightarrow> 0 < bestK (ce_tuning (bo_estimator b))"

lemma ingest_estimator [simp]: "bo_estimator (bot_ingest b tml) = bo_estimator b"
  by (simp add: bot_ingest_def Let_def split: option.split)

lemma execute_keeps_estimator [simp]: "bo_estimator (bot_execute cfg b act t) = bo_estimator b"
  by (simp add: bot_execute_def prod.case_eq_if Let_def split: ctrl_action.split)

lemma tick_keeps_tuning [simp]: "ce_tuning (bo_estimator (bot_tick cfg epoch b now)) = ce_tuning (bo_estimator b)"
  by (simp add: bot_tick_def Let_def prod.case_eq_if)

lemma bot_step_total: "bot_estimates b \<Longrightarrow> \<exists>b'. bot_step cfg b ev = Inr b' \<and> bot_estimates b'"
proof (cases ev)
  case (BotPong smp)
  assume b: "bot_estimates b"
  then obtain est r where "addSample (bo_estimator b) smp = Inr (est, r)" "ce_tuning est = ce_tuning (bo_estimator b)"
    using addSample_Inr [of "bo_estimator b" smp] by (auto simp: bot_estimates_def)
  then show ?thesis using b by (simp add: BotPong bot_step_def bot_pong_def bot_estimates_def)
qed (auto simp: bot_step_def bot_estimates_def bot_join_def bot_reconnect_def bot_scriptedStall_def Let_def split: option.split)

lemma bot_run_total: "\<exists>b'. bot_run cfg (new_bot cfg') evs = Inr b'"
proof -
  have "bot_estimates b \<Longrightarrow> \<exists>b'. bot_run cfg b evs = Inr b'" for b
  proof (induction evs arbitrary: b)
    case (Cons ev evs)
    then obtain b1 where "bot_step cfg b ev = Inr b1" "bot_estimates b1" using bot_step_total by blast
    then show ?case using Cons.IH by auto
  qed simp
  then show ?thesis by (simp add: bot_estimates_def new_bot_def new_estimator_def DEFAULT_CLOCK_TUNING_def)
qed

subsection \<open>Gaps\<close>

definition seen_at :: "(string, int list) jsmap \<times> string list \<Rightarrow> string \<Rightarrow> int set" where
  "seen_at x ep = set (nullish (jm_get (fst x) ep) [])"

lemma seen_at_add: "seen_at (tally_add x tml) ep = (if ep = storeEpoch tml then insert (seq tml) (seen_at x ep) else seen_at x ep)"
  by (simp add: seen_at_def tally_add_def)

lemma seen_at_run: "seen_at (foldl tally_add x ds) ep = seen_at x ep \<union> {seq d | d. d \<in> set ds \<and> storeEpoch d = ep}"
  by (induction ds arbitrary: x) (auto simp: seen_at_add)

lemma tally_ok: "jm_ok (fst x) \<Longrightarrow> jm_ok (fst (foldl tally_add x ds))"
  by (induction ds arbitrary: x) (simp_all add: tally_add_def)

lemma epoch_gaps_iff: "s \<in> set (epoch_gaps seen) \<longleftrightarrow> s \<notin> set seen \<and> (\<exists>a\<in>set seen. a < s) \<and> (\<exists>c\<in>set seen. s < c)"
proof (cases "seen = []")
  case False
  then have "Min (set seen) < s \<longleftrightarrow> (\<exists>a\<in>set seen. a < s)" "s < Max (set seen) \<longleftrightarrow> (\<exists>c\<in>set seen. s < c)"
    by (simp_all add: Min_less_iff Max_gr_iff)
  then show ?thesis using False by (auto simp: epoch_gaps_def)
qed (simp add: epoch_gaps_def)

lemma seqGaps_iff:
  assumes "jm_ok (bo_seqsByEpoch b)"
  shows "s \<in> set (seqGaps b) \<longleftrightarrow> (\<exists>ep. s \<notin> seen_at (tally b) ep \<and> (\<exists>a\<in>seen_at (tally b) ep. a < s) \<and> (\<exists>c\<in>seen_at (tally b) ep. s < c))"
proof -
  have "s \<in> set (seqGaps b) \<longleftrightarrow> (\<exists>ep seen. jm_get (bo_seqsByEpoch b) ep = Some seen \<and> s \<in> set (epoch_gaps seen))"
    by (force simp: seqGaps_def jm_get_mem [OF assms])
  also have "\<dots> \<longleftrightarrow> (\<exists>ep. s \<in> set (epoch_gaps (nullish (jm_get (bo_seqsByEpoch b) ep) [])))"
    by (metis epoch_gaps_iff empty_iff list.set(1) not_None_eq nullish_simps(1) nullish_simps(2))
  finally show ?thesis by (simp add: epoch_gaps_iff seen_at_def tally_def)
qed

lemma run_gaps:
  assumes "bot_run cfg (new_bot cfg) evs = Inr b"
  shows "s \<in> set (seqGaps b) \<longleftrightarrow>
    (\<exists>ep. (\<exists>d\<in>set (all_handed cfg (new_bot cfg) evs). storeEpoch d = ep \<and> seq d < s) \<and>
          (\<exists>d\<in>set (all_handed cfg (new_bot cfg) evs). storeEpoch d = ep \<and> s < seq d) \<and>
          (\<forall>d\<in>set (all_handed cfg (new_bot cfg) evs). storeEpoch d = ep \<longrightarrow> seq d \<noteq> s))"
proof -
  let ?ds = "all_handed cfg (new_bot cfg) evs"
  have t: "tally b = foldl tally_add ([], []) ?ds" using tally_run [OF assms] by (simp add: tally_def new_bot_def)
  have "jm_ok (fst (tally b))" unfolding t by (rule tally_ok) simp
  then have ok: "jm_ok (bo_seqsByEpoch b)" by (simp add: tally_def)
  have seen: "seen_at (tally b) ep = {seq d | d. d \<in> set ?ds \<and> storeEpoch d = ep}" for ep
    unfolding t seen_at_run by (simp add: seen_at_def)
  show ?thesis unfolding seqGaps_iff [OF ok] seen by blast
qed

text \<open>
  C38. Whatever happens to a bot (timelines pushed or returned from joins in any order, reconnections, refusals,
  errors, clock answers, ticks, stalls) its run completes, and the gaps it reports are exactly the lost
  sequence numbers: those strictly between two that arrived on an epoch and that never arrived on it
  themselves. A late arrival is not a loss.
\<close>

theorem gaps_are_the_losses:
  "\<exists>b. bot_run cfg (new_bot cfg) evs = Inr b \<and>
     (\<forall>s. s \<in> set (seqGaps b) \<longleftrightarrow>
       (\<exists>ep. (\<exists>d\<in>set (all_handed cfg (new_bot cfg) evs). storeEpoch d = ep \<and> seq d < s) \<and>
             (\<exists>d\<in>set (all_handed cfg (new_bot cfg) evs). storeEpoch d = ep \<and> s < seq d) \<and>
             (\<forall>d\<in>set (all_handed cfg (new_bot cfg) evs). storeEpoch d = ep \<longrightarrow> seq d \<noteq> s)))"
  using bot_run_total [of cfg cfg evs] run_gaps [of cfg evs] by blast

definition stamp :: "int \<Rightarrow> string \<Rightarrow> real \<Rightarrow> timeline" where
  "stamp n why m = \<lparr>seq = n, storeEpoch = ''7'', videoId = None, isPlaying = True, mediaTime = Fin m, stampedAt = 0, rate = 1, reason_of = why, by_user = None\<rparr>"

definition demo_bot :: bot_config where
  "demo_bot = \<lparr>bc_index = 0, bc_clockOffsetMs = 0, bc_clockSkew = 0, bc_player = bot_player, bc_seed = 1, bc_controller = None, bc_duplicateControls = False\<rparr>"

lemma handed_stamps: "all_handed cfg b (map (\<lambda>n. BotTimeline (stamp n why m)) ns) = map (\<lambda>n. stamp n why m) ns"
  by (induction ns arbitrary: b) (simp_all add: handed_def bot_step_def)

theorem gaps_are_the_losses_witness:
  "\<exists>b. bot_run demo_bot (new_bot demo_bot) (map (\<lambda>n. BotTimeline (stamp n ''play'' 0)) [1, 3, 2, 5]) = Inr b \<and>
     4 \<in> set (seqGaps b) \<and> 2 \<notin> set (seqGaps b)"
proof -
  obtain b where b: "bot_run demo_bot (new_bot demo_bot) (map (\<lambda>n. BotTimeline (stamp n ''play'' 0)) [1, 3, 2, 5]) = Inr b"
    "s \<in> set (seqGaps b) \<longleftrightarrow> (\<exists>ep. (\<exists>d\<in>set (map (\<lambda>n. stamp n ''play'' 0) [1, 3, 2, 5]). storeEpoch d = ep \<and> seq d < s) \<and>
       (\<exists>d\<in>set (map (\<lambda>n. stamp n ''play'' 0) [1, 3, 2, 5]). storeEpoch d = ep \<and> s < seq d) \<and>
       (\<forall>d\<in>set (map (\<lambda>n. stamp n ''play'' 0) [1, 3, 2, 5]). storeEpoch d = ep \<longrightarrow> seq d \<noteq> s))" for s
    using gaps_are_the_losses [of demo_bot "map (\<lambda>n. BotTimeline (stamp n ''play'' 0)) [1, 3, 2, 5]"] unfolding handed_stamps by blast
  have "4 \<in> set (seqGaps b)" "2 \<notin> set (seqGaps b)" unfolding b(2) by (simp_all add: stamp_def)
  then show ?thesis using b(1) by blast
qed

subsection \<open>What is not counted as said\<close>

text \<open>
  A repetition of an older sequence number is counted as a reordering, although it arrived in order the first
  time, and a seek that arrives late is not recorded as the last seek, although arrival order is what the
  witness is said to follow.
\<close>

lemma isNewer_None [simp]: "isNewer x None"
  by (simp add: isNewer_def)

lemma isNewer_same_epoch: "storeEpoch x = storeEpoch y \<Longrightarrow> isNewer x (Some y) = (seq y < seq x)"
  by (auto simp: isNewer_def isFinite_def is_fin_iff js_eq_def Let_def)

lemma late_repeat_counts_as_reorder:
  "bo_seqReorders (foldl bot_ingest (new_bot cfg) (map (\<lambda>n. stamp n ''play'' 0) [1, 2, 1])) = 1"
  "bo_seqDuplicates (foldl bot_ingest (new_bot cfg) (map (\<lambda>n. stamp n ''play'' 0) [1, 2, 1])) = 0"
  by (simp_all add: bot_ingest_def new_bot_def stamp_def isNewer_same_epoch is_control_reason_def Let_def)

lemma late_seek_is_not_last:
  "bo_lastSeekMediaTime (foldl bot_ingest (new_bot cfg) [stamp 2 ''seek'' 520, stamp 1 ''seek'' 500]) = Some (Fin 520)"
  by (simp add: bot_ingest_def new_bot_def stamp_def isNewer_same_epoch is_control_reason_def Let_def)

subsection \<open>What a passing gate means\<close>

lemma commit_key_inj:
  assumes "0 \<le> seq x" "0 \<le> seq y"
  shows "commit_key x = commit_key y \<longleftrightarrow> (storeEpoch x, seq x) = (storeEpoch y, seq y)"
proof -
  have k: "js_String (Fin (of_int (int n))) = show_nat n" for n by simp
  obtain m n where mn: "seq x = int m" "seq y = int n" using assms by (metis nonneg_int_cases)
  have "CHR '':'' \<notin> set (show_nat i)" for i using show_nat_digits [of i] by (auto simp: list_all_iff is_digit_def)
  then show ?thesis unfolding commit_key_def mn k
    using last_sep_unique [of "storeEpoch x" "CHR '':''" "show_nat m" "storeEpoch y" "show_nat n"] by auto
qed

lemma commits_run: "set (snd (foldl tally_add x ds)) = set (snd x) \<union> commit_key ` {d \<in> set ds. is_control_reason (reason_of d)}"
  by (induction ds arbitrary: x) (auto simp: tally_add_def)

text \<open>The reports of a fleet: one per bot, since no bot raises.\<close>

definition fleet_reports :: "(bot_config \<times> bot_event list) list \<Rightarrow> bot_report list" where
  "fleet_reports runs = concat (map (\<lambda>(cfg, evs). case bot_run cfg (new_bot cfg) evs of Inl err \<Rightarrow> [] | Inr b \<Rightarrow> [report b]) runs)"

definition received :: "bot_config \<times> bot_event list \<Rightarrow> timeline set" where
  "received r = set (all_handed (fst r) (new_bot (fst r)) (snd r))"

lemma fleet_member:
  assumes "r \<in> set runs"
  obtains b where "bot_run (fst r) (new_bot (fst r)) (snd r) = Inr b" "report b \<in> set (fleet_reports runs)"
proof -
  obtain b where "bot_run (fst r) (new_bot (fst r)) (snd r) = Inr b" using bot_run_total by blast
  with assms show ?thesis by (intro that [of b]) (force simp: fleet_reports_def prod.case_eq_if)+
qed

lemma run_commits:
  assumes "bot_run cfg (new_bot cfg) evs = Inr b"
  shows "set (bo_controlCommits b) = commit_key ` {d \<in> received (cfg, evs). is_control_reason (reason_of d)}"
proof -
  have "tally b = foldl tally_add ([], []) (all_handed cfg (new_bot cfg) evs)" using tally_run [OF assms] by (simp add: tally_def new_bot_def)
  from commits_run [of "([], [])" "all_handed cfg (new_bot cfg) evs", folded this] show ?thesis by (simp add: tally_def received_def)
qed

lemma fleet_commits:
  "set (concat (map br_controlCommits (fleet_reports runs))) = commit_key ` {d. \<exists>r\<in>set runs. d \<in> received r \<and> is_control_reason (reason_of d)}"
proof -
  have "set (concat (map br_controlCommits (case bot_run cfg (new_bot cfg) evs of Inl err \<Rightarrow> [] | Inr b \<Rightarrow> [report b]))) =
      commit_key ` {d \<in> received (cfg, evs). is_control_reason (reason_of d)}" for cfg evs
  proof -
    obtain b where "bot_run cfg (new_bot cfg) evs = Inr b" using bot_run_total by blast
    then show ?thesis by (simp add: report_def run_commits)
  qed
  then have "set (concat (map br_controlCommits (fleet_reports runs))) =
      (\<Union>r\<in>set runs. commit_key ` {d \<in> received r. is_control_reason (reason_of d)})"
    unfolding fleet_reports_def by (induction runs) (auto simp del: set_concat)
  then show ?thesis by blast
qed

lemma commits_counted:
  assumes "\<forall>r\<in>set runs. \<forall>d\<in>received r. 0 \<le> seq d"
  shows "controlCommitsObserved (fleet_reports runs) =
    card {(storeEpoch d, seq d) | d. \<exists>r\<in>set runs. d \<in> received r \<and> is_control_reason (reason_of d)}"
proof -
  let ?D = "{d. \<exists>r\<in>set runs. d \<in> received r \<and> is_control_reason (reason_of d)}"
  define K where "K = (\<lambda>(ep, n). ep @ '':'' @ js_String (Fin (of_int n)))"
  have "commit_key ` ?D = K ` ((\<lambda>d. (storeEpoch d, seq d)) ` ?D)" by (simp add: image_image K_def commit_key_def)
  moreover have "inj_on K ((\<lambda>d. (storeEpoch d, seq d)) ` ?D)"
    using assms commit_key_inj by (fastforce simp: inj_on_def K_def commit_key_def)
  moreover have "{(storeEpoch d, seq d) | d. \<exists>r\<in>set runs. d \<in> received r \<and> is_control_reason (reason_of d)} = (\<lambda>d. (storeEpoch d, seq d)) ` ?D" by auto
  ultimately show ?thesis unfolding controlCommitsObserved_def length_remdups_card_conv fleet_commits by (simp add: card_image)
qed

lemma percentile_bound:
  assumes "js_percentile (map Fin xs) p < Fin c" "0 < p" "p \<le> 100"
  shows "xs \<noteq> [] \<and> p / 100 * real (length xs) \<le> real (length (filter (\<lambda>x. x < c) xs))"
proof -
  have e: "js_order (map Fin xs) = map Fin (sort xs)" by (simp add: js_order_def js_sort_Fin)
  have ne: "xs \<noteq> []" using assms(1) by (auto simp: js_percentile_def js_order_def percentile_def)
  from percentile_is_nearest_rank [OF this assms(2,3)] obtain v where v: "percentile (sort xs) p = Some v"
    "p / 100 * real (length xs) \<le> real (length (filter (\<lambda>x. x \<le> v) xs))" by blast
  have "v < c" using assms(1) v(1) by (simp add: js_percentile_def e percentile_map)
  then have "length (filter (\<lambda>x. x \<le> v) xs) \<le> length (filter (\<lambda>x. x < c) xs)"
    by (induction xs) auto
  then show ?thesis using v(2) ne by linarith
qed

text \<open>
  C39. What a passing gate means. If the reports of a fleet give the gate no reason to fail, then no bot lost a
  sequence number between two it received, the control commits the fleet saw, counted by epoch and number,
  are exactly as many as the commands issued (none was applied twice and none was lost), and there are
  steady samples, at least 95 percent of them less than 250 ms from the timeline.
\<close>

theorem passing_gate_means:
  assumes "gate_failures t0 controlAtMs scripted reorder (fleet_reports runs) = []"
    and "\<forall>r\<in>set runs. \<forall>d\<in>received r. 0 \<le> seq d"
    and "steadyDrifts t0 controlAtMs (fleet_reports runs) = map Fin drifts"
  shows "(\<forall>r\<in>set runs. \<forall>a\<in>received r. \<forall>c\<in>received r. \<forall>s. storeEpoch a = storeEpoch c \<and> seq a < s \<and> s < seq c \<longrightarrow>
       (\<exists>d\<in>received r. storeEpoch d = storeEpoch a \<and> seq d = s)) \<and>
    card {(storeEpoch d, seq d) | d. \<exists>r\<in>set runs. d \<in> received r \<and> is_control_reason (reason_of d)} = scripted \<and>
    drifts \<noteq> [] \<and> 95 / 100 * real (length drifts) \<le> real (length (filter (\<lambda>x. x < 250) drifts))"
proof (intro conjI ballI allI impI)
  have gaps: "concat (map br_seqGaps (fleet_reports runs)) = []" and
    commits: "controlCommitsObserved (fleet_reports runs) = scripted" and
    p95: "js_percentile (map Fin drifts) 95 < Fin 250"
    using assms(1) unfolding gate_failures_def Let_def assms(3) [unfolded steadyDrifts_def] by (auto split: if_splits)
  show "card {(storeEpoch d, seq d) | d. \<exists>r\<in>set runs. d \<in> received r \<and> is_control_reason (reason_of d)} = scripted"
    using commits commits_counted [OF assms(2)] by simp
  show "drifts \<noteq> []" "95 / 100 * real (length drifts) \<le> real (length (filter (\<lambda>x. x < 250) drifts))"
    using percentile_bound [OF p95] by simp_all
  fix r a c s
  assume r: "r \<in> set runs" and a: "a \<in> received r" and c: "c \<in> received r" and s: "storeEpoch a = storeEpoch c \<and> seq a < s \<and> s < seq c"
  obtain b where b: "bot_run (fst r) (new_bot (fst r)) (snd r) = Inr b" "report b \<in> set (fleet_reports runs)" using fleet_member [OF r] by blast
  then have "s \<notin> set (seqGaps b)" using gaps by (force simp: report_def)
  then show "\<exists>d\<in>received r. storeEpoch d = storeEpoch a \<and> seq d = s"
    unfolding run_gaps [OF b(1)] received_def [symmetric] using a c s by metis
qed

definition prompt_player :: sim_config where
  "prompt_player = bot_player\<lparr>sc_commandLatencyMinMs := 0, sc_commandLatencyMaxMs := 0\<rparr>"

definition prompt_bot :: bot_config where
  "prompt_bot = demo_bot\<lparr>bc_player := prompt_player\<rparr>"

definition demo_run :: "bot_event list" where
  "demo_run = [BotPong demo_sample, BotTimeline ((stamp 1 ''play'' 0)\<lparr>stampedAt := 21000\<rparr>), BotTick 0 20000, BotTick 0 21000]"

lemmas bot_defs = bot_step_def bot_pong_def bot_ingest_def bot_tick_def bot_now_def bot_execute_def bot_drift_def
  sim_advance_def sim_flush_def sim_unstall_def sim_move_def sim_later_def sim_draw_def sim_act_def prod.case_eq_if Let_def

lemma demo_pong:
  "addSample (new_estimator DEFAULT_CLOCK_TUNING) demo_sample =
     Inr (\<lparr>ce_samples = [\<lparr>ss_theta = 0, ss_delta = 20, ss_t3 = 20\<rparr>], ce_applied = Some 0, ce_target = 0, ce_uncertainty = 10, ce_lastRtt = 20,
       ce_lastTick = None, ce_tuning = DEFAULT_CLOCK_TUNING\<rparr>, True)"
  by (simp add: addSample_def recompute_def best_samples_def new_estimator_def DEFAULT_CLOCK_TUNING_def demo_sample_def js_median_def take_last_def Let_def)

lemma demo_slew: "slewRatePerS DEFAULT_CLOCK_TUNING = Fin 5"
  by (simp add: DEFAULT_CLOCK_TUNING_def)

lemma demo_bot_run:
  "\<exists>b. bot_run prompt_bot (new_bot prompt_bot) demo_run = Inr b \<and> map (\<lambda>s. (bs_tReal s, bs_driftS s)) (bo_samples b) = [(20000, None), (21000, Some (Fin 0))] \<and>
     bo_seqsByEpoch b = [(''7'', [1])] \<and> (\<exists>k. bo_controlCommits b = [k]) \<and> bo_handlerErrors b = [] \<and> bo_rejoinFailures b = 0"
  by (simp add: demo_run_def prompt_bot_def prompt_player_def demo_bot_def bot_player_def bot_defs new_bot_def demo_pong stamp_def demo_slew isNewer_None is_control_reason_def
    hasEstimate_def tick_def serverNow_of_def ctrl_evaluate_def drift_evaluate_def eval_start_def eval_playing_def eval_seeking_def new_drift_def new_sim_def
    js_add_def push_window_def js_median_def projectMediaTime_def DEFAULT_CONTROLLER_TUNING_def ctrl_getStatus_def drift_getStatus_def)

lemma demo_received: "received (prompt_bot, demo_run) = {(stamp 1 ''play'' 0)\<lparr>stampedAt := 21000\<rparr>}"
proof -
  have "all_handed prompt_bot (new_bot prompt_bot) demo_run = [(stamp 1 ''play'' 0)\<lparr>stampedAt := 21000\<rparr>]"
    by (simp add: demo_run_def handed_def bot_step_def bot_pong_def new_bot_def demo_pong)
  then show ?thesis by (simp add: received_def)
qed

theorem passing_gate_means_witness:
  "gate_failures 0 [] 1 False (fleet_reports [(prompt_bot, demo_run)]) = [] \<and>
   card {(storeEpoch d, seq d) | d. \<exists>r\<in>set [(prompt_bot, demo_run)]. d \<in> received r \<and> is_control_reason (reason_of d)} = 1"
proof -
  obtain b k where b: "bot_run prompt_bot (new_bot prompt_bot) demo_run = Inr b"
    "map (\<lambda>s. (bs_tReal s, bs_driftS s)) (bo_samples b) = [(20000, None), (21000, Some (Fin 0))]"
    "bo_seqsByEpoch b = [(''7'', [1])]" "bo_controlCommits b = [k]" "bo_handlerErrors b = []" "bo_rejoinFailures b = 0"
    using demo_bot_run by (elim exE conjE) (rule that; assumption)
  obtain x y where xy: "bo_samples b = [x, y]" "bs_tReal x = 20000" "bs_driftS x = None" "bs_tReal y = 21000" "bs_driftS y = Some (Fin 0)"
    using b(2) by (auto simp: map_eq_Cons_conv)
  have pts: "steady_points 0 [] (fleet_reports [(prompt_bot, demo_run)]) = [(2, Fin 0)]"
    by (simp add: steady_points_def fleet_samples_def fleet_reports_def b(1) report_def xy fleet_steady_def floor_eq_iff)
  have pass: "gate_failures 0 [] 1 False (fleet_reports [(prompt_bot, demo_run)]) = []"
    unfolding gate_failures_def Let_def pts
    by (simp add: fleet_reports_def b report_def seqGaps_def epoch_gaps_def controlCommitsObserved_def js_percentile_def js_order_def percentile_def
      slopeMsPerMin_def quiet_buckets_def timeBuckets_def)
  have nonneg: "\<forall>r\<in>set [(prompt_bot, demo_run)]. \<forall>d\<in>received r. 0 \<le> seq d" by (simp add: demo_received stamp_def)
  have drifts: "steadyDrifts 0 [] (fleet_reports [(prompt_bot, demo_run)]) = map Fin [0]" by (simp add: steadyDrifts_def pts)
  show ?thesis using pass passing_gate_means [OF pass nonneg drifts] by blast
qed

end
