(* ===== verification/BinaryFrames.thy ===== *)
theory BinaryFrames
  imports Gateway "HOL-Library.Word"
begin

text \<open>
  The binary plane: the bots' raw WebSocket transport (sync-harness/src/bots/transport.ts) and the frames of the
  relay it talks to (relay-go/main.go). A frame is a list of bytes; writing fields at increasing offsets of a
  fresh buffer is concatenation, and a byte that does not fit raises, which is \<^term>\<open>None\<close>. A number is eight
  little-endian bytes in the IEEE 754 format, on both sides. The frames are over any codec that is exact on
  doubles, the locale \<open>double_codec\<close>, whose interpretation is that format. Property: what one side writes the
  other reads.
\<close>

type_synonym byte = "8 word"

subsection \<open>Bytes\<close>

fun le_bytes :: "nat \<Rightarrow> nat \<Rightarrow> byte list" where
  "le_bytes 0 n = []"
| "le_bytes (Suc k) n = of_nat n # le_bytes k (n div 256)"

fun le_val :: "byte list \<Rightarrow> nat" where
  "le_val [] = 0"
| "le_val (b # bs) = unat b + 256 * le_val bs"

definition writeUInt8 :: "int \<Rightarrow> byte list option" where
  "writeUInt8 n = (if 0 \<le> n \<and> n \<le> 255 then Some [of_int n] else None)"

text \<open>UTF-8 of the first 256 code points.\<close>

definition utf8_char :: "char \<Rightarrow> byte list" where
  "utf8_char c = (let n = of_char c :: nat in if n < 128 then [of_nat n] else [of_nat (192 + n div 64), of_nat (128 + n mod 64)])"

definition utf8 :: "string \<Rightarrow> byte list" where
  "utf8 s = concat (map utf8_char s)"

text \<open>
  Numbers in the 64-bit format: sign, exponent, fraction. Numbers here are exact reals; \<open>is_double\<close> says which of
  them the format holds.
\<close>

definition least_normal :: real where "least_normal = 2 powi (- 1022)"
definition least_double :: real where "least_double = 2 powi (- 1074)"

definition double_exponent :: "real \<Rightarrow> int option" where
  "double_exponent x = List.find (\<lambda>e. 2 powi e \<le> x \<and> x < 2 powi (e + 1)) [- 1022..1023]"

definition double_bits :: "real \<Rightarrow> nat" where
  "double_bits x = (case double_exponent x of
     None \<Rightarrow> nat \<lfloor>x / least_double\<rfloor>
   | Some e \<Rightarrow> nat (e + 1023) * 2 ^ 52 + nat \<lfloor>(x / 2 powi e - 1) * 2 ^ 52\<rfloor>)"

fun writeDoubleLE :: "jsnum \<Rightarrow> byte list" where
  "writeDoubleLE (Fin a) = le_bytes 8 ((if a < 0 then 2 ^ 63 else 0) + double_bits \<bar>a\<bar>)"
| "writeDoubleLE PInf = le_bytes 8 (2047 * 2 ^ 52)"
| "writeDoubleLE NInf = le_bytes 8 (2 ^ 63 + 2047 * 2 ^ 52)"
| "writeDoubleLE NaN = le_bytes 8 (2047 * 2 ^ 52 + 2 ^ 51)"

definition double_of :: "nat \<Rightarrow> real" where
  "double_of n = (let b = n div 2 ^ 52; f = real (n mod 2 ^ 52) in
     if b = 0 then f * least_double else (1 + f / 2 ^ 52) * 2 powi (int b - 1023))"

definition readDoubleLE :: "byte list \<Rightarrow> jsnum" where
  "readDoubleLE bs =
     (let n = le_val bs; s = n div 2 ^ 63; m = n mod 2 ^ 63 in
      if m div 2 ^ 52 = 2047 then (if m mod 2 ^ 52 \<noteq> 0 then NaN else if s = 1 then NInf else PInf)
      else Fin (if s = 1 then - double_of m else double_of m))"

definition is_double :: "jsnum \<Rightarrow> bool" where
  "is_double x \<longleftrightarrow> (case x of
     Fin a \<Rightarrow> (\<exists>f<2 ^ 52. \<bar>a\<bar> = real f * least_double) \<or>
       (\<exists>f<2 ^ 52. \<exists>e. - 1022 \<le> e \<and> e \<le> 1023 \<and> \<bar>a\<bar> = (1 + real f / 2 ^ 52) * 2 powi e)
   | _ \<Rightarrow> True)"

subsection \<open>What the bot writes\<close>

definition INTENTS :: "string list" where
  "INTENTS = [''play'', ''pause'', ''seek'']"

definition indexOf :: "'a list \<Rightarrow> 'a \<Rightarrow> int" where
  "indexOf xs x = (case List.find (\<lambda>i. xs ! i = x) [0..<length xs] of None \<Rightarrow> - 1 | Some i \<Rightarrow> int i)"

definition join_frame :: "string \<Rightarrow> byte list option" where
  "join_frame roomCode = map_option (\<lambda>n. [5] @ n @ utf8 roomCode) (writeUInt8 (int (length (utf8 roomCode))))"

definition clock_frame :: "(jsnum \<Rightarrow> byte list) \<Rightarrow> jsnum \<Rightarrow> byte list" where
  "clock_frame enc t0 = [1] @ enc t0"

text \<open>Not sent at all without a connection; \<^term>\<open>Some []\<close> is nothing sent.\<close>

definition control_frame :: "(jsnum \<Rightarrow> byte list) \<Rightarrow> bool \<Rightarrow> string \<Rightarrow> string \<Rightarrow> jsnum \<Rightarrow> string option \<Rightarrow> byte list option" where
  "control_frame enc up roomCode it m cmdId =
     (if \<not> up then Some []
      else
        (let room = utf8 roomCode; cmd = utf8 (nullish cmdId []) in
         case (writeUInt8 (indexOf INTENTS it), writeUInt8 (int (length room))) of
           (Some i, Some n) \<Rightarrow>
             if cmd = [] then Some ([3] @ i @ enc m @ n @ room)
             else map_option (\<lambda>c. [3] @ i @ enc m @ n @ room @ c @ cmd) (writeUInt8 (int (length cmd)))
         | _ \<Rightarrow> None))"

subsection \<open>What the bot reads\<close>

definition REASONS :: "string list" where
  "REASONS = [''play'', ''pause'', ''seek'', ''join'', ''snapshot'', ''succession'']"

definition bytes_at :: "nat \<Rightarrow> nat \<Rightarrow> byte list \<Rightarrow> byte list option" where
  "bytes_at offset n buf = (if offset + n \<le> length buf then Some (take n (drop offset buf)) else None)"

definition decodeTimeline :: "(byte list \<Rightarrow> jsnum) \<Rightarrow> byte list \<Rightarrow> timeline option" where
  "decodeTimeline dec buf =
     (case (bytes_at 1 4 buf, bytes_at 5 8 buf, bytes_at 13 1 buf, bytes_at 14 8 buf, bytes_at 22 8 buf, bytes_at 30 1 buf) of
        (Some s, Some e, Some p, Some m, Some st, Some r) \<Rightarrow>
          Some \<lparr>seq = int (le_val s), storeEpoch = js_String (dec e), videoId = None, isPlaying = (p = [1]), mediaTime = dec m,
                stampedAt = dec st, rate = 1,
                reason_of = (if le_val r < length REASONS then REASONS ! le_val r else ''snapshot''), by_user = None\<rparr>
      | _ \<Rightarrow> None)"

record raw_transport =
  rt_pendingPongs :: "(jsnum, nat) jsmap"
  rt_pendingJoin :: bool
  rt_isConnected :: bool
  rt_reconnecting :: bool
  rt_disposed :: bool

definition new_transport :: raw_transport where
  "new_transport = \<lparr>rt_pendingPongs = [], rt_pendingJoin = False, rt_isConnected = False, rt_reconnecting = False, rt_disposed = False\<rparr>"

datatype frame_event =
    PongFor nat jsnum jsnum jsnum
  | TimelinePushed timeline
  | JoinAnswered timeline
  | ControlRefused

text \<open>A frame too short for its fields raises; a truncated pong is dropped.\<close>

definition onFrame :: "(byte list \<Rightarrow> jsnum) \<Rightarrow> raw_transport \<Rightarrow> byte list \<Rightarrow> (raw_transport \<times> frame_event list) option" where
  "onFrame dec t buf =
     (if buf = [] then Some (t, [])
      else if hd buf = 2 then
        (if length buf < 25 then Some (t, [])
         else (let t0 = dec (take 8 (drop 1 buf)) in
               case jm_get (rt_pendingPongs t) t0 of
                 None \<Rightarrow> Some (t, [])
               | Some cb \<Rightarrow>
                   Some (t\<lparr>rt_pendingPongs := jm_del (rt_pendingPongs t) t0\<rparr>,
                     [PongFor cb t0 (dec (take 8 (drop 9 buf))) (dec (take 8 (drop 17 buf)))])))
      else if hd buf = 4 then map_option (\<lambda>tml. (t, [TimelinePushed tml])) (decodeTimeline dec buf)
      else if hd buf = 6 then
        (if rt_pendingJoin t then map_option (\<lambda>tml. (t\<lparr>rt_pendingJoin := False\<rparr>, [JoinAnswered tml])) (decodeTimeline dec buf)
         else Some (t, []))
      else if hd buf = 7 then Some (t, [ControlRefused])
      else Some (t, []))"

definition sendClock :: "raw_transport \<Rightarrow> jsnum \<Rightarrow> nat \<Rightarrow> raw_transport" where
  "sendClock t t0 cb = t\<lparr>rt_pendingPongs := jm_set (rt_pendingPongs t) t0 cb\<rparr>"

definition transport_close :: "raw_transport \<Rightarrow> raw_transport \<times> bool" where
  "transport_close t =
     (let t1 = t\<lparr>rt_isConnected := False, rt_pendingPongs := []\<rparr>; again = \<not> rt_disposed t1 \<and> \<not> rt_reconnecting t1 in
      (if again then t1\<lparr>rt_reconnecting := True\<rparr> else t1, again))"

subsection \<open>The relay's side\<close>

record relay_control =
  rl_intent :: string
  rl_mediaTime :: jsnum
  rl_room :: "byte list"
  rl_cmdID :: "byte list"

definition is_id_byte :: "byte \<Rightarrow> bool" where
  "is_id_byte b \<longleftrightarrow> (let n = unat b in 48 \<le> n \<and> n \<le> 57 \<or> 65 \<le> n \<and> n \<le> 90 \<or> 97 \<le> n \<and> n \<le> 122 \<or> n = 95 \<or> n = 45)"

definition parseControl :: "(byte list \<Rightarrow> jsnum) \<Rightarrow> byte list \<Rightarrow> relay_control option" where
  "parseControl dec data =
     (if length data < 11 then None
      else if unat (data ! 1) > 2 then None
      else
        (let it = INTENTS ! unat (data ! 1); m = dec (take 8 (drop 2 data)); n = unat (data ! 10) in
         if \<not> isFinite m \<or> m < 0 then None
         else if length data < 11 + n then None
         else
           (let room = take n (drop 11 data) in
            if length data = 11 + n then Some \<lparr>rl_intent = it, rl_mediaTime = m, rl_room = room, rl_cmdID = []\<rparr>
            else
              (let cl = unat (data ! (11 + n)); cmd = take cl (drop (12 + n) data) in
               if cl = 0 \<or> cl > 64 \<or> length data \<noteq> 12 + n + cl then None
               else if \<not> list_all is_id_byte cmd then None
               else Some \<lparr>rl_intent = it, rl_mediaTime = m, rl_room = room, rl_cmdID = cmd\<rparr>))))"

record wire_timeline =
  wt_seq :: nat
  wt_epoch :: jsnum
  wt_isPlaying :: bool
  wt_mediaTime :: jsnum
  wt_stampedAt :: jsnum
  wt_reason :: nat

text \<open>
  What a script of the store answers, as the relay unmarshals it, and what the relay makes of it: the number modulo 2 to
  the 32, the epoch as a number, and a code for the reason. A map of Go has the zero value for a key it does not hold, so a
  reason without a code is sent as 0; an epoch that is no number is 0 as well (the error is dropped). The parser of numbers
  is the one for decimals; its hexadecimal and other spellings of infinity are left out, an epoch is digits.
\<close>

record lua_timeline =
  lt_seq :: int
  lt_storeEpoch :: string
  lt_isPlaying :: bool
  lt_mediaTime :: jsnum
  lt_stampedAt :: jsnum
  lt_reason :: string
  lt_dup :: bool

definition reasonCodes :: "(string \<times> nat) list" where
  "reasonCodes = [(''play'', 0), (''pause'', 1), (''seek'', 2), (''join'', 3), (''snapshot'', 4), (''succession'', 5)]"

definition ParseFloat :: "string \<Rightarrow> jsnum" where
  "ParseFloat s =
     (let x = (if s = [] then NaN else if hd s = CHR ''-'' then - unsigned_decimal (drop 1 s)
               else if hd s = CHR ''+'' then unsigned_decimal (drop 1 s) else unsigned_decimal s)
      in if x = NaN then 0 else x)"

definition toWire :: "lua_timeline \<Rightarrow> wire_timeline" where
  "toWire t = \<lparr>wt_seq = nat (lt_seq t mod 2 ^ 32), wt_epoch = ParseFloat (lt_storeEpoch t), wt_isPlaying = lt_isPlaying t,
     wt_mediaTime = lt_mediaTime t, wt_stampedAt = lt_stampedAt t,
     wt_reason = (case map_of reasonCodes (lt_reason t) of None \<Rightarrow> 0 | Some c \<Rightarrow> c)\<rparr>"

definition encodeTimeline :: "(jsnum \<Rightarrow> byte list) \<Rightarrow> byte \<Rightarrow> wire_timeline \<Rightarrow> byte list" where
  "encodeTimeline enc msgType w =
     [msgType] @ le_bytes 4 (wt_seq w) @ enc (wt_epoch w) @ [if wt_isPlaying w then 1 else 0] @ enc (wt_mediaTime w) @
     enc (wt_stampedAt w) @ [of_nat (wt_reason w)]"

definition relay_pong :: "(jsnum \<Rightarrow> byte list) \<Rightarrow> byte list \<Rightarrow> jsnum \<Rightarrow> jsnum \<Rightarrow> byte list option" where
  "relay_pong enc data t1 t2 = (if length data < 9 then None else Some ([2] @ take 8 (drop 1 data) @ enc t1 @ enc t2))"

subsection \<open>The number format\<close>

lemma length_le_bytes [simp]: "length (le_bytes k n) = k"
  by (induction k arbitrary: n) simp_all

lemma le_val_bytes: "le_val (le_bytes k n) = n mod 256 ^ k"
proof (induction k arbitrary: n)
  case (Suc k)
  have "unat (of_nat n :: byte) = n mod 256" by (simp add: unsigned_of_nat take_bit_eq_mod)
  then show ?case by (simp add: Suc mod_mult2_eq)
qed simp

lemma powi_less_iff: "(2 :: real) powi a < 2 powi b \<longleftrightarrow> a < b"
  using power_int_increasing [of b a "2 :: real"] power_int_strict_increasing [of a b "2 :: real"] by (cases "a < b") auto

lemma least_double_pos [simp]: "0 < least_double"
  unfolding least_double_def by (rule zero_less_power_int) simp

lemma least_normal_eq: "2 ^ 52 * least_double = least_normal"
proof -
  have "(2 :: real) powi (52 + - 1074) = 2 powi 52 * 2 powi (- 1074)" by (rule power_int_add) simp
  then show ?thesis unfolding least_double_def least_normal_def power_int_numeral by simp
qed

lemma double_exponent_normal:
  assumes "- 1022 \<le> e" "e \<le> 1023" "2 powi e \<le> x" "x < 2 powi (e + 1)"
  shows "double_exponent x = Some e"
proof -
  have u: "e' = e" if "2 powi e' \<le> x" "x < 2 powi (e' + 1)" for e' :: int
  proof -
    have "(2 :: real) powi e' < 2 powi (e + 1)" "(2 :: real) powi e < 2 powi (e' + 1)" using that assms(3,4) by linarith+
    then show ?thesis unfolding powi_less_iff by simp
  qed
  show ?thesis
  proof (cases "double_exponent x")
    case None
    moreover have "e \<in> set [- 1022..1023]" using assms(1,2) by (simp only: set_upto atLeastAtMost_iff)
    ultimately show ?thesis using assms(3,4) unfolding double_exponent_def find_None_iff by blast
  next
    case (Some e')
    then have "2 powi e' \<le> x \<and> x < 2 powi (e' + 1)" unfolding double_exponent_def find_Some_iff by blast
    then show ?thesis using u Some by simp
  qed
qed

lemma double_exponent_small:
  assumes "x < least_normal"
  shows "double_exponent x = None"
  unfolding double_exponent_def find_None_iff
proof (intro notI)
  assume "\<exists>e. e \<in> set [- 1022..1023] \<and> 2 powi e \<le> x \<and> x < 2 powi (e + 1)"
  then obtain e :: int where e: "- 1022 \<le> e" "2 powi e \<le> x" by (auto simp only: set_upto atLeastAtMost_iff)
  have "least_normal \<le> 2 powi e" unfolding least_normal_def using e(1) by (intro power_int_increasing) simp_all
  then show False using e(2) assms by linarith
qed

lemma bits_normal:
  assumes "f < 2 ^ 52" "- 1022 \<le> e" "e \<le> 1023"
  shows "double_bits ((1 + real f / 2 ^ 52) * 2 powi e) = nat (e + 1023) * 2 ^ 52 + f"
proof -
  let ?x = "(1 + real f / 2 ^ 52) * 2 powi e"
  have f: "0 \<le> real f / 2 ^ 52" "real f / 2 ^ 52 < 1" using assms(1) by simp_all
  have p: "(0 :: real) < 2 powi e" by simp
  have "1 * 2 powi e \<le> ?x" "?x < 2 * 2 powi e" using f p by (intro mult_right_mono mult_strict_right_mono; simp)+
  then have "double_exponent ?x = Some e" using assms(2,3) by (intro double_exponent_normal) (simp_all add: power_int_add)
  moreover have "(?x / 2 powi e - 1) * 2 ^ 52 = real f" using p by simp
  ultimately show ?thesis by (simp add: double_bits_def)
qed

lemma bits_small:
  assumes "f < 2 ^ 52"
  shows "double_bits (real f * least_double) = f"
proof -
  have "real f < 2 ^ 52" using assms by (metis of_nat_less_iff of_nat_numeral of_nat_power)
  then have "real f * least_double < 2 ^ 52 * least_double" by (intro mult_strict_right_mono) simp_all
  then have "double_exponent (real f * least_double) = None" unfolding least_normal_eq by (rule double_exponent_small)
  moreover have "real f * least_double / least_double = real f" using least_double_pos by (simp del: least_double_pos)
  ultimately show ?thesis by (simp add: double_bits_def)
qed

lemma double_of_bits:
  assumes "is_double (Fin a)" "0 \<le> a"
  shows "double_of (double_bits a) = a" "double_bits a < 2047 * 2 ^ 52"
proof -
  have "double_of (double_bits a) = a \<and> double_bits a < 2047 * 2 ^ 52"
  proof (cases "\<exists>f<2 ^ 52. a = real f * least_double")
    case True
    then obtain f where f: "f < 2 ^ 52" "a = real f * least_double" by blast
    have "double_bits a = f" unfolding f(2) by (rule bits_small [OF f(1)])
    then show ?thesis using f by (simp add: double_of_def Let_def)
  next
    case False
    then obtain f e where f: "f < 2 ^ 52" "- 1022 \<le> e" "e \<le> 1023" "a = (1 + real f / 2 ^ 52) * 2 powi e"
      using assms by (auto simp: is_double_def)
    define b where "b = nat (e + 1023)"
    have b: "0 < b" "b \<le> 2046" "int b - 1023 = e" using f(2,3) by (auto simp: b_def)
    have bits: "double_bits a = b * 2 ^ 52 + f" unfolding f(4) b_def by (rule bits_normal [OF f(1-3)])
    have "b * 2 ^ 52 + f < 2047 * 2 ^ 52" using b(2) f(1) by simp
    moreover have "(b * 2 ^ 52 + f) div 2 ^ 52 = b" "(b * 2 ^ 52 + f) mod 2 ^ 52 = f" using f(1) by simp_all
    ultimately show ?thesis using b unfolding bits double_of_def Let_def by (simp add: f(4))
  qed
  then show "double_of (double_bits a) = a" "double_bits a < 2047 * 2 ^ 52" by simp_all
qed

lemma read_write_double: "is_double x \<Longrightarrow> readDoubleLE (writeDoubleLE x) = x"
proof (cases x)
  case (Fin a)
  assume x: "is_double x"
  then have d: "is_double (Fin \<bar>a\<bar>)" by (simp add: Fin is_double_def)
  note b = double_of_bits [OF d abs_ge_zero]
  define m where "m = double_bits \<bar>a\<bar>"
  have m: "double_of m = \<bar>a\<bar>" "m < 2047 * 2 ^ 52" using b by (simp_all add: m_def)
  then have "m < 2 ^ 63" "m div 2 ^ 52 \<noteq> 2047" by simp_all
  then show ?thesis using m(1) by (auto simp: Fin readDoubleLE_def le_val_bytes m_def [symmetric] Let_def)
qed (simp_all add: readDoubleLE_def le_val_bytes Let_def)

lemma length_writeDoubleLE [simp]: "length (writeDoubleLE x) = 8"
  by (cases x) simp_all

subsection \<open>One side reads what the other writes\<close>

lemma writeUInt8_Some: "n \<le> 255 \<Longrightarrow> writeUInt8 (int n) = Some [of_nat n]"
  by (simp add: writeUInt8_def)

lemma unat_byte: "n \<le> 255 \<Longrightarrow> unat (of_nat n :: byte) = n"
  by (simp add: unsigned_of_nat take_bit_eq_mod)

lemma indexOf_INTENTS:
  assumes "it \<in> set INTENTS"
  obtains i where "indexOf INTENTS it = int i" "i \<le> 2" "INTENTS ! i = it"
proof -
  from assms consider "it = ''play''" | "it = ''pause''" | "it = ''seek''" by (auto simp: INTENTS_def)
  then show ?thesis
    by cases (rule that [of 0], simp_all add: indexOf_def INTENTS_def upt_rec, rule that [of 1], simp_all add: indexOf_def INTENTS_def upt_rec,
      rule that [of 2], simp_all add: indexOf_def INTENTS_def upt_rec)
qed

locale double_codec =
  fixes enc :: "jsnum \<Rightarrow> byte list" and dec :: "byte list \<Rightarrow> jsnum" and ok :: "jsnum \<Rightarrow> bool"
  assumes enc_length: "length (enc x) = 8"
    and dec_enc: "ok x \<Longrightarrow> dec (enc x) = x"
begin

lemma parse_head:
  assumes "ok m"
  shows "dec (take 8 (drop 2 (3 # i # enc m @ rest))) = m" "(3 # i # enc m @ n # rest) ! 10 = n"
    "drop 11 (3 # i # enc m @ n # rest) = rest"
  using assms enc_length [of m] dec_enc [of m] by (simp_all add: nth_append numeral_eq_Suc)

lemma control_round_trip:
  assumes "it \<in> set INTENTS" "length (utf8 room) \<le> 255" "ok m" "isFinite m" "\<not> m < 0"
    and "list_all is_id_byte (utf8 cmdId)" "length (utf8 cmdId) \<le> 64"
  shows "\<exists>frame. control_frame enc True room it m (Some cmdId) = Some frame \<and>
    parseControl dec frame = Some \<lparr>rl_intent = it, rl_mediaTime = m, rl_room = utf8 room, rl_cmdID = utf8 cmdId\<rparr>"
proof -
  obtain i where i: "indexOf INTENTS it = int i" "i \<le> 2" "INTENTS ! i = it" using indexOf_INTENTS [OF assms(1)] .
  let ?r = "utf8 room" and ?c = "utf8 cmdId"
  define tail where "tail = (if ?c = [] then [] else of_nat (length ?c) # ?c)"
  define frame where "frame = 3 # (of_nat i :: byte) # enc m @ of_nat (length ?r) # ?r @ tail"
  have "control_frame enc True room it m (Some cmdId) = Some frame"
    using i(2) assms(2,7) writeUInt8_Some [of i] writeUInt8_Some [of "length ?r"] writeUInt8_Some [of "length ?c"]
    by (simp add: control_frame_def i(1) frame_def tail_def Let_def)
  moreover have "parseControl dec frame = Some \<lparr>rl_intent = it, rl_mediaTime = m, rl_room = ?r, rl_cmdID = ?c\<rparr>"
  proof -
    have n: "unat (of_nat i :: byte) = i" "unat (of_nat (length ?r) :: byte) = length ?r" "unat (of_nat (length ?c) :: byte) = length ?c"
      using i(2) assms(2,7) by (simp_all add: unat_byte)
    have len: "length frame = 11 + length ?r + length tail" by (simp add: frame_def enc_length)
    have h: "frame ! 1 = of_nat i" "dec (take 8 (drop 2 frame)) = m" "frame ! 10 = of_nat (length ?r)" "drop 11 frame = ?r @ tail"
      using parse_head [OF assms(3)] by (simp_all add: frame_def)
    then have t: "frame ! (11 + length ?r) = tail ! 0" "drop (12 + length ?r) frame = drop 1 tail" if "tail \<noteq> []"
      using that len nth_drop [of 11 frame "length ?r"] drop_drop [of "1 + length ?r" 11 frame] by (simp_all add: nth_append ac_simps)
    show ?thesis
    proof (cases "?c = []")
      case True
      then show ?thesis using i assms(4,5) len h n by (simp add: parseControl_def tail_def Let_def)
    next
      case False
      then have "tail = of_nat (length ?c) # ?c" by (simp add: tail_def)
      then show ?thesis using False i assms(4-7) len h n t by (simp add: parseControl_def Let_def)
    qed
  qed
  ultimately show ?thesis by blast
qed

lemma timeline_round_trip:
  assumes "wt_seq w < 2 ^ 32" "wt_reason w < 6" "ok (wt_epoch w)" "ok (wt_mediaTime w)" "ok (wt_stampedAt w)"
  shows "decodeTimeline dec (encodeTimeline enc k w) =
    Some \<lparr>seq = int (wt_seq w), storeEpoch = js_String (wt_epoch w), videoId = None, isPlaying = wt_isPlaying w, mediaTime = wt_mediaTime w,
      stampedAt = wt_stampedAt w, rate = 1, reason_of = REASONS ! wt_reason w, by_user = None\<rparr>"
proof -
  let ?b = "encodeTimeline enc k w"
  have len: "length ?b = 31" by (simp add: encodeTimeline_def enc_length)
  have l: "length (le_bytes 4 (wt_seq w)) = 4" by simp
  have at: "bytes_at 1 4 ?b = Some (le_bytes 4 (wt_seq w))" "bytes_at 5 8 ?b = Some (enc (wt_epoch w))"
    "bytes_at 13 1 ?b = Some [if wt_isPlaying w then 1 else 0]" "bytes_at 14 8 ?b = Some (enc (wt_mediaTime w))"
    "bytes_at 22 8 ?b = Some (enc (wt_stampedAt w))" "bytes_at 30 1 ?b = Some [of_nat (wt_reason w)]"
    using l enc_length [of "wt_epoch w"] enc_length [of "wt_mediaTime w"] enc_length [of "wt_stampedAt w"]
    by (simp_all add: bytes_at_def len) (simp_all add: encodeTimeline_def drop_append take_append)
  have "le_val (le_bytes 4 (wt_seq w)) = wt_seq w" using assms(1) by (simp add: le_val_bytes)
  moreover have "le_val [of_nat (wt_reason w)] = wt_reason w" using assms(2) by (simp add: unat_byte)
  ultimately show ?thesis using assms(2-) unfolding decodeTimeline_def at by (simp add: dec_enc REASONS_def)
qed

lemma pong_round_trip:
  assumes "ok t0" "ok t1" "ok t2"
  shows "\<exists>frame t'. relay_pong enc (clock_frame enc t0) t1 t2 = Some frame \<and>
    onFrame dec (sendClock t t0 cb) frame = Some (t', [PongFor cb t0 t1 t2]) \<and> jm_get (rt_pendingPongs t') t0 = None"
proof -
  let ?f = "2 # enc t0 @ enc t1 @ enc t2"
  have "relay_pong enc (clock_frame enc t0) t1 t2 = Some ?f" by (simp add: relay_pong_def clock_frame_def enc_length)
  moreover have "take 8 (drop 1 ?f) = enc t0" "take 8 (drop 9 ?f) = enc t1" "take 8 (drop 17 ?f) = enc t2"
    using enc_length [of t0] enc_length [of t1] enc_length [of t2] by (simp_all add: drop_append take_append numeral_eq_Suc)
  then have "onFrame dec (sendClock t t0 cb) ?f =
      Some ((sendClock t t0 cb)\<lparr>rt_pendingPongs := jm_del (rt_pendingPongs (sendClock t t0 cb)) t0\<rparr>, [PongFor cb t0 t1 t2])"
    using assms dec_enc by (simp add: onFrame_def enc_length sendClock_def)
  ultimately show ?thesis by simp
qed

end

interpretation ieee: double_codec writeDoubleLE readDoubleLE is_double
  by unfold_locales (simp_all add: read_write_double)

lemma reason_read_back:
  "REASONS ! wt_reason (toWire t) = (if lt_reason t \<in> set REASONS then lt_reason t else ''play'') \<and> wt_reason (toWire t) < 6"
  by (simp add: toWire_def reasonCodes_def REASONS_def)

lemma epoch_read_back: "lt_storeEpoch t = show_nat e \<Longrightarrow> wt_epoch (toWire t) = Fin (real e)"
proof -
  assume e: "lt_storeEpoch t = show_nat e"
  obtain c cs where c: "show_nat e = c # cs" by (cases "show_nat e") auto
  then have "is_digit c" using show_nat_digits [of e] by simp
  then have "c \<noteq> CHR ''-''" "c \<noteq> CHR ''+''" by (auto simp: is_digit_def)
  moreover have "unsigned_decimal (show_nat e) = Fin (real e)" using unsigned_decimal_digits [OF show_nat_digits, of e] by simp
  ultimately show ?thesis using c by (simp add: toWire_def ParseFloat_def e Let_def)
qed

lemma relayed_timeline:
  assumes "0 \<le> lt_seq t" "lt_seq t < 2 ^ 32" "lt_storeEpoch t = show_nat e"
    and "is_double (Fin (real e))" "is_double (lt_mediaTime t)" "is_double (lt_stampedAt t)"
  shows "decodeTimeline readDoubleLE (encodeTimeline writeDoubleLE k (toWire t)) =
    Some \<lparr>seq = lt_seq t, storeEpoch = lt_storeEpoch t, videoId = None, isPlaying = lt_isPlaying t, mediaTime = lt_mediaTime t,
      stampedAt = lt_stampedAt t, rate = 1, reason_of = (if lt_reason t \<in> set REASONS then lt_reason t else ''play''), by_user = None\<rparr>"
proof -
  have "wt_seq (toWire t) = nat (lt_seq t)" using assms(1,2) by (simp add: toWire_def)
  moreover from this have "wt_seq (toWire t) < 2 ^ 32" using assms(1,2) by (simp add: nat_less_iff)
  moreover have "wt_isPlaying (toWire t) = lt_isPlaying t" "wt_mediaTime (toWire t) = lt_mediaTime t" "wt_stampedAt (toWire t) = lt_stampedAt t"
    by (simp_all add: toWire_def)
  ultimately show ?thesis
    using ieee.timeline_round_trip [of "toWire t" k] reason_read_back [of t] epoch_read_back [OF assms(3)] assms by simp
qed

lemma pushed_frame:
  "decodeTimeline dec (encodeTimeline enc 4 w) = Some tml \<Longrightarrow> onFrame dec tr (encodeTimeline enc 4 w) = Some (tr, [TimelinePushed tml])"
  "decodeTimeline dec (encodeTimeline enc 6 w) = Some tml \<Longrightarrow> rt_pendingJoin tr \<Longrightarrow>
    onFrame dec tr (encodeTimeline enc 6 w) = Some (tr\<lparr>rt_pendingJoin := False\<rparr>, [JoinAnswered tml])"
  by (simp_all add: onFrame_def encodeTimeline_def)

text \<open>
  C40. What a bot writes on the binary plane the relay reads, and the reverse, for every number a double holds. A
  control with a legal command id and a room of at most 255 bytes is parsed by the relay as the intent, the position, the
  room and the id that were meant. A timeline the store's scripts answered (number below 2 to the 32, an epoch in
  digits) and the relay converts and encodes reaches the bot, pushed or as the answer of its join, with the
  number, epoch, play state, position and stamp it had, and with its reason when it is one of the six that have a code; any
  other reason, a set-video, has no code in the relay and is read as a play. The answer to a clock question
  reaches the question it belongs to, once.
\<close>

theorem frames_round_trip:
  assumes "it \<in> set INTENTS" "length (utf8 room) \<le> 255" "is_double m" "isFinite m" "\<not> m < 0"
    and "list_all is_id_byte (utf8 cmdId)" "length (utf8 cmdId) \<le> 64"
    and "0 \<le> lt_seq t" "lt_seq t < 2 ^ 32" "lt_storeEpoch t = show_nat e" "e < 10 ^ 21"
    and "is_double (Fin (real e))" "is_double (lt_mediaTime t)" "is_double (lt_stampedAt t)"
    and "is_double t0" "is_double t1" "is_double t2"
  shows "(\<exists>frame. control_frame writeDoubleLE True room it m (Some cmdId) = Some frame \<and>
      parseControl readDoubleLE frame = Some \<lparr>rl_intent = it, rl_mediaTime = m, rl_room = utf8 room, rl_cmdID = utf8 cmdId\<rparr>) \<and>
    (let tml = \<lparr>seq = lt_seq t, storeEpoch = lt_storeEpoch t, videoId = None, isPlaying = lt_isPlaying t, mediaTime = lt_mediaTime t,
        stampedAt = lt_stampedAt t, rate = 1,
        reason_of = (if lt_reason t \<in> {''play'', ''pause'', ''seek'', ''join'', ''snapshot'', ''succession''} then lt_reason t else ''play''),
        by_user = None\<rparr> in
      onFrame readDoubleLE tr (encodeTimeline writeDoubleLE 4 (toWire t)) = Some (tr, [TimelinePushed tml]) \<and>
      (rt_pendingJoin tr \<longrightarrow>
        onFrame readDoubleLE tr (encodeTimeline writeDoubleLE 6 (toWire t)) = Some (tr\<lparr>rt_pendingJoin := False\<rparr>, [JoinAnswered tml]))) \<and>
    (\<exists>frame t'. relay_pong writeDoubleLE (clock_frame writeDoubleLE t0) t1 t2 = Some frame \<and>
      onFrame readDoubleLE (sendClock tr t0 cb) frame = Some (t', [PongFor cb t0 t1 t2]) \<and> jm_get (rt_pendingPongs t') t0 = None)"
proof -
  have six: "{''play'', ''pause'', ''seek'', ''join'', ''snapshot'', ''succession''} = set REASONS" by (simp add: REASONS_def)
  note decoded = relayed_timeline [OF assms(8-10,12-14)]
  show ?thesis unfolding six Let_def
    using ieee.control_round_trip [OF assms(1-7)] pushed_frame [OF decoded] ieee.pong_round_trip [OF assms(15-17)] by blast
qed

lemma double_zero [simp]: "is_double (Fin 0)"
  by (auto simp: is_double_def intro!: exI [of _ 0])

lemma double_three: "is_double (Fin 3)"
  unfolding is_double_def by (auto intro!: exI [of _ "2 ^ 51"] exI [of _ "1 :: int"])

definition demo_lua :: lua_timeline where
  "demo_lua = \<lparr>lt_seq = 4, lt_storeEpoch = show_nat 3, lt_isPlaying = True, lt_mediaTime = Fin 3, lt_stampedAt = Fin 0, lt_reason = ''seek'', lt_dup = False\<rparr>"

theorem frames_round_trip_witness:
  "(\<exists>frame. control_frame writeDoubleLE True ''abc'' ''seek'' (Fin 3) (Some ''x-1'') = Some frame \<and>
     parseControl readDoubleLE frame = Some \<lparr>rl_intent = ''seek'', rl_mediaTime = Fin 3, rl_room = utf8 ''abc'', rl_cmdID = utf8 ''x-1''\<rparr>) \<and>
   (\<exists>tml. onFrame readDoubleLE new_transport (encodeTimeline writeDoubleLE 4 (toWire demo_lua)) = Some (new_transport, [TimelinePushed tml]) \<and>
     seq tml = 4 \<and> reason_of tml = ''seek'')"
proof -
  have t: "0 \<le> lt_seq demo_lua" "lt_seq demo_lua < 2 ^ 32" "lt_storeEpoch demo_lua = show_nat 3" "is_double (Fin (real 3))"
      "is_double (lt_mediaTime demo_lua)" "is_double (lt_stampedAt demo_lua)" "lt_seq demo_lua = 4" "lt_reason demo_lua = ''seek''"
    using double_three by (simp_all add: demo_lua_def del: show_nat.simps)
  have c: "''seek'' \<in> set INTENTS" "length (utf8 ''abc'') \<le> 255" "isFinite (Fin 3)" "\<not> Fin 3 < 0" "list_all is_id_byte (utf8 ''x-1'')"
      "length (utf8 ''x-1'') \<le> 64" "(3 :: nat) < 10 ^ 21"
    by (simp_all add: INTENTS_def utf8_def utf8_char_def is_id_byte_def isFinite_def)
  show ?thesis
    using frames_round_trip [OF c(1,2) double_three c(3-6) t(1-3) c(7) t(4-6) double_zero double_zero double_zero, of new_transport]
    by (simp add: t Let_def del: show_nat.simps)
qed

lemma set_video_reads_as_play:
  "lt_reason t = ''set-video'' \<Longrightarrow> wt_reason (toWire t) = 0 \<and> REASONS ! 0 = ''play''"
  by (simp add: toWire_def reasonCodes_def REASONS_def)

text \<open>An intent the format has no number for, a set-video, is not sent: writing it raises.\<close>

lemma set_video_has_no_frame: "control_frame enc True room ''set-video'' m cmdId = None"
  by (simp add: control_frame_def indexOf_def INTENTS_def writeUInt8_def upt_rec Let_def)

end
