(* ===== verification/RoomForms.thy ===== *)
theory RoomForms
  imports RoomsService SyncEngine
begin

text \<open>
  What may be written into a room and the forms that write it: the bodies of POST and PATCH /rooms with their
  decorators (rooms/dto), the page that creates a room (pages/CreateRoomPage.tsx) and the settings of a room
  (components/RoomSettings.tsx). The decorators of the validation library are a parameter; what is relied on of
  them is the locale \<open>class_validator\<close>. Properties a body has beyond the declared ones are stripped by the pipe,
  so that the records below have the declared ones only.
\<close>

subsection \<open>Bodies and decorators\<close>

datatype body_val = BUndef | BNull | BBool bool | BNum jsnum | BStr string | BArr "body_val list" | BObj

record decorators =
  dc_isString :: "body_val \<Rightarrow> bool"
  dc_isNotEmpty :: "body_val \<Rightarrow> bool"
  dc_isBoolean :: "body_val \<Rightarrow> bool"
  dc_isArray :: "body_val \<Rightarrow> bool"
  dc_isInt :: "body_val \<Rightarrow> bool"
  dc_maxLength :: "nat \<Rightarrow> body_val \<Rightarrow> bool"
  dc_arrayMaxSize :: "nat \<Rightarrow> body_val \<Rightarrow> bool"
  dc_min :: "real \<Rightarrow> body_val \<Rightarrow> bool"
  dc_max :: "real \<Rightarrow> body_val \<Rightarrow> bool"

definition trim_val :: "body_val \<Rightarrow> body_val" where
  "trim_val v = (case v of BStr s \<Rightarrow> BStr (trim s) | _ \<Rightarrow> v)"

definition SkipIfAbsent :: "(body_val \<Rightarrow> bool) \<Rightarrow> body_val \<Rightarrow> bool" where
  "SkipIfAbsent P v \<longleftrightarrow> v = BUndef \<or> P v"

definition IsRoomVideoUrl :: "(string \<Rightarrow> url option) \<Rightarrow> body_val \<Rightarrow> bool" where
  "IsRoomVideoUrl parse v = (case v of BStr s \<Rightarrow> s = [] \<or> isAcceptableVideoUrl parse s | _ \<Rightarrow> False)"

text \<open>A decorator with \<^verbatim>\<open>each: true\<close> looks at the elements of an array.\<close>

definition each :: "(body_val \<Rightarrow> bool) \<Rightarrow> body_val \<Rightarrow> bool" where
  "each P v = (case v of BArr xs \<Rightarrow> list_all P xs | _ \<Rightarrow> False)"

fun str_opt :: "body_val \<Rightarrow> string option" where
  "str_opt (BStr s) = Some s"
| "str_opt _ = None"

fun bool_opt :: "body_val \<Rightarrow> bool option" where
  "bool_opt (BBool b) = Some b"
| "bool_opt _ = None"

fun nat_opt :: "body_val \<Rightarrow> nat option" where
  "nat_opt (BNum (Fin x)) = Some (nat \<lfloor>x\<rfloor>)"
| "nat_opt _ = None"

fun strs_opt :: "body_val \<Rightarrow> string list option" where
  "strs_opt (BArr xs) = Some (List.map_filter str_opt xs)"
| "strs_opt _ = None"

record create_body =
  cb_name :: body_val
  cb_videoUrl :: body_val
  cb_isPublic :: body_val
  cb_description :: body_val
  cb_tags :: body_val
  cb_allowGuestControl :: body_val

definition CreateRoomDto :: "decorators \<Rightarrow> (string \<Rightarrow> url option) \<Rightarrow> create_body \<Rightarrow> create_dto option" where
  "CreateRoomDto dc parse b =
     (let name = trim_val (cb_name b); videoUrl = trim_val (cb_videoUrl b); description = trim_val (cb_description b) in
      if dc_isString dc name \<and> dc_isNotEmpty dc name \<and> dc_maxLength dc 120 name \<and>
         SkipIfAbsent (IsRoomVideoUrl parse) videoUrl \<and>
         SkipIfAbsent (dc_isBoolean dc) (cb_isPublic b) \<and>
         SkipIfAbsent (\<lambda>v. dc_isString dc v \<and> dc_maxLength dc 500 v) description \<and>
         SkipIfAbsent (\<lambda>v. dc_isArray dc v \<and> dc_arrayMaxSize dc 20 v \<and> each (dc_isString dc) v \<and> each (dc_maxLength dc 40) v) (cb_tags b) \<and>
         SkipIfAbsent (dc_isBoolean dc) (cb_allowGuestControl b)
      then Some \<lparr>cd_name = nullish (str_opt name) [], cd_videoUrl = str_opt videoUrl, cd_isPublic = bool_opt (cb_isPublic b),
        cd_description = str_opt description, cd_tags = strs_opt (cb_tags b), cd_allowGuestControl = bool_opt (cb_allowGuestControl b)\<rparr>
      else None)"

record update_body =
  ub_name :: body_val
  ub_videoUrl :: body_val
  ub_isPublic :: body_val
  ub_allowGuestControl :: body_val
  ub_maxUsers :: body_val

definition UpdateRoomDto :: "decorators \<Rightarrow> (string \<Rightarrow> url option) \<Rightarrow> update_body \<Rightarrow> update_dto option" where
  "UpdateRoomDto dc parse b =
     (let name = trim_val (ub_name b); videoUrl = trim_val (ub_videoUrl b) in
      if SkipIfAbsent (\<lambda>v. dc_isString dc v \<and> dc_isNotEmpty dc v \<and> dc_maxLength dc 120 v) name \<and>
         SkipIfAbsent (IsRoomVideoUrl parse) videoUrl \<and>
         SkipIfAbsent (dc_isBoolean dc) (ub_isPublic b) \<and>
         SkipIfAbsent (dc_isBoolean dc) (ub_allowGuestControl b) \<and>
         SkipIfAbsent (\<lambda>v. dc_isInt dc v \<and> dc_min dc 2 v \<and> dc_max dc 500 v) (ub_maxUsers b)
      then Some \<lparr>ud_name = str_opt name, ud_videoUrl = str_opt videoUrl, ud_isPublic = bool_opt (ub_isPublic b),
        ud_allowGuestControl = bool_opt (ub_allowGuestControl b), ud_maxUsers = nat_opt (ub_maxUsers b)\<rparr>
      else None)"

text \<open>A request as it arrives: refused by the pipe, or handed to the route.\<close>

datatype raw_request =
    RawCreate create_body string string
  | RawPatch string update_body
  | RawDelete string

definition piped :: "decorators \<Rightarrow> (string \<Rightarrow> url option) \<Rightarrow> raw_request \<Rightarrow> rooms_request option" where
  "piped dc parse rq = (case rq of
     RawCreate b i c \<Rightarrow> map_option (\<lambda>dto. ReqCreate dto i c) (CreateRoomDto dc parse b)
   | RawPatch code b \<Rightarrow> map_option (ReqPatch code) (UpdateRoomDto dc parse b)
   | RawDelete code \<Rightarrow> Some (ReqDelete code))"

definition raw_route ::
  "decorators \<Rightarrow> (string \<Rightarrow> url option) \<Rightarrow> verifier \<Rightarrow> rooms_db \<Rightarrow> revocation \<times> string option \<times> raw_request \<Rightarrow> rooms_db" where
  "raw_route dc parse verify db rq = (case rq of (rv, header, raw) \<Rightarrow>
     (case piped dc parse raw of None \<Rightarrow> db | Some r \<Rightarrow> fst (rooms_route verify rv header db r)))"

subsection \<open>The page that creates a room\<close>

record create_form =
  cf_name :: string
  cf_videoUrl :: string
  cf_isPublic :: bool
  cf_description :: string
  cf_tags :: string
  cf_allowGuestControl :: bool

definition new_form :: create_form where
  "new_form = \<lparr>cf_name = [], cf_videoUrl = [], cf_isPublic = False, cf_description = [], cf_tags = [], cf_allowGuestControl = False\<rparr>"

datatype form_result = FormRefused string | FormSent create_body

definition handleSubmit :: "(string \<Rightarrow> url option) \<Rightarrow> bool \<Rightarrow> create_form \<Rightarrow> form_result" where
  "handleSubmit parse signedIn f =
     (if \<not> signedIn then FormRefused ''Sign in first''
      else if trim (cf_name f) = [] then FormRefused ''Please enter a room name''
      else
        (let videoUrl = trim (cf_videoUrl f) in
         if videoUrl \<noteq> [] \<and> \<not> isAcceptableVideoUrl parse videoUrl then FormRefused ''That URL can't be played - use a video link or YouTube id''
         else FormSent \<lparr>cb_name = BStr (cf_name f), cb_videoUrl = (if videoUrl = [] then BUndef else BStr videoUrl),
           cb_isPublic = BBool (cf_isPublic f), cb_description = (if cf_isPublic f then BStr (cf_description f) else BUndef),
           cb_tags = BArr (if cf_isPublic f \<and> cf_tags f \<noteq> [] then map (\<lambda>t. BStr (trim t)) (split_on (CHR '','') (cf_tags f)) else []),
           cb_allowGuestControl = BBool (cf_allowGuestControl f)\<rparr>))"

datatype submit_effect = SubmitToast string | SubmitNavigate string

text \<open>What the page does about the answer: the code of the new room, or the server's message.\<close>

definition submit_answer :: "string option + string \<Rightarrow> submit_effect list" where
  "submit_answer answer = (case answer of
     Inr code \<Rightarrow> [SubmitToast ''Room created'', SubmitNavigate (''/room/'' @ code)]
   | Inl msg \<Rightarrow> [SubmitToast (if truthy msg then nullish msg [] else ''Couldn't create the room'')])"

subsection \<open>The settings of a room\<close>

definition DEFAULT_MAX_USERS :: nat where "DEFAULT_MAX_USERS = 20"

text \<open>The number field is empty for a moment while it is retyped.\<close>

record settings_form =
  sf_name :: string
  sf_isPublic :: bool
  sf_allowGuestControl :: bool
  sf_maxUsers :: "jsnum option"
  sf_videoUrl :: string

definition shown_max :: "room_entry \<Rightarrow> jsnum" where
  "shown_max room = (case re_maxUsers room of
     None \<Rightarrow> Fin (real DEFAULT_MAX_USERS) | Some n \<Rightarrow> if n = 0 then Fin (real DEFAULT_MAX_USERS) else Fin (real n))"

definition new_settings :: "room_entry \<Rightarrow> settings_form" where
  "new_settings room = \<lparr>sf_name = re_name room, sf_isPublic = re_isPublic room, sf_allowGuestControl = re_allowGuestControl room,
     sf_maxUsers = Some (shown_max room), sf_videoUrl = nullish (re_videoUrl room) []\<rparr>"

definition max_users_typed :: "settings_form \<Rightarrow> string \<Rightarrow> settings_form" where
  "max_users_typed f raw =
     f\<lparr>sf_maxUsers := (if raw = [] then None else (let parsed = js_Number raw in if is_integer parsed then Some parsed else None))\<rparr>"

definition max_users_left :: "settings_form \<Rightarrow> room_entry \<Rightarrow> settings_form" where
  "max_users_left f room = (if sf_maxUsers f = None then f\<lparr>sf_maxUsers := Some (shown_max room)\<rparr> else f)"

definition no_change :: update_body where
  "no_change = \<lparr>ub_name = BUndef, ub_videoUrl = BUndef, ub_isPublic = BUndef, ub_allowGuestControl = BUndef, ub_maxUsers = BUndef\<rparr>"

definition changed :: "settings_form \<Rightarrow> room_entry \<Rightarrow> update_body" where
  "changed f room = \<lparr>ub_name = (if trim (sf_name f) \<noteq> re_name room then BStr (trim (sf_name f)) else BUndef),
     ub_videoUrl = BUndef,
     ub_isPublic = (if sf_isPublic f \<noteq> re_isPublic room then BBool (sf_isPublic f) else BUndef),
     ub_allowGuestControl = (if sf_allowGuestControl f \<noteq> re_allowGuestControl room then BBool (sf_allowGuestControl f) else BUndef),
     ub_maxUsers = (case sf_maxUsers f of
        None \<Rightarrow> BUndef
      | Some n \<Rightarrow> if map_option (\<lambda>k. Fin (real k)) (re_maxUsers room) \<noteq> Some n then BNum n else BUndef)\<rparr>"

datatype save_effect =
    SavePatch update_body
  | SaveVideo engine_call
  | SaveToast string
  | SaveUpdated
  | SaveClosed

text \<open>
  Saving: the properties are patched when one of them changed, the video is a control on the socket. The answer
  to the patch is the server's message when it failed; the socket is absent, or known to be connected or not.
\<close>

definition save_video :: "bool option \<Rightarrow> string \<Rightarrow> string \<Rightarrow> string \<Rightarrow> save_effect list" where
  "save_video sock code url cmdId = (case sock of
     None \<Rightarrow> [SaveToast ''Not connected - the video was not changed'']
   | Some online \<Rightarrow>
       (let (sent, calls) = sendSetVideo online code url cmdId in
        map SaveVideo calls @
        (if sent then [SaveToast ''Saved - the video changed for everyone in the room'', SaveUpdated, SaveClosed]
         else [SaveToast ''Not connected - the video was not changed''])))"

definition handleUpdateSettings ::
  "(string \<Rightarrow> url option) \<Rightarrow> settings_form \<Rightarrow> room_entry \<Rightarrow> (string option) option \<Rightarrow> bool option \<Rightarrow> string \<Rightarrow> save_effect list" where
  "handleUpdateSettings parse f room failure sock cmdId =
     (let url = trim (sf_videoUrl f) in
      if url \<noteq> [] \<and> \<not> isAcceptableVideoUrl parse url then [SaveToast ''That URL can't be played - use a video link or YouTube id'']
      else if trim (sf_name f) = [] then [SaveToast ''A room needs a name'']
      else
        (let patch = (if changed f room = no_change then [] else [SavePatch (changed f room)]) in
         if patch \<noteq> [] \<and> failure \<noteq> None
         then patch @ [SaveToast (if truthy (nullish failure None) then nullish (nullish failure None) [] else ''Couldn't save the settings'')]
         else patch @
           (if url \<noteq> nullish (re_videoUrl room) [] then save_video sock (re_code room) url cmdId
            else [SaveToast ''Settings saved'', SaveUpdated, SaveClosed])))"

text \<open>Ending the room asks first; the server's refusal is shown.\<close>

definition handleEndRoom :: "bool \<Rightarrow> string \<Rightarrow> (string option) option \<Rightarrow> (string option) \<times> submit_effect list" where
  "handleEndRoom confirmed code failure =
     (if \<not> confirmed then (None, [])
      else (Some code,
        (case failure of
           None \<Rightarrow> [SubmitToast ''Room ended'', SubmitNavigate ''/'']
         | Some msg \<Rightarrow> [SubmitToast (if truthy msg then nullish msg [] else ''Couldn't end the room'')])))"

subsection \<open>What is relied on of the validation library\<close>

locale class_validator =
  fixes dc :: decorators
  assumes isString: "dc_isString dc v \<longleftrightarrow> (\<exists>s. v = BStr s)"
    and isNotEmpty: "dc_isNotEmpty dc (BStr s) \<longleftrightarrow> s \<noteq> []"
    and isBoolean: "dc_isBoolean dc v \<longleftrightarrow> (\<exists>b. v = BBool b)"
    and isArray: "dc_isArray dc v \<longleftrightarrow> (\<exists>xs. v = BArr xs)"
    and isInt: "dc_isInt dc v \<longleftrightarrow> (\<exists>i. v = BNum (Fin (of_int i)))"
    and maxLength: "dc_maxLength dc n (BStr s) \<longleftrightarrow> length s \<le> n"
    and arrayMaxSize: "dc_arrayMaxSize dc n (BArr xs) \<longleftrightarrow> length xs \<le> n"
    and min: "dc_min dc k (BNum (Fin x)) \<longleftrightarrow> k \<le> x"
    and max: "dc_max dc k (BNum (Fin x)) \<longleftrightarrow> x \<le> k"

definition standard_decorators :: decorators where
  "standard_decorators = \<lparr>dc_isString = (\<lambda>v. case v of BStr s \<Rightarrow> True | _ \<Rightarrow> False), dc_isNotEmpty = (\<lambda>v. v \<noteq> BStr [] \<and> v \<noteq> BNull \<and> v \<noteq> BUndef),
     dc_isBoolean = (\<lambda>v. case v of BBool b \<Rightarrow> True | _ \<Rightarrow> False), dc_isArray = (\<lambda>v. case v of BArr xs \<Rightarrow> True | _ \<Rightarrow> False),
     dc_isInt = (\<lambda>v. case v of BNum x \<Rightarrow> is_integer x | _ \<Rightarrow> False),
     dc_maxLength = (\<lambda>n v. case v of BStr s \<Rightarrow> length s \<le> n | _ \<Rightarrow> False), dc_arrayMaxSize = (\<lambda>n v. case v of BArr xs \<Rightarrow> length xs \<le> n | _ \<Rightarrow> False),
     dc_min = (\<lambda>k v. case v of BNum (Fin x) \<Rightarrow> k \<le> x | _ \<Rightarrow> False), dc_max = (\<lambda>k v. case v of BNum (Fin x) \<Rightarrow> x \<le> k | _ \<Rightarrow> False)\<rparr>"

interpretation standard: class_validator standard_decorators
  by unfold_locales (auto simp: standard_decorators_def is_integer_iff split: body_val.splits)

subsection \<open>What passes is a room\<close>

definition url_valid :: "(string \<Rightarrow> url option) \<Rightarrow> string option \<Rightarrow> bool" where
  "url_valid parse v \<longleftrightarrow> (case v of None \<Rightarrow> True | Some u \<Rightarrow> u = [] \<or> isAcceptableVideoUrl parse u)"

definition name_valid :: "string \<Rightarrow> bool" where
  "name_valid s \<longleftrightarrow> s \<noteq> [] \<and> length s \<le> 120 \<and> trim s = s"

definition tags_valid :: "string list \<Rightarrow> bool" where
  "tags_valid ts \<longleftrightarrow> length ts \<le> 20 \<and> (\<forall>t\<in>set ts. length t \<le> 40)"

definition room_valid :: "(string \<Rightarrow> url option) \<Rightarrow> room_entry \<Rightarrow> bool" where
  "room_valid parse r \<longleftrightarrow> name_valid (re_name r) \<and> url_valid parse (re_videoUrl r) \<and> tags_valid (re_tags r) \<and>
     (\<forall>d. re_description r = Some d \<longrightarrow> length d \<le> 500) \<and> (\<forall>n. re_maxUsers r = Some n \<longrightarrow> 2 \<le> n \<and> n \<le> 500)"

definition rooms_valid :: "(string \<Rightarrow> url option) \<Rightarrow> rooms_db \<Rightarrow> bool" where
  "rooms_valid parse db \<longleftrightarrow> (\<forall>r\<in>set (rd_rooms db). room_valid parse r)"

lemma trim_trim [simp]: "trim (trim s) = trim s"
proof -
  have hd: "dropWhile P (rev (dropWhile P (rev (dropWhile P xs)))) = rev (dropWhile P (rev (dropWhile P xs)))" for P :: "char \<Rightarrow> bool" and xs
  proof (cases "dropWhile P (rev (dropWhile P xs)) = []")
    case False
    then have "last (dropWhile P (rev (dropWhile P xs))) = last (rev (dropWhile P xs))" by (metis dropWhile_eq_drop last_drop length_drop length_greater_0_conv zero_less_diff)
    moreover have "dropWhile P xs \<noteq> []" using False by (metis dropWhile.simps(1) rev.simps(1))
    ultimately have "\<not> P (last (dropWhile P (rev (dropWhile P xs))))" using hd_dropWhile by (metis last_rev)
    then show ?thesis using False by (metis dropWhile_eq_self_iff hd_rev)
  next
    case True
    show ?thesis unfolding True by simp
  qed
  show ?thesis by (simp add: trim_def hd)
qed

lemma str_opt_trim [simp]: "str_opt (trim_val v) = map_option trim (str_opt v)"
  by (cases v) (simp_all add: trim_val_def)

lemma trim_val_absent [simp]: "trim_val v = BUndef \<longleftrightarrow> v = BUndef"
  by (cases v) (simp_all add: trim_val_def)

lemma video_valid: "SkipIfAbsent (IsRoomVideoUrl parse) v \<Longrightarrow> url_valid parse (str_opt v)"
  by (cases v) (auto simp: SkipIfAbsent_def IsRoomVideoUrl_def url_valid_def)

lemma strs_BStr [simp]: "List.map_filter str_opt (map BStr ts) = ts"
  by (induction ts) (simp_all add: map_filter_def)

context class_validator
begin

lemma strings: "list_all (dc_isString dc) xs \<longleftrightarrow> (\<exists>ts. xs = map BStr ts)"
  by (simp add: list_all_iff isString ex_map_conv)

lemma tags_accepted:
  assumes "SkipIfAbsent (\<lambda>v. dc_isArray dc v \<and> dc_arrayMaxSize dc 20 v \<and> each (dc_isString dc) v \<and> each (dc_maxLength dc 40) v) v" "strs_opt v = Some ts"
  shows "tags_valid ts"
proof -
  obtain xs where xs: "v = BArr xs" using assms(2) by (cases v) auto
  then obtain us where "xs = map BStr us" using assms(1) strings by (auto simp: SkipIfAbsent_def each_def)
  then show ?thesis using assms xs by (auto simp: SkipIfAbsent_def each_def arrayMaxSize maxLength list_all_iff tags_valid_def)
qed

lemma create_valid:
  assumes "CreateRoomDto dc parse b = Some dto"
  shows "name_valid (cd_name dto) \<and> url_valid parse (cd_videoUrl dto) \<and> (\<forall>d. cd_description dto = Some d \<longrightarrow> length d \<le> 500) \<and>
    (\<forall>ts. cd_tags dto = Some ts \<longrightarrow> tags_valid ts)"
proof -
  note d = assms [unfolded CreateRoomDto_def Let_def]
  obtain n where n: "cb_name b = BStr n" using d by (cases "cb_name b") (auto simp: isString trim_val_def split: if_splits)
  have "name_valid (cd_name dto)" using d by (auto simp: n trim_val_def isString isNotEmpty maxLength name_valid_def split: if_splits)
  moreover have "url_valid parse (cd_videoUrl dto)" using d video_valid [of parse "trim_val (cb_videoUrl b)"] by (auto split: if_splits)
  moreover have "length x \<le> 500" if "cd_description dto = Some x" for x
    using d that by (cases "cb_description b") (auto simp: SkipIfAbsent_def trim_val_def maxLength split: if_splits)
  moreover have "tags_valid ts" if "cd_tags dto = Some ts" for ts
    using d that by (intro tags_accepted [of "cb_tags b"]) (simp_all split: if_splits, auto)
  ultimately show ?thesis by blast
qed

lemma update_valid:
  assumes "UpdateRoomDto dc parse b = Some dto"
  shows "(\<forall>s. ud_name dto = Some s \<longrightarrow> name_valid s) \<and> url_valid parse (ud_videoUrl dto) \<and> (\<forall>n. ud_maxUsers dto = Some n \<longrightarrow> 2 \<le> n \<and> n \<le> 500)"
proof -
  note d = assms [unfolded UpdateRoomDto_def Let_def]
  have "name_valid s" if "ud_name dto = Some s" for s
    using d that by (cases "ub_name b") (auto simp: SkipIfAbsent_def trim_val_def isNotEmpty maxLength name_valid_def split: if_splits)
  moreover have "url_valid parse (ud_videoUrl dto)" using d video_valid [of parse "trim_val (ub_videoUrl b)"] by (auto split: if_splits)
  moreover have "2 \<le> n \<and> n \<le> 500" if "ud_maxUsers dto = Some n" for n
  proof -
    have m: "SkipIfAbsent (\<lambda>v. dc_isInt dc v \<and> dc_min dc 2 v \<and> dc_max dc 500 v) (ub_maxUsers b)" "nat_opt (ub_maxUsers b) = Some n"
      using d that by (simp_all split: if_splits) auto
    then obtain i where "ub_maxUsers b = BNum (Fin (of_int i))" by (cases "ub_maxUsers b") (auto simp: SkipIfAbsent_def isInt)
    then show ?thesis using m by (auto simp: SkipIfAbsent_def min max)
  qed
  ultimately show ?thesis by blast
qed

end

lemma patch_valid:
  assumes "room_valid parse r" "(\<forall>s. ud_name dto = Some s \<longrightarrow> name_valid s) \<and> url_valid parse (ud_videoUrl dto) \<and> (\<forall>n. ud_maxUsers dto = Some n \<longrightarrow> 2 \<le> n \<and> n \<le> 500)"
  shows "room_valid parse (patch_row db dto r)"
  using assms by (cases "ud_name dto") (auto simp: room_valid_def patch_row_def)

lemma created_valid:
  assumes "rooms_valid parse db" "name_valid (cd_name dto)" "url_valid parse (cd_videoUrl dto)" "\<forall>d. cd_description dto = Some d \<longrightarrow> length d \<le> 500"
    "\<forall>ts. cd_tags dto = Some ts \<longrightarrow> tags_valid ts"
  shows "rooms_valid parse (fst (createRoom db u dto i c))"
  using assms by (cases "cd_tags dto") (auto simp: createRoom_def Let_def rooms_valid_def room_valid_def tags_valid_def)

lemma deleted_valid: "rooms_valid parse db \<Longrightarrow> rooms_valid parse (fst (deleteRoom db code u))"
  by (auto simp: deleteRoom_def rooms_valid_def split: option.splits)

text \<open>What the timeline service persists keeps the rules when its video does, which the gateway admits by the same test.\<close>

lemma persisted_valid: "rooms_valid parse db \<Longrightarrow> url_valid parse (ru_videoUrl u) \<Longrightarrow> rooms_valid parse (persist_room db code u)"
  by (auto simp: rooms_valid_def persist_room_def persist_row_def room_valid_def)

context class_validator
begin

lemma route_valid:
  assumes "rooms_valid parse db"
  shows "rooms_valid parse (raw_route dc parse verify db (rv, header, raw))"
proof (cases "piped dc parse raw")
  case (Some rq)
  have create: "rooms_valid parse (fst (createRoom db u dto i c))" if "raw = RawCreate b i c" "rq = ReqCreate dto i c" for b dto i c u
    using that Some create_valid [of parse b dto] by (intro created_valid [OF assms]) (auto simp: piped_def)
  have patch: "rooms_valid parse (fst (updateRoomByCode db code u dto))" if "raw = RawPatch code b" "rq = ReqPatch code dto" for b dto code u
    using that Some update_valid [of parse b dto] patch_valid assms
    by (auto simp: piped_def updateRoomByCode_def rooms_valid_def updateRoom_def split: option.splits)
  show ?thesis
    using Some create patch deleted_valid [OF assms] assms
    by (cases raw) (auto simp: raw_route_def piped_def rooms_route_def split: sum.splits prod.splits, metis fst_conv)
qed (use assms in \<open>simp add: raw_route_def\<close>)

end

text \<open>
  C22. Every room ever stored is within the rules: along any run of requests, whatever their bodies and tokens, every
  room has a trimmed name of one to 120 characters, no video or one that is admitted, at most twenty tags of at most
  forty characters, a description of at most 500, and no limit of participants or one between 2 and 500.
\<close>

theorem stored_rooms_valid:
  assumes "class_validator dc" "rooms_valid parse db"
  shows "rooms_valid parse (foldl (raw_route dc parse verify) db rqs)"
  using assms(2)
proof (induction rqs arbitrary: db)
  case (Cons rq rqs)
  then show ?case using class_validator.route_valid [OF assms(1) Cons.prems] by (cases rq) simp
qed simp

definition demo_body :: create_body where
  "demo_body = \<lparr>cb_name = BStr ''  movie night '', cb_videoUrl = BUndef, cb_isPublic = BBool True, cb_description = BUndef,
     cb_tags = BArr [BStr ''scifi''], cb_allowGuestControl = BUndef\<rparr>"

lemma demo_body_passes:
  "CreateRoomDto standard_decorators parse demo_body = Some \<lparr>cd_name = ''movie night'', cd_videoUrl = None, cd_isPublic = Some True,
     cd_description = None, cd_tags = Some [''scifi''], cd_allowGuestControl = None\<rparr>"
  by (simp add: CreateRoomDto_def demo_body_def standard_decorators_def trim_val_def trim_def is_ws_def SkipIfAbsent_def each_def map_filter_def)

theorem stored_rooms_valid_witness:
  "rooms_valid (\<lambda>s. None) (foldl (raw_route standard_decorators (\<lambda>s. None) demo_verify) no_rooms
     [(new_revocation, Some ''Bearer tok'', RawCreate demo_body ''r1'' ''code1''), (new_revocation, None, RawDelete ''code1'')]) \<and>
   CreateRoomDto standard_decorators (\<lambda>s. None) demo_body \<noteq> None"
  using stored_rooms_valid [OF standard.class_validator_axioms, of "\<lambda>s. None" no_rooms] demo_body_passes
  by (simp add: rooms_valid_def no_rooms_def del: foldl_Cons)

subsection \<open>The forms and the rules\<close>

text \<open>What the create form sends and the rules the page does not check.\<close>

definition tag_list :: "create_form \<Rightarrow> string list" where
  "tag_list f = (if cf_isPublic f \<and> cf_tags f \<noteq> [] then map trim (split_on (CHR '','') (cf_tags f)) else [])"

definition form_within :: "create_form \<Rightarrow> bool" where
  "form_within f \<longleftrightarrow> length (trim (cf_name f)) \<le> 120 \<and> (cf_isPublic f \<longrightarrow> length (trim (cf_description f)) \<le> 500) \<and> tags_valid (tag_list f)"

lemma form_sent:
  assumes "handleSubmit parse signedIn f = FormSent b"
  shows "trim (cf_name f) \<noteq> []" "trim (cf_videoUrl f) \<noteq> [] \<Longrightarrow> isAcceptableVideoUrl parse (trim (cf_videoUrl f))"
    "b = \<lparr>cb_name = BStr (cf_name f), cb_videoUrl = (if trim (cf_videoUrl f) = [] then BUndef else BStr (trim (cf_videoUrl f))),
       cb_isPublic = BBool (cf_isPublic f), cb_description = (if cf_isPublic f then BStr (cf_description f) else BUndef),
       cb_tags = BArr (map BStr (tag_list f)), cb_allowGuestControl = BBool (cf_allowGuestControl f)\<rparr>"
  using assms by (auto simp: handleSubmit_def Let_def tag_list_def comp_def split: if_splits)

definition create_of :: "create_form \<Rightarrow> create_dto" where
  "create_of f = \<lparr>cd_name = trim (cf_name f), cd_videoUrl = (if trim (cf_videoUrl f) = [] then None else Some (trim (cf_videoUrl f))),
     cd_isPublic = Some (cf_isPublic f), cd_description = (if cf_isPublic f then Some (trim (cf_description f)) else None),
     cd_tags = Some (tag_list f), cd_allowGuestControl = Some (cf_allowGuestControl f)\<rparr>"

context class_validator
begin

lemma decorated [simp]:
  "dc_isString dc (BStr s)" "dc_isBoolean dc (BBool b)" "dc_isArray dc (BArr xs)" "dc_isInt dc (BNum (Fin (real n)))"
  "list_all (dc_isString dc) (map BStr ts)" "list_all (dc_maxLength dc k) (map BStr ts) \<longleftrightarrow> (\<forall>t\<in>set ts. length t \<le> k)"
  by (auto simp: isString isBoolean isArray isInt maxLength list_all_iff intro: exI [of _ "int n"])

lemmas decorator_laws = isNotEmpty maxLength arrayMaxSize min max

lemma create_form_accepted:
  assumes "handleSubmit parse signedIn f = FormSent b"
  shows "CreateRoomDto dc parse b = (if form_within f then Some (create_of f) else None)"
  using form_sent(1,2) [OF assms] unfolding form_sent(3) [OF assms]
  by (auto simp: CreateRoomDto_def Let_def trim_val_def SkipIfAbsent_def IsRoomVideoUrl_def each_def decorator_laws form_within_def
    tags_valid_def create_of_def)

lemma settings_accepted:
  assumes "trim (sf_name f) \<noteq> []" "length (trim (sf_name f)) \<le> 120" "sf_maxUsers f = Some (Fin (real n))" "2 \<le> n" "n \<le> 500"
  shows "UpdateRoomDto dc parse (changed f r) = Some \<lparr>ud_name = (if trim (sf_name f) \<noteq> re_name r then Some (trim (sf_name f)) else None), ud_videoUrl = None,
     ud_isPublic = (if sf_isPublic f \<noteq> re_isPublic r then Some (sf_isPublic f) else None),
     ud_allowGuestControl = (if sf_allowGuestControl f \<noteq> re_allowGuestControl r then Some (sf_allowGuestControl f) else None),
     ud_maxUsers = (if re_maxUsers r \<noteq> Some n then Some n else None)\<rparr>"
  using assms by (auto simp: UpdateRoomDto_def changed_def Let_def trim_val_def SkipIfAbsent_def decorator_laws)

end

text \<open>The row a form describes.\<close>

definition form_row :: "rooms_db \<Rightarrow> string \<Rightarrow> string \<Rightarrow> string \<Rightarrow> create_form \<Rightarrow> room_entry" where
  "form_row db userId i c f = \<lparr>re_id = i, re_code = c, re_name = trim (cf_name f),
     re_videoUrl = (if trim (cf_videoUrl f) = [] then None else Some (trim (cf_videoUrl f))), re_creatorId = userId, re_isActive = True,
     re_isPublic = cf_isPublic f, re_description = (if cf_isPublic f then Some (trim (cf_description f)) else None), re_tags = tag_list f,
     re_allowGuestControl = cf_allowGuestControl f, re_maxUsers = None, re_currentTime = 0, re_isPlaying = False,
     re_lastSyncAt = Fin (real (rd_now db)), re_updatedAt = rd_now db\<rparr>"

lemma created_by_form:
  assumes "\<forall>r\<in>set (rd_rooms db). re_id r \<noteq> i \<and> re_code r \<noteq> c"
  shows "createRoom db u (create_of f) i c = (db\<lparr>rd_rooms := rd_rooms db @ [form_row db u i c f]\<rparr>, Inr (form_row db u i c f))"
  using assms by (simp add: createRoom_def create_of_def form_row_def Let_def list_ex_iff)

lemma find_last_fresh: "\<forall>x\<in>set xs. \<not> P x \<Longrightarrow> List.find P (xs @ ys) = List.find P ys"
  by (induction xs) auto

lemma found_when_fresh:
  "\<forall>r\<in>set (rd_rooms db). re_code r \<noteq> re_code w \<Longrightarrow> room_by_code (db\<lparr>rd_rooms := rd_rooms db @ [w]\<rparr>) (re_code w) = Some w"
  unfolding room_by_code_def by (simp add: find_last_fresh)

text \<open>
  C30. The create form, the rules and the room agree. What a signed-in user's form sends passes the server's rules
  exactly when the name, the description and the tags are within their lengths, which are the only rules the page leaves
  to the server. Then exactly one row is added, under the id and the code the database drew (not in use before), and it is
  the one the form describes: its name trimmed, with the video that was typed or none, description and tags only when it
  is public, visibility and control as ticked, created by the user of the token, no limit, at the start and not playing;
  it is what the answer carries and what a lookup of the code then finds. Otherwise nothing is written. With a token the
  guard refuses nothing is written either.
\<close>

theorem create_form_meets_rules:
  assumes "class_validator dc" "handleSubmit parse signedIn f = FormSent b"
    and "\<forall>r\<in>set (rd_rooms db). re_id r \<noteq> i \<and> re_code r \<noteq> c"
  shows "raw_route dc parse verify db (rv, header, RawCreate b i c) =
      (case canActivate verify rv header of
         Inl e \<Rightarrow> db
       | Inr u \<Rightarrow> if form_within f then db\<lparr>rd_rooms := rd_rooms db @ [form_row db (au_userId u) i c f]\<rparr> else db) \<and>
    (if form_within f
        then \<exists>dto. CreateRoomDto dc parse b = Some dto \<and> snd (createRoom db userId dto i c) = Inr (form_row db userId i c f) \<and>
          room_by_code (fst (createRoom db userId dto i c)) c = Some (form_row db userId i c f)
        else CreateRoomDto dc parse b = None)"
proof -
  note acc = class_validator.create_form_accepted [OF assms(1,2)]
  note made = created_by_form [OF assms(3)]
  have "re_code (form_row db userId i c f) = c" by (simp add: form_row_def)
  then have "(if form_within f
        then \<exists>dto. CreateRoomDto dc parse b = Some dto \<and> snd (createRoom db userId dto i c) = Inr (form_row db userId i c f) \<and>
          room_by_code (fst (createRoom db userId dto i c)) c = Some (form_row db userId i c f)
        else CreateRoomDto dc parse b = None)"
    using found_when_fresh [of db "form_row db userId i c f"] assms(3) by (simp add: acc made)
  then show ?thesis by (simp add: raw_route_def piped_def acc rooms_route_def made split: sum.split)
qed

definition demo_form :: create_form where
  "demo_form = new_form\<lparr>cf_name := '' night '', cf_isPublic := True, cf_tags := ''a, b''\<rparr>"

theorem create_form_meets_rules_witness:
  "\<exists>b. handleSubmit (\<lambda>s. None) True demo_form = FormSent b \<and>
    map re_tags (rd_rooms (raw_route standard_decorators (\<lambda>s. None) demo_verify no_rooms (demo_revocation, Some ''Bearer tok'', RawCreate b ''r1'' ''code1''))) =
      [[''a'', ''b'']]"
proof -
  obtain b where b: "handleSubmit (\<lambda>s. None) True demo_form = FormSent b"
    by (simp add: handleSubmit_def demo_form_def new_form_def trim_def is_ws_def Let_def)
  have ann: "tp_name demo_payload = JStr ''Ann''" by (simp add: demo_payload_def)
  obtain u where u: "canActivate demo_verify demo_revocation (Some ''Bearer tok'') = Inr u"
    using canActivate_bearer [of "''tok''" demo_verify demo_revocation "\<lparr>au_userId = ''ann'', au_username = ''Ann''\<rparr>"]
    by (auto simp: bare_token_def is_ws_def demo_verify_def demo_not_revoked ann)
  show ?thesis using create_form_meets_rules [OF standard.class_validator_axioms b, of no_rooms "''r1''" "''code1''" demo_verify demo_revocation "Some ''Bearer tok''"] b
    by (simp add: u form_within_def form_row_def tag_list_def tags_valid_def demo_form_def new_form_def trim_def is_ws_def no_rooms_def)
qed

text \<open>What the server makes of a save: the effects on the room's row, as the creator.\<close>

definition apply_save :: "decorators \<Rightarrow> (string \<Rightarrow> url option) \<Rightarrow> room_entry \<Rightarrow> rooms_db \<Rightarrow> save_effect \<Rightarrow> rooms_db" where
  "apply_save dc parse r db eff = (case eff of
     SavePatch b \<Rightarrow> (case UpdateRoomDto dc parse b of None \<Rightarrow> db | Some dto \<Rightarrow> fst (updateRoomByCode db (re_code r) (re_creatorId r) dto))
   | _ \<Rightarrow> db)"

lemma save_video_quiet: "foldl (apply_save dc parse r) db (save_video sock code url cmdId) = db"
  by (cases sock) (auto simp: save_video_def sendSetVideo_def apply_save_def Let_def split: prod.splits)

text \<open>What a save sends: the bodies of the patches and the calls on the socket.\<close>

definition patches_sent :: "save_effect list \<Rightarrow> update_body list" where
  "patches_sent effs = concat (map (\<lambda>eff. case eff of SavePatch b \<Rightarrow> [b] | _ \<Rightarrow> []) effs)"

definition calls_sent :: "save_effect list \<Rightarrow> engine_call list" where
  "calls_sent effs = concat (map (\<lambda>eff. case eff of SaveVideo c \<Rightarrow> [c] | _ \<Rightarrow> []) effs)"

lemma save_video_sent:
  "patches_sent (save_video sock code url cmdId) = []"
  "calls_sent (save_video sock code url cmdId) =
    (if sock = Some True then [EmitControl \<lparr>wc_roomCode = JStr code, wc_intent = JStr ''set-video'', wc_mediaTime = JNum 0,
       wc_cmdId = JStr cmdId, wc_videoUrl = JStr url, wc_forVideoId = JUndef\<rparr>] else [])"
proof -
  consider "sock = None" | "sock = Some True" | "sock = Some False" by (cases sock) auto
  then show "patches_sent (save_video sock code url cmdId) = []"
    by cases (simp_all add: save_video_def sendSetVideo_def patches_sent_def)
  consider "sock = None" | "sock = Some True" | "sock = Some False" by (cases sock) auto
  then show "calls_sent (save_video sock code url cmdId) =
    (if sock = Some True then [EmitControl \<lparr>wc_roomCode = JStr code, wc_intent = JStr ''set-video'', wc_mediaTime = JNum 0,
       wc_cmdId = JStr cmdId, wc_videoUrl = JStr url, wc_forVideoId = JUndef\<rparr>] else [])"
    by cases (simp_all add: save_video_def sendSetVideo_def calls_sent_def)
qed

text \<open>The form shows what the room has.\<close>

definition shows_room :: "settings_form \<Rightarrow> nat \<Rightarrow> room_entry \<Rightarrow> bool" where
  "shows_room f n r \<longleftrightarrow> re_name r = trim (sf_name f) \<and> re_isPublic r = sf_isPublic f \<and> re_allowGuestControl r = sf_allowGuestControl f \<and>
     re_maxUsers r = Some n"

lemma changed_nothing:
  assumes "sf_maxUsers f = Some (Fin (real n))"
  shows "changed f r = no_change \<longleftrightarrow> shows_room f n r"
  using assms by (cases "re_maxUsers r") (auto simp: changed_def no_change_def shows_room_def)

lemma room_after_update:
  assumes "rooms_ok db" "r \<in> set (rd_rooms db)"
  shows "fst (updateRoomByCode db (re_code r) (re_creatorId r) dto) =
    db\<lparr>rd_rooms := map (\<lambda>x. if x = r then patch_row db dto r else x) (rd_rooms db)\<rparr>"
proof -
  have r: "room_by_code db (re_code r) = Some r" using room_by_code_Some [OF assms(1)] assms(2) by blast
  have "re_id x = re_id r \<longleftrightarrow> x = r" if "x \<in> set (rd_rooms db)" for x
    using that assms by (auto simp: rooms_ok_def distinct_map dest: inj_onD)
  then have "map (\<lambda>x. if re_id x = re_id r then patch_row db dto x else x) (rd_rooms db) =
      map (\<lambda>x. if x = r then patch_row db dto r else x) (rd_rooms db)" by auto
  then show ?thesis using r by (simp add: updateRoomByCode_def updateRoom_def)
qed

lemma map_same_row: "map (\<lambda>x. if x = r then r else x) rs = rs"
  by (induction rs) auto

text \<open>
  C31. Saving the settings does what the form shows, and nothing else. The creator saves a form with a name within its
  length, a limit between 2 and 500 and a playable or empty address. Then at most one patch is sent: none when the form
  shows what the room has, otherwise one that carries exactly the columns that differ, and never the video. The video is
  sent to the room as one control when its address differs and the page is connected, and otherwise no control is sent.
  On the server the row of this room then has the name, the visibility, the control setting and the limit of the form, and
  every other column as it was, except the update time when something was patched; every other row of every table is as it was.
\<close>

theorem settings_take_effect:
  assumes "class_validator dc" "rooms_ok db" "r \<in> set (rd_rooms db)"
    and "trim (sf_name f) \<noteq> []" "length (trim (sf_name f)) \<le> 120" "sf_maxUsers f = Some (Fin (real n))" "2 \<le> n" "n \<le> 500"
    and "trim (sf_videoUrl f) = [] \<or> isAcceptableVideoUrl parse (trim (sf_videoUrl f))"
  shows "patches_sent (handleUpdateSettings parse f r None sock cmdId) =
      (if shows_room f n r then []
       else [\<lparr>ub_name = (if trim (sf_name f) \<noteq> re_name r then BStr (trim (sf_name f)) else BUndef), ub_videoUrl = BUndef,
         ub_isPublic = (if sf_isPublic f \<noteq> re_isPublic r then BBool (sf_isPublic f) else BUndef),
         ub_allowGuestControl = (if sf_allowGuestControl f \<noteq> re_allowGuestControl r then BBool (sf_allowGuestControl f) else BUndef),
         ub_maxUsers = (if re_maxUsers r \<noteq> Some n then BNum (Fin (real n)) else BUndef)\<rparr>]) \<and>
    calls_sent (handleUpdateSettings parse f r None sock cmdId) =
      (if trim (sf_videoUrl f) \<noteq> nullish (re_videoUrl r) [] \<and> sock = Some True
       then [EmitControl \<lparr>wc_roomCode = JStr (re_code r), wc_intent = JStr ''set-video'', wc_mediaTime = JNum 0, wc_cmdId = JStr cmdId,
         wc_videoUrl = JStr (trim (sf_videoUrl f)), wc_forVideoId = JUndef\<rparr>]
       else []) \<and>
    foldl (apply_save dc parse r) db (handleUpdateSettings parse f r None sock cmdId) =
      db\<lparr>rd_rooms := map (\<lambda>x. if x = r
         then r\<lparr>re_name := trim (sf_name f), re_isPublic := sf_isPublic f, re_allowGuestControl := sf_allowGuestControl f, re_maxUsers := Some n,
                re_updatedAt := (if shows_room f n r then re_updatedAt r else rd_now db)\<rparr>
         else x) (rd_rooms db)\<rparr>"
proof -
  let ?patch = "if shows_room f n r then [] else [SavePatch (changed f r)]"
  let ?rest = "if trim (sf_videoUrl f) \<noteq> nullish (re_videoUrl r) [] then save_video sock (re_code r) (trim (sf_videoUrl f)) cmdId
    else [SaveToast ''Settings saved'', SaveUpdated, SaveClosed]"
  let ?row = "r\<lparr>re_name := trim (sf_name f), re_isPublic := sf_isPublic f, re_allowGuestControl := sf_allowGuestControl f, re_maxUsers := Some n,
                re_updatedAt := (if shows_room f n r then re_updatedAt r else rd_now db)\<rparr>"
  have h: "handleUpdateSettings parse f r None sock cmdId = ?patch @ ?rest"
  proof -
    have ok: "(trim (sf_videoUrl f) \<noteq> [] \<and> \<not> isAcceptableVideoUrl parse (trim (sf_videoUrl f))) = False" using assms(9) by blast
    show ?thesis unfolding handleUpdateSettings_def Let_def changed_nothing [OF assms(6)] ok using assms(4) by simp
  qed
  have rest: "foldl (apply_save dc parse r) db' ?rest = db'" for db' by (simp add: save_video_quiet) (simp add: apply_save_def)
  have rest_sent: "patches_sent ?rest = []" "calls_sent ?rest = (if trim (sf_videoUrl f) \<noteq> nullish (re_videoUrl r) [] \<and> sock = Some True
       then [EmitControl \<lparr>wc_roomCode = JStr (re_code r), wc_intent = JStr ''set-video'', wc_mediaTime = JNum 0, wc_cmdId = JStr cmdId,
         wc_videoUrl = JStr (trim (sf_videoUrl f)), wc_forVideoId = JUndef\<rparr>] else [])"
    by (simp_all add: save_video_sent) (simp_all add: patches_sent_def calls_sent_def)
  have app: "patches_sent (a @ b) = patches_sent a @ patches_sent b" "calls_sent (a @ b) = calls_sent a @ calls_sent b" for a b
    by (simp_all add: patches_sent_def calls_sent_def)
  have one: "patches_sent ?patch = (if shows_room f n r then [] else [changed f r])" "calls_sent ?patch = []"
    by (simp_all add: patches_sent_def calls_sent_def)
  have body: "changed f r = \<lparr>ub_name = (if trim (sf_name f) \<noteq> re_name r then BStr (trim (sf_name f)) else BUndef), ub_videoUrl = BUndef,
         ub_isPublic = (if sf_isPublic f \<noteq> re_isPublic r then BBool (sf_isPublic f) else BUndef),
         ub_allowGuestControl = (if sf_allowGuestControl f \<noteq> re_allowGuestControl r then BBool (sf_allowGuestControl f) else BUndef),
         ub_maxUsers = (if re_maxUsers r \<noteq> Some n then BNum (Fin (real n)) else BUndef)\<rparr>"
    using assms(6) by (cases "re_maxUsers r") (auto simp: changed_def)
  note acc = class_validator.settings_accepted [OF assms(1,4-8), of parse r]
  have applied: "foldl (apply_save dc parse r) db ?patch = db\<lparr>rd_rooms := map (\<lambda>x. if x = r then ?row else x) (rd_rooms db)\<rparr>"
  proof (cases "shows_room f n r")
    case True
    then have "?row = r" by (simp add: shows_room_def)
    then have "map (\<lambda>x. if x = r then ?row else x) (rd_rooms db) = rd_rooms db" by (simp only: map_same_row)
    then show ?thesis using True by simp
  next
    case False
    then show ?thesis using acc by (simp add: apply_save_def room_after_update [OF assms(2,3)]) (simp add: patch_row_def cong: if_cong)
  qed
  have "patches_sent (handleUpdateSettings parse f r None sock cmdId) = (if shows_room f n r then [] else [changed f r])"
    unfolding h app one rest_sent by simp
  moreover have "calls_sent (handleUpdateSettings parse f r None sock cmdId) = calls_sent ?rest" unfolding h app one by simp
  moreover have "foldl (apply_save dc parse r) db (handleUpdateSettings parse f r None sock cmdId) =
      db\<lparr>rd_rooms := map (\<lambda>x. if x = r then ?row else x) (rd_rooms db)\<rparr>"
    unfolding h foldl_append rest by (rule applied)
  ultimately show ?thesis by (simp only: body rest_sent)
qed

definition demo_entry :: room_entry where
  "demo_entry = \<lparr>re_id = ''r1'', re_code = ''code1'', re_name = ''night'', re_videoUrl = None, re_creatorId = ''ann'', re_isActive = True,
     re_isPublic = False, re_description = None, re_tags = [], re_allowGuestControl = False, re_maxUsers = Some 8, re_currentTime = 0,
     re_isPlaying = False, re_lastSyncAt = 0, re_updatedAt = 0\<rparr>"

theorem settings_take_effect_witness:
  "patches_sent (handleUpdateSettings (\<lambda>s. None) ((new_settings demo_entry)\<lparr>sf_name := '' day ''\<rparr>) demo_entry None (Some True) ''c1'') =
     [no_change\<lparr>ub_name := BStr ''day''\<rparr>] \<and>
   map re_name (rd_rooms (foldl (apply_save standard_decorators (\<lambda>s. None) demo_entry) (no_rooms\<lparr>rd_rooms := [demo_entry]\<rparr>)
      (handleUpdateSettings (\<lambda>s. None) ((new_settings demo_entry)\<lparr>sf_name := '' day ''\<rparr>) demo_entry None (Some True) ''c1''))) = [''day'']"
proof -
  let ?f = "(new_settings demo_entry)\<lparr>sf_name := '' day ''\<rparr>" and ?db = "no_rooms\<lparr>rd_rooms := [demo_entry]\<rparr>"
  have day: "trim (sf_name ?f) = ''day''" by (simp add: trim_def is_ws_def)
  have url: "trim (sf_videoUrl ?f) = []" by (simp add: new_settings_def demo_entry_def trim_def)
  have ok: "rooms_ok ?db" "demo_entry \<in> set (rd_rooms ?db)" by (simp_all add: rooms_ok_def no_rooms_def)
  have lim: "sf_maxUsers ?f = Some (Fin (real 8))" by (simp add: new_settings_def shown_max_def demo_entry_def)
  have row: "sf_isPublic ?f = re_isPublic demo_entry" "sf_allowGuestControl ?f = re_allowGuestControl demo_entry" "re_maxUsers demo_entry = Some 8"
      "re_name demo_entry = ''night''" "\<not> shows_room ?f 8 demo_entry"
    using day by (simp_all add: new_settings_def shows_room_def demo_entry_def)
  have len: "trim (sf_name ?f) \<noteq> []" "length (trim (sf_name ?f)) \<le> 120" unfolding day by simp_all
  have le: "2 \<le> (8 :: nat)" "(8 :: nat) \<le> 500" by simp_all
  note all = settings_take_effect [OF standard.class_validator_axioms ok len lim le disjI1 [OF url], of "\<lambda>s. None" "Some True" "''c1''"]
  have "patches_sent (handleUpdateSettings (\<lambda>s. None) ?f demo_entry None (Some True) ''c1'') = [no_change\<lparr>ub_name := BStr ''day''\<rparr>]"
    unfolding all [THEN conjunct1] day row(1-4) using row(5) by (simp add: no_change_def)
  moreover have "map re_name (rd_rooms (foldl (apply_save standard_decorators (\<lambda>s. None) demo_entry) ?db
      (handleUpdateSettings (\<lambda>s. None) ?f demo_entry None (Some True) ''c1''))) = [''day'']"
    unfolding all [THEN conjunct2, THEN conjunct2] day by (simp add: no_rooms_def)
  ultimately show ?thesis by (rule conjI)
qed

text \<open>
  A room is created without a limit of participants. Its settings show twenty, and saving them, whatever was
  changed or nothing at all, writes that limit.
\<close>

lemma saving_caps_unlimited_room:
  assumes "re_maxUsers r = None" "sf_maxUsers f = sf_maxUsers (new_settings r)"
  shows "ub_maxUsers (changed f r) = BNum 20 \<and> changed f r \<noteq> no_change"
  using assms by (simp add: changed_def new_settings_def shown_max_def DEFAULT_MAX_USERS_def no_change_def)

end
