(* ===== verification/Dialogs.thy ===== *)
theory Dialogs
  imports BrowserSession
begin

text \<open>
  The dialogs and small pages around a session: account and security (components/AccountDialog.tsx), keeping a guest
  account (components/ClaimAccount.tsx), signing in (pages/LoginPage.tsx), joining by code or link
  (pages/JoinByCodePage.tsx, pages/JoinRoomPage.tsx), and the list of rooms (pages/HomePage.tsx). What the server
  answers and what the forms hold are arguments; going to a page is an answer. With the routes of the server: a
  password change keeps the tab that made it signed in. A wrong current password signs it out.
\<close>

subsection \<open>Account and security\<close>

record account_profile =
  ap_hasPassword :: bool
  ap_googleLinked :: bool
  ap_isGuest :: bool

record account_dialog =
  ad_profile :: "account_profile option"
  ad_busy :: "string option"
  ad_elevated :: "string option"

datatype dialog_effect = DialogToast toast | GoTo string | DialogClose

text \<open>The parked token of a Google confirmation is read when the dialog opens, and stays parked.\<close>

definition open_account :: "web_tab \<Rightarrow> account_dialog" where
  "open_account tab = \<lparr>ad_profile = None, ad_busy = None, ad_elevated = (if truthy (wt_elevated tab) then wt_elevated tab else None)\<rparr>"

definition on_profile :: "account_dialog \<Rightarrow> api_error + account_profile \<Rightarrow> account_dialog \<times> dialog_effect list" where
  "on_profile d answer = (case answer of
     Inr p \<Rightarrow> (d\<lparr>ad_profile := Some p\<rparr>, [])
   | Inl e \<Rightarrow> (d, [DialogToast (ToastError ''Couldn't load account details'')]))"

datatype password_section = AskCurrent | AskNew | ConfirmFirst

definition password_section_of :: "account_dialog \<Rightarrow> password_section option" where
  "password_section_of d = (case ad_profile d of
     None \<Rightarrow> None
   | Some p \<Rightarrow> if ap_isGuest p then None
       else Some (if ap_hasPassword p then AskCurrent else if truthy (ad_elevated d) then AskNew else ConfirmFirst))"

text \<open>A request that is refused passes the interceptor of the API client first.\<close>

definition api_linkStart :: api_request where
  "api_linkStart = api_post ''/auth/google/link-start'' None"

definition api_reauthStart :: api_request where
  "api_reauthStart = api_post ''/auth/google/reauth-start'' None"

definition refused :: "web_tab \<Rightarrow> api_request \<Rightarrow> api_error \<Rightarrow> web_tab" where
  "refused tab config e = (case on_request (wt_store tab) config of
     None \<Rightarrow> tab | Some c \<Rightarrow> onRejected tab (ar_headers c) (ae_status e))"

definition linkGoogle :: "web_tab \<Rightarrow> account_dialog \<Rightarrow> api_error + string \<Rightarrow> web_tab \<times> account_dialog \<times> dialog_effect list" where
  "linkGoogle tab d answer = (case answer of
     Inr authUrl \<Rightarrow> (tab, d\<lparr>ad_busy := Some ''link''\<rparr>, [GoTo authUrl])
   | Inl e \<Rightarrow> (refused tab api_linkStart e, d\<lparr>ad_busy := None\<rparr>,
       [DialogToast (ToastError (if ae_status e = Some 401 then ''That password is wrong'' else ''Couldn't start Google linking''))]))"

definition beginReauth :: "web_tab \<Rightarrow> account_dialog \<Rightarrow> api_error + string \<Rightarrow> web_tab \<times> account_dialog \<times> dialog_effect list" where
  "beginReauth tab d answer = (case answer of
     Inr authUrl \<Rightarrow> (tab, d\<lparr>ad_busy := Some ''reauth''\<rparr>, [GoTo authUrl])
   | Inl e \<Rightarrow> (refused tab api_reauthStart e, d\<lparr>ad_busy := None\<rparr>, [DialogToast (ToastError ''Couldn't start the Google confirmation'')]))"

definition password_request :: "account_dialog \<Rightarrow> api_request" where
  "password_request d = (if truthy (ad_elevated d) then api_setPasswordElevated (nullish (ad_elevated d) []) else api_setPassword)"

definition password_message :: "account_dialog \<Rightarrow> api_error \<Rightarrow> string" where
  "password_message d e =
     (if ae_status e = Some 401
      then (if truthy (ad_elevated d) then ''The Google confirmation expired - confirm again'' else ''The current password is wrong'')
      else if ae_status e = Some 400 then ''Passwords are at least 8 characters''
      else ''Couldn't save the password'')"

text \<open>The answer to a password change: the id and the token of the session that survives, or the refusal.\<close>

definition submitPassword :: "web_tab \<Rightarrow> account_dialog \<Rightarrow> api_error + string \<times> string \<Rightarrow> web_tab \<times> account_dialog \<times> dialog_effect list" where
  "submitPassword tab d answer = (case answer of
     Inr (i, token) \<Rightarrow>
       ((if token \<noteq> [] then adoptToken tab token i else tab)\<lparr>wt_elevated := None\<rparr>,
        d\<lparr>ad_elevated := None, ad_profile := map_option (\<lambda>p. p\<lparr>ap_hasPassword := True\<rparr>) (ad_profile d), ad_busy := None\<rparr>,
        [DialogToast (ToastOk ''Password saved - every other session was signed out'')])
   | Inl e \<Rightarrow>
       (let tab' = refused tab (password_request d) e; spent = (ae_status e = Some 401 \<and> truthy (ad_elevated d)) in
        (if spent then tab'\<lparr>wt_elevated := None\<rparr> else tab',
         (if spent then d\<lparr>ad_elevated := None\<rparr> else d)\<lparr>ad_busy := None\<rparr>, [DialogToast (ToastError (password_message d e))])))"

definition sign_out_everywhere :: "bool \<Rightarrow> web_tab \<Rightarrow> (web_tab \<times> string option) \<times> dialog_effect list" where
  "sign_out_everywhere synchronous tab = (logout synchronous tab True, [DialogClose])"

text \<open>
  The keys of a dialog: escape closes it, tab is moved from one end of the focusable elements to the other. The
  answer is whether the dialog closes, and the element that is given the focus when the key is caught.
\<close>

definition dialog_key :: "string \<Rightarrow> bool \<Rightarrow> 'e list \<Rightarrow> 'e option \<Rightarrow> bool \<Rightarrow> bool \<times> 'e option" where
  "dialog_key key shift focusable active inside =
     (if key = ''Escape'' then (True, None)
      else if key \<noteq> ''Tab'' then (False, None)
      else if focusable = [] then (False, None)
      else if shift \<and> (active = Some (hd focusable) \<or> \<not> inside) then (False, Some (last focusable))
      else if \<not> shift \<and> active = Some (last focusable) then (False, Some (hd focusable))
      else (False, None))"

subsection \<open>Keeping a guest account\<close>

definition claim_submit :: "web_tab \<Rightarrow> http_headers option \<Rightarrow> api_error + web_user \<Rightarrow> web_tab \<times> dialog_effect list" where
  "claim_submit tab sent answer = (case claimAccount tab sent answer of (tab', said) \<Rightarrow>
     (tab', DialogToast said # (case answer of Inr _ \<Rightarrow> [DialogClose] | Inl _ \<Rightarrow> [])))"

definition claim_withGoogle :: "web_tab \<Rightarrow> api_error + string \<Rightarrow> web_tab \<times> dialog_effect list" where
  "claim_withGoogle tab answer = (case answer of
     Inr authUrl \<Rightarrow> (tab, [GoTo authUrl])
   | Inl e \<Rightarrow> (refused tab api_linkStart e, [DialogToast (ToastError ''Couldn't start Google sign-in'')]))"

subsection \<open>Signing in and coming back\<close>

definition login_submit :: "web_tab \<Rightarrow> bool \<Rightarrow> string option \<Rightarrow> api_error + web_user \<Rightarrow> web_tab \<times> dialog_effect list" where
  "login_submit tab isLogin returnTo answer = (case (if isLogin then web_login tab answer else web_register tab answer) of (tab', said) \<Rightarrow>
     (tab', DialogToast said # (case answer of Inr _ \<Rightarrow> [GoTo (nullish returnTo ''/'')] | Inl _ \<Rightarrow> [])))"

definition readReturnTo :: "(string \<Rightarrow> string \<Rightarrow> string option) \<Rightarrow> string \<Rightarrow> string option" where
  "readReturnTo params search = browser_safeReturnTo (params search ''next'')"

definition loginUrlFor :: "(string \<Rightarrow> string) \<Rightarrow> string \<Rightarrow> string" where
  "loginUrlFor encode destination = (case browser_safeReturnTo (Some destination) of
     None \<Rightarrow> ''/login'' | Some safe \<Rightarrow> ''/login?next='' @ encode safe)"

subsection \<open>Joining\<close>

text \<open>The first place in the text where a room's path with a non-empty code begins.\<close>

definition ends_code :: "char \<Rightarrow> bool" where
  "ends_code c \<longleftrightarrow> c = CHR ''/'' \<or> c = CHR ''?'' \<or> c = CHR ''#'' \<or> is_ws c"

definition code_after :: "string \<Rightarrow> string \<Rightarrow> string option" where
  "code_after prefix s =
     (if startsWith s prefix \<and> takeWhile (\<lambda>c. \<not> ends_code c) (drop (length prefix) s) \<noteq> []
      then Some (takeWhile (\<lambda>c. \<not> ends_code c) (drop (length prefix) s)) else None)"

fun code_match :: "string \<Rightarrow> string option" where
  "code_match [] = None"
| "code_match (c # cs) =
     (case code_after ''/room/'' (c # cs) of
        Some x \<Rightarrow> Some x
      | None \<Rightarrow> (case code_after ''/join-room/'' (c # cs) of Some x \<Rightarrow> Some x | None \<Rightarrow> code_match cs))"

definition join_by_code :: "string \<Rightarrow> string option" where
  "join_by_code code =
     (let raw = trim code in
      if raw = [] then None
      else (let cleaned = filter is_idchar (nullish (code_match raw) raw) in
        if cleaned = [] then None else Some (''/join-room/'' @ cleaned)))"

record join_page =
  jp_roomInfo :: "bool option"
  jp_error :: "string option"

definition join_page_fetched :: "join_page \<Rightarrow> string \<Rightarrow> bool option \<Rightarrow> join_page" where
  "join_page_fetched p roomCode answer =
     (if roomCode = [] then p\<lparr>jp_error := Some ''No room code provided''\<rparr>
      else (case answer of
          Some isPublic \<Rightarrow> p\<lparr>jp_roomInfo := Some isPublic, jp_error := None\<rparr>
        | None \<Rightarrow> p\<lparr>jp_error := Some ''That room was not found, or you do not have permission to join''\<rparr>))"

definition join_page_join :: "(string \<Rightarrow> string) \<Rightarrow> join_page \<Rightarrow> string \<Rightarrow> bool \<Rightarrow> dialog_effect list" where
  "join_page_join encode p roomCode signedIn =
     (if \<not> signedIn then [DialogToast (ToastError ''Sign in first''), GoTo (loginUrlFor encode (''/room/'' @ roomCode))]
      else if jp_roomInfo p = None then [DialogToast (ToastError ''Room details aren't available yet'')]
      else [GoTo (''/room/'' @ roomCode)])"

definition handleJoinPublicRoom :: "join_page \<Rightarrow> string \<Rightarrow> dialog_effect list" where
  "handleJoinPublicRoom p roomCode = (if jp_roomInfo p = Some True then [GoTo (''/room/'' @ roomCode)] else [])"

subsection \<open>The list of rooms\<close>

definition home_join :: "string \<Rightarrow> bool \<Rightarrow> dialog_effect list" where
  "home_join roomCode isPrivate = [GoTo ((if isPrivate then ''/join-room/'' else ''/room/'') @ roomCode)]"

definition home_recent :: "web_tab \<Rightarrow> recent_room list" where
  "home_recent tab = (if wt_user tab = None then [] else listRecentRooms (wt_recent tab))"

definition home_delete :: "api_error option \<Rightarrow> bool \<times> dialog_effect list" where
  "home_delete failure = (case failure of
     None \<Rightarrow> (False, [DialogToast (ToastOk ''Room deleted'')])
   | Some e \<Rightarrow> (True, [DialogToast (ToastError (if truthy (ae_message e) then nullish (ae_message e) [] else ''Couldn't delete the room''))]))"

definition show_int :: "int \<Rightarrow> string" where
  "show_int k = (if k < 0 then CHR ''-'' # show_nat (nat (- k)) else show_nat (nat k))"

definition getTimeSince :: "real \<Rightarrow> real \<Rightarrow> string" where
  "getTimeSince now date =
     (let minutes = \<lfloor>(now - date) / 60000\<rfloor>; hours = \<lfloor>of_int minutes / (60 :: real)\<rfloor> in
      if minutes < 60 then show_int minutes @ ''m ago''
      else if hours < 24 then show_int hours @ ''h ago''
      else show_int \<lfloor>of_int hours / (24 :: real)\<rfloor> @ ''d ago'')"

subsection \<open>A password change and the tab that made it\<close>

lemma setPassword_route:
  assumes "route_setPassword cx app header cur new jti = (app', Inr s)"
  shows "\<exists>i. i \<noteq> [] \<and> setPassword (cx_env cx) (aa_accounts app) (aa_revocation app) i (nullish new []) jti = (aa_accounts app', aa_revocation app', Inr s)"
proof -
  obtain u where k: "canActivate (cx_verify cx) (aa_revocation app) header = Inr u"
    "(case reauthMethodFor (aa_accounts app) (au_userId u) of
       Some ReauthPassword \<Rightarrow>
         if verifyPassword (cx_env cx) (aa_accounts app) (au_userId u) (nullish cur [])
         then change_password cx app (au_userId u) (nullish new []) jti else (app, Inl WrongPassword)
     | Some ReauthGoogle \<Rightarrow>
         (case decodeOwnToken (cx_verify cx) header of
            None \<Rightarrow> (app, Inl ConfirmWithGoogle)
          | Some p \<Rightarrow> if tp_elev p \<noteq> JStr ''reauth'' \<or> tp_sub p \<noteq> JStr (au_userId u) then (app, Inl ConfirmWithGoogle)
              else change_password cx app (au_userId u) (nullish new []) jti)
     | None \<Rightarrow> (app, Inl NoReauthMethod)) = (app', Inr s)"
    using assms by (auto simp: route_setPassword_def guarded_Inr)
  have u: "canActivate (cx_verify cx) (aa_revocation app) header = Inr u" "change_password cx app (au_userId u) (nullish new []) jti = (app', Inr s)"
    using k by (cases "reauthMethodFor (aa_accounts app) (au_userId u)"; auto split: reauth.splits option.splits if_splits)+
  have "au_userId u \<noteq> []" using u(1)
    by (auto simp: canActivate_def subjectOf_def Let_def split: if_splits option.splits verified.splits jsval.splits rev_reason.splits)
  moreover have "setPassword (cx_env cx) (aa_accounts app) (aa_revocation app) (au_userId u) (nullish new []) jti = (aa_accounts app', aa_revocation app', Inr s)"
    using u(2) by (auto simp: change_password_def split: prod.splits sum.splits)
  ultimately show ?thesis by blast
qed

text \<open>
  C18. Whoever changes the password stays signed in, and nobody else. After the account dialog's change was accepted,
  the tab's next request passes the guard of the server as the same user, the tab shows that user with the new
  token, the parked confirmation is spent, and the token the tab had before passes no longer.
\<close>

theorem password_change_keeps_tab:
  assumes "route_setPassword cx app (sent_header (wt_store tab) (password_request d)) cur new jti = (app', Inr s)"
    and "wt_user tab = Some u" "wt_store tab = Some (JsonUser u)" "wu_id u = su_id s"
    and "hash_ok (cx_env cx)" "rv_loaded (aa_revocation app)" "jti \<notin> revokedTokens (aa_revocation app)"
      "nullish (userVersions (aa_revocation app) (su_id s)) 0 \<le> tokenVersion (aa_accounts app) (su_id s)"
    and "bare_token tok" "cx_verify cx tok = Verified (su_token s)"
    and "bare_token old" "cx_verify cx old = Verified p" "subjectOf p = Some (su_id s)"
      "\<forall>c. versionOf p = Some c \<longrightarrow> c \<le> tokenVersion (aa_accounts app) (su_id s)"
  shows "(\<exists>w. canActivate (cx_verify cx) (aa_revocation app') (sent_header (wt_store (fst (submitPassword tab d (Inr (su_id s, tok))))) api_refresh) = Inr w \<and>
      au_userId w = wu_id u) \<and>
    wt_user (fst (submitPassword tab d (Inr (su_id s, tok)))) = Some (u\<lparr>wu_token := Some tok\<rparr>) \<and>
    wt_elevated (fst (submitPassword tab d (Inr (su_id s, tok)))) = None \<and>
    (\<forall>w. canActivate (cx_verify cx) (aa_revocation app') (Some (bearer old)) \<noteq> Inr w)"
proof -
  obtain i where i: "i \<noteq> []" "setPassword (cx_env cx) (aa_accounts app) (aa_revocation app) i (nullish new []) jti = (aa_accounts app', aa_revocation app', Inr s)"
    using setPassword_route [OF assms(1)] by blast
  have "su_id s = i" using i(2) find_user_Some
    by (fastforce simp: setPassword_def session_for_def Let_def split: if_splits option.splits)
  then have e: "isRevoked (aa_revocation app') p \<noteq> None" "isRevoked (aa_revocation app') (su_token s) = None" "subjectOf (su_token s) = Some (su_id s)"
    using password_change_effect [OF i(2) assms(5-7) _ i(1)] assms(8,13,14) by auto
  have tab: "fst (submitPassword tab d (Inr (su_id s, tok))) = (adoptToken tab tok (su_id s))\<lparr>wt_elevated := None\<rparr>"
    using assms(9) by (simp add: submitPassword_def bare_token_def)
  have stored: "wt_store (fst (submitPassword tab d (Inr (su_id s, tok)))) = Some (JsonUser (u\<lparr>wu_token := Some tok\<rparr>))"
    using assms(2-4) by (simp add: tab adoptToken_def with_token_def)
  have header: "sent_header (wt_store (fst (submitPassword tab d (Inr (su_id s, tok))))) api_refresh = Some (bearer tok)"
    unfolding stored using assms(9) by (simp add: api_refresh_def sent_header_post readStoredToken_def bare_token_def)
  have "canActivate (cx_verify cx) (aa_revocation app') (Some (bearer tok)) =
      Inr \<lparr>au_userId = su_id s, au_username = (case tp_name (su_token s) of JStr n \<Rightarrow> n | _ \<Rightarrow> [])\<rparr>"
    unfolding bearer_def canActivate_bearer [OF assms(9)] using e(2,3) assms(10) by simp
  moreover have "canActivate (cx_verify cx) (aa_revocation app') (Some (bearer old)) \<noteq> Inr w" for w
    unfolding bearer_def canActivate_bearer [OF assms(11)] using e(1) assms(12) by simp
  moreover have "wt_user (fst (submitPassword tab d (Inr (su_id s, tok)))) = Some (u\<lparr>wu_token := Some tok\<rparr>)"
    "wt_elevated (fst (submitPassword tab d (Inr (su_id s, tok)))) = None"
    using assms(2,4) by (simp_all add: tab adoptToken_def with_token_def)
  ultimately show ?thesis unfolding header using assms(4) by simp
qed

definition demo_survivor :: session_user where
  "demo_survivor = projr (snd (snd (setPassword demo_env demo_accounts loaded ''id1'' ''otherpassword'' ''j9'')))"

definition dialog_cx :: auth_ctx where
  "dialog_cx = demo_cx\<lparr>cx_verify := (\<lambda>t. if t = ''tok'' then Verified demo_token else if t = ''new'' then Verified (su_token demo_survivor) else TokenInvalid)\<rparr>"

definition dialog_tab :: web_tab where
  "dialog_tab = \<lparr>wt_user = Some demo_web_user, wt_ready = True, wt_store = Some (JsonUser demo_web_user), wt_recent = None, wt_elevated = None\<rparr>"

lemma demo_change: "\<exists>app'. route_setPassword dialog_cx demo_app (Some (bearer ''tok'')) (Some ''longpassword'') (Some ''otherpassword'') ''j9'' = (app', Inr demo_survivor)"
proof -
  have b: "bare_token ''tok''" by (simp add: bare_token_def is_ws_def)
  have g: "canActivate (cx_verify dialog_cx) loaded (Some (bearer ''tok'')) = Inr \<lparr>au_userId = ''id1'', au_username = ''ada''\<rparr>"
    unfolding bearer_def canActivate_bearer [OF b]
    by (simp add: dialog_cx_def subjectOf_def isRevoked_def versionOf_def is_integer_def loaded_def new_revocation_def demo_session_defs)
  obtain a rv s where c: "setPassword demo_env demo_accounts loaded ''id1'' ''otherpassword'' ''j9'' = (a, rv, Inr s)"
    by (simp add: setPassword_def find_user_def demo_session_defs Let_def)
  have "reauthMethodFor demo_accounts ''id1'' = Some ReauthPassword" "verifyPassword demo_env demo_accounts ''id1'' ''longpassword''"
    by (simp_all add: reauthMethodFor_def verifyPassword_def find_user_def demo_session_defs)
  moreover have "cx_env dialog_cx = demo_env" "aa_accounts demo_app = demo_accounts" "aa_revocation demo_app = loaded"
    by (simp_all add: dialog_cx_def demo_cx_def demo_app_def)
  ultimately show ?thesis using g c by (simp add: route_setPassword_def guarded_def change_password_def demo_survivor_def)
qed

theorem password_change_keeps_tab_witness:
  "\<exists>app' w. route_setPassword dialog_cx demo_app (sent_header (wt_store dialog_tab) (password_request (open_account dialog_tab))) (Some ''longpassword'')
       (Some ''otherpassword'') ''j9'' = (app', Inr demo_survivor) \<and>
     canActivate (cx_verify dialog_cx) (aa_revocation app') (Some (bearer ''new'')) = Inr w \<and> au_userId w = ''id1''"
proof -
  have h: "sent_header (wt_store dialog_tab) (password_request (open_account dialog_tab)) = Some (bearer ''tok'')"
    by (simp add: dialog_tab_def demo_web_user_def password_request_def open_account_def api_setPassword_def sent_header_post readStoredToken_def)
  obtain app' where r: "route_setPassword dialog_cx demo_app (sent_header (wt_store dialog_tab) (password_request (open_account dialog_tab)))
      (Some ''longpassword'') (Some ''otherpassword'') ''j9'' = (app', Inr demo_survivor)" using demo_change unfolding h by blast
  have i: "su_id demo_survivor = ''id1''"
    by (simp add: demo_survivor_def setPassword_def find_user_def session_for_def demo_session_defs Let_def)
  have facts: "hash_ok (cx_env dialog_cx)" "rv_loaded (aa_revocation demo_app)" "''j9'' \<notin> revokedTokens (aa_revocation demo_app)"
      "nullish (userVersions (aa_revocation demo_app) ''id1'') 0 \<le> tokenVersion (aa_accounts demo_app) ''id1''" "subjectOf demo_token = Some ''id1''"
      "\<forall>c. versionOf demo_token = Some c \<longrightarrow> c \<le> tokenVersion (aa_accounts demo_app) ''id1''" "bare_token ''new''" "bare_token ''tok''"
    by (simp_all add: hash_ok_def loaded_def new_revocation_def demo_session_defs subjectOf_def versionOf_def is_integer_def dialog_cx_def demo_cx_def
      demo_app_def bare_token_def is_ws_def)
  have "\<exists>w. canActivate (cx_verify dialog_cx) (aa_revocation app')
      (sent_header (wt_store (fst (submitPassword dialog_tab (open_account dialog_tab) (Inr (su_id demo_survivor, ''new''))))) api_refresh) = Inr w \<and> au_userId w = ''id1''"
    using password_change_keeps_tab [OF r, of demo_web_user "''new''" "''tok''" demo_token] facts i
    by (simp add: dialog_tab_def demo_web_user_def dialog_cx_def)
  moreover have "sent_header (wt_store (fst (submitPassword dialog_tab (open_account dialog_tab) (Inr (su_id demo_survivor, ''new''))))) api_refresh = Some (bearer ''new'')"
    by (simp add: i submitPassword_def adoptToken_def with_token_def dialog_tab_def demo_web_user_def api_refresh_def sent_header_post readStoredToken_def)
  ultimately show ?thesis using r by auto
qed

text \<open>
  A wrong current password ends the session of the tab: the request carried the stored token, so the interceptor
  takes the refusal for the end of the session. The same goes for a wrong password when Google is connected.
\<close>

lemma wrong_password_signs_out:
  assumes "wt_store tab = Some (JsonUser u)" "wu_token u = Some t" "t \<noteq> []" "ad_elevated d = None" "ae_status e = Some 401"
  shows "wt_user (fst (submitPassword tab d (Inl e))) = None \<and> wt_store (fst (submitPassword tab d (Inl e))) = None"
    and "wt_user (fst (linkGoogle tab d (Inl e))) = None"
  using assms by (simp_all add: submitPassword_def Let_def password_request_def refused_def api_calls api_linkStart_def on_request_def readStoredToken_def
    authHeader_def string_of_def set_authorization_def onRejected_def clears_session_def clearStoredUser_def onExpired_def token_free_def
    NO_TOKEN_NEEDED_def startsWith_def linkGoogle_def)

subsection \<open>A link finds its room\<close>

lemma dropWhile_pad: "list_all P a \<Longrightarrow> s \<noteq> [] \<Longrightarrow> \<not> P (hd s) \<Longrightarrow> dropWhile P (a @ s @ b) = s @ b"
  by (induction a) (auto simp: neq_Nil_conv)

lemma trim_pad:
  assumes "list_all is_ws a" "list_all is_ws b" "s \<noteq> []" "\<not> is_ws (hd s)" "\<not> is_ws (last s)"
  shows "trim (a @ s @ b) = s"
proof -
  have "dropWhile is_ws (rev (s @ b)) = rev s"
    using dropWhile_pad [of is_ws "rev b" "rev s" "[]"] assms by (simp add: hd_rev list_all_iff)
  then show ?thesis using dropWhile_pad [OF assms(1,3,4)] by (simp add: trim_def)
qed

lemma code_match_skip: "CHR ''/'' \<notin> set xs \<Longrightarrow> code_match (xs @ ys) = code_match ys"
  by (induction xs) (auto simp: code_after_def startsWith_def)

lemma code_match_here:
  "code_after ''/room/'' s = Some x \<Longrightarrow> code_match s = Some x"
  "code_after ''/room/'' s = None \<Longrightarrow> code_after ''/join-room/'' s = Some x \<Longrightarrow> code_match s = Some x"
  by (cases s; simp add: code_after_def startsWith_def)+

lemma code_taken:
  assumes "code \<noteq> []" "list_all is_idchar code"
  shows "takeWhile (\<lambda>c. \<not> ends_code c) code = code"
proof -
  have "\<not> ends_code c" if "c \<in> set code" for c
    using assms(2) that by (auto simp: list_all_iff ends_code_def is_idchar_def is_alnum_def is_digit_def is_upper_def is_lower_def is_ws_def)
  then show ?thesis by simp
qed

lemma host_is_not_room:
  assumes "CHR ''/'' \<notin> set host" "CHR ''/'' \<notin> set name" "host \<noteq> name"
  shows "code_after (CHR ''/'' # name @ ''/'') (CHR ''/'' # host @ CHR ''/'' # rest) = None"
proof -
  have "take (length name + 1) (host @ CHR ''/'' # rest) \<noteq> name @ ''/''"
  proof
    assume eq: "take (length name + 1) (host @ CHR ''/'' # rest) = name @ ''/''"
    then obtain t where "host @ CHR ''/'' # rest = name @ CHR ''/'' # t" by (metis append.assoc append_Cons append_Nil append_take_drop_id)
    then have "host = name" using assms(1,2) by (auto simp: append_eq_append_conv2 Cons_eq_append_conv append_eq_Cons_conv)
    then show False using assms(3) by simp
  qed
  then show ?thesis by (simp add: code_after_def startsWith_def)
qed

lemma match_link:
  assumes "CHR ''/'' \<notin> set scheme" "CHR ''/'' \<notin> set host" "host \<noteq> ''room''" "host \<noteq> ''join-room''"
    and "path = ''/room/'' \<or> path = ''/join-room/''" "code \<noteq> []" "list_all is_idchar code"
  shows "code_match (scheme @ ''://'' @ host @ path @ code) = Some code"
proof -
  obtain name where name: "path = CHR ''/'' # name @ ''/''" "name = ''room'' \<or> name = ''join-room''" using assms(5) by auto
  let ?rest = "CHR ''/'' # host @ path @ code"
  have "code_match (scheme @ ''://'' @ host @ path @ code) = code_match ((scheme @ '':'') @ CHR ''/'' # ?rest)" by simp
  also have "\<dots> = code_match (CHR ''/'' # ?rest)" by (rule code_match_skip) (use assms(1) in simp)
  also have "\<dots> = code_match ?rest" by (simp add: code_after_def startsWith_def)
  also have "\<dots> = code_match (host @ path @ code)"
    using host_is_not_room [of host "''room''" "name @ ''/'' @ code"] host_is_not_room [of host "''join-room''" "name @ ''/'' @ code"] assms(2-4) by (simp add: name(1))
  also have "\<dots> = code_match (path @ code)" by (rule code_match_skip [OF assms(2)])
  also have "\<dots> = Some code"
  proof -
    have "code_after path (path @ code) = Some code" using assms(6) by (simp add: code_after_def startsWith_def code_taken [OF assms(6,7)])
    moreover have "code_after ''/room/'' (''/join-room/'' @ code) = None" by (simp add: code_after_def startsWith_def)
    ultimately show ?thesis using assms(5) code_match_here by metis
  qed
  finally show ?thesis .
qed

lemma match_nothing: "list_all is_idchar code \<Longrightarrow> code_match code = None"
proof -
  assume "list_all is_idchar code"
  moreover have "\<not> is_idchar (CHR ''/'')" by (simp add: is_idchar_def is_alnum_def is_digit_def is_upper_def is_lower_def)
  ultimately have "CHR ''/'' \<notin> set code" by (auto simp: list_all_iff)
  then show ?thesis using code_match_skip [of code "[]"] by simp
qed

lemma idchar_not_ws: "is_idchar c \<Longrightarrow> \<not> is_ws c"
  by (auto simp: is_idchar_def is_alnum_def is_digit_def is_upper_def is_lower_def is_ws_def)

text \<open>
  Whatever somebody pastes to join, the room is found: the bare code, the link that sharing gives out, or the
  address of the room itself, each with any blanks around it, all lead to the page of that room.
\<close>

theorem pasted_link_finds_room:
  assumes "scheme \<noteq> []" "\<not> is_ws (hd scheme)" "CHR ''/'' \<notin> set scheme" "CHR ''/'' \<notin> set host" "host \<noteq> ''room''" "host \<noteq> ''join-room''"
    and "code \<noteq> []" "list_all is_idchar code" "list_all is_ws before" "list_all is_ws after"
    and "pasted \<in> {code, scheme @ ''://'' @ host @ ''/join-room/'' @ code, scheme @ ''://'' @ host @ ''/room/'' @ code}"
  shows "join_by_code (before @ pasted @ after) = Some (''/join-room/'' @ code)"
proof -
  have hl: "is_idchar (hd code)" "is_idchar (last code)" using assms(7,8) by (simp_all add: list_all_iff)
  have "hd pasted = hd code \<or> hd pasted = hd scheme" "last pasted = last code" "pasted \<noteq> []" using assms(1,7,11) by auto
  then have "pasted \<noteq> []" "\<not> is_ws (hd pasted)" "\<not> is_ws (last pasted)" using assms(2) hl idchar_not_ws by metis+
  then have t: "trim (before @ pasted @ after) = pasted" by (rule trim_pad [OF assms(9,10)])
  have "code_match pasted = None \<and> pasted = code \<or> code_match pasted = Some code"
    using assms(11) match_nothing [OF assms(8)] match_link [OF assms(3-6) _ assms(7,8)] by blast
  then have "nullish (code_match pasted) pasted = code" by auto
  then show ?thesis using \<open>pasted \<noteq> []\<close> assms(7,8) by (simp add: join_by_code_def t list_all_iff)
qed

theorem pasted_link_finds_room_witness:
  "join_by_code ('' '' @ ''https://mustard.watch/join-room/x7_a'' @ [CHR 0x0A]) = Some ''/join-room/x7_a''"
  using pasted_link_finds_room [of "''https''" "''mustard.watch''" "''x7_a''" "'' ''" "[CHR 0x0A]" "''https://mustard.watch/join-room/x7_a''"]
  by (simp add: is_ws_def is_idchar_def is_alnum_def is_digit_def is_upper_def is_lower_def)

end
