(* ===== verification/Configuration.thy ===== *)
theory Configuration
  imports OAuth
begin

text \<open>
  What the server reads from outside before it serves: its environment (config/configuration.ts) and the cookie of
  a sign-in flow (auth/google/cookies.ts). The environment is a map of its variables. The library that signs tokens
  is a parameter; what is relied on of it, how it reads a lifetime, is the locale \<open>jwt_reading\<close>. Percent-decoding
  is an argument of the cookie reader.
\<close>

subsection \<open>The lifetime of a token\<close>

datatype lifetime = LifeText string | LifeSeconds jsnum

datatype config_error =
    BadLifetime string string
  | MissingSetting string string

definition UNIT_SECONDS :: "(string \<times> real) list" where
  "UNIT_SECONDS = [(''ms'', 1 / 1000), (''s'', 1), (''m'', 60), (''h'', 3600), (''d'', 86400), (''w'', 604800), (''y'', 31557600)]"

text \<open>A decimal at least half a step above the largest double is read as infinity.\<close>

definition as_double :: "jsnum \<Rightarrow> jsnum" where
  "as_double x = (case x of Fin a \<Rightarrow> if 2 ^ 1024 - 2 ^ 970 \<le> a then PInf else Fin a | _ \<Rightarrow> x)"

text \<open>The amount and the unit of a duration: digits, at most one fraction, a unit to the end of the text.\<close>

definition duration_match :: "string \<Rightarrow> (string \<times> string) option" where
  "duration_match v =
     (let whole = takeWhile is_digit v; rest = dropWhile is_digit v;
          frac = (case rest of [] \<Rightarrow> [] | c # cs \<Rightarrow> if c = CHR ''.'' \<and> takeWhile is_digit cs \<noteq> [] then c # takeWhile is_digit cs else []);
          unit = drop (length frac) rest
      in if whole \<noteq> [] \<and> unit \<in> set (map fst UNIT_SECONDS) then Some (whole @ frac, unit) else None)"

definition unit_seconds :: "string \<Rightarrow> real" where
  "unit_seconds unit = (case map_of UNIT_SECONDS unit of None \<Rightarrow> 0 | Some x \<Rightarrow> x)"

definition check_seconds :: "string \<Rightarrow> jsnum \<Rightarrow> lifetime \<Rightarrow> config_error + lifetime" where
  "check_seconds value seconds l =
     (if \<not> isFinite seconds then Inl (BadLifetime ''is too large to be a duration'' value)
      else if math_floor seconds < 1 then Inl (BadLifetime ''is under one second, which issues tokens that are already expired'' value)
      else Inr l)"

definition tokenLifetime :: "string option \<Rightarrow> config_error + lifetime" where
  "tokenLifetime raw =
     (let value = trim (nullish raw []) in
      if value = [] then Inr (LifeText ''12h'')
      else if list_all is_digit value
      then (let seconds = as_double (js_Number value) in check_seconds value seconds (LifeSeconds seconds))
      else (case duration_match value of
          None \<Rightarrow> Inl (BadLifetime ''must be a lowercase duration like \"12h\" or \"30m\", or a plain number of seconds'' value)
        | Some (amount, unit) \<Rightarrow>
            check_seconds value (as_double (as_double (js_Number amount) * Fin (unit_seconds unit))) (LifeText value)))"

subsection \<open>The environment\<close>

type_synonym environment = "string \<Rightarrow> string option"

definition LOCAL_ENVS :: "string list" where
  "LOCAL_ENVS = [''development'', ''test'']"

definition isLocalEnv :: "environment \<Rightarrow> bool" where
  "isLocalEnv env \<longleftrightarrow> nullish (env ''NODE_ENV'') [] \<in> set LOCAL_ENVS"

definition env_or :: "environment \<Rightarrow> string \<Rightarrow> string \<Rightarrow> string" where
  "env_or env name fallback = (if truthy (env name) then nullish (env name) [] else fallback)"

definition requireOutsideLocal :: "environment \<Rightarrow> string \<Rightarrow> string \<Rightarrow> config_error + string" where
  "requireOutsideLocal env name devFallback =
     (if truthy (env name) then Inr (nullish (env name) [])
      else if \<not> isLocalEnv env then Inl (MissingSetting name (nullish (env ''NODE_ENV'') []))
      else Inr devFallback)"

definition parseInt :: "string \<Rightarrow> jsnum" where
  "parseInt s =
     (let t = dropWhile is_ws s;
          signed = (t \<noteq> [] \<and> (hd t = CHR ''-'' \<or> hd t = CHR ''+''));
          ds = takeWhile is_digit (if signed then tl t else t)
      in if ds = [] then NaN
         else if signed \<and> hd t = CHR ''-'' then - as_double (Fin (of_nat (digits_val 10 ds))) else as_double (Fin (of_nat (digits_val 10 ds))))"

record server_config =
  sc_port :: jsnum
  sc_isLocalEnv :: bool
  sc_databaseUrl :: "string option"
  sc_connectionLimit :: jsnum
  sc_idleTimeoutMillis :: jsnum
  sc_jwtSecret :: string
  sc_expiresIn :: lifetime
  sc_corsOrigin :: string
  sc_publicApiUrl :: string
  sc_clientId :: string
  sc_clientSecret :: string
  sc_redisUrl :: "string option"
  sc_redisHost :: string
  sc_redisPort :: jsnum

definition configuration :: "environment \<Rightarrow> config_error + server_config" where
  "configuration env = (case requireOutsideLocal env ''JWT_SECRET'' ''dev-only-insecure-secret'' of
     Inl e \<Rightarrow> Inl e
   | Inr secret \<Rightarrow> (case tokenLifetime (env ''JWT_EXPIRES_IN'') of
       Inl e \<Rightarrow> Inl e
     | Inr life \<Rightarrow> Inr \<lparr>
         sc_port = parseInt (env_or env ''PORT'' ''3000''),
         sc_isLocalEnv = isLocalEnv env,
         sc_databaseUrl = env ''DATABASE_URL'',
         sc_connectionLimit = parseInt (env_or env ''DB_POOL_SIZE'' ''20''),
         sc_idleTimeoutMillis = parseInt (env_or env ''DB_IDLE_TIMEOUT'' ''30000''),
         sc_jwtSecret = secret,
         sc_expiresIn = life,
         sc_corsOrigin = env_or env ''FRONTEND_URL'' ''http://localhost:3001'',
         sc_publicApiUrl = strip_slashes (env_or env ''PUBLIC_API_URL'' ''http://localhost:3000''),
         sc_clientId = env_or env ''GOOGLE_CLIENT_ID'' [],
         sc_clientSecret = env_or env ''GOOGLE_CLIENT_SECRET'' [],
         sc_redisUrl = env ''REDIS_URL'',
         sc_redisHost = env_or env ''REDIS_HOST'' ''localhost'',
         sc_redisPort = parseInt (env_or env ''REDIS_PORT'' ''6379'')\<rparr>))"

text \<open>What the sign-in service reads of the configuration.\<close>

definition google_config_of :: "server_config \<Rightarrow> google_config" where
  "google_config_of c = \<lparr>gc_clientId = sc_clientId c, gc_clientSecret = sc_clientSecret c, gc_secret = sc_jwtSecret c,
     gc_isLocalEnv = sc_isLocalEnv c, gc_corsOrigin = sc_corsOrigin c, gc_publicApiUrl = sc_publicApiUrl c\<rparr>"

subsection \<open>The cookie header\<close>

fun cookie_in :: "(string \<Rightarrow> string option) \<Rightarrow> string list \<Rightarrow> string \<Rightarrow> string option" where
  "cookie_in decode [] name = None"
| "cookie_in decode (part # parts) name =
     (if CHR ''='' \<notin> set part \<or> trim (takeWhile (\<lambda>c. c \<noteq> CHR ''='') part) \<noteq> name then cookie_in decode parts name
      else decode (trim (tl (dropWhile (\<lambda>c. c \<noteq> CHR ''='') part))))"

definition readCookie :: "(string \<Rightarrow> string option) \<Rightarrow> string option \<Rightarrow> string \<Rightarrow> string option" where
  "readCookie decode header name = (if \<not> truthy header then None else cookie_in decode (split_on (CHR '';'') (nullish header [])) name)"

text \<open>What a browser sends: the pairs it holds, separated by a semicolon and a space.\<close>

fun cookie_header :: "(string \<times> string) list \<Rightarrow> string" where
  "cookie_header [] = []"
| "cookie_header [(n, v)] = n @ ''='' @ v"
| "cookie_header ((n, v) # ps) = n @ ''='' @ v @ ''; '' @ cookie_header ps"

subsection \<open>A server that boots\<close>

text \<open>
  How the signing library reads a lifetime: a number is seconds, a text of at most a hundred characters with a unit
  is that duration, and the expiry is a whole second.
\<close>

locale jwt_reading =
  fixes expiry :: "int \<Rightarrow> lifetime \<Rightarrow> real"
  assumes reads_number: "expiry iat (LifeSeconds (Fin s)) = of_int iat + s"
    and reads_text: "duration_match v = Some (amount, unit) \<Longrightarrow> js_Number amount = Fin a \<Longrightarrow> length v \<le> 100 \<Longrightarrow>
      expiry iat (LifeText v) = of_int \<lfloor>of_int iat + a * unit_seconds unit\<rfloor>"

definition standard_expiry :: "int \<Rightarrow> lifetime \<Rightarrow> real" where
  "standard_expiry iat l = (case l of
     LifeSeconds x \<Rightarrow> (case x of Fin s \<Rightarrow> of_int iat + s | _ \<Rightarrow> of_int iat)
   | LifeText v \<Rightarrow> (case duration_match v of
       None \<Rightarrow> of_int iat
     | Some (amount, unit) \<Rightarrow> (case js_Number amount of Fin a \<Rightarrow> of_int \<lfloor>of_int iat + a * unit_seconds unit\<rfloor> | _ \<Rightarrow> of_int iat)))"

interpretation jwt: jwt_reading standard_expiry
  by unfold_locales (simp_all add: standard_expiry_def)

text \<open>
  What a lifetime means, whatever the code does with it: nothing is twelve hours, digits are seconds, and digits with at most
  one decimal fraction before one of seven units are that many of them. The amount and the seconds are numbers a double holds.
\<close>

definition fits_double :: "real \<Rightarrow> bool" where
  "fits_double a \<longleftrightarrow> a < 2 ^ 1024 - 2 ^ 970"

definition decimal_value :: "string \<Rightarrow> string \<Rightarrow> real" where
  "decimal_value whole ds = of_nat (digits_val 10 (whole @ ds)) / 10 ^ length ds"

definition fraction :: "string \<Rightarrow> string" where
  "fraction ds = (if ds = [] then [] else CHR ''.'' # ds)"

definition means_seconds :: "string \<Rightarrow> real \<Rightarrow> bool" where
  "means_seconds v s \<longleftrightarrow>
     v = [] \<and> s = 12 * 3600 \<or>
     v \<noteq> [] \<and> list_all is_digit v \<and> s = of_nat (digits_val 10 v) \<and> fits_double s \<or>
     (\<exists>whole ds unit k. v = whole @ fraction ds @ unit \<and> whole \<noteq> [] \<and> list_all is_digit whole \<and> list_all is_digit ds \<and>
        (unit, k) \<in> {(''ms'', 1 / 1000), (''s'', 1), (''m'', 60), (''h'', 60 * 60), (''d'', 24 * 3600), (''w'', 7 * 86400), (''y'', 36525 * 864)} \<and>
        s = decimal_value whole ds * k \<and> fits_double (decimal_value whole ds) \<and> fits_double s)"

lemma as_double_Fin: "as_double x = Fin a \<longleftrightarrow> x = Fin a \<and> fits_double a"
  by (cases x) (auto simp: as_double_def fits_double_def)

lemma map_of_known:
  "map_of xs u = Some k \<longleftrightarrow> u \<in> set (map fst xs) \<and> k = (case map_of xs u of None \<Rightarrow> d | Some x \<Rightarrow> x)"
proof (cases "map_of xs u")
  case None
  then have "u \<notin> set (map fst xs)" by (simp add: map_of_eq_None_iff)
  then show ?thesis using None by simp
next
  case (Some y)
  then have "(u, y) \<in> set xs" by (rule map_of_SomeD)
  then show ?thesis using Some by force
qed

lemma unit_secondsD:
  "(unit, k) \<in> {(''ms'', 1 / 1000), (''s'', 1), (''m'', 60), (''h'', 60 * 60), (''d'', 24 * 3600), (''w'', 7 * 86400), (''y'', 36525 * 864)} \<longleftrightarrow>
   unit \<in> set (map fst UNIT_SECONDS) \<and> k = unit_seconds unit"
proof -
  have "{(''ms'', 1 / 1000), (''s'', 1), (''m'', 60), (''h'', 60 * 60), (''d'', 24 * 3600), (''w'', 7 * 86400), (''y'', 36525 * 864)} = set UNIT_SECONDS"
    by (simp add: UNIT_SECONDS_def)
  moreover have "distinct (map fst UNIT_SECONDS)" by (simp add: UNIT_SECONDS_def)
  then have "(unit, k) \<in> set UNIT_SECONDS \<longleftrightarrow> map_of UNIT_SECONDS unit = Some k" by (simp only: map_of_eq_Some_iff)
  moreover have "map_of UNIT_SECONDS unit = Some k \<longleftrightarrow> unit \<in> set (map fst UNIT_SECONDS) \<and> k = unit_seconds unit"
    unfolding unit_seconds_def by (rule map_of_known)
  ultimately show ?thesis by (simp only:)
qed

lemma unit_head: "unit \<in> set (map fst UNIT_SECONDS) \<Longrightarrow> \<exists>c cs. unit = c # cs \<and> \<not> is_digit c \<and> c \<noteq> CHR ''.''"
proof -
  assume u: "unit \<in> set (map fst UNIT_SECONDS)"
  have "list_all (\<lambda>u. u \<noteq> [] \<and> \<not> is_digit (hd u) \<and> hd u \<noteq> CHR ''.'') (map fst UNIT_SECONDS)" by (simp add: UNIT_SECONDS_def is_digit_def)
  then have "unit \<noteq> [] \<and> \<not> is_digit (hd unit) \<and> hd unit \<noteq> CHR ''.''" using u unfolding list_all_iff by blast
  then show ?thesis by (cases unit) auto
qed

lemma dot_no_digit: "\<not> is_digit (CHR ''.'')"
  by (simp add: is_digit_def)

lemma digits_then: "list_all is_digit ds \<Longrightarrow> \<not> is_digit c \<Longrightarrow> takeWhile is_digit (ds @ c # r) = ds"
  "list_all is_digit ds \<Longrightarrow> \<not> is_digit c \<Longrightarrow> dropWhile is_digit (ds @ c # r) = c # r"
  by (simp_all add: list_all_iff)

lemma duration_match_iff:
  "duration_match v = Some (amount, unit) \<longleftrightarrow>
   (\<exists>whole ds. v = whole @ fraction ds @ unit \<and> amount = whole @ fraction ds \<and> whole \<noteq> [] \<and> list_all is_digit whole \<and>
      list_all is_digit ds \<and> unit \<in> set (map fst UNIT_SECONDS))"
proof
  assume m: "duration_match v = Some (amount, unit)"
  define rest where "rest = dropWhile is_digit v"
  define ds where "ds = (case rest of [] \<Rightarrow> [] | c # cs \<Rightarrow> if c = CHR ''.'' then takeWhile is_digit cs else [])"
  have frac: "(case rest of [] \<Rightarrow> [] | c # cs \<Rightarrow> if c = CHR ''.'' \<and> takeWhile is_digit cs \<noteq> [] then c # takeWhile is_digit cs else []) = fraction ds"
    unfolding ds_def by (cases rest) (simp_all add: fraction_def)
  have pre: "fraction ds @ drop (length (fraction ds)) rest = rest"
  proof (cases rest)
    case (Cons c cs)
    have "\<exists>r. rest = fraction ds @ r"
    proof (cases "c = CHR ''.'' \<and> takeWhile is_digit cs \<noteq> []")
      case True
      then have "rest = fraction ds @ dropWhile is_digit cs" by (simp add: ds_def Cons fraction_def)
      then show ?thesis by blast
    next
      case False
      then have "fraction ds = []" by (auto simp: ds_def Cons fraction_def simp del: takeWhile_eq_Nil_iff)
      then show ?thesis by simp
    qed
    then show ?thesis by auto
  qed (simp add: ds_def fraction_def)
  have v: "v = takeWhile is_digit v @ rest" by (simp add: rest_def)
  have digits: "list_all is_digit (takeWhile is_digit w)" for w by (auto simp: list_all_iff dest: set_takeWhileD)
  have "list_all is_digit ds" by (auto simp: ds_def digits split: list.split)
  moreover have "v = takeWhile is_digit v @ fraction ds @ drop (length (fraction ds)) rest" using v by (simp only: pre)
  ultimately show "\<exists>whole ds. v = whole @ fraction ds @ unit \<and> amount = whole @ fraction ds \<and> whole \<noteq> [] \<and> list_all is_digit whole \<and>
      list_all is_digit ds \<and> unit \<in> set (map fst UNIT_SECONDS)"
    using m digits [of v] unfolding duration_match_def Let_def rest_def [symmetric] frac by (auto split: if_splits simp del: list.set_map)
next
  assume "\<exists>whole ds. v = whole @ fraction ds @ unit \<and> amount = whole @ fraction ds \<and> whole \<noteq> [] \<and> list_all is_digit whole \<and>
      list_all is_digit ds \<and> unit \<in> set (map fst UNIT_SECONDS)"
  then obtain whole ds where w: "v = whole @ fraction ds @ unit" "amount = whole @ fraction ds" "whole \<noteq> []" "list_all is_digit whole"
      "list_all is_digit ds" "unit \<in> set (map fst UNIT_SECONDS)" by blast
  obtain c cs where u: "unit = c # cs" "\<not> is_digit c" "c \<noteq> CHR ''.''" using unit_head [OF w(6)] by blast
  have "takeWhile is_digit v = whole" "dropWhile is_digit v = fraction ds @ unit"
    using w(4) u(2) dot_no_digit by (auto simp: w(1) u(1) fraction_def digits_then)
  then show "duration_match v = Some (amount, unit)"
    using w u by (auto simp: duration_match_def Let_def fraction_def digits_then)
qed

lemma js_Number_decimal:
  assumes w: "list_all is_digit whole" "whole \<noteq> []" and d: "list_all is_digit ds"
  shows "js_Number (whole @ fraction ds) = Fin (decimal_value whole ds)"
proof (cases "ds = []")
  case True
  then show ?thesis using js_Number_digits [OF w] by (simp add: fraction_def decimal_value_def)
next
  case False
  let ?t = "whole @ CHR ''.'' # ds"
  have no_ws: "list_all (\<lambda>c. \<not> is_ws c) ?t" using w(1) d digit_not_ws by (auto simp: list_all_iff is_ws_def)
  obtain c cs where c: "whole = c # cs" "is_digit c" using w by (cases whole) auto
  have pre: "take 2 ?t \<noteq> [CHR ''0'', x]" if "\<not> is_digit x" "x \<noteq> CHR ''.''" for x
    using that w(1) by (cases whole; cases "tl whole") (auto simp: numeral_2_eq_2)
  have x: "\<not> is_digit (CHR ''x'')" "\<not> is_digit (CHR ''X'')" "\<not> is_digit (CHR ''o'')" "\<not> is_digit (CHR ''O'')"
      "\<not> is_digit (CHR ''b'')" "\<not> is_digit (CHR ''B'')" "\<not> is_digit (CHR ''I'')" "\<not> is_digit (CHR ''-'')" "\<not> is_digit (CHR ''+'')"
    by (simp_all add: is_digit_def)
  have "?t \<noteq> ''Infinity''" "hd ?t \<noteq> CHR ''-''" "hd ?t \<noteq> CHR ''+''" using c x by auto
  moreover have "unsigned_decimal ?t = Fin (decimal_value whole ds)" if "?t \<noteq> ''Infinity''"
    using that digits_then [OF w(1) dot_no_digit] w(2) False d
    by (simp add: unsigned_decimal_def Let_def scale10_def decimal_value_def)
  ultimately show ?thesis
    using False pre x by (simp add: fraction_def js_Number_def Let_def trim_no_ws [OF no_ws])
qed

lemma check_seconds_ok:
  "check_seconds value seconds l = Inr l' \<longleftrightarrow> l' = l \<and> (\<exists>a. seconds = Fin a \<and> 1 \<le> a)"
  by (cases seconds) (auto simp: check_seconds_def isFinite_def one_jsnum_def not_less le_floor_iff)

lemma default_lifetime: "duration_match ''12h'' = Some (''12'', ''h'')" "js_Number ''12'' = Fin 12" "unit_seconds ''h'' = 3600"
proof -
  have "js_Number ''12'' = Fin (of_nat (digits_val 10 ''12''))"
    by (rule js_Number_digits) (simp_all add: is_digit_def)
  then show "js_Number ''12'' = Fin 12" by (simp add: digits_val_def hex_val_def is_digit_def)
qed (simp_all add: duration_match_def UNIT_SECONDS_def unit_seconds_def is_digit_def)

text \<open>A lifetime that is accepted means at least a second, and the tokens are good for what it means.\<close>

lemma lifetime_accepted:
  assumes j: "jwt_reading expiry" and t: "tokenLifetime raw = Inr l" and short: "length (trim (nullish raw [])) \<le> 100"
  shows "\<exists>s. means_seconds (trim (nullish raw [])) s \<and> 1 \<le> s \<and> (\<forall>iat. expiry iat l = of_int \<lfloor>of_int iat + s\<rfloor>)"
proof -
  let ?v = "trim (nullish raw [])"
  consider "?v = []" | "?v \<noteq> []" "list_all is_digit ?v" | "?v \<noteq> []" "\<not> list_all is_digit ?v" by blast
  then show ?thesis
  proof cases
    case 1
    then have "l = LifeText ''12h''" using t by (simp add: tokenLifetime_def)
    then have "expiry iat l = of_int \<lfloor>of_int iat + 12 * 3600\<rfloor>" for iat
      using jwt_reading.reads_text [OF j default_lifetime(1,2), of iat] by (simp add: default_lifetime(3))
    then show ?thesis using 1 by (intro exI [of _ "12 * 3600"]) (simp add: means_seconds_def)
  next
    case 2
    then obtain a where a: "as_double (js_Number ?v) = Fin a" "l = LifeSeconds (Fin a)" "1 \<le> a"
      using t by (auto simp: tokenLifetime_def Let_def check_seconds_ok)
    then have v: "a = of_nat (digits_val 10 ?v)" "fits_double a" using 2 by (simp_all add: js_Number_digits as_double_Fin)
    have "of_int iat + a = of_int \<lfloor>of_int iat + a\<rfloor>" for iat using v(1) floor_of_int [of "iat + int (digits_val 10 ?v)"] by simp
    then have "expiry iat l = of_int \<lfloor>of_int iat + a\<rfloor>" for iat using a(2) jwt_reading.reads_number [OF j] by simp
    then show ?thesis using 2 v a(3) by (intro exI [of _ a]) (simp add: means_seconds_def)
  next
    case 3
    then obtain amount unit where m: "duration_match ?v = Some (amount, unit)" and l: "l = LifeText ?v"
      and s: "\<exists>b. as_double (as_double (js_Number amount) * Fin (unit_seconds unit)) = Fin b \<and> 1 \<le> b"
      using t by (auto simp: tokenLifetime_def Let_def check_seconds_ok split: option.splits)
    from m obtain whole ds where w: "?v = whole @ fraction ds @ unit" "amount = whole @ fraction ds" "whole \<noteq> []" "list_all is_digit whole"
      "list_all is_digit ds" "unit \<in> set (map fst UNIT_SECONDS)" by (auto simp: duration_match_iff simp del: list.set_map set_map)
    have n: "js_Number amount = Fin (decimal_value whole ds)" using js_Number_decimal [OF w(4,3,5)] w(2) by simp
    let ?s = "decimal_value whole ds * unit_seconds unit"
    have fits: "fits_double (decimal_value whole ds)" "fits_double ?s" "1 \<le> ?s"
      using s unfolding n by (auto simp: as_double_def fits_double_def split: if_splits)
    have "means_seconds ?v ?s" using w fits unfolding means_seconds_def unit_secondsD by blast
    moreover have "expiry iat l = of_int \<lfloor>of_int iat + ?s\<rfloor>" for iat using jwt_reading.reads_text [OF j m n short] l by simp
    ultimately show ?thesis using fits(3) by blast
  qed
qed

lemma lifetime_complete:
  assumes s: "means_seconds (trim (nullish raw [])) s" "1 \<le> s"
  shows "\<exists>l. tokenLifetime raw = Inr l"
proof -
  let ?v = "trim (nullish raw [])"
  from s(1) consider "?v = []" | "?v \<noteq> []" "list_all is_digit ?v" "s = of_nat (digits_val 10 ?v)" "fits_double s"
    | whole ds unit where "?v = whole @ fraction ds @ unit" "whole \<noteq> []" "list_all is_digit whole" "list_all is_digit ds"
        "unit \<in> set (map fst UNIT_SECONDS)" "s = decimal_value whole ds * unit_seconds unit" "fits_double (decimal_value whole ds)" "fits_double s"
    unfolding means_seconds_def unit_secondsD by blast
  then show ?thesis
  proof cases
    case 1
    then show ?thesis by (simp add: tokenLifetime_def)
  next
    case 2
    then have "as_double (js_Number ?v) = Fin s" by (simp add: js_Number_digits as_double_Fin)
    then show ?thesis using 2 s(2) by (auto simp: tokenLifetime_def Let_def check_seconds_ok)
  next
    case 3
    obtain c cs where u: "unit = c # cs" "\<not> is_digit c" using unit_head [OF 3(5)] by blast
    then have nd: "?v \<noteq> []" "\<not> list_all is_digit ?v" by (simp_all add: 3(1))
    have "duration_match ?v = Some (whole @ fraction ds, unit)" using 3 by (auto simp: duration_match_iff simp del: list.set_map set_map)
    moreover have "as_double (as_double (js_Number (whole @ fraction ds)) * Fin (unit_seconds unit)) = Fin s"
      using 3 by (simp add: js_Number_decimal as_double_Fin as_double_def fits_double_def)
    ultimately show ?thesis using nd s(2) by (auto simp: tokenLifetime_def Let_def check_seconds_ok)
  qed
qed

lemma means_digits:
  assumes "list_all is_digit v \<and> v \<noteq> []" "means_seconds v s"
  shows "s = of_nat (digits_val 10 v)"
proof -
  have "\<not> list_all is_digit v" if "v = whole @ fraction ds @ unit" "unit \<in> set (map fst UNIT_SECONDS)" for whole ds unit
    using unit_head [OF that(2)] that(1) by auto
  then show ?thesis using assms unfolding means_seconds_def unit_secondsD by blast
qed

text \<open>The server boots unless its secret is missing outside a local environment or its lifetime is refused.\<close>

lemma configuration_cases:
  assumes "configuration env = Inr c"
  shows "truthy (env ''JWT_SECRET'') \<and> sc_jwtSecret c = nullish (env ''JWT_SECRET'') [] \<or>
      \<not> truthy (env ''JWT_SECRET'') \<and> isLocalEnv env \<and> sc_jwtSecret c = ''dev-only-insecure-secret''"
    and "tokenLifetime (env ''JWT_EXPIRES_IN'') = Inr (sc_expiresIn c)"
    and "sc_isLocalEnv c = isLocalEnv env"
    and "sc_corsOrigin c = env_or env ''FRONTEND_URL'' ''http://localhost:3001''"
  using assms by (auto simp: configuration_def requireOutsideLocal_def split: sum.splits if_splits)

lemma default_frontend:
  assumes "sc_corsOrigin c = ''http://localhost:3001''"
  shows "frontendUrl (google_config_of c) = ''http://localhost:3001''"
  by (simp add: assms frontendUrl_def google_config_of_def strip_slashes_def trim_def is_ws_def)

text \<open>
  C29. A server boots exactly when it is safe to serve. With a lifetime of at most a hundred characters (the length up to which
  the signing library reads one): it refuses to boot exactly when there is no secret outside a local environment, or the
  lifetime does not mean a second or more. When it boots, its secret is the configured one, never empty, and the published
  development secret only where the environment is declared local; every token it signs is good for what the lifetime
  means, twelve hours when none is given, the seconds when it is digits, the duration when it has a unit, to the whole second
  below and never less than one; and Google sign-in, when it is offered outside a local environment, comes back to a
  configured site which is not the machine of the visitor.
\<close>

theorem boot_fails_closed:
  assumes j: "jwt_reading expiry"
    and url: "\<exists>u. parse ''http://localhost:3001'' = Some u \<and> u_hostname u = ''localhost''"
    and short: "length (trim (nullish (env ''JWT_EXPIRES_IN'') [])) \<le> 100"
  shows "case configuration env of
      Inl e \<Rightarrow> \<not> truthy (env ''JWT_SECRET'') \<and> \<not> isLocalEnv env \<or>
        (\<nexists>s. means_seconds (trim (nullish (env ''JWT_EXPIRES_IN'') [])) s \<and> 1 \<le> s)
    | Inr c \<Rightarrow>
        sc_jwtSecret c \<noteq> [] \<and> (isLocalEnv env \<or> env ''JWT_SECRET'' = Some (sc_jwtSecret c)) \<and>
        (\<exists>s. means_seconds (trim (nullish (env ''JWT_EXPIRES_IN'') [])) s \<and> 1 \<le> s \<and>
           (\<forall>iat. expiry iat (sc_expiresIn c) = of_int \<lfloor>of_int iat + s\<rfloor>)) \<and>
        (\<forall>n iat. env ''JWT_EXPIRES_IN'' = Some (show_nat n) \<longrightarrow> expiry iat (sc_expiresIn c) = of_int iat + of_nat n) \<and>
        (google_enabled parse (google_config_of c) \<and> \<not> isLocalEnv env \<longrightarrow>
           truthy (env ''FRONTEND_URL'') \<and> \<not> isLoopback parse (frontendUrl (google_config_of c)))"
proof (cases "configuration env")
  case (Inl e)
  then show ?thesis using lifetime_complete [of "env ''JWT_EXPIRES_IN''"]
    by (fastforce simp: configuration_def requireOutsideLocal_def split: sum.splits if_splits)
next
  case (Inr c)
  note c = configuration_cases [OF Inr]
  from lifetime_accepted [OF j c(2) short] obtain s where life: "means_seconds (trim (nullish (env ''JWT_EXPIRES_IN'') [])) s" "1 \<le> s"
    "\<And>iat. expiry iat (sc_expiresIn c) = of_int \<lfloor>of_int iat + s\<rfloor>" by blast
  have secret: "sc_jwtSecret c \<noteq> [] \<and> (isLocalEnv env \<or> env ''JWT_SECRET'' = Some (sc_jwtSecret c))"
    using c(1) by (auto simp: truthy_iff)
  have digits: "expiry iat (sc_expiresIn c) = of_int iat + of_nat n" if "env ''JWT_EXPIRES_IN'' = Some (show_nat n)" for n iat
  proof -
    have "s = of_nat n" using means_digits [OF _ life(1)] that show_nat_digits [of n] by (simp add: trim_digits)
    then show ?thesis using life(3) [of iat] floor_of_int [of "iat + int n"] by simp
  qed
  have google: "truthy (env ''FRONTEND_URL'') \<and> \<not> isLoopback parse (frontendUrl (google_config_of c))"
    if g: "google_enabled parse (google_config_of c)" and l: "\<not> isLocalEnv env"
  proof -
    have nl: "\<not> isLoopback parse (frontendUrl (google_config_of c))"
      using g l c(3) by (auto simp: google_enabled_def google_config_of_def split: if_splits)
    moreover have "isLoopback parse ''http://localhost:3001''"
      using url by (auto simp: isLoopback_def toLowerCase_def to_lower_char_def is_upper_def)
    ultimately have "sc_corsOrigin c \<noteq> ''http://localhost:3001''" using default_frontend [of c] by auto
    with nl c(4) show ?thesis by (auto simp: env_or_def split: if_splits)
  qed
  show ?thesis using Inr secret life digits google by auto
qed

definition boot_env :: environment where
  "boot_env = [''NODE_ENV'' \<mapsto> ''production'', ''JWT_SECRET'' \<mapsto> ''s3cret'', ''JWT_EXPIRES_IN'' \<mapsto> show_nat 3600]"

lemma boot_env_lifetime: "tokenLifetime (boot_env ''JWT_EXPIRES_IN'') = Inr (LifeSeconds (Fin 3600))"
proof -
  have "(2 :: real) ^ 13 \<le> 2 ^ 970" "(2 :: real) ^ 970 + 2 ^ 970 = 2 ^ 971" "(2 :: real) ^ 971 \<le> 2 ^ 1024"
    by (rule power_increasing) simp_all
  then have "\<not> (2 ^ 1024 - 2 ^ 970 \<le> (3600 :: real))" by simp
  then have "as_double (js_Number (show_nat 3600)) = Fin 3600" by (simp add: as_double_def)
  then show ?thesis
    using show_nat_digits [of 3600]
    by (simp add: boot_env_def tokenLifetime_def trim_digits Let_def check_seconds_def isFinite_def one_jsnum_def del: show_nat.simps)
qed

definition boot_parse :: "string \<Rightarrow> url option" where
  "boot_parse s = Some \<lparr>u_protocol = ''http:'', u_hostname = ''localhost'', u_pathname = ''/'', u_searchParam = (\<lambda>_. None)\<rparr>"

theorem boot_fails_closed_witness:
  "\<exists>c. configuration boot_env = Inr c \<and> sc_jwtSecret c = ''s3cret'' \<and> standard_expiry 5 (sc_expiresIn c) = 3605 \<and>
     \<not> google_enabled boot_parse (google_config_of c)"
proof -
  have life: "tokenLifetime (boot_env ''JWT_EXPIRES_IN'') = Inr (LifeSeconds (Fin 3600))" by (rule boot_env_lifetime)
  have env: "boot_env ''JWT_SECRET'' = Some ''s3cret''" "boot_env ''JWT_EXPIRES_IN'' = Some (show_nat 3600)"
      "boot_env ''FRONTEND_URL'' = None" "\<not> isLocalEnv boot_env"
    by (simp_all add: boot_env_def isLocalEnv_def LOCAL_ENVS_def del: show_nat.simps)
  obtain c where c: "configuration boot_env = Inr c"
    using env life by (simp add: configuration_def requireOutsideLocal_def)
  have "show_nat 3600 = ''3600''" by code_simp
  then have "trim (show_nat 3600) = ''3600''" using trim_digits [OF show_nat_digits, of 3600] by simp
  then have short: "length (trim (nullish (boot_env ''JWT_EXPIRES_IN'') [])) \<le> 100" using env(2) by (simp del: show_nat.simps)
  have url: "\<exists>u. boot_parse ''http://localhost:3001'' = Some u \<and> u_hostname u = ''localhost''" by (simp add: boot_parse_def)
  note safe = boot_fails_closed [where env = boot_env and parse = boot_parse, OF jwt.jwt_reading_axioms url short, unfolded c sum.case]
  have "sc_jwtSecret c = ''s3cret''" "standard_expiry 5 (sc_expiresIn c) = 5 + of_nat 3600" "\<not> google_enabled boot_parse (google_config_of c)"
    using safe env by (auto simp del: show_nat.simps)
  then show ?thesis using c by simp
qed

subsection \<open>A cookie is read back\<close>

definition cookie_pair :: "string \<times> string \<Rightarrow> bool" where
  "cookie_pair p = (case p of (n, v) \<Rightarrow> n \<noteq> [] \<and> list_all (\<lambda>c. \<not> is_ws c \<and> c \<noteq> CHR ''='' \<and> c \<noteq> CHR '';'') n \<and>
     list_all (\<lambda>c. \<not> is_ws c \<and> c \<noteq> CHR '';'') v)"

lemma trim_space: "list_all (\<lambda>c. \<not> is_ws c) s \<Longrightarrow> trim (CHR '' '' # s) = s"
  using trim_no_ws [of s] by (simp add: trim_def is_ws_def)

lemma cookie_part:
  assumes "cookie_pair (n, v)" and "pad = [] \<or> pad = '' ''"
  shows "cookie_in decode ((pad @ n @ CHR ''='' # v) # parts) name = (if n = name then decode v else cookie_in decode parts name)"
proof -
  have n: "list_all (\<lambda>c. \<not> is_ws c) n" "list_all (\<lambda>c. c \<noteq> CHR ''='') n" and v: "list_all (\<lambda>c. \<not> is_ws c) v"
    using assms(1) by (auto simp: cookie_pair_def list_all_iff)
  have pad: "list_all (\<lambda>c. c \<noteq> CHR ''='') (pad @ n)" using n(2) assms(2) by auto
  have "takeWhile (\<lambda>c. c \<noteq> CHR ''='') (pad @ n @ CHR ''='' # v) = pad @ n"
      "dropWhile (\<lambda>c. c \<noteq> CHR ''='') (pad @ n @ CHR ''='' # v) = CHR ''='' # v"
    using pad takeWhile_append2 [of "pad @ n" "\<lambda>c. c \<noteq> CHR ''=''"] dropWhile_append2 [of "pad @ n" "\<lambda>c. c \<noteq> CHR ''=''"]
    by (auto simp: list_all_iff)
  moreover have "trim (pad @ n) = n" using assms(2) trim_no_ws [OF n(1)] trim_space [OF n(1)] by auto
  ultimately show ?thesis
    using trim_no_ws [OF v] cookie_in.simps(2) [of decode "pad @ n @ CHR ''='' # v" parts name] by (simp only: set_append set_simps list.sel) auto
qed

lemma split_on_single: "d \<notin> set t \<Longrightarrow> split_on d t = [t]"
  by (induction t) auto

lemma split_cookie:
  assumes "cookie_pair (n, v)" and "pad = [] \<or> pad = '' ''"
  shows "split_on (CHR '';'') (pad @ n @ CHR ''='' # v) = [pad @ n @ CHR ''='' # v]"
    and "split_on (CHR '';'') (pad @ n @ CHR ''='' # v @ CHR '';'' # s) = (pad @ n @ CHR ''='' # v) # split_on (CHR '';'') s"
proof -
  have n: "CHR '';'' \<notin> set n" "CHR '';'' \<notin> set v" using assms(1) by (auto simp: cookie_pair_def list_all_iff)
  have pad: "CHR '';'' \<notin> set pad" using assms(2) by auto
  have one: "split_on (CHR '';'') (pad @ n @ CHR ''='' # v) = [pad @ n @ CHR ''='' # v]"
    by (rule split_on_single) (simp add: n pad)
  show "split_on (CHR '';'') (pad @ n @ CHR ''='' # v) = [pad @ n @ CHR ''='' # v]" by (rule one)
  show "split_on (CHR '';'') (pad @ n @ CHR ''='' # v @ CHR '';'' # s) = (pad @ n @ CHR ''='' # v) # split_on (CHR '';'') s"
    using split_on_append [of "CHR '';''" "pad @ n @ CHR ''='' # v" s] one by simp
qed

text \<open>Reading a header a browser sends finds the first cookie of the name, and that one only.\<close>

lemma cookie_in_header:
  "list_all cookie_pair ps \<Longrightarrow> ps \<noteq> [] \<Longrightarrow> pad = [] \<or> pad = '' '' \<Longrightarrow>
   cookie_in decode (split_on (CHR '';'') (pad @ cookie_header ps)) name = Option.bind (map_of ps name) decode"
proof (induction ps arbitrary: pad rule: cookie_header.induct)
  case (2 n v)
  then show ?case using cookie_part [of n v pad decode "[]" name] split_cookie(1) [of n v pad] by auto
next
  case (3 n v p ps)
  then show ?case
    using cookie_part [of n v pad decode _ name] split_cookie(2) [of n v pad "'' '' @ cookie_header (p # ps)"] "3.IH" [of "'' ''"]
    by auto
qed simp

lemma cookie_read_back:
  assumes "list_all cookie_pair ps" and "ps \<noteq> []"
  shows "readCookie decode (Some (cookie_header ps)) name = Option.bind (map_of ps name) decode"
proof -
  have "cookie_header ps \<noteq> []" using assms(2) by (cases ps rule: cookie_header.cases) auto
  then show ?thesis using cookie_in_header [OF assms, of "[]" decode name] by (simp add: readCookie_def)
qed

end
