(* ===== verification/Spec2Isabelle.thy ===== *)
theory Spec2Isabelle
  imports ActorStore TimelineService ClockEstimator DisciplineController MediaSource Voice SyncEngine RoomsService AuthRoutes ClockDomain BrowserSession PlayerShell VoicePanel RoomPage BotClient BinaryFrames RoomForms Dialogs Configuration
begin

text \<open>
  Mustard Watch Party: people in a room watch the same video at the same moment. A NestJS backend
  (\<^verbatim>\<open>video-sync-backend\<close>) holds one authoritative timeline per room, accepts play, pause, seek and
  set-video commands over sockets and fans the committed timelines out; the browser
  (\<^verbatim>\<open>video-sync-frontend\<close>) estimates the server's clock, projects the timeline to the present and steers
  its player towards it. Code both sides run is in \<^verbatim>\<open>shared\<close>. Accounts, sessions and rooms are REST.

  \<^bold>\<open>How the parts interact.\<close> A command enters at the socket gateway, which authenticates the socket,
  validates the message and hands it to the timeline service. The service decides who may control the
  room and how often, and calls a room state store. There are three stores behind one interface: in
  memory, Redis scripts, and the actor store, in which one instance owns a room under a lease. A
  store stamps the command, increments the sequence number, remembers the command's id and appends
  to the room's log, which the replay checker can verify offline. The gateway emits the committed
  timeline; in the browser the sync engine keeps the newest timeline it was delivered, asks its
  controller once per tick what to do and carries that out on the player. Every request and every
  socket is checked against the revocation snapshot of its instance; a revocation also evicts the
  live sockets of the token.

  \<^bold>\<open>Foundations.\<close>
  \<^item> Prelude: theorem collections, lists, options, association lists (JavaScript's Map).
  \<^item> JsNum: JavaScript numbers with NaN and the infinities; finite values are exact reals.
  \<^item> JsString: strings of code units below 256, their methods, and conversion from and to numbers.

  \<^bold>\<open>Room state.\<close>
  \<^item> Timeline (\<^verbatim>\<open>shared/sync-protocol.ts\<close>, \<^verbatim>\<open>shared/sync-core/timeline.ts\<close>): projection, restamping,
    snapshots, and \<open>isNewer\<close>; the locale \<open>delivery_order\<close> shows that a client's timeline does not
    depend on the order or the repetition of deliveries.
  \<^item> Replay (\<^verbatim>\<open>shared/sync-core/replay.ts\<close>): the contract between consecutive log entries.
  \<^item> RoomStore (\<^verbatim>\<open>sync/room-state.store.ts\<close>): the interface as the record \<open>store_ops\<close> and the locale
    \<open>room_state_store\<close>, interpreted for the in-memory store. Logs replay to the live state; a command
    is applied at most once within the deduplication window.
  \<^item> RedisStore (\<^verbatim>\<open>sync/redis-room-state.store.ts\<close>, \<^verbatim>\<open>sync/lua\<close>): each script is one atomic step. The
    locale \<open>stream_trimming\<close> states what is relied on of XADD's approximate trimming; the store is a
    sublocale of the interface under it, and it refines the in-memory store.
  \<^item> ActorStore (\<^verbatim>\<open>sync/actor-room-state.store.ts\<close>, \<^verbatim>\<open>sync/lua/actor_*.lua\<close>): leases and fences. A
    deposed owner changes nothing, deduplication survives a change of owner, a commit that is reported
    is in the database.
  \<^item> TimelineService (\<^verbatim>\<open>sync/timeline.service.ts\<close>): admission, rate limit, metadata, sweeps, succession of
    control, over any store of the interface.
  \<^item> Gateway (\<^verbatim>\<open>sync/sync.gateway.ts\<close>): every handler with its emissions and its database effects:
    validation, fan-out, capacity.
  \<^item> Voice (\<^verbatim>\<open>sync/voice-roster.service.ts\<close>, \<^verbatim>\<open>sync/voice.gateway.ts\<close>): the call's roster, exact in
    every run, and signalling, whose two relays raise and emit nothing.
  \<^item> MediaSource (\<^verbatim>\<open>shared/media-source.ts\<close>): which URLs are admitted and which player they get.
  \<^item> RoomsService (\<^verbatim>\<open>rooms/rooms.service.ts\<close>, \<^verbatim>\<open>rooms/rooms.controller.ts\<close>): ownership of rooms; the timeline
    service writes only their playback columns.
  \<^item> RoomForms (\<^verbatim>\<open>rooms/dto\<close>, \<^verbatim>\<open>pages/CreateRoomPage.tsx\<close>, \<^verbatim>\<open>components/RoomSettings.tsx\<close>): what may be
    written into a room and the two forms that write it. Whatever bodies arrive, stored rooms stay
    within the rules; the forms and the rules agree.
  \<^item> ClockDomain (\<^verbatim>\<open>redis/clock-domain.service.ts\<close>): an instance's estimate of the store's clock.

  \<^bold>\<open>Playback in the browser.\<close>
  \<^item> ClockEstimator (\<^verbatim>\<open>shared/sync-core/clock-estimator.ts\<close>): the error of the server time handed out is
    bounded over any run of exchanges.
  \<^item> DriftController (\<^verbatim>\<open>shared/sync-core/drift-controller.ts\<close>): the reactive state machine. A drift that
    persists is corrected; on the engine's ticks, seeking against a constant latency ends locked.
  \<^item> DisciplineController (\<^verbatim>\<open>shared/sync-core/discipline-controller.ts\<close>): the rate servo around it, its
    bounds and the convergence of its skew estimate.
  \<^item> SyncEngine (\<^verbatim>\<open>sync/SyncEngine.ts\<close>, \<^verbatim>\<open>sync/telemetry.ts\<close> of the frontend): every callback as an event.
    The locale \<open>engine_contract\<close> carries an invariant and a condition on the calls through every
    history; it is interpreted for the engine switched off, for the play limit and for the bounds.
    Controls the engine sends are decoded by the gateway as what was meant.
  \<^item> PlayerAdapters (\<^verbatim>\<open>sync/Html5Adapter.ts\<close> and its siblings): the three players behind the engine's interface.
  \<^item> PlayerShell (\<^verbatim>\<open>components/EnhancedVideoPlayer.tsx\<close>, \<^verbatim>\<open>components/player\<close>): volume, captions, failure
    of a stream, scrubbing and the address form; it says that only the host may control exactly when
    the server would, while the remote passes on and is reclaimed.
  \<^item> VoicePanel (\<^verbatim>\<open>components/EnhancedVoiceChat.tsx\<close>): the peers of a call, the microphone and
    what the panel shows. No two peers are ever connected: the gateway relays no signal.
  \<^item> RoomPage (\<^verbatim>\<open>pages/EnhancedRoomPage.tsx\<close>, \<^verbatim>\<open>components/ChatPanel.tsx\<close>): a room's page, and all pages
    with the gateway as one system: a page whose connection is in its room only shows what the database
    holds, whatever rooms the connections of the others are in.

  \<^bold>\<open>Accounts and sessions.\<close>
  \<^item> Revocation (\<^verbatim>\<open>auth/token-payload.ts\<close>, \<^verbatim>\<open>auth/revocation.service.ts\<close>): the snapshot and its reload,
    split at its awaits into an inductive step relation.
  \<^item> Guards (\<^verbatim>\<open>auth/jwt-auth.guard.ts\<close>, \<^verbatim>\<open>sync/ws-auth.ts\<close>, \<^verbatim>\<open>sync/socket-eviction.ts\<close>): both planes agree,
    eviction is exact.
  \<^item> Username (\<^verbatim>\<open>auth/google/username.ts\<close>), Accounts (\<^verbatim>\<open>auth/auth.service.ts\<close>,
    \<^verbatim>\<open>auth/guest-sweeper.service.ts\<close>): the tables under their unique constraints, in every run.
  \<^item> Sessions: what the account operations promise: rotation, age, password change, credentials.
  \<^item> OAuth (\<^verbatim>\<open>auth/google/oauth-state.ts\<close>, \<^verbatim>\<open>auth/google/google-oauth.service.ts\<close>,
    \<^verbatim>\<open>services/return-to.ts\<close>): the sealed flow state and the filter on return paths.
  \<^item> RateBucket (\<^verbatim>\<open>auth/rate-bucket.ts\<close>): the token bucket, and the limits on guest creation.
  \<^item> AuthRoutes (\<^verbatim>\<open>auth/auth.controller.ts\<close>): every route; step-up, elevation, signing out.

  \<^item> Configuration (\<^verbatim>\<open>config/configuration.ts\<close>, \<^verbatim>\<open>auth/google/cookies.ts\<close>): the environment the server boots
    from, failing closed, and the cookie of a sign-in flow.
  \<^item> ApiClient (\<^verbatim>\<open>services/api.ts\<close>, \<^verbatim>\<open>services/recent-rooms.ts\<close>): requests and their interceptors, the
    browser's storage, the list of recent rooms.
  \<^item> BrowserSession (\<^verbatim>\<open>contexts/AuthContext.tsx\<close>, \<^verbatim>\<open>contexts/SocketContext.tsx\<close>,
    \<^verbatim>\<open>pages/AuthCallbackPage.tsx\<close>, \<^verbatim>\<open>sync/drop-stale-controls.ts\<close>): a tab with its socket, and several tabs
    over one storage. A tab acts as the user it shows.
  \<^item> Dialogs (\<^verbatim>\<open>components/AccountDialog.tsx\<close>, \<^verbatim>\<open>components/ClaimAccount.tsx\<close> and the small pages): with the
    routes of the server, a password change keeps the tab that made it.

  \<^bold>\<open>Measurement and the binary plane.\<close>
  \<^item> RunStats (\<^verbatim>\<open>sync-harness/src/stats.ts\<close>): drift between clients from their samples, and convergence.
  \<^item> SimPlayer (\<^verbatim>\<open>bots/sim-player.ts\<close>): the seeded generator at its 32 bits and the player it drives.
  \<^item> BotClient (\<^verbatim>\<open>bots/bot-client.ts\<close>, \<^verbatim>\<open>bots/run-bots.ts\<close>): a bot, its report and the gate over a fleet.
  \<^item> BinaryFrames (\<^verbatim>\<open>bots/transport.ts\<close>, the frames of \<^verbatim>\<open>relay-go/main.go\<close>): frames down to the bits of a
    double, with the relay's conversion of the scripts' answers; what one side writes the other reads,
    but a reason without a code is read as a play.

  \<^bold>\<open>Conventions.\<close> A class is a record, an operation returns the updated record with its answer, and a
  thrown error or an early return is a value of the answer's type. What the code draws or reads from
  outside (clocks, random ids, a player's answers, rows of a query, the answer to a request) is an
  argument. Handlers are one step where a promise chain or the event loop makes them one; where
  awaits let others in (the reload of revocations, the rotation of a token, the capacity check of a
  join, the actor store's scripts) the steps are separate and the properties range over their
  interleavings. There is no fuel: recursion is structural or has a measure, and the polling of
  captions, which the code does not bound, is a partial function that is shown to return. Parameters
  stand for the JWT library (how it reads a lifetime is the locale \<open>jwt_reading\<close>), password hashing,
  Node's HMAC, the JSON and base64url codec, the URL parser, percent-encoding, the decorators of the
  validation library (the locale \<open>class_validator\<close>), the exchange with Google, whether the HTTP client
  reads the stored token at once, and the subscribers of a publish. Theorems about defects are kept
  beside the component they concern, e.g. a socket that joins a second room, overlapping joins past
  the capacity, a racing first Google sign-in, a paused nudge that keeps its rate, a wrong password
  that signs the tab out, settings that cap an unlimited room.

  \<^bold>\<open>Not modelled.\<close> Rounding of doubles outside the binary frames; characters beyond the first 256;
  metrics, logs and failures of the database; the renewal timers and pub/sub subscriptions; cookie
  attributes; the audio measurement through the Web Audio API; markup, styles and focus of the React
  views; module wiring; driving browsers, load generation and the printing of reports in the harness;
  the room actors of the relays in Go and Rust, which are prototypes in other languages; the TLA+
  models; the generated copies of \<^verbatim>\<open>shared\<close>.
\<close>

end
